(* ===== verification/Etas_Prelude.thy ===== *)
theory Etas_Prelude
  imports Main "HOL-Library.Monad_Syntax"
begin

text \<open>
  The shared base of the development.

  \<^item> Rust text: a string slice is the list of its Unicode scalar values; offsets are byte
    offsets, so \<open>len\<close>, slicing and \<open>as_bytes\<close> go through the UTF-8 length and encoding of
    each scalar value. Slicing off a character boundary panics in Rust and is \<open>None\<close> here.
  \<^item> Outcomes: a computation of the front end that polls a caller-supplied checkpoint ends
    with a value, with the caller's interruption, or with a panic. The result of the
    \<open>n\<close>-th poll is \<open>chk n\<close>; the number of polls so far is threaded through.
  \<^item> Stateful code: an operation takes the state and returns \<open>Some (result, state)\<close>, or
    \<open>None\<close> where it panics or does not return; \<open>returns m Q\<close> is total correctness, that
    \<open>m\<close> does return and that its result and final state satisfy \<open>Q\<close>.
\<close>

named_theorems etas_simps \<open>characteristic equations of the operations of the model\<close>
named_theorems run_intros \<open>introduction rules for outcome specifications\<close>

section \<open>Rust text\<close>

type_synonym uchar = nat
type_synonym utext = "uchar list"

definition uc :: "char \<Rightarrow> uchar" where
  "uc c = of_char c"

definition lit :: "string \<Rightarrow> utext" where
  "lit s = map uc s"

definition len_utf8 :: "uchar \<Rightarrow> nat" where
  "len_utf8 c = (if c < 0x80 then 1 else if c < 0x800 then 2 else if c < 0x10000 then 3 else 4)"

definition utf8_char :: "uchar \<Rightarrow> nat list" where
  "utf8_char c =
     (if c < 0x80 then [c]
      else if c < 0x800 then [0xC0 + c div 0x40, 0x80 + c mod 0x40]
      else if c < 0x10000 then
        [0xE0 + c div 0x1000, 0x80 + (c div 0x40) mod 0x40, 0x80 + c mod 0x40]
      else
        [0xF0 + c div 0x40000, 0x80 + (c div 0x1000) mod 0x40,
         0x80 + (c div 0x40) mod 0x40, 0x80 + c mod 0x40])"

definition as_bytes :: "utext \<Rightarrow> nat list" where
  "as_bytes t = concat (map utf8_char t)"

definition blen :: "utext \<Rightarrow> nat" where
  "blen t = sum_list (map len_utf8 t)"

text \<open>\<open>str_from t n\<close> is \<open>&t[n..]\<close>, \<open>str_upto t n\<close> is \<open>&t[..n]\<close>; \<open>None\<close> is the panic.\<close>

fun str_from :: "utext \<Rightarrow> nat \<Rightarrow> utext option" where
  "str_from t 0 = Some t"
| "str_from [] (Suc n) = None"
| "str_from (c # t) (Suc n) =
     (if len_utf8 c \<le> Suc n then str_from t (Suc n - len_utf8 c) else None)"

fun str_upto :: "utext \<Rightarrow> nat \<Rightarrow> utext option" where
  "str_upto t 0 = Some []"
| "str_upto [] (Suc n) = None"
| "str_upto (c # t) (Suc n) =
     (if len_utf8 c \<le> Suc n then map_option (Cons c) (str_upto t (Suc n - len_utf8 c)) else None)"

definition str_range :: "utext \<Rightarrow> nat \<Rightarrow> nat \<Rightarrow> utext option" where
  "str_range t a b =
     (if a \<le> b then (case str_from t a of None \<Rightarrow> None | Some r \<Rightarrow> str_upto r (b - a)) else None)"

definition starts_with :: "utext \<Rightarrow> utext \<Rightarrow> bool" where
  "starts_with t p \<longleftrightarrow> take (length p) t = p"

lemma len_utf8_pos [simp]: "0 < len_utf8 c"
  by (simp add: len_utf8_def)

lemma len_utf8_ge_1 [simp]: "Suc 0 \<le> len_utf8 c"
  by (simp add: len_utf8_def)

lemma len_utf8_not_0 [simp]: "len_utf8 c \<noteq> 0"
  by (simp add: len_utf8_def)

lemma len_utf8_ascii [simp]: "c < 0x80 \<Longrightarrow> len_utf8 c = 1"
  by (simp add: len_utf8_def)

lemma length_utf8_char [simp]: "length (utf8_char c) = len_utf8 c"
  by (simp add: utf8_char_def len_utf8_def)

lemma blen_Nil [simp]: "blen [] = 0"
  by (simp add: blen_def)

lemma blen_Cons [simp]: "blen (c # t) = len_utf8 c + blen t"
  by (simp add: blen_def)

lemma blen_append [simp]: "blen (s @ t) = blen s + blen t"
  by (simp add: blen_def)

lemma blen_0_iff [simp]: "blen t = 0 \<longleftrightarrow> t = []"
  by (cases t) auto

lemma blen_pos_iff: "0 < blen t \<longleftrightarrow> t \<noteq> []"
  using blen_0_iff [of t] by linarith

lemma length_as_bytes [simp]: "length (as_bytes t) = blen t"
  by (induction t) (simp_all add: as_bytes_def blen_def)

lemma as_bytes_append [simp]: "as_bytes (s @ t) = as_bytes s @ as_bytes t"
  by (simp add: as_bytes_def)

lemma as_bytes_Cons [simp]: "as_bytes (c # t) = utf8_char c @ as_bytes t"
  by (simp add: as_bytes_def)

lemma as_bytes_Nil [simp]: "as_bytes [] = []"
  by (simp add: as_bytes_def)

lemma str_from_append [simp]: "str_from (s @ t) (blen s) = Some t"
proof (induction s)
  case Nil
  then show ?case by simp
next
  case (Cons c s)
  obtain n where n: "len_utf8 c + blen s = Suc n"
    using len_utf8_pos [of c] by (metis add_gr_0 gr0_implies_Suc)
  then have "Suc n - len_utf8 c = blen s" by linarith
  with n Cons show ?case by simp
qed

lemma str_from_self [simp]: "str_from t (blen t) = Some []"
  using str_from_append [of t "[]"] by simp

lemma str_upto_append [simp]: "str_upto (s @ t) (blen s) = Some s"
proof (induction s)
  case Nil
  then show ?case by simp
next
  case (Cons c s)
  obtain n where n: "len_utf8 c + blen s = Suc n"
    using len_utf8_pos [of c] by (metis add_gr_0 gr0_implies_Suc)
  then have "Suc n - len_utf8 c = blen s" by linarith
  with n Cons show ?case by simp
qed

lemma str_range_append: "str_range (r @ s @ t) (blen r) (blen r + blen s) = Some s"
  by (simp add: str_range_def)

lemma str_from_SomeD: "str_from t n = Some r \<Longrightarrow> \<exists>s. t = s @ r \<and> n = blen s"
proof (induction t n rule: str_from.induct)
  case (3 c t n)
  then have le: "len_utf8 c \<le> Suc n" and "str_from t (Suc n - len_utf8 c) = Some r"
    by (auto split: if_splits)
  with "3.IH" obtain s where "t = s @ r" "Suc n - len_utf8 c = blen s" by blast
  with le have "c # t = (c # s) @ r \<and> Suc n = blen (c # s)" by simp
  then show ?case by blast
qed auto

lemma starts_with_Nil [simp]: "starts_with t []"
  by (simp add: starts_with_def)

lemma starts_with_iff: "starts_with t p \<longleftrightarrow> (\<exists>r. t = p @ r)"
  by (metis append_eq_conv_conj append_take_drop_id starts_with_def)


section \<open>Outcomes of polled computations\<close>

datatype ('e, 'a) run = Done 'a | Interrupted 'e | Panic

fun run_bind :: "('e, 'a) run \<Rightarrow> ('a \<Rightarrow> ('e, 'b) run) \<Rightarrow> ('e, 'b) run" where
  "run_bind (Done x) f = f x"
| "run_bind (Interrupted e) f = Interrupted e"
| "run_bind Panic f = Panic"

lemma run_bind_cong [fundef_cong]:
  "m = m' \<Longrightarrow> (\<And>x. m' = Done x \<Longrightarrow> f x = g x) \<Longrightarrow> run_bind m f = run_bind m' g"
  by (cases m') auto

text \<open>
  \<open>run_spec chk k r Q\<close>: starting after \<open>k\<close> polls, the outcome \<open>r\<close> is no panic; a value
  satisfies \<open>Q\<close> and every poll made on the way succeeded; an interruption carries the error
  of the first poll that failed.
\<close>

definition run_spec ::
  "(nat \<Rightarrow> 'e option) \<Rightarrow> nat \<Rightarrow> ('e, 'a \<times> nat) run \<Rightarrow> ('a \<Rightarrow> bool) \<Rightarrow> bool" where
  "run_spec chk k r Q \<longleftrightarrow>
     (case r of
        Done (x, k') \<Rightarrow> k \<le> k' \<and> (\<forall>i. k \<le> i \<and> i < k' \<longrightarrow> chk i = None) \<and> Q x
      | Interrupted e \<Rightarrow> \<exists>j\<ge>k. chk j = Some e \<and> (\<forall>i. k \<le> i \<and> i < j \<longrightarrow> chk i = None)
      | Panic \<Rightarrow> False)"

lemma run_spec_Done [run_intros]: "Q x \<Longrightarrow> run_spec chk k (Done (x, k)) Q"
  by (auto simp: run_spec_def)

lemma run_spec_conseq:
  "run_spec chk k r Q \<Longrightarrow> (\<And>x. Q x \<Longrightarrow> R x) \<Longrightarrow> run_spec chk k r R"
  by (auto simp: run_spec_def split: run.splits)

lemma run_spec_bind:
  assumes m: "run_spec chk k m Q"
    and f: "\<And>x k'. Q x \<Longrightarrow> run_spec chk k' (f (x, k')) R"
  shows "run_spec chk k (run_bind m f) R"
proof (cases m)
  case (Done y)
  obtain x k' where y: "y = (x, k')" by (cases y)
  with m Done have le: "k \<le> k'" and ok: "\<And>i. k \<le> i \<Longrightarrow> i < k' \<Longrightarrow> chk i = None" and Q: "Q x"
    by (auto simp: run_spec_def)
  from f [OF Q] have fx: "run_spec chk k' (f (x, k')) R" .
  show ?thesis
  proof (cases "f (x, k')")
    case (Done z)
    obtain w k'' where z: "z = (w, k'')" by (cases z)
    with fx Done have "k' \<le> k''" "\<And>i. k' \<le> i \<Longrightarrow> i < k'' \<Longrightarrow> chk i = None" "R w"
      by (auto simp: run_spec_def)
    with le ok have "k \<le> k''" "\<And>i. k \<le> i \<Longrightarrow> i < k'' \<Longrightarrow> chk i = None" "R w"
      by (force, metis not_le, simp)
    with Done z \<open>m = Done y\<close> y show ?thesis by (simp add: run_spec_def)
  next
    case (Interrupted e)
    with fx obtain j where "k' \<le> j" "chk j = Some e" "\<And>i. k' \<le> i \<Longrightarrow> i < j \<Longrightarrow> chk i = None"
      by (auto simp: run_spec_def)
    with le ok have "k \<le> j \<and> chk j = Some e \<and> (\<forall>i. k \<le> i \<and> i < j \<longrightarrow> chk i = None)"
      by (metis le_trans not_le)
    with Interrupted \<open>m = Done y\<close> y show ?thesis by (auto simp: run_spec_def)
  next
    case Panic
    with fx show ?thesis by (simp add: run_spec_def)
  qed
next
  case (Interrupted e)
  with m show ?thesis by (simp add: run_spec_def)
next
  case Panic
  with m show ?thesis by (simp add: run_spec_def)
qed

definition checkpoint :: "(nat \<Rightarrow> 'e option) \<Rightarrow> nat \<Rightarrow> ('e, unit \<times> nat) run" where
  "checkpoint chk k = (case chk k of None \<Rightarrow> Done ((), Suc k) | Some e \<Rightarrow> Interrupted e)"

lemma run_spec_Suc:
  assumes "chk k = None" and "run_spec chk (Suc k) r Q"
  shows "run_spec chk k r Q"
proof -
  have *: "chk i = None" if "k \<le> i" "\<And>i. Suc k \<le> i \<Longrightarrow> i < m \<Longrightarrow> chk i = None" "i < m" for i m
    using that assms(1) by (metis le_neq_implies_less Suc_leI)
  show ?thesis
    using assms(2) * by (auto simp: run_spec_def split: run.splits) (metis Suc_leD)
qed

lemma run_spec_checkpoint:
  assumes "chk k = None \<Longrightarrow> run_spec chk (Suc k) (f ((), Suc k)) R"
  shows "run_spec chk k (run_bind (checkpoint chk k) f) R"
proof (cases "chk k")
  case None
  with assms show ?thesis by (simp add: checkpoint_def run_spec_Suc)
next
  case (Some e)
  then show ?thesis by (auto simp: checkpoint_def run_spec_def intro!: exI [of _ k])
qed

lemma run_spec_no_interrupt:
  assumes "run_spec chk k r Q" and "\<And>j. chk j = None"
  shows "\<exists>x k'. r = Done (x, k') \<and> Q x"
  using assms by (auto simp: run_spec_def split: run.splits prod.splits)

section \<open>Stateful operations\<close>

definition returns :: "('a \<times> 's) option \<Rightarrow> ('a \<Rightarrow> 's \<Rightarrow> bool) \<Rightarrow> bool" where
  "returns m Q \<longleftrightarrow> (\<exists>x s. m = Some (x, s) \<and> Q x s)"

lemma returns_Some [simp]: "returns (Some (x, s)) Q \<longleftrightarrow> Q x s"
  by (simp add: returns_def)

lemma returns_None [simp]: "\<not> returns None Q"
  by (simp add: returns_def)

lemma returnsI: "m = Some (x, s) \<Longrightarrow> Q x s \<Longrightarrow> returns m Q"
  by (simp add: returns_def)

lemma returnsE:
  assumes "returns m Q"
  obtains x s where "m = Some (x, s)" "Q x s"
  using assms by (auto simp: returns_def)

lemma returns_bind:
  assumes "returns m P" and "\<And>x s. P x s \<Longrightarrow> returns (f (x, s)) Q"
  shows "returns (m \<bind> f) Q"
  using assms by (auto simp: returns_def)

lemma returns_conseq: "returns m P \<Longrightarrow> (\<And>x s. P x s \<Longrightarrow> Q x s) \<Longrightarrow> returns m Q"
  by (auto simp: returns_def)

lemma returns_conj: "returns m P \<Longrightarrow> returns m Q \<Longrightarrow> returns m (\<lambda>x s. P x s \<and> Q x s)"
  by (auto simp: returns_def)

end
