(* ===== verification/Etas_Token.thy ===== *)
theory Etas_Token
  imports Etas_Prelude
begin

text \<open>
  Tokens of \<open>etas_syntax\<close> (\<open>token.rs\<close>, \<open>trivia.rs\<close>): token kinds, keywords and punctuation
  with the keyword table, token streams and their significant tokens and trivia. A span is a
  value of the \<open>etas_core\<close> crate, so the span type is a parameter of every type here and the
  span operations the front end uses are the record \<open>span_api\<close>.
\<close>

section \<open>Span operations of \<open>etas_core\<close>\<close>

type_synonym source_id = nat

record 'sp span_api =
  span_new :: "source_id \<Rightarrow> nat \<Rightarrow> nat \<Rightarrow> 'sp"
  span_empty :: "source_id \<Rightarrow> nat \<Rightarrow> 'sp"
  span_cover :: "'sp \<Rightarrow> 'sp \<Rightarrow> 'sp"
  range_start :: "'sp \<Rightarrow> nat"
  range_end :: "'sp \<Rightarrow> nat"

text \<open>The concrete span used by witnesses: source, start and end offset.\<close>

definition plain_spans :: "(source_id \<times> nat \<times> nat) span_api" where
  "plain_spans = \<lparr>span_new = (\<lambda>s a b. (s, a, b)), span_empty = (\<lambda>s a. (s, a, a)),
     span_cover = (\<lambda>(s, a, b) (_, a', b'). (s, min a a', max b b')),
     range_start = (\<lambda>(_, a, _). a), range_end = (\<lambda>(_, _, b). b)\<rparr>"

record source_file =
  src_id :: source_id
  src_text :: utext

section \<open>Token kinds\<close>

datatype comment_kind = LineC | BlockC

datatype trivia_kind = TrWhitespace | TrLineComment | TrBlockComment

datatype keyword =
    KModule | KImport | KAs | KAlias | KType | KEnum | KSpec | KImpl | KWhere | KPrivate
    | KPublic | KFlow | KEffect | KExtends | KPolicy | KFollows | KAction | KPerform
    | KHandle | KHandler | KWith | KResume | KFinish | KTool | KAgent | KAllow | KRequire
    | KDeny | KBefore | KAfter | KProtocol | KLet | KVar | KIf | KElse | KMatch | KFor | KIn
    | KWhile | KLimit | KRetry | KReturn | KBreak | KContinue | KTrue | KFalse

datatype punct =
    PLParen | PRParen | PLBrace | PRBrace | PLBracket | PRBracket | PComma | PDot | PColon
    | PColonColon | PSemi | PArrow | PFatArrow | PPipe | PTilde | PTildeArrow | PEq | PEqEq
    | PBang | PBangEq | PLt | PLtEq | PGt | PGtEq | PPlus | PMinus | PAmp | PStar | PSlash
    | PPercent | PAmpAmp | PPipePipe | PQuestion | PHash | PAt | PCaret

datatype token_kind =
    Ident | IntLit | FloatLit | StringLit | CharLit
  | Keyword keyword | Punct punct
  | Whitespace | Comment comment_kind | Unknown | Eof

record 'sp token =
  tok_kind :: token_kind
  tok_span :: 'sp

record 'sp trivia =
  tr_kind :: trivia_kind
  tr_span :: 'sp

record 'sp token_stream =
  ts_source :: source_id
  ts_tokens :: "'sp token list"

fun token_trivia_kind :: "token_kind \<Rightarrow> trivia_kind option" where
  "token_trivia_kind Whitespace = Some TrWhitespace"
| "token_trivia_kind (Comment LineC) = Some TrLineComment"
| "token_trivia_kind (Comment BlockC) = Some TrBlockComment"
| "token_trivia_kind _ = None"

definition is_trivia :: "token_kind \<Rightarrow> bool" where
  "is_trivia k \<longleftrightarrow> token_trivia_kind k \<noteq> None"

fun is_ident_like :: "token_kind \<Rightarrow> bool" where
  "is_ident_like Ident = True"
| "is_ident_like (Keyword _) = True"
| "is_ident_like _ = False"

definition significant_tokens :: "'sp token_stream \<Rightarrow> 'sp token list" where
  "significant_tokens ts = filter (\<lambda>t. \<not> is_trivia (tok_kind t)) (ts_tokens ts)"

definition stream_trivia :: "'sp token_stream \<Rightarrow> 'sp trivia list" where
  "stream_trivia ts =
     List.map_filter (\<lambda>t. map_option (\<lambda>k. \<lparr>tr_kind = k, tr_span = tok_span t\<rparr>)
       (token_trivia_kind (tok_kind t))) (ts_tokens ts)"

section \<open>The keyword table\<close>

definition from_ident :: "utext \<Rightarrow> keyword option" where
  "from_ident s =
     (if s = lit ''module'' then Some KModule
      else if s = lit ''import'' then Some KImport
      else if s = lit ''as'' then Some KAs
      else if s = lit ''alias'' then Some KAlias
      else if s = lit ''type'' then Some KType
      else if s = lit ''enum'' then Some KEnum
      else if s = lit ''spec'' then Some KSpec
      else if s = lit ''impl'' then Some KImpl
      else if s = lit ''where'' then Some KWhere
      else if s = lit ''private'' then Some KPrivate
      else if s = lit ''public'' then Some KPublic
      else if s = lit ''flow'' then Some KFlow
      else if s = lit ''effect'' then Some KEffect
      else if s = lit ''extends'' then Some KExtends
      else if s = lit ''policy'' then Some KPolicy
      else if s = lit ''follows'' then Some KFollows
      else if s = lit ''action'' then Some KAction
      else if s = lit ''perform'' then Some KPerform
      else if s = lit ''handle'' then Some KHandle
      else if s = lit ''handler'' then Some KHandler
      else if s = lit ''with'' then Some KWith
      else if s = lit ''resume'' then Some KResume
      else if s = lit ''finish'' then Some KFinish
      else if s = lit ''tool'' then Some KTool
      else if s = lit ''agent'' then Some KAgent
      else if s = lit ''allow'' then Some KAllow
      else if s = lit ''require'' then Some KRequire
      else if s = lit ''deny'' then Some KDeny
      else if s = lit ''before'' then Some KBefore
      else if s = lit ''after'' then Some KAfter
      else if s = lit ''protocol'' then Some KProtocol
      else if s = lit ''let'' then Some KLet
      else if s = lit ''var'' then Some KVar
      else if s = lit ''if'' then Some KIf
      else if s = lit ''else'' then Some KElse
      else if s = lit ''match'' then Some KMatch
      else if s = lit ''for'' then Some KFor
      else if s = lit ''in'' then Some KIn
      else if s = lit ''while'' then Some KWhile
      else if s = lit ''limit'' then Some KLimit
      else if s = lit ''retry'' then Some KRetry
      else if s = lit ''return'' then Some KReturn
      else if s = lit ''break'' then Some KBreak
      else if s = lit ''continue'' then Some KContinue
      else if s = lit ''true'' then Some KTrue
      else if s = lit ''false'' then Some KFalse
      else None)"

text \<open>The spelling of each keyword, the specification of the table.\<close>

fun keyword_text :: "keyword \<Rightarrow> utext" where
  "keyword_text KModule = lit ''module''"
| "keyword_text KImport = lit ''import''"
| "keyword_text KAs = lit ''as''"
| "keyword_text KAlias = lit ''alias''"
| "keyword_text KType = lit ''type''"
| "keyword_text KEnum = lit ''enum''"
| "keyword_text KSpec = lit ''spec''"
| "keyword_text KImpl = lit ''impl''"
| "keyword_text KWhere = lit ''where''"
| "keyword_text KPrivate = lit ''private''"
| "keyword_text KPublic = lit ''public''"
| "keyword_text KFlow = lit ''flow''"
| "keyword_text KEffect = lit ''effect''"
| "keyword_text KExtends = lit ''extends''"
| "keyword_text KPolicy = lit ''policy''"
| "keyword_text KFollows = lit ''follows''"
| "keyword_text KAction = lit ''action''"
| "keyword_text KPerform = lit ''perform''"
| "keyword_text KHandle = lit ''handle''"
| "keyword_text KHandler = lit ''handler''"
| "keyword_text KWith = lit ''with''"
| "keyword_text KResume = lit ''resume''"
| "keyword_text KFinish = lit ''finish''"
| "keyword_text KTool = lit ''tool''"
| "keyword_text KAgent = lit ''agent''"
| "keyword_text KAllow = lit ''allow''"
| "keyword_text KRequire = lit ''require''"
| "keyword_text KDeny = lit ''deny''"
| "keyword_text KBefore = lit ''before''"
| "keyword_text KAfter = lit ''after''"
| "keyword_text KProtocol = lit ''protocol''"
| "keyword_text KLet = lit ''let''"
| "keyword_text KVar = lit ''var''"
| "keyword_text KIf = lit ''if''"
| "keyword_text KElse = lit ''else''"
| "keyword_text KMatch = lit ''match''"
| "keyword_text KFor = lit ''for''"
| "keyword_text KIn = lit ''in''"
| "keyword_text KWhile = lit ''while''"
| "keyword_text KLimit = lit ''limit''"
| "keyword_text KRetry = lit ''retry''"
| "keyword_text KReturn = lit ''return''"
| "keyword_text KBreak = lit ''break''"
| "keyword_text KContinue = lit ''continue''"
| "keyword_text KTrue = lit ''true''"
| "keyword_text KFalse = lit ''false''"

lemma lit_inject [simp]: "lit s = lit t \<longleftrightarrow> s = t"
proof
  assume "lit s = lit t"
  then have "map (char_of :: nat \<Rightarrow> char) (lit s) = map char_of (lit t)" by simp
  then show "s = t" by (simp add: lit_def uc_def comp_def)
qed simp

lemma from_ident_keyword_text: "from_ident (keyword_text k) = Some k"
  by (cases k) (simp_all add: from_ident_def)

lemma from_ident_SomeD: "from_ident s = Some k \<Longrightarrow> s = keyword_text k"
  by (auto simp: from_ident_def split: if_splits)

lemma significant_trivia_length:
  "length (significant_tokens ts) + length (stream_trivia ts) = length (ts_tokens ts)"
proof -
  have "length (filter (\<lambda>t. \<not> is_trivia (tok_kind t)) xs) +
      length (List.map_filter (\<lambda>t. map_option (\<lambda>k. \<lparr>tr_kind = k, tr_span = tok_span t\<rparr>)
       (token_trivia_kind (tok_kind t))) xs) = length xs" for xs :: "'a token list"
    by (induction xs) (auto simp: List.map_filter_simps is_trivia_def split: option.splits)
  then show ?thesis by (simp add: significant_tokens_def stream_trivia_def)
qed

end
