(* ===== verification/Etas_Lexer.thy ===== *)
theory Etas_Lexer
  imports Etas_Token "HOL-Library.Sublist"
begin

text \<open>
  The lexer of \<open>etas_syntax\<close> (\<open>lexer.rs\<close>). Every loop of \<open>lex_with_checkpoint\<close> is a function
  on the whole text and the current byte offset, as in the source; each poll of the caller's
  checkpoint is explicit. The Unicode tables behind \<open>char::is_alphabetic\<close> and
  \<open>char::is_numeric\<close> beyond ASCII are the parameter \<open>unicode\<close>.

  The specification is a segmentation: the text is the concatenation of the lexemes of the
  tokens, each lexeme is non-empty and is a well-formed, maximal lexeme of its token's kind.
\<close>

section \<open>Character classes of the Rust standard library\<close>

record unicode =
  uni_alphabetic :: "uchar \<Rightarrow> bool"
  uni_numeric :: "uchar \<Rightarrow> bool"

definition is_whitespace :: "uchar \<Rightarrow> bool" where
  "is_whitespace c \<longleftrightarrow> c = 0x20 \<or> (0x09 \<le> c \<and> c \<le> 0x0D) \<or> c = 0x85 \<or> c = 0xA0 \<or> c = 0x1680 \<or>
     (0x2000 \<le> c \<and> c \<le> 0x200A) \<or> c = 0x2028 \<or> c = 0x2029 \<or> c = 0x202F \<or> c = 0x205F \<or> c = 0x3000"

definition is_ascii_digit :: "uchar \<Rightarrow> bool" where
  "is_ascii_digit c \<longleftrightarrow> 0x30 \<le> c \<and> c \<le> 0x39"

definition is_ascii_letter :: "uchar \<Rightarrow> bool" where
  "is_ascii_letter c \<longleftrightarrow> (0x41 \<le> c \<and> c \<le> 0x5A) \<or> (0x61 \<le> c \<and> c \<le> 0x7A)"

definition is_ascii_alphanumeric :: "uchar \<Rightarrow> bool" where
  "is_ascii_alphanumeric c \<longleftrightarrow> is_ascii_letter c \<or> is_ascii_digit c"

definition is_alphabetic :: "unicode \<Rightarrow> uchar \<Rightarrow> bool" where
  "is_alphabetic u c \<longleftrightarrow> (if c < 0x80 then is_ascii_letter c else uni_alphabetic u c)"

definition is_alphanumeric :: "unicode \<Rightarrow> uchar \<Rightarrow> bool" where
  "is_alphanumeric u c \<longleftrightarrow>
     (if c < 0x80 then is_ascii_alphanumeric c else uni_alphabetic u c \<or> uni_numeric u c)"

definition is_ident_start :: "unicode \<Rightarrow> uchar \<Rightarrow> bool" where
  "is_ident_start u c \<longleftrightarrow> c = uc (CHR ''_'') \<or> is_alphabetic u c"

definition is_ident_continue :: "unicode \<Rightarrow> uchar \<Rightarrow> bool" where
  "is_ident_continue u c \<longleftrightarrow> c = uc (CHR ''_'') \<or> is_alphanumeric u c"

definition digit_or_underscore :: "uchar \<Rightarrow> bool" where
  "digit_or_underscore c \<longleftrightarrow> is_ascii_digit c \<or> c = uc (CHR ''_'')"

definition alnum_or_underscore :: "uchar \<Rightarrow> bool" where
  "alnum_or_underscore c \<longleftrightarrow> is_ascii_alphanumeric c \<or> c = uc (CHR ''_'')"

abbreviation backslash :: uchar where "backslash \<equiv> 0x5C"
abbreviation newline :: uchar where "newline \<equiv> 0x0A"
abbreviation dquote :: uchar where "dquote \<equiv> 0x22"
abbreviation squote :: uchar where "squote \<equiv> 0x27"

section \<open>Diagnostics\<close>

text \<open>\<open>Diagnostic\<close> is a value of \<open>etas_core\<close>; the model records how it was built.\<close>

datatype syntax_code =
    UnterminatedBlockComment | UnterminatedString | InvalidLiteral | UnexpectedToken
  | MissingToken | UnexpectedEof | UnclosedDelimiter | InvalidItem

datatype applicability = MachineApplicable | HasPlaceholders | MaybeIncorrect

record 'sp suggestion =
  sg_title :: utext
  sg_edit :: "'sp \<times> utext"
  sg_applicability :: applicability

record 'sp diagnostic =
  dg_lex :: bool
  dg_code :: syntax_code
  dg_span :: 'sp
  dg_message :: utext
  dg_secondary :: "('sp \<times> utext) list"
  dg_suggestions :: "'sp suggestion list"

definition diagnostic_lex :: "syntax_code \<Rightarrow> 'sp \<Rightarrow> string \<Rightarrow> 'sp diagnostic" where
  "diagnostic_lex c s m = \<lparr>dg_lex = True, dg_code = c, dg_span = s, dg_message = lit m,
     dg_secondary = [], dg_suggestions = []\<rparr>"

section \<open>The loops\<close>

text \<open>\<open>text[offset..].chars().next()\<close>, with \<open>None\<close> for a panic.\<close>

definition next_char :: "utext \<Rightarrow> nat \<Rightarrow> uchar option option" where
  "next_char t n = map_option (\<lambda>r. case r of [] \<Rightarrow> None | c # _ \<Rightarrow> Some c) (str_from t n)"

text \<open>
  The loop \<open>while offset < text.len() { checkpoint()?; let next = ...; if !p(next) { break; }
  offset += next.len_utf8(); }\<close> that six branches of the lexer share.
\<close>

function scan_while ::
  "(nat \<Rightarrow> 'e option) \<Rightarrow> (uchar \<Rightarrow> bool) \<Rightarrow> utext \<Rightarrow> nat \<Rightarrow> nat \<Rightarrow> ('e, nat \<times> nat) run" where
  "scan_while chk p t offset k =
     (if offset < blen t then
        run_bind (checkpoint chk k) (\<lambda>(_, k).
          case next_char t offset of
            Some (Some c) \<Rightarrow>
              if p c then scan_while chk p t (offset + len_utf8 c) k else Done (offset, k)
          | _ \<Rightarrow> Panic)
      else Done (offset, k))"
  by pat_completeness auto
termination
  by (relation "measure (\<lambda>(_, _, t, offset, _). blen t - offset)") (auto intro: diff_less_mono2)

text \<open>The line-comment loop runs over the bytes of the text.\<close>

function scan_line ::
  "(nat \<Rightarrow> 'e option) \<Rightarrow> utext \<Rightarrow> nat \<Rightarrow> nat \<Rightarrow> ('e, nat \<times> nat) run" where
  "scan_line chk t offset k =
     (if offset < blen t \<and> as_bytes t ! offset \<noteq> newline then
        run_bind (checkpoint chk k) (\<lambda>(_, k). scan_line chk t (offset + 1) k)
      else Done (offset, k))"
  by pat_completeness auto
termination
  by (relation "measure (\<lambda>(_, t, offset, _). blen t - offset)") auto

function scan_block ::
  "(nat \<Rightarrow> 'e option) \<Rightarrow> utext \<Rightarrow> nat \<Rightarrow> nat \<Rightarrow> ('e, nat \<times> nat) run" where
  "scan_block chk t offset k =
     (if offset < blen t then
        (case str_from t offset of
           None \<Rightarrow> Panic
         | Some r \<Rightarrow>
             if starts_with r (lit ''*/'') then Done (offset, k)
             else run_bind (checkpoint chk k) (\<lambda>(_, k).
               case r of [] \<Rightarrow> Panic | c # _ \<Rightarrow> scan_block chk t (offset + len_utf8 c) k))
      else Done (offset, k))"
  by pat_completeness auto
termination
  by (relation "measure (\<lambda>(_, t, offset, _). blen t - offset)") (auto intro: diff_less_mono2)

text \<open>The string and the character literal loop: the flag says whether the quote was closed.\<close>

function scan_quoted ::
  "(nat \<Rightarrow> 'e option) \<Rightarrow> uchar \<Rightarrow> utext \<Rightarrow> nat \<Rightarrow> nat \<Rightarrow> ('e, (bool \<times> nat) \<times> nat) run" where
  "scan_quoted chk q t offset k =
     (if offset < blen t then
        run_bind (checkpoint chk k) (\<lambda>(_, k).
          case next_char t offset of
            Some (Some c) \<Rightarrow>
              (let offset1 = offset + len_utf8 c in
               if c = backslash \<and> offset1 < blen t then
                 (case next_char t offset1 of
                    Some (Some d) \<Rightarrow> scan_quoted chk q t (offset1 + len_utf8 d) k
                  | _ \<Rightarrow> Panic)
               else if c = q then Done ((True, offset1), k)
               else if c = newline then Done ((False, offset1), k)
               else scan_quoted chk q t offset1 k)
          | _ \<Rightarrow> Panic)
      else Done ((False, offset), k))"
  by pat_completeness auto
termination
  by (relation "measure (\<lambda>(_, _, t, offset, _). blen t - offset)") (auto intro: diff_less_mono2)

declare scan_while.simps [simp del] scan_line.simps [simp del]
  scan_block.simps [simp del] scan_quoted.simps [simp del]

section \<open>Number literals and punctuation\<close>

text \<open>A fraction: a dot followed by a digit.\<close>

definition lex_fraction ::
  "(nat \<Rightarrow> 'e option) \<Rightarrow> utext \<Rightarrow> nat \<Rightarrow> nat \<Rightarrow> ('e, (token_kind \<times> nat) \<times> nat) run" where
  "lex_fraction chk t offset k =
     (if offset < blen t then
        (case str_from t offset of
           None \<Rightarrow> Panic
         | Some r \<Rightarrow>
             if starts_with r (lit ''.'') then
               (case next_char t (offset + 1) of
                  None \<Rightarrow> Panic
                | Some d \<Rightarrow>
                    if (case d of None \<Rightarrow> False | Some d \<Rightarrow> is_ascii_digit d) then
                      run_bind (scan_while chk digit_or_underscore t (offset + 1) k)
                        (\<lambda>(offset, k). Done ((FloatLit, offset), k))
                    else Done ((IntLit, offset), k))
             else Done ((IntLit, offset), k))
      else Done ((IntLit, offset), k))"

text \<open>An exponent: \<open>e\<close> or \<open>E\<close>, an optional sign, and any digits.\<close>

definition lex_exponent ::
  "(nat \<Rightarrow> 'e option) \<Rightarrow> utext \<Rightarrow> token_kind \<Rightarrow> nat \<Rightarrow> nat \<Rightarrow>
   ('e, (token_kind \<times> nat) \<times> nat) run" where
  "lex_exponent chk t kind offset k =
     (if offset < blen t then
        (case next_char t offset of
           None \<Rightarrow> Panic
         | Some e \<Rightarrow>
             if e = Some (uc (CHR ''e'')) \<or> e = Some (uc (CHR ''E'')) then
               (let offset = offset + 1 in
                run_bind
                  (if offset < blen t then
                     (case next_char t offset of
                        None \<Rightarrow> Panic
                      | Some s \<Rightarrow>
                          if s = Some (uc (CHR ''+'')) \<or> s = Some (uc (CHR ''-''))
                          then Done (offset + 1, k) else Done (offset, k))
                   else Done (offset, k)) (\<lambda>(offset, k).
                run_bind (scan_while chk digit_or_underscore t offset k)
                  (\<lambda>(offset, k). Done ((FloatLit, offset), k))))
             else Done ((kind, offset), k))
      else Done ((kind, offset), k))"

definition lex_decimal ::
  "(nat \<Rightarrow> 'e option) \<Rightarrow> utext \<Rightarrow> nat \<Rightarrow> nat \<Rightarrow> ('e, (token_kind \<times> nat) \<times> nat) run" where
  "lex_decimal chk t offset k =
     run_bind (scan_while chk digit_or_underscore t offset k) (\<lambda>(offset, k).
     run_bind (lex_fraction chk t offset k) (\<lambda>((kind, offset), k).
     lex_exponent chk t kind offset k))"

definition lex_number ::
  "(nat \<Rightarrow> 'e option) \<Rightarrow> utext \<Rightarrow> uchar \<Rightarrow> nat \<Rightarrow> nat \<Rightarrow> ('e, (token_kind \<times> nat) \<times> nat) run" where
  "lex_number chk t c offset k =
     (if c = uc (CHR ''0'') \<and> offset < blen t then
        (case next_char t offset of
           Some (Some pfx) \<Rightarrow>
             if pfx \<in> set (lit ''xXoObB'') then
               run_bind (scan_while chk alnum_or_underscore t (offset + len_utf8 pfx) k)
                 (\<lambda>(offset, k). Done ((IntLit, offset), k))
             else lex_decimal chk t offset k
         | _ \<Rightarrow> Panic)
      else lex_decimal chk t offset k)"

definition punct_two :: "(utext \<times> punct) list" where
  "punct_two =
     [(lit ''->'', PArrow), (lit ''=>'', PFatArrow), (lit ''~>'', PTildeArrow),
      (lit ''::'', PColonColon), (lit ''=='', PEqEq), (lit ''!='', PBangEq),
      (lit ''<='', PLtEq), (lit ''>='', PGtEq), (lit ''&&'', PAmpAmp),
      (lit ''||'', PPipePipe)]"

definition punct_one :: "uchar \<Rightarrow> punct option" where
  "punct_one c =
        (if c = uc (CHR ''('') then Some PLParen
         else if c = uc (CHR '')'') then Some PRParen
         else if c = uc (CHR ''{'') then Some PLBrace
         else if c = uc (CHR ''}'') then Some PRBrace
         else if c = uc (CHR ''['') then Some PLBracket
         else if c = uc (CHR '']'') then Some PRBracket
         else if c = uc (CHR '','') then Some PComma
         else if c = uc (CHR ''.'') then Some PDot
         else if c = uc (CHR '':'') then Some PColon
         else if c = uc (CHR '';'') then Some PSemi
         else if c = uc (CHR ''|'') then Some PPipe
         else if c = uc (CHR ''~'') then Some PTilde
         else if c = uc (CHR ''='') then Some PEq
         else if c = uc (CHR ''!'') then Some PBang
         else if c = uc (CHR ''<'') then Some PLt
         else if c = uc (CHR ''>'') then Some PGt
         else if c = uc (CHR ''+'') then Some PPlus
         else if c = uc (CHR ''-'') then Some PMinus
         else if c = uc (CHR ''&'') then Some PAmp
         else if c = uc (CHR ''*'') then Some PStar
         else if c = uc (CHR ''/'') then Some PSlash
         else if c = uc (CHR ''%'') then Some PPercent
         else if c = uc (CHR ''?'') then Some PQuestion
         else if c = uc (CHR ''#'') then Some PHash
         else if c = uc (CHR ''@'') then Some PAt
         else if c = uc (CHR ''^'') then Some PCaret
         else None)"

definition lex_punct :: "utext \<Rightarrow> (token_kind \<times> nat) option" where
  "lex_punct rest =
     (case find (\<lambda>(s, _). starts_with rest s) punct_two of
        Some (s, p) \<Rightarrow> Some (Punct p, blen s)
      | None \<Rightarrow>
          (case rest of
             [] \<Rightarrow> None
           | c # _ \<Rightarrow> map_option (\<lambda>p. (Punct p, 1)) (punct_one c)))"


fun punct_text :: "punct \<Rightarrow> utext" where
  "punct_text PLParen = lit ''(''"
| "punct_text PRParen = lit '')''"
| "punct_text PLBrace = lit ''{''"
| "punct_text PRBrace = lit ''}''"
| "punct_text PLBracket = lit ''[''"
| "punct_text PRBracket = lit '']''"
| "punct_text PComma = lit '',''"
| "punct_text PDot = lit ''.''"
| "punct_text PColon = lit '':''"
| "punct_text PColonColon = lit ''::''"
| "punct_text PSemi = lit '';''"
| "punct_text PArrow = lit ''->''"
| "punct_text PFatArrow = lit ''=>''"
| "punct_text PPipe = lit ''|''"
| "punct_text PTilde = lit ''~''"
| "punct_text PTildeArrow = lit ''~>''"
| "punct_text PEq = lit ''=''"
| "punct_text PEqEq = lit ''==''"
| "punct_text PBang = lit ''!''"
| "punct_text PBangEq = lit ''!=''"
| "punct_text PLt = lit ''<''"
| "punct_text PLtEq = lit ''<=''"
| "punct_text PGt = lit ''>''"
| "punct_text PGtEq = lit ''>=''"
| "punct_text PPlus = lit ''+''"
| "punct_text PMinus = lit ''-''"
| "punct_text PAmp = lit ''&''"
| "punct_text PStar = lit ''*''"
| "punct_text PSlash = lit ''/''"
| "punct_text PPercent = lit ''%''"
| "punct_text PAmpAmp = lit ''&&''"
| "punct_text PPipePipe = lit ''||''"
| "punct_text PQuestion = lit ''?''"
| "punct_text PHash = lit ''#''"
| "punct_text PAt = lit ''@''"
| "punct_text PCaret = lit ''^''"

section \<open>One token\<close>

type_synonym lex_error = "(syntax_code \<times> string) option"

text \<open>
  One iteration of the main loop from \<open>let rest = &text[offset..]\<close> on: the kind of the token
  pushed, the diagnostic pushed before it, and the new offset. The result \<open>None\<close> is the
  \<open>break\<close> at the end of the text.
\<close>

definition lex_one ::
  "(nat \<Rightarrow> 'e option) \<Rightarrow> unicode \<Rightarrow> utext \<Rightarrow> nat \<Rightarrow> nat \<Rightarrow>
   ('e, (token_kind \<times> lex_error \<times> nat) option \<times> nat) run" where
  "lex_one chk u t offset k =
     (case str_from t offset of
        None \<Rightarrow> Panic
      | Some [] \<Rightarrow> Done (None, k)
      | Some (c # rest') \<Rightarrow>
          (let rest = c # rest' in
           if is_whitespace c then
             run_bind (scan_while chk is_whitespace t (offset + len_utf8 c) k)
               (\<lambda>(offset, k). Done (Some (Whitespace, None, offset), k))
           else if starts_with rest (lit ''//'') then
             run_bind (scan_line chk t (offset + 2) k)
               (\<lambda>(offset, k). Done (Some (Comment LineC, None, offset), k))
           else if starts_with rest (lit ''/*'') then
             run_bind (scan_block chk t (offset + 2) k)
               (\<lambda>(offset, k).
                  if offset < blen t then Done (Some (Comment BlockC, None, offset + 2), k)
                  else Done (Some (Comment BlockC,
                         Some (UnterminatedBlockComment, ''unterminated block comment''), offset), k))
           else if is_ident_start u c then
             run_bind (scan_while chk (is_ident_continue u) t (offset + len_utf8 c) k)
               (\<lambda>(offset', k).
                  case str_range t offset offset' of
                    None \<Rightarrow> Panic
                  | Some ident \<Rightarrow>
                      Done (Some (case from_ident ident of None \<Rightarrow> Ident | Some kw \<Rightarrow> Keyword kw,
                        None, offset'), k))
           else if is_ascii_digit c then
             run_bind (lex_number chk t c (offset + len_utf8 c) k)
               (\<lambda>((kind, offset), k). Done (Some (kind, None, offset), k))
           else if c = dquote then
             run_bind (scan_quoted chk dquote t (offset + 1) k)
               (\<lambda>((terminated, offset), k).
                  Done (Some (StringLit, if terminated then None
                    else Some (UnterminatedString, ''unterminated string literal''), offset), k))
           else if c = squote then
             run_bind (scan_quoted chk squote t (offset + 1) k)
               (\<lambda>((terminated, offset), k).
                  Done (Some (CharLit, if terminated then None
                    else Some (InvalidLiteral, ''unterminated character literal''), offset), k))
           else
             (case lex_punct rest of
                Some (kind, n) \<Rightarrow> Done (Some (kind, None, offset + n), k)
              | None \<Rightarrow> Done (Some (Unknown, Some (UnexpectedToken, ''unknown token''),
                          offset + len_utf8 c), k))))"

section \<open>Reference lexemes\<close>

text \<open>
  Reference functions on the remaining text: what a scan that starts after the first
  character of a token has to consume. They do not mention offsets, polls or panics.
\<close>

fun block_body :: "utext \<Rightarrow> utext" where
  "block_body [] = []"
| "block_body (c # r) = (if starts_with (c # r) (lit ''*/'') then [] else c # block_body r)"

fun quoted_body :: "uchar \<Rightarrow> utext \<Rightarrow> bool \<times> utext" where
  "quoted_body q [] = (False, [])"
| "quoted_body q [c] = (c = q, [c])"
| "quoted_body q (c # d # r) =
     (if c = backslash then (case quoted_body q r of (b, w) \<Rightarrow> (b, c # d # w))
      else if c = q then (True, [c])
      else if c = newline then (False, [c])
      else (case quoted_body q (d # r) of (b, w) \<Rightarrow> (b, c # w)))"

definition digits_of :: "utext \<Rightarrow> utext" where
  "digits_of r = takeWhile digit_or_underscore r"

definition fraction_of :: "utext \<Rightarrow> utext" where
  "fraction_of r =
     (case r of
        c # d # r' \<Rightarrow> if c = uc (CHR ''.'') \<and> is_ascii_digit d then c # digits_of (d # r') else []
      | _ \<Rightarrow> [])"

definition exponent_of :: "utext \<Rightarrow> utext" where
  "exponent_of r =
     (case r of
        [] \<Rightarrow> []
      | e # r' \<Rightarrow>
          if e = uc (CHR ''e'') \<or> e = uc (CHR ''E'') then
            (case r' of
               s # r'' \<Rightarrow> if s = uc (CHR ''+'') \<or> s = uc (CHR ''-'') then e # s # digits_of r''
                          else e # digits_of r'
             | [] \<Rightarrow> [e])
          else [])"

definition decimal_body :: "utext \<Rightarrow> token_kind \<times> utext" where
  "decimal_body r =
     (let ds = digits_of r; r1 = drop (length ds) r;
          fr = fraction_of r1; r2 = drop (length fr) r1;
          ex = exponent_of r2
      in (if fr = [] \<and> ex = [] then IntLit else FloatLit, ds @ fr @ ex))"

definition number_body :: "uchar \<Rightarrow> utext \<Rightarrow> token_kind \<times> utext" where
  "number_body c r =
     (case r of
        x # r' \<Rightarrow> if c = uc (CHR ''0'') \<and> x \<in> set (lit ''xXoObB'')
                  then (IntLit, x # takeWhile alnum_or_underscore r') else decimal_body r
      | [] \<Rightarrow> decimal_body r)"

lemma uc_numerals [simp]:
  "uc (CHR ''.'') = 46" "uc (CHR ''/'') = 47" "uc (CHR ''*'') = 42" "uc (CHR ''_'') = 95"
  "uc (CHR ''+'') = 43" "uc (CHR ''-'') = 45" "uc (CHR ''e'') = 101" "uc (CHR ''E'') = 69"
  "uc (CHR ''0'') = 48"
  by (simp_all add: uc_def)

lemma lit_numerals [simp]:
  "lit ''//'' = [47, 47]" "lit ''/*'' = [47, 42]" "lit ''*/'' = [42, 47]" "lit ''.'' = [46]"
  "lit ''xXoObB'' = [120, 88, 111, 79, 98, 66]"
  by (simp_all add: lit_def uc_def)

lemma next_char_append [simp]:
  "next_char (pre @ c # r) (blen pre) = Some (Some c)" "next_char pre (blen pre) = Some None"
  by (simp_all add: next_char_def)

lemma block_body_prefix: "\<exists>r'. r = block_body r @ r' \<and> (r' = [] \<or> starts_with r' (lit ''*/''))"
  by (induction r) (auto simp del: lit_numerals)

lemma quoted_body_prefix: "quoted_body q r = (b, w) \<Longrightarrow> \<exists>r'. r = w @ r'"
  by (induction q r arbitrary: b w rule: quoted_body.induct) (fastforce split: if_splits prod.splits)+

section \<open>The loops compute the reference lexemes\<close>

lemma scan_while_spec:
  "run_spec chk k (scan_while chk p (pre @ r) (blen pre) k) (\<lambda>n. n = blen (pre @ takeWhile p r))"
proof (induction r arbitrary: pre k)
  case Nil
  then show ?case by (subst scan_while.simps) (simp add: run_spec_Done)
next
  case (Cons c r)
  from Cons.IH [of "Suc k" "pre @ [c]"]
  show ?case
    by (subst scan_while.simps) (auto intro!: run_spec_checkpoint run_spec_Done simp: add.assoc)
qed

lemma newline_not_in_utf8_char: "c \<noteq> newline \<Longrightarrow> newline \<notin> set (utf8_char c)"
  by (auto simp: utf8_char_def)

lemma newline_not_in_as_bytes: "newline \<notin> set t \<Longrightarrow> newline \<notin> set (as_bytes t)"
  by (induction t) (auto simp: newline_not_in_utf8_char)

lemma scan_line_bytes:
  assumes "as_bytes t = bs @ ds @ es" and "newline \<notin> set ds" and "es = [] \<or> hd es = newline"
  shows "run_spec chk k (scan_line chk t (length bs) k) (\<lambda>n. n = length bs + length ds)"
  using assms
proof (induction ds arbitrary: bs k)
  case Nil
  have len: "blen t = length bs + length es" using Nil.prems(1) length_as_bytes [of t] by simp
  from Nil.prems have "\<not> (length bs < blen t \<and> as_bytes t ! length bs \<noteq> newline)"
    by (cases es) (auto simp: len nth_append)
  then show ?case by (subst scan_line.simps) (auto intro: run_spec_Done)
next
  case (Cons d ds)
  have len: "blen t = length bs + Suc (length ds) + length es"
    using Cons.prems(1) length_as_bytes [of t] by simp
  have *: "length bs < blen t \<and> as_bytes t ! length bs \<noteq> newline"
    using Cons.prems(1,2) by (auto simp: len nth_append)
  from Cons.IH [of "bs @ [d]" "Suc k"] Cons.prems
  have "run_spec chk (Suc k) (scan_line chk t (Suc (length bs)) (Suc k))
      (\<lambda>n. n = length bs + length (d # ds))" by simp
  with * show ?case
    by (subst scan_line.simps) (auto intro!: run_spec_checkpoint)
qed

lemma scan_line_spec:
  "run_spec chk k (scan_line chk (pre @ r) (blen pre) k)
     (\<lambda>n. n = blen (pre @ takeWhile (\<lambda>c. c \<noteq> newline) r))"
proof -
  let ?w = "takeWhile (\<lambda>c. c \<noteq> newline) r" and ?v = "dropWhile (\<lambda>c. c \<noteq> newline) r"
  have a: "as_bytes (pre @ r) = as_bytes pre @ as_bytes ?w @ as_bytes ?v"
    by (metis as_bytes_append takeWhile_dropWhile_id)
  have b: "newline \<notin> set (as_bytes ?w)"
    by (rule newline_not_in_as_bytes) (auto dest: set_takeWhileD)
  have c: "as_bytes ?v = [] \<or> hd (as_bytes ?v) = newline"
  proof (cases ?v)
    case (Cons c v)
    then have "c = newline" using hd_dropWhile [of "\<lambda>c. c \<noteq> newline" r] by simp
    with Cons show ?thesis by (simp add: utf8_char_def)
  qed (simp only: as_bytes_Nil, simp)
  show ?thesis
    using scan_line_bytes [OF a b c, of chk k] by simp
qed

lemma scan_block_spec:
  "run_spec chk k (scan_block chk (pre @ r) (blen pre) k) (\<lambda>n. n = blen (pre @ block_body r))"
proof (induction r arbitrary: pre k)
  case Nil
  then show ?case by (subst scan_block.simps) (simp add: run_spec_Done)
next
  case (Cons c r)
  from Cons.IH [of "Suc k" "pre @ [c]"]
  show ?case
    by (subst scan_block.simps)
      (auto intro!: run_spec_checkpoint run_spec_Done simp: add.assoc simp del: lit_numerals)
qed

lemma scan_quoted_spec:
  "run_spec chk k (scan_quoted chk q (pre @ r) (blen pre) k)
     (\<lambda>(b, n). (b, n) = (fst (quoted_body q r), blen (pre @ snd (quoted_body q r))))"
proof (induction q r arbitrary: pre k rule: quoted_body.induct)
  case (1 q)
  then show ?case by (subst scan_quoted.simps) (simp add: run_spec_Done)
next
  case (2 q c)
  have *: "scan_quoted chk q (pre @ [c]) (blen pre + len_utf8 c) k = Done ((False, blen (pre @ [c])), k)" for k
    by (subst scan_quoted.simps) simp
  show ?case
    by (subst scan_quoted.simps) (auto intro!: run_spec_checkpoint run_spec_Done simp: Let_def *)
next
  case (3 q c d r)
  have n: "next_char (pre @ c # d # r) (blen pre + len_utf8 c) = Some (Some d)"
    using next_char_append(1) [of "pre @ [c]" d r] by simp
  note esc = "3.IH"(1) [of "Suc k" "pre @ [c, d]"] and step = "3.IH"(2) [of "Suc k" "pre @ [c]"]
  show ?case
    using esc step n
    by (subst scan_quoted.simps)
      (auto intro!: run_spec_checkpoint run_spec_Done simp: Let_def add.assoc split: prod.splits)
qed

lemma digit_ascii: "is_ascii_digit c \<Longrightarrow> c < 0x80"
  by (simp add: is_ascii_digit_def)

lemma append_Cons_snoc: "pre @ c # r = (pre @ [c]) @ r"
  by simp

lemma digits_of_split: "r = digits_of r @ drop (length (digits_of r)) r"
  unfolding digits_of_def by (metis dropWhile_eq_drop takeWhile_dropWhile_id)

lemma scan_digits_spec:
  "run_spec chk k (scan_while chk digit_or_underscore (pre @ r) (blen pre) k)
     (\<lambda>n. n = blen (pre @ digits_of r))"
  unfolding digits_of_def by (rule scan_while_spec)

text \<open>The three parts of a decimal literal, each as one step of \<open>lex_number\<close>.\<close>

lemma lex_fraction_spec:
  "run_spec chk k (lex_fraction chk (pre @ r) (blen pre) k)
     (\<lambda>(kind, n). kind = (if fraction_of r = [] then IntLit else FloatLit) \<and>
        n = blen (pre @ fraction_of r))"
proof (cases "\<exists>r'. r = 46 # r'")
  case True
  then obtain r' where r: "r = 46 # r'" by blast
  have sf: "str_from (pre @ 46 # r') (blen pre) = Some (46 # r')" by simp
  show ?thesis
  proof (cases r')
    case Nil
    then show ?thesis
      using next_char_append(2) [of "pre @ [46]"]
      by (simp add: lex_fraction_def r starts_with_def fraction_of_def run_spec_Done)
  next
    case (Cons d r'')
    have nc: "next_char (pre @ 46 # d # r'') (Suc (blen pre)) = Some (Some d)"
      using next_char_append(1) [of "pre @ [46]" d r''] by simp
    have "run_spec chk k (scan_while chk digit_or_underscore (pre @ 46 # d # r'') (Suc (blen pre)) k)
        (\<lambda>n. n = blen (pre @ 46 # digits_of (d # r'')))"
      using scan_digits_spec [of chk k "pre @ [46]" "d # r''"] by (simp add: add.assoc)
    then have "run_spec chk k
        (run_bind (scan_while chk digit_or_underscore (pre @ 46 # d # r'') (Suc (blen pre)) k)
           (\<lambda>(offset, k). Done ((FloatLit, offset), k)))
        (\<lambda>(kind, n). kind = FloatLit \<and> n = blen (pre @ 46 # digits_of (d # r'')))"
      by (rule run_spec_bind) (simp add: run_spec_Done)
    then show ?thesis
      by (auto simp: lex_fraction_def r Cons sf nc starts_with_def fraction_of_def intro: run_spec_Done)
  qed
next
  case False
  then have "fraction_of r = []" "\<not> starts_with r [46]"
    by (auto simp: fraction_of_def starts_with_iff split: list.splits)
  then show ?thesis by (auto simp: lex_fraction_def intro: run_spec_Done)
qed

lemma lex_exponent_spec:
  "run_spec chk k (lex_exponent chk (pre @ r) kind (blen pre) k)
     (\<lambda>(kind', n). kind' = (if exponent_of r = [] then kind else FloatLit) \<and>
        n = blen (pre @ exponent_of r))"
proof (cases "\<exists>e r'. r = e # r' \<and> (e = 101 \<or> e = 69)")
  case True
  then obtain e r' where r: "r = e # r'" and e: "e = 101 \<or> e = 69" by blast
  then have e1: "len_utf8 e = 1" by auto
  have scan: "run_spec chk k
        (run_bind (scan_while chk digit_or_underscore (p @ q) (blen p) k)
           (\<lambda>(offset, k). Done ((FloatLit, offset), k)))
        (\<lambda>(kind, n). kind = FloatLit \<and> n = blen (p @ digits_of q))" for p q
    by (rule run_spec_bind [OF scan_digits_spec]) (simp add: run_spec_Done)
  show ?thesis
  proof (cases r')
    case Nil
    then show ?thesis
      using scan [of "pre @ [e]" "[]"] e
      by (auto simp: lex_exponent_def r e1 exponent_of_def digits_of_def Let_def)
  next
    case (Cons s r'')
    have nc: "next_char (pre @ e # s # r'') (Suc (blen pre)) = Some (Some s)"
      using next_char_append(1) [of "pre @ [e]" s r''] by (simp add: e1)
    have s1: "s = 43 \<or> s = 45 \<Longrightarrow> len_utf8 s = 1" by auto
    show ?thesis
      using scan [of "pre @ [e, s]" r''] scan [of "pre @ [e]" "s # r''"] e
      by (auto simp: lex_exponent_def r Cons e1 s1 nc exponent_of_def Let_def add.assoc)
  qed
next
  case False
  then have "exponent_of r = []" by (auto simp: exponent_of_def split: list.splits)
  with False show ?thesis by (cases r) (auto simp: lex_exponent_def intro: run_spec_Done)
qed

lemma fraction_of_split: "r = fraction_of r @ drop (length (fraction_of r)) r"
  by (auto simp: fraction_of_def digits_of_def dropWhile_eq_drop [symmetric] split: list.splits)

lemma lex_decimal_spec:
  "run_spec chk k (lex_decimal chk (pre @ r) (blen pre) k)
     (\<lambda>(kind, n). kind = fst (decimal_body r) \<and> n = blen (pre @ snd (decimal_body r)))"
proof -
  define ds where "ds = digits_of r"
  define r1 where "r1 = drop (length ds) r"
  define fr where "fr = fraction_of r1"
  define r2 where "r2 = drop (length fr) r1"
  have r: "r = ds @ r1" "r1 = fr @ r2"
    using digits_of_split [of r] fraction_of_split [of r1]
    by (simp_all add: ds_def r1_def fr_def r2_def)
  have t: "pre @ r = (pre @ ds) @ r1" "pre @ r = (pre @ ds @ fr) @ r2" using r by simp_all
  have dec: "decimal_body r =
      (if fr = [] \<and> exponent_of r2 = [] then IntLit else FloatLit, ds @ fr @ exponent_of r2)"
    by (simp add: decimal_body_def Let_def ds_def r1_def fr_def r2_def)
  have exp: "run_spec chk k (lex_exponent chk (pre @ r) (if fr = [] then IntLit else FloatLit)
        (blen (pre @ ds @ fr)) k)
      (\<lambda>(kind, n). kind = fst (decimal_body r) \<and> n = blen (pre @ snd (decimal_body r)))" for k
    unfolding t(2) by (rule run_spec_conseq [OF lex_exponent_spec]) (auto simp: dec)
  have "run_spec chk k (run_bind (lex_fraction chk (pre @ r) (blen (pre @ ds)) k)
        (\<lambda>((kind, offset), k). lex_exponent chk (pre @ r) kind offset k))
      (\<lambda>(kind, n). kind = fst (decimal_body r) \<and> n = blen (pre @ snd (decimal_body r)))" for k
  proof (rule run_spec_bind)
    show "run_spec chk k (lex_fraction chk (pre @ r) (blen (pre @ ds)) k)
        (\<lambda>(kind, n). kind = (if fr = [] then IntLit else FloatLit) \<and> n = blen (pre @ ds @ fr))"
      unfolding t(1) using lex_fraction_spec [of chk k "pre @ ds" r1] by (simp add: fr_def)
  qed (use exp in auto)
  then show ?thesis
    unfolding lex_decimal_def
    by (intro run_spec_bind [OF scan_digits_spec]) (simp add: ds_def)
qed

lemma lex_number_spec:
  "run_spec chk k (lex_number chk (pre @ r) c (blen pre) k)
     (\<lambda>(kind, n). kind = fst (number_body c r) \<and> n = blen (pre @ snd (number_body c r)))"
proof (cases "c = 48 \<and> r \<noteq> []")
  case True
  then obtain x r' where r: "r = x # r'" by (cases r) auto
  show ?thesis
  proof (cases "x \<in> set (lit ''xXoObB'')")
    case x: True
    have "run_spec chk k (scan_while chk alnum_or_underscore (pre @ r) (blen pre + len_utf8 x) k)
        (\<lambda>n. n = blen (pre @ x # takeWhile alnum_or_underscore r'))"
      using scan_while_spec [of chk k alnum_or_underscore "pre @ [x]" r'] by (simp add: r add.assoc)
    then have "run_spec chk k
        (run_bind (scan_while chk alnum_or_underscore (pre @ r) (blen pre + len_utf8 x) k)
           (\<lambda>(offset, k). Done ((IntLit, offset), k)))
        (\<lambda>(kind, n). kind = fst (number_body c r) \<and> n = blen (pre @ snd (number_body c r)))"
      by (rule run_spec_bind) (use True x in \<open>simp add: run_spec_Done number_body_def r\<close>)
    with True x show ?thesis by (simp add: lex_number_def r)
  next
    case x: False
    then have "number_body c r = decimal_body r" by (simp add: number_body_def r)
    then show ?thesis
      using lex_decimal_spec [of chk k pre r] True x by (simp add: lex_number_def r)
  qed
next
  case False
  then have "number_body c r = decimal_body r" by (auto simp: number_body_def split: list.splits)
  with lex_decimal_spec [of chk k pre r] False show ?thesis
    by (auto simp: lex_number_def)
qed

section \<open>The reference tokenizer\<close>

text \<open>\<open>lexeme u c r\<close>: kind, diagnostic and text of the token that starts the text \<open>c # r\<close>.\<close>

definition lexeme :: "unicode \<Rightarrow> uchar \<Rightarrow> utext \<Rightarrow> token_kind \<times> lex_error \<times> utext" where
  "lexeme u c r =
     (if is_whitespace c then (Whitespace, None, c # takeWhile is_whitespace r)
      else if starts_with (c # r) (lit ''//'') then
        (Comment LineC, None, c # takeWhile (\<lambda>c. c \<noteq> newline) r)
      else if starts_with (c # r) (lit ''/*'') then
        (let body = block_body (tl r)
         in if body = tl r
            then (Comment BlockC,
                  Some (UnterminatedBlockComment, ''unterminated block comment''), c # r)
            else (Comment BlockC, None, c # hd r # body @ lit ''*/''))
      else if is_ident_start u c then
        (let w = c # takeWhile (is_ident_continue u) r
         in (case from_ident w of None \<Rightarrow> Ident | Some kw \<Rightarrow> Keyword kw, None, w))
      else if is_ascii_digit c then
        (fst (number_body c r), None, c # snd (number_body c r))
      else if c = dquote then
        (StringLit, if fst (quoted_body dquote r) then None
           else Some (UnterminatedString, ''unterminated string literal''),
         c # snd (quoted_body dquote r))
      else if c = squote then
        (CharLit, if fst (quoted_body squote r) then None
           else Some (InvalidLiteral, ''unterminated character literal''),
         c # snd (quoted_body squote r))
      else
        (case lex_punct (c # r) of
           Some (kind, n) \<Rightarrow> (kind, None, take n (c # r))
         | None \<Rightarrow> (Unknown, Some (UnexpectedToken, ''unknown token''), [c])))"

lemma takeWhile_prefix: "\<exists>r'. r = takeWhile p r @ r'"
  by (metis takeWhile_dropWhile_id)

lemma exponent_of_prefix: "\<exists>r'. r = exponent_of r @ r'"
  by (auto simp: exponent_of_def digits_of_def takeWhile_prefix split: list.splits)

lemma decimal_body_prefix: "\<exists>r'. r = snd (decimal_body r) @ r'"
proof -
  define ds where "ds = digits_of r"
  define r1 where "r1 = drop (length ds) r"
  define fr where "fr = fraction_of r1"
  define r2 where "r2 = drop (length fr) r1"
  have "r = ds @ r1" "r1 = fr @ r2"
    using digits_of_split [of r] fraction_of_split [of r1]
    by (simp_all add: ds_def r1_def fr_def r2_def)
  moreover obtain r' where "r2 = exponent_of r2 @ r'" using exponent_of_prefix by blast
  moreover have "snd (decimal_body r) = ds @ fr @ exponent_of r2"
    by (simp add: decimal_body_def Let_def ds_def r1_def fr_def r2_def)
  ultimately show ?thesis by (metis append.assoc)
qed

lemma number_body_prefix: "\<exists>r'. r = snd (number_body c r) @ r'"
  using decimal_body_prefix [of r]
  by (auto simp: number_body_def takeWhile_prefix split: list.splits)

lemma starts_with_two: "starts_with (c # r) [a, b] \<longleftrightarrow> c = a \<and> (\<exists>r'. r = b # r')"
  by (auto simp: starts_with_iff)

lemma lex_punct_Some:
  assumes "lex_punct (c # r) = Some (kind, n)"
  shows "(\<exists>w' r'. take n (c # r) = c # w' \<and> r = w' @ r') \<and> n = blen (take n (c # r))"
proof (cases "find (\<lambda>(s, _). starts_with (c # r) s) punct_two")
  case None
  with assms have "n = 1" "punct_one c \<noteq> None" by (auto simp: lex_punct_def)
  then have "c < 0x80" by (auto simp: punct_one_def uc_def split: if_splits)
  with \<open>n = 1\<close> show ?thesis by simp
next
  case (Some sp)
  obtain s p where sp: "sp = (s, p)" by (cases sp)
  with Some have "(s, p) \<in> set punct_two" "starts_with (c # r) s"
    by (auto simp: find_Some_iff in_set_conv_nth)
  moreover from this have "\<exists>a b. s = [a, b] \<and> len_utf8 a = 1 \<and> len_utf8 b = 1"
    by (auto simp: punct_two_def lit_def uc_def)
  moreover have "n = blen s" using assms Some sp by (simp add: lex_punct_def)
  ultimately show ?thesis by (auto simp: starts_with_two)
qed

lemma block_body_proper:
  assumes "block_body r \<noteq> r"
  shows "\<exists>r'. r = block_body r @ 42 # 47 # r'"
  using block_body_prefix [of r] assms by (auto simp: starts_with_iff)

lemma lexeme_prefix:
  assumes "lexeme u c r = (kind, err, w)"
  shows "\<exists>w' r'. w = c # w' \<and> r = w' @ r'"
proof -
  have "\<exists>r'. r = snd (quoted_body q r) @ r'" for q
    using quoted_body_prefix [of q r] by (cases "quoted_body q r") auto
  then show ?thesis
    using assms number_body_prefix [of r c] block_body_proper [of "tl r"]
    by (auto simp: lexeme_def Let_def takeWhile_prefix starts_with_two
        split: if_splits option.splits dest!: lex_punct_Some)
qed

lemma run_spec_map:
  assumes "run_spec chk k m (\<lambda>y. y = v)" and "\<And>k. f (v, k) = Done (z, k)"
  shows "run_spec chk k (run_bind m f) (\<lambda>x. x = z)"
  using assms(1) by (rule run_spec_bind) (simp add: assms(2) run_spec_Done)

lemma scan_quoted_eq:
  "run_spec chk k (scan_quoted chk q (pre @ r) (blen pre) k)
     (\<lambda>y. y = (fst (quoted_body q r), blen (pre @ snd (quoted_body q r))))"
  by (rule run_spec_conseq [OF scan_quoted_spec]) auto

lemma scan_quoted_after:
  assumes "len_utf8 c = 1"
  shows "run_spec chk k (scan_quoted chk q (pre @ c # r) (Suc (blen pre)) k)
     (\<lambda>y. y = (fst (quoted_body q r), Suc (blen pre + blen (snd (quoted_body q r)))))"
  using scan_quoted_eq [of chk k q "pre @ [c]" r] assms by simp

lemma lex_number_eq:
  "run_spec chk k (lex_number chk (pre @ r) c (blen pre) k)
     (\<lambda>y. y = (fst (number_body c r), blen (pre @ snd (number_body c r))))"
  by (rule run_spec_conseq [OF lex_number_spec]) auto

lemma block_close:
  "blen (pre @ block_body r) < blen (pre @ r) \<longleftrightarrow> block_body r \<noteq> r"
proof (cases "block_body r = r")
  case False
  then obtain r' where "r = block_body r @ 42 # 47 # r'" using block_body_proper by blast
  then have "blen r = blen (block_body r) + blen (42 # 47 # r')" by (metis blen_append)
  with False show ?thesis by simp
qed simp

text \<open>One iteration of the main loop pushes the reference lexeme.\<close>

lemma lex_one_spec:
  assumes lx: "lexeme u c r = (kind, err, w)"
  shows "run_spec chk k (lex_one chk u (pre @ c # r) (blen pre) k)
     (\<lambda>x. x = Some (kind, err, blen (pre @ w)))"
proof -
  have t1: "pre @ c # r = (pre @ [c]) @ r" "blen pre + len_utf8 c = blen (pre @ [c])" by simp_all
  have at: "str_from (pre @ c # r) (blen pre) = Some (c # r)" by simp
  consider (ws) "is_whitespace c"
    | (line) r' where "\<not> is_whitespace c" "c = 47" "r = 47 # r'"
    | (block) r' where "\<not> is_whitespace c" "c = 47" "r = 42 # r'"
    | (ident) "\<not> is_whitespace c" "\<not> starts_with (c # r) [47, 47]" "\<not> starts_with (c # r) [47, 42]"
        "is_ident_start u c"
    | (digit) "\<not> is_whitespace c" "\<not> starts_with (c # r) [47, 47]" "\<not> starts_with (c # r) [47, 42]"
        "\<not> is_ident_start u c" "is_ascii_digit c"
    | (quote) "\<not> is_whitespace c" "\<not> starts_with (c # r) [47, 47]" "\<not> starts_with (c # r) [47, 42]"
        "\<not> is_ident_start u c" "\<not> is_ascii_digit c" "c = dquote \<or> c = squote"
    | (other) "\<not> is_whitespace c" "\<not> starts_with (c # r) [47, 47]" "\<not> starts_with (c # r) [47, 42]"
        "\<not> is_ident_start u c" "\<not> is_ascii_digit c" "c \<noteq> dquote" "c \<noteq> squote"
    unfolding starts_with_two by blast
  then show ?thesis
  proof cases
    case ws
    with lx have "kind = Whitespace" "err = None" "w = c # takeWhile is_whitespace r"
      by (simp_all add: lexeme_def)
    with ws show ?thesis
      unfolding lex_one_def at
      by (simp only: option.case list.case Let_def if_True t1)
        (rule run_spec_map [OF scan_while_spec], simp)
  next
    case line
    with lx have "kind = Comment LineC" "err = None" "w = c # takeWhile (\<lambda>c. c \<noteq> newline) r"
      by (simp_all add: lexeme_def starts_with_two)
    with line show ?thesis
      using scan_line_spec [of chk k "pre @ [47, 47]" r']
      by (simp add: lex_one_def starts_with_two numeral_2_eq_2 add.assoc)
        (erule run_spec_map, simp)
  next
    case block
    have sc: "run_spec chk k (scan_block chk (pre @ 47 # 42 # r') (Suc (Suc (blen pre))) k)
       (\<lambda>n. n = blen (pre @ 47 # 42 # block_body r'))"
      using scan_block_spec [of chk k "pre @ [47, 42]" r'] by (simp add: add.assoc)
    have cl: "blen (pre @ 47 # 42 # block_body r') < blen (pre @ 47 # 42 # r') \<longleftrightarrow> block_body r' \<noteq> r'"
      using block_close [of "pre @ [47, 42]" r'] by simp
    show ?thesis
    proof (cases "block_body r' = r'")
      case True
      with lx block have "kind = Comment BlockC"
          "err = Some (UnterminatedBlockComment, ''unterminated block comment'')" "w = c # r"
        by (simp_all add: lexeme_def starts_with_two)
      with block True show ?thesis
        by (simp add: lex_one_def starts_with_two numeral_2_eq_2)
          (rule run_spec_map [OF sc], use cl True in simp)
    next
      case False
      with lx block have "kind = Comment BlockC" "err = None" "w = c # 42 # block_body r' @ [42, 47]"
        by (simp_all add: lexeme_def starts_with_two)
      with block False show ?thesis
        by (simp add: lex_one_def starts_with_two numeral_2_eq_2)
          (rule run_spec_map [OF sc], use cl False in simp)
    qed
  next
    case ident
    let ?w = "c # takeWhile (is_ident_continue u) r"
    from ident lx have eqs: "kind = (case from_ident ?w of None \<Rightarrow> Ident | Some kw \<Rightarrow> Keyword kw)"
        "err = None" "w = ?w"
      by (auto simp: lexeme_def Let_def)
    have "str_range (pre @ c # r) (blen pre) (blen (pre @ ?w)) = Some ?w"
      using str_range_append [of pre ?w "dropWhile (is_ident_continue u) r"] by simp
    with ident eqs show ?thesis
      unfolding lex_one_def at
      by (simp only: option.case list.case Let_def if_True if_False lit_numerals t1)
        (rule run_spec_map [OF scan_while_spec], simp)
  next
    case digit
    with lx have "kind = fst (number_body c r)" "err = None" "w = c # snd (number_body c r)"
      by (simp_all add: lexeme_def)
    with digit show ?thesis
      unfolding lex_one_def at
      by (simp only: option.case list.case Let_def if_True if_False lit_numerals t1)
        (rule run_spec_map [OF lex_number_eq], simp)
  next
    case quote
    with lx show ?thesis
      by (elim disjE)
        (auto simp: lex_one_def lexeme_def intro!: run_spec_map [OF scan_quoted_after])
  next
    case other
    with lx show ?thesis
      by (auto simp: lex_one_def lexeme_def intro!: run_spec_Done
          split: option.splits dest: lex_punct_Some)
  qed
qed

section \<open>The main loop\<close>

lemma lex_one_progress:
  assumes "lex_one chk u t offset k = Done (Some (kind, err, offset'), k')" and "offset < blen t"
  shows "offset < offset'"
proof -
  from assms(1) obtain c r where "str_from t offset = Some (c # r)"
    by (auto simp: lex_one_def split: option.splits list.splits)
  then obtain pre where t: "t = pre @ c # r" and o: "offset = blen pre"
    using str_from_SomeD by blast
  obtain kind' err' w where lx: "lexeme u c r = (kind', err', w)" by (cases "lexeme u c r") auto
  then obtain w' where "w = c # w'" using lexeme_prefix by blast
  with lex_one_spec [OF lx, of chk k pre] assms(1) t o show ?thesis
    by (auto simp: run_spec_def)
qed

function lex_loop ::
  "(nat \<Rightarrow> 'e option) \<Rightarrow> unicode \<Rightarrow> 'sp span_api \<Rightarrow> source_id \<Rightarrow> utext \<Rightarrow> nat \<Rightarrow>
   'sp token list \<Rightarrow> 'sp diagnostic list \<Rightarrow> nat \<Rightarrow>
   ('e, ('sp token list \<times> 'sp diagnostic list) \<times> nat) run" where
  "lex_loop chk u api sid t offset tokens diagnostics k =
     (if offset < blen t then
        run_bind (checkpoint chk k) (\<lambda>(_, k).
        run_bind (lex_one chk u t offset k) (\<lambda>(one, k).
          case one of
            None \<Rightarrow> Done ((tokens, diagnostics), k)
          | Some (kind, err, offset') \<Rightarrow>
              (let span = span_new api sid offset offset' in
               lex_loop chk u api sid t offset'
                 (tokens @ [\<lparr>tok_kind = kind, tok_span = span\<rparr>])
                 (diagnostics @ (case err of None \<Rightarrow> []
                    | Some (code, message) \<Rightarrow> [diagnostic_lex code span message])) k)))
      else Done ((tokens, diagnostics), k))"
  by pat_completeness auto
termination
  by (relation "measure (\<lambda>(_, _, _, _, t, offset, _). blen t - offset)")
    (auto dest!: lex_one_progress intro: diff_less_mono2)

declare lex_loop.simps [simp del]

definition lex_with_checkpoint ::
  "(nat \<Rightarrow> 'e option) \<Rightarrow> unicode \<Rightarrow> 'sp span_api \<Rightarrow> source_file \<Rightarrow> 'sp diagnostic list \<Rightarrow> nat \<Rightarrow>
   ('e, ('sp token_stream \<times> 'sp diagnostic list) \<times> nat) run" where
  "lex_with_checkpoint chk u api src diagnostics k =
     run_bind (checkpoint chk k) (\<lambda>(_, k).
     run_bind (lex_loop chk u api (src_id src) (src_text src) 0 [] diagnostics k)
       (\<lambda>((tokens, diagnostics), k).
     let eof = span_empty api (src_id src) (blen (src_text src));
         tokens = tokens @ [\<lparr>tok_kind = Eof, tok_span = eof\<rparr>]
     in run_bind (checkpoint chk k) (\<lambda>(_, k).
          Done ((\<lparr>ts_source = src_id src, ts_tokens = tokens\<rparr>, diagnostics), k))))"

text \<open>\<open>lex_with_diagnostics\<close> and \<open>lex\<close> use a checkpoint that never fails.\<close>

definition never :: "nat \<Rightarrow> unit option" where
  "never k = None"

definition lex_with_diagnostics ::
  "unicode \<Rightarrow> 'sp span_api \<Rightarrow> source_file \<Rightarrow> 'sp diagnostic list \<Rightarrow>
   (unit, 'sp token_stream \<times> 'sp diagnostic list) run" where
  "lex_with_diagnostics u api src diagnostics =
     run_bind (lex_with_checkpoint never u api src diagnostics 0) (\<lambda>(x, _). Done x)"

definition lex :: "unicode \<Rightarrow> 'sp span_api \<Rightarrow> source_file \<Rightarrow> (unit, 'sp token_stream) run" where
  "lex u api src = run_bind (lex_with_diagnostics u api src []) (\<lambda>(ts, _). Done ts)"

section \<open>The lexer refines the reference tokenizer\<close>

function lexemes :: "unicode \<Rightarrow> utext \<Rightarrow> (token_kind \<times> lex_error \<times> utext) list" where
  "lexemes u [] = []"
| "lexemes u (c # r) =
     (case lexeme u c r of (kind, err, w) \<Rightarrow>
        (kind, err, w) # lexemes u (drop (length w) (c # r)))"
  by pat_completeness auto
termination
  by (relation "measure (\<lambda>(_, t). length t)") (auto dest!: lexeme_prefix [OF sym])

declare lexemes.simps(2) [simp del]

text \<open>Tokens and diagnostics of a list of lexemes that starts at a byte offset.\<close>

fun lexeme_tokens ::
  "'sp span_api \<Rightarrow> source_id \<Rightarrow> nat \<Rightarrow> (token_kind \<times> lex_error \<times> utext) list \<Rightarrow> 'sp token list" where
  "lexeme_tokens api sid n [] = []"
| "lexeme_tokens api sid n ((kind, err, w) # ls) =
     \<lparr>tok_kind = kind, tok_span = span_new api sid n (n + blen w)\<rparr>
       # lexeme_tokens api sid (n + blen w) ls"

fun lexeme_diagnostics ::
  "'sp span_api \<Rightarrow> source_id \<Rightarrow> nat \<Rightarrow> (token_kind \<times> lex_error \<times> utext) list \<Rightarrow> 'sp diagnostic list" where
  "lexeme_diagnostics api sid n [] = []"
| "lexeme_diagnostics api sid n ((kind, err, w) # ls) =
     (case err of None \<Rightarrow> []
      | Some (code, message) \<Rightarrow> [diagnostic_lex code (span_new api sid n (n + blen w)) message])
       @ lexeme_diagnostics api sid (n + blen w) ls"

lemma lex_loop_spec:
  "run_spec chk k (lex_loop chk u api sid (pre @ r) (blen pre) tokens diagnostics k)
     (\<lambda>x. x = (tokens @ lexeme_tokens api sid (blen pre) (lexemes u r),
               diagnostics @ lexeme_diagnostics api sid (blen pre) (lexemes u r)))"
proof (induction "length r" arbitrary: r pre tokens diagnostics k rule: less_induct)
  case less
  show ?case
  proof (cases r)
    case Nil
    then show ?thesis by (subst lex_loop.simps) (simp add: run_spec_Done)
  next
    case (Cons c r')
    obtain kind err w where lx: "lexeme u c r' = (kind, err, w)" by (cases "lexeme u c r'") auto
    then obtain w' r'' where w: "w = c # w'" and r': "r' = w' @ r''" using lexeme_prefix by blast
    have ls: "lexemes u (c # r') = (kind, err, w) # lexemes u r''"
      unfolding lexemes.simps(2) lx by (simp add: w r')
    have IH: "run_spec chk k (lex_loop chk u api sid (pre @ c # r') (blen pre + blen w) ts ds k)
        (\<lambda>x. x = (ts @ lexeme_tokens api sid (blen pre + blen w) (lexemes u r''),
                  ds @ lexeme_diagnostics api sid (blen pre + blen w) (lexemes u r'')))" for ts ds k
      using less [of r'' _ "pre @ w"] by (simp add: Cons r' w)
    show ?thesis
      unfolding Cons
      by (subst lex_loop.simps)
        (auto intro!: run_spec_checkpoint run_spec_bind [OF lex_one_spec [OF lx]]
          run_spec_conseq [OF IH] simp: ls Let_def split: option.splits)
  qed
qed

section \<open>What the tokens are\<close>

definition ends_run :: "(uchar \<Rightarrow> bool) \<Rightarrow> utext \<Rightarrow> bool" where
  "ends_run p r \<longleftrightarrow> r = [] \<or> \<not> p (hd r)"

fun quote_ok :: "uchar \<Rightarrow> lex_error \<Rightarrow> utext \<Rightarrow> utext \<Rightarrow> bool" where
  "quote_ok q err w r \<longleftrightarrow> hd w = q \<and>
     (case err of None \<Rightarrow> 2 \<le> length w \<and> last w = q | Some _ \<Rightarrow> r = [] \<or> last w = newline)"

text \<open>
  \<open>token_ok u kind err w r\<close>: the text \<open>w\<close>, followed by \<open>r\<close>, is what a token of kind \<open>kind\<close>
  with the diagnostic \<open>err\<close> has to look like, and no longer prefix would do.
\<close>

fun token_ok :: "unicode \<Rightarrow> token_kind \<Rightarrow> lex_error \<Rightarrow> utext \<Rightarrow> utext \<Rightarrow> bool" where
  "token_ok u Whitespace err w r \<longleftrightarrow>
     err = None \<and> (\<forall>c \<in> set w. is_whitespace c) \<and> ends_run is_whitespace r"
| "token_ok u Ident err w r \<longleftrightarrow>
     err = None \<and> is_ident_start u (hd w) \<and> (\<forall>c \<in> set (tl w). is_ident_continue u c) \<and>
     ends_run (is_ident_continue u) r \<and> (\<forall>kw. w \<noteq> keyword_text kw)"
| "token_ok u (Keyword kw) err w r \<longleftrightarrow>
     err = None \<and> w = keyword_text kw \<and> ends_run (is_ident_continue u) r"
| "token_ok u (Comment LineC) err w r \<longleftrightarrow>
     err = None \<and> starts_with w (lit ''//'') \<and> newline \<notin> set w \<and> (r = [] \<or> hd r = newline)"
| "token_ok u (Comment BlockC) err w r \<longleftrightarrow>
     (case err of
        None \<Rightarrow> \<exists>b. w = lit ''/*'' @ b @ lit ''*/'' \<and> \<not> sublist (lit ''*/'') b
      | Some e \<Rightarrow> e = (UnterminatedBlockComment, ''unterminated block comment'') \<and> r = [] \<and>
          (\<exists>b. w = lit ''/*'' @ b \<and> \<not> sublist (lit ''*/'') b))"
| "token_ok u IntLit err w r \<longleftrightarrow>
     err = None \<and> is_ascii_digit (hd w) \<and> (\<forall>c \<in> set w. alnum_or_underscore c) \<and>
     ends_run digit_or_underscore r"
| "token_ok u FloatLit err w r \<longleftrightarrow>
     err = None \<and> is_ascii_digit (hd w) \<and> (\<exists>c \<in> set w. c \<in> set (lit ''.eE'')) \<and>
     ends_run digit_or_underscore r"
| "token_ok u StringLit err w r \<longleftrightarrow> quote_ok dquote err w r"
| "token_ok u CharLit err w r \<longleftrightarrow> quote_ok squote err w r"
| "token_ok u (Punct p) err w r \<longleftrightarrow> err = None \<and> w = punct_text p"
| "token_ok u Unknown err w r \<longleftrightarrow>
     err = Some (UnexpectedToken, ''unknown token'') \<and> length w = 1 \<and> punct_one (hd w) = None"
| "token_ok u Eof err w r \<longleftrightarrow> False"

inductive segmentation :: "unicode \<Rightarrow> utext \<Rightarrow> (token_kind \<times> lex_error \<times> utext) list \<Rightarrow> bool" where
  segmentation_Nil: "segmentation u [] []"
| segmentation_Cons: "w \<noteq> [] \<Longrightarrow> token_ok u kind err w r \<Longrightarrow> segmentation u r ls \<Longrightarrow>
    segmentation u (w @ r) ((kind, err, w) # ls)"

lemma ends_run_dropWhile: "ends_run p (dropWhile p r)"
  using hd_dropWhile [of p r] by (auto simp: ends_run_def simp del: dropWhile_eq_Nil_conv)

lemma ends_run_Nil [simp]: "ends_run p []"
  by (simp add: ends_run_def)

lemma takeWhile_append_drop: "takeWhile p r @ r' = r \<Longrightarrow> r' = dropWhile p r"
  by (metis same_append_eq takeWhile_dropWhile_id)

lemma block_body_no_close: "\<not> sublist [42, 47] (block_body r)"
proof (induction r)
  case (Cons c r)
  have "prefix [47] (block_body r) \<Longrightarrow> \<exists>r'. r = 47 # r'"
    using block_body_prefix [of r] by (cases "block_body r") auto
  with Cons show ?case by (auto simp: starts_with_two sublist_Cons_right)
qed simp

lemma quoted_body_closed:
  "quoted_body q r = (b, w) \<Longrightarrow>
   (if b then w \<noteq> [] \<and> last w = q else w = r \<or> (w \<noteq> [] \<and> last w = newline))"
  by (induction q r arbitrary: b w rule: quoted_body.induct) (auto split: if_splits prod.splits)

lemma token_ok_quote:
  assumes "quoted_body q r = (b, w)" and "r = w @ r'"
  shows "quote_ok q (if b then None else Some e) (q # w) r'"
  using quoted_body_closed [OF assms(1)] assms(2) by (auto simp: Suc_le_eq split: if_splits)

lemma digits_of_set: "c \<in> set (digits_of r) \<Longrightarrow> alnum_or_underscore c"
  by (auto simp: digits_of_def digit_or_underscore_def alnum_or_underscore_def
      is_ascii_alphanumeric_def dest: set_takeWhileD)

lemma digits_of_ends: "digits_of r @ r' = r \<Longrightarrow> ends_run digit_or_underscore r'"
  using ends_run_dropWhile takeWhile_append_drop unfolding digits_of_def by metis

lemma exponent_ends: "exponent_of r \<noteq> [] \<Longrightarrow> exponent_of r @ r' = r \<Longrightarrow> ends_run digit_or_underscore r'"
  by (auto simp: exponent_of_def intro: digits_of_ends split: list.splits if_splits)

lemma fraction_ends: "fraction_of r \<noteq> [] \<Longrightarrow> fraction_of r @ r' = r \<Longrightarrow> ends_run digit_or_underscore r'"
  by (auto simp: fraction_of_def intro: digits_of_ends split: list.splits if_splits)

text \<open>What a number literal consumes, given that its first character is a digit.\<close>

lemma decimal_body_ok:
  assumes "decimal_body r = (kind, w)" and "w @ r' = r" and c: "is_ascii_digit c"
  shows "token_ok u kind None (c # w) r'"
proof -
  define ds where "ds = digits_of r"
  define r1 where "r1 = drop (length ds) r"
  define fr where "fr = fraction_of r1"
  define r2 where "r2 = drop (length fr) r1"
  define ex where "ex = exponent_of r2"
  have r: "ds @ r1 = r" "fr @ r2 = r1"
    using digits_of_split [of r] fraction_of_split [of r1]
    by (simp_all add: ds_def r1_def fr_def r2_def)
  have dec: "kind = (if fr = [] \<and> ex = [] then IntLit else FloatLit)" "w = ds @ fr @ ex"
    using assms(1) by (auto simp: decimal_body_def Let_def ds_def r1_def fr_def r2_def ex_def)
  with assms(2) r have ex: "ex @ r' = r2" by (metis append_assoc same_append_eq)
  have "ends_run digit_or_underscore r'"
  proof (cases "ex = []")
    case True
    with ex r have *: "fr @ r' = r1" by simp
    show ?thesis
    proof (cases "fr = []")
      case True
      with * r have "digits_of r @ r' = r" by (simp add: ds_def)
      then show ?thesis by (rule digits_of_ends)
    next
      case False
      from False * show ?thesis unfolding fr_def by (rule fraction_ends)
    qed
  next
    case False
    from False ex show ?thesis unfolding ex_def by (rule exponent_ends)
  qed
  moreover have "fr \<noteq> [] \<Longrightarrow> 46 \<in> set fr"
    by (auto simp: fr_def fraction_of_def split: list.splits if_splits)
  moreover have "ex \<noteq> [] \<Longrightarrow> 101 \<in> set ex \<or> 69 \<in> set ex"
    by (auto simp: ex_def exponent_of_def split: list.splits if_splits)
  moreover have "alnum_or_underscore d" if "d \<in> set ds" for d
    using that digits_of_set ds_def by blast
  moreover have "alnum_or_underscore c"
    using c by (simp add: alnum_or_underscore_def is_ascii_alphanumeric_def)
  ultimately show ?thesis using c by (auto simp: dec lit_def uc_def)
qed

lemma number_body_ok:
  assumes nb: "number_body c r = (kind, w)" and r: "w @ r' = r" and c: "is_ascii_digit c"
  shows "token_ok u kind None (c # w) r'"
proof (cases "\<exists>x r''. r = x # r'' \<and> c = 48 \<and> x \<in> set (lit ''xXoObB'')")
  case True
  then obtain x r'' where x: "r = x # r''" "c = 48" "x \<in> set (lit ''xXoObB'')" by blast
  with nb have kw: "kind = IntLit" "w = x # takeWhile alnum_or_underscore r''"
    by (auto simp: number_body_def)
  with r x have "r' = dropWhile alnum_or_underscore r''" by (auto dest: takeWhile_append_drop)
  then have "ends_run alnum_or_underscore r'" by (simp add: ends_run_dropWhile)
  then have "ends_run digit_or_underscore r'"
    by (auto simp: ends_run_def digit_or_underscore_def alnum_or_underscore_def is_ascii_alphanumeric_def)
  moreover have "alnum_or_underscore x" "alnum_or_underscore c"
    using x by (auto simp: alnum_or_underscore_def is_ascii_alphanumeric_def is_ascii_letter_def
        is_ascii_digit_def)
  ultimately show ?thesis using kw c by (auto dest: set_takeWhileD)
next
  case False
  then have "number_body c r = decimal_body r" by (auto simp: number_body_def split: list.splits)
  with nb r c show ?thesis by (intro decimal_body_ok) auto
qed

lemma lex_punct_text:
  "lex_punct (c # r) = Some (kind, n) \<Longrightarrow> \<exists>p. kind = Punct p \<and> take n (c # r) = punct_text p"
proof (cases "find (\<lambda>(s, _). starts_with (c # r) s) punct_two")
  case None
  assume "lex_punct (c # r) = Some (kind, n)"
  with None obtain p where p: "punct_one c = Some p" and kn: "kind = Punct p" "n = 1"
    by (auto simp: lex_punct_def)
  from p have "punct_text p = [c]"
    by (auto simp: punct_one_def lit_def split: if_splits)
  with kn show ?thesis by simp
next
  case (Some sp)
  assume lp: "lex_punct (c # r) = Some (kind, n)"
  obtain s p where sp: "sp = (s, p)" by (cases sp)
  with Some lp have kn: "kind = Punct p" "n = blen s" by (auto simp: lex_punct_def)
  from Some sp have "(s, p) \<in> set punct_two" and pre: "starts_with (c # r) s"
    by (auto simp: find_Some_iff in_set_conv_nth)
  then have "punct_text p = s" "blen s = length s"
    by (auto simp: punct_two_def lit_def uc_def)
  with kn pre show ?thesis by (simp add: starts_with_def)
qed

lemma lex_punct_None: "lex_punct (c # r) = None \<Longrightarrow> punct_one c = None"
  by (auto simp: lex_punct_def split: option.splits)

lemma lexeme_ok:
  assumes lx: "lexeme u c r = (kind, err, w)" and r: "w @ r' = c # r"
  shows "token_ok u kind err w r'"
proof -
  consider (ws) "is_whitespace c"
    | (line) r'' where "\<not> is_whitespace c" "c = 47" "r = 47 # r''"
    | (block) r'' where "\<not> is_whitespace c" "c = 47" "r = 42 # r''"
    | (ident) "\<not> is_whitespace c" "\<not> starts_with (c # r) [47, 47]" "\<not> starts_with (c # r) [47, 42]"
        "is_ident_start u c"
    | (digit) "\<not> is_whitespace c" "\<not> starts_with (c # r) [47, 47]" "\<not> starts_with (c # r) [47, 42]"
        "\<not> is_ident_start u c" "is_ascii_digit c"
    | (quote) "\<not> is_whitespace c" "\<not> starts_with (c # r) [47, 47]" "\<not> starts_with (c # r) [47, 42]"
        "\<not> is_ident_start u c" "\<not> is_ascii_digit c" "c = dquote \<or> c = squote"
    | (other) "\<not> is_whitespace c" "\<not> starts_with (c # r) [47, 47]" "\<not> starts_with (c # r) [47, 42]"
        "\<not> is_ident_start u c" "\<not> is_ascii_digit c" "c \<noteq> dquote" "c \<noteq> squote"
    unfolding starts_with_two by blast
  then show ?thesis
  proof cases
    case ws
    with lx have eqs: "kind = Whitespace" "err = None" "w = c # takeWhile is_whitespace r"
      by (simp_all add: lexeme_def)
    with r have "r' = dropWhile is_whitespace r" by (simp add: takeWhile_append_drop)
    with eqs ws show ?thesis by (auto simp: ends_run_dropWhile dest: set_takeWhileD)
  next
    case line
    with lx have eqs: "kind = Comment LineC" "err = None" "w = c # takeWhile (\<lambda>c. c \<noteq> newline) r"
      by (simp_all add: lexeme_def starts_with_two)
    with r have "r' = dropWhile (\<lambda>c. c \<noteq> newline) r" by (simp add: takeWhile_append_drop)
    with ends_run_dropWhile [of "\<lambda>c. c \<noteq> newline" r] eqs line show ?thesis
      by (auto simp: starts_with_two ends_run_def dest: set_takeWhileD)
  next
    case block
    with lx r block_body_no_close [of r''] show ?thesis
      by (cases "block_body r'' = r''") (auto simp: lexeme_def starts_with_two)
  next
    case ident
    let ?w = "c # takeWhile (is_ident_continue u) r"
    from ident lx have eqs: "kind = (case from_ident ?w of None \<Rightarrow> Ident | Some kw \<Rightarrow> Keyword kw)"
        "err = None" "w = ?w"
      by (auto simp: lexeme_def Let_def)
    with r have "r' = dropWhile (is_ident_continue u) r" by (simp add: takeWhile_append_drop)
    then have "ends_run (is_ident_continue u) r'" by (simp add: ends_run_dropWhile)
    with eqs ident show ?thesis
      by (auto split: option.splits dest: set_takeWhileD from_ident_SomeD
          simp: from_ident_keyword_text)
  next
    case digit
    with lx have "number_body c r = (kind, tl w)" "err = None" "w = c # tl w"
      by (auto simp: lexeme_def)
    with r digit number_body_ok [of c r kind "tl w" r' u] show ?thesis by (cases w) auto
  next
    case quote
    obtain b v where q: "quoted_body c r = (b, v)" by (cases "quoted_body c r")
    obtain e where "err = (if b then None else Some e)" "w = c # v"
      "(c = dquote \<and> kind = StringLit) \<or> (c = squote \<and> kind = CharLit)"
      using quote lx q by (auto simp: lexeme_def)
    with token_ok_quote [OF q, of r' e] r show ?thesis by auto
  next
    case other
    with lx r show ?thesis
      by (auto simp: lexeme_def split: option.splits dest: lex_punct_text lex_punct_None)
  qed
qed

lemma segmentation_lexemes: "segmentation u t (lexemes u t)"
proof (induction u t rule: lexemes.induct)
  case (1 u)
  then show ?case by (simp add: segmentation_Nil)
next
  case (2 u c r)
  obtain kind err w where lx: "lexeme u c r = (kind, err, w)" by (cases "lexeme u c r") auto
  then obtain w' r' where w: "w = c # w'" and r: "r = w' @ r'" using lexeme_prefix by blast
  then have "w @ r' = c # r" "drop (length w) (c # r) = r'" by simp_all
  with "2" [OF lx [symmetric] refl] lexeme_ok [OF lx, of r'] w show ?case
    unfolding lexemes.simps(2) lx by (metis list.distinct(1) prod.case segmentation_Cons)
qed

lemma segmentation_concat: "segmentation u t ls \<Longrightarrow> concat (map (\<lambda>(_, _, w). w) ls) = t"
  by (induction rule: segmentation.induct) auto

section \<open>Properties of the lexer\<close>

lemma lex_with_checkpoint_spec:
  "run_spec chk k (lex_with_checkpoint chk u api src diagnostics k)
     (\<lambda>x. x = (\<lparr>ts_source = src_id src,
                ts_tokens = lexeme_tokens api (src_id src) 0 (lexemes u (src_text src))
                  @ [\<lparr>tok_kind = Eof, tok_span = span_empty api (src_id src) (blen (src_text src))\<rparr>]\<rparr>,
              diagnostics @ lexeme_diagnostics api (src_id src) 0 (lexemes u (src_text src))))"
proof -
  have loop: "run_spec chk k (lex_loop chk u api (src_id src) (src_text src) 0 [] diagnostics k)
     (\<lambda>x. x = (lexeme_tokens api (src_id src) 0 (lexemes u (src_text src)),
        diagnostics @ lexeme_diagnostics api (src_id src) 0 (lexemes u (src_text src))))" for k
    using lex_loop_spec [of chk k u api "src_id src" "[]" "src_text src" "[]" diagnostics] by simp
  show ?thesis
    unfolding lex_with_checkpoint_def
    by (auto intro!: run_spec_checkpoint run_spec_bind [OF loop] run_spec_Done simp: Let_def)
qed

lemma lex_with_diagnostics_eq:
  "lex_with_diagnostics u api src diagnostics =
     Done (\<lparr>ts_source = src_id src,
            ts_tokens = lexeme_tokens api (src_id src) 0 (lexemes u (src_text src))
              @ [\<lparr>tok_kind = Eof, tok_span = span_empty api (src_id src) (blen (src_text src))\<rparr>]\<rparr>,
           diagnostics @ lexeme_diagnostics api (src_id src) 0 (lexemes u (src_text src)))"
  using run_spec_no_interrupt [OF lex_with_checkpoint_spec [of never 0 u api src diagnostics]]
  by (auto simp: lex_with_diagnostics_def never_def)

text \<open>
  C1. Lexing refines the reference tokenizer for every text, every span implementation and
  every behaviour of the caller's checkpoint: it never panics (no slice is taken off a
  character boundary); it ends with an interruption only when a poll failed, and then with
  the error of the first failed poll; otherwise the stream holds exactly one token per
  reference lexeme, with consecutive byte spans, followed by the end-of-file token, and one
  diagnostic per malformed lexeme, appended in source order to those already reported.
\<close>

theorem lex_refines_reference:
  "run_spec chk k (lex_with_checkpoint chk u api src diagnostics k)
     (\<lambda>x. x = (\<lparr>ts_source = src_id src,
                ts_tokens = lexeme_tokens api (src_id src) 0 (lexemes u (src_text src))
                  @ [\<lparr>tok_kind = Eof, tok_span = span_empty api (src_id src) (blen (src_text src))\<rparr>]\<rparr>,
              diagnostics @ lexeme_diagnostics api (src_id src) 0 (lexemes u (src_text src))))"
  by (rule lex_with_checkpoint_spec)


text \<open>
  What the lexer relies on of the span type: a span keeps the offsets it was built from, as
  long as they fit the 32 bits of a \<open>TextSize\<close>.
\<close>

abbreviation u32_max :: nat where "u32_max \<equiv> 0xFFFFFFFF"

definition span_laws :: "'sp span_api \<Rightarrow> bool" where
  "span_laws api \<longleftrightarrow>
     (\<forall>s a b. a \<le> b \<and> b \<le> u32_max \<longrightarrow>
        range_start api (span_new api s a b) = a \<and> range_end api (span_new api s a b) = b) \<and>
     (\<forall>s a. a \<le> u32_max \<longrightarrow>
        range_start api (span_empty api s a) = a \<and> range_end api (span_empty api s a) = a)"

definition token_slice :: "'sp span_api \<Rightarrow> utext \<Rightarrow> 'sp token \<Rightarrow> utext option" where
  "token_slice api t tok = str_range t (range_start api (tok_span tok)) (range_end api (tok_span tok))"

lemma lexeme_tokens_slices:
  assumes "span_laws api"
  shows "blen (pre @ concat (map (\<lambda>(_, _, w). w) ls)) \<le> u32_max \<Longrightarrow>
     map (token_slice api (pre @ concat (map (\<lambda>(_, _, w). w) ls)))
       (lexeme_tokens api sid (blen pre) ls) = map (\<lambda>(_, _, w). Some w) ls"
proof (induction ls arbitrary: pre)
  case Nil
  then show ?case by simp
next
  case (Cons l ls)
  obtain kind err w where l: "l = (kind, err, w)" by (cases l) auto
  show ?case
    using Cons.IH [of "pre @ w"] assms Cons.prems
    by (simp add: l token_slice_def span_laws_def str_range_append)
qed

text \<open>
  C17. Round trip: slicing the source at the span of each token never panics and the slices,
  in order, concatenate to the source text; the end-of-file token has the empty slice. The
  source is at most \<open>u32::MAX\<close> bytes long, the range of the offsets of a span.
\<close>

theorem lex_roundtrip:
  assumes "span_laws api" and "blen (src_text src) \<le> u32_max"
  shows "\<exists>ts ws. lex u api src = Done ts \<and>
     map (token_slice api (src_text src)) (ts_tokens ts) = map Some ws \<and> concat ws = src_text src"
proof -
  let ?ls = "lexemes u (src_text src)"
  have c: "concat (map (\<lambda>(_, _, w). w) ?ls) = src_text src"
    by (rule segmentation_concat [OF segmentation_lexemes])
  have "map (token_slice api (src_text src)) (lexeme_tokens api (src_id src) 0 ?ls)
      = map Some (map (\<lambda>(_, _, w). w) ?ls)"
    using lexeme_tokens_slices [OF assms(1), of "[]" ?ls "src_id src", unfolded append_Nil blen_Nil c]
      assms(2)
    by (simp add: comp_def case_prod_unfold)
  moreover have "token_slice api (src_text src)
      \<lparr>tok_kind = Eof, tok_span = span_empty api (src_id src) (blen (src_text src))\<rparr> = Some []"
    using assms by (simp add: token_slice_def span_laws_def str_range_def)
  ultimately show ?thesis
    using c
    by (auto simp: lex_def lex_with_diagnostics_eq simp del: map_map
        intro!: exI [of _ "map (\<lambda>(_, _, w). w) ?ls @ [[]]"])
qed

definition ascii_only :: unicode where
  "ascii_only = \<lparr>uni_alphabetic = (\<lambda>_. False), uni_numeric = (\<lambda>_. False)\<rparr>"

theorem lex_roundtrip_witness:
  "span_laws plain_spans \<and>
   (\<exists>ts ws. lex ascii_only plain_spans \<lparr>src_id = 0, src_text = lit ''let x'' @ [0x3B1, 0x20]\<rparr> = Done ts \<and>
     map (token_slice plain_spans (lit ''let x'' @ [0x3B1, 0x20])) (ts_tokens ts) = map Some ws \<and>
     concat ws = lit ''let x'' @ [0x3B1, 0x20])"
proof -
  have h: "span_laws plain_spans" by (simp add: span_laws_def plain_spans_def)
  show ?thesis
    using h lex_roundtrip [OF h, of "\<lparr>src_id = 0, src_text = lit ''let x'' @ [0x3B1, 0x20]\<rparr>" ascii_only]
    by (simp add: lit_def uc_def len_utf8_def)
qed

end
