(* ===== verification/Etas_Cursor.thy ===== *)
theory Etas_Cursor
  imports Etas_Lexer
begin

text \<open>
  The token cursor of \<open>etas_syntax\<close> (\<open>cursor.rs\<close>). Looking at a token polls the optional
  checkpoint and may set the \<open>halted\<close> cell, so every operation threads the cursor; \<open>None\<close>
  is the panic of an index into an empty token list. From the first failed poll on the
  cursor reports the last token, which the lexer guarantees to be the end of file.
\<close>

section \<open>State and operations\<close>

record 'sp cursor =
  cu_tokens :: "'sp token list"
  cu_position :: nat
  cu_checkpoint :: "(nat \<Rightarrow> bool) option"
  cu_polls :: nat
  cu_halted :: bool

definition cursor_new :: "'sp token list \<Rightarrow> 'sp cursor" where
  "cursor_new ts = \<lparr>cu_tokens = ts, cu_position = 0, cu_checkpoint = None, cu_polls = 0, cu_halted = False\<rparr>"

definition cursor_with_checkpoint :: "'sp token list \<Rightarrow> (nat \<Rightarrow> bool) \<Rightarrow> 'sp cursor" where
  "cursor_with_checkpoint ts poll = (cursor_new ts)\<lparr>cu_checkpoint := Some poll\<rparr>"

definition cursor_index :: "'sp cursor \<Rightarrow> nat \<Rightarrow> nat \<times> 'sp cursor" where
  "cursor_index c offset =
     (let last = length (cu_tokens c) - 1 in
      if cu_halted c then (last, c)
      else case cu_checkpoint c of
        None \<Rightarrow> (min (cu_position c + offset) last, c)
      | Some poll \<Rightarrow>
          if poll (cu_polls c)
          then (min (cu_position c + offset) last, c\<lparr>cu_polls := Suc (cu_polls c)\<rparr>)
          else (last, c\<lparr>cu_polls := Suc (cu_polls c), cu_halted := True\<rparr>))"

definition cursor_nth :: "nat \<Rightarrow> 'sp cursor \<Rightarrow> ('sp token \<times> 'sp cursor) option" where
  "cursor_nth n c =
     (case cursor_index c n of (i, c') \<Rightarrow>
        if i < length (cu_tokens c') then Some (cu_tokens c' ! i, c') else None)"

definition cursor_peek :: "'sp cursor \<Rightarrow> ('sp token \<times> 'sp cursor) option" where
  "cursor_peek c = cursor_nth 0 c"

definition cursor_bump :: "'sp cursor \<Rightarrow> ('sp token \<times> 'sp cursor) option" where
  "cursor_bump c = do {
     (t, c) \<leftarrow> cursor_peek c;
     Some (t, if cu_position c + 1 < length (cu_tokens c)
              then c\<lparr>cu_position := cu_position c + 1\<rparr> else c)
   }"

definition cursor_at :: "(token_kind \<Rightarrow> bool) \<Rightarrow> 'sp cursor \<Rightarrow> (bool \<times> 'sp cursor) option" where
  "cursor_at p c = do { (t, c) \<leftarrow> cursor_peek c; Some (p (tok_kind t), c) }"

definition at_eof :: "'sp cursor \<Rightarrow> (bool \<times> 'sp cursor) option" where
  "at_eof = cursor_at (\<lambda>k. k = Eof)"

definition at_keyword :: "keyword \<Rightarrow> 'sp cursor \<Rightarrow> (bool \<times> 'sp cursor) option" where
  "at_keyword kw = cursor_at (\<lambda>k. k = Keyword kw)"

definition at_punct :: "punct \<Rightarrow> 'sp cursor \<Rightarrow> (bool \<times> 'sp cursor) option" where
  "at_punct p = cursor_at (\<lambda>k. k = Punct p)"

definition at_ident_like :: "'sp cursor \<Rightarrow> (bool \<times> 'sp cursor) option" where
  "at_ident_like = cursor_at is_ident_like"

definition cursor_eat :: "('sp cursor \<Rightarrow> (bool \<times> 'sp cursor) option) \<Rightarrow>
    'sp cursor \<Rightarrow> ('sp token option \<times> 'sp cursor) option" where
  "cursor_eat at c = do {
     (b, c) \<leftarrow> at c;
     if b then do { (t, c) \<leftarrow> cursor_bump c; Some (Some t, c) } else Some (None, c)
   }"

definition eat_keyword :: "keyword \<Rightarrow> 'sp cursor \<Rightarrow> ('sp token option \<times> 'sp cursor) option" where
  "eat_keyword kw = cursor_eat (at_keyword kw)"

definition eat_punct :: "punct \<Rightarrow> 'sp cursor \<Rightarrow> ('sp token option \<times> 'sp cursor) option" where
  "eat_punct p = cursor_eat (at_punct p)"

text \<open>The loop \<open>while cond { cursor.bump(); }\<close> and the connectives of its conditions.\<close>

partial_function (option) while_bump ::
    "('sp cursor \<Rightarrow> (bool \<times> 'sp cursor) option) \<Rightarrow> 'sp cursor \<Rightarrow> (unit \<times> 'sp cursor) option" where
  "while_bump cond c = do {
     (b, c) \<leftarrow> cond c;
     if b then do { (_, c) \<leftarrow> cursor_bump c; while_bump cond c } else Some ((), c)
   }"

definition cursor_and :: "('s \<Rightarrow> (bool \<times> 's) option) \<Rightarrow> ('s \<Rightarrow> (bool \<times> 's) option) \<Rightarrow>
    's \<Rightarrow> (bool \<times> 's) option" where
  "cursor_and a b c = do { (x, c) \<leftarrow> a c; if x then b c else Some (False, c) }"

definition cursor_not :: "('s \<Rightarrow> (bool \<times> 's) option) \<Rightarrow> 's \<Rightarrow> (bool \<times> 's) option" where
  "cursor_not a c = do { (x, c) \<leftarrow> a c; Some (\<not> x, c) }"

section \<open>Well-formed cursors\<close>

text \<open>The cursor is halted exactly when its last poll failed, and no poll failed before that.\<close>

definition polls_ok :: "'sp cursor \<Rightarrow> bool" where
  "polls_ok c \<longleftrightarrow>
     (case cu_checkpoint c of
        None \<Rightarrow> \<not> cu_halted c
      | Some poll \<Rightarrow>
          if cu_halted c then 0 < cu_polls c \<and> \<not> poll (cu_polls c - 1) \<and> (\<forall>i < cu_polls c - 1. poll i)
          else (\<forall>i < cu_polls c. poll i))"

definition cursor_wf :: "'sp cursor \<Rightarrow> bool" where
  "cursor_wf c \<longleftrightarrow> cu_tokens c \<noteq> [] \<and> tok_kind (last (cu_tokens c)) = Eof \<and>
     cu_position c < length (cu_tokens c) \<and> polls_ok c"

lemma polls_ok_position [simp]: "polls_ok (c\<lparr>cu_position := n\<rparr>) = polls_ok c"
  by (simp add: polls_ok_def split: option.splits)

text \<open>The token a look reports, as a function of the cursor it leaves behind.\<close>

definition cursor_look :: "nat \<Rightarrow> 'sp cursor \<Rightarrow> 'sp token" where
  "cursor_look n c = (if cu_halted c then last (cu_tokens c)
     else cu_tokens c ! min (cu_position c + n) (length (cu_tokens c) - 1))"

abbreviation cursor_kind :: "'sp cursor \<Rightarrow> token_kind" where
  "cursor_kind c \<equiv> tok_kind (cursor_look 0 c)"

definition cursor_left :: "'sp cursor \<Rightarrow> nat" where
  "cursor_left c = length (cu_tokens c) - cu_position c"

text \<open>
  \<open>same_place c c'\<close>: only the poll counter and the halted cell changed, as after a look;
  \<open>cursor_le c c'\<close>: the cursor moved forward over the same tokens.
\<close>

definition cursor_le :: "'sp cursor \<Rightarrow> 'sp cursor \<Rightarrow> bool" where
  "cursor_le c c' \<longleftrightarrow> cu_tokens c' = cu_tokens c \<and> cu_checkpoint c' = cu_checkpoint c \<and>
     cu_position c \<le> cu_position c' \<and> cu_polls c \<le> cu_polls c' \<and> (cu_halted c \<longrightarrow> cu_halted c') \<and>
     (cursor_wf c \<longrightarrow> cursor_wf c')"

definition same_place :: "'sp cursor \<Rightarrow> 'sp cursor \<Rightarrow> bool" where
  "same_place c c' \<longleftrightarrow> cursor_le c c' \<and> cu_position c' = cu_position c"

lemma cursor_le_refl [simp]: "cursor_le c c"
  by (simp add: cursor_le_def)

lemma cursor_le_trans [trans]: "cursor_le a b \<Longrightarrow> cursor_le b c \<Longrightarrow> cursor_le a c"
  by (auto simp: cursor_le_def)

lemma same_place_refl [simp]: "same_place c c"
  by (simp add: same_place_def)

lemma same_place_trans: "same_place a b \<Longrightarrow> same_place b c \<Longrightarrow> same_place a c"
  by (auto simp: same_place_def intro: cursor_le_trans)

lemma same_place_le: "same_place a b \<Longrightarrow> cursor_le a b"
  by (simp add: same_place_def)

lemma cursor_le_wf: "cursor_le a b \<Longrightarrow> cursor_wf a \<Longrightarrow> cursor_wf b"
  by (simp add: cursor_le_def)

lemma cursor_le_halted: "cursor_le a b \<Longrightarrow> cu_halted a \<Longrightarrow> cu_halted b"
  by (simp add: cursor_le_def)

lemma cursor_le_left: "cursor_le a b \<Longrightarrow> cursor_left b \<le> cursor_left a"
  by (auto simp: cursor_le_def cursor_left_def)

lemma halted_look: "cursor_wf c \<Longrightarrow> cu_halted c \<Longrightarrow> tok_kind (cursor_look n c) = Eof"
  by (simp add: cursor_look_def cursor_wf_def)

lemma not_eof_not_last:
  assumes "cursor_wf c" and "cursor_kind c \<noteq> Eof"
  shows "\<not> cu_halted c" and "cu_position c + 1 < length (cu_tokens c)"
proof -
  show "\<not> cu_halted c" using assms halted_look by blast
  show "cu_position c + 1 < length (cu_tokens c)"
  proof (rule ccontr)
    assume "\<not> ?thesis"
    with assms(1) have "cu_position c = length (cu_tokens c) - 1"
      unfolding cursor_wf_def by linarith
    with assms show False
      by (simp add: cursor_look_def cursor_wf_def last_conv_nth split: if_splits)
  qed
qed

section \<open>What the operations do\<close>

lemma cursor_index_polls:
  "cursor_index c n = (i, c') \<Longrightarrow> polls_ok c \<Longrightarrow> polls_ok c'"
  by (auto simp: cursor_index_def polls_ok_def Let_def less_Suc_eq split: if_splits option.splits)

lemma cursor_index_cases:
  obtains c' where "cursor_index c n = (if cu_halted c' then length (cu_tokens c) - 1
      else min (cu_position c + n) (length (cu_tokens c) - 1), c')"
    "same_place c c'"
  using that [of "snd (cursor_index c n)"] cursor_index_polls [of c n "fst (cursor_index c n)" "snd (cursor_index c n)"]
  by (cases "cu_checkpoint c")
    (auto simp: cursor_index_def same_place_def cursor_le_def cursor_wf_def Let_def)

lemma cursor_nth_spec:
  assumes "cursor_wf c"
  shows "returns (cursor_nth n c) (\<lambda>t c'. same_place c c' \<and> t = cursor_look n c')"
proof -
  obtain c' where i: "cursor_index c n = (if cu_halted c' then length (cu_tokens c) - 1
      else min (cu_position c + n) (length (cu_tokens c) - 1), c')"
    and place: "same_place c c'"
    by (rule cursor_index_cases)
  from place have ts: "cu_tokens c' = cu_tokens c" and pos: "cu_position c' = cu_position c"
    by (simp_all add: same_place_def cursor_le_def)
  from assms have ne: "cu_tokens c \<noteq> []" by (simp add: cursor_wf_def)
  then have "length (cu_tokens c) - 1 < length (cu_tokens c)" by (cases "cu_tokens c") simp_all
  moreover from this have "min (cu_position c + n) (length (cu_tokens c) - 1) < length (cu_tokens c)"
    by linarith
  ultimately show ?thesis
    using i ts pos place ne by (auto simp: cursor_nth_def cursor_look_def last_conv_nth)
qed

lemma cursor_peek_spec:
  "cursor_wf c \<Longrightarrow> returns (cursor_peek c) (\<lambda>t c'. same_place c c' \<and> t = cursor_look 0 c')"
  unfolding cursor_peek_def by (rule cursor_nth_spec)

lemma cursor_at_spec:
  "cursor_wf c \<Longrightarrow> returns (cursor_at p c) (\<lambda>b c'. same_place c c' \<and> b = p (cursor_kind c'))"
  unfolding cursor_at_def by (rule returns_bind [OF cursor_peek_spec]) auto

lemma at_eof_spec:
  "cursor_wf c \<Longrightarrow> returns (at_eof c) (\<lambda>b c'. same_place c c' \<and> b = (cursor_kind c' = Eof))"
  unfolding at_eof_def by (rule cursor_at_spec)

lemma at_keyword_spec:
  "cursor_wf c \<Longrightarrow>
     returns (at_keyword kw c) (\<lambda>b c'. same_place c c' \<and> b = (cursor_kind c' = Keyword kw))"
  unfolding at_keyword_def by (rule cursor_at_spec)

lemma at_punct_spec:
  "cursor_wf c \<Longrightarrow>
     returns (at_punct p c) (\<lambda>b c'. same_place c c' \<and> b = (cursor_kind c' = Punct p))"
  unfolding at_punct_def by (rule cursor_at_spec)

lemma at_ident_like_spec:
  "cursor_wf c \<Longrightarrow>
     returns (at_ident_like c) (\<lambda>b c'. same_place c c' \<and> b = is_ident_like (cursor_kind c'))"
  unfolding at_ident_like_def by (rule cursor_at_spec)

text \<open>
  \<open>bumped c t c'\<close>: the token under the cursor was consumed. A bump that interrupts itself
  reports the end of file and still steps over the token.
\<close>

definition bumped :: "'sp cursor \<Rightarrow> 'sp token \<Rightarrow> 'sp cursor \<Rightarrow> bool" where
  "bumped c t c' \<longleftrightarrow> cursor_le c c' \<and>
     cu_position c' = min (cu_position c + 1) (length (cu_tokens c) - 1) \<and>
     t = (if cu_halted c' then last (cu_tokens c) else cu_tokens c ! cu_position c)"

lemma cursor_bump_spec:
  assumes "cursor_wf c"
  shows "returns (cursor_bump c) (bumped c)"
  unfolding cursor_bump_def
  by (rule returns_bind [OF cursor_peek_spec [OF assms]])
    (use assms in \<open>auto simp: bumped_def same_place_def cursor_le_def cursor_wf_def cursor_look_def
       min_def\<close>)

lemma bumped_le: "bumped c t c' \<Longrightarrow> cursor_le c c'"
  by (simp add: bumped_def)

lemma bumped_left:
  assumes "bumped c t c'" and "cursor_wf c" and "cursor_kind c \<noteq> Eof"
  shows "cursor_left c' < cursor_left c"
  using assms not_eof_not_last [OF assms(2,3)]
  by (auto simp: bumped_def cursor_left_def cursor_le_def)

lemma bumped_position:
  assumes "bumped c t c'" and "cursor_wf c" and "cursor_kind c \<noteq> Eof"
  shows "cu_position c' = Suc (cu_position c)"
  using assms(1) not_eof_not_last [OF assms(2,3)] by (auto simp: bumped_def)

text \<open>
  An eat of a token kind other than the end of file: it consumes exactly one token of that
  kind, unless the cursor halts between the look and the bump.
\<close>

definition ate :: "token_kind \<Rightarrow> 'sp cursor \<Rightarrow> 'sp token option \<Rightarrow> 'sp cursor \<Rightarrow> bool" where
  "ate k c r c' \<longleftrightarrow>
     (case r of
        None \<Rightarrow> same_place c c' \<and> cursor_kind c' \<noteq> k
      | Some t \<Rightarrow> cursor_le c c' \<and> cu_position c' = Suc (cu_position c) \<and>
          tok_kind (cu_tokens c ! cu_position c) = k \<and>
          t = (if cu_halted c' then last (cu_tokens c) else cu_tokens c ! cu_position c))"

lemma cursor_eat_spec:
  assumes wf: "cursor_wf c" and k: "k \<noteq> Eof"
  shows "returns (cursor_eat (cursor_at (\<lambda>k'. k' = k)) c) (ate k c)"
  unfolding cursor_eat_def
proof (rule returns_bind [OF cursor_at_spec [OF wf]], clarify)
  fix c1
  assume c1: "same_place c c1"
  then have wf1: "cursor_wf c1" using wf same_place_le cursor_le_wf by blast
  show "returns (if cursor_kind c1 = k then do { (t, c) \<leftarrow> cursor_bump c1; Some (Some t, c) }
      else Some (None, c1)) (ate k c)"
  proof (cases "cursor_kind c1 = k")
    case False
    with c1 show ?thesis by (simp add: ate_def)
  next
    case True
    with k have ne: "cursor_kind c1 \<noteq> Eof" by simp
    note last = not_eof_not_last [OF wf1 ne]
    have "returns (do { (t, c) \<leftarrow> cursor_bump c1; Some (Some t, c) }) (ate k c)"
    proof (rule returns_bind [OF cursor_bump_spec [OF wf1]], clarify)
      fix t c2
      assume b: "bumped c1 t c2"
      from c1 b have "cursor_le c c2"
        using same_place_le bumped_le cursor_le_trans by blast
      moreover from b last(2) have "cu_position c2 = Suc (cu_position c1)"
        by (simp add: bumped_def)
      moreover have "tok_kind (cu_tokens c1 ! cu_position c1) = k"
        using True last wf1 by (simp add: cursor_look_def cursor_wf_def min_def split: if_splits)
      ultimately show "returns (Some (Some t, c2)) (ate k c)"
        using c1 b by (auto simp: ate_def bumped_def same_place_def cursor_le_def)
    qed
    with True show ?thesis by simp
  qed
qed

lemma eat_keyword_spec: "cursor_wf c \<Longrightarrow> returns (eat_keyword kw c) (ate (Keyword kw) c)"
  unfolding eat_keyword_def at_keyword_def by (rule cursor_eat_spec) simp_all

lemma eat_punct_spec: "cursor_wf c \<Longrightarrow> returns (eat_punct p c) (ate (Punct p) c)"
  unfolding eat_punct_def at_punct_def by (rule cursor_eat_spec) simp_all

lemma ate_le: "ate k c r c' \<Longrightarrow> cursor_le c c'"
  by (auto simp: ate_def same_place_le split: option.splits)

section \<open>Skipping loops\<close>

lemma cursor_not_at_spec:
  "cursor_wf c \<Longrightarrow>
     returns (cursor_not (cursor_at S) c) (\<lambda>b c'. same_place c c' \<and> b = (\<not> S (cursor_kind c')))"
  unfolding cursor_not_def by (rule returns_bind [OF cursor_at_spec]) auto

text \<open>
  \<open>stop_cond S cond\<close>: the condition only looks; it answers \<open>False\<close> only at a token whose
  kind is in \<open>S\<close> and \<open>True\<close> only at one that is not, unless the cursor halted meanwhile.
\<close>

definition stop_cond :: "(token_kind \<Rightarrow> bool) \<Rightarrow> ('sp cursor \<Rightarrow> (bool \<times> 'sp cursor) option) \<Rightarrow> bool"
  where
  "stop_cond S cond \<longleftrightarrow> (\<forall>c. cursor_wf c \<longrightarrow>
     returns (cond c) (\<lambda>b c'. same_place c c' \<and>
       (if b then \<not> cu_halted c' \<longrightarrow> \<not> S (cursor_kind c') else S (cursor_kind c'))))"

lemma stop_cond_not_at: "stop_cond S (cursor_not (cursor_at S))"
  unfolding stop_cond_def
proof (intro allI impI)
  fix c :: "'a cursor" assume "cursor_wf c"
  from cursor_not_at_spec [OF this, of S]
  show "returns (cursor_not (cursor_at S) c) (\<lambda>b c'. same_place c c' \<and>
       (if b then \<not> cu_halted c' \<longrightarrow> \<not> S (cursor_kind c') else S (cursor_kind c')))"
    by (rule returns_conseq) auto
qed

lemma same_place_kind: "same_place c c' \<Longrightarrow> \<not> cu_halted c' \<Longrightarrow> cursor_look n c' = cursor_look n c"
  by (auto simp: same_place_def cursor_le_def cursor_look_def)

lemma cursor_kind_position:
  "cursor_wf c \<Longrightarrow> \<not> cu_halted c \<Longrightarrow> cursor_kind c = tok_kind (cu_tokens c ! cu_position c)"
  by (auto simp: cursor_look_def cursor_wf_def min_def)

lemma stop_cond_and:
  assumes a: "stop_cond S a" and b: "stop_cond T b"
  shows "stop_cond (\<lambda>k. S k \<or> T k) (cursor_and a b)"
  unfolding stop_cond_def cursor_and_def
proof (intro allI impI)
  let ?Q = "\<lambda>c b c'. same_place c c' \<and> (if b then \<not> cu_halted c' \<longrightarrow> \<not> (S (cursor_kind c') \<or> T (cursor_kind c'))
      else S (cursor_kind c') \<or> T (cursor_kind c'))"
  fix c :: "'a cursor" assume wf: "cursor_wf c"
  show "returns (a c \<bind> (\<lambda>(x, c). if x then b c else Some (False, c))) (?Q c)"
  proof (rule returns_bind [OF a [unfolded stop_cond_def, rule_format, OF wf]], clarify)
    fix x c1
    assume c1: "same_place c c1"
      and x: "if x then \<not> cu_halted c1 \<longrightarrow> \<not> S (cursor_kind c1) else S (cursor_kind c1)"
    have wf1: "cursor_wf c1" using c1 wf same_place_le cursor_le_wf by blast
    show "returns (if x then b c1 else Some (False, c1)) (?Q c)"
    proof (cases x)
      case True
      have "returns (b c1) (?Q c)"
        using b [unfolded stop_cond_def, rule_format, OF wf1]
      proof (rule returns_conseq)
        fix y c2
        assume y: "same_place c1 c2 \<and>
          (if y then \<not> cu_halted c2 \<longrightarrow> \<not> T (cursor_kind c2) else T (cursor_kind c2))"
        moreover have "\<not> S (cursor_kind c2)" if "\<not> cu_halted c2"
          using that x True y same_place_kind cursor_le_halted same_place_le by metis
        ultimately show "?Q c y c2"
          using c1 same_place_trans by auto
      qed
      with True show ?thesis by simp
    qed (use x c1 in simp)
  qed
qed

text \<open>
  The condition of a skipping loop: \<open>!at_eof()\<close> and, where the loop has further stop kinds,
  their conjunction.
\<close>

definition skip_cond :: "(token_kind \<Rightarrow> bool) \<Rightarrow> ('sp cursor \<Rightarrow> (bool \<times> 'sp cursor) option) \<Rightarrow> bool"
  where
  "skip_cond S cond \<longleftrightarrow> S Eof \<and> stop_cond S cond \<and> (\<forall>c c'. cursor_wf c \<longrightarrow> cond c = Some (True, c') \<longrightarrow>
     tok_kind (cu_tokens c ! cu_position c) \<noteq> Eof)"

lemma not_at_eof_True:
  assumes "cursor_wf c" and "cursor_not at_eof c = Some (True, c')"
  shows "tok_kind (cu_tokens c ! cu_position c) \<noteq> Eof"
proof -
  from cursor_not_at_spec [OF assms(1), of "\<lambda>k. k = Eof"] assms(2)
  have c': "same_place c c'" and ne: "cursor_kind c' \<noteq> Eof"
    by (simp_all add: returns_def at_eof_def)
  have wf': "cursor_wf c'" using c' assms(1) same_place_le cursor_le_wf by blast
  from not_eof_not_last(1) [OF wf' ne] cursor_kind_position [OF wf'] ne c'
  show ?thesis by (simp add: same_place_def cursor_le_def)
qed

lemma skip_cond_eof: "skip_cond (\<lambda>k. k = Eof) (cursor_not at_eof)"
  using not_at_eof_True stop_cond_not_at [of "\<lambda>k. k = Eof"]
  by (auto simp: skip_cond_def at_eof_def)

lemma skip_cond_and:
  assumes "stop_cond S b"
  shows "skip_cond (\<lambda>k. k = Eof \<or> S k) (cursor_and (cursor_not at_eof) b)"
proof -
  have "stop_cond (\<lambda>k. k = Eof \<or> S k) (cursor_and (cursor_not at_eof) b)"
    by (rule stop_cond_and [OF _ assms]) (simp add: at_eof_def stop_cond_not_at)
  moreover have "\<exists>c1. cursor_not at_eof c = Some (True, c1)"
    if "cursor_and (cursor_not at_eof) b c = Some (True, c')" for c c'
    using that by (auto simp: cursor_and_def bind_eq_Some_conv split: if_splits)
  ultimately show ?thesis
    using not_at_eof_True by (fastforce simp: skip_cond_def)
qed

text \<open>
  Every skipping loop ends. It stops at a stop kind, skips no end of file, and skips no stop
  kind unless the cursor was interrupted on the way.
\<close>

definition skipped :: "(token_kind \<Rightarrow> bool) \<Rightarrow> 'sp cursor \<Rightarrow> 'sp cursor \<Rightarrow> bool" where
  "skipped S c c' \<longleftrightarrow> cursor_le c c' \<and> S (cursor_kind c') \<and>
     (\<forall>i. cu_position c \<le> i \<and> i < cu_position c' \<longrightarrow>
        tok_kind (cu_tokens c ! i) \<noteq> Eof \<and> (\<not> cu_halted c' \<longrightarrow> \<not> S (tok_kind (cu_tokens c ! i))))"

lemma skipped_step:
  assumes le: "cursor_le c c2" and pos: "cu_position c2 = Suc (cu_position c)"
    and ne: "tok_kind (cu_tokens c ! cu_position c) \<noteq> Eof"
    and S: "\<not> cu_halted c2 \<Longrightarrow> \<not> S (tok_kind (cu_tokens c ! cu_position c))"
    and rest: "skipped S c2 c'"
  shows "skipped S c c'"
proof -
  have "tok_kind (cu_tokens c ! i) \<noteq> Eof \<and> (\<not> cu_halted c' \<longrightarrow> \<not> S (tok_kind (cu_tokens c ! i)))"
    if i: "cu_position c \<le> i" "i < cu_position c'" for i
  proof (cases "i = cu_position c")
    case True
    with ne S rest show ?thesis by (auto simp: skipped_def dest: cursor_le_halted)
  next
    case False
    with i pos rest le show ?thesis by (auto simp: skipped_def cursor_le_def)
  qed
  with le rest show ?thesis by (auto simp: skipped_def intro: cursor_le_trans)
qed

lemma while_bump_spec:
  assumes cond: "skip_cond S cond"
  shows "cursor_wf c \<Longrightarrow> returns (while_bump cond c) (\<lambda>_. skipped S c)"
proof (induction "cursor_left c" arbitrary: c rule: less_induct)
  case less
  from cond have "stop_cond S cond" by (simp add: skip_cond_def)
  from this [unfolded stop_cond_def, rule_format, OF less.prems]
  obtain b c1 where b: "cond c = Some (b, c1)" and c1: "same_place c c1"
    and stop: "if b then \<not> cu_halted c1 \<longrightarrow> \<not> S (cursor_kind c1) else S (cursor_kind c1)"
    by (rule returnsE) blast
  have wf1: "cursor_wf c1" using c1 less.prems same_place_le cursor_le_wf by blast
  show ?case
  proof (cases b)
    case False
    with b stop c1 show ?thesis
      by (subst while_bump.simps) (auto simp: skipped_def same_place_def)
  next
    case True
    with cond less.prems b have ne: "tok_kind (cu_tokens c ! cu_position c) \<noteq> Eof"
      by (auto simp: skip_cond_def)
    have lt: "cu_position c + 1 < length (cu_tokens c)"
      using ne less.prems
      by (metis One_nat_def Suc_eq_plus1 Suc_lessI cursor_wf_def diff_Suc_1 last_conv_nth)
    from cursor_bump_spec [OF wf1] obtain t c2 where t: "cursor_bump c1 = Some (t, c2)"
      and bm: "bumped c1 t c2" by (rule returnsE)
    have le: "cursor_le c c2" using c1 bm same_place_le bumped_le cursor_le_trans by blast
    have pos: "cu_position c2 = Suc (cu_position c)"
      using bm c1 lt by (simp add: bumped_def same_place_def cursor_le_def)
    have left: "cursor_left c2 < cursor_left c"
      using pos le lt by (simp add: cursor_left_def cursor_le_def)
    have S: "\<not> S (tok_kind (cu_tokens c ! cu_position c))" if "\<not> cu_halted c2"
    proof -
      from that have nh: "\<not> cu_halted c1" using bm bumped_le cursor_le_halted by blast
      with stop True have "\<not> S (cursor_kind c1)" by simp
      with cursor_kind_position [OF wf1 nh] c1 show ?thesis
        by (simp add: same_place_def cursor_le_def)
    qed
    have "returns (while_bump cond c2) (\<lambda>_. skipped S c2)"
      by (rule less.hyps [OF left]) (use le less.prems cursor_le_wf in blast)
    then have "returns (while_bump cond c2) (\<lambda>_. skipped S c)"
      by (rule returns_conseq) (rule skipped_step [of c c2 S, OF le pos ne S])
    with b True t show ?thesis by (subst while_bump.simps) simp
  qed
qed

end
