(* ===== verification/Etas_Parser.thy ===== *)
theory Etas_Parser
  imports Etas_Cursor
begin

text \<open>
  The parser core of \<open>etas_syntax\<close> (\<open>parser.rs\<close>, \<open>body_limits.rs\<close>, \<open>grammar/recovery.rs\<close>,
  \<open>ast/name.rs\<close>): the parser state, the expectation, delimiter, recovery and list operations
  every grammar rule is built from, the recursion budget, and the entry points that lex a
  source and run a grammar rule on it. A grammar rule is a state transformer, so the closure
  arguments of the source are functions here.
\<close>

section \<open>State\<close>

datatype body_resource_kind = SourceBytes | Tokens | Recursion

record body_parse_limits =
  max_source_bytes :: nat
  max_tokens :: nat
  max_recursion :: nat

record 'sp body_resource_error =
  re_kind :: body_resource_kind
  re_limit :: nat
  re_span :: 'sp

record 'sp body_parse_budget =
  bd_limits :: body_parse_limits
  bd_depth :: nat
  bd_error :: "'sp body_resource_error option"

definition MAX_BODY_PARSE_RECURSION :: nat where
  "MAX_BODY_PARSE_RECURSION = 64"

definition default_limits :: body_parse_limits where
  "default_limits = \<lparr>max_source_bytes = 1024 * 1024, max_tokens = 65536,
     max_recursion = MAX_BODY_PARSE_RECURSION\<rparr>"

record 'sp delimiter =
  dl_open :: punct
  dl_close :: punct
  dl_span :: 'sp

record 'sp parser =
  ps_source :: source_file
  ps_cursor :: "'sp cursor"
  ps_diagnostics :: "'sp diagnostic list"
  ps_delimiters :: "'sp delimiter list"
  ps_record_expr :: bool
  ps_handler_with :: bool
  ps_suppress_handler :: bool
  ps_budget :: "'sp body_parse_budget option"

record 'sp name =
  nm_text :: utext
  nm_span :: 'sp

record 'sp path =
  pa_segments :: "'sp name list"
  pa_span :: 'sp

type_synonym ('sp, 'a) rule = "'sp parser \<Rightarrow> ('a \<times> 'sp parser) option"

text \<open>An operation of the cursor on the parser's cursor, and \<open>diagnostics.push\<close>.\<close>

definition on_cursor :: "('sp cursor \<Rightarrow> ('a \<times> 'sp cursor) option) \<Rightarrow> ('sp, 'a) rule" where
  "on_cursor f p = do { (x, c) \<leftarrow> f (ps_cursor p); Some (x, p\<lparr>ps_cursor := c\<rparr>) }"

definition push_diagnostic :: "'sp diagnostic \<Rightarrow> 'sp parser \<Rightarrow> 'sp parser" where
  "push_diagnostic d p = p\<lparr>ps_diagnostics := ps_diagnostics p @ [d]\<rparr>"

definition diagnostic_syntax :: "syntax_code \<Rightarrow> 'sp \<Rightarrow> utext \<Rightarrow> 'sp diagnostic" where
  "diagnostic_syntax c s m = \<lparr>dg_lex = False, dg_code = c, dg_span = s, dg_message = m,
     dg_secondary = [], dg_suggestions = []\<rparr>"

definition with_suggestion :: "'sp suggestion \<Rightarrow> 'sp diagnostic \<Rightarrow> 'sp diagnostic" where
  "with_suggestion s d = d\<lparr>dg_suggestions := dg_suggestions d @ [s]\<rparr>"

definition with_secondary :: "'sp \<Rightarrow> utext \<Rightarrow> 'sp diagnostic \<Rightarrow> 'sp diagnostic" where
  "with_secondary s m d = d\<lparr>dg_secondary := dg_secondary d @ [(s, m)]\<rparr>"

text \<open>\<open>Vec::remove\<close> and \<open>Iterator::rposition\<close>.\<close>

definition vec_remove :: "nat \<Rightarrow> 'a list \<Rightarrow> 'a list" where
  "vec_remove i xs = take i xs @ drop (Suc i) xs"

definition rposition :: "('a \<Rightarrow> bool) \<Rightarrow> 'a list \<Rightarrow> nat option" where
  "rposition P xs =
     (let is = filter (\<lambda>i. P (xs ! i)) [0..<length xs] in
      if is = [] then None else Some (last is))"

section \<open>Delimiters\<close>

fun matching_close :: "punct \<Rightarrow> punct option" where
  "matching_close PLParen = Some PRParen"
| "matching_close PLBrace = Some PRBrace"
| "matching_close PLBracket = Some PRBracket"
| "matching_close _ = None"

definition is_closing_delimiter :: "punct \<Rightarrow> bool" where
  "is_closing_delimiter p \<longleftrightarrow> p \<in> {PRParen, PRBrace, PRBracket}"

definition note_delimiter_token :: "punct \<Rightarrow> 'sp \<Rightarrow> 'sp parser \<Rightarrow> 'sp parser" where
  "note_delimiter_token punct span p =
     (case matching_close punct of
        Some close \<Rightarrow> p\<lparr>ps_delimiters := ps_delimiters p @
          [\<lparr>dl_open = punct, dl_close = close, dl_span = span\<rparr>]\<rparr>
      | None \<Rightarrow>
          if is_closing_delimiter punct then
            (case rposition (\<lambda>d. dl_close d = punct) (ps_delimiters p) of
               Some i \<Rightarrow> p\<lparr>ps_delimiters := vec_remove i (ps_delimiters p)\<rparr>
             | None \<Rightarrow> p)
          else p)"

section \<open>Missing tokens\<close>

definition missing_code :: "bool \<Rightarrow> syntax_code" where
  "missing_code eof = (if eof then UnexpectedEof else MissingToken)"

definition missing :: "utext \<Rightarrow> ('sp, 'sp) rule" where
  "missing message p = do {
     (t, p) \<leftarrow> on_cursor cursor_peek p;
     (eof, p) \<leftarrow> on_cursor at_eof p;
     Some (tok_span t, push_diagnostic (diagnostic_syntax (missing_code eof) (tok_span t) message) p)
   }"

definition missing_punct :: "punct \<Rightarrow> utext \<Rightarrow> ('sp, 'sp) rule" where
  "missing_punct punct message p = do {
     (t, p) \<leftarrow> on_cursor cursor_peek p;
     (eof, p) \<leftarrow> on_cursor at_eof p;
     let d = diagnostic_syntax (missing_code eof) (tok_span t) message;
     let d = (if punct \<in> {PSemi, PRBrace, PRParen, PRBracket, PLBrace, PLParen, PLBracket}
              then with_suggestion
                \<lparr>sg_title = lit ''insert `'' @ punct_text punct @ lit ''`'',
                 sg_edit = (tok_span t, punct_text punct), sg_applicability = MaybeIncorrect\<rparr> d
              else d);
     Some (tok_span t, push_diagnostic d p)
   }"

definition unclosed_delimiter :: "punct \<Rightarrow> 'sp \<Rightarrow> 'sp delimiter \<Rightarrow> 'sp diagnostic" where
  "unclosed_delimiter punct span dl =
     with_suggestion
       \<lparr>sg_title = lit ''insert missing `'' @ punct_text punct @ lit ''`'',
        sg_edit = (span, punct_text punct), sg_applicability = HasPlaceholders\<rparr>
     (with_secondary (dl_span dl) (lit ''`'' @ punct_text (dl_open dl) @ lit ''` opened here'')
       (diagnostic_syntax UnclosedDelimiter span
          (lit ''expected matching `'' @ punct_text punct @ lit ''` before this token'')))"

definition unclosed_or_missing_delimiter :: "punct \<Rightarrow> utext \<Rightarrow> ('sp, 'sp) rule" where
  "unclosed_or_missing_delimiter punct message p = do {
     (t, p) \<leftarrow> on_cursor cursor_peek p;
     (case rposition (\<lambda>d. dl_close d = punct) (ps_delimiters p) of
        Some i \<Rightarrow>
          Some (tok_span t, push_diagnostic
            (unclosed_delimiter punct (tok_span t) (ps_delimiters p ! i))
            (p\<lparr>ps_delimiters := vec_remove i (ps_delimiters p)\<rparr>))
      | None \<Rightarrow> missing_punct punct message p)
   }"

definition expect_keyword :: "keyword \<Rightarrow> utext \<Rightarrow> ('sp, 'sp) rule" where
  "expect_keyword kw message p = do {
     (r, p) \<leftarrow> on_cursor (eat_keyword kw) p;
     (case r of Some t \<Rightarrow> Some (tok_span t, p) | None \<Rightarrow> missing message p)
   }"

definition expect_punct :: "punct \<Rightarrow> utext \<Rightarrow> ('sp, 'sp) rule" where
  "expect_punct punct message p = do {
     (r, p) \<leftarrow> on_cursor (eat_punct punct) p;
     (case r of
        Some t \<Rightarrow> Some (tok_span t, note_delimiter_token punct (tok_span t) p)
      | None \<Rightarrow>
          if is_closing_delimiter punct then unclosed_or_missing_delimiter punct message p
          else missing_punct punct message p)
   }"

definition eat_open_punct :: "punct \<Rightarrow> ('sp, 'sp token option) rule" where
  "eat_open_punct punct p = do {
     (r, p) \<leftarrow> on_cursor (eat_punct punct) p;
     Some (r, case r of Some t \<Rightarrow> note_delimiter_token punct (tok_span t) p | None \<Rightarrow> p)
   }"

section \<open>Progress and recovery\<close>

definition bump_error :: "syntax_code \<Rightarrow> utext \<Rightarrow> ('sp, unit) rule" where
  "bump_error code message p = do {
     (t, p) \<leftarrow> on_cursor cursor_peek p;
     (eof, p) \<leftarrow> on_cursor at_eof (push_diagnostic (diagnostic_syntax code (tok_span t) message) p);
     if eof then Some ((), p) else do { (_, p) \<leftarrow> on_cursor cursor_bump p; Some ((), p) }
   }"

definition ensure_progress :: "nat \<Rightarrow> utext \<Rightarrow> ('sp, unit) rule" where
  "ensure_progress before message p =
     (if cu_position (ps_cursor p) = before then bump_error UnexpectedToken message p
      else Some ((), p))"

fun item_keyword :: "token_kind \<Rightarrow> bool" where
  "item_keyword (Keyword k) \<longleftrightarrow> k \<in> {KType, KAlias, KEnum, KSpec, KImpl, KEffect, KLet, KVar, KTool,
     KAgent, KPolicy, KProtocol, KFlow}"
| "item_keyword _ \<longleftrightarrow> False"

fun stmt_keyword :: "token_kind \<Rightarrow> bool" where
  "stmt_keyword (Keyword k) \<longleftrightarrow> k \<in> {KLet, KVar, KIf, KMatch, KFor, KWhile, KRetry, KResume, KFinish,
     KReturn, KBreak, KContinue}"
| "stmt_keyword _ \<longleftrightarrow> False"

definition starts_item_keyword :: "'sp cursor \<Rightarrow> (bool \<times> 'sp cursor) option" where
  "starts_item_keyword = cursor_at item_keyword"

definition starts_stmt_keyword :: "'sp cursor \<Rightarrow> (bool \<times> 'sp cursor) option" where
  "starts_stmt_keyword = cursor_at stmt_keyword"

definition recover_item :: "('sp, unit) rule" where
  "recover_item = on_cursor (while_bump
     (cursor_and (cursor_not at_eof)
       (cursor_and (cursor_not starts_item_keyword) (cursor_not (at_punct PRBrace)))))"

definition recover_stmt :: "('sp, unit) rule" where
  "recover_stmt p = do {
     (_, p) \<leftarrow> on_cursor (while_bump
       (cursor_and (cursor_not at_eof)
         (cursor_and (cursor_not (at_punct PSemi)) (cursor_not (at_punct PRBrace))))) p;
     (_, p) \<leftarrow> on_cursor (eat_punct PSemi) p;
     Some ((), p)
   }"

partial_function (option) skip_braces ::
    "nat \<Rightarrow> 'sp \<Rightarrow> 'sp cursor \<Rightarrow> ('sp \<times> 'sp cursor) option" where
  "skip_braces depth end_span c = do {
     (eof, c) \<leftarrow> at_eof c;
     if \<not> eof \<and> depth > 0 then do {
       (t, c) \<leftarrow> cursor_bump c;
       skip_braces
         (if tok_kind t = Punct PLBrace then depth + 1
          else if tok_kind t = Punct PRBrace then depth - 1 else depth) (tok_span t) c
     } else Some (end_span, c)
   }"

definition recover_braced_block :: "'sp span_api \<Rightarrow> ('sp, 'sp) rule" where
  "recover_braced_block A p = do {
     (start, p) \<leftarrow> expect_punct PLBrace (lit ''expected `{`'') p;
     (end_span, p) \<leftarrow> on_cursor (skip_braces 1 start) p;
     Some (span_cover A start end_span, p)
   }"

section \<open>Lookahead, names and lists\<close>

definition looks_like_named_field_brackets :: "'sp cursor \<Rightarrow> (bool \<times> 'sp cursor) option" where
  "looks_like_named_field_brackets =
     cursor_and (at_punct PLBracket)
       (cursor_and (\<lambda>c. do { (t, c) \<leftarrow> cursor_nth 1 c; Some (is_ident_like (tok_kind t), c) })
         (\<lambda>c. do { (t, c) \<leftarrow> cursor_nth 2 c; Some (tok_kind t = Punct PEq, c) }))"

definition previous_span :: "('sp, 'sp) rule" where
  "previous_span p = do { (t, p) \<leftarrow> on_cursor (cursor_nth 0) p; Some (tok_span t, p) }"

definition parser_slice :: "'sp span_api \<Rightarrow> 'sp \<Rightarrow> 'sp parser \<Rightarrow> utext option" where
  "parser_slice A span p = str_range (src_text (ps_source p)) (range_start A span) (range_end A span)"

definition name_stop :: "token_kind \<Rightarrow> bool" where
  "name_stop k \<longleftrightarrow> k \<in> Punct ` {PRBrace, PRParen, PRBracket, PSemi, PComma}"

definition parse_name :: "'sp span_api \<Rightarrow> utext \<Rightarrow> ('sp, 'sp name) rule" where
  "parse_name A message p = do {
     (ident, p) \<leftarrow> on_cursor at_ident_like p;
     if ident then do {
       (t, p) \<leftarrow> on_cursor cursor_bump p;
       txt \<leftarrow> parser_slice A (tok_span t) p;
       Some (\<lparr>nm_text = txt, nm_span = tok_span t\<rparr>, p)
     } else do {
       (t, p) \<leftarrow> on_cursor cursor_peek p;
       (skip, p) \<leftarrow> on_cursor (cursor_and (cursor_not at_eof) (cursor_not (cursor_at name_stop)))
         (push_diagnostic (diagnostic_syntax MissingToken (tok_span t) message) p);
       (_, p) \<leftarrow> (if skip then on_cursor cursor_bump p else Some (t, p));
       Some (\<lparr>nm_text = lit ''<error>'', nm_span = tok_span t\<rparr>, p)
     }
   }"

partial_function (option) path_rest ::
    "'sp span_api \<Rightarrow> 'sp name list \<Rightarrow> 'sp \<Rightarrow> ('sp, 'sp path) rule" where
  "path_rest A segments span p = do {
     (dot, p) \<leftarrow> on_cursor (eat_punct PDot) p;
     (case dot of
        None \<Rightarrow> Some (\<lparr>pa_segments = segments, pa_span = span\<rparr>, p)
      | Some _ \<Rightarrow> do {
          (segment, p) \<leftarrow> parse_name A (lit ''expected path segment after `.`'') p;
          path_rest A (segments @ [segment]) (span_cover A span (nm_span segment)) p
        })
   }"

definition parse_path :: "'sp span_api \<Rightarrow> ('sp, 'sp path) rule" where
  "parse_path A p = do {
     (first, p) \<leftarrow> parse_name A (lit ''expected path segment'') p;
     path_rest A [first] (nm_span first) p
   }"

partial_function (option) owner_args_loop ::
    "nat \<Rightarrow> nat \<Rightarrow> 'sp cursor \<Rightarrow> (bool \<times> 'sp cursor) option" where
  "owner_args_loop depth offset c = do {
     (t, c) \<leftarrow> cursor_nth offset c;
     if tok_kind t = Punct PLt then owner_args_loop (depth + 1) (offset + 1) c
     else if tok_kind t = Punct PGt then
       (if depth - 1 = 0 then do {
          (t, c) \<leftarrow> cursor_nth (offset + 1) c;
          Some (tok_kind t = Punct PDot, c)
        } else owner_args_loop (depth - 1) (offset + 1) c)
     else if tok_kind t = Eof then Some (False, c)
     else owner_args_loop depth (offset + 1) c
   }"

definition effect_owner_args_are_followed_by_action :: "'sp cursor \<Rightarrow> (bool \<times> 'sp cursor) option" where
  "effect_owner_args_are_followed_by_action = owner_args_loop 0 0"

text \<open>
  \<open>comma_list\<close>: the element parser is a closure that may own state of its own (the receiver
  flag of a parameter list), here of type \<open>'k\<close>.
\<close>

partial_function (option) comma_loop ::
    "punct \<Rightarrow> ('k \<Rightarrow> ('sp, 'a \<times> 'k) rule) \<Rightarrow> 'a list \<Rightarrow> 'k \<Rightarrow> ('sp, 'a list \<times> 'k) rule" where
  "comma_loop terminator parse values k p = do {
     (go, p) \<leftarrow> on_cursor (cursor_and (cursor_not at_eof) (cursor_not (at_punct terminator))) p;
     if go then do {
       let before = cu_position (ps_cursor p);
       ((v, k), p) \<leftarrow> parse k p;
       (comma, p) \<leftarrow> on_cursor (eat_punct PComma) p;
       (case comma of
          None \<Rightarrow> Some ((values @ [v], k), p)
        | Some _ \<Rightarrow> do {
            (_, p) \<leftarrow> ensure_progress before (lit ''expected comma-list element'') p;
            comma_loop terminator parse (values @ [v]) k p
          })
     } else Some ((values, k), p)
   }"

definition comma_list ::
    "punct \<Rightarrow> ('k \<Rightarrow> ('sp, 'a \<times> 'k) rule) \<Rightarrow> 'k \<Rightarrow> ('sp, 'a list \<times> 'k) rule" where
  "comma_list terminator parse k p = do {
     (done, p) \<leftarrow> on_cursor (at_punct terminator) p;
     if done then Some (([], k), p) else comma_loop terminator parse [] k p
   }"

section \<open>The recursion budget\<close>

definition exhaust_body_recursion :: "'sp \<Rightarrow> ('sp, unit) rule" where
  "exhaust_body_recursion span p =
     on_cursor (while_bump (cursor_not at_eof))
       (case ps_budget p of
          None \<Rightarrow> p
        | Some b \<Rightarrow> p\<lparr>ps_budget := Some (b\<lparr>bd_error :=
            Some (case bd_error b of
                    Some e \<Rightarrow> e
                  | None \<Rightarrow> \<lparr>re_kind = Recursion, re_limit = max_recursion (bd_limits b),
                              re_span = span\<rparr>)\<rparr>)\<rparr>)"

definition leave_body_recursion :: "'sp parser \<Rightarrow> 'sp parser option" where
  "leave_body_recursion p =
     (case ps_budget p of
        None \<Rightarrow> Some p
      | Some b \<Rightarrow> if bd_depth b = 0 then None
          else Some (p\<lparr>ps_budget := Some (b\<lparr>bd_depth := bd_depth b - 1\<rparr>)\<rparr>))"

definition with_body_recursion :: "('sp \<Rightarrow> 'a) \<Rightarrow> ('sp, 'a) rule \<Rightarrow> ('sp, 'a) rule" where
  "with_body_recursion invalid parse p =
     (case ps_budget p of
        Some b \<Rightarrow>
          if bd_error b \<noteq> None \<or> max_recursion (bd_limits b) \<le> bd_depth b then do {
            (t, p) \<leftarrow> on_cursor cursor_peek p;
            (_, p) \<leftarrow> exhaust_body_recursion (tok_span t) p;
            Some (invalid (tok_span t), p)
          } else do {
            (x, p) \<leftarrow> parse (p\<lparr>ps_budget := Some (b\<lparr>bd_depth := bd_depth b + 1\<rparr>)\<rparr>);
            p \<leftarrow> leave_body_recursion p;
            Some (x, p)
          }
      | None \<Rightarrow> do {
          (x, p) \<leftarrow> parse p;
          p \<leftarrow> leave_body_recursion p;
          Some (x, p)
        })"

definition body_chain_step :: "nat \<Rightarrow> ('sp, bool \<times> nat) rule" where
  "body_chain_step len p =
     (case ps_budget p of
        Some b \<Rightarrow>
          if max_recursion (bd_limits b) < len + 1 then do {
            (t, p) \<leftarrow> on_cursor cursor_peek p;
            (_, p) \<leftarrow> exhaust_body_recursion (tok_span t) p;
            Some ((False, len + 1), p)
          } else Some ((True, len + 1), p)
      | None \<Rightarrow> Some ((True, len + 1), p))"

section \<open>Obsolete keywords\<close>

text \<open>\<open>str::match_indices\<close>: start offsets of the non-overlapping occurrences, left to right.\<close>

function match_indices :: "utext \<Rightarrow> utext \<Rightarrow> nat \<Rightarrow> nat list" where
  "match_indices pat [] n = (if pat = [] then [n] else [])"
| "match_indices pat (c # t) n =
     (if pat = [] then n # match_indices pat t (n + len_utf8 c)
      else if starts_with (c # t) pat
      then n # match_indices pat (drop (length pat) (c # t)) (n + blen pat)
      else match_indices pat t (n + len_utf8 c))"
  by pat_completeness auto
termination
  by (relation "measure (\<lambda>(_, t, _). length t)") auto

definition is_keyword_boundary :: "unicode \<Rightarrow> utext \<Rightarrow> nat \<Rightarrow> nat \<Rightarrow> bool option" where
  "is_keyword_boundary u t a b = do {
     before \<leftarrow> str_upto t a;
     after \<leftarrow> str_from t b;
     Some (\<not> (before \<noteq> [] \<and> is_ident_continue u (last before)) \<and>
           \<not> (after \<noteq> [] \<and> is_ident_continue u (hd after)))
   }"

fun filter_boundary :: "unicode \<Rightarrow> utext \<Rightarrow> (nat \<times> nat) list \<Rightarrow> (nat \<times> nat) list option" where
  "filter_boundary u t [] = Some []"
| "filter_boundary u t ((a, b) # rs) = do {
     keep \<leftarrow> is_keyword_boundary u t a b;
     rs \<leftarrow> filter_boundary u t rs;
     Some (if keep then (a, b) # rs else rs)
   }"

definition keyword_spans :: "unicode \<Rightarrow> utext \<Rightarrow> utext \<Rightarrow> (nat \<times> nat) list option" where
  "keyword_spans u t kw = filter_boundary u t (map (\<lambda>n. (n, n + blen kw)) (match_indices kw t 0))"

definition obsolete_fun_spans :: "unicode \<Rightarrow> utext \<Rightarrow> (nat \<times> nat) list option" where
  "obsolete_fun_spans u t = keyword_spans u t (lit ''fun'')"

definition obsolete_fun_diagnostic :: "'sp \<Rightarrow> 'sp diagnostic" where
  "obsolete_fun_diagnostic span =
     with_suggestion \<lparr>sg_title = lit ''replace `fun` with `flow`'', sg_edit = (span, lit ''flow''),
         sg_applicability = MachineApplicable\<rparr>
       (diagnostic_syntax InvalidItem span (lit ''`fun` is obsolete source syntax; use `flow`''))"

definition obsolete_fun_diagnostics ::
    "unicode \<Rightarrow> 'sp span_api \<Rightarrow> source_file \<Rightarrow> 'sp token_stream \<Rightarrow> 'sp diagnostic list option" where
  "obsolete_fun_diagnostics u A src ts = do {
     spans \<leftarrow> obsolete_fun_spans u (src_text src);
     Some (map (\<lambda>(a, b). obsolete_fun_diagnostic (span_new A (src_id src) a b))
       (filter (\<lambda>(a, b). list_ex (\<lambda>t. tok_kind t = Ident \<and> range_start A (tok_span t) = a \<and>
          range_end A (tok_span t) = b) (ts_tokens ts)) spans))
   }"

section \<open>Entry points\<close>

record ('sp, 'a) parse =
  pr_value :: 'a
  pr_diagnostics :: "'sp diagnostic list"
  pr_tokens :: "'sp token_stream"

definition initial_parser ::
    "source_file \<Rightarrow> 'sp cursor \<Rightarrow> 'sp diagnostic list \<Rightarrow> 'sp body_parse_budget option \<Rightarrow> 'sp parser" where
  "initial_parser src c ds bd = \<lparr>ps_source = src, ps_cursor = c, ps_diagnostics = ds,
     ps_delimiters = [], ps_record_expr = True, ps_handler_with = True,
     ps_suppress_handler = False, ps_budget = bd\<rparr>"

definition parse_source ::
    "unicode \<Rightarrow> 'sp span_api \<Rightarrow> source_file \<Rightarrow> ('sp, 'a) rule \<Rightarrow> ('sp, 'a) parse option" where
  "parse_source u A src parse =
     (case lex_with_diagnostics u A src [] of
        Done (tokens, ds) \<Rightarrow> do {
          obs \<leftarrow> obsolete_fun_diagnostics u A src tokens;
          (value, p) \<leftarrow> parse (initial_parser src (cursor_new (significant_tokens tokens)) (ds @ obs) None);
          Some \<lparr>pr_value = value, pr_diagnostics = ps_diagnostics p, pr_tokens = tokens\<rparr>
        }
      | _ \<Rightarrow> None)"

datatype ('e, 'sp) bounded_error = BInterrupted 'e | BResource "'sp body_resource_error"

text \<open>
  \<open>parse_source_bounded\<close>. The caller's checkpoint is the sequence \<open>chk\<close> of its results; the
  interruption cell of the source is written by the cursor's poll exactly when the cursor
  halts, with the error of its last poll.
\<close>

definition budget_error :: "'sp parser \<Rightarrow> 'sp body_resource_error option" where
  "budget_error p = (case ps_budget p of None \<Rightarrow> None | Some b \<Rightarrow> bd_error b)"

definition run_bounded_rule ::
    "(nat \<Rightarrow> 'e option) \<Rightarrow> unicode \<Rightarrow> 'sp span_api \<Rightarrow> source_file \<Rightarrow> body_parse_limits \<Rightarrow> ('sp, 'a) rule \<Rightarrow>
     'sp token_stream \<Rightarrow> 'sp diagnostic list \<Rightarrow> nat \<Rightarrow> (('e, 'sp) bounded_error + ('sp, 'a) parse) option" where
  "run_bounded_rule chk u A src limits parse tokens ds k = do {
     (value, p) \<leftarrow> parse (initial_parser src
        (cursor_with_checkpoint (significant_tokens tokens) (\<lambda>i. chk (k + i) = None)) ds
        (Some \<lparr>bd_limits = limits, bd_depth = 0, bd_error = None\<rparr>));
     let polls = k + cu_polls (ps_cursor p);
     if cu_halted (ps_cursor p) then Some (Inl (BInterrupted (the (chk (polls - 1)))))
     else case chk polls of
       Some e \<Rightarrow> Some (Inl (BInterrupted e))
     | None \<Rightarrow>
         (case budget_error p of
            Some e \<Rightarrow> Some (Inl (BResource e))
          | None \<Rightarrow> Some (Inr \<lparr>pr_value = value, pr_diagnostics = ps_diagnostics p, pr_tokens = tokens\<rparr>))
   }"

definition source_span :: "'sp span_api \<Rightarrow> source_file \<Rightarrow> 'sp" where
  "source_span A src = span_new A (src_id src) 0 (blen (src_text src))"

definition parse_tokens_bounded ::
    "(nat \<Rightarrow> 'e option) \<Rightarrow> unicode \<Rightarrow> 'sp span_api \<Rightarrow> source_file \<Rightarrow> body_parse_limits \<Rightarrow> ('sp, 'a) rule \<Rightarrow>
     (('e, 'sp) bounded_error + ('sp, 'a) parse) option" where
  "parse_tokens_bounded chk u A src limits parse =
     (case lex_with_checkpoint chk u A src [] 1 of
        Panic \<Rightarrow> None
      | Interrupted e \<Rightarrow> Some (Inl (BInterrupted e))
      | Done ((tokens, ds), k) \<Rightarrow>
          if max_tokens limits < length (ts_tokens tokens) then
            Some (Inl (BResource \<lparr>re_kind = Tokens, re_limit = max_tokens limits,
              re_span = source_span A src\<rparr>))
          else do {
            obs \<leftarrow> obsolete_fun_diagnostics u A src tokens;
            (case chk k of
               Some e \<Rightarrow> Some (Inl (BInterrupted e))
             | None \<Rightarrow> run_bounded_rule chk u A src limits parse tokens (ds @ obs) (Suc k))
          })"

definition parse_source_bounded ::
    "(nat \<Rightarrow> 'e option) \<Rightarrow> unicode \<Rightarrow> 'sp span_api \<Rightarrow> source_file \<Rightarrow> body_parse_limits \<Rightarrow> ('sp, 'a) rule \<Rightarrow>
     (('e, 'sp) bounded_error + ('sp, 'a) parse) option" where
  "parse_source_bounded chk u A src limits parse =
     (case chk 0 of
        Some e \<Rightarrow> Some (Inl (BInterrupted e))
      | None \<Rightarrow>
          (let max_bytes = min (max_source_bytes limits) u32_max in
           if max_bytes < blen (src_text src) then
             Some (Inl (BResource \<lparr>re_kind = SourceBytes, re_limit = max_bytes,
               re_span = span_new A (src_id src) 0 0\<rparr>))
           else if MAX_BODY_PARSE_RECURSION < max_recursion limits then
             Some (Inl (BResource \<lparr>re_kind = Recursion, re_limit = MAX_BODY_PARSE_RECURSION,
               re_span = source_span A src\<rparr>))
           else parse_tokens_bounded chk u A src limits parse))"

end
