(* ===== verification/Etas_Parser_Rules.thy ===== *)
theory Etas_Parser_Rules
  imports Etas_Parser
begin

text \<open>
  Facts on the parser core: the invariant of a parser, forward rules and their composition,
  the operations as forward rules, the list loop and the recursion budget behind the
  interfaces \<open>element_rule\<close> and \<open>grammar_rule\<close>, the delimiter stack, the exact effect of
  expecting a token and of skipping a braced block.
\<close>

section \<open>Well-formed parsers and forward rules\<close>

text \<open>
  A parser is well formed when its cursor is and the span of every token can be sliced out
  of the source. \<open>parser_le\<close> is what every rule keeps: the source, the tokens, the
  diagnostics reported so far, the limits, the recursion depth and the first budget error.
\<close>

definition parser_wf :: "'sp span_api \<Rightarrow> 'sp parser \<Rightarrow> bool" where
  "parser_wf A p \<longleftrightarrow> cursor_wf (ps_cursor p) \<and>
     (\<forall>t \<in> set (cu_tokens (ps_cursor p)). parser_slice A (tok_span t) p \<noteq> None)"

fun budget_le :: "'sp body_parse_budget option \<Rightarrow> 'sp body_parse_budget option \<Rightarrow> bool" where
  "budget_le None None \<longleftrightarrow> True"
| "budget_le (Some b) (Some b') \<longleftrightarrow> bd_limits b' = bd_limits b \<and> bd_depth b' = bd_depth b \<and>
     (bd_error b \<noteq> None \<longrightarrow> bd_error b' = bd_error b)"
| "budget_le _ _ \<longleftrightarrow> False"

definition parser_le :: "'sp parser \<Rightarrow> 'sp parser \<Rightarrow> bool" where
  "parser_le p p' \<longleftrightarrow> cursor_le (ps_cursor p) (ps_cursor p') \<and> ps_source p' = ps_source p \<and>
     prefix (ps_diagnostics p) (ps_diagnostics p') \<and> budget_le (ps_budget p) (ps_budget p')"

lemma budget_le_refl [simp]: "budget_le b b"
  by (cases b) simp_all

lemma budget_le_trans: "budget_le a b \<Longrightarrow> budget_le b c \<Longrightarrow> budget_le a c"
  by (cases a; cases b; cases c) auto

lemma parser_le_refl [simp]: "parser_le p p"
  by (simp add: parser_le_def)

lemma parser_le_trans [trans]: "parser_le a b \<Longrightarrow> parser_le b c \<Longrightarrow> parser_le a c"
  by (auto simp: parser_le_def intro: cursor_le_trans budget_le_trans prefix_order.trans)

lemma parser_le_cursor [simp]: "parser_le p (p\<lparr>ps_cursor := c\<rparr>) \<longleftrightarrow> cursor_le (ps_cursor p) c"
  by (simp add: parser_le_def)

lemma parser_le_push [simp]: "parser_le p (push_diagnostic d p)"
  by (simp add: parser_le_def push_diagnostic_def)

lemma parser_le_note [simp]: "parser_le p (note_delimiter_token q s p)"
  by (simp add: parser_le_def note_delimiter_token_def split: option.splits)

lemma parser_le_delimiters [simp]: "parser_le p (p\<lparr>ps_delimiters := ds\<rparr>)"
  by (simp add: parser_le_def)

lemma parser_le_cursor_le: "parser_le p p' \<Longrightarrow> cursor_le (ps_cursor p) (ps_cursor p')"
  by (simp add: parser_le_def)

lemma parser_le_wf: "parser_le p p' \<Longrightarrow> parser_wf A p \<Longrightarrow> parser_wf A p'"
  by (simp add: parser_le_def parser_wf_def cursor_le_def parser_slice_def)

lemma parser_wf_cursor: "parser_wf A p \<Longrightarrow> cursor_wf (ps_cursor p)"
  by (simp add: parser_wf_def)

lemma push_diagnostic_cursor [simp]: "ps_cursor (push_diagnostic d p) = ps_cursor p"
  by (simp add: push_diagnostic_def)

lemma note_delimiter_cursor [simp]: "ps_cursor (note_delimiter_token q s p) = ps_cursor p"
  by (simp add: note_delimiter_token_def split: option.splits)

lemma on_cursor_spec:
  assumes "returns (f (ps_cursor p)) Q"
  shows "returns (on_cursor f p) (\<lambda>x p'. p' = p\<lparr>ps_cursor := ps_cursor p'\<rparr> \<and> Q x (ps_cursor p'))"
  unfolding on_cursor_def by (rule returns_bind [OF assms]) simp

text \<open>A rule that returns on every well-formed parser and only moves forward.\<close>

definition forward :: "'sp span_api \<Rightarrow> ('sp, 'a) rule \<Rightarrow> bool" where
  "forward A rule \<longleftrightarrow> (\<forall>p. parser_wf A p \<longrightarrow> returns (rule p) (\<lambda>_. parser_le p))"

lemma forwardI: "(\<And>p. parser_wf A p \<Longrightarrow> returns (rule p) (\<lambda>_. parser_le p)) \<Longrightarrow> forward A rule"
  by (simp add: forward_def)

lemma forwardD: "forward A rule \<Longrightarrow> parser_wf A p \<Longrightarrow> returns (rule p) (\<lambda>_. parser_le p)"
  by (simp add: forward_def)

lemma forward_bind:
  assumes m: "forward A m" and f: "\<And>x. forward A (f x)"
  shows "forward A (\<lambda>p. m p \<bind> (\<lambda>(x, p). f x p))"
proof (rule forwardI)
  fix p assume wf: "parser_wf A p"
  show "returns (m p \<bind> (\<lambda>(x, p). f x p)) (\<lambda>_. parser_le p)"
  proof (rule returns_bind [OF forwardD [OF m wf]], clarify)
    fix x p1 assume le: "parser_le p p1"
    show "returns (f x p1) (\<lambda>_. parser_le p)"
      by (rule returns_conseq [OF forwardD [OF f parser_le_wf [OF le wf]]])
        (use le parser_le_trans in blast)
  qed
qed

lemma forward_pure: "(\<And>p. parser_le p (g p)) \<Longrightarrow> forward A (\<lambda>p. Some (f p, g p))"
  by (rule forwardI) simp

lemma forward_if: "forward A a \<Longrightarrow> forward A b \<Longrightarrow> forward A (\<lambda>p. if c then a p else b p)"
  by (simp add: forward_def)

lemma forward_cursor:
  assumes "\<And>c. cursor_wf c \<Longrightarrow> returns (f c) (\<lambda>x c'. cursor_le c c')"
  shows "forward A (on_cursor f)"
proof (rule forwardI)
  fix p assume "parser_wf A p"
  from on_cursor_spec [where f = f and p = p, OF assms [OF parser_wf_cursor [OF this]]]
  show "returns (on_cursor f p) (\<lambda>_. parser_le p)"
    by (rule returns_conseq) (metis parser_le_cursor)
qed

text \<open>Looks: cursor operations that only look.\<close>

definition looks :: "('sp cursor \<Rightarrow> (bool \<times> 'sp cursor) option) \<Rightarrow> bool" where
  "looks f \<longleftrightarrow> (\<forall>c. cursor_wf c \<longrightarrow> returns (f c) (\<lambda>_. same_place c))"

lemma looks_at [simp]: "looks (cursor_at q)"
  unfolding looks_def using cursor_at_spec by (fastforce elim: returns_conseq)

lemma looks_at_simps [simp]: "looks at_eof" "looks (at_keyword k)" "looks (at_punct q)" "looks at_ident_like"
  "looks starts_item_keyword" "looks starts_stmt_keyword"
  by (simp_all add: at_eof_def at_keyword_def at_punct_def at_ident_like_def starts_item_keyword_def
      starts_stmt_keyword_def)

lemma looks_not [simp]: "looks a \<Longrightarrow> looks (cursor_not a)"
  unfolding looks_def cursor_not_def by (fastforce intro: returns_bind)

lemma looks_and [simp]: "looks a \<Longrightarrow> looks b \<Longrightarrow> looks (cursor_and a b)"
  unfolding looks_def cursor_and_def
proof (intro allI impI)
  fix c :: "'a cursor" assume a: "\<forall>c. cursor_wf c \<longrightarrow> returns (a c) (\<lambda>_. same_place c)"
    and b: "\<forall>c. cursor_wf c \<longrightarrow> returns (b c) (\<lambda>_. same_place c)" and wf: "cursor_wf c"
  show "returns (a c \<bind> (\<lambda>(x, c). if x then b c else Some (False, c))) (\<lambda>_. same_place c)"
  proof (rule returns_bind [where P = "\<lambda>_. same_place c"])
    show "returns (a c) (\<lambda>_. same_place c)" using a wf by blast
    fix x c1 assume c1: "same_place c c1"
    then have "returns (b c1) (\<lambda>_. same_place c1)" using b wf same_place_le cursor_le_wf by blast
    with c1 show "returns (case (x, c1) of (x, c) \<Rightarrow> if x then b c else Some (False, c)) (\<lambda>_. same_place c)"
      by (auto elim!: returns_conseq intro: same_place_trans)
  qed
qed

lemma forward_looks: "looks f \<Longrightarrow> forward A (on_cursor f)"
  by (rule forward_cursor) (auto simp: looks_def dest: same_place_le elim!: returns_conseq)

lemma forward_peek: "forward A (on_cursor cursor_peek)"
  by (rule forward_cursor) (auto dest: same_place_le intro: returns_conseq [OF cursor_peek_spec])

lemma forward_bump: "forward A (on_cursor cursor_bump)"
  by (rule forward_cursor) (auto dest: bumped_le intro: returns_conseq [OF cursor_bump_spec])

lemma forward_eat_punct: "forward A (on_cursor (eat_punct q))"
  by (rule forward_cursor) (auto dest: ate_le intro: returns_conseq [OF eat_punct_spec])

lemma forward_eat_keyword: "forward A (on_cursor (eat_keyword q))"
  by (rule forward_cursor) (auto dest: ate_le intro: returns_conseq [OF eat_keyword_spec])


section \<open>The operations are forward rules\<close>

lemma forward_case_option:
  "(\<And>x. forward A (f x)) \<Longrightarrow> forward A g \<Longrightarrow> forward A (\<lambda>p. case r of None \<Rightarrow> g p | Some x \<Rightarrow> f x p)"
  by (cases r) simp_all

lemma forward_push:
  "forward A rule \<Longrightarrow> forward A (\<lambda>p. rule (push_diagnostic d p))"
  unfolding forward_def
  by (metis (no_types, lifting) parser_le_push parser_le_trans parser_le_wf returns_conseq)

lemma forward_push_cursor:
  "forward A (on_cursor f) \<Longrightarrow> forward A (\<lambda>p. on_cursor f (push_diagnostic d p))"
  by (rule forward_push)

lemma forward_missing: "forward A (missing message)"
  unfolding missing_def
  by (intro forward_bind forward_peek forward_looks forward_pure) simp_all

lemma forward_missing_punct: "forward A (missing_punct q message)"
  unfolding missing_punct_def Let_def
  by (intro forward_bind forward_peek forward_looks forward_pure) simp_all

lemma forward_unclosed: "forward A (unclosed_or_missing_delimiter q message)"
  unfolding unclosed_or_missing_delimiter_def
proof (rule forward_bind [OF forward_peek], rule forwardI)
  fix t :: "'a token" and p :: "'a parser" assume "parser_wf A p"
  then have "returns (missing_punct q message p) (\<lambda>_. parser_le p)"
    by (rule forwardD [OF forward_missing_punct])
  then show "returns (case rposition (\<lambda>d. dl_close d = q) (ps_delimiters p) of
        None \<Rightarrow> missing_punct q message p
      | Some i \<Rightarrow> Some (tok_span t, push_diagnostic
          (unclosed_delimiter q (tok_span t) (ps_delimiters p ! i))
          (p\<lparr>ps_delimiters := vec_remove i (ps_delimiters p)\<rparr>))) (\<lambda>_. parser_le p)"
    using parser_le_trans [OF parser_le_delimiters parser_le_push] by (auto split: option.splits)
qed

lemma forward_expect_keyword: "forward A (expect_keyword k message)"
  unfolding expect_keyword_def
  by (intro forward_bind forward_eat_keyword forward_case_option forward_pure forward_missing) simp

lemma forward_expect_punct: "forward A (expect_punct q message)"
  unfolding expect_punct_def
  by (intro forward_bind forward_eat_punct forward_case_option forward_pure forward_if
      forward_missing_punct forward_unclosed) simp

lemma forward_eat_open_punct: "forward A (eat_open_punct q)"
  unfolding eat_open_punct_def
  by (intro forward_bind forward_eat_punct forward_pure) (simp split: option.splits)

lemma forward_bump_error: "forward A (bump_error code message)"
  unfolding bump_error_def
  by (intro forward_bind forward_peek forward_push forward_looks forward_if forward_pure forward_bump)
    simp_all

lemma forward_ensure_progress: "forward A (ensure_progress before message)"
  using forwardD [OF forward_bump_error] by (auto intro!: forwardI simp: ensure_progress_def)

text \<open>Skipping loops.\<close>

lemma forward_while_bump: "skip_cond S cond \<Longrightarrow> forward A (on_cursor (while_bump cond))"
  by (rule forward_cursor) (auto intro: returns_conseq [OF while_bump_spec] simp: skipped_def)

definition item_sync :: "token_kind \<Rightarrow> bool" where
  "item_sync k \<longleftrightarrow> k = Eof \<or> item_keyword k \<or> k = Punct PRBrace"

definition stmt_sync :: "token_kind \<Rightarrow> bool" where
  "stmt_sync k \<longleftrightarrow> k = Eof \<or> k = Punct PSemi \<or> k = Punct PRBrace"

lemma skip_cond_item:
  "skip_cond item_sync (cursor_and (cursor_not at_eof)
     (cursor_and (cursor_not starts_item_keyword) (cursor_not (at_punct PRBrace))))"
  using skip_cond_and [OF stop_cond_and [OF stop_cond_not_at stop_cond_not_at],
      of item_keyword "\<lambda>k. k = Punct PRBrace"]
  by (simp add: item_sync_def [abs_def] starts_item_keyword_def at_punct_def)

lemma skip_cond_stmt:
  "skip_cond stmt_sync (cursor_and (cursor_not at_eof)
     (cursor_and (cursor_not (at_punct PSemi)) (cursor_not (at_punct PRBrace))))"
  using skip_cond_and [OF stop_cond_and [OF stop_cond_not_at stop_cond_not_at],
      of "\<lambda>k. k = Punct PSemi" "\<lambda>k. k = Punct PRBrace"]
  by (simp add: stmt_sync_def [abs_def] at_punct_def)

lemma forward_recover_item: "forward A recover_item"
  unfolding recover_item_def by (rule forward_while_bump [OF skip_cond_item])

lemma forward_recover_stmt: "forward A recover_stmt"
  unfolding recover_stmt_def
  by (intro forward_bind forward_while_bump [OF skip_cond_stmt] forward_eat_punct forward_pure) simp

lemma bump_not_eof:
  assumes wf: "cursor_wf c" and c1: "same_place c c1" and ne: "cursor_kind c1 \<noteq> Eof"
    and b: "bumped c1 t c2"
  shows "cursor_le c c2" "cu_position c2 = Suc (cu_position c)" "cursor_left c2 < cursor_left c"
    "cursor_wf c2" "\<not> cu_halted c2 \<Longrightarrow> t = cu_tokens c ! cu_position c"
    "cu_halted c2 \<Longrightarrow> tok_kind t = Eof"
proof -
  have wf1: "cursor_wf c1" using c1 wf same_place_le cursor_le_wf by blast
  show le: "cursor_le c c2" using c1 b same_place_le bumped_le cursor_le_trans by blast
  from bumped_position [OF b wf1 ne] c1 show "cu_position c2 = Suc (cu_position c)"
    by (simp add: same_place_def)
  from bumped_left [OF b wf1 ne] c1 show "cursor_left c2 < cursor_left c"
    by (simp add: same_place_def cursor_le_def cursor_left_def)
  from le wf show "cursor_wf c2" by (rule cursor_le_wf)
  show "t = cu_tokens c ! cu_position c" if "\<not> cu_halted c2"
    using b c1 that by (simp add: bumped_def same_place_def cursor_le_def)
  show "tok_kind t = Eof" if "cu_halted c2"
    using b c1 that wf by (simp add: bumped_def same_place_def cursor_le_def cursor_wf_def)
qed

lemma skip_braces_forward:
  "cursor_wf c \<Longrightarrow> returns (skip_braces d s c) (\<lambda>_. cursor_le c)"
proof (induction "cursor_left c" arbitrary: c d s rule: less_induct)
  case less
  from at_eof_spec [OF less.prems] obtain c1 where e: "at_eof c = Some (cursor_kind c1 = Eof, c1)"
    and c1: "same_place c c1" by (rule returnsE) blast
  have wf1: "cursor_wf c1" using c1 less.prems same_place_le cursor_le_wf by blast
  show ?case
  proof (cases "cursor_kind c1 = Eof \<or> d = 0")
    case True
    with e c1 show ?thesis by (subst skip_braces.simps) (auto simp: same_place_le)
  next
    case False
    from cursor_bump_spec [OF wf1] obtain t c2 where t: "cursor_bump c1 = Some (t, c2)"
      and b: "bumped c1 t c2" by (rule returnsE)
    note step = bump_not_eof [OF less.prems c1 _ b]
    from False have "returns (skip_braces d' s' c2) (\<lambda>_. cursor_le c)" for d' s'
      using less.hyps [OF step(3) step(4), of d' s'] step(1) cursor_le_trans
      by (auto elim!: returns_conseq)
    with False e t show ?thesis by (subst skip_braces.simps) simp
  qed
qed

lemma forward_recover_braced_block: "forward A (recover_braced_block A)"
  unfolding recover_braced_block_def
  by (intro forward_bind forward_expect_punct forward_cursor skip_braces_forward forward_pure) simp_all

section \<open>Names, paths and lists\<close>

lemma forward_parse_name: "forward A (parse_name A message)"
  unfolding parse_name_def
proof (rule forward_bind [OF forward_looks [OF looks_at_simps(4)]], rule forward_if)
  show "forward A (\<lambda>p. do { (t, p) \<leftarrow> on_cursor cursor_bump p; txt \<leftarrow> parser_slice A (tok_span t) p;
       Some (\<lparr>nm_text = txt, nm_span = tok_span t\<rparr>, p) })"
  proof (rule forwardI)
    fix p assume wf: "parser_wf A p"
    have b: "returns (on_cursor cursor_bump p)
      (\<lambda>t p'. p' = p\<lparr>ps_cursor := ps_cursor p'\<rparr> \<and> bumped (ps_cursor p) t (ps_cursor p'))"
      by (rule on_cursor_spec) (rule cursor_bump_spec [OF parser_wf_cursor [OF wf]])
    show "returns (do { (t, p) \<leftarrow> on_cursor cursor_bump p; txt \<leftarrow> parser_slice A (tok_span t) p;
       Some (\<lparr>nm_text = txt, nm_span = tok_span t\<rparr>, p) }) (\<lambda>_. parser_le p)"
    proof (rule returns_bind [OF b], clarify)
      fix t p1
      assume p1: "p1 = p\<lparr>ps_cursor := ps_cursor p1\<rparr>" and bm: "bumped (ps_cursor p) t (ps_cursor p1)"
      have le: "parser_le p p1" by (metis p1 parser_le_cursor bumped_le [OF bm])
      have "t \<in> set (cu_tokens (ps_cursor p1))"
        using bm wf by (auto simp: bumped_def cursor_le_def parser_wf_def cursor_wf_def)
      with parser_le_wf [OF le wf] obtain w where "parser_slice A (tok_span t) p1 = Some w"
        by (auto simp: parser_wf_def)
      with le show "returns (do { txt \<leftarrow> parser_slice A (tok_span t) p1;
         Some (\<lparr>nm_text = txt, nm_span = tok_span t\<rparr>, p1) }) (\<lambda>_. parser_le p)" by simp
    qed
  qed
next
  show "forward A (\<lambda>p. on_cursor cursor_peek p \<bind> (\<lambda>(t, p).
    on_cursor (cursor_and (cursor_not at_eof) (cursor_not (cursor_at name_stop)))
      (push_diagnostic (diagnostic_syntax MissingToken (tok_span t) message) p) \<bind> (\<lambda>(skip, p).
    (if skip then on_cursor cursor_bump p else Some (t, p)) \<bind> (\<lambda>(_, p).
    Some (\<lparr>nm_text = lit ''<error>'', nm_span = tok_span t\<rparr>, p)))))"
    by (intro forward_bind forward_peek forward_push forward_looks forward_if forward_bump forward_pure)
      simp_all
qed

lemma on_eat_punct_spec:
  assumes "parser_wf A p"
  shows "returns (on_cursor (eat_punct q) p) (\<lambda>r p'. p' = p\<lparr>ps_cursor := ps_cursor p'\<rparr> \<and>
    parser_le p p' \<and> parser_wf A p' \<and> ate (Punct q) (ps_cursor p) r (ps_cursor p'))"
proof -
  have "returns (on_cursor (eat_punct q) p) (\<lambda>r p'. p' = p\<lparr>ps_cursor := ps_cursor p'\<rparr> \<and>
      ate (Punct q) (ps_cursor p) r (ps_cursor p'))"
    by (rule on_cursor_spec) (rule eat_punct_spec [OF parser_wf_cursor [OF assms]])
  then show ?thesis
    by (rule returns_conseq) (metis ate_le assms parser_le_cursor parser_le_wf)
qed

lemma ate_Some_left:
  assumes "ate k c (Some t) c'" and "cursor_wf c"
  shows "cursor_left c' < cursor_left c"
  using assms by (auto simp: ate_def cursor_left_def cursor_le_def cursor_wf_def)

lemma forward_path_rest: "forward A (path_rest A segments span)"
proof (rule forwardI)
  fix p show "parser_wf A p \<Longrightarrow> returns (path_rest A segments span p) (\<lambda>_. parser_le p)"
  proof (induction "cursor_left (ps_cursor p)" arbitrary: p segments span rule: less_induct)
    case less
    from on_eat_punct_spec [OF less.prems, of PDot] obtain r p1
      where r: "on_cursor (eat_punct PDot) p = Some (r, p1)" and le1: "parser_le p p1"
        and wf1: "parser_wf A p1" and ate: "ate (Punct PDot) (ps_cursor p) r (ps_cursor p1)"
      by (rule returnsE) blast
    show ?case
    proof (cases r)
      case None
      with r le1 show ?thesis by (subst path_rest.simps) simp
    next
      case (Some t)
      from forwardD [OF forward_parse_name wf1] obtain n p2
        where n: "parse_name A (lit ''expected path segment after `.`'') p1 = Some (n, p2)"
          and le2: "parser_le p1 p2" by (rule returnsE)
      have "cursor_left (ps_cursor p2) < cursor_left (ps_cursor p)"
        using ate_Some_left [OF ate [unfolded Some] parser_wf_cursor [OF less.prems]]
          cursor_le_left [OF parser_le_cursor_le [OF le2]] by simp
      from less.hyps [OF this parser_le_wf [OF le2 wf1]]
      have "returns (path_rest A segs sp p2) (\<lambda>_. parser_le p)" for segs sp
        by (rule returns_conseq) (use le1 le2 parser_le_trans in blast)
      with r Some n show ?thesis by (subst path_rest.simps) simp
    qed
  qed
qed

lemma forward_parse_path: "forward A (parse_path A)"
  unfolding parse_path_def by (intro forward_bind forward_parse_name forward_path_rest)

text \<open>The lookahead over effect arguments ends: it only looks, at increasing offsets.\<close>

lemma owner_args_loop_looks:
  "cursor_wf c \<Longrightarrow> returns (owner_args_loop depth offset c) (\<lambda>_. same_place c)"
proof (induction "cursor_left c - offset" arbitrary: c depth offset rule: less_induct)
  case less
  from cursor_nth_spec [OF less.prems] obtain c1
    where t: "cursor_nth offset c = Some (cursor_look offset c1, c1)" and c1: "same_place c c1"
    by (rule returnsE) blast
  let ?k = "tok_kind (cursor_look offset c1)"
  have wf1: "cursor_wf c1" using c1 less.prems same_place_le cursor_le_wf by blast
  have step: "returns (owner_args_loop d (offset + 1) c1) (\<lambda>_. same_place c)" if ne: "?k \<noteq> Eof" for d
  proof -
    have "offset + 1 < cursor_left c1"
    proof (rule ccontr)
      assume "\<not> ?thesis"
      then have "min (cu_position c1 + offset) (length (cu_tokens c1) - 1) = length (cu_tokens c1) - 1"
        by (simp add: cursor_left_def)
      then have "cursor_look offset c1 = last (cu_tokens c1)"
        using wf1 by (simp add: cursor_look_def cursor_wf_def last_conv_nth)
      with ne wf1 show False by (simp add: cursor_wf_def)
    qed
    moreover have "cursor_left c1 = cursor_left c"
      using c1 by (simp add: same_place_def cursor_le_def cursor_left_def)
    ultimately have "cursor_left c1 - (offset + 1) < cursor_left c - offset" by simp
    from less.hyps [OF this wf1] show ?thesis
      by (rule returns_conseq) (use c1 same_place_trans in blast)
  qed
  have dot: "returns (do { (t, c) \<leftarrow> cursor_nth (offset + 1) c1; Some (tok_kind t = Punct PDot, c) })
      (\<lambda>_. same_place c)"
    by (rule returns_bind [OF cursor_nth_spec [OF wf1]]) (use c1 same_place_trans in auto)
  show ?case
    by (subst owner_args_loop.simps) (use t c1 step dot in simp)
qed

lemma looks_owner_args: "looks effect_owner_args_are_followed_by_action"
  by (simp add: looks_def effect_owner_args_are_followed_by_action_def owner_args_loop_looks)

section \<open>Comma-separated lists\<close>

text \<open>The same loop without the progress guard.\<close>

partial_function (option) comma_plain ::
    "punct \<Rightarrow> ('k \<Rightarrow> ('sp, 'a \<times> 'k) rule) \<Rightarrow> 'a list \<Rightarrow> 'k \<Rightarrow> ('sp, 'a list \<times> 'k) rule" where
  "comma_plain terminator parse values k p = do {
     (go, p) \<leftarrow> on_cursor (cursor_and (cursor_not at_eof) (cursor_not (at_punct terminator))) p;
     if go then do {
       ((v, k), p) \<leftarrow> parse k p;
       (comma, p) \<leftarrow> on_cursor (eat_punct PComma) p;
       (case comma of
          None \<Rightarrow> Some ((values @ [v], k), p)
        | Some _ \<Rightarrow> comma_plain terminator parse (values @ [v]) k p)
     } else Some ((values, k), p)
   }"

text \<open>
  The interface between \<open>comma_list\<close> and the grammar: an element rule returns and moves
  forward, for every state of the closure it is called with.
\<close>

definition list_end :: "punct \<Rightarrow> token_kind \<Rightarrow> bool" where
  "list_end terminator k \<longleftrightarrow> k = Eof \<or> k = Punct terminator \<or> k \<noteq> Punct PComma"

locale element_rule =
  fixes A :: "'sp span_api" and parse :: "'k \<Rightarrow> ('sp, 'a \<times> 'k) rule"
  assumes element_forward: "forward A (parse k)"
begin

lemma comma_loop_total:
  assumes "parser_wf A p"
  shows "comma_loop q parse vs k p = comma_plain q parse vs k p \<and>
    returns (comma_loop q parse vs k p) (\<lambda>(vs', k') p'. parser_le p p' \<and>
      length vs' \<le> Suc (length vs + (cu_position (ps_cursor p') - cu_position (ps_cursor p))) \<and>
      list_end q (cursor_kind (ps_cursor p')))"
  using assms
proof (induction "cursor_left (ps_cursor p)" arbitrary: p vs k rule: less_induct)
  case less
  let ?cond = "cursor_and (cursor_not at_eof) (cursor_not (at_punct q))"
  let ?Q = "\<lambda>p vs (vs', k') p'. parser_le p p' \<and>
      length vs' \<le> Suc (length vs + (cu_position (ps_cursor p') - cu_position (ps_cursor p))) \<and>
      list_end q (cursor_kind (ps_cursor p'))"
  have sc: "stop_cond (\<lambda>k. k = Eof \<or> k = Punct q) ?cond"
    using stop_cond_and [OF stop_cond_not_at stop_cond_not_at, of "\<lambda>k. k = Eof" "\<lambda>k. k = Punct q"]
    by (simp add: at_eof_def at_punct_def)
  have "returns (on_cursor ?cond p) (\<lambda>b p'. p' = p\<lparr>ps_cursor := ps_cursor p'\<rparr> \<and>
      (same_place (ps_cursor p) (ps_cursor p') \<and> (\<not> b \<longrightarrow> list_end q (cursor_kind (ps_cursor p')))))"
    by (rule on_cursor_spec,
        rule returns_conseq [OF sc [unfolded stop_cond_def, rule_format, OF parser_wf_cursor [OF less.prems]]])
      (auto simp: list_end_def)
  then obtain b p1 where b: "on_cursor ?cond p = Some (b, p1)"
    and p1: "p1 = p\<lparr>ps_cursor := ps_cursor p1\<rparr>" and sp: "same_place (ps_cursor p) (ps_cursor p1)"
    and stop: "\<not> b \<Longrightarrow> list_end q (cursor_kind (ps_cursor p1))"
    by (rule returnsE) blast
  have le1: "parser_le p p1" using p1 sp same_place_le parser_le_cursor by metis
  have wf1: "parser_wf A p1" by (rule parser_le_wf [OF le1 less.prems])
  have pos1: "cu_position (ps_cursor p1) = cu_position (ps_cursor p)" using sp by (simp add: same_place_def)
  note unfold = comma_loop.simps [of q parse vs k p] comma_plain.simps [of q parse vs k p]
  show ?case
  proof (cases b)
    case False
    with b stop le1 show ?thesis by (simp add: unfold)
  next
    case True
    from forwardD [OF element_forward wf1] obtain v k2 p2
      where v: "parse k p1 = Some ((v, k2), p2)" and le2: "parser_le p1 p2"
      by (rule returnsE) auto
    have wf2: "parser_wf A p2" by (rule parser_le_wf [OF le2 wf1])
    from on_eat_punct_spec [OF wf2, of PComma] obtain r p3
      where r: "on_cursor (eat_punct PComma) p2 = Some (r, p3)" and le3: "parser_le p2 p3"
        and wf3: "parser_wf A p3" and ate: "ate (Punct PComma) (ps_cursor p2) r (ps_cursor p3)"
      by (rule returnsE) blast
    have le13: "parser_le p p3" using le1 le2 le3 parser_le_trans by blast
    show ?thesis
    proof (cases r)
      case None
      with ate have "list_end q (cursor_kind (ps_cursor p3))" by (simp add: ate_def list_end_def)
      with None b True v r le13 show ?thesis
        by (simp add: unfold)
    next
      case (Some t)
      have pos12: "cu_position (ps_cursor p1) \<le> cu_position (ps_cursor p2)"
        using parser_le_cursor_le [OF le2] by (simp add: cursor_le_def)
      have pos23: "cu_position (ps_cursor p3) = Suc (cu_position (ps_cursor p2))"
        using ate Some by (simp add: ate_def)
      then have prog: "ensure_progress (cu_position (ps_cursor p1)) msg p3 = Some ((), p3)" for msg
        using pos12 by (simp add: ensure_progress_def)
      have left: "cursor_left (ps_cursor p3) < cursor_left (ps_cursor p)"
        using ate_Some_left [OF ate [unfolded Some] parser_wf_cursor [OF wf2]]
          cursor_le_left [OF parser_le_cursor_le [OF le2]] cursor_le_left [OF parser_le_cursor_le [OF le1]]
        by simp
      note IH = less.hyps [OF left wf3, of "vs @ [v]" k2]
      have "returns (comma_loop q parse (vs @ [v]) k2 p3) (?Q p vs)"
        using conjunct2 [OF IH]
      proof (rule returns_conseq)
        fix x p' assume h: "?Q p3 (vs @ [v]) x p'"
        obtain vs' k' where x: "x = (vs', k')" by (cases x)
        from h have le: "parser_le p3 p'" and e: "list_end q (cursor_kind (ps_cursor p'))"
          and len: "length vs' \<le> Suc (length (vs @ [v]) +
            (cu_position (ps_cursor p') - cu_position (ps_cursor p3)))"
          by (simp_all add: x)
        have "cu_position (ps_cursor p3) \<le> cu_position (ps_cursor p')"
          using parser_le_cursor_le [OF le] by (simp add: cursor_le_def)
        with len pos1 pos12 pos23
        have "length vs' \<le> Suc (length vs + (cu_position (ps_cursor p') - cu_position (ps_cursor p)))"
          by simp
        with parser_le_trans [OF le13 le] e show "?Q p vs x p'" by (simp add: x)
      qed
      with conjunct1 [OF IH] b True v r Some prog show ?thesis
        by (simp add: unfold)
    qed
  qed
qed

lemma forward_comma_list: "forward A (comma_list q parse k)"
  unfolding comma_list_def
  by (intro forward_bind forward_looks looks_at_simps forward_if forward_pure forwardI
      returns_conseq [OF conjunct2 [OF comma_loop_total]]) auto

lemma comma_list_total:
  assumes "parser_wf A p"
  shows "returns (comma_list q parse k p) (\<lambda>(vs, k') p'. parser_le p p' \<and>
    length vs \<le> Suc (cu_position (ps_cursor p') - cu_position (ps_cursor p)) \<and>
    list_end q (cursor_kind (ps_cursor p')))"
  unfolding comma_list_def
proof (rule returns_bind)
  show "returns (on_cursor (at_punct q) p) (\<lambda>b p'. p' = p\<lparr>ps_cursor := ps_cursor p'\<rparr> \<and>
      same_place (ps_cursor p) (ps_cursor p') \<and> b = (cursor_kind (ps_cursor p') = Punct q))"
    by (rule on_cursor_spec) (rule at_punct_spec [OF parser_wf_cursor [OF assms]])
  fix b p1
  assume h: "p1 = p\<lparr>ps_cursor := ps_cursor p1\<rparr> \<and>
      same_place (ps_cursor p) (ps_cursor p1) \<and> b = (cursor_kind (ps_cursor p1) = Punct q)"
  then have sp: "same_place (ps_cursor p) (ps_cursor p1)" by blast
  have le: "parser_le p p1" using h same_place_le parser_le_cursor by metis
  have "returns (comma_loop q parse [] k p1) (\<lambda>(vs, k') p'. parser_le p p' \<and>
    length vs \<le> Suc (cu_position (ps_cursor p') - cu_position (ps_cursor p)) \<and>
    list_end q (cursor_kind (ps_cursor p')))"
    by (rule returns_conseq [OF conjunct2 [OF comma_loop_total [OF parser_le_wf [OF le assms]]]])
      (use sp parser_le_trans [OF le] in \<open>auto simp: same_place_def\<close>)
  with h le show "returns (case (b, p1) of (done, p) \<Rightarrow> if done then Some (([], k), p)
      else comma_loop q parse [] k p) (\<lambda>(vs, k') p'. parser_le p p' \<and>
    length vs \<le> Suc (cu_position (ps_cursor p') - cu_position (ps_cursor p)) \<and>
    list_end q (cursor_kind (ps_cursor p')))"
    by (simp add: list_end_def)
qed

end

text \<open>Lists of names, with a stateless closure.\<close>

definition name_element :: "'sp span_api \<Rightarrow> utext \<Rightarrow> unit \<Rightarrow> ('sp, 'sp name \<times> unit) rule" where
  "name_element A message k p = do { (n, p) \<leftarrow> parse_name A message p; Some ((n, k), p) }"

interpretation name_list: element_rule A "name_element A message" for A message
  by unfold_locales
    (auto simp: name_element_def [abs_def] intro!: forward_bind forward_parse_name forward_pure)

definition path_element :: "'sp span_api \<Rightarrow> unit \<Rightarrow> ('sp, 'sp path \<times> unit) rule" where
  "path_element A k p = do { (n, p) \<leftarrow> parse_path A p; Some ((n, k), p) }"

interpretation path_list: element_rule A "path_element A" for A
  by unfold_locales
    (auto simp: path_element_def [abs_def] intro!: forward_bind forward_parse_path forward_pure)

section \<open>The recursion budget\<close>

text \<open>The error a budget keeps: the first one recorded.\<close>

definition keep_error :: "'sp body_parse_budget \<Rightarrow> 'sp \<Rightarrow> 'sp body_resource_error" where
  "keep_error b span = (case bd_error b of
     Some e \<Rightarrow> e
   | None \<Rightarrow> \<lparr>re_kind = Recursion, re_limit = max_recursion (bd_limits b), re_span = span\<rparr>)"

definition at_end :: "'sp parser \<Rightarrow> bool" where
  "at_end p \<longleftrightarrow> cursor_kind (ps_cursor p) = Eof"

lemma exhaust_spec:
  assumes "parser_wf A p" and "ps_budget p = Some b"
  shows "returns (exhaust_body_recursion span p) (\<lambda>_ p'. parser_le p p' \<and> at_end p' \<and>
    ps_diagnostics p' = ps_diagnostics p \<and> ps_budget p' = Some (b\<lparr>bd_error := Some (keep_error b span)\<rparr>))"
proof -
  let ?p = "p\<lparr>ps_budget := Some (b\<lparr>bd_error := Some (keep_error b span)\<rparr>)\<rparr>"
  have "returns (on_cursor (while_bump (cursor_not at_eof)) ?p)
    (\<lambda>_ p'. p' = ?p\<lparr>ps_cursor := ps_cursor p'\<rparr> \<and> skipped (\<lambda>k. k = Eof) (ps_cursor ?p) (ps_cursor p'))"
    by (rule on_cursor_spec) (rule while_bump_spec [OF skip_cond_eof], use assms in \<open>simp add: parser_wf_def\<close>)
  then have "returns (on_cursor (while_bump (cursor_not at_eof)) ?p) (\<lambda>_ p'. parser_le p p' \<and> at_end p' \<and>
    ps_diagnostics p' = ps_diagnostics p \<and> ps_budget p' = Some (b\<lparr>bd_error := Some (keep_error b span)\<rparr>))"
  proof (rule returns_conseq)
    fix u p'
    assume h: "p' = ?p\<lparr>ps_cursor := ps_cursor p'\<rparr> \<and> skipped (\<lambda>k. k = Eof) (ps_cursor ?p) (ps_cursor p')"
    then have f: "ps_budget p' = ps_budget ?p" "ps_diagnostics p' = ps_diagnostics ?p" "ps_source p' = ps_source ?p"
      by (metis parser.select_convs parser.surjective parser.update_convs)+
    from h have "skipped (\<lambda>k. k = Eof) (ps_cursor ?p) (ps_cursor p')" by blast
    with f assms(2) show "parser_le p p' \<and> at_end p' \<and>
    ps_diagnostics p' = ps_diagnostics p \<and> ps_budget p' = Some (b\<lparr>bd_error := Some (keep_error b span)\<rparr>)"
      by (auto simp: parser_le_def at_end_def skipped_def keep_error_def)
  qed
  then show ?thesis
    using assms(2) by (simp add: exhaust_body_recursion_def keep_error_def)
qed

lemma forward_exhaust: "forward A (exhaust_body_recursion span)"
proof (rule forwardI)
  fix p assume wf: "parser_wf A p"
  show "returns (exhaust_body_recursion span p) (\<lambda>_. parser_le p)"
  proof (cases "ps_budget p")
    case None
    have "forward A (on_cursor (while_bump (cursor_not at_eof)))"
      by (rule forward_while_bump [OF skip_cond_eof])
    from forwardD [OF this wf] None show ?thesis by (simp add: exhaust_body_recursion_def)
  next
    case (Some b)
    from exhaust_spec [OF wf Some] show ?thesis by (rule returns_conseq) blast
  qed
qed

definition enter :: "nat \<Rightarrow> 'sp parser \<Rightarrow> 'sp parser" where
  "enter n p = p\<lparr>ps_budget := map_option (\<lambda>b. b\<lparr>bd_depth := bd_depth b + n\<rparr>) (ps_budget p)\<rparr>"

definition leave :: "nat \<Rightarrow> 'sp parser \<Rightarrow> 'sp parser" where
  "leave n p = p\<lparr>ps_budget := map_option (\<lambda>b. b\<lparr>bd_depth := bd_depth b - n\<rparr>) (ps_budget p)\<rparr>"

lemma parser_wf_enter [simp]: "parser_wf A (enter n p) = parser_wf A p"
  by (simp add: parser_wf_def enter_def parser_slice_def)

lemma leave_simps [simp]:
  "at_end (leave n p) = at_end p" "ps_diagnostics (leave n p) = ps_diagnostics p"
  "budget_error (leave n p) = budget_error p" "ps_diagnostics (enter n p) = ps_diagnostics p"
  by (simp_all add: at_end_def leave_def enter_def budget_error_def split: option.splits)

lemma parser_le_leave:
  assumes "parser_le (enter n p) p'"
  shows "parser_le p (leave n p')"
  using assms by (cases "ps_budget p"; cases "ps_budget p'")
    (auto simp: parser_le_def enter_def leave_def)

text \<open>Whether a rule entered at this state is run or refused.\<close>

definition has_room :: "'sp parser \<Rightarrow> bool" where
  "has_room p \<longleftrightarrow> (case ps_budget p of None \<Rightarrow> True
     | Some b \<Rightarrow> bd_error b = None \<and> bd_depth b < max_recursion (bd_limits b))"

lemma enter_0 [simp]: "enter 0 p = p"
  by (cases "ps_budget p") (simp_all add: enter_def)

lemma leave_0 [simp]: "leave 0 p = p"
  by (cases "ps_budget p") (simp_all add: leave_def)

lemma with_body_recursion_room:
  assumes room: "has_room p" and rule: "returns (rule (enter 1 p)) Q"
    and le: "\<And>x p'. Q x p' \<Longrightarrow> parser_le (enter 1 p) p'"
  shows "returns (with_body_recursion invalid rule p) (\<lambda>x p'. \<exists>p1. Q x p1 \<and> p' = leave 1 p1)"
proof -
  from rule obtain x p1 where x: "rule (enter 1 p) = Some (x, p1)" and Q: "Q x p1" by (rule returnsE)
  from le [OF Q] have lv: "leave_body_recursion p1 = Some (leave 1 p1)"
    by (cases "ps_budget p"; cases "ps_budget p1")
      (auto simp: parser_le_def enter_def leave_def leave_body_recursion_def)
  show ?thesis
  proof (cases "ps_budget p")
    case None
    then have "enter 1 p = p" by (simp add: enter_def)
    with None x lv Q show ?thesis by (auto simp: with_body_recursion_def)
  next
    case (Some b)
    with room have "bd_error b = None" "\<not> max_recursion (bd_limits b) \<le> bd_depth b"
      by (simp_all add: has_room_def)
    moreover have "p\<lparr>ps_budget := Some (b\<lparr>bd_depth := bd_depth b + 1\<rparr>)\<rparr> = enter 1 p"
      by (simp add: enter_def Some)
    ultimately show ?thesis
      using Some x lv Q by (auto simp: with_body_recursion_def)
  qed
qed

lemma with_body_recursion_refused:
  assumes wf: "parser_wf A p" and b: "ps_budget p = Some b" and room: "\<not> has_room p"
  shows "returns (with_body_recursion invalid rule p) (\<lambda>x p'. parser_le p p' \<and> at_end p' \<and>
    ps_diagnostics p' = ps_diagnostics p \<and>
    (\<exists>span. x = invalid span \<and> ps_budget p' = Some (b\<lparr>bd_error := Some (keep_error b span)\<rparr>)))"
proof -
  have peek: "returns (on_cursor cursor_peek p) (\<lambda>t p'. p' = p\<lparr>ps_cursor := ps_cursor p'\<rparr> \<and>
      same_place (ps_cursor p) (ps_cursor p') \<and> t = cursor_look 0 (ps_cursor p'))"
    by (rule on_cursor_spec) (rule cursor_peek_spec [OF parser_wf_cursor [OF wf]])
  from room b have refuse: "bd_error b \<noteq> None \<or> max_recursion (bd_limits b) \<le> bd_depth b"
    by (auto simp: has_room_def)
  from peek obtain t p1 where t: "on_cursor cursor_peek p = Some (t, p1)"
    and p1: "p1 = p\<lparr>ps_cursor := ps_cursor p1\<rparr>" and sp: "same_place (ps_cursor p) (ps_cursor p1)"
    by (rule returnsE) blast
  have le: "parser_le p p1" using p1 sp same_place_le parser_le_cursor by metis
  have f: "ps_budget p1 = Some b" "ps_diagnostics p1 = ps_diagnostics p"
    using p1 b by (metis parser.select_convs parser.surjective parser.update_convs)+
  from exhaust_spec [OF parser_le_wf [OF le wf] f(1), of "tok_span t"] obtain u p2
    where ex: "exhaust_body_recursion (tok_span t) p1 = Some (u, p2)" and le2: "parser_le p1 p2"
      and e: "at_end p2" "ps_diagnostics p2 = ps_diagnostics p1"
        "ps_budget p2 = Some (b\<lparr>bd_error := Some (keep_error b (tok_span t))\<rparr>)"
    by (rule returnsE) blast
  from b refuse t ex e f le2 le show ?thesis
    by (auto simp: with_body_recursion_def intro: parser_le_trans)
qed

text \<open>The interface between the budget and the grammar: a rule of the grammar.\<close>

locale grammar_rule =
  fixes A :: "'sp span_api" and rule :: "('sp, 'a) rule"
  assumes rule_forward: "forward A rule"
begin

lemma forward_with_body_recursion: "forward A (with_body_recursion invalid rule)"
proof (rule forwardI)
  fix p assume wf: "parser_wf A p"
  show "returns (with_body_recursion invalid rule p) (\<lambda>_. parser_le p)"
  proof (cases "has_room p")
    case True
    have "returns (rule (enter 1 p)) (\<lambda>_. parser_le (enter 1 p))"
      by (rule forwardD [OF rule_forward]) (simp add: wf)
    from with_body_recursion_room [of p rule "\<lambda>_. parser_le (enter 1 p)" invalid, OF True this]
    show ?thesis by (rule returns_conseq) (auto intro: parser_le_leave)
  next
    case False
    then obtain b where "ps_budget p = Some b" by (auto simp: has_room_def split: option.splits)
    from with_body_recursion_refused [OF wf this False] show ?thesis
      by (rule returns_conseq) blast
  qed
qed

end

lemma forward_nested: "forward A rule \<Longrightarrow> forward A ((with_body_recursion invalid ^^ n) rule)"
  by (induction n)
    (simp_all add: grammar_rule.forward_with_body_recursion grammar_rule.intro)

lemma forward_body_chain_step: "forward A (body_chain_step len)"
proof (rule forwardI)
  fix p :: "'a parser" assume wf: "parser_wf A p"
  have "forward A (\<lambda>p. do { (t, p) \<leftarrow> on_cursor cursor_peek p;
      (_, p) \<leftarrow> exhaust_body_recursion (tok_span t) p; Some ((False, len + 1), p) })"
    by (intro forward_bind forward_peek forward_exhaust forward_pure) simp
  from forwardD [OF this wf] show "returns (body_chain_step len p) (\<lambda>_. parser_le p)"
    by (auto simp: body_chain_step_def split: option.splits)
qed

interpretation path_rule: grammar_rule A "parse_path A" for A
  by unfold_locales (rule forward_parse_path)

interpretation item_recovery: grammar_rule A recover_item for A
  by unfold_locales (rule forward_recover_item)

interpretation braced_recovery: grammar_rule A "recover_braced_block A" for A
  by unfold_locales (rule forward_recover_braced_block)

text \<open>
  Nesting \<open>n\<close> levels: the levels that fit run the rule at depth \<open>d + n\<close>; one level too many is
  refused, whatever the rule is.
\<close>

lemma enter_enter: "enter m (enter n p) = enter (n + m) p"
  by (cases "ps_budget p") (simp_all add: enter_def)

lemma leave_leave: "leave m (leave n p) = leave (n + m) p"
  by (cases "ps_budget p") (simp_all add: leave_def)

lemma nested_fits:
  assumes rule: "forward A rule" and wf: "parser_wf A p" and b: "ps_budget p = Some b"
    and e: "bd_error b = None" and fits: "bd_depth b + n \<le> max_recursion (bd_limits b)"
  shows "(with_body_recursion invalid ^^ n) rule p =
    map_option (\<lambda>(x, p'). (x, leave n p')) (rule (enter n p))"
  using wf b e fits
proof (induction n arbitrary: p b)
  case 0
  then show ?case by (cases "rule p") auto
next
  case (Suc n)
  have "has_room p" using Suc.prems by (simp add: has_room_def)
  have b1: "ps_budget (enter 1 p) = Some (b\<lparr>bd_depth := bd_depth b + 1\<rparr>)"
    using Suc.prems by (simp add: enter_def)
  have IH: "(with_body_recursion invalid ^^ n) rule (enter 1 p) =
      map_option (\<lambda>(x, p'). (x, leave n p')) (rule (enter n (enter 1 p)))"
    by (rule Suc.IH [OF _ b1]) (use Suc.prems in auto)
  have "returns (rule (enter (Suc n) p)) (\<lambda>_. parser_le (enter (Suc n) p))"
    by (rule forwardD [OF rule]) (simp add: Suc.prems)
  then obtain x p' where x: "rule (enter (Suc n) p) = Some (x, p')" by (rule returnsE)
  have r: "(with_body_recursion invalid ^^ n) rule (enter 1 p) = Some (x, leave n p')"
    using IH x by (simp add: enter_enter)
  have "returns ((with_body_recursion invalid ^^ n) rule (enter 1 p))
      (\<lambda>y p1. y = x \<and> p1 = leave n p' \<and> parser_le (enter 1 p) p1)" (is "returns _ ?R")
    using forwardD [OF forward_nested [OF rule, where invalid = invalid and n = n], of "enter 1 p"] r
      Suc.prems(1) by simp
  from with_body_recursion_room [of p "(with_body_recursion invalid ^^ n) rule" ?R invalid, OF \<open>has_room p\<close> this]
  have "returns (with_body_recursion invalid ((with_body_recursion invalid ^^ n) rule) p)
      (\<lambda>y p1. y = x \<and> p1 = leave 1 (leave n p'))" by (auto elim!: returns_conseq)
  with x show ?case by (auto simp: returns_def leave_leave)
qed

lemma nested_refused:
  assumes rule: "forward A rule" and wf: "parser_wf A p" and b: "ps_budget p = Some b"
    and e: "bd_error b = None" and "bd_depth b \<le> max_recursion (bd_limits b)"
    and "max_recursion (bd_limits b) < bd_depth b + n"
  shows "returns ((with_body_recursion invalid ^^ n) rule p) (\<lambda>x p'. parser_le p p' \<and> at_end p' \<and>
    ps_diagnostics p' = ps_diagnostics p \<and>
    (\<exists>span. x = invalid span \<and> budget_error p' =
       Some \<lparr>re_kind = Recursion, re_limit = max_recursion (bd_limits b), re_span = span\<rparr>))"
  using wf b e assms(5,6)
proof (induction n arbitrary: p b)
  case 0
  then show ?case by simp
next
  case (Suc n)
  let ?Q = "\<lambda>p x p'. parser_le p p' \<and> at_end p' \<and> ps_diagnostics p' = ps_diagnostics p \<and>
    (\<exists>span. x = invalid span \<and> budget_error p' =
       Some \<lparr>re_kind = Recursion, re_limit = max_recursion (bd_limits b), re_span = span\<rparr>)"
  show ?case
  proof (cases "bd_depth b = max_recursion (bd_limits b)")
    case True
    then have "\<not> has_room p" using Suc.prems by (simp add: has_room_def)
    from with_body_recursion_refused [OF Suc.prems(1,2) this]
    have "returns (with_body_recursion invalid ((with_body_recursion invalid ^^ n) rule) p) (?Q p)"
      by (rule returns_conseq) (use Suc.prems(3) in \<open>auto simp: keep_error_def budget_error_def\<close>)
    then show ?thesis by simp
  next
    case False
    then have room: "has_room p" using Suc.prems by (simp add: has_room_def)
    have b1: "ps_budget (enter 1 p) = Some (b\<lparr>bd_depth := bd_depth b + 1\<rparr>)"
      using Suc.prems by (simp add: enter_def)
    have "returns ((with_body_recursion invalid ^^ n) rule (enter 1 p)) (?Q (enter 1 p))"
      using Suc.IH [OF _ b1] Suc.prems False by simp
    from with_body_recursion_room [of p "(with_body_recursion invalid ^^ n) rule" "?Q (enter 1 p)" invalid,
        OF room this]
    have "returns (with_body_recursion invalid ((with_body_recursion invalid ^^ n) rule) p)
        (\<lambda>x p'. \<exists>p1. ?Q (enter 1 p) x p1 \<and> p' = leave 1 p1)" by blast
    then have "returns (with_body_recursion invalid ((with_body_recursion invalid ^^ n) rule) p) (?Q p)"
      by (rule returns_conseq)
        (auto intro: parser_le_leave)
    then show ?thesis by simp
  qed
qed

section \<open>The delimiter stack\<close>

lemma rposition_None: "rposition P xs = None \<longleftrightarrow> (\<forall>x \<in> set xs. \<not> P x)"
  by (auto simp: rposition_def Let_def filter_empty_conv in_set_conv_nth intro: bexI [OF _ nth_mem])

lemma rposition_last:
  assumes "P d" and "\<forall>y \<in> set ys. \<not> P y"
  shows "rposition P (xs @ d # ys) = Some (length xs)"
proof -
  let ?zs = "xs @ d # ys"
  have up: "[0..<length ?zs] = [0..<length xs] @ length xs # [Suc (length xs)..<length ?zs]"
    by (metis (no_types, lifting) add_Suc_right append_Cons le_add1 length_append length_Cons
        less_add_Suc1 upt_add_eq_append upt_conv_Cons zero_le le_add_same_cancel1 add_0)
  have "filter (\<lambda>i. P (?zs ! i)) [Suc (length xs)..<length ?zs] = []"
    using assms(2) by (auto simp: filter_empty_conv nth_append nth_Cons' intro!: nth_mem)
  then have "filter (\<lambda>i. P (?zs ! i)) [0..<length ?zs]
      = filter (\<lambda>i. P (?zs ! i)) [0..<length xs] @ [length xs]"
    unfolding up using assms(1) by simp
  then show ?thesis unfolding rposition_def Let_def by (simp only: append_is_Nil_conv) simp
qed

lemma vec_remove_middle [simp]: "vec_remove (length xs) (xs @ d # ys) = xs @ ys"
  by (simp add: vec_remove_def)

lemma is_closing_not_open: "is_closing_delimiter q \<Longrightarrow> matching_close q = None"
  by (auto simp: is_closing_delimiter_def)

lemma matching_close_closing: "matching_close q = Some c \<Longrightarrow> is_closing_delimiter c"
  by (cases q) (auto simp: is_closing_delimiter_def)

text \<open>Noting a sequence of tokens; sequences of punctuation with balanced brackets.\<close>

definition note_all :: "(punct \<times> 'sp) list \<Rightarrow> 'sp parser \<Rightarrow> 'sp parser" where
  "note_all = fold (\<lambda>(q, s). note_delimiter_token q s)"

inductive balanced :: "punct list \<Rightarrow> bool" where
  balanced_Nil: "balanced []"
| balanced_plain: "matching_close q = None \<Longrightarrow> \<not> is_closing_delimiter q \<Longrightarrow> balanced w \<Longrightarrow> balanced (q # w)"
| balanced_nest: "matching_close q = Some c \<Longrightarrow> balanced w \<Longrightarrow> balanced v \<Longrightarrow> balanced (q # w @ c # v)"

lemma note_close:
  assumes "is_closing_delimiter c" and "dl_close d = c" and "ps_delimiters p = ds @ [d]"
  shows "ps_delimiters (note_delimiter_token c s p) = ds"
  using assms rposition_last [of "\<lambda>d. dl_close d = c" d "[]" ds]
  by (simp add: note_delimiter_token_def is_closing_not_open vec_remove_def)

lemma note_all_balanced:
  "balanced w \<Longrightarrow> map fst ts = w \<Longrightarrow> ps_delimiters (note_all ts p) = ps_delimiters p"
proof (induction arbitrary: ts p rule: balanced.induct)
  case balanced_Nil
  then show ?case by (simp add: note_all_def)
next
  case (balanced_plain q w)
  then obtain s ts' where ts: "ts = (q, s) # ts'" "map fst ts' = w" by auto
  have "ps_delimiters (note_delimiter_token q s p) = ps_delimiters p"
    using balanced_plain.hyps by (simp add: note_delimiter_token_def)
  with balanced_plain.IH [OF ts(2), of "note_delimiter_token q s p"] show ?case
    by (simp add: note_all_def ts)
next
  case (balanced_nest q c w v)
  then obtain s s' us vs where ts: "ts = (q, s) # us @ (c, s') # vs" "map fst us = w" "map fst vs = v"
    by (auto simp: map_eq_append_conv)
  let ?d = "\<lparr>dl_open = q, dl_close = c, dl_span = s\<rparr>"
  let ?p1 = "note_delimiter_token q s p"
  let ?p2 = "note_all us ?p1"
  have "ps_delimiters ?p2 = ps_delimiters p @ [?d]"
    using balanced_nest.IH(1) [OF ts(2), of ?p1] balanced_nest.hyps(1)
    by (simp add: note_delimiter_token_def)
  from note_close [OF matching_close_closing [OF balanced_nest.hyps(1)] _ this]
  have "ps_delimiters (note_delimiter_token c s' ?p2) = ps_delimiters p" by simp
  with balanced_nest.IH(2) [OF ts(3), of "note_delimiter_token c s' ?p2"] show ?case
    by (simp add: note_all_def ts)
qed

lemma note_keeps: "ps_cursor (note_all ts p) = ps_cursor p" "ps_diagnostics (note_all ts p) = ps_diagnostics p"
  "ps_source (note_all ts p) = ps_source p"
proof (induction ts arbitrary: p)
  case (Cons a ts)
  obtain q s where a: "a = (q, s)" by (cases a)
  case 1 from Cons(1) show ?case by (simp add: note_all_def a)
  case 2 from Cons(2) show ?case
    by (simp add: note_all_def a note_delimiter_token_def split: option.splits)
  case 3 from Cons(3) show ?case
    by (simp add: note_all_def a note_delimiter_token_def split: option.splits)
qed (simp_all add: note_all_def)

lemma on_cursor_fields:
  "p' = p\<lparr>ps_cursor := c\<rparr> \<Longrightarrow> ps_diagnostics p' = ps_diagnostics p \<and> ps_delimiters p' = ps_delimiters p \<and>
     ps_budget p' = ps_budget p \<and> ps_source p' = ps_source p"
  by simp

lemma peek_fields:
  assumes "parser_wf A p"
  shows "returns (on_cursor cursor_peek p) (\<lambda>t p'. ps_diagnostics p' = ps_diagnostics p \<and>
    ps_delimiters p' = ps_delimiters p \<and> same_place (ps_cursor p) (ps_cursor p') \<and> parser_wf A p')"
proof -
  have "returns (on_cursor cursor_peek p) (\<lambda>t p'. p' = p\<lparr>ps_cursor := ps_cursor p'\<rparr> \<and>
      same_place (ps_cursor p) (ps_cursor p') \<and> t = cursor_look 0 (ps_cursor p'))"
    by (rule on_cursor_spec) (rule cursor_peek_spec [OF parser_wf_cursor [OF assms]])
  then show ?thesis
    by (rule returns_conseq)
      (metis on_cursor_fields same_place_le parser_le_cursor parser_le_wf assms)
qed

lemma unclosed_blames:
  assumes wf: "parser_wf A p" and ds: "ps_delimiters p = ds @ d # es" and d: "dl_close d = q"
    and es: "\<forall>e \<in> set es. dl_close e \<noteq> q"
  shows "returns (unclosed_or_missing_delimiter q message p) (\<lambda>span p'.
    ps_diagnostics p' = ps_diagnostics p @ [unclosed_delimiter q span d] \<and> ps_delimiters p' = ds @ es \<and>
    same_place (ps_cursor p) (ps_cursor p'))"
  unfolding unclosed_or_missing_delimiter_def
  by (rule returns_bind [OF peek_fields [OF wf]])
    (use rposition_last [of "\<lambda>d. dl_close d = q" d es ds] d es in \<open>simp add: ds push_diagnostic_def\<close>)

lemma missing_punct_spec:
  assumes wf: "parser_wf A p"
  shows "returns (missing_punct q message p) (\<lambda>span p'. \<exists>d. ps_diagnostics p' = ps_diagnostics p @ [d] \<and>
    dg_span d = span \<and> dg_message d = message \<and> dg_code d = missing_code (at_end p') \<and>
    ps_delimiters p' = ps_delimiters p \<and> same_place (ps_cursor p) (ps_cursor p'))"
  unfolding missing_punct_def Let_def
proof (rule returns_bind [OF peek_fields [OF wf]], clarify)
  fix t p1
  assume p1: "ps_diagnostics p1 = ps_diagnostics p" "ps_delimiters p1 = ps_delimiters p"
    "same_place (ps_cursor p) (ps_cursor p1)" "parser_wf A p1"
  have e: "returns (on_cursor at_eof p1) (\<lambda>b p'. p' = p1\<lparr>ps_cursor := ps_cursor p'\<rparr> \<and>
      same_place (ps_cursor p1) (ps_cursor p') \<and> b = (cursor_kind (ps_cursor p') = Eof))"
    by (rule on_cursor_spec) (rule at_eof_spec [OF parser_wf_cursor [OF p1(4)]])
  show "returns (on_cursor at_eof p1 \<bind> (\<lambda>(eof, p). Some (tok_span t, push_diagnostic
      (if q \<in> {PSemi, PRBrace, PRParen, PRBracket, PLBrace, PLParen, PLBracket}
       then with_suggestion \<lparr>sg_title = lit ''insert `'' @ punct_text q @ lit ''`'',
              sg_edit = (tok_span t, punct_text q), sg_applicability = MaybeIncorrect\<rparr>
            (diagnostic_syntax (missing_code eof) (tok_span t) message)
       else diagnostic_syntax (missing_code eof) (tok_span t) message) p)))
    (\<lambda>span p'. \<exists>d. ps_diagnostics p' = ps_diagnostics p @ [d] \<and>
    dg_span d = span \<and> dg_message d = message \<and> dg_code d = missing_code (at_end p') \<and>
    ps_delimiters p' = ps_delimiters p \<and> same_place (ps_cursor p) (ps_cursor p'))"
  proof (rule returns_bind [OF e], clarify)
    fix p2
    assume p2: "p2 = p1\<lparr>ps_cursor := ps_cursor p2\<rparr>" and sp: "same_place (ps_cursor p1) (ps_cursor p2)"
    from same_place_trans [OF p1(3) sp] on_cursor_fields [OF p2] p1
    show "returns (Some (tok_span t, push_diagnostic
      (if q \<in> {PSemi, PRBrace, PRParen, PRBracket, PLBrace, PLParen, PLBracket}
       then with_suggestion \<lparr>sg_title = lit ''insert `'' @ punct_text q @ lit ''`'',
              sg_edit = (tok_span t, punct_text q), sg_applicability = MaybeIncorrect\<rparr>
            (diagnostic_syntax (missing_code (cursor_kind (ps_cursor p2) = Eof)) (tok_span t) message)
       else diagnostic_syntax (missing_code (cursor_kind (ps_cursor p2) = Eof)) (tok_span t) message) p2))
     (\<lambda>span p'. \<exists>d. ps_diagnostics p' = ps_diagnostics p @ [d] \<and>
    dg_span d = span \<and> dg_message d = message \<and> dg_code d = missing_code (at_end p') \<and>
    ps_delimiters p' = ps_delimiters p \<and> same_place (ps_cursor p) (ps_cursor p'))"
      by (simp add: push_diagnostic_def with_suggestion_def diagnostic_syntax_def at_end_def)
  qed
qed

section \<open>Skipping a braced block\<close>

inductive braces_ok :: "token_kind list \<Rightarrow> bool" where
  braces_Nil: "braces_ok []"
| braces_plain: "k \<notin> {Punct PLBrace, Punct PRBrace, Eof} \<Longrightarrow> braces_ok w \<Longrightarrow> braces_ok (k # w)"
| braces_nest: "braces_ok w \<Longrightarrow> braces_ok v \<Longrightarrow> braces_ok (Punct PLBrace # w @ Punct PRBrace # v)"

definition kinds_from :: "nat \<Rightarrow> 'sp cursor \<Rightarrow> token_kind list" where
  "kinds_from n c = map tok_kind (drop n (cu_tokens c))"

definition brace_depth :: "token_kind \<Rightarrow> nat \<Rightarrow> nat" where
  "brace_depth k d = (if k = Punct PLBrace then d + 1 else if k = Punct PRBrace then d - 1 else d)"

lemma skip_braces_halted:
  assumes "cursor_wf c" and "cu_halted c"
  shows "returns (skip_braces d s c) (\<lambda>s' c'. s' = s \<and> same_place c c' \<and> cu_halted c')"
proof -
  from at_eof_spec [OF assms(1)] obtain c1 where e: "at_eof c = Some (cursor_kind c1 = Eof, c1)"
    and c1: "same_place c c1" by (rule returnsE) blast
  have "cu_halted c1" using c1 assms(2) same_place_le cursor_le_halted by blast
  moreover from this have "cursor_kind c1 = Eof"
    using halted_look c1 assms(1) same_place_le cursor_le_wf by blast
  ultimately show ?thesis using e c1 by (subst skip_braces.simps) simp
qed

lemma skip_braces_step:
  assumes wf: "cursor_wf c" and d: "0 < d" and k: "kinds_from (cu_position c) c = k # ks" and ne: "k \<noteq> Eof"
    and halt: "\<And>s c'. cursor_le c c' \<Longrightarrow> cu_halted c' \<Longrightarrow> Q s c'"
    and go: "\<And>c2. cursor_le c c2 \<Longrightarrow> cursor_wf c2 \<Longrightarrow> cu_position c2 = Suc (cu_position c) \<Longrightarrow>
      kinds_from (cu_position c2) c2 = ks \<Longrightarrow>
      returns (skip_braces (brace_depth k d) (tok_span (cu_tokens c ! cu_position c)) c2) Q"
  shows "returns (skip_braces d s c) Q"
proof -
  have kind: "tok_kind (cu_tokens c ! cu_position c) = k"
    using k wf by (metis cursor_wf_def kinds_from_def list.map_sel(1) list.sel(1) list.distinct(1) hd_drop_conv_nth
        list.simps(8))
  from at_eof_spec [OF wf] obtain c1 where e: "at_eof c = Some (cursor_kind c1 = Eof, c1)"
    and c1: "same_place c c1" by (rule returnsE) blast
  have wf1: "cursor_wf c1" using c1 wf same_place_le cursor_le_wf by blast
  show ?thesis
  proof (cases "cu_halted c1")
    case True
    with halted_look [OF wf1, of 0] e halt [OF same_place_le [OF c1] True] show ?thesis
      by (subst skip_braces.simps) simp
  next
    case False
    with cursor_kind_position [OF wf1] c1 kind ne have ne1: "cursor_kind c1 \<noteq> Eof"
      by (simp add: same_place_def cursor_le_def)
    from cursor_bump_spec [OF wf1] obtain t c2 where t: "cursor_bump c1 = Some (t, c2)"
      and b: "bumped c1 t c2" by (rule returnsE)
    note step = bump_not_eof [OF wf c1 ne1 b]
    have ks: "kinds_from (cu_position c2) c2 = ks"
      using k step(1,2)
      by (simp add: kinds_from_def cursor_le_def drop_Suc drop_tl map_tl)
    have "returns (skip_braces (brace_depth (tok_kind t) d) (tok_span t) c2) Q"
    proof (cases "cu_halted c2")
      case True
      from skip_braces_halted [OF step(4) True] show ?thesis
        by (rule returns_conseq) (use halt step(1) cursor_le_trans same_place_le in blast)
    next
      case False
      from step(5) [OF False] go [OF step(1) step(4) step(2) ks] kind show ?thesis by simp
    qed
    with e ne1 d t show ?thesis by (subst skip_braces.simps) (simp add: brace_depth_def)
  qed
qed

lemma skip_braces_body:
  assumes "braces_ok w" and "cursor_wf c" and "0 < d" and "kinds_from (cu_position c) c = w @ ks"
    and "\<And>s c'. cursor_le c c' \<Longrightarrow> cu_halted c' \<Longrightarrow> Q s c'"
    and "\<And>s c2. cursor_le c c2 \<Longrightarrow> cursor_wf c2 \<Longrightarrow> cu_position c2 = cu_position c + length w \<Longrightarrow>
      kinds_from (cu_position c2) c2 = ks \<Longrightarrow> returns (skip_braces d s c2) Q"
  shows "returns (skip_braces d s c) Q"
  using assms
proof (induction arbitrary: c d ks s rule: braces_ok.induct)
  case braces_Nil
  then show ?case by simp
next
  case (braces_plain k w)
  have k: "k \<noteq> Eof" "brace_depth k d = d" using braces_plain.hyps by (auto simp: brace_depth_def)
  show ?case
  proof (rule skip_braces_step [OF braces_plain.prems(1,2) _ k(1)])
    show "kinds_from (cu_position c) c = k # w @ ks" using braces_plain.prems(3) by simp
    fix c2
    assume c2: "cursor_le c c2" "cursor_wf c2" "cu_position c2 = Suc (cu_position c)"
      "kinds_from (cu_position c2) c2 = w @ ks"
    show "returns (skip_braces (brace_depth k d) (tok_span (cu_tokens c ! cu_position c)) c2) Q"
      unfolding k(2)
      by (rule braces_plain.IH [OF c2(2) braces_plain.prems(2) c2(4)
            braces_plain.prems(4) [OF cursor_le_trans [OF c2(1)]]
            braces_plain.prems(5) [OF cursor_le_trans [OF c2(1)]]]) (use c2(3) in auto)
  qed (rule braces_plain.prems(4))
next
  case (braces_nest w v)
  let ?L = "Punct PLBrace" and ?R = "Punct PRBrace"
  have L: "?L \<noteq> Eof" "brace_depth ?L d = d + 1" and R: "?R \<noteq> Eof" "brace_depth ?R (d + 1) = d"
    by (auto simp: brace_depth_def)
  show ?case
  proof (rule skip_braces_step [OF braces_nest.prems(1,2) _ L(1)])
    show "kinds_from (cu_position c) c = ?L # w @ ?R # v @ ks" using braces_nest.prems(3) by simp
    fix c2
    assume c2: "cursor_le c c2" "cursor_wf c2" "cu_position c2 = Suc (cu_position c)"
      "kinds_from (cu_position c2) c2 = w @ ?R # v @ ks"
    have halt2: "cursor_le c2 c' \<Longrightarrow> cu_halted c' \<Longrightarrow> Q s c'" for s c'
      using c2(1) braces_nest.prems(4) cursor_le_trans by blast
    have after: "returns (skip_braces (d + 1) s c3) Q"
      if c3: "cursor_le c2 c3" "cursor_wf c3" "cu_position c3 = cu_position c2 + length w"
        "kinds_from (cu_position c3) c3 = ?R # v @ ks" for s c3
    proof (rule skip_braces_step [OF c3(2) _ c3(4) R(1)])
      show "0 < d + 1" by simp
      show "cursor_le c3 c' \<Longrightarrow> cu_halted c' \<Longrightarrow> Q s c'" for s c'
        using c3(1) halt2 cursor_le_trans by blast
      fix c4
      assume c4: "cursor_le c3 c4" "cursor_wf c4" "cu_position c4 = Suc (cu_position c3)"
        "kinds_from (cu_position c4) c4 = v @ ks"
      have le: "cursor_le c c4" using c2(1) c3(1) c4(1) cursor_le_trans by blast
      show "returns (skip_braces (brace_depth ?R (d + 1)) (tok_span (cu_tokens c3 ! cu_position c3)) c4) Q"
        unfolding R(2)
        by (rule braces_nest.IH(2) [OF c4(2) braces_nest.prems(2) c4(4)
              braces_nest.prems(4) [OF cursor_le_trans [OF le]]
              braces_nest.prems(5) [OF cursor_le_trans [OF le]]]) (use c2(3) c3(3) c4(3) in auto)
    qed
    show "returns (skip_braces (brace_depth ?L d) (tok_span (cu_tokens c ! cu_position c)) c2) Q"
      unfolding L(2) by (rule braces_nest.IH(1) [OF c2(2) _ c2(4) halt2 after]) simp_all
  qed (rule braces_nest.prems(4))
qed

lemma skip_braces_done:
  assumes "cursor_wf c"
  shows "returns (skip_braces 0 s c) (\<lambda>s' c'. s' = s \<and> same_place c c')"
  by (subst skip_braces.simps, rule returns_bind [OF at_eof_spec [OF assms]]) simp

lemma skip_braces_block:
  assumes w: "braces_ok w" and wf: "cursor_wf c"
    and k: "kinds_from (cu_position c) c = w @ Punct PRBrace # ks"
  shows "returns (skip_braces 1 s c) (\<lambda>s' c'. cursor_le c c' \<and> (cu_halted c' \<or>
    cu_position c' = cu_position c + length w + 1 \<and> s' = tok_span (cu_tokens c ! (cu_position c + length w))))"
    (is "returns _ ?Q")
proof (rule skip_braces_body [OF w wf _ k])
  fix s c2
  assume c2: "cursor_le c c2" "cursor_wf c2" "cu_position c2 = cu_position c + length w"
    "kinds_from (cu_position c2) c2 = Punct PRBrace # ks"
  show "returns (skip_braces 1 s c2) ?Q"
  proof (rule skip_braces_step [OF c2(2) _ c2(4)])
    fix c3
    assume c3: "cursor_le c2 c3" "cursor_wf c3" "cu_position c3 = Suc (cu_position c2)"
    have "brace_depth (Punct PRBrace) 1 = 0" by (simp add: brace_depth_def)
    moreover have "cu_tokens c2 = cu_tokens c" using c2(1) by (simp add: cursor_le_def)
    moreover have "returns (skip_braces 0 (tok_span (cu_tokens c ! (cu_position c + length w))) c3) ?Q"
      by (rule returns_conseq [OF skip_braces_done [OF c3(2)]])
        (use c2 c3 cursor_le_trans [OF c2(1) cursor_le_trans [OF c3(1)]] in \<open>auto simp: same_place_def\<close>)
    ultimately show "returns (skip_braces (brace_depth (Punct PRBrace) 1)
        (tok_span (cu_tokens c2 ! cu_position c2)) c3) ?Q"
      using c2(3) by simp
  qed (use c2(1) cursor_le_trans in auto)
qed auto


section \<open>Expecting a token\<close>

text \<open>
  What \<open>expect_punct\<close> does: it consumes the token and updates the delimiter stack, or it
  consumes nothing and reports one diagnostic at the span it returns.
\<close>

definition expect_reported :: "punct \<Rightarrow> utext \<Rightarrow> 'sp parser \<Rightarrow> 'sp \<Rightarrow> 'sp parser \<Rightarrow> bool" where
  "expect_reported q message p span p' \<longleftrightarrow>
     cu_position (ps_cursor p') = cu_position (ps_cursor p) \<and> cursor_kind (ps_cursor p') \<noteq> Punct q \<and>
     (\<exists>d. ps_diagnostics p' = ps_diagnostics p @ [d] \<and> dg_span d = span \<and>
        (if is_closing_delimiter q \<and> q \<in> dl_close ` set (ps_delimiters p)
         then (\<exists>ds dl es. ps_delimiters p = ds @ dl # es \<and> dl_close dl = q \<and> q \<notin> dl_close ` set es \<and>
                 ps_delimiters p' = ds @ es \<and> d = unclosed_delimiter q span dl)
         else ps_delimiters p' = ps_delimiters p \<and> dg_code d = missing_code (at_end p') \<and>
                dg_message d = message))"

definition expect_consumed :: "punct \<Rightarrow> 'sp parser \<Rightarrow> 'sp \<Rightarrow> 'sp parser \<Rightarrow> bool" where
  "expect_consumed q p span p' \<longleftrightarrow>
     cu_position (ps_cursor p') = Suc (cu_position (ps_cursor p)) \<and>
     tok_kind (cu_tokens (ps_cursor p) ! cu_position (ps_cursor p)) = Punct q \<and>
     ps_diagnostics p' = ps_diagnostics p \<and>
     ps_delimiters p' = ps_delimiters (note_delimiter_token q span p) \<and>
     (\<not> cu_halted (ps_cursor p') \<longrightarrow> span = tok_span (cu_tokens (ps_cursor p) ! cu_position (ps_cursor p)))"

lemma note_delimiters_cong:
  "ps_delimiters p = ps_delimiters p' \<Longrightarrow>
     ps_delimiters (note_delimiter_token q s p) = ps_delimiters (note_delimiter_token q s p')"
  by (simp add: note_delimiter_token_def split: option.splits)

lemma last_with_close:
  assumes "q \<in> dl_close ` set ds"
  obtains xs d ys where "ds = xs @ d # ys" "dl_close d = q" "\<forall>y \<in> set ys. dl_close y \<noteq> q"
  using assms split_list_last_prop [of ds "\<lambda>d. dl_close d = q"] by (metis (mono_tags, lifting) imageE)

lemma same_place_not_kind:
  assumes "cursor_wf c" "same_place c c'" "cursor_kind c \<noteq> k" "k \<noteq> Eof"
  shows "cursor_kind c' \<noteq> k"
proof (cases "cu_halted c'")
  case True
  with assms halted_look [of c' 0] show ?thesis using same_place_le cursor_le_wf by metis
next
  case False
  with assms show ?thesis using same_place_kind by metis
qed

lemma expect_failed:
  assumes wf: "parser_wf A p" and k: "cursor_kind (ps_cursor p) \<noteq> Punct q"
  shows "returns (if is_closing_delimiter q then unclosed_or_missing_delimiter q message p
      else missing_punct q message p) (expect_reported q message p)"
proof -
  have same: "expect_reported q message p span p'"
    if "same_place (ps_cursor p) (ps_cursor p')" and "\<exists>d. ps_diagnostics p' = ps_diagnostics p @ [d] \<and>
        dg_span d = span \<and> dg_message d = message \<and> dg_code d = missing_code (at_end p') \<and>
        ps_delimiters p' = ps_delimiters p"
      and "\<not> (is_closing_delimiter q \<and> q \<in> dl_close ` set (ps_delimiters p))" for span and p' :: "'a parser"
    using that same_place_not_kind [OF parser_wf_cursor [OF wf] that(1) k]
    by (auto simp: expect_reported_def same_place_def)
  have miss: "returns (missing_punct q message p) (expect_reported q message p)"
    if "\<not> (is_closing_delimiter q \<and> q \<in> dl_close ` set (ps_delimiters p))"
    by (rule returns_conseq [OF missing_punct_spec [OF wf]], rule same [OF _ _ that]) blast+
  show ?thesis
  proof (cases "is_closing_delimiter q \<and> q \<in> dl_close ` set (ps_delimiters p)")
    case True
    then obtain ds d es where ds: "ps_delimiters p = ds @ d # es" "dl_close d = q"
        "\<forall>e \<in> set es. dl_close e \<noteq> q" using last_with_close by metis
    have "returns (unclosed_or_missing_delimiter q message p) (expect_reported q message p)"
    proof (rule returns_conseq [OF unclosed_blames [OF wf ds]])
      fix span and p' :: "'a parser"
      assume h: "ps_diagnostics p' = ps_diagnostics p @ [unclosed_delimiter q span d] \<and>
        ps_delimiters p' = ds @ es \<and> same_place (ps_cursor p) (ps_cursor p')"
      have "dg_span (unclosed_delimiter q span d) = span"
        by (simp add: unclosed_delimiter_def with_suggestion_def with_secondary_def diagnostic_syntax_def)
      moreover have "cursor_kind (ps_cursor p') \<noteq> Punct q"
        using h same_place_not_kind [OF parser_wf_cursor [OF wf] _ k] by simp
      moreover have "q \<notin> dl_close ` set es" using ds(3) by auto
      ultimately show "expect_reported q message p span p'"
        using h True ds unfolding expect_reported_def same_place_def by auto
    qed
    with True show ?thesis by simp
  next
    case False
    have "returns (unclosed_or_missing_delimiter q message p) (expect_reported q message p)"
      if "is_closing_delimiter q"
      unfolding unclosed_or_missing_delimiter_def
    proof (rule returns_bind [OF peek_fields [OF wf]], clarify)
      fix t p1
      assume p1: "ps_diagnostics p1 = ps_diagnostics p" "ps_delimiters p1 = ps_delimiters p"
        "same_place (ps_cursor p) (ps_cursor p1)" "parser_wf A p1"
      have "rposition (\<lambda>d. dl_close d = q) (ps_delimiters p1) = None"
        using False that p1(2) by (auto simp: rposition_None)
      moreover have "returns (missing_punct q message p1) (expect_reported q message p)"
        by (rule returns_conseq [OF missing_punct_spec [OF p1(4)]], rule same [OF _ _ False])
          (use p1 same_place_trans in auto)
      ultimately show "returns (case rposition (\<lambda>d. dl_close d = q) (ps_delimiters p1) of
          None \<Rightarrow> missing_punct q message p1
        | Some i \<Rightarrow> Some (tok_span t, push_diagnostic
            (unclosed_delimiter q (tok_span t) (ps_delimiters p1 ! i))
            (p1\<lparr>ps_delimiters := vec_remove i (ps_delimiters p1)\<rparr>))) (expect_reported q message p)"
        by simp
    qed
    with miss [OF False] show ?thesis by simp
  qed
qed

lemma expect_punct_spec:
  assumes wf: "parser_wf A p"
  shows "returns (expect_punct q message p) (\<lambda>span p'.
    expect_consumed q p span p' \<or> expect_reported q message p span p')"
  unfolding expect_punct_def
proof (rule returns_bind [OF on_eat_punct_spec [OF wf]], clarify)
  fix r p1
  assume p1: "p1 = p\<lparr>ps_cursor := ps_cursor p1\<rparr>" and wf1: "parser_wf A p1"
    and ate: "ate (Punct q) (ps_cursor p) r (ps_cursor p1)"
  note f = on_cursor_fields [OF p1]
  show "returns (case r of None \<Rightarrow> if is_closing_delimiter q then unclosed_or_missing_delimiter q message p1
        else missing_punct q message p1
      | Some t \<Rightarrow> Some (tok_span t, note_delimiter_token q (tok_span t) p1))
    (\<lambda>span p'. expect_consumed q p span p' \<or> expect_reported q message p span p')"
  proof (cases r)
    case (Some t)
    have "expect_consumed q p (tok_span t) (note_delimiter_token q (tok_span t) p1)"
      using ate f note_delimiters_cong [of p1 p q "tok_span t"]
      by (auto simp: Some expect_consumed_def ate_def note_delimiter_token_def split: option.splits)
    with Some show ?thesis by simp
  next
    case None
    with ate have sp: "same_place (ps_cursor p) (ps_cursor p1)" "cursor_kind (ps_cursor p1) \<noteq> Punct q"
      by (simp_all add: ate_def)
    have "ps_diagnostics p1 = ps_diagnostics p" "ps_delimiters p1 = ps_delimiters p"
      "cu_position (ps_cursor p1) = cu_position (ps_cursor p)"
      using f sp(1) by (simp_all add: same_place_def)
    then have "expect_reported q message p1 = expect_reported q message p"
      unfolding expect_reported_def [abs_def] by (simp only:)
    with expect_failed [OF wf1 sp(2), of message] None show ?thesis
      by (auto elim!: returns_conseq)
  qed
qed

end
