(* ===== verification/Etas_Parser_Entry.thy ===== *)
theory Etas_Parser_Entry
  imports Etas_Parser_Rules
begin

text \<open>
  The obsolete-keyword check, the two entry points that lex a source and run a grammar rule
  on it, and the properties of the parser core.
\<close>

section \<open>Obsolete keywords\<close>

lemma no_self_overlap:
  assumes d: "distinct pat" and s: "starts_with (pre @ pat @ post) pat" and ne: "pre \<noteq> []" "pat \<noteq> []"
  shows "length pat \<le> length pre"
proof (rule ccontr)
  assume lt: "\<not> length pat \<le> length pre"
  let ?i = "length pre"
  from s have "take (length pat) (pre @ pat @ post) ! ?i = pat ! ?i" by (simp add: starts_with_def)
  moreover from lt ne have "take (length pat) (pre @ pat @ post) ! ?i = pat ! 0"
    by (simp add: nth_append)
  ultimately have "pat ! ?i = pat ! 0" by simp
  with d lt ne show False by (simp add: nth_eq_iff_index_eq)
qed

lemma append_pat_cases:
  assumes "c # t = pre @ pat @ post" and "distinct pat" and "pat \<noteq> []" and "starts_with (c # t) pat"
  shows "pre = [] \<or> (\<exists>pre'. pre = pat @ pre' \<and> drop (length pat) (c # t) = pre' @ pat @ post)"
proof (cases "pre = []")
  case False
  with assms no_self_overlap have le: "length pat \<le> length pre" by metis
  from assms(4) have "take (length pat) (c # t) = pat" by (simp add: starts_with_def)
  with assms(1) le have "take (length pat) pre = pat" by simp
  then have "pre = pat @ drop (length pat) pre" by (metis append_take_drop_id)
  with assms(1) le show ?thesis by (auto intro!: exI [of _ "drop (length pat) pre"])
qed simp

lemma set_match_indices:
  "distinct pat \<Longrightarrow> pat \<noteq> [] \<Longrightarrow>
     set (match_indices pat t n) = {n + blen pre | pre post. t = pre @ pat @ post}"
proof (induction pat t n rule: match_indices.induct)
  case (1 pat n)
  then show ?case by auto
next
  case (2 pat c t n)
  show ?case
  proof (cases "starts_with (c # t) pat")
    case True
    then obtain r where r: "c # t = pat @ r" by (auto simp: starts_with_iff)
    then have dr: "drop (length pat) (c # t) = r" by simp
    have IH: "set (match_indices pat r (n + blen pat)) = {n + blen pat + blen pre | pre post. r = pre @ pat @ post}"
      using "2.IH"(2) [OF "2.prems"(2) True "2.prems"] dr by simp
    have "{n + blen pre | pre post. c # t = pre @ pat @ post} =
        insert n {n + blen pat + blen pre | pre post. r = pre @ pat @ post}" (is "?L = ?R")
    proof (intro subset_antisym subsetI)
      fix x assume "x \<in> ?L"
      then obtain pre post where x: "x = n + blen pre" and e: "c # t = pre @ pat @ post" by blast
      from append_pat_cases [OF e "2.prems" True] dr x show "x \<in> ?R" by auto
    next
      fix x assume "x \<in> ?R"
      then consider "x = n" | pre post where "x = n + blen (pat @ pre)" "r = pre @ pat @ post" by auto
      then show "x \<in> ?L"
      proof cases
        case 1
        then show ?thesis using r by (auto intro!: exI [of _ "[]"] exI [of _ r])
      next
        case 2
        with r have "c # t = (pat @ pre) @ pat @ post" by simp
        with 2(1) show ?thesis by blast
      qed
    qed
    with True "2.prems"(2) IH dr show ?thesis by simp
  next
    case False
    have IH: "set (match_indices pat t (n + len_utf8 c)) = {n + len_utf8 c + blen pre | pre post. t = pre @ pat @ post}"
      using "2.IH"(3) [OF "2.prems"(2) False "2.prems"] .
    have "c # t = pre @ pat @ post \<longleftrightarrow> (\<exists>pre'. pre = c # pre' \<and> t = pre' @ pat @ post)" for pre post
      using False "2.prems"(2) by (cases pre) (auto simp: starts_with_iff)
    with False "2.prems"(2) IH show ?thesis by (auto simp: add.assoc) (metis blen_Cons)
  qed
qed

lemma match_indices_ge: "pat \<noteq> [] \<Longrightarrow> x \<in> set (match_indices pat t n) \<Longrightarrow> n \<le> x"
proof (induction pat t n arbitrary: x rule: match_indices.induct)
  case (2 pat c t n)
  show ?case
  proof (cases "starts_with (c # t) pat")
    case True
    with 2 show ?thesis using "2.IH"(2) [OF "2.prems"(1) True "2.prems"(1), of x]
      by (auto intro: add_leD1)
  next
    case False
    with 2 show ?thesis using "2.IH"(3) [OF "2.prems"(1) False "2.prems"(1), of x]
      by (auto intro: add_leD1)
  qed
qed simp

lemma distinct_match_indices: "pat \<noteq> [] \<Longrightarrow> distinct (match_indices pat t n)"
proof (induction pat t n rule: match_indices.induct)
  case (2 pat c t n)
  have n: "n \<notin> set (match_indices pat r (n + blen pat))" "n \<notin> set (match_indices pat r (n + len_utf8 c))" for r
    using "2.prems" match_indices_ge [OF "2.prems"] blen_0_iff [of pat] len_utf8_pos [of c]
    by (metis add_le_same_cancel1 le_zero_eq) (metis "2.prems" add_le_same_cancel1 le_zero_eq len_utf8_not_0 match_indices_ge)
  show ?case
  proof (cases "starts_with (c # t) pat")
    case True
    with "2.IH"(2) [OF "2.prems" True "2.prems"] n "2.prems" show ?thesis by simp
  next
    case False
    with "2.IH"(3) [OF "2.prems" False "2.prems"] "2.prems" show ?thesis by simp
  qed
qed simp

definition keyword_at :: "unicode \<Rightarrow> utext \<Rightarrow> utext \<Rightarrow> nat \<Rightarrow> nat \<Rightarrow> bool" where
  "keyword_at u kw t a b \<longleftrightarrow> (\<exists>pre post. t = pre @ kw @ post \<and> a = blen pre \<and> b = a + blen kw \<and>
     (pre = [] \<or> \<not> is_ident_continue u (last pre)) \<and> ends_run (is_ident_continue u) post)"

lemma blen_split_unique:
  assumes "pre @ r = pre' @ r'" and "blen pre = blen pre'"
  shows "pre = pre' \<and> r = r'"
proof -
  have "pre = pre'" by (metis assms str_upto_append option.inject)
  with assms(1) show ?thesis by simp
qed

lemma keyword_boundary:
  assumes "t = pre @ kw @ post"
  shows "is_keyword_boundary u t (blen pre) (blen pre + blen kw) =
    Some (keyword_at u kw t (blen pre) (blen pre + blen kw))"
proof -
  have "str_upto t (blen pre) = Some pre" "str_from t (blen pre + blen kw) = Some post"
    using str_upto_append [of pre "kw @ post"] str_from_append [of "pre @ kw" post] assms by simp_all
  moreover have "keyword_at u kw t (blen pre) (blen pre + blen kw) \<longleftrightarrow>
      (pre = [] \<or> \<not> is_ident_continue u (last pre)) \<and> ends_run (is_ident_continue u) post"
  proof -
    have "pre' = pre \<and> post' = post" if "t = pre' @ kw @ post'" "blen pre = blen pre'" for pre' post'
    proof -
      have "pre @ kw @ post = pre' @ kw @ post'" by (rule trans [OF sym [OF assms] that(1)])
      from blen_split_unique [OF this that(2)] show ?thesis by simp
    qed
    with assms show ?thesis unfolding keyword_at_def by metis
  qed
  ultimately show ?thesis by (auto simp: is_keyword_boundary_def ends_run_def)
qed

lemma filter_boundary_eq:
  "\<forall>(a, b) \<in> set rs. \<exists>pre post. t = pre @ kw @ post \<and> a = blen pre \<and> b = a + blen kw \<Longrightarrow>
     filter_boundary u t rs = Some (filter (\<lambda>(a, b). keyword_at u kw t a b) rs)"
  by (induction rs) (auto simp: keyword_boundary)

lemma keyword_spans_spec:
  assumes "distinct kw" "kw \<noteq> []"
  shows "\<exists>rs. keyword_spans u t kw = Some rs \<and> distinct rs \<and> set rs = {(a, b). keyword_at u kw t a b}"
proof -
  let ?rs = "map (\<lambda>n. (n, n + blen kw)) (match_indices kw t 0)"
  have "\<forall>(a, b) \<in> set ?rs. \<exists>pre post. t = pre @ kw @ post \<and> a = blen pre \<and> b = a + blen kw"
    using set_match_indices [OF assms, of t 0] by auto
  then have "keyword_spans u t kw = Some (filter (\<lambda>(a, b). keyword_at u kw t a b) ?rs)"
    unfolding keyword_spans_def by (rule filter_boundary_eq)
  moreover have "distinct (filter (\<lambda>(a, b). keyword_at u kw t a b) ?rs)"
    using distinct_match_indices [OF assms(2), of t 0]
    by (intro distinct_filter) (simp add: distinct_map inj_on_def)
  moreover have "set (filter (\<lambda>(a, b). keyword_at u kw t a b) ?rs) = {(a, b). keyword_at u kw t a b}"
    using set_match_indices [OF assms, of t 0] by (auto simp: keyword_at_def)
  ultimately show ?thesis by blast
qed

lemma fun_distinct: "distinct (lit ''fun'')" "lit ''fun'' \<noteq> []"
  by (simp_all add: lit_def uc_def)

lemma obsolete_fun_diagnostics_spec:
  "\<exists>rs. obsolete_fun_diagnostics u A src ts =
       Some (map (\<lambda>(a, b). obsolete_fun_diagnostic (span_new A (src_id src) a b)) rs) \<and> distinct rs \<and>
     set rs = {(a, b). keyword_at u (lit ''fun'') (src_text src) a b \<and>
       (\<exists>t \<in> set (ts_tokens ts). tok_kind t = Ident \<and> range_start A (tok_span t) = a \<and> range_end A (tok_span t) = b)}"
proof -
  from keyword_spans_spec [OF fun_distinct, of u "src_text src"] obtain rs where
    "obsolete_fun_spans u (src_text src) = Some rs" "distinct rs"
    "set rs = {(a, b). keyword_at u (lit ''fun'') (src_text src) a b}"
    by (auto simp: obsolete_fun_spans_def)
  then show ?thesis
    by (intro exI [of _ "filter (\<lambda>(a, b). list_ex (\<lambda>t. tok_kind t = Ident \<and>
          range_start A (tok_span t) = a \<and> range_end A (tok_span t) = b) (ts_tokens ts)) rs"])
      (auto simp: obsolete_fun_diagnostics_def list_ex_iff)
qed

section \<open>Entry points\<close>

lemma significant_tokens_lexed:
  assumes "ts_tokens ts = xs @ [e]" and "tok_kind e = Eof"
  shows "cursor_wf (cursor_new (significant_tokens ts))"
    "cursor_wf (cursor_with_checkpoint (significant_tokens ts) poll)"
  using assms by (simp_all add: cursor_wf_def cursor_new_def cursor_with_checkpoint_def polls_ok_def
      significant_tokens_def is_trivia_def)

definition lexed_tokens :: "unicode \<Rightarrow> 'sp span_api \<Rightarrow> source_file \<Rightarrow> 'sp token_stream" where
  "lexed_tokens u A src = \<lparr>ts_source = src_id src,
     ts_tokens = lexeme_tokens A (src_id src) 0 (lexemes u (src_text src))
       @ [\<lparr>tok_kind = Eof, tok_span = span_empty A (src_id src) (blen (src_text src))\<rparr>]\<rparr>"

definition lexed_diagnostics :: "unicode \<Rightarrow> 'sp span_api \<Rightarrow> source_file \<Rightarrow> 'sp diagnostic list" where
  "lexed_diagnostics u A src = lexeme_diagnostics A (src_id src) 0 (lexemes u (src_text src))"

lemma initial_parser_wf:
  assumes "span_laws A" and "blen (src_text src) \<le> u32_max"
  shows "parser_wf A (initial_parser src (cursor_new (significant_tokens (lexed_tokens u A src))) ds bd)"
    "parser_wf A (initial_parser src (cursor_with_checkpoint (significant_tokens (lexed_tokens u A src)) poll) ds bd)"
proof -
  let ?ts = "lexed_tokens u A src"
  let ?ls = "lexemes u (src_text src)"
  have c: "concat (map (\<lambda>(_, _, w). w) ?ls) = src_text src"
    by (rule segmentation_concat [OF segmentation_lexemes])
  have eq: "map (token_slice A (src_text src)) (lexeme_tokens A (src_id src) 0 ?ls)
      = map Some (map (\<lambda>(_, _, w). w) ?ls)"
    using lexeme_tokens_slices [OF assms(1), of "[]" ?ls "src_id src", unfolded append_Nil blen_Nil c] assms(2)
    by (simp add: comp_def case_prod_unfold)
  have "token_slice A (src_text src) t \<noteq> None" if "t \<in> set (lexeme_tokens A (src_id src) 0 ?ls)" for t
  proof -
    have "token_slice A (src_text src) t \<in> set (map Some (map (\<lambda>(_, _, w). w) ?ls))"
      using that unfolding eq [symmetric] by simp
    then show ?thesis by auto
  qed
  moreover have "token_slice A (src_text src)
      \<lparr>tok_kind = Eof, tok_span = span_empty A (src_id src) (blen (src_text src))\<rparr> = Some []"
    using assms by (simp add: token_slice_def span_laws_def str_range_def)
  ultimately have sl: "t \<in> set (ts_tokens ?ts) \<Longrightarrow> token_slice A (src_text src) t \<noteq> None" for t
    by (auto simp: lexed_tokens_def)
  have sl': "\<forall>t \<in> set (significant_tokens ?ts). token_slice A (src_text src) t \<noteq> None"
    using sl by (simp add: significant_tokens_def)
  have ts: "ts_tokens ?ts = lexeme_tokens A (src_id src) 0 ?ls
      @ [\<lparr>tok_kind = Eof, tok_span = span_empty A (src_id src) (blen (src_text src))\<rparr>]"
    by (simp add: lexed_tokens_def)
  show "parser_wf A (initial_parser src (cursor_new (significant_tokens ?ts)) ds bd)"
    using significant_tokens_lexed(1) [OF ts] sl'
    by (simp add: parser_wf_def initial_parser_def parser_slice_def token_slice_def cursor_new_def)
  show "parser_wf A (initial_parser src (cursor_with_checkpoint (significant_tokens ?ts) poll) ds bd)"
    using significant_tokens_lexed(2) [OF ts] sl'
    by (simp add: parser_wf_def initial_parser_def parser_slice_def token_slice_def cursor_with_checkpoint_def
        cursor_new_def)
qed

lemma parse_source_spec:
  assumes "forward A rule" and "span_laws A" and "blen (src_text src) \<le> u32_max"
  shows "\<exists>r obs. parse_source u A src rule = Some r \<and> pr_tokens r = lexed_tokens u A src \<and>
    obsolete_fun_diagnostics u A src (lexed_tokens u A src) = Some obs \<and>
    prefix (lexed_diagnostics u A src @ obs) (pr_diagnostics r)"
proof -
  let ?ts = "lexed_tokens u A src" and ?ds = "lexed_diagnostics u A src"
  obtain obs where obs: "obsolete_fun_diagnostics u A src ?ts = Some obs"
    using obsolete_fun_diagnostics_spec by metis
  have lex: "lex_with_diagnostics u A src [] = Done (?ts, ?ds)"
    by (simp add: lex_with_diagnostics_eq lexed_tokens_def lexed_diagnostics_def)
  from forwardD [OF assms(1) initial_parser_wf(1) [OF assms(2,3)], of u "?ds @ obs" None]
  obtain v p where p: "rule (initial_parser src (cursor_new (significant_tokens ?ts)) (?ds @ obs) None) = Some (v, p)"
    and le: "parser_le (initial_parser src (cursor_new (significant_tokens ?ts)) (?ds @ obs) None) p"
    by (rule returnsE)
  from le have "prefix (?ds @ obs) (ps_diagnostics p)" by (simp add: parser_le_def initial_parser_def)
  with lex obs p show ?thesis by (simp add: parse_source_def)
qed

text \<open>What a result of the bounded entry point says about the polls and the limits.\<close>

definition within_limits :: "unicode \<Rightarrow> 'sp span_api \<Rightarrow> source_file \<Rightarrow> body_parse_limits \<Rightarrow> bool" where
  "within_limits u A src limits \<longleftrightarrow>
     blen (src_text src) \<le> min (max_source_bytes limits) u32_max \<and>
     max_recursion limits \<le> MAX_BODY_PARSE_RECURSION \<and>
     length (ts_tokens (lexed_tokens u A src)) \<le> max_tokens limits"

definition resource_reason ::
    "unicode \<Rightarrow> 'sp span_api \<Rightarrow> source_file \<Rightarrow> body_parse_limits \<Rightarrow> 'sp body_resource_error \<Rightarrow> bool" where
  "resource_reason u A src limits err \<longleftrightarrow>
     (re_kind err = SourceBytes \<and> re_limit err = min (max_source_bytes limits) u32_max \<and>
        re_limit err < blen (src_text src)) \<or>
     (re_kind err = Recursion \<and> re_limit err = MAX_BODY_PARSE_RECURSION \<and> re_limit err < max_recursion limits) \<or>
     (re_kind err = Tokens \<and> re_limit err = max_tokens limits \<and>
        re_limit err < length (ts_tokens (lexed_tokens u A src)))"

text \<open>The number of polls a completed parse made; the last one is the final checkpoint.\<close>

fun bounded_ok ::
    "(nat \<Rightarrow> 'e option) \<Rightarrow> unicode \<Rightarrow> 'sp span_api \<Rightarrow> source_file \<Rightarrow> body_parse_limits \<Rightarrow> ('sp, 'a) rule \<Rightarrow>
     ('e, 'sp) bounded_error + ('sp, 'a) parse \<Rightarrow> bool" where
  "bounded_ok chk u A src limits rule (Inl (BInterrupted e)) \<longleftrightarrow> (\<exists>j. chk j = Some e \<and> (\<forall>i<j. chk i = None))"
| "bounded_ok chk u A src limits rule (Inl (BResource err)) \<longleftrightarrow> chk 0 = None \<and>
     (resource_reason u A src limits err \<or> within_limits u A src limits \<and>
        (\<exists>p v p'. rule p = Some (v, p') \<and> budget_error p = None \<and> budget_error p' = Some err \<and>
           parser_le p p' \<and> \<not> cu_halted (ps_cursor p')))"
| "bounded_ok chk u A src limits rule (Inr r) \<longleftrightarrow> within_limits u A src limits \<and>
     pr_tokens r = lexed_tokens u A src \<and>
     (\<exists>p p' k obs. obsolete_fun_diagnostics u A src (lexed_tokens u A src) = Some obs \<and>
        p = initial_parser src (cursor_with_checkpoint (significant_tokens (lexed_tokens u A src))
          (\<lambda>i. chk (k + i) = None)) (lexed_diagnostics u A src @ obs)
          (Some \<lparr>bd_limits = limits, bd_depth = 0, bd_error = None\<rparr>) \<and>
        rule p = Some (pr_value r, p') \<and> pr_diagnostics r = ps_diagnostics p' \<and>
        budget_error p' = None \<and> \<not> cu_halted (ps_cursor p') \<and>
        (\<forall>i \<le> k + cu_polls (ps_cursor p'). chk i = None))"

lemma run_bounded_rule_spec:
  assumes rule: "forward A rule" and A: "span_laws A" and lim: "within_limits u A src limits"
    and obs: "obsolete_fun_diagnostics u A src (lexed_tokens u A src) = Some obs"
    and ok: "\<forall>i<k. chk i = None" and k: "0 < k"
  shows "\<exists>r. run_bounded_rule chk u A src limits rule (lexed_tokens u A src) (lexed_diagnostics u A src @ obs) k = Some r \<and>
    bounded_ok chk u A src limits rule r"
proof -
  let ?ts = "lexed_tokens u A src" and ?ds = "lexed_diagnostics u A src"
  let ?poll = "\<lambda>i. chk (k + i) = None"
  let ?p = "initial_parser src (cursor_with_checkpoint (significant_tokens ?ts) ?poll) (?ds @ obs)
      (Some \<lparr>bd_limits = limits, bd_depth = 0, bd_error = None\<rparr>)"
  have len: "blen (src_text src) \<le> u32_max" using lim by (simp add: within_limits_def)
  have wf: "parser_wf A ?p" by (rule initial_parser_wf(2) [OF A len])
  from forwardD [OF rule wf] obtain v p' where p': "rule ?p = Some (v, p')" and le: "parser_le ?p p'"
    by (rule returnsE)
  let ?c = "ps_cursor p'"
  have po: "polls_ok ?c" and cp: "cu_checkpoint ?c = Some ?poll"
    using parser_le_wf [OF le wf] le
    by (simp_all add: parser_wf_def cursor_wf_def parser_le_def cursor_le_def initial_parser_def
        cursor_with_checkpoint_def)
  have chk0: "chk 0 = None" using ok k by simp
  have be: "budget_error ?p = None" by (simp add: budget_error_def initial_parser_def)
  show ?thesis
  proof (cases "cu_halted ?c")
    case True
    have "0 < cu_polls ?c \<and> \<not> ?poll (cu_polls ?c - 1) \<and> (\<forall>i < cu_polls ?c - 1. ?poll i)"
      using po True unfolding polls_ok_def cp option.case by presburger
    then have pos: "0 < cu_polls ?c" and bad: "chk (k + (cu_polls ?c - 1)) \<noteq> None"
      and good: "\<forall>i < cu_polls ?c - 1. chk (k + i) = None" by blast+
    obtain e where e: "chk (k + (cu_polls ?c - 1)) = Some e" using bad by blast
    have "chk i = None" if "i < k + (cu_polls ?c - 1)" for i
    proof (cases "i < k")
      case False
      with that have "i - k < cu_polls ?c - 1" by linarith
      with good False show ?thesis by (metis le_add_diff_inverse not_less)
    qed (use ok in simp)
    with e have "bounded_ok chk u A src limits rule (Inl (BInterrupted e))" by auto
    moreover have "k + cu_polls ?c - 1 = k + (cu_polls ?c - 1)" using pos by simp
    ultimately show ?thesis using p' True e by (simp add: run_bounded_rule_def)
  next
    case False
    with po cp have "\<forall>i < cu_polls ?c. chk (k + i) = None" by (simp add: polls_ok_def)
    with ok have all: "\<forall>i < k + cu_polls ?c. chk i = None" by (metis add_diff_inverse_nat nat_add_left_cancel_less)
    show ?thesis
    proof (cases "chk (k + cu_polls ?c)")
      case (Some e)
      with all p' False show ?thesis by (auto simp: run_bounded_rule_def)
    next
      case None
      show ?thesis
      proof (cases "budget_error p'")
        case (Some err)
        have "bounded_ok chk u A src limits rule (Inl (BResource err))"
          using Some False p' le be lim chk0 by auto
        with None Some False p' show ?thesis by (simp add: run_bounded_rule_def)
      next
        case budget: None
        let ?r = "\<lparr>pr_value = v, pr_diagnostics = ps_diagnostics p', pr_tokens = ?ts\<rparr>"
        have all': "\<forall>i \<le> k + cu_polls ?c. chk i = None" using all None by (metis le_neq_implies_less)
        have "bounded_ok chk u A src limits rule (Inr ?r)"
          using p' all' budget lim False obs by (auto intro!: exI [of _ p'] exI [of _ k])
        with None budget False p' show ?thesis by (simp add: run_bounded_rule_def)
      qed
    qed
  qed
qed

lemma parse_source_bounded_spec:
  assumes rule: "forward A rule" and A: "span_laws A"
  shows "\<exists>r. parse_source_bounded chk u A src limits rule = Some r \<and> bounded_ok chk u A src limits rule r"
proof (cases "chk 0")
  case (Some e)
  then show ?thesis by (auto simp: parse_source_bounded_def)
next
  case chk0: None
  let ?ts = "lexed_tokens u A src" and ?ds = "lexed_diagnostics u A src"
  obtain obs where obs: "obsolete_fun_diagnostics u A src ?ts = Some obs"
    using obsolete_fun_diagnostics_spec by metis
  have lex: "run_spec chk 1 (lex_with_checkpoint chk u A src [] 1) (\<lambda>x. x = (?ts, ?ds))"
    using lex_with_checkpoint_spec [of chk 1 u A src "[]"] by (simp add: lexed_tokens_def lexed_diagnostics_def)
  have inner: "\<exists>r. parse_tokens_bounded chk u A src limits rule = Some r \<and> bounded_ok chk u A src limits rule r"
    if bytes: "blen (src_text src) \<le> min (max_source_bytes limits) u32_max"
      and rec: "max_recursion limits \<le> MAX_BODY_PARSE_RECURSION"
  proof (cases "lex_with_checkpoint chk u A src [] 1")
    case Panic
    with lex show ?thesis by (simp add: run_spec_def)
  next
    case (Interrupted e)
    with lex obtain j where "1 \<le> j" "chk j = Some e" "\<forall>i. 1 \<le> i \<and> i < j \<longrightarrow> chk i = None"
      by (auto simp: run_spec_def)
    with chk0 have "chk j = Some e \<and> (\<forall>i<j. chk i = None)" by (metis One_nat_def Suc_leI neq0_conv)
    with Interrupted show ?thesis by (auto simp: parse_tokens_bounded_def)
  next
    case (Done x)
    with lex obtain k where x: "x = ((?ts, ?ds), k)" and k: "1 \<le> k"
      and ok: "\<forall>i. 1 \<le> i \<and> i < k \<longrightarrow> chk i = None" by (cases x) (auto simp: run_spec_def)
    from ok chk0 have ok': "\<forall>i<k. chk i = None" by (metis One_nat_def Suc_leI neq0_conv)
    show ?thesis
    proof (cases "max_tokens limits < length (ts_tokens ?ts)")
      case True
      with Done x chk0 show ?thesis by (simp add: parse_tokens_bounded_def resource_reason_def)
    next
      case False
      with bytes rec have lim: "within_limits u A src limits" by (simp add: within_limits_def)
      show ?thesis
      proof (cases "chk k")
        case (Some e)
        with Done x False obs ok' show ?thesis by (auto simp: parse_tokens_bounded_def)
      next
        case None
        with ok' have "\<forall>i < Suc k. chk i = None" by (simp add: less_Suc_eq)
        from run_bounded_rule_spec [OF rule A lim obs this] Done x False obs None show ?thesis
          by (simp add: parse_tokens_bounded_def)
      qed
    qed
  qed
  show ?thesis
  proof (cases "blen (src_text src) \<le> min (max_source_bytes limits) u32_max")
    case False
    then have "min (max_source_bytes limits) u32_max < blen (src_text src)" by (simp only: not_le)
    with chk0 show ?thesis by (simp add: parse_source_bounded_def resource_reason_def Let_def)
  next
    case bytes: True
    then have nb: "\<not> min (max_source_bytes limits) u32_max < blen (src_text src)" by (simp only: not_less)
    show ?thesis
    proof (cases "max_recursion limits \<le> MAX_BODY_PARSE_RECURSION")
      case False
      with chk0 nb show ?thesis
        by (simp add: parse_source_bounded_def resource_reason_def Let_def del: min_less_iff_conj min.absorb3)
    next
      case True
      with inner [OF bytes] chk0 nb show ?thesis by (simp add: parse_source_bounded_def Let_def)
    qed
  qed
qed

lemma kinds_from_Cons:
  assumes "kinds_from n c = k # ks"
  shows "kinds_from (Suc n) c = ks" "tok_kind (cu_tokens c ! n) = k"
proof -
  from assms have lt: "n < length (cu_tokens c)"
    by (metis drop_all kinds_from_def linorder_not_less list.distinct(1) list.simps(8))
  with assms have "tok_kind (cu_tokens c ! n) # kinds_from (Suc n) c = k # ks"
    by (simp add: kinds_from_def Cons_nth_drop_Suc [symmetric])
  then show "kinds_from (Suc n) c = ks" "tok_kind (cu_tokens c ! n) = k" by simp_all
qed

lemma braced_block_spec:
  assumes wf: "parser_wf A p" and w: "braces_ok body"
    and k: "kinds_from (cu_position (ps_cursor p)) (ps_cursor p) = Punct PLBrace # body @ Punct PRBrace # rest"
  shows "returns (recover_braced_block A p) (\<lambda>span p'. cu_halted (ps_cursor p') \<or>
     ps_diagnostics p' = ps_diagnostics p \<and>
     cu_position (ps_cursor p') = cu_position (ps_cursor p) + length body + 2 \<and>
     span = span_cover A (tok_span (cu_tokens (ps_cursor p) ! cu_position (ps_cursor p)))
       (tok_span (cu_tokens (ps_cursor p) ! (cu_position (ps_cursor p) + length body + 1))))"
    (is "returns _ ?Q")
proof -
  let ?c = "ps_cursor p"
  let ?msg = "lit ''expected `{`''"
  from returns_conj [OF expect_punct_spec [OF wf, of PLBrace ?msg] forwardD [OF forward_expect_punct wf]]
  obtain start p1 where e: "expect_punct PLBrace ?msg p = Some (start, p1)" and le1: "parser_le p p1"
    and d: "expect_consumed PLBrace p start p1 \<or> expect_reported PLBrace ?msg p start p1"
    by (rule returnsE) blast
  let ?c1 = "ps_cursor p1"
  have wf1: "cursor_wf ?c1" using parser_le_wf [OF le1 wf] by (rule parser_wf_cursor)
  have ts: "cu_tokens ?c1 = cu_tokens ?c" using le1 by (simp add: parser_le_def cursor_le_def)
  note kind = kinds_from_Cons [OF k]
  have "returns (on_cursor (skip_braces 1 start) p1) (\<lambda>s p2. p2 = p1\<lparr>ps_cursor := ps_cursor p2\<rparr> \<and>
      (cu_halted (ps_cursor p2) \<or> ?Q (span_cover A start s) p2))"
  proof (cases "cu_halted ?c1")
    case True
    from on_cursor_spec [where p = p1 and f = "skip_braces 1 start", OF skip_braces_halted [OF wf1 True]]
    show ?thesis by (rule returns_conseq) blast
  next
    case False
    have "\<not> expect_reported PLBrace ?msg p start p1"
    proof
      assume "expect_reported PLBrace ?msg p start p1"
      then have pos: "cu_position ?c1 = cu_position ?c" and ne: "cursor_kind ?c1 \<noteq> Punct PLBrace"
        by (simp_all add: expect_reported_def)
      from cursor_kind_position [OF wf1 False] pos ts kind(2) ne show False by simp
    qed
    with d have c: "expect_consumed PLBrace p start p1" by blast
    then have pos: "cu_position ?c1 = Suc (cu_position ?c)" and dg: "ps_diagnostics p1 = ps_diagnostics p"
      and st: "start = tok_span (cu_tokens ?c ! cu_position ?c)"
      using False by (simp_all add: expect_consumed_def)
    have "kinds_from (cu_position ?c1) ?c1 = body @ Punct PRBrace # rest"
      using kind(1) pos ts by (simp add: kinds_from_def)
    from on_cursor_spec [where p = p1 and f = "skip_braces 1 start", OF skip_braces_block [OF w wf1 this]]
    show ?thesis
    proof (rule returns_conseq)
      fix s p2
      assume h: "p2 = p1\<lparr>ps_cursor := ps_cursor p2\<rparr> \<and> cursor_le ?c1 (ps_cursor p2) \<and>
        (cu_halted (ps_cursor p2) \<or> cu_position (ps_cursor p2) = cu_position ?c1 + length body + 1 \<and>
         s = tok_span (cu_tokens ?c1 ! (cu_position ?c1 + length body)))"
      then have p2: "p2 = p1\<lparr>ps_cursor := ps_cursor p2\<rparr>" by blast
      from h on_cursor_fields [OF p2] pos dg st ts
      have "cu_halted (ps_cursor p2) \<or> ?Q (span_cover A start s) p2" by auto
      with p2 show "p2 = p1\<lparr>ps_cursor := ps_cursor p2\<rparr> \<and>
        (cu_halted (ps_cursor p2) \<or> ?Q (span_cover A start s) p2)" by blast
    qed
  qed
  then have "returns (do { (s, p) \<leftarrow> on_cursor (skip_braces 1 start) p1; Some (span_cover A start s, p) }) ?Q"
    by (rule returns_bind) auto
  with e show ?thesis by (simp add: recover_braced_block_def)
qed

section \<open>Properties of the parser core\<close>


text \<open>The parser of the witnesses: the text \<open>{a;}\<close>, without a checkpoint, with room for one level.\<close>

definition demo_tokens :: "(nat \<times> nat \<times> nat) token list" where
  "demo_tokens = [\<lparr>tok_kind = Punct PLBrace, tok_span = (0, 0, 1)\<rparr>, \<lparr>tok_kind = Ident, tok_span = (0, 1, 2)\<rparr>,
     \<lparr>tok_kind = Punct PSemi, tok_span = (0, 2, 3)\<rparr>, \<lparr>tok_kind = Punct PRBrace, tok_span = (0, 3, 4)\<rparr>,
     \<lparr>tok_kind = Eof, tok_span = (0, 4, 4)\<rparr>]"

definition demo_budget :: "(nat \<times> nat \<times> nat) body_parse_budget" where
  "demo_budget = \<lparr>bd_limits = \<lparr>max_source_bytes = 9, max_tokens = 9, max_recursion = 1\<rparr>, bd_depth = 0,
     bd_error = None\<rparr>"

definition demo_parser :: "(nat \<times> nat \<times> nat) parser" where
  "demo_parser = initial_parser \<lparr>src_id = 0, src_text = lit ''{a;}''\<rparr> (cursor_new demo_tokens) []
     (Some demo_budget)"

lemma demo_parser_wf: "parser_wf plain_spans demo_parser"
  by (simp add: parser_wf_def demo_parser_def initial_parser_def cursor_new_def cursor_wf_def polls_ok_def
      demo_tokens_def parser_slice_def plain_spans_def str_range_def lit_def uc_def len_utf8_def
      eval_nat_numeral)

text \<open>
  The effect of \<open>expect_punct\<close>, on every branch. Either it consumes exactly the expected
  token, reports nothing, and pushes or pops the delimiter stack; or it consumes nothing and
  reports exactly one diagnostic at the span it returns: the unclosed-delimiter diagnostic
  that blames, and removes, the innermost open delimiter waiting for this closer, and
  otherwise a missing token or, at the end of the file, an unexpected end.
\<close>

theorem expect_punct_effect:
  assumes "parser_wf A p"
  shows "returns (expect_punct q message p) (\<lambda>span p'.
    expect_consumed q p span p' \<or> expect_reported q message p span p')"
  by (rule expect_punct_spec [OF assms])

theorem expect_punct_effect_witness:
  "parser_wf plain_spans demo_parser \<and>
   returns (expect_punct PLBrace (lit ''x'') demo_parser) (\<lambda>span p'.
     expect_consumed PLBrace demo_parser span p' \<or> expect_reported PLBrace (lit ''x'') demo_parser span p')"
  using demo_parser_wf expect_punct_effect [OF demo_parser_wf] by simp

text \<open>
  A missing closer is blamed on its own opener: after an opening bracket and any
  balanced sequence of punctuation, the report of the missing closer names the span of that
  bracket, and the delimiter stack is what it was before the bracket.
\<close>

theorem missing_closer_blames_opener:
  assumes "parser_wf A p" and "matching_close q = Some c" and "balanced (map fst ts)"
  shows "returns (unclosed_or_missing_delimiter c message (note_all ts (note_delimiter_token q s p)))
    (\<lambda>span p'. ps_diagnostics p' = ps_diagnostics p @
        [unclosed_delimiter c span \<lparr>dl_open = q, dl_close = c, dl_span = s\<rparr>] \<and>
      ps_delimiters p' = ps_delimiters p)"
proof -
  let ?p = "note_all ts (note_delimiter_token q s p)"
  have wf: "parser_wf A ?p"
    using assms(1,2) by (simp add: parser_wf_def note_keeps parser_slice_def note_delimiter_token_def)
  have ds: "ps_delimiters ?p = ps_delimiters p @ \<lparr>dl_open = q, dl_close = c, dl_span = s\<rparr> # []"
    using note_all_balanced [OF assms(3) refl] assms(2) by (simp add: note_delimiter_token_def)
  have dg: "ps_diagnostics ?p = ps_diagnostics p"
    using assms(2) by (simp add: note_keeps note_delimiter_token_def)
  show ?thesis
    by (rule returns_conseq [OF unclosed_blames [OF wf ds]]) (simp_all add: dg)
qed

definition demo_parens :: "(punct \<times> nat \<times> nat \<times> nat) list" where
  "demo_parens = [(PLParen, (0, 0, 1)), (PRParen, (0, 1, 2))]"

theorem missing_closer_blames_opener_witness:
  "parser_wf plain_spans demo_parser \<and> balanced (map fst demo_parens) \<and>
   returns (unclosed_or_missing_delimiter PRBrace (lit ''x'')
       (note_all demo_parens (note_delimiter_token PLBrace (0, 0, 1) demo_parser)))
    (\<lambda>span p'. ps_diagnostics p' = ps_diagnostics demo_parser @
        [unclosed_delimiter PRBrace span \<lparr>dl_open = PLBrace, dl_close = PRBrace, dl_span = (0, 0, 1)\<rparr>] \<and>
      ps_delimiters p' = ps_delimiters demo_parser)"
proof -
  have b: "balanced (map fst demo_parens)"
    using balanced_nest [OF _ balanced_Nil balanced_Nil, of PLParen PRParen] by (simp add: demo_parens_def)
  have "matching_close PLBrace = Some PRBrace" by simp
  from missing_closer_blames_opener [OF demo_parser_wf this b] b demo_parser_wf show ?thesis by blast
qed

text \<open>
  C19. Item recovery ends and stops at the next synchronisation point: the end of file, a
  keyword that starts an item, or a closing brace. Only the cursor changes; no token it
  skips is the end of file, and none is a synchronisation token unless the caller
  interrupted the parse on the way.
\<close>

theorem recover_item_synchronises:
  assumes "parser_wf A p"
  shows "returns (recover_item p) (\<lambda>_ p'. p' = p\<lparr>ps_cursor := ps_cursor p'\<rparr> \<and>
    skipped item_sync (ps_cursor p) (ps_cursor p'))"
  unfolding recover_item_def
  by (rule on_cursor_spec) (rule while_bump_spec [OF skip_cond_item parser_wf_cursor [OF assms]])

theorem recover_item_synchronises_witness:
  "parser_wf plain_spans demo_parser \<and> returns (recover_item demo_parser) (\<lambda>_ p'.
     p' = demo_parser\<lparr>ps_cursor := ps_cursor p'\<rparr> \<and> skipped item_sync (ps_cursor demo_parser) (ps_cursor p'))"
  using demo_parser_wf recover_item_synchronises [OF demo_parser_wf] by simp

text \<open>
  Recovery over a braced block: at an opening brace followed by a sequence with balanced
  braces and its closing brace, the cursor ends right behind that closing brace, whatever
  else the block contains, no diagnostic is reported, and the span covers both braces;
  otherwise the caller interrupted the parse.
\<close>

theorem recover_braced_block_skips:
  assumes "parser_wf A p" and "braces_ok body"
    and "kinds_from (cu_position (ps_cursor p)) (ps_cursor p) = Punct PLBrace # body @ Punct PRBrace # rest"
  shows "returns (recover_braced_block A p) (\<lambda>span p'. cu_halted (ps_cursor p') \<or>
     ps_diagnostics p' = ps_diagnostics p \<and>
     cu_position (ps_cursor p') = cu_position (ps_cursor p) + length body + 2 \<and>
     span = span_cover A (tok_span (cu_tokens (ps_cursor p) ! cu_position (ps_cursor p)))
       (tok_span (cu_tokens (ps_cursor p) ! (cu_position (ps_cursor p) + length body + 1))))"
  by (rule braced_block_spec [OF assms])

theorem recover_braced_block_skips_witness:
  "parser_wf plain_spans demo_parser \<and> braces_ok [Ident, Punct PSemi] \<and>
   returns (recover_braced_block plain_spans demo_parser) (\<lambda>span p'. cu_halted (ps_cursor p') \<or>
     ps_diagnostics p' = ps_diagnostics demo_parser \<and> cu_position (ps_cursor p') = 4 \<and> span = (0, 0, 4))"
proof -
  have b: "braces_ok [Ident, Punct PSemi]" by (intro braces_plain braces_Nil) simp_all
  have k: "kinds_from (cu_position (ps_cursor demo_parser)) (ps_cursor demo_parser) =
      Punct PLBrace # [Ident, Punct PSemi] @ Punct PRBrace # [Eof]"
    by (simp add: kinds_from_def demo_parser_def initial_parser_def cursor_new_def demo_tokens_def)
  have c: "cu_position (ps_cursor demo_parser) = 0" "cu_tokens (ps_cursor demo_parser) = demo_tokens"
    "span_cover plain_spans (tok_span (demo_tokens ! 0)) (tok_span (demo_tokens ! 3)) = (0, 0, 4)"
    by (simp_all add: demo_parser_def initial_parser_def cursor_new_def demo_tokens_def plain_spans_def)
  from recover_braced_block_skips [OF demo_parser_wf b k] demo_parser_wf b show ?thesis
    unfolding c using c(3) by (simp add: eval_nat_numeral)
qed

text \<open>
  C25. Comma-separated lists: for every element rule that returns and moves forward, the list
  loop ends on a well-formed parser, with at most one element more than the tokens it
  consumed, at the end of the file, at the terminator, or where no comma follows; and the
  progress guard inside the loop never fires, so the loop equals the one without it.
\<close>

theorem comma_list_terminates:
  assumes "\<And>k. forward A (parse k)" and "parser_wf A p"
  shows "comma_loop q parse vs k p = comma_plain q parse vs k p \<and>
    returns (comma_list q parse k p) (\<lambda>(vs, k') p'. parser_le p p' \<and>
      length vs \<le> Suc (cu_position (ps_cursor p') - cu_position (ps_cursor p)) \<and>
      list_end q (cursor_kind (ps_cursor p')))"
proof -
  have e: "element_rule A parse" by unfold_locales (rule assms(1))
  show ?thesis
    using element_rule.comma_loop_total [OF e assms(2)] element_rule.comma_list_total [OF e assms(2)] by blast
qed

theorem comma_list_terminates_witness:
  "(\<forall>k. forward plain_spans (name_element plain_spans (lit ''x'') k)) \<and> parser_wf plain_spans demo_parser \<and>
   comma_loop PRBrace (name_element plain_spans (lit ''x'')) [] () demo_parser =
     comma_plain PRBrace (name_element plain_spans (lit ''x'')) [] () demo_parser"
  using comma_list_terminates [where parse = "name_element plain_spans (lit ''x'')",
      OF name_list.element_forward demo_parser_wf] name_list.element_forward demo_parser_wf by blast

text \<open>
  C20. The recursion budget is exact. Nesting a rule \<open>n\<close> levels deep from a depth \<open>d\<close> within
  the limit: when \<open>d + n\<close> is within the limit, the nested rule behaves as the rule itself run
  at depth \<open>d + n\<close>, with the depth restored afterwards; when it is not, the whole parse is
  given up with exactly one recursion error that names the limit, no other diagnostic, the
  cursor at the end of the file and the depth restored, whatever the rule does.
\<close>

theorem recursion_budget_exact:
  assumes "forward A rule" and "parser_wf A p" and "ps_budget p = Some b" and "bd_error b = None"
    and "bd_depth b \<le> max_recursion (bd_limits b)"
  shows "if bd_depth b + n \<le> max_recursion (bd_limits b)
    then (with_body_recursion invalid ^^ n) rule p =
      map_option (\<lambda>(x, p'). (x, leave n p')) (rule (enter n p))
    else returns ((with_body_recursion invalid ^^ n) rule p) (\<lambda>x p'. parser_le p p' \<and> at_end p' \<and>
      ps_diagnostics p' = ps_diagnostics p \<and>
      (\<exists>span. x = invalid span \<and> budget_error p' =
         Some \<lparr>re_kind = Recursion, re_limit = max_recursion (bd_limits b), re_span = span\<rparr>))"
  using nested_fits [OF assms(1-4)] nested_refused [OF assms(1-5)] by (simp add: not_le)

theorem recursion_budget_exact_witness:
  "parser_wf plain_spans demo_parser \<and>
   returns ((with_body_recursion (\<lambda>_. None) ^^ 2) (\<lambda>p. Some (Some (7 :: nat), p)) demo_parser) (\<lambda>x p'. x = None \<and>
     at_end p' \<and> budget_error p' \<noteq> None)"
proof -
  have f: "forward plain_spans (\<lambda>p. Some (Some (7 :: nat), p))" by (rule forward_pure) simp
  have b: "ps_budget demo_parser = Some demo_budget" "bd_error demo_budget = None"
    "bd_depth demo_budget \<le> max_recursion (bd_limits demo_budget)"
    "\<not> bd_depth demo_budget + 2 \<le> max_recursion (bd_limits demo_budget)"
    by (simp_all add: demo_parser_def initial_parser_def demo_budget_def)
  have "returns ((with_body_recursion (\<lambda>_. None) ^^ 2) (\<lambda>p. Some (Some (7 :: nat), p)) demo_parser)
      (\<lambda>x p'. x = None \<and> at_end p' \<and> budget_error p' \<noteq> None)"
    using recursion_budget_exact [OF f demo_parser_wf b(1-3), where n = 2 and invalid = "\<lambda>_. None"] b(4)
    by (simp only: if_False) (erule returns_conseq, auto)
  with demo_parser_wf show ?thesis by simp
qed

text \<open>
  C26. Bounded parsing, for every grammar rule that returns and moves forward and every
  behaviour of the caller's checkpoint: it returns without a panic. An interruption carries
  the error of the first failed poll. A resource error names a limit the source exceeds (its
  bytes, its tokens, or a recursion limit above the supported maximum) or is the budget error
  of the rule. A parse is returned only when the source is within all limits, every poll made
  succeeded, and the rule ended without a budget error; it holds the lexer's tokens.
\<close>

theorem parse_source_bounded_outcome:
  assumes "forward A rule" and "span_laws A"
  shows "\<exists>r. parse_source_bounded chk u A src limits rule = Some r \<and> bounded_ok chk u A src limits rule r"
  by (rule parse_source_bounded_spec [OF assms])

theorem parse_source_bounded_outcome_witness:
  "forward plain_spans (parse_path plain_spans) \<and> span_laws plain_spans \<and>
   (\<exists>r. parse_source_bounded (\<lambda>i. if i < 40 then None else Some ()) ascii_only plain_spans
       \<lparr>src_id = 0, src_text = lit ''a.b''\<rparr> default_limits (parse_path plain_spans) = Some r \<and>
     bounded_ok (\<lambda>i. if i < 40 then None else Some ()) ascii_only plain_spans
       \<lparr>src_id = 0, src_text = lit ''a.b''\<rparr> default_limits (parse_path plain_spans) r)"
proof -
  have h: "span_laws plain_spans" by (simp add: span_laws_def plain_spans_def)
  show ?thesis
    using parse_source_bounded_outcome [OF forward_parse_path h] forward_parse_path h by blast
qed

text \<open>
  The obsolete-keyword check never panics and reports exactly the identifiers spelt
  \<open>fun\<close>, each once: the byte ranges reported are those of the occurrences of \<open>fun\<close> in the
  source with no identifier character directly before or after that are the range of an
  identifier token, so occurrences in comments and literals are not reported.
\<close>

theorem obsolete_fun_exact:
  "\<exists>rs. obsolete_fun_diagnostics u A src ts =
       Some (map (\<lambda>(a, b). obsolete_fun_diagnostic (span_new A (src_id src) a b)) rs) \<and> distinct rs \<and>
     set rs = {(a, b). keyword_at u (lit ''fun'') (src_text src) a b \<and>
       (\<exists>t. t \<in> set (ts_tokens ts) \<and> tok_kind t = Ident \<and> range_start A (tok_span t) = a \<and>
          range_end A (tok_span t) = b)}"
  using obsolete_fun_diagnostics_spec [of u A src ts] by (simp add: Bex_def)

end
