(* ===== verification/Etas_Lattice.thy ===== *)
theory Etas_Lattice
  imports Etas_Prelude
begin

text \<open>
  The contract of \<open>etas_utils::JoinSemiLattice\<close> as the front end relies on it: \<open>bottom()\<close> and
  \<open>join_assign\<close>, which updates its receiver and answers whether it changed. An implementation
  is a function from the receiver and the argument to the new receiver and the answer. The
  laws are asked on a carrier, because several domains of the front end satisfy them only on
  the values their operations build.
\<close>

locale join_domain =
  fixes carrier :: "'a \<Rightarrow> bool" and dbot :: 'a and jn :: "'a \<Rightarrow> 'a \<Rightarrow> 'a \<times> bool"
  assumes dbot_carrier: "carrier dbot"
    and join_carrier: "carrier a \<Longrightarrow> carrier b \<Longrightarrow> carrier (fst (jn a b))"
    and join_idem: "carrier a \<Longrightarrow> fst (jn a a) = a"
    and join_comm: "carrier a \<Longrightarrow> carrier b \<Longrightarrow> fst (jn a b) = fst (jn b a)"
    and join_assoc: "carrier a \<Longrightarrow> carrier b \<Longrightarrow> carrier c \<Longrightarrow>
      fst (jn (fst (jn a b)) c) = fst (jn a (fst (jn b c)))"
    and join_bot: "carrier a \<Longrightarrow> fst (jn dbot a) = a"
    and join_changed: "carrier a \<Longrightarrow> carrier b \<Longrightarrow> snd (jn a b) \<longleftrightarrow> fst (jn a b) \<noteq> a"
begin

definition jsup :: "'a \<Rightarrow> 'a \<Rightarrow> 'a" where
  "jsup a b = fst (jn a b)"

definition jle :: "'a \<Rightarrow> 'a \<Rightarrow> bool" where
  "jle a b \<longleftrightarrow> jsup a b = b"

lemma jsup_carrier: "carrier a \<Longrightarrow> carrier b \<Longrightarrow> carrier (jsup a b)"
  by (simp add: jsup_def join_carrier)

lemma jsup_idem: "carrier a \<Longrightarrow> jsup a a = a"
  by (simp add: jsup_def join_idem)

lemma jsup_comm: "carrier a \<Longrightarrow> carrier b \<Longrightarrow> jsup a b = jsup b a"
  by (simp add: jsup_def join_comm)

lemma jsup_assoc: "carrier a \<Longrightarrow> carrier b \<Longrightarrow> carrier c \<Longrightarrow> jsup (jsup a b) c = jsup a (jsup b c)"
  by (simp add: jsup_def join_assoc)

lemma jsup_left_comm:
  "carrier a \<Longrightarrow> carrier b \<Longrightarrow> carrier c \<Longrightarrow> jsup a (jsup b c) = jsup b (jsup a c)"
  by (metis jsup_assoc jsup_carrier jsup_comm)

lemma jsup_bot: "carrier a \<Longrightarrow> jsup dbot a = a" "carrier a \<Longrightarrow> jsup a dbot = a"
  by (simp_all add: jsup_def join_bot, metis dbot_carrier join_bot join_comm)

lemma jle_refl: "carrier a \<Longrightarrow> jle a a"
  by (simp add: jle_def jsup_idem)

lemma jle_antisym: "carrier a \<Longrightarrow> carrier b \<Longrightarrow> jle a b \<Longrightarrow> jle b a \<Longrightarrow> a = b"
  by (metis jle_def jsup_comm)

lemma jle_trans: "carrier a \<Longrightarrow> carrier b \<Longrightarrow> carrier c \<Longrightarrow> jle a b \<Longrightarrow> jle b c \<Longrightarrow> jle a c"
  by (metis jle_def jsup_assoc)

lemma jle_bot: "carrier a \<Longrightarrow> jle dbot a"
  by (simp add: jle_def jsup_bot)

lemma jle_jsup: "carrier a \<Longrightarrow> carrier b \<Longrightarrow> jle a (jsup a b)" "carrier a \<Longrightarrow> carrier b \<Longrightarrow> jle b (jsup a b)"
  by (simp_all add: jle_def, metis jsup_assoc jsup_idem, metis jsup_comm jsup_carrier jsup_assoc jsup_idem)

lemma jsup_least:
  "carrier a \<Longrightarrow> carrier b \<Longrightarrow> carrier c \<Longrightarrow> jle a c \<Longrightarrow> jle b c \<Longrightarrow> jle (jsup a b) c"
  by (metis jle_def jsup_assoc)

text \<open>Joining a whole collection into a value, in any order.\<close>

definition join_all :: "'a list \<Rightarrow> 'a \<Rightarrow> 'a" where
  "join_all xs a = fold (\<lambda>x acc. jsup acc x) xs a"

lemma join_all_carrier: "carrier a \<Longrightarrow> list_all carrier xs \<Longrightarrow> carrier (join_all xs a)"
  by (induction xs arbitrary: a) (auto simp: join_all_def jsup_carrier)

lemma join_all_jsup:
  "carrier a \<Longrightarrow> carrier b \<Longrightarrow> list_all carrier xs \<Longrightarrow> join_all xs (jsup a b) = jsup (join_all xs a) b"
proof (induction xs arbitrary: a)
  case (Cons x xs)
  then have "jsup (jsup a b) x = jsup (jsup a x) b" by (auto simp: jsup_assoc) (metis jsup_comm)
  with Cons show ?case by (simp add: join_all_def jsup_carrier)
qed (simp add: join_all_def)

lemma join_all_least:
  assumes "carrier a" "list_all carrier xs" "carrier c" "jle a c" "\<And>x. x \<in> set xs \<Longrightarrow> jle x c"
  shows "jle (join_all xs a) c"
  using assms
proof (induction xs arbitrary: a)
  case (Cons x xs)
  then show ?case by (auto simp: join_all_def intro: jsup_least jsup_carrier)
qed (simp add: join_all_def)

lemma join_all_upper:
  assumes "carrier a" "list_all carrier xs"
  shows "jle a (join_all xs a) \<and> (\<forall>x \<in> set xs. jle x (join_all xs a))"
  using assms
proof (induction xs arbitrary: a)
  case Nil
  then show ?case by (simp add: join_all_def jle_refl)
next
  case (Cons x xs)
  then have IH: "jle (jsup a x) (join_all xs (jsup a x))" "\<forall>y \<in> set xs. jle y (join_all xs (jsup a x))"
    by (auto simp: jsup_carrier)
  have c: "carrier (join_all xs (jsup a x))" "carrier a" "carrier x" "carrier (jsup a x)"
    using Cons.prems by (auto intro: join_all_carrier jsup_carrier)
  have eq: "join_all (x # xs) a = join_all xs (jsup a x)" by (simp add: join_all_def)
  show ?case
    unfolding eq using IH c jle_trans [OF c(2,4,1)] jle_trans [OF c(3,4,1)] jle_jsup [OF c(2,3)] by auto
qed

lemma join_all_perm:
  assumes "carrier a" "list_all carrier xs" "set ys = set xs"
  shows "join_all ys a = join_all xs a"
proof -
  have ys: "list_all carrier ys" using assms by (simp add: list_all_iff)
  have "jle (join_all ys a) (join_all xs a)" "jle (join_all xs a) (join_all ys a)"
    using assms ys join_all_upper [OF assms(1,2)] join_all_upper [OF assms(1) ys]
    by (auto intro!: join_all_least join_all_carrier)
  with jle_antisym join_all_carrier assms ys show ?thesis by blast
qed

end

text \<open>A chain of joins that reports no change is a fixpoint.\<close>

lemma join_domain_unchanged:
  assumes "join_domain carrier dbot jn" "carrier a" "carrier b" "\<not> snd (jn a b)"
  shows "fst (jn a b) = a"
  using join_domain.join_changed [OF assms(1-3)] assms(4) by blast

end
