(* ===== verification/Etas_Control.thy ===== *)
theory Etas_Control
  imports Etas_Lattice
begin

text \<open>
  The abstract control state of the intraprocedural analysis
  (\<open>etas_hir_analysis/src/intraprocedural/control.rs\<close>): for each way to leave a program
  fragment, the joined state of the executions that leave it that way, or none. The domain of
  the states is a parameter: its \<open>join_assign\<close> is the argument \<open>jn\<close>, its \<open>bottom()\<close> the
  argument \<open>dbot\<close>.
\<close>

section \<open>State and operations\<close>

record 'd control =
  ct_normal :: "'d option"
  ct_returned :: "'d option"
  ct_broken :: "'d option"
  ct_continued :: "'d option"
  ct_resumed :: "'d option"
  ct_finished :: "'d option"
  ct_errored :: "'d option"

definition control_bottom :: "'d control" where
  "control_bottom = \<lparr>ct_normal = None, ct_returned = None, ct_broken = None, ct_continued = None,
     ct_resumed = None, ct_finished = None, ct_errored = None\<rparr>"

definition control_normal :: "'d \<Rightarrow> 'd control" where
  "control_normal s = control_bottom\<lparr>ct_normal := Some s\<rparr>"

definition control_returning :: "'d \<Rightarrow> 'd control" where
  "control_returning s = control_bottom\<lparr>ct_returned := Some s\<rparr>"

definition control_breaking :: "'d \<Rightarrow> 'd control" where
  "control_breaking s = control_bottom\<lparr>ct_broken := Some s\<rparr>"

definition control_continuing :: "'d \<Rightarrow> 'd control" where
  "control_continuing s = control_bottom\<lparr>ct_continued := Some s\<rparr>"

definition control_resuming :: "'d \<Rightarrow> 'd control" where
  "control_resuming s = control_bottom\<lparr>ct_resumed := Some s\<rparr>"

definition control_finishing :: "'d \<Rightarrow> 'd control" where
  "control_finishing s = control_bottom\<lparr>ct_finished := Some s\<rparr>"

definition control_error :: "'d \<Rightarrow> 'd control" where
  "control_error s = control_bottom\<lparr>ct_errored := Some s\<rparr>"

definition take_normal_state :: "'d control \<Rightarrow> 'd option \<times> 'd control" where
  "take_normal_state c = (ct_normal c, c\<lparr>ct_normal := None\<rparr>)"

definition take_error_state :: "'d control \<Rightarrow> 'd option \<times> 'd control" where
  "take_error_state c = (ct_errored c, c\<lparr>ct_errored := None\<rparr>)"

definition control_is_empty :: "'d control \<Rightarrow> bool" where
  "control_is_empty c \<longleftrightarrow> ct_normal c = None \<and> ct_returned c = None \<and> ct_broken c = None \<and>
     ct_continued c = None \<and> ct_resumed c = None \<and> ct_finished c = None \<and> ct_errored c = None"

fun join_slot :: "('d \<Rightarrow> 'd \<Rightarrow> 'd \<times> bool) \<Rightarrow> 'd option \<Rightarrow> 'd option \<Rightarrow> 'd option \<times> bool" where
  "join_slot jn slot None = (slot, False)"
| "join_slot jn (Some current) (Some other) = (case jn current other of (d, ch) \<Rightarrow> (Some d, ch))"
| "join_slot jn None (Some other) = (Some other, True)"

fun join_state :: "('d \<Rightarrow> 'd \<Rightarrow> 'd \<times> bool) \<Rightarrow> 'd option \<Rightarrow> 'd \<Rightarrow> 'd option \<times> bool" where
  "join_state jn (Some current) other = (case jn current other of (d, ch) \<Rightarrow> (Some d, ch))"
| "join_state jn None other = (Some other, True)"

definition control_join_assign ::
    "('d \<Rightarrow> 'd \<Rightarrow> 'd \<times> bool) \<Rightarrow> 'd control \<Rightarrow> 'd control \<Rightarrow> 'd control \<times> bool" where
  "control_join_assign jn c o' =
     (let (n, c1) = join_slot jn (ct_normal c) (ct_normal o');
          (r, c2) = join_slot jn (ct_returned c) (ct_returned o');
          (b, c3) = join_slot jn (ct_broken c) (ct_broken o');
          (k, c4) = join_slot jn (ct_continued c) (ct_continued o');
          (s, c5) = join_slot jn (ct_resumed c) (ct_resumed o');
          (f, c6) = join_slot jn (ct_finished c) (ct_finished o');
          (e, c7) = join_slot jn (ct_errored c) (ct_errored o')
      in (\<lparr>ct_normal = n, ct_returned = r, ct_broken = b, ct_continued = k, ct_resumed = s,
            ct_finished = f, ct_errored = e\<rparr>, c1 \<or> c2 \<or> c3 \<or> c4 \<or> c5 \<or> c6 \<or> c7))"

definition join_normal :: "('d \<Rightarrow> 'd \<Rightarrow> 'd \<times> bool) \<Rightarrow> 'd \<Rightarrow> 'd control \<Rightarrow> 'd control \<times> bool" where
  "join_normal jn s c = (case join_state jn (ct_normal c) s of (d, ch) \<Rightarrow> (c\<lparr>ct_normal := d\<rparr>, ch))"

definition join_return :: "('d \<Rightarrow> 'd \<Rightarrow> 'd \<times> bool) \<Rightarrow> 'd \<Rightarrow> 'd control \<Rightarrow> 'd control \<times> bool" where
  "join_return jn s c = (case join_state jn (ct_returned c) s of (d, ch) \<Rightarrow> (c\<lparr>ct_returned := d\<rparr>, ch))"

definition join_break :: "('d \<Rightarrow> 'd \<Rightarrow> 'd \<times> bool) \<Rightarrow> 'd \<Rightarrow> 'd control \<Rightarrow> 'd control \<times> bool" where
  "join_break jn s c = (case join_state jn (ct_broken c) s of (d, ch) \<Rightarrow> (c\<lparr>ct_broken := d\<rparr>, ch))"

definition join_continue :: "('d \<Rightarrow> 'd \<Rightarrow> 'd \<times> bool) \<Rightarrow> 'd \<Rightarrow> 'd control \<Rightarrow> 'd control \<times> bool" where
  "join_continue jn s c = (case join_state jn (ct_continued c) s of (d, ch) \<Rightarrow> (c\<lparr>ct_continued := d\<rparr>, ch))"

definition join_resume :: "('d \<Rightarrow> 'd \<Rightarrow> 'd \<times> bool) \<Rightarrow> 'd \<Rightarrow> 'd control \<Rightarrow> 'd control \<times> bool" where
  "join_resume jn s c = (case join_state jn (ct_resumed c) s of (d, ch) \<Rightarrow> (c\<lparr>ct_resumed := d\<rparr>, ch))"

definition join_finish :: "('d \<Rightarrow> 'd \<Rightarrow> 'd \<times> bool) \<Rightarrow> 'd \<Rightarrow> 'd control \<Rightarrow> 'd control \<times> bool" where
  "join_finish jn s c = (case join_state jn (ct_finished c) s of (d, ch) \<Rightarrow> (c\<lparr>ct_finished := d\<rparr>, ch))"

definition join_error :: "('d \<Rightarrow> 'd \<Rightarrow> 'd \<times> bool) \<Rightarrow> 'd \<Rightarrow> 'd control \<Rightarrow> 'd control \<times> bool" where
  "join_error jn s c = (case join_state jn (ct_errored c) s of (d, ch) \<Rightarrow> (c\<lparr>ct_errored := d\<rparr>, ch))"

definition with_normal_processed ::
    "('d \<Rightarrow> 'd \<Rightarrow> 'd \<times> bool) \<Rightarrow> ('d \<Rightarrow> 'd control) \<Rightarrow> 'd control \<Rightarrow> 'd control" where
  "with_normal_processed jn f c =
     (case take_normal_state c of
        (None, c) \<Rightarrow> c
      | (Some normal, c) \<Rightarrow> fst (control_join_assign jn c (f normal)))"

definition try_with_normal_processed ::
    "('d \<Rightarrow> 'd \<Rightarrow> 'd \<times> bool) \<Rightarrow> ('d \<Rightarrow> 'e + 'd control) \<Rightarrow> 'd control \<Rightarrow> 'e + 'd control" where
  "try_with_normal_processed jn f c =
     (case take_normal_state c of
        (None, c) \<Rightarrow> Inr c
      | (Some normal, c) \<Rightarrow>
          (case f normal of Inl e \<Rightarrow> Inl e | Inr r \<Rightarrow> Inr (fst (control_join_assign jn c r))))"

definition map_states :: "('d \<Rightarrow> 'd) \<Rightarrow> 'd control \<Rightarrow> 'd control" where
  "map_states f c = \<lparr>ct_normal = map_option f (ct_normal c), ct_returned = map_option f (ct_returned c),
     ct_broken = map_option f (ct_broken c), ct_continued = map_option f (ct_continued c),
     ct_resumed = map_option f (ct_resumed c), ct_finished = map_option f (ct_finished c),
     ct_errored = map_option f (ct_errored c)\<rparr>"

definition absorb :: "('d \<Rightarrow> 'd \<Rightarrow> 'd \<times> bool) \<Rightarrow> 'd option \<Rightarrow> 'd \<Rightarrow> 'd" where
  "absorb jn slot d = (case slot of None \<Rightarrow> d | Some s \<Rightarrow> fst (jn d s))"

definition into_joined_domain :: "('d \<Rightarrow> 'd \<Rightarrow> 'd \<times> bool) \<Rightarrow> 'd \<Rightarrow> 'd control \<Rightarrow> 'd" where
  "into_joined_domain jn dbot c =
     absorb jn (ct_errored c) (absorb jn (ct_finished c) (absorb jn (ct_resumed c)
       (absorb jn (ct_continued c) (absorb jn (ct_broken c) (absorb jn (ct_returned c)
         (absorb jn (ct_normal c) dbot))))))"

section \<open>The laws, over any domain that satisfies the contract\<close>

definition slots :: "'d control \<Rightarrow> 'd option list" where
  "slots c = [ct_normal c, ct_returned c, ct_broken c, ct_continued c, ct_resumed c, ct_finished c,
     ct_errored c]"

definition control_carrier :: "('d \<Rightarrow> bool) \<Rightarrow> 'd control \<Rightarrow> bool" where
  "control_carrier carrier c \<longleftrightarrow> list_all (pred_option carrier) (slots c)"

lemma control_eqI: "slots c = slots d \<Longrightarrow> c = (d :: 'd control)"
  by (cases c; cases d) (simp add: slots_def)

lemma control_carrier_simps:
  "control_carrier carrier c \<longleftrightarrow> pred_option carrier (ct_normal c) \<and> pred_option carrier (ct_returned c) \<and>
     pred_option carrier (ct_broken c) \<and> pred_option carrier (ct_continued c) \<and>
     pred_option carrier (ct_resumed c) \<and> pred_option carrier (ct_finished c) \<and>
     pred_option carrier (ct_errored c)"
  by (auto simp: control_carrier_def slots_def)

lemma control_join_fields:
  "ct_normal (fst (control_join_assign jn c d)) = fst (join_slot jn (ct_normal c) (ct_normal d))"
  "ct_returned (fst (control_join_assign jn c d)) = fst (join_slot jn (ct_returned c) (ct_returned d))"
  "ct_broken (fst (control_join_assign jn c d)) = fst (join_slot jn (ct_broken c) (ct_broken d))"
  "ct_continued (fst (control_join_assign jn c d)) = fst (join_slot jn (ct_continued c) (ct_continued d))"
  "ct_resumed (fst (control_join_assign jn c d)) = fst (join_slot jn (ct_resumed c) (ct_resumed d))"
  "ct_finished (fst (control_join_assign jn c d)) = fst (join_slot jn (ct_finished c) (ct_finished d))"
  "ct_errored (fst (control_join_assign jn c d)) = fst (join_slot jn (ct_errored c) (ct_errored d))"
  by (simp_all add: control_join_assign_def split: prod.splits)

lemma control_join_snd:
  "snd (control_join_assign jn c d) \<longleftrightarrow> snd (join_slot jn (ct_normal c) (ct_normal d)) \<or>
     snd (join_slot jn (ct_returned c) (ct_returned d)) \<or> snd (join_slot jn (ct_broken c) (ct_broken d)) \<or>
     snd (join_slot jn (ct_continued c) (ct_continued d)) \<or> snd (join_slot jn (ct_resumed c) (ct_resumed d)) \<or>
     snd (join_slot jn (ct_finished c) (ct_finished d)) \<or> snd (join_slot jn (ct_errored c) (ct_errored d))"
  by (simp add: control_join_assign_def split: prod.splits)

lemma control_eq_iff:
  "(c :: 'd control) = d \<longleftrightarrow> ct_normal c = ct_normal d \<and> ct_returned c = ct_returned d \<and>
     ct_broken c = ct_broken d \<and> ct_continued c = ct_continued d \<and> ct_resumed c = ct_resumed d \<and>
     ct_finished c = ct_finished d \<and> ct_errored c = ct_errored d"
  by (cases c; cases d) auto

context join_domain
begin

lemma slot_fst: "fst (join_slot jn (Some a) (Some b)) = Some (fst (jn a b))"
  by (simp split: prod.splits)

lemma slot_carrier:
  "pred_option carrier a \<Longrightarrow> pred_option carrier b \<Longrightarrow> pred_option carrier (fst (join_slot jn a b))"
  by (cases a; cases b) (auto simp: slot_fst join_carrier simp del: join_slot.simps(2))

lemma slot_idem: "pred_option carrier a \<Longrightarrow> fst (join_slot jn a a) = a"
  by (cases a) (auto simp: slot_fst join_idem simp del: join_slot.simps(2))

lemma slot_comm:
  "pred_option carrier a \<Longrightarrow> pred_option carrier b \<Longrightarrow> fst (join_slot jn a b) = fst (join_slot jn b a)"
  by (cases a; cases b) (auto simp: slot_fst join_comm simp del: join_slot.simps(2))

lemma slot_assoc:
  "pred_option carrier a \<Longrightarrow> pred_option carrier b \<Longrightarrow> pred_option carrier c \<Longrightarrow>
     fst (join_slot jn (fst (join_slot jn a b)) c) = fst (join_slot jn a (fst (join_slot jn b c)))"
  by (cases a; cases b; cases c) (auto simp: slot_fst join_assoc simp del: join_slot.simps(2))

lemma slot_changed:
  "pred_option carrier a \<Longrightarrow> pred_option carrier b \<Longrightarrow>
     snd (join_slot jn a b) \<longleftrightarrow> fst (join_slot jn a b) \<noteq> a"
  using join_changed by (cases a; cases b) (auto split: prod.splits, metis fst_conv snd_conv, metis fst_conv snd_conv)

lemmas control_laws = control_carrier_simps control_join_fields control_eq_iff

lemma control_join_domain: "join_domain (control_carrier carrier) control_bottom (control_join_assign jn)"
proof
  show "control_carrier carrier control_bottom"
    by (simp add: control_carrier_simps control_bottom_def)
next
  fix a b c :: "'a control"
  assume a: "control_carrier carrier a"
  show "fst (control_join_assign jn a a) = a"
    using a by (simp add: control_laws slot_idem)
  show "fst (control_join_assign jn control_bottom a) = a"
  proof -
    have "fst (join_slot jn None s) = s" for s by (cases s) auto
    then show ?thesis by (simp add: control_laws control_bottom_def)
  qed
  assume b: "control_carrier carrier b"
  show "control_carrier carrier (fst (control_join_assign jn a b))"
    using a b by (simp add: control_laws slot_carrier)
  show "fst (control_join_assign jn a b) = fst (control_join_assign jn b a)"
    using a b by (simp add: control_laws slot_comm)
  show "snd (control_join_assign jn a b) \<longleftrightarrow> fst (control_join_assign jn a b) \<noteq> a"
    using a b by (simp add: control_laws control_join_snd slot_changed)
  assume c: "control_carrier carrier c"
  show "fst (control_join_assign jn (fst (control_join_assign jn a b)) c) =
      fst (control_join_assign jn a (fst (control_join_assign jn b c)))"
    using a b c by (simp add: control_laws slot_assoc)
qed

text \<open>Sequencing is associative, with the normal exit as its unit.\<close>

lemma slot_None: "fst (join_slot jn None s) = s"
  by (cases s) auto

lemma sequence_assoc:
  assumes "control_carrier carrier c" and f: "\<And>s. carrier s \<Longrightarrow> control_carrier carrier (f s)"
    and g: "\<And>s. carrier s \<Longrightarrow> control_carrier carrier (g s)"
  shows "with_normal_processed jn g (with_normal_processed jn f c) =
    with_normal_processed jn (\<lambda>s. with_normal_processed jn g (f s)) c"
proof (cases "ct_normal c")
  case None
  then show ?thesis by (simp add: with_normal_processed_def take_normal_state_def)
next
  case (Some s)
  with assms(1) have s: "carrier s" by (simp add: control_carrier_simps)
  note fs = f [OF s]
  show ?thesis
  proof (cases "ct_normal (f s)")
    case None
    then show ?thesis
      by (simp add: Some with_normal_processed_def take_normal_state_def control_laws slot_None)
  next
    case (Some t)
    with fs have t: "carrier t" by (simp add: control_carrier_simps)
    note gt = g [OF t]
    show ?thesis
      using assms(1) fs gt Some \<open>ct_normal c = _\<close>
      by (simp add: with_normal_processed_def take_normal_state_def control_laws slot_None slot_assoc)
  qed
qed

lemma sequence_unit:
  "with_normal_processed jn f (control_normal s) = f s"
  "with_normal_processed jn control_normal c = c"
proof -
  have [simp]: "fst (join_slot jn s None) = s" for s by (cases s) auto
  show "with_normal_processed jn f (control_normal s) = f s"
    by (simp add: with_normal_processed_def take_normal_state_def control_laws control_normal_def
        control_bottom_def slot_None)
  show "with_normal_processed jn control_normal c = c"
    by (cases "ct_normal c")
      (simp_all add: with_normal_processed_def take_normal_state_def control_laws control_normal_def
        control_bottom_def slot_None)
qed

text \<open>The joined domain of a join is the join of the joined domains.\<close>

lemma absorb_carrier:
  "pred_option carrier s \<Longrightarrow> carrier d \<Longrightarrow> carrier (absorb jn s d)"
  by (cases s) (auto simp: absorb_def join_carrier)

lemma absorb_jsup:
  assumes "pred_option carrier s" "pred_option carrier t" "carrier d" "carrier e"
  shows "absorb jn (fst (join_slot jn s t)) (jsup d e) = jsup (absorb jn s d) (absorb jn t e)"
proof -
  note ac = jsup_assoc jsup_comm jsup_left_comm
  show ?thesis
  proof (cases s; cases t)
    fix a b assume s: "s = Some a" and t: "t = Some b"
    with assms have c: "carrier a" "carrier b" by simp_all
    have "jsup (jsup d e) (jsup a b) = jsup (jsup d a) (jsup e b)"
      using assms c by (metis jsup_assoc jsup_carrier jsup_left_comm)
    then show ?thesis by (simp add: s t absorb_def jsup_def slot_fst del: join_slot.simps(2))
  next
    fix a assume s: "s = Some a" and t: "t = None"
    with assms have "carrier a" by simp
    then have "jsup (jsup d e) a = jsup (jsup d a) e" using assms by (metis jsup_assoc jsup_comm)
    then show ?thesis by (simp add: s t absorb_def jsup_def)
  next
    fix b assume s: "s = None" and t: "t = Some b"
    with assms have "carrier b" by simp
    then have "jsup (jsup d e) b = jsup d (jsup e b)" using assms by (metis jsup_assoc)
    then show ?thesis by (simp add: s t absorb_def jsup_def)
  qed (simp add: absorb_def)
qed

lemma into_joined_hom:
  assumes "control_carrier carrier c" "control_carrier carrier d"
  shows "into_joined_domain jn dbot (fst (control_join_assign jn c d)) =
    jsup (into_joined_domain jn dbot c) (into_joined_domain jn dbot d)"
proof -
  have b: "dbot = jsup dbot dbot" by (simp add: jsup_idem dbot_carrier)
  show ?thesis
    unfolding into_joined_domain_def control_join_fields
    apply (subst (1) b)
    using assms by (simp add: absorb_jsup absorb_carrier control_carrier_simps dbot_carrier)
qed

end

end
