(* ===== verification/Etas_Place.thy ===== *)
theory Etas_Place
  imports Etas_Prelude "HOL-Library.List_Lexorder"
begin

text \<open>
  Names of the alias analysis (\<open>etas_hir_analysis/src/unit/hir_unit.rs\<close>,
  \<open>alias/place.rs\<close>, \<open>alias/context.rs\<close>, the variables of \<open>alias/solver/mod.rs\<close>): semantic
  units, alias targets, projections, places, call strings and solver variables, with the
  order that \<open>derive(Ord)\<close> gives them. Identifiers of \<open>etas_hir\<close> are indices.
\<close>

section \<open>Semantic units, targets and places\<close>

type_synonym item_id = nat
type_synonym expr_id = nat
type_synonym block_id = nat
type_synonym symbol_id = nat
type_synonym handler_arm_id = nat

datatype anonymous_flow_body = BodyExpr expr_id | BodyBlock block_id

datatype semantic_unit =
    UItem item_id
  | UAnonymousFlow item_id expr_id anonymous_flow_body
  | UHandlerArm handler_arm_id
  | UTopLevelLet item_id

fun unit_owner :: "semantic_unit \<Rightarrow> item_id option" where
  "unit_owner (UItem i) = Some i"
| "unit_owner (UTopLevelLet i) = Some i"
| "unit_owner (UAnonymousFlow i e b) = Some i"
| "unit_owner (UHandlerArm a) = None"

datatype allocation_kind =
  AkRecord | AkTuple | AkArray | AkList | AkMap | AkSet | AkRange | AkLambda | AkHandler | AkUnknown

datatype alias_target =
    TSymbol symbol_id
  | TParam semantic_unit nat
  | TReturn semantic_unit
  | TAllocation "semantic_unit option" expr_id
  | TAllocationKind "semantic_unit option" allocation_kind
  | TCaptured semantic_unit symbol_id
  | TTopLevel item_id
  | TResourceHandle symbol_id
  | TMemoryPlace "utext list"
  | TExternal
  | TUnknown

datatype projection =
  PrField utext | PrCollapsedField | PrIndex | PrConstIndex utext | PrMapKey utext | PrDeref

datatype place = Place (pl_root: alias_target) (pl_projections: "projection list")

definition place_new :: "alias_target \<Rightarrow> place" where
  "place_new r = Place r []"

definition place_project :: "place \<Rightarrow> projection \<Rightarrow> nat \<Rightarrow> place option" where
  "place_project p pr max_depth =
     (if max_depth \<le> length (pl_projections p) then None
      else Some (Place (pl_root p) (pl_projections p @ [pr])))"

datatype alias_var =
  VSymbol symbol_id | VExpr expr_id | VPlace place | VReturn semantic_unit | VSynthetic nat

section \<open>Call strings\<close>

definition MAX_CALL_STRING :: nat where
  "MAX_CALL_STRING = 4"

record alias_context =
  ac_len :: nat
  ac_calls :: "expr_id option list"

definition context_empty :: alias_context where
  "context_empty = \<lparr>ac_len = 0, ac_calls = replicate MAX_CALL_STRING None\<rparr>"

definition from_calls :: "expr_id list \<Rightarrow> alias_context" where
  "from_calls calls =
     (let keep = min (length calls) MAX_CALL_STRING;
          kept = drop (length calls - keep) calls
      in \<lparr>ac_len = keep, ac_calls = map Some kept @ replicate (MAX_CALL_STRING - keep) None\<rparr>)"

definition context_calls :: "alias_context \<Rightarrow> expr_id list" where
  "context_calls c = List.map_filter (\<lambda>x. x) (take (ac_len c) (ac_calls c))"

definition context_push :: "alias_context \<Rightarrow> expr_id \<Rightarrow> nat \<Rightarrow> alias_context" where
  "context_push c call k =
     (let k = min k MAX_CALL_STRING in
      if k = 0 then context_empty
      else let calls = context_calls c @ [call] in from_calls (drop (length calls - k) calls))"

lemma map_filter_Some [simp]: "List.map_filter (\<lambda>x. x) (map Some xs) = xs"
  by (induction xs) (simp_all add: List.map_filter_def)

lemma calls_from_calls: "context_calls (from_calls xs) = drop (length xs - MAX_CALL_STRING) xs"
proof -
  have "min (length xs) MAX_CALL_STRING = length (drop (length xs - MAX_CALL_STRING) xs)"
    "length xs - min (length xs) MAX_CALL_STRING = length xs - MAX_CALL_STRING" by (auto simp: min_def)
  then show ?thesis by (simp add: context_calls_def from_calls_def Let_def)
qed

lemma calls_push:
  "context_calls (context_push c call k) =
     (let calls = context_calls c @ [call] in drop (length calls - min k MAX_CALL_STRING) calls)"
proof (cases "min k MAX_CALL_STRING = 0")
  case True
  then show ?thesis
    by (simp add: context_push_def context_calls_def context_empty_def Let_def List.map_filter_def)
next
  case False
  let ?calls = "context_calls c @ [call]"
  let ?xs = "drop (length ?calls - min k MAX_CALL_STRING) ?calls"
  have "length ?xs \<le> MAX_CALL_STRING" by simp
  then have "length ?xs - MAX_CALL_STRING = 0" by (rule diff_is_0_eq [THEN iffD2])
  then have "context_calls (from_calls ?xs) = ?xs" unfolding calls_from_calls by (simp only: drop_0)
  with False show ?thesis unfolding context_push_def Let_def by (simp only: if_False)
qed

section \<open>The derived order\<close>

text \<open>
  \<open>derive(Ord)\<close> compares the variant first and then the fields from left to right, vectors
  and strings lexicographically (for strings the order of their UTF-8 bytes, which is the
  order of their scalar values). It is the lexicographic order of the following codes, in
  which every element of a list is introduced by a one and the list is closed by a zero.
\<close>

fun code_list :: "('a \<Rightarrow> nat list) \<Rightarrow> 'a list \<Rightarrow> nat list" where
  "code_list f [] = [0]"
| "code_list f (x # xs) = 1 # f x @ code_list f xs"

definition code_bytes :: "utext \<Rightarrow> nat list" where
  "code_bytes t = code_list (\<lambda>b. [b]) t"

fun code_option :: "('a \<Rightarrow> nat list) \<Rightarrow> 'a option \<Rightarrow> nat list" where
  "code_option f None = [0]"
| "code_option f (Some x) = 1 # f x"

fun code_body :: "anonymous_flow_body \<Rightarrow> nat list" where
  "code_body (BodyExpr e) = [0, e]"
| "code_body (BodyBlock b) = [1, b]"

fun code_unit :: "semantic_unit \<Rightarrow> nat list" where
  "code_unit (UItem i) = [0, i]"
| "code_unit (UAnonymousFlow i e b) = 1 # i # e # code_body b"
| "code_unit (UHandlerArm a) = [2, a]"
| "code_unit (UTopLevelLet i) = [3, i]"

fun code_kind :: "allocation_kind \<Rightarrow> nat list" where
  "code_kind AkRecord = [0]" | "code_kind AkTuple = [1]" | "code_kind AkArray = [2]"
| "code_kind AkList = [3]" | "code_kind AkMap = [4]" | "code_kind AkSet = [5]"
| "code_kind AkRange = [6]" | "code_kind AkLambda = [7]" | "code_kind AkHandler = [8]"
| "code_kind AkUnknown = [9]"

fun code_target :: "alias_target \<Rightarrow> nat list" where
  "code_target (TSymbol s) = [0, s]"
| "code_target (TParam u i) = 1 # code_unit u @ [i]"
| "code_target (TReturn u) = 2 # code_unit u"
| "code_target (TAllocation u e) = 3 # code_option code_unit u @ [e]"
| "code_target (TAllocationKind u k) = 4 # code_option code_unit u @ code_kind k"
| "code_target (TCaptured u s) = 5 # code_unit u @ [s]"
| "code_target (TTopLevel i) = [6, i]"
| "code_target (TResourceHandle s) = [7, s]"
| "code_target (TMemoryPlace ss) = 8 # code_list code_bytes ss"
| "code_target TExternal = [9]"
| "code_target TUnknown = [10]"

fun code_projection :: "projection \<Rightarrow> nat list" where
  "code_projection (PrField s) = 0 # code_bytes s"
| "code_projection PrCollapsedField = [1]"
| "code_projection PrIndex = [2]"
| "code_projection (PrConstIndex s) = 3 # code_bytes s"
| "code_projection (PrMapKey s) = 4 # code_bytes s"
| "code_projection PrDeref = [5]"

fun code_place :: "place \<Rightarrow> nat list" where
  "code_place (Place r ps) = code_target r @ code_list code_projection ps"

fun code_var :: "alias_var \<Rightarrow> nat list" where
  "code_var (VSymbol s) = [0, s]"
| "code_var (VExpr e) = [1, e]"
| "code_var (VPlace p) = 2 # code_place p"
| "code_var (VReturn u) = 3 # code_unit u"
| "code_var (VSynthetic n) = [4, n]"

text \<open>A code is self-delimiting: what follows it can be told apart from it.\<close>

definition self_delimiting :: "('a \<Rightarrow> nat list) \<Rightarrow> bool" where
  "self_delimiting f \<longleftrightarrow> (\<forall>x y r s. f x @ r = f y @ s \<longrightarrow> x = y \<and> r = s)"

lemma self_delimitingD: "self_delimiting f \<Longrightarrow> f x @ r = f y @ s \<Longrightarrow> x = y \<and> r = s"
  by (auto simp: self_delimiting_def)

lemma self_delimiting_inj: "self_delimiting f \<Longrightarrow> inj f"
  by (auto intro!: injI dest!: self_delimitingD [of f _ "[]" _ "[]"])

lemma self_delimiting_list:
  assumes "self_delimiting f"
  shows "self_delimiting (code_list f)"
proof -
  have "code_list f xs @ r = code_list f ys @ s \<Longrightarrow> xs = ys \<and> r = s" for xs ys r s
  proof (induction xs arbitrary: ys)
    case Nil
    then show ?case by (cases ys) auto
  next
    case (Cons x xs)
    then show ?case
      by (cases ys) (auto dest!: self_delimitingD [OF assms] Cons.IH)
  qed
  then show ?thesis by (simp add: self_delimiting_def)
qed

lemma self_delimiting_byte: "self_delimiting (\<lambda>b. [b])"
  by (simp add: self_delimiting_def)

lemma self_delimiting_bytes: "self_delimiting code_bytes"
  using self_delimiting_list [OF self_delimiting_byte] by (simp add: code_bytes_def [abs_def])

lemma self_delimiting_body: "code_body x @ r = code_body y @ s \<longleftrightarrow> x = y \<and> r = s"
  by (cases x; cases y) auto

lemma self_delimiting_unit: "code_unit x @ r = code_unit y @ s \<longleftrightarrow> x = y \<and> r = s"
  by (cases x; cases y) (auto simp: self_delimiting_body)

lemma self_delimiting_option_unit:
  "code_option code_unit x @ r = code_option code_unit y @ s \<longleftrightarrow> x = y \<and> r = s"
  by (cases x; cases y) (auto simp: self_delimiting_unit)

lemma self_delimiting_kind: "code_kind x @ r = code_kind y @ s \<longleftrightarrow> x = y \<and> r = s"
  by (cases x; cases y) auto

lemma self_delimiting_bytes_iff: "code_bytes x @ r = code_bytes y @ s \<longleftrightarrow> x = y \<and> r = s"
  using self_delimitingD [OF self_delimiting_bytes] by blast

lemma self_delimiting_strings_iff:
  "code_list code_bytes x @ r = code_list code_bytes y @ s \<longleftrightarrow> x = y \<and> r = s"
  using self_delimitingD [OF self_delimiting_list [OF self_delimiting_bytes]] by blast

lemma self_delimiting_target: "code_target x @ r = code_target y @ s \<longleftrightarrow> x = y \<and> r = s"
  by (cases x; cases y)
    (auto simp: self_delimiting_unit self_delimiting_option_unit self_delimiting_kind
      self_delimiting_strings_iff)

lemma self_delimiting_projection: "self_delimiting code_projection"
proof -
  have "code_projection x @ r = code_projection y @ s \<Longrightarrow> x = y \<and> r = s" for x y r s
    by (cases x; cases y) (auto simp: self_delimiting_bytes_iff)
  then show ?thesis by (simp add: self_delimiting_def)
qed

lemma self_delimiting_projections:
  "code_list code_projection x @ r = code_list code_projection y @ s \<longleftrightarrow> x = y \<and> r = s"
  using self_delimitingD [OF self_delimiting_list [OF self_delimiting_projection]] by blast

lemma self_delimiting_place: "code_place x @ r = code_place y @ s \<longleftrightarrow> x = y \<and> r = s"
  by (cases x; cases y) (auto simp: self_delimiting_target self_delimiting_projections)

lemma code_place_inj [simp]: "code_place x = code_place y \<longleftrightarrow> x = y"
  using self_delimiting_place [of x "[]" y "[]"] by simp

lemma code_var_inj [simp]: "code_var x = code_var y \<longleftrightarrow> x = y"
  using self_delimiting_unit [of _ "[]" _ "[]"] by (cases x; cases y) auto

instantiation alias_var :: linorder
begin

definition less_eq_alias_var :: "alias_var \<Rightarrow> alias_var \<Rightarrow> bool" where
  "less_eq_alias_var x y \<longleftrightarrow> code_var x \<le> code_var y"

definition less_alias_var :: "alias_var \<Rightarrow> alias_var \<Rightarrow> bool" where
  "less_alias_var x y \<longleftrightarrow> code_var x < code_var y"

instance
  by standard (auto simp: less_eq_alias_var_def less_alias_var_def order.strict_iff_order)

end

instantiation place :: linorder
begin

definition less_eq_place :: "place \<Rightarrow> place \<Rightarrow> bool" where
  "less_eq_place x y \<longleftrightarrow> code_place x \<le> code_place y"

definition less_place :: "place \<Rightarrow> place \<Rightarrow> bool" where
  "less_place x y \<longleftrightarrow> code_place x < code_place y"

instance
  by standard (auto simp: less_eq_place_def less_place_def order.strict_iff_order)

end

end
