(* ===== verification/Etas_Alias_Domain.thy ===== *)
theory Etas_Alias_Domain
  imports Etas_Control Etas_Place
begin

text \<open>
  The domain of the alias analysis (\<open>alias/config.rs\<close>, \<open>alias/domain.rs\<close>,
  \<open>alias/facts.rs\<close> of \<open>etas_hir_analysis\<close>): alias sets and alias values with a size limit,
  the abstract store and its join, and the recorded facts. A \<open>BTreeSet\<close> is a set and a
  \<open>BTreeMap\<close> a map; \<open>join_assign\<close> returns the new receiver and whether it changed.
\<close>

section \<open>Configuration\<close>

datatype constraint_model = InclusionBased | UnificationBased
  | HybridModel (pre_unify_locals: bool) (inclusion_for_resources: bool) (inclusion_for_public_api: bool)

datatype flow_sensitivity = FlowInsensitive | FlowSensitive

datatype field_sensitivity = FieldCollapsed | NamedFields | FullProjection

datatype index_sensitivity = IndexCollapsed | ConstantIndex | KeySensitive

datatype allocation_sensitivity = PerType | PerExpression | PerCallSite

datatype context_sensitivity = ContextInsensitive | CallString nat

datatype heap_model = NoHeap | AllocationSite | ResourceAware

datatype update_policy = AlwaysWeak | StrongWhenMustAlias

record precision_config =
  pc_constraint_model :: constraint_model
  pc_flow_sensitivity :: flow_sensitivity
  pc_field_sensitivity :: field_sensitivity
  pc_index_sensitivity :: index_sensitivity
  pc_allocation_sensitivity :: allocation_sensitivity
  pc_context_sensitivity :: context_sensitivity
  pc_heap_model :: heap_model
  pc_update_policy :: update_policy
  max_alias_set_size :: nat
  max_projection_depth :: nat
  max_fixpoint_iterations :: nat

definition config_fast :: precision_config where
  "config_fast = \<lparr>pc_constraint_model = UnificationBased, pc_flow_sensitivity = FlowInsensitive,
     pc_field_sensitivity = FieldCollapsed, pc_index_sensitivity = IndexCollapsed,
     pc_allocation_sensitivity = PerExpression, pc_context_sensitivity = ContextInsensitive,
     pc_heap_model = AllocationSite, pc_update_policy = AlwaysWeak, max_alias_set_size = 8,
     max_projection_depth = 2, max_fixpoint_iterations = 64\<rparr>"

definition config_balanced :: precision_config where
  "config_balanced = \<lparr>pc_constraint_model = HybridModel True True True, pc_flow_sensitivity = FlowSensitive,
     pc_field_sensitivity = NamedFields, pc_index_sensitivity = ConstantIndex,
     pc_allocation_sensitivity = PerExpression, pc_context_sensitivity = ContextInsensitive,
     pc_heap_model = AllocationSite, pc_update_policy = StrongWhenMustAlias, max_alias_set_size = 32,
     max_projection_depth = 4, max_fixpoint_iterations = 128\<rparr>"

definition config_precise :: precision_config where
  "config_precise = \<lparr>pc_constraint_model = InclusionBased, pc_flow_sensitivity = FlowSensitive,
     pc_field_sensitivity = FullProjection, pc_index_sensitivity = KeySensitive,
     pc_allocation_sensitivity = PerCallSite, pc_context_sensitivity = CallString 1,
     pc_heap_model = ResourceAware, pc_update_policy = StrongWhenMustAlias, max_alias_set_size = 128,
     max_projection_depth = 8, max_fixpoint_iterations = 256\<rparr>"

section \<open>Alias sets\<close>

datatype alias_set = ABottom | AKnown "place set" | AUnknown

fun set_join :: "nat \<Rightarrow> alias_set \<Rightarrow> alias_set \<Rightarrow> alias_set" where
  "set_join limit AUnknown _ = AUnknown"
| "set_join limit _ AUnknown = AUnknown"
| "set_join limit ABottom next_set = next_set"
| "set_join limit current ABottom = current"
| "set_join limit (AKnown l) (AKnown r) =
     (let joined = l \<union> r in if limit < card joined then AUnknown else AKnown joined)"

definition set_join_with_limit :: "nat \<Rightarrow> alias_set \<Rightarrow> alias_set \<Rightarrow> alias_set \<times> bool" where
  "set_join_with_limit limit s other = (let n = set_join limit s other in (n, n \<noteq> s))"

fun set_places :: "alias_set \<Rightarrow> place set option" where
  "set_places (AKnown ps) = Some ps"
| "set_places ABottom = None"
| "set_places AUnknown = None"

fun set_less_equal :: "alias_set \<Rightarrow> alias_set \<Rightarrow> bool" where
  "set_less_equal ABottom _ \<longleftrightarrow> True"
| "set_less_equal _ AUnknown \<longleftrightarrow> True"
| "set_less_equal AUnknown _ \<longleftrightarrow> False"
| "set_less_equal (AKnown _) ABottom \<longleftrightarrow> False"
| "set_less_equal (AKnown l) (AKnown r) \<longleftrightarrow> l \<subseteq> r"

definition set_join_assign :: "alias_set \<Rightarrow> alias_set \<Rightarrow> alias_set \<times> bool" where
  "set_join_assign s other = set_join_with_limit (max_alias_set_size config_balanced) s other"

section \<open>Alias values\<close>

record alias_value =
  av_may :: alias_set
  av_must :: "place option"

definition value_bottom :: alias_value where
  "value_bottom = \<lparr>av_may = ABottom, av_must = None\<rparr>"

definition value_unknown :: alias_value where
  "value_unknown = \<lparr>av_may = AUnknown, av_must = None\<rparr>"

definition from_place :: "place \<Rightarrow> alias_value" where
  "from_place p = \<lparr>av_may = AKnown {p}, av_must = Some p\<rparr>"

definition from_target :: "alias_target \<Rightarrow> alias_value" where
  "from_target t = from_place (place_new t)"

definition is_unknown :: "alias_value \<Rightarrow> bool" where
  "is_unknown v \<longleftrightarrow> av_may v = AUnknown"

text \<open>
  The loop over the places of a known set, in the order of the set: \<open>None\<close> is the early
  return of the unknown value.
\<close>

fun project_places :: "projection \<Rightarrow> precision_config \<Rightarrow> place list \<Rightarrow> place set \<Rightarrow> place set option" where
  "project_places pr cfg [] projected = Some projected"
| "project_places pr cfg (p # ps) projected =
     (case place_project p pr (max_projection_depth cfg) of
        None \<Rightarrow> None
      | Some q \<Rightarrow>
          (let projected = insert q projected in
           if max_alias_set_size cfg < card projected then None
           else project_places pr cfg ps projected))"

definition value_project :: "alias_value \<Rightarrow> projection \<Rightarrow> precision_config \<Rightarrow> alias_value" where
  "value_project v pr cfg =
     (case av_may v of
        ABottom \<Rightarrow> value_bottom
      | AUnknown \<Rightarrow> value_unknown
      | AKnown ps \<Rightarrow>
          (case project_places pr cfg (sorted_list_of_set ps) {} of
             None \<Rightarrow> value_unknown
           | Some projected \<Rightarrow>
               \<lparr>av_may = AKnown projected,
                av_must = Option.bind (av_must v) (\<lambda>p. place_project p pr (max_projection_depth cfg))\<rparr>))"

fun join_must :: "alias_set \<Rightarrow> alias_set \<Rightarrow> place option \<Rightarrow> place option \<Rightarrow> place option" where
  "join_must ABottom _ _ right = right"
| "join_must _ ABottom left _ = left"
| "join_must _ AUnknown _ _ = None"
| "join_must AUnknown _ _ _ = None"
| "join_must _ _ (Some l) (Some r) = (if l = r then Some l else None)"
| "join_must _ _ _ _ = None"

definition value_join_with_limit :: "nat \<Rightarrow> alias_value \<Rightarrow> alias_value \<Rightarrow> alias_value \<times> bool" where
  "value_join_with_limit limit v other =
     (let n = \<lparr>av_may = fst (set_join_with_limit limit (av_may v) (av_may other)),
               av_must = join_must (av_may v) (av_may other) (av_must v) (av_must other)\<rparr>
      in (n, n \<noteq> v))"

definition value_less_equal :: "alias_value \<Rightarrow> alias_value \<Rightarrow> bool" where
  "value_less_equal v other \<longleftrightarrow> set_less_equal (av_may v) (av_may other) \<and>
     (case (av_must v, av_must other) of
        (_, None) \<Rightarrow> True
      | (Some l, Some r) \<Rightarrow> l = r
      | (None, Some _) \<Rightarrow> False)"

definition value_join_assign :: "alias_value \<Rightarrow> alias_value \<Rightarrow> alias_value \<times> bool" where
  "value_join_assign v other = value_join_with_limit (max_alias_set_size config_balanced) v other"

section \<open>The abstract store\<close>

record alias_domain =
  ad_unit :: "semantic_unit option"
  ad_context :: alias_context
  ad_symbols :: "symbol_id \<rightharpoonup> alias_value"
  ad_exprs :: "expr_id \<rightharpoonup> alias_value"
  ad_heap :: "place \<rightharpoonup> alias_value"
  ad_escaped :: "place set"
  ad_return :: alias_value
  ad_last_expr :: alias_value
  ad_incomplete :: bool
  ad_config :: precision_config

definition domain_new :: "precision_config \<Rightarrow> alias_domain" where
  "domain_new cfg = \<lparr>ad_unit = None, ad_context = context_empty, ad_symbols = Map.empty,
     ad_exprs = Map.empty, ad_heap = Map.empty, ad_escaped = {}, ad_return = value_bottom,
     ad_last_expr = value_bottom, ad_incomplete = False, ad_config = cfg\<rparr>"

definition mark_incomplete :: "alias_domain \<Rightarrow> alias_domain" where
  "mark_incomplete d = d\<lparr>ad_incomplete := True\<rparr>"

definition expr_alias :: "alias_domain \<Rightarrow> expr_id \<Rightarrow> alias_value" where
  "expr_alias d e = (case ad_exprs d e of None \<Rightarrow> value_bottom | Some v \<Rightarrow> v)"

definition set_expr_alias :: "expr_id \<Rightarrow> alias_value \<Rightarrow> alias_domain \<Rightarrow> alias_domain" where
  "set_expr_alias e v d = d\<lparr>ad_last_expr := v, ad_exprs := (ad_exprs d)(e \<mapsto> v)\<rparr>"

definition assign_symbol :: "symbol_id \<Rightarrow> alias_value \<Rightarrow> alias_domain \<Rightarrow> alias_domain" where
  "assign_symbol s v d = d\<lparr>ad_symbols := (ad_symbols d)(s \<mapsto> v)\<rparr>"

definition or_default :: "alias_value option \<Rightarrow> alias_value" where
  "or_default o' = (case o' of None \<Rightarrow> value_bottom | Some v \<Rightarrow> v)"

definition weak_assign_symbol :: "symbol_id \<Rightarrow> alias_value \<Rightarrow> alias_domain \<Rightarrow> alias_domain" where
  "weak_assign_symbol s v d = d\<lparr>ad_symbols := (ad_symbols d)(s \<mapsto>
     fst (value_join_with_limit (max_alias_set_size (ad_config d)) (or_default (ad_symbols d s)) v))\<rparr>"

definition assign_place :: "place \<Rightarrow> alias_value \<Rightarrow> alias_domain \<Rightarrow> alias_domain" where
  "assign_place p v d = d\<lparr>ad_heap := (ad_heap d)(p \<mapsto> v)\<rparr>"

definition weak_assign_place :: "place \<Rightarrow> alias_value \<Rightarrow> alias_domain \<Rightarrow> alias_domain" where
  "weak_assign_place p v d = d\<lparr>ad_heap := (ad_heap d)(p \<mapsto>
     fst (value_join_with_limit (max_alias_set_size (ad_config d)) (or_default (ad_heap d p)) v))\<rparr>"

definition mark_escaped :: "alias_value \<Rightarrow> alias_domain \<Rightarrow> alias_domain" where
  "mark_escaped v d =
     (case av_may v of
        AKnown ps \<Rightarrow> d\<lparr>ad_escaped := ad_escaped d \<union> ps\<rparr>
      | AUnknown \<Rightarrow> d\<lparr>ad_incomplete := True\<rparr>
      | ABottom \<Rightarrow> d)"

definition map_less_equal :: "('k \<rightharpoonup> alias_value) \<Rightarrow> ('k \<rightharpoonup> alias_value) \<Rightarrow> bool" where
  "map_less_equal l r \<longleftrightarrow> (\<forall>k v. l k = Some v \<longrightarrow> (\<exists>w. r k = Some w \<and> value_less_equal v w))"

text \<open>
  \<open>join_map\<close> updates each key of the right map once; the updates touch different entries, so
  their order does not matter and the result is given entry by entry.
\<close>

definition join_entry :: "nat \<Rightarrow> alias_value option \<Rightarrow> alias_value option \<Rightarrow> alias_value option" where
  "join_entry limit l r =
     (case r of None \<Rightarrow> l | Some v \<Rightarrow> Some (fst (value_join_with_limit limit (or_default l) v)))"

definition entry_changed :: "nat \<Rightarrow> alias_value option \<Rightarrow> alias_value option \<Rightarrow> bool" where
  "entry_changed limit l r =
     (case r of None \<Rightarrow> False | Some v \<Rightarrow> snd (value_join_with_limit limit (or_default l) v))"

definition join_map :: "nat \<Rightarrow> ('k \<rightharpoonup> alias_value) \<Rightarrow> ('k \<rightharpoonup> alias_value) \<Rightarrow> ('k \<rightharpoonup> alias_value) \<times> bool" where
  "join_map limit l r = ((\<lambda>k. join_entry limit (l k) (r k)), (\<exists>k. entry_changed limit (l k) (r k)))"

definition domain_less_equal :: "alias_domain \<Rightarrow> alias_domain \<Rightarrow> bool" where
  "domain_less_equal d e \<longleftrightarrow> map_less_equal (ad_symbols d) (ad_symbols e) \<and>
     map_less_equal (ad_exprs d) (ad_exprs e) \<and> map_less_equal (ad_heap d) (ad_heap e) \<and>
     ad_escaped d \<subseteq> ad_escaped e \<and> value_less_equal (ad_return d) (ad_return e) \<and>
     value_less_equal (ad_last_expr d) (ad_last_expr e) \<and> (\<not> ad_incomplete d \<or> ad_incomplete e)"

definition domain_join_assign :: "alias_domain \<Rightarrow> alias_domain \<Rightarrow> alias_domain \<times> bool" where
  "domain_join_assign d e =
     (let limit = max (max_alias_set_size (ad_config d)) (max_alias_set_size (ad_config e));
          (symbols, c1) = join_map limit (ad_symbols d) (ad_symbols e);
          (exprs, c2) = join_map limit (ad_exprs d) (ad_exprs e);
          (heap, c3) = join_map limit (ad_heap d) (ad_heap e);
          escaped = ad_escaped d \<union> ad_escaped e;
          c4 = (card escaped \<noteq> card (ad_escaped d));
          (ret, c5) = value_join_with_limit limit (ad_return d) (ad_return e);
          (lst, c6) = value_join_with_limit limit (ad_last_expr d) (ad_last_expr e);
          incomplete = (ad_incomplete d \<or> ad_incomplete e);
          c7 = (incomplete \<noteq> ad_incomplete d)
      in (d\<lparr>ad_symbols := symbols, ad_exprs := exprs, ad_heap := heap, ad_escaped := escaped,
            ad_return := ret, ad_last_expr := lst, ad_incomplete := incomplete\<rparr>,
          c1 \<or> c2 \<or> c3 \<or> c4 \<or> c5 \<or> c6 \<or> c7))"

section \<open>Recorded facts\<close>

record 's alias_facts =
  af_expr_aliases :: "expr_id \<rightharpoonup> alias_value"
  af_symbol_aliases :: "symbol_id \<rightharpoonup> alias_value"
  af_escaped :: "place set"
  af_unit_summaries :: "semantic_unit \<rightharpoonup> 's"
  af_unknown_exprs :: "expr_id set"
  af_incomplete_units :: "semantic_unit set"

definition record_expr :: "expr_id \<Rightarrow> alias_value \<Rightarrow> 's alias_facts \<Rightarrow> 's alias_facts" where
  "record_expr e v f =
     (let f = (if is_unknown v then f\<lparr>af_unknown_exprs := insert e (af_unknown_exprs f)\<rparr> else f)
      in f\<lparr>af_expr_aliases := (af_expr_aliases f)(e \<mapsto> v)\<rparr>)"

definition record_symbol :: "symbol_id \<Rightarrow> alias_value \<Rightarrow> 's alias_facts \<Rightarrow> 's alias_facts" where
  "record_symbol s v f = f\<lparr>af_symbol_aliases := (af_symbol_aliases f)(s \<mapsto> v)\<rparr>"

section \<open>The laws of alias sets and values\<close>

definition set_ok :: "nat \<Rightarrow> alias_set \<Rightarrow> bool" where
  "set_ok limit s \<longleftrightarrow> (case s of AKnown ps \<Rightarrow> finite ps \<and> card ps \<le> limit | _ \<Rightarrow> True)"

text \<open>
  A must alias is exact: a value that must alias a place may alias only that place. Every
  constructor of a value keeps this, and so does every join.
\<close>

definition value_ok :: "nat \<Rightarrow> alias_value \<Rightarrow> bool" where
  "value_ok limit v \<longleftrightarrow> set_ok limit (av_may v) \<and>
     (case av_must v of None \<Rightarrow> True | Some p \<Rightarrow> av_may v = AKnown {p})"

lemma set_join_simps [simp]:
  "set_join limit s AUnknown = AUnknown" "set_join limit s ABottom = s" "set_join limit ABottom s = s"
  by (cases s; simp)+

lemma set_join_ok: "set_ok limit a \<Longrightarrow> set_ok limit b \<Longrightarrow> set_ok limit (set_join limit a b)"
  by (cases a; cases b) (auto simp: set_ok_def Let_def)

lemma set_join_idem: "set_ok limit a \<Longrightarrow> set_join limit a a = a"
  by (cases a) (auto simp: set_ok_def Let_def)

lemma set_join_comm: "set_join limit a b = set_join limit b a"
  by (cases a; cases b) (auto simp: Let_def Un_commute)

lemma card_Un_mono: "finite C \<Longrightarrow> A \<subseteq> C \<Longrightarrow> limit < card A \<Longrightarrow> limit < card C"
  using card_mono [of C A] by simp

lemma set_join_assoc:
  assumes "set_ok limit a" "set_ok limit b" "set_ok limit c"
  shows "set_join limit (set_join limit a b) c = set_join limit a (set_join limit b c)"
proof (cases "\<exists>A B C. a = AKnown A \<and> b = AKnown B \<and> c = AKnown C")
  case True
  then obtain A B C where abc: "a = AKnown A" "b = AKnown B" "c = AKnown C" by blast
  with assms have "finite (A \<union> B \<union> C)" by (simp add: set_ok_def)
  then have "limit < card (A \<union> B) \<Longrightarrow> limit < card (A \<union> (B \<union> C))"
    "limit < card (B \<union> C) \<Longrightarrow> limit < card (A \<union> B \<union> C)"
    using card_Un_mono [of "A \<union> (B \<union> C)" "A \<union> B"] card_Un_mono [of "A \<union> B \<union> C" "B \<union> C"]
    by (auto simp: Un_assoc)
  with abc show ?thesis by (auto simp: Let_def Un_assoc)
next
  case False
  then show ?thesis by (cases a; cases b; cases c) (auto simp: Let_def)
qed

lemma join_must_sym:
  "value_ok limit a \<Longrightarrow> value_ok limit b \<Longrightarrow>
     join_must (av_may a) (av_may b) (av_must a) (av_must b) =
     join_must (av_may b) (av_may a) (av_must b) (av_must a)"
  by (cases "av_may a"; cases "av_may b"; cases "av_must a"; cases "av_must b")
    (auto simp: value_ok_def)

definition vsup :: "nat \<Rightarrow> alias_value \<Rightarrow> alias_value \<Rightarrow> alias_value" where
  "vsup limit a b = fst (value_join_with_limit limit a b)"

lemma vsup_may [simp]: "av_may (vsup limit a b) = set_join limit (av_may a) (av_may b)"
  by (simp add: vsup_def value_join_with_limit_def set_join_with_limit_def Let_def)

lemma vsup_must: "av_must (vsup limit a b) = join_must (av_may a) (av_may b) (av_must a) (av_must b)"
  by (simp add: vsup_def value_join_with_limit_def Let_def)

lemma value_ok_cases:
  assumes "value_ok limit v"
  obtains (bottom) "v = value_bottom" | (exact) p where "v = from_place p"
    | (weak) ps where "v = \<lparr>av_may = AKnown ps, av_must = None\<rparr>" "finite ps" "card ps \<le> limit"
    | (unknown) "v = value_unknown"
proof (cases "av_must v")
  case (Some p)
  with assms have "av_may v = AKnown {p}" by (simp add: value_ok_def)
  with Some have "v = from_place p" by (simp add: from_place_def)
  then show ?thesis by (rule exact)
next
  case None
  show ?thesis
  proof (cases "av_may v")
    case ABottom
    with None have "v = value_bottom" by (simp add: value_bottom_def)
    then show ?thesis by (rule bottom)
  next
    case (AKnown ps)
    with None assms have "v = \<lparr>av_may = AKnown ps, av_must = None\<rparr>" "finite ps" "card ps \<le> limit"
      by (simp_all add: value_ok_def set_ok_def)
    then show ?thesis by (rule weak)
  next
    case AUnknown
    with None have "v = value_unknown" by (simp add: value_unknown_def)
    then show ?thesis by (rule unknown)
  qed
qed

lemmas value_shapes = value_bottom_def value_unknown_def from_place_def

lemma value_ok_simps [simp]:
  "value_ok limit value_bottom" "value_ok limit value_unknown"
  "1 \<le> limit \<Longrightarrow> value_ok limit (from_place p)"
  by (simp_all add: value_ok_def set_ok_def value_shapes)

lemma vsup_simps:
  "vsup limit value_bottom v = v"
  "value_ok limit v \<Longrightarrow> vsup limit v value_bottom = v"
  "value_ok limit v \<Longrightarrow> vsup limit value_unknown v = value_unknown"
  "value_ok limit v \<Longrightarrow> vsup limit v value_unknown = value_unknown"
  "1 \<le> limit \<Longrightarrow> vsup limit (from_place p) (from_place q) =
     (if p = q then from_place p else if limit < 2 then value_unknown
      else \<lparr>av_may = AKnown {p, q}, av_must = None\<rparr>)"
  by (auto simp: vsup_def value_join_with_limit_def set_join_with_limit_def Let_def value_shapes
      value_ok_def card_insert_if split: option.splits)
    (cases "av_may v"; cases "av_must v"; simp)+

text \<open>When a join is exact or bottom; these two and the may part determine it.\<close>

lemma vsup_exact:
  assumes "value_ok limit a" "value_ok limit b" "1 \<le> limit"
  shows "vsup limit a b = from_place p \<longleftrightarrow>
    (a = from_place p \<and> (b = value_bottom \<or> b = from_place p)) \<or> (a = value_bottom \<and> b = from_place p)"
  using assms
  by (cases rule: value_ok_cases [OF assms(1)]; cases rule: value_ok_cases [OF assms(2)])
    (auto simp: vsup_def value_join_with_limit_def set_join_with_limit_def Let_def value_shapes)

lemma set_join_bottom: "set_join limit a b = ABottom \<longleftrightarrow> a = ABottom \<and> b = ABottom"
  by (cases a; cases b) (auto simp: Let_def)

lemma vsup_bottom:
  assumes "value_ok limit a" "value_ok limit b"
  shows "vsup limit a b = value_bottom \<longleftrightarrow> a = value_bottom \<and> b = value_bottom"
  using assms
  by (cases rule: value_ok_cases [OF assms(1)]; cases rule: value_ok_cases [OF assms(2)])
    (auto simp: vsup_def value_join_with_limit_def set_join_with_limit_def Let_def value_shapes)

lemma vsup_ok:
  assumes "value_ok limit a" "value_ok limit b" "1 \<le> limit"
  shows "value_ok limit (vsup limit a b)"
proof -
  have "set_ok limit (av_may (vsup limit a b))"
    using assms set_join_ok [of limit "av_may a" "av_may b"] by (simp add: value_ok_def)
  moreover have "av_may (vsup limit a b) = AKnown {p}" if "av_must (vsup limit a b) = Some p" for p
    using assms that
    by (cases rule: value_ok_cases [OF assms(1)]; cases rule: value_ok_cases [OF assms(2)])
      (auto simp: vsup_def value_join_with_limit_def set_join_with_limit_def Let_def value_shapes
        split: if_splits)
  ultimately show ?thesis by (simp add: value_ok_def split: option.splits)
qed

lemma value_ok_eq:
  assumes "value_ok limit a" "value_ok limit b" "av_may a = av_may b"
    and "\<And>p. a = from_place p \<longleftrightarrow> b = from_place p"
  shows "a = b"
  using assms(3,4)
  by (cases rule: value_ok_cases [OF assms(1)]; cases rule: value_ok_cases [OF assms(2)]) (auto simp: value_shapes)

lemma value_join_domain_limit:
  assumes l: "1 \<le> limit"
  shows "join_domain (value_ok limit) value_bottom (value_join_with_limit limit)"
proof
  show "value_ok limit value_bottom" by simp
next
  fix a b c
  assume a: "value_ok limit a"
  show "fst (value_join_with_limit limit a a) = a"
  proof -
    have "vsup limit a a = a"
      by (rule value_ok_eq [OF vsup_ok [OF a a l] a])
        (use a l vsup_exact [OF a a l] set_join_idem [of limit "av_may a"] in
          \<open>auto simp: value_ok_def value_shapes\<close>)
    then show ?thesis by (simp add: vsup_def)
  qed
  show "fst (value_join_with_limit limit value_bottom a) = a"
    using vsup_simps(1) by (simp add: vsup_def)
  assume b: "value_ok limit b"
  show "value_ok limit (fst (value_join_with_limit limit a b))"
    using vsup_ok [OF a b l] by (simp add: vsup_def)
  show "fst (value_join_with_limit limit a b) = fst (value_join_with_limit limit b a)"
    using join_must_sym [OF a b] by (simp add: value_join_with_limit_def set_join_with_limit_def Let_def set_join_comm)
  show "snd (value_join_with_limit limit a b) \<longleftrightarrow> fst (value_join_with_limit limit a b) \<noteq> a"
    by (simp add: value_join_with_limit_def Let_def)
  assume c: "value_ok limit c"
  note ab = vsup_ok [OF a b l] and bc = vsup_ok [OF b c l]
  have "vsup limit (vsup limit a b) c = vsup limit a (vsup limit b c)"
  proof (rule value_ok_eq [OF vsup_ok [OF ab c l] vsup_ok [OF a bc l]])
    show "av_may (vsup limit (vsup limit a b) c) = av_may (vsup limit a (vsup limit b c))"
      using a b c by (simp add: set_join_assoc value_ok_def)
    fix p
    show "vsup limit (vsup limit a b) c = from_place p \<longleftrightarrow> vsup limit a (vsup limit b c) = from_place p"
      unfolding vsup_exact [OF ab c l] vsup_exact [OF a bc l] vsup_exact [OF a b l] vsup_exact [OF b c l]
        vsup_bottom [OF a b] vsup_bottom [OF b c] by auto
  qed
  then show "fst (value_join_with_limit limit (fst (value_join_with_limit limit a b)) c) =
      fst (value_join_with_limit limit a (fst (value_join_with_limit limit b c)))"
    by (simp add: vsup_def)
qed

lemma set_join_domain_limit: "join_domain (set_ok limit) ABottom (set_join_with_limit limit)"
proof
  show "set_ok limit ABottom" by (simp add: set_ok_def)
next
  fix a b c
  assume a: "set_ok limit a"
  show "fst (set_join_with_limit limit a a) = a" using a by (simp add: set_join_with_limit_def Let_def set_join_idem)
  show "fst (set_join_with_limit limit ABottom a) = a" by (simp add: set_join_with_limit_def Let_def)
  assume b: "set_ok limit b"
  show "set_ok limit (fst (set_join_with_limit limit a b))"
    using a b by (simp add: set_join_with_limit_def Let_def set_join_ok)
  show "fst (set_join_with_limit limit a b) = fst (set_join_with_limit limit b a)"
    by (simp add: set_join_with_limit_def Let_def set_join_comm)
  show "snd (set_join_with_limit limit a b) \<longleftrightarrow> fst (set_join_with_limit limit a b) \<noteq> a"
    by (simp add: set_join_with_limit_def Let_def)
  assume c: "set_ok limit c"
  show "fst (set_join_with_limit limit (fst (set_join_with_limit limit a b)) c) =
      fst (set_join_with_limit limit a (fst (set_join_with_limit limit b c)))"
    using a b c by (simp add: set_join_with_limit_def Let_def set_join_assoc)
qed

lemma balanced_limit: "max_alias_set_size config_balanced = 32"
  by (simp add: config_balanced_def)

interpretation alias_set: join_domain "set_ok limit" ABottom "set_join_with_limit limit" for limit
  by (rule set_join_domain_limit)

interpretation alias_value: join_domain "value_ok 32" value_bottom value_join_assign
proof -
  have "join_domain (value_ok 32) value_bottom (value_join_with_limit 32)"
    by (rule value_join_domain_limit) simp
  then show "join_domain (value_ok 32) value_bottom value_join_assign"
    by (simp add: value_join_assign_def [abs_def] balanced_limit)
qed

text \<open>\<open>less_equal\<close> of alias sets is the order of the join, up to the size limit.\<close>

lemma set_less_equal_join:
  "set_ok limit a \<Longrightarrow> set_ok limit b \<Longrightarrow> set_less_equal a b \<longleftrightarrow> set_join limit a b = b"
  by (cases a; cases b) (auto simp: Let_def set_ok_def Un_absorb1)

lemma set_less_equal_refl [simp]: "set_less_equal a a"
  by (cases a) auto

lemma set_less_equal_trans: "set_less_equal a b \<Longrightarrow> set_less_equal b c \<Longrightarrow> set_less_equal a c"
  by (cases a; cases b; cases c) auto

lemma set_less_equal_Unknown [simp]: "set_less_equal a AUnknown"
  by (cases a) auto

lemma set_join_upper:
  "set_less_equal a (set_join limit a b)" "set_less_equal b (set_join limit a b)"
  by (cases a; cases b; simp add: Let_def)+

lemma set_join_least:
  "set_ok limit c \<Longrightarrow> set_less_equal a c \<Longrightarrow> set_less_equal b c \<Longrightarrow> set_less_equal (set_join limit a b) c"
proof (cases "\<exists>A B C. a = AKnown A \<and> b = AKnown B \<and> c = AKnown C")
  case True
  assume ok: "set_ok limit c" and le: "set_less_equal a c" "set_less_equal b c"
  from True obtain A B C where abc: "a = AKnown A" "b = AKnown B" "c = AKnown C" by blast
  with ok le have "A \<union> B \<subseteq> C" "finite C" "card C \<le> limit" by (auto simp: set_ok_def)
  then have "card (A \<union> B) \<le> limit" using card_mono le_trans by blast
  with abc \<open>A \<union> B \<subseteq> C\<close> show ?thesis by (simp add: Let_def)
next
  case False
  assume "set_less_equal a c" "set_less_equal b c"
  with False show ?thesis by (cases a; cases b; cases c) auto
qed

lemma value_less_equal_join:
  assumes "value_ok limit a" "value_ok limit b" "1 \<le> limit"
  shows "vsup limit a b = b \<longleftrightarrow> a = value_bottom \<or> value_less_equal a b"
proof -
  have *: "A \<union> B = B \<longleftrightarrow> A \<subseteq> B" for A B :: "place set" by blast
  show ?thesis
    using assms
    by (cases rule: value_ok_cases [OF assms(1)]; cases rule: value_ok_cases [OF assms(2)])
      (auto simp: vsup_def value_join_with_limit_def set_join_with_limit_def Let_def value_shapes
        value_less_equal_def * insert_absorb Un_absorb1)
qed

section \<open>Projection\<close>

definition extend_place :: "projection \<Rightarrow> place \<Rightarrow> place" where
  "extend_place pr p = Place (pl_root p) (pl_projections p @ [pr])"

definition projectable :: "precision_config \<Rightarrow> place set \<Rightarrow> projection \<Rightarrow> bool" where
  "projectable cfg ps pr \<longleftrightarrow> (\<forall>p \<in> ps. length (pl_projections p) < max_projection_depth cfg) \<and>
     card (extend_place pr ` ps) \<le> max_alias_set_size cfg"

lemma place_project_eq:
  "place_project p pr n = (if length (pl_projections p) < n then Some (extend_place pr p) else None)"
  by (simp add: place_project_def extend_place_def)

lemma project_places_eq:
  assumes "finite acc"
  shows "project_places pr cfg ps acc =
    (if (\<forall>p \<in> set ps. length (pl_projections p) < max_projection_depth cfg) \<and>
        (ps = [] \<or> card (acc \<union> extend_place pr ` set ps) \<le> max_alias_set_size cfg)
     then Some (acc \<union> extend_place pr ` set ps) else None)"
  using assms
proof (induction ps arbitrary: acc)
  case Nil
  then show ?case by simp
next
  case (Cons p ps)
  let ?acc = "insert (extend_place pr p) acc"
  have le: "card ?acc \<le> card (?acc \<union> extend_place pr ` set ps)"
    using Cons.prems by (intro card_mono) auto
  have IH: "project_places pr cfg ps ?acc =
    (if (\<forall>p \<in> set ps. length (pl_projections p) < max_projection_depth cfg) \<and>
        (ps = [] \<or> card (?acc \<union> extend_place pr ` set ps) \<le> max_alias_set_size cfg)
     then Some (?acc \<union> extend_place pr ` set ps) else None)"
    by (rule Cons.IH) (use Cons.prems in simp)
  show ?case
  proof (cases "length (pl_projections p) < max_projection_depth cfg")
    case False
    then show ?thesis by (simp add: place_project_eq)
  next
    case True
    show ?thesis
    proof (cases "max_alias_set_size cfg < card ?acc")
      case big: True
      with le show ?thesis using True by (simp add: place_project_eq Let_def)
    next
      case False
      with IH le True show ?thesis by (cases "ps = []") (simp_all add: place_project_eq Let_def)
    qed
  qed
qed

lemma project_places_empty:
  "finite ps \<Longrightarrow> project_places pr cfg (sorted_list_of_set ps) {} =
     (if projectable cfg ps pr then Some (extend_place pr ` ps) else None)"
  by (auto simp: project_places_eq projectable_def)

lemma value_project_may:
  assumes "av_may v = AKnown ps" "finite ps"
  shows "av_may (value_project v pr cfg) =
    (if projectable cfg ps pr then AKnown (extend_place pr ` ps) else AUnknown)"
  using assms by (simp add: value_project_def project_places_empty value_unknown_def)

lemma projectable_mono:
  assumes "projectable cfg qs pr" "ps \<subseteq> qs" "finite qs"
  shows "projectable cfg ps pr"
proof -
  have "card (extend_place pr ` ps) \<le> card (extend_place pr ` qs)"
    using assms by (intro card_mono) auto
  with assms show ?thesis by (auto simp: projectable_def)
qed

lemma value_project_mono:
  assumes "set_ok l (av_may a)" "set_ok l' (av_may b)" "set_less_equal (av_may a) (av_may b)"
  shows "set_less_equal (av_may (value_project a pr cfg)) (av_may (value_project b pr cfg))"
proof (cases "av_may a")
  case ABottom
  then show ?thesis by (simp add: value_project_def value_bottom_def)
next
  case AUnknown
  with assms(3) have "av_may b = AUnknown" by (cases "av_may b") auto
  then show ?thesis by (simp add: value_project_def value_unknown_def)
next
  case (AKnown ps)
  show ?thesis
  proof (cases "av_may b")
    case ABottom
    with AKnown assms(3) show ?thesis by simp
  next
    case AUnknown
    then show ?thesis by (simp add: value_project_def value_unknown_def)
  next
    case b: (AKnown qs)
    have fin: "finite ps" "finite qs" and sub: "ps \<subseteq> qs" using AKnown b assms by (simp_all add: set_ok_def)
    show ?thesis
      using projectable_mono [OF _ sub fin(2)] sub
      by (auto simp: value_project_may [OF AKnown fin(1)] value_project_may [OF b fin(2)])
  qed
qed

lemma value_project_ok:
  assumes "value_ok l v" "1 \<le> max_alias_set_size cfg"
  shows "value_ok (max_alias_set_size cfg) (value_project v pr cfg)"
  using assms(1)
proof (cases rule: value_ok_cases)
  case (exact p)
  show ?thesis
    using project_places_empty [of "{p}" pr cfg] assms(2)
    by (auto simp: exact value_project_def from_place_def place_project_eq projectable_def value_ok_def
        set_ok_def value_unknown_def)
next
  case (weak ps)
  then show ?thesis
    using project_places_empty [OF weak(2), of pr cfg]
    by (auto simp: value_project_def value_ok_def set_ok_def value_unknown_def projectable_def)
qed (auto simp: value_project_def value_shapes value_ok_def set_ok_def)

section \<open>The join of stores\<close>

text \<open>
  What a store says: its entries with a missing entry read as bottom, the escaped places, the
  two current values and the incompleteness flag.
\<close>

definition store_view :: "alias_domain \<Rightarrow> (symbol_id \<Rightarrow> alias_value) \<times> (expr_id \<Rightarrow> alias_value) \<times>
    (place \<Rightarrow> alias_value) \<times> place set \<times> alias_value \<times> alias_value \<times> bool" where
  "store_view d = (or_default \<circ> ad_symbols d, or_default \<circ> ad_exprs d, or_default \<circ> ad_heap d, ad_escaped d,
     ad_return d, ad_last_expr d, ad_incomplete d)"

definition join_limit :: "alias_domain \<Rightarrow> alias_domain \<Rightarrow> nat" where
  "join_limit d e = max (max_alias_set_size (ad_config d)) (max_alias_set_size (ad_config e))"

lemma or_default_simps [simp]: "or_default None = value_bottom" "or_default (Some v) = v"
  by (simp_all add: or_default_def)

definition plain_value :: "alias_value \<Rightarrow> bool" where
  "plain_value v \<longleftrightarrow> (av_may v = ABottom \<longrightarrow> av_must v = None)"

lemma vsup_bottom_right: "plain_value v \<Longrightarrow> vsup limit v value_bottom = v"
  by (cases v, cases "av_may v")
    (auto simp: plain_value_def vsup_def value_join_with_limit_def set_join_with_limit_def Let_def
      value_bottom_def)

lemma or_default_join_entry:
  assumes "plain_value (or_default l)"
  shows "or_default (join_entry limit l r) = vsup limit (or_default l) (or_default r)"
  using vsup_bottom_right [OF assms] by (cases r) (simp_all add: join_entry_def vsup_def)

lemma entry_changed_eq:
  assumes "plain_value (or_default l)"
  shows "entry_changed limit l r \<longleftrightarrow> or_default (join_entry limit l r) \<noteq> or_default l"
  by (cases r) (simp_all add: entry_changed_def join_entry_def value_join_with_limit_def Let_def)

definition plain_map :: "('k \<rightharpoonup> alias_value) \<Rightarrow> bool" where
  "plain_map m \<longleftrightarrow> (\<forall>k. plain_value (or_default (m k)))"

definition plain_store :: "alias_domain \<Rightarrow> bool" where
  "plain_store d \<longleftrightarrow> plain_map (ad_symbols d) \<and> plain_map (ad_exprs d) \<and> plain_map (ad_heap d) \<and>
     finite (ad_escaped d)"

lemma join_map_changed:
  assumes "plain_map l"
  shows "snd (join_map limit l r) \<longleftrightarrow> or_default \<circ> fst (join_map limit l r) \<noteq> or_default \<circ> l"
  using assms entry_changed_eq [of "l _" limit "r _"]
  by (auto simp: join_map_def plain_map_def fun_eq_iff)

lemma join_map_view:
  assumes "plain_map l"
  shows "or_default \<circ> fst (join_map limit l r) = (\<lambda>k. vsup limit (or_default (l k)) (or_default (r k)))"
  using assms or_default_join_entry by (auto simp: join_map_def plain_map_def)

lemma domain_join_fields:
  "ad_symbols (fst (domain_join_assign d e)) = fst (join_map (join_limit d e) (ad_symbols d) (ad_symbols e))"
  "ad_exprs (fst (domain_join_assign d e)) = fst (join_map (join_limit d e) (ad_exprs d) (ad_exprs e))"
  "ad_heap (fst (domain_join_assign d e)) = fst (join_map (join_limit d e) (ad_heap d) (ad_heap e))"
  "ad_escaped (fst (domain_join_assign d e)) = ad_escaped d \<union> ad_escaped e"
  "ad_return (fst (domain_join_assign d e)) = vsup (join_limit d e) (ad_return d) (ad_return e)"
  "ad_last_expr (fst (domain_join_assign d e)) = vsup (join_limit d e) (ad_last_expr d) (ad_last_expr e)"
  "ad_incomplete (fst (domain_join_assign d e)) = (ad_incomplete d \<or> ad_incomplete e)"
  by (simp_all add: domain_join_assign_def Let_def join_limit_def vsup_def split: prod.splits)

lemma domain_join_snd:
  "snd (domain_join_assign d e) \<longleftrightarrow>
     snd (join_map (join_limit d e) (ad_symbols d) (ad_symbols e)) \<or>
     snd (join_map (join_limit d e) (ad_exprs d) (ad_exprs e)) \<or>
     snd (join_map (join_limit d e) (ad_heap d) (ad_heap e)) \<or>
     card (ad_escaped d \<union> ad_escaped e) \<noteq> card (ad_escaped d) \<or>
     vsup (join_limit d e) (ad_return d) (ad_return e) \<noteq> ad_return d \<or>
     vsup (join_limit d e) (ad_last_expr d) (ad_last_expr e) \<noteq> ad_last_expr d \<or>
     (ad_incomplete d \<or> ad_incomplete e) \<noteq> ad_incomplete d"
  by (simp add: domain_join_assign_def Let_def join_limit_def vsup_def value_join_with_limit_def
      split: prod.splits)

lemma domain_join_view:
  assumes "plain_store d"
  shows "store_view (fst (domain_join_assign d e)) =
    (\<lambda>k. vsup (join_limit d e) (or_default (ad_symbols d k)) (or_default (ad_symbols e k)),
     \<lambda>k. vsup (join_limit d e) (or_default (ad_exprs d k)) (or_default (ad_exprs e k)),
     \<lambda>k. vsup (join_limit d e) (or_default (ad_heap d k)) (or_default (ad_heap e k)),
     ad_escaped d \<union> ad_escaped e, vsup (join_limit d e) (ad_return d) (ad_return e),
     vsup (join_limit d e) (ad_last_expr d) (ad_last_expr e), ad_incomplete d \<or> ad_incomplete e)"
  using assms by (simp add: store_view_def domain_join_fields join_map_view plain_store_def)

lemma domain_join_changed:
  assumes "plain_store d" "finite (ad_escaped e)"
  shows "snd (domain_join_assign d e) \<longleftrightarrow> store_view (fst (domain_join_assign d e)) \<noteq> store_view d"
proof -
  have "card (ad_escaped d \<union> ad_escaped e) \<noteq> card (ad_escaped d) \<longleftrightarrow> ad_escaped d \<union> ad_escaped e \<noteq> ad_escaped d"
    using assms card_subset_eq [of "ad_escaped d \<union> ad_escaped e" "ad_escaped d"]
    by (auto simp: plain_store_def)
  with assms show ?thesis
    by (simp add: store_view_def domain_join_fields domain_join_snd join_map_changed plain_store_def)
qed

section \<open>Properties of the control state and of the alias domain\<close>

lemma value_32: "join_domain (value_ok 32) value_bottom value_join_assign"
  by unfold_locales

text \<open>
  The control state of the analysis is a join semilattice whenever its domain is one:
  join is idempotent, commutative and associative, the empty control is its unit, every
  operand of a join stays within the carrier, and \<open>join_assign\<close> answers that it changed
  exactly when the result differs from the receiver.
\<close>

theorem control_join_laws:
  assumes "join_domain carrier dbot jn"
  shows "join_domain (control_carrier carrier) control_bottom (control_join_assign jn)"
  by (rule join_domain.control_join_domain [OF assms])

theorem control_join_laws_witness:
  "join_domain (control_carrier (value_ok 32)) control_bottom (control_join_assign value_join_assign)"
  by (rule control_join_laws [OF value_32])

text \<open>
  Sequencing through \<open>with_normal_processed\<close> is associative with the normal exit as its
  unit on both sides, so the exits of a sequence of statements do not depend on how the
  sequence is bracketed; and collapsing all exits into one state commutes with joins.
\<close>

theorem control_sequencing:
  assumes "join_domain carrier dbot jn" and "control_carrier carrier c" and "control_carrier carrier c'"
    and "\<And>s. carrier s \<Longrightarrow> control_carrier carrier (f s)"
    and "\<And>s. carrier s \<Longrightarrow> control_carrier carrier (g s)"
  shows "with_normal_processed jn g (with_normal_processed jn f c) =
      with_normal_processed jn (\<lambda>s. with_normal_processed jn g (f s)) c \<and>
    with_normal_processed jn f (control_normal s) = f s \<and>
    with_normal_processed jn control_normal c = c \<and>
    into_joined_domain jn dbot (fst (control_join_assign jn c c')) =
      fst (jn (into_joined_domain jn dbot c) (into_joined_domain jn dbot c'))"
  using join_domain.sequence_assoc [OF assms(1,2,4,5)] join_domain.sequence_unit [OF assms(1)]
    join_domain.into_joined_hom [OF assms(1-3)]
  by (simp add: join_domain.jsup_def [OF assms(1)])

theorem control_sequencing_witness:
  "control_carrier (value_ok 32) (control_normal value_unknown) \<and>
   with_normal_processed value_join_assign control_returning
     (with_normal_processed value_join_assign control_normal (control_normal value_unknown)) =
   with_normal_processed value_join_assign
     (\<lambda>s. with_normal_processed value_join_assign control_returning (control_normal s))
     (control_normal value_unknown)"
proof -
  have c: "control_carrier (value_ok 32) (control_normal value_unknown)"
    by (simp add: control_carrier_simps control_normal_def control_bottom_def)
  have f: "value_ok 32 s \<Longrightarrow> control_carrier (value_ok 32) (control_normal s)"
    "value_ok 32 s \<Longrightarrow> control_carrier (value_ok 32) (control_returning s)" for s
    by (simp_all add: control_carrier_simps control_normal_def control_returning_def control_bottom_def)
  show ?thesis using control_sequencing [where f = control_normal and g = control_returning, OF value_32 c c f] c by blast
qed

text \<open>
  C24. Alias values with a positive size limit form a join semilattice: on the values whose
  must alias is exact and whose known sets respect the limit, the limited join is
  idempotent, commutative and associative with bottom as its unit, stays on those values,
  and its answer is exact. So the result of a sequence of joins does not depend on its order
  although a join may overflow to unknown.
\<close>

theorem alias_value_join_laws:
  assumes "1 \<le> limit"
  shows "join_domain (value_ok limit) value_bottom (value_join_with_limit limit)"
  by (rule value_join_domain_limit [OF assms])

theorem alias_value_join_laws_witness:
  "(1 :: nat) \<le> 8 \<and> join_domain (value_ok 8) value_bottom (value_join_with_limit 8)"
  using alias_value_join_laws [of 8] by simp

text \<open>
  C27. The order test of alias values against their join: for values of the domain,
  \<open>less_equal a b\<close> holds exactly when joining \<open>a\<close> into \<open>b\<close> leaves \<open>b\<close> unchanged, with one
  exception: bottom is absorbed by every value, but \<open>less_equal\<close> denies that it is below a
  value with a must alias.
\<close>

theorem alias_value_order_vs_join:
  assumes "1 \<le> limit" and "value_ok limit a" and "value_ok limit b"
  shows "(fst (value_join_with_limit limit a b) = b \<longleftrightarrow> a = value_bottom \<or> value_less_equal a b) \<and>
    \<not> value_less_equal value_bottom (from_place p)"
  using value_less_equal_join [OF assms(2,3,1)]
  by (simp add: vsup_def value_less_equal_def value_shapes)

theorem alias_value_order_vs_join_witness:
  "fst (value_join_with_limit 2 value_bottom value_unknown) = value_unknown \<and>
   \<not> value_less_equal value_bottom (from_place (place_new TExternal))"
proof -
  have l: "(1 :: nat) \<le> 2" by simp
  show ?thesis
    using alias_value_order_vs_join [OF l, of value_bottom value_unknown "place_new TExternal"] by simp
qed

text \<open>
  Projection is exact and monotone. A known set projects to the set of the extended
  places when every place is below the depth limit and the result respects the size limit,
  and to unknown otherwise, whatever order the loop visits the places in; a smaller value
  projects to a smaller one; and the result is a value of the domain, with an exact must
  alias.
\<close>

theorem alias_projection:
  assumes "value_ok l v" and "1 \<le> max_alias_set_size cfg"
  shows "(\<forall>ps. av_may v = AKnown ps \<longrightarrow> av_may (value_project v pr cfg) =
        (if projectable cfg ps pr then AKnown (extend_place pr ` ps) else AUnknown)) \<and>
    (\<forall>w. value_ok l w \<longrightarrow> set_less_equal (av_may v) (av_may w) \<longrightarrow>
        set_less_equal (av_may (value_project v pr cfg)) (av_may (value_project w pr cfg))) \<and>
    value_ok (max_alias_set_size cfg) (value_project v pr cfg)"
proof (intro conjI allI impI)
  fix ps assume "av_may v = AKnown ps"
  with assms(1) show "av_may (value_project v pr cfg) =
      (if projectable cfg ps pr then AKnown (extend_place pr ` ps) else AUnknown)"
    by (intro value_project_may) (auto simp: value_ok_def set_ok_def)
next
  fix w assume "value_ok l w" "set_less_equal (av_may v) (av_may w)"
  with assms(1) show "set_less_equal (av_may (value_project v pr cfg)) (av_may (value_project w pr cfg))"
    by (intro value_project_mono [of l _ l]) (simp_all add: value_ok_def)
qed (rule value_project_ok [OF assms])

theorem alias_projection_witness:
  "value_ok 1 (from_place (place_new TExternal)) \<and> 1 \<le> max_alias_set_size config_fast \<and>
   av_may (value_project (from_place (place_new TExternal)) PrIndex config_fast) =
     (if projectable config_fast {place_new TExternal} PrIndex
      then AKnown (extend_place PrIndex ` {place_new TExternal}) else AUnknown)"
proof -
  have h: "value_ok 1 (from_place (place_new TExternal))" "1 \<le> max_alias_set_size config_fast"
    by (simp_all add: config_fast_def)
  show ?thesis using alias_projection [OF h, of PrIndex] h by (simp add: from_place_def)
qed

text \<open>
  The join of two stores, on stores whose bottom entries carry no must alias: every
  entry becomes the limited join of the two entries (a missing entry counts as bottom), the
  escaped places are united, incompleteness is kept from either side, and the answer is that
  the store changed exactly when what it says changed. A key that only gains a bottom entry
  is not reported as a change.
\<close>

theorem alias_store_join:
  assumes "plain_store d" and "finite (ad_escaped e)"
  shows "store_view (fst (domain_join_assign d e)) =
    (\<lambda>k. vsup (join_limit d e) (or_default (ad_symbols d k)) (or_default (ad_symbols e k)),
     \<lambda>k. vsup (join_limit d e) (or_default (ad_exprs d k)) (or_default (ad_exprs e k)),
     \<lambda>k. vsup (join_limit d e) (or_default (ad_heap d k)) (or_default (ad_heap e k)),
     ad_escaped d \<union> ad_escaped e, vsup (join_limit d e) (ad_return d) (ad_return e),
     vsup (join_limit d e) (ad_last_expr d) (ad_last_expr e), ad_incomplete d \<or> ad_incomplete e) \<and>
    (snd (domain_join_assign d e) \<longleftrightarrow> store_view (fst (domain_join_assign d e)) \<noteq> store_view d)"
  using domain_join_view [OF assms(1)] domain_join_changed [OF assms] by blast

theorem alias_store_join_witness:
  "plain_store (domain_new config_fast) \<and>
   (snd (domain_join_assign (domain_new config_fast) (mark_incomplete (domain_new config_fast))) \<longleftrightarrow>
    store_view (fst (domain_join_assign (domain_new config_fast) (mark_incomplete (domain_new config_fast)))) \<noteq>
    store_view (domain_new config_fast))"
proof -
  have h: "plain_store (domain_new config_fast)" "finite (ad_escaped (mark_incomplete (domain_new config_fast)))"
    by (simp_all add: plain_store_def plain_map_def plain_value_def domain_new_def mark_incomplete_def
        value_bottom_def)
  show ?thesis using alias_store_join [OF h] h(1) by blast
qed

end
