(* ===== verification/Etas_Alias_Solver.thy ===== *)
theory Etas_Alias_Solver
  imports Etas_Alias_Domain
begin

text \<open>
  The alias constraint solvers (\<open>alias/solver/*.rs\<close> of \<open>etas_hir_analysis\<close>): constraints and
  frames, the inclusion solver (a bounded fixpoint iteration), the unification solver (union
  find with path compression), the hybrid solver that splits the constraints between the two,
  and the dispatch on the configured model.
\<close>

section \<open>Constraints and solutions\<close>

datatype alias_constraint =
    CAddrOf alias_var place
  | CCopy alias_var alias_var
  | CLoad alias_var alias_var
  | CStore alias_var alias_var
  | CProject alias_var alias_var projection
  | CCall "alias_var option" alias_var "alias_var list" expr_id

record alias_solution =
  so_values :: "alias_var \<rightharpoonup> alias_value"
  so_incomplete :: bool

definition solution_value :: "alias_solution \<Rightarrow> alias_var \<Rightarrow> alias_value" where
  "solution_value s v = or_default (so_values s v)"

section \<open>The inclusion solver\<close>

record inclusion_solver =
  in_config :: precision_config
  in_constraints :: "alias_constraint list"
  in_values :: "alias_var \<rightharpoonup> alias_value"
  in_incomplete :: bool

definition inclusion_new :: "precision_config \<Rightarrow> inclusion_solver" where
  "inclusion_new cfg = \<lparr>in_config = cfg, in_constraints = [], in_values = Map.empty, in_incomplete = False\<rparr>"

definition inclusion_value :: "inclusion_solver \<Rightarrow> alias_var \<Rightarrow> alias_value" where
  "inclusion_value s v = or_default (in_values s v)"

definition inclusion_join_var ::
    "alias_var \<Rightarrow> alias_value \<Rightarrow> inclusion_solver \<Rightarrow> inclusion_solver \<times> bool" where
  "inclusion_join_var var v s =
     (case value_join_with_limit (max_alias_set_size (in_config s)) (or_default (in_values s var)) v of
        (n, changed) \<Rightarrow> (s\<lparr>in_values := (in_values s)(var \<mapsto> n)\<rparr>, changed))"

fun inclusion_apply :: "alias_constraint \<Rightarrow> inclusion_solver \<Rightarrow> inclusion_solver \<times> bool" where
  "inclusion_apply (CAddrOf dst target) s = inclusion_join_var dst (from_place target) s"
| "inclusion_apply (CCopy dst src) s = inclusion_join_var dst (inclusion_value s src) s"
| "inclusion_apply (CLoad dst src) s = inclusion_join_var dst (inclusion_value s src) s"
| "inclusion_apply (CStore dst src) s = inclusion_join_var dst (inclusion_value s src) s"
| "inclusion_apply (CProject dst base pr) s =
     inclusion_join_var dst (value_project (inclusion_value s base) pr (in_config s)) s"
| "inclusion_apply (CCall dst callee args site) s =
     (let s = s\<lparr>in_incomplete := True\<rparr> in
      case dst of None \<Rightarrow> (s, False) | Some d \<Rightarrow> inclusion_join_var d value_unknown s)"

definition inclusion_seed :: "alias_var \<Rightarrow> alias_value \<Rightarrow> inclusion_solver \<Rightarrow> inclusion_solver" where
  "inclusion_seed var v s = fst (inclusion_join_var var v s)"

definition inclusion_add :: "alias_constraint \<Rightarrow> inclusion_solver \<Rightarrow> inclusion_solver" where
  "inclusion_add c s = s\<lparr>in_constraints := in_constraints s @ [c]\<rparr>"

fun inclusion_pass :: "alias_constraint list \<Rightarrow> inclusion_solver \<Rightarrow> bool \<Rightarrow> inclusion_solver \<times> bool" where
  "inclusion_pass [] s changed = (s, changed)"
| "inclusion_pass (c # cs) s changed =
     (case inclusion_apply c s of (s, ch) \<Rightarrow> inclusion_pass cs s (changed \<or> ch))"

text \<open>The solver never writes its configuration, so the iteration limit is read once.\<close>

function inclusion_loop :: "nat \<Rightarrow> bool \<Rightarrow> nat \<Rightarrow> inclusion_solver \<Rightarrow> inclusion_solver \<times> nat" where
  "inclusion_loop limit changed iterations s =
     (if changed \<and> iterations < limit then
        (case inclusion_pass (in_constraints s) s False of
           (s, changed) \<Rightarrow> inclusion_loop limit changed (iterations + 1) s)
      else (s, iterations))"
  by pat_completeness auto
termination
  by (relation "measure (\<lambda>(limit, _, i, _). limit - i)") auto

declare inclusion_loop.simps [simp del]

definition inclusion_solve :: "inclusion_solver \<Rightarrow> alias_solution" where
  "inclusion_solve s =
     (let limit = max_fixpoint_iterations (in_config s) in
      case inclusion_loop limit True 0 s of
        (s, iterations) \<Rightarrow>
          \<lparr>so_values = in_values s, so_incomplete = in_incomplete s \<or> limit \<le> iterations\<rparr>)"

section \<open>The unification solver\<close>

record unification_solver =
  un_config :: precision_config
  un_constraints :: "alias_constraint list"
  un_parent :: "alias_var \<rightharpoonup> alias_var"
  un_values :: "alias_var \<rightharpoonup> alias_value"
  un_incomplete :: bool

definition unification_new :: "precision_config \<Rightarrow> unification_solver" where
  "unification_new cfg = \<lparr>un_config = cfg, un_constraints = [], un_parent = Map.empty,
     un_values = Map.empty, un_incomplete = False\<rparr>"

partial_function (option) uf_find ::
    "alias_var \<Rightarrow> (alias_var \<rightharpoonup> alias_var) \<Rightarrow> (alias_var \<times> (alias_var \<rightharpoonup> alias_var)) option" where
  "uf_find var parent =
     (case parent var of
        Some p \<Rightarrow>
          if p \<noteq> var then do {
            (root, parent) \<leftarrow> uf_find p parent;
            Some (root, parent(var \<mapsto> root))
          } else Some (p, parent)
      | None \<Rightarrow> Some (var, parent(var \<mapsto> var)))"

definition unification_find :: "alias_var \<Rightarrow> unification_solver \<Rightarrow> (alias_var \<times> unification_solver) option" where
  "unification_find var s = do {
     (root, parent) \<leftarrow> uf_find var (un_parent s);
     Some (root, s\<lparr>un_parent := parent\<rparr>)
   }"

definition unification_value :: "alias_var \<Rightarrow> unification_solver \<Rightarrow> (alias_value \<times> unification_solver) option" where
  "unification_value var s = do {
     (root, s) \<leftarrow> unification_find var s;
     Some (or_default (un_values s root), s)
   }"

definition unification_union :: "alias_var \<Rightarrow> alias_var \<Rightarrow> unification_solver \<Rightarrow> unification_solver option" where
  "unification_union left right s = do {
     (l, s) \<leftarrow> unification_find left s;
     (r, s) \<leftarrow> unification_find right s;
     if l = r then Some s
     else do {
       let v = or_default (un_values s l);
       let vals = (un_values s)(l := None);
       let v = (case vals r of
                  None \<Rightarrow> v
                | Some w \<Rightarrow> fst (value_join_with_limit (max_alias_set_size (un_config s)) v w));
       let vals = vals(r := None);
       let (root, other) = (if l \<le> r then (l, r) else (r, l));
       Some (s\<lparr>un_parent := (un_parent s)(other \<mapsto> root), un_values := vals(root \<mapsto> v)\<rparr>)
     }
   }"

definition unification_seed :: "alias_var \<Rightarrow> alias_value \<Rightarrow> unification_solver \<Rightarrow> unification_solver option" where
  "unification_seed var v s = do {
     (root, s) \<leftarrow> unification_find var s;
     Some (s\<lparr>un_values := (un_values s)(root \<mapsto>
       fst (value_join_with_limit (max_alias_set_size (un_config s)) (or_default (un_values s root)) v))\<rparr>)
   }"

fun unification_apply :: "alias_constraint \<Rightarrow> unification_solver \<Rightarrow> unification_solver option" where
  "unification_apply (CAddrOf dst target) s = unification_seed dst (from_place target) s"
| "unification_apply (CCopy dst src) s = unification_union dst src s"
| "unification_apply (CLoad dst src) s = unification_union dst src s"
| "unification_apply (CStore dst src) s = unification_union dst src s"
| "unification_apply (CProject dst base pr) s = do {
     (v, s) \<leftarrow> unification_value base s;
     unification_seed dst (value_project v pr (un_config s)) s
   }"
| "unification_apply (CCall dst callee args site) s =
     (let s = s\<lparr>un_incomplete := True\<rparr> in
      case dst of None \<Rightarrow> Some s | Some d \<Rightarrow> unification_seed d value_unknown s)"

definition unification_add :: "alias_constraint \<Rightarrow> unification_solver \<Rightarrow> unification_solver" where
  "unification_add c s = s\<lparr>un_constraints := un_constraints s @ [c]\<rparr>"

fun unification_run :: "alias_constraint list \<Rightarrow> unification_solver \<Rightarrow> unification_solver option" where
  "unification_run [] s = Some s"
| "unification_run (c # cs) s = do { s \<leftarrow> unification_apply c s; unification_run cs s }"

fun unification_collect ::
    "alias_var list \<Rightarrow> unification_solver \<Rightarrow> (alias_var \<rightharpoonup> alias_value) \<Rightarrow> (alias_var \<rightharpoonup> alias_value) option" where
  "unification_collect [] s vals = Some vals"
| "unification_collect (var # vars) s vals = do {
     (root, s) \<leftarrow> unification_find var s;
     unification_collect vars s (vals(var \<mapsto> or_default (un_values s root)))
   }"

definition unification_solve :: "unification_solver \<Rightarrow> alias_solution option" where
  "unification_solve s = do {
     s \<leftarrow> unification_run (un_constraints s) s;
     vals \<leftarrow> unification_collect (sorted_list_of_set (dom (un_parent s) \<union> dom (un_values s))) s Map.empty;
     Some \<lparr>so_values = vals, so_incomplete = un_incomplete s\<rparr>
   }"

section \<open>The hybrid solver\<close>

fun place_requires_inclusion :: "place \<Rightarrow> bool \<Rightarrow> bool \<Rightarrow> bool" where
  "place_requires_inclusion p for_resources for_public =
     (case pl_root p of
        TResourceHandle _ \<Rightarrow> for_resources
      | TMemoryPlace _ \<Rightarrow> for_resources
      | TParam _ _ \<Rightarrow> for_public
      | TReturn _ \<Rightarrow> for_public
      | TTopLevel _ \<Rightarrow> for_public
      | TAllocationKind _ _ \<Rightarrow> for_public
      | TCaptured _ _ \<Rightarrow> for_public
      | TSymbol _ \<Rightarrow> False
      | TAllocation _ _ \<Rightarrow> False
      | TExternal \<Rightarrow> False
      | TUnknown \<Rightarrow> False)"

definition place_requires_inclusion_for_config :: "place \<Rightarrow> precision_config \<Rightarrow> bool" where
  "place_requires_inclusion_for_config p cfg =
     (case pc_constraint_model cfg of
        HybridModel _ for_resources for_public \<Rightarrow> place_requires_inclusion p for_resources for_public
      | InclusionBased \<Rightarrow> True
      | UnificationBased \<Rightarrow> False)"

definition value_requires_inclusion :: "alias_value \<Rightarrow> precision_config \<Rightarrow> bool" where
  "value_requires_inclusion v cfg =
     (case av_may v of
        ABottom \<Rightarrow> False
      | AUnknown \<Rightarrow> True
      | AKnown ps \<Rightarrow> (\<exists>p \<in> ps. place_requires_inclusion_for_config p cfg))"

fun constraint_places :: "alias_constraint \<Rightarrow> place list" where
  "constraint_places (CAddrOf dst target) = [target]"
| "constraint_places _ = []"

fun constraint_vars :: "alias_constraint \<Rightarrow> alias_var list" where
  "constraint_vars (CAddrOf dst target) = [dst]"
| "constraint_vars (CCopy dst src) = [dst, src]"
| "constraint_vars (CLoad dst src) = [dst, src]"
| "constraint_vars (CStore dst src) = [dst, src]"
| "constraint_vars (CProject dst base pr) = [dst, base]"
| "constraint_vars (CCall dst callee args site) =
     (case dst of None \<Rightarrow> [] | Some d \<Rightarrow> [d]) @ [callee] @ args"

record hybrid_solver =
  hy_config :: precision_config
  hy_inclusion :: inclusion_solver
  hy_unification :: unification_solver
  hy_inclusion_vars :: "alias_var set"
  hy_constraints :: "alias_constraint list"

definition hybrid_new :: "precision_config \<Rightarrow> hybrid_solver" where
  "hybrid_new cfg = \<lparr>hy_config = cfg, hy_inclusion = inclusion_new cfg,
     hy_unification = unification_new cfg, hy_inclusion_vars = {}, hy_constraints = []\<rparr>"

definition requires_inclusion :: "precision_config \<Rightarrow> alias_var set \<Rightarrow> alias_constraint \<Rightarrow> bool" where
  "requires_inclusion cfg vars c \<longleftrightarrow>
     list_ex (\<lambda>p. place_requires_inclusion_for_config p cfg) (constraint_places c) \<or>
     list_ex (\<lambda>v. v \<in> vars) (constraint_vars c)"

fun propagate_pass ::
    "precision_config \<Rightarrow> alias_constraint list \<Rightarrow> alias_var set \<Rightarrow> bool \<Rightarrow> alias_var set \<times> bool" where
  "propagate_pass cfg [] vars changed = (vars, changed)"
| "propagate_pass cfg (c # cs) vars changed =
     (if requires_inclusion cfg vars c
      then propagate_pass cfg cs (vars \<union> set (constraint_vars c))
             (changed \<or> \<not> set (constraint_vars c) \<subseteq> vars)
      else propagate_pass cfg cs vars changed)"

lemma propagate_pass_mono:
  "vars \<subseteq> fst (propagate_pass cfg cs vars ch) \<and>
   fst (propagate_pass cfg cs vars ch) \<subseteq> vars \<union> (\<Union>c \<in> set cs. set (constraint_vars c)) \<and>
   (snd (propagate_pass cfg cs vars ch) \<longleftrightarrow> ch \<or> fst (propagate_pass cfg cs vars ch) \<noteq> vars)"
proof (induction cs arbitrary: vars ch)
  case (Cons c cs)
  show ?case
  proof (cases "requires_inclusion cfg vars c")
    case True
    let ?v = "vars \<union> set (constraint_vars c)"
    let ?ch = "ch \<or> \<not> set (constraint_vars c) \<subseteq> vars"
    have eq: "propagate_pass cfg (c # cs) vars ch = propagate_pass cfg cs ?v ?ch" using True by simp
    show ?thesis unfolding eq using Cons.IH [of ?v ?ch] by auto
  next
    case False
    then have eq: "propagate_pass cfg (c # cs) vars ch = propagate_pass cfg cs vars ch" by simp
    show ?thesis unfolding eq using Cons.IH [of vars ch] by auto
  qed
qed simp

definition all_vars :: "alias_constraint list \<Rightarrow> alias_var set" where
  "all_vars cs = (\<Union>c \<in> set cs. set (constraint_vars c))"

lemma finite_all_vars [simp]: "finite (all_vars cs)"
  by (simp add: all_vars_def)

lemma propagate_pass_card:
  "card (all_vars cs - fst (propagate_pass cfg cs vars False)) \<le> card (all_vars cs - vars)"
  "snd (propagate_pass cfg cs vars False) \<Longrightarrow>
     card (all_vars cs - fst (propagate_pass cfg cs vars False)) < card (all_vars cs - vars)"
proof -
  let ?v = "fst (propagate_pass cfg cs vars False)"
  have sub: "vars \<subseteq> ?v" and sup: "?v \<subseteq> vars \<union> all_vars cs"
    and ch: "snd (propagate_pass cfg cs vars False) \<longleftrightarrow> ?v \<noteq> vars"
    using propagate_pass_mono [of vars cfg cs False] by (auto simp: all_vars_def)
  show "card (all_vars cs - ?v) \<le> card (all_vars cs - vars)" using sub by (intro card_mono) auto
  show "card (all_vars cs - ?v) < card (all_vars cs - vars)" if "snd (propagate_pass cfg cs vars False)"
    by (rule psubset_card_mono) (use sub sup ch that in auto)
qed

function propagate_loop :: "precision_config \<Rightarrow> alias_constraint list \<Rightarrow> bool \<Rightarrow> alias_var set \<Rightarrow> alias_var set" where
  "propagate_loop cfg cs changed vars =
     (if changed then
        propagate_loop cfg cs (snd (propagate_pass cfg cs vars False)) (fst (propagate_pass cfg cs vars False))
      else vars)"
  by pat_completeness auto
termination
proof (relation "measures [\<lambda>(_, cs, ch, vars). card (all_vars cs - vars), \<lambda>(_, _, ch, _). if ch then 1 else 0]",
    goal_cases)
  case 1
  then show ?case by simp
next
  case (2 cfg cs changed vars)
  then show ?case
    using propagate_pass_card(1) [of cs cfg vars] propagate_pass_card(2) [of cfg cs vars]
    by (cases "snd (propagate_pass cfg cs vars False)") auto
qed

declare propagate_loop.simps [simp del]

definition propagate_inclusion_vars :: "hybrid_solver \<Rightarrow> hybrid_solver" where
  "propagate_inclusion_vars s =
     s\<lparr>hy_inclusion_vars := propagate_loop (hy_config s) (hy_constraints s) True (hy_inclusion_vars s)\<rparr>"

definition uses_inclusion :: "hybrid_solver \<Rightarrow> alias_constraint \<Rightarrow> bool" where
  "uses_inclusion s c =
     (case pc_constraint_model (hy_config s) of
        HybridModel pre_unify _ _ \<Rightarrow>
          if \<not> pre_unify then True else requires_inclusion (hy_config s) (hy_inclusion_vars s) c
      | InclusionBased \<Rightarrow> True
      | UnificationBased \<Rightarrow> False)"

definition hybrid_seed :: "alias_var \<Rightarrow> alias_value \<Rightarrow> hybrid_solver \<Rightarrow> hybrid_solver option" where
  "hybrid_seed var v s = do {
     let s = (if value_requires_inclusion v (hy_config s)
              then s\<lparr>hy_inclusion_vars := insert var (hy_inclusion_vars s)\<rparr> else s);
     u \<leftarrow> unification_seed var v (hy_unification s);
     Some (s\<lparr>hy_inclusion := inclusion_seed var v (hy_inclusion s), hy_unification := u\<rparr>)
   }"

definition hybrid_add :: "alias_constraint \<Rightarrow> hybrid_solver \<Rightarrow> hybrid_solver" where
  "hybrid_add c s = s\<lparr>hy_constraints := hy_constraints s @ [c]\<rparr>"

fun hybrid_split :: "alias_constraint list \<Rightarrow> hybrid_solver \<Rightarrow> hybrid_solver" where
  "hybrid_split [] s = s"
| "hybrid_split (c # cs) s =
     hybrid_split cs
       (if uses_inclusion s c then s\<lparr>hy_inclusion := inclusion_add c (hy_inclusion s)\<rparr>
        else s\<lparr>hy_unification := unification_add c (hy_unification s)\<rparr>)"

definition hybrid_solve :: "hybrid_solver \<Rightarrow> alias_solution option" where
  "hybrid_solve s = do {
     let s = propagate_inclusion_vars s;
     let s = hybrid_split (hy_constraints s) s;
     let inclusion = inclusion_solve (hy_inclusion s);
     unification \<leftarrow> unification_solve (hy_unification s);
     Some \<lparr>so_values = fst (join_map (max_alias_set_size (hy_config s)) (so_values inclusion) (so_values unification)),
           so_incomplete = so_incomplete inclusion \<or> so_incomplete unification\<rparr>
   }"

section \<open>Frames\<close>

record constraint_frame =
  fr_config :: precision_config
  fr_seeds :: "(alias_var \<times> alias_value) list"
  fr_constraints :: "alias_constraint list"

definition frame_new :: "precision_config \<Rightarrow> constraint_frame" where
  "frame_new cfg = \<lparr>fr_config = cfg, fr_seeds = [], fr_constraints = []\<rparr>"

definition frame_seed :: "alias_var \<Rightarrow> alias_value \<Rightarrow> constraint_frame \<Rightarrow> constraint_frame" where
  "frame_seed var v f = f\<lparr>fr_seeds := fr_seeds f @ [(var, v)]\<rparr>"

definition frame_add_constraint :: "alias_constraint \<Rightarrow> constraint_frame \<Rightarrow> constraint_frame" where
  "frame_add_constraint c f = f\<lparr>fr_constraints := fr_constraints f @ [c]\<rparr>"

datatype configured_solver = CsInclusion inclusion_solver | CsUnification unification_solver | CsHybrid hybrid_solver

definition configured_new :: "precision_config \<Rightarrow> configured_solver" where
  "configured_new cfg =
     (case pc_constraint_model cfg of
        InclusionBased \<Rightarrow> CsInclusion (inclusion_new cfg)
      | UnificationBased \<Rightarrow> CsUnification (unification_new cfg)
      | HybridModel _ _ _ \<Rightarrow> CsHybrid (hybrid_new cfg))"

fun configured_seed :: "alias_var \<Rightarrow> alias_value \<Rightarrow> configured_solver \<Rightarrow> configured_solver option" where
  "configured_seed var v (CsInclusion s) = Some (CsInclusion (inclusion_seed var v s))"
| "configured_seed var v (CsUnification s) = map_option CsUnification (unification_seed var v s)"
| "configured_seed var v (CsHybrid s) = map_option CsHybrid (hybrid_seed var v s)"

fun configured_add :: "alias_constraint \<Rightarrow> configured_solver \<Rightarrow> configured_solver" where
  "configured_add c (CsInclusion s) = CsInclusion (inclusion_add c s)"
| "configured_add c (CsUnification s) = CsUnification (unification_add c s)"
| "configured_add c (CsHybrid s) = CsHybrid (hybrid_add c s)"

fun configured_solve :: "configured_solver \<Rightarrow> alias_solution option" where
  "configured_solve (CsInclusion s) = Some (inclusion_solve s)"
| "configured_solve (CsUnification s) = unification_solve s"
| "configured_solve (CsHybrid s) = hybrid_solve s"

fun seed_all :: "(alias_var \<times> alias_value) list \<Rightarrow> configured_solver \<Rightarrow> configured_solver option" where
  "seed_all [] s = Some s"
| "seed_all ((var, v) # seeds) s = do { s \<leftarrow> configured_seed var v s; seed_all seeds s }"

definition frame_solve :: "constraint_frame \<Rightarrow> alias_solution option" where
  "frame_solve f = do {
     s \<leftarrow> seed_all (fr_seeds f) (configured_new (fr_config f));
     configured_solve (fold configured_add (fr_constraints f) s)
   }"

end
