(* ===== verification/Etas_Inclusion.thy ===== *)
theory Etas_Inclusion
  imports Etas_Alias_Solver
begin

text \<open>
  The inclusion solver: what a solution has to satisfy, and that the bounded iteration reaches the
  least solution or says that it is incomplete.
\<close>

section \<open>What a solution has to satisfy\<close>

text \<open>A constraint holds of an assignment of values when its source may-aliases are among its target's.\<close>

fun satisfied :: "precision_config \<Rightarrow> (alias_var \<Rightarrow> alias_value) \<Rightarrow> alias_constraint \<Rightarrow> bool" where
  "satisfied cfg W (CAddrOf dst target) \<longleftrightarrow> set_less_equal (AKnown {target}) (av_may (W dst))"
| "satisfied cfg W (CCopy dst src) \<longleftrightarrow> set_less_equal (av_may (W src)) (av_may (W dst))"
| "satisfied cfg W (CLoad dst src) \<longleftrightarrow> set_less_equal (av_may (W src)) (av_may (W dst))"
| "satisfied cfg W (CStore dst src) \<longleftrightarrow> set_less_equal (av_may (W src)) (av_may (W dst))"
| "satisfied cfg W (CProject dst base pr) \<longleftrightarrow>
     set_less_equal (av_may (value_project (W base) pr cfg)) (av_may (W dst))"
| "satisfied cfg W (CCall dst callee args site) \<longleftrightarrow> (case dst of None \<Rightarrow> True | Some d \<Rightarrow> av_may (W d) = AUnknown)"

definition is_call :: "alias_constraint \<Rightarrow> bool" where
  "is_call c \<longleftrightarrow> (case c of CCall _ _ _ _ \<Rightarrow> True | _ \<Rightarrow> False)"

text \<open>An assignment that holds of all constraints and covers the seeds.\<close>

definition covers_seeds :: "(alias_var \<times> alias_value) list \<Rightarrow> (alias_var \<Rightarrow> alias_value) \<Rightarrow> bool" where
  "covers_seeds seeds W \<longleftrightarrow> (\<forall>(var, v) \<in> set seeds. set_less_equal (av_may v) (av_may (W var)))"

definition constraint_model_of ::
    "precision_config \<Rightarrow> (alias_var \<times> alias_value) list \<Rightarrow> alias_constraint list \<Rightarrow> (alias_var \<Rightarrow> alias_value) \<Rightarrow> bool" where
  "constraint_model_of cfg seeds cs W \<longleftrightarrow> (\<forall>v. set_ok (max_alias_set_size cfg) (av_may (W v))) \<and>
     covers_seeds seeds W \<and> (\<forall>c \<in> set cs. satisfied cfg W c)"

section \<open>The inclusion solver\<close>

abbreviation in_limit :: "inclusion_solver \<Rightarrow> nat" where
  "in_limit s \<equiv> max_alias_set_size (in_config s)"

definition inclusion_ok :: "inclusion_solver \<Rightarrow> bool" where
  "inclusion_ok s \<longleftrightarrow> 1 \<le> in_limit s \<and> (\<forall>v. value_ok (in_limit s) (inclusion_value s v))"

lemma join_var_view:
  "inclusion_value (fst (inclusion_join_var var v s)) w =
     (if w = var then vsup (in_limit s) (inclusion_value s var) v else inclusion_value s w)"
  "snd (inclusion_join_var var v s) \<longleftrightarrow> vsup (in_limit s) (inclusion_value s var) v \<noteq> inclusion_value s var"
  "in_config (fst (inclusion_join_var var v s)) = in_config s"
  "in_constraints (fst (inclusion_join_var var v s)) = in_constraints s"
  "in_incomplete (fst (inclusion_join_var var v s)) = in_incomplete s"
  by (auto simp: inclusion_join_var_def inclusion_value_def vsup_def value_join_with_limit_def Let_def)

lemma join_var_ok:
  "inclusion_ok s \<Longrightarrow> value_ok (in_limit s) v \<Longrightarrow> inclusion_ok (fst (inclusion_join_var var v s))"
  by (auto simp: inclusion_ok_def join_var_view vsup_ok)

lemma inclusion_apply_frame:
  "in_config (fst (inclusion_apply c s)) = in_config s"
  "in_constraints (fst (inclusion_apply c s)) = in_constraints s"
  "in_incomplete (fst (inclusion_apply c s)) = (in_incomplete s \<or> is_call c)"
  by (cases c, simp_all add: join_var_view is_call_def Let_def split: option.splits)
    (cases c, simp_all add: join_var_view is_call_def Let_def split: option.splits)+

lemma inclusion_value_incomplete [simp]: "inclusion_value (s\<lparr>in_incomplete := b\<rparr>) = inclusion_value s"
  by (simp add: inclusion_value_def fun_eq_iff)

lemma inclusion_ok_incomplete [simp]: "inclusion_ok (s\<lparr>in_incomplete := b\<rparr>) = inclusion_ok s"
  by (simp add: inclusion_ok_def)

lemma inclusion_apply_ok:
  assumes ok: "inclusion_ok s"
  shows "inclusion_ok (fst (inclusion_apply c s))"
proof -
  have L: "1 \<le> in_limit s" and V: "\<And>v. value_ok (in_limit s) (inclusion_value s v)"
    using ok by (auto simp: inclusion_ok_def)
  show ?thesis
    using L by (cases c)
      (auto intro!: join_var_ok value_project_ok [OF V] simp: ok V Let_def split: option.splits)
qed

lemma vsup_unchanged_may:
  "vsup L a b = a \<Longrightarrow> set_less_equal (av_may b) (av_may a)"
  by (metis set_join_upper(2) vsup_may)

lemma inclusion_apply_unchanged:
  assumes "\<not> snd (inclusion_apply c s)"
  shows "inclusion_value (fst (inclusion_apply c s)) = inclusion_value s \<and>
    satisfied (in_config s) (inclusion_value s) c"
proof -
  have *: "inclusion_value (fst (inclusion_join_var var v s')) = inclusion_value s' \<and>
      set_less_equal (av_may v) (av_may (inclusion_value s' var))"
    if "\<not> snd (inclusion_join_var var v s')" for var v s'
    using that vsup_unchanged_may [of "in_limit s'" "inclusion_value s' var" v]
    by (auto simp: join_var_view fun_eq_iff)
  have **: "set_less_equal AUnknown a \<Longrightarrow> a = AUnknown" for a by (cases a) auto
  show ?thesis
  proof (cases c)
    case (CCall dst callee args site)
    with assms * [of _ value_unknown "s\<lparr>in_incomplete := True\<rparr>"] show ?thesis
      by (cases dst) (auto simp: value_unknown_def dest!: **)
  next
    case (CAddrOf dst target)
    with assms * [of dst "from_place target" s] show ?thesis by (simp add: from_place_def)
  qed (use assms * in auto)
qed

lemma inclusion_pass_frames:
  "in_config (fst (inclusion_pass cs s ch)) = in_config s \<and>
   in_constraints (fst (inclusion_pass cs s ch)) = in_constraints s \<and>
   in_incomplete (fst (inclusion_pass cs s ch)) = (in_incomplete s \<or> (\<exists>c \<in> set cs. is_call c))"
proof (induction cs arbitrary: s ch)
  case (Cons c cs)
  obtain s1 b where a: "inclusion_apply c s = (s1, b)" by (cases "inclusion_apply c s")
  have "in_config s1 = in_config s" "in_constraints s1 = in_constraints s"
    "in_incomplete s1 = (in_incomplete s \<or> is_call c)"
    using inclusion_apply_frame [of c s] a by simp_all
  with Cons.IH [of s1 "ch \<or> b"] a show ?case by auto
qed simp

lemmas inclusion_pass_frame = inclusion_pass_frames [THEN conjunct1]
  inclusion_pass_frames [THEN conjunct2, THEN conjunct1] inclusion_pass_frames [THEN conjunct2, THEN conjunct2]

lemma inclusion_pass_ok: "inclusion_ok s \<Longrightarrow> inclusion_ok (fst (inclusion_pass cs s ch))"
proof (induction cs arbitrary: s ch)
  case (Cons c cs)
  obtain s1 b where a: "inclusion_apply c s = (s1, b)" by (cases "inclusion_apply c s")
  with inclusion_apply_ok [OF Cons.prems, of c] Cons.IH [of s1] show ?case by simp
qed simp

lemma inclusion_pass_changed: "snd (inclusion_pass cs s True)"
  by (induction cs arbitrary: s) (auto split: prod.splits)

lemma inclusion_pass_unchanged:
  assumes "\<not> snd (inclusion_pass cs s ch)"
  shows "inclusion_value (fst (inclusion_pass cs s ch)) = inclusion_value s \<and>
    (\<forall>c \<in> set cs. satisfied (in_config s) (inclusion_value s) c)"
  using assms
proof (induction cs arbitrary: s ch)
  case (Cons c cs)
  obtain s1 b where a: "inclusion_apply c s = (s1, b)" by (cases "inclusion_apply c s")
  have nb2: "\<not> snd (inclusion_pass cs s1 (ch \<or> b))" using Cons.prems a by simp
  then have "\<not> b" using inclusion_pass_changed [of cs s1] by (cases b) simp_all
  note nb = this nb2
  have u: "inclusion_value s1 = inclusion_value s" "satisfied (in_config s) (inclusion_value s) c"
    using inclusion_apply_unchanged [of c s] a nb by simp_all
  have cfg: "in_config s1 = in_config s" using inclusion_apply_frame(1) [of c s] a by simp
  from Cons.IH [OF nb(2)] u cfg a show ?case by simp
qed simp

lemma inclusion_loop_frame:
  "in_config (fst (inclusion_loop l ch i s)) = in_config s \<and>
   in_constraints (fst (inclusion_loop l ch i s)) = in_constraints s \<and>
   (inclusion_ok s \<longrightarrow> inclusion_ok (fst (inclusion_loop l ch i s))) \<and>
   (in_incomplete s \<longrightarrow> in_incomplete (fst (inclusion_loop l ch i s)))"
proof (induction l ch i s rule: inclusion_loop.induct)
  case (1 l ch i s)
  show ?case
  proof (cases "ch \<and> i < l")
    case True
    obtain s1 b where p: "inclusion_pass (in_constraints s) s False = (s1, b)"
      by (cases "inclusion_pass (in_constraints s) s False")
    have f: "in_config s1 = in_config s" "in_constraints s1 = in_constraints s"
      "in_incomplete s \<Longrightarrow> in_incomplete s1" "inclusion_ok s \<Longrightarrow> inclusion_ok s1"
      using inclusion_pass_frame [of "in_constraints s" s False]
        inclusion_pass_ok [of s "in_constraints s" False] p by simp_all
    have e: "inclusion_loop l ch i s = inclusion_loop l b (i + 1) s1"
      by (subst inclusion_loop.simps) (use True p in simp)
    show ?thesis unfolding e using "1" [OF True p [symmetric]] f by auto
  next
    case False
    then have "inclusion_loop l ch i s = (s, i)" by (subst inclusion_loop.simps) auto
    then show ?thesis by simp
  qed
qed

lemma inclusion_loop_fixpoint:
  assumes "inclusion_loop l ch i s = (s', n)" and "n < l"
  shows "(ch \<longrightarrow> (\<forall>c \<in> set (in_constraints s). satisfied (in_config s) (inclusion_value s') c) \<and>
    ((\<exists>c \<in> set (in_constraints s). is_call c) \<longrightarrow> in_incomplete s')) \<and> (\<not> ch \<longrightarrow> s' = s)"
  using assms
proof (induction l ch i s arbitrary: s' n rule: inclusion_loop.induct)
  case (1 l ch i s)
  show ?case
  proof (cases "ch \<and> i < l")
    case True
    obtain s1 b where p: "inclusion_pass (in_constraints s) s False = (s1, b)"
      by (cases "inclusion_pass (in_constraints s) s False")
    have f: "in_config s1 = in_config s" "in_constraints s1 = in_constraints s"
      "in_incomplete s1 = (in_incomplete s \<or> (\<exists>c \<in> set (in_constraints s). is_call c))"
      using inclusion_pass_frame [of "in_constraints s" s False] p by simp_all
    have e: "inclusion_loop l b (i + 1) s1 = (s', n)"
      using "1.prems"(1) True p by (subst (asm) inclusion_loop.simps) simp
    note IH = "1.IH" [OF True p [symmetric] e "1.prems"(2)]
    have inc: "in_incomplete s1 \<longrightarrow> in_incomplete s'" using inclusion_loop_frame [of l b "i + 1" s1] e by simp
    show ?thesis
    proof (cases b)
      case True
      with IH f \<open>ch \<and> i < l\<close> show ?thesis by auto
    next
      case False
      then have "s' = s1" using IH by simp
      moreover have "inclusion_value s1 = inclusion_value s"
        "\<forall>c \<in> set (in_constraints s). satisfied (in_config s) (inclusion_value s) c"
        using inclusion_pass_unchanged [of "in_constraints s" s False] p False by simp_all
      ultimately show ?thesis using f \<open>ch \<and> i < l\<close> by auto
    qed
  next
    case False
    then have "inclusion_loop l ch i s = (s, i)" by (subst inclusion_loop.simps) auto
    with "1.prems" False show ?thesis by auto
  qed
qed

text \<open>No value ever exceeds an assignment that satisfies the constraints.\<close>

definition below :: "inclusion_solver \<Rightarrow> (alias_var \<Rightarrow> alias_value) \<Rightarrow> bool" where
  "below s W \<longleftrightarrow> (\<forall>v. set_less_equal (av_may (inclusion_value s v)) (av_may (W v)))"

lemma join_var_below:
  assumes "below s W" "set_ok (in_limit s) (av_may (W var))" "set_less_equal (av_may v) (av_may (W var))"
  shows "below (fst (inclusion_join_var var v s)) W"
  using assms by (auto simp: below_def join_var_view set_join_least)

lemma inclusion_apply_below:
  assumes "below s W" "inclusion_ok s" "\<forall>v. set_ok (in_limit s) (av_may (W v))" "satisfied (in_config s) W c"
  shows "below (fst (inclusion_apply c s)) W"
proof -
  have B: "set_less_equal (av_may (inclusion_value s v)) (av_may (W v))" for v
    using assms(1) by (simp add: below_def)
  have copy: "below (fst (inclusion_join_var dst (inclusion_value s src) s)) W"
    if "set_less_equal (av_may (W src)) (av_may (W dst))" for dst src
    using assms(1,3) set_less_equal_trans [OF B that] by (intro join_var_below) auto
  show ?thesis
proof (cases c)
  case (CAddrOf dst target)
  with assms show ?thesis by (auto intro!: join_var_below simp: from_place_def)
next
  case (CProject dst base pr)
  have "set_less_equal (av_may (value_project (inclusion_value s base) pr (in_config s)))
      (av_may (value_project (W base) pr (in_config s)))"
    using assms by (intro value_project_mono [of "in_limit s" _ "in_limit s"])
      (auto simp: inclusion_ok_def value_ok_def below_def)
  with assms CProject show ?thesis
    by (auto intro!: join_var_below elim: set_less_equal_trans)
next
  case (CCall dst callee args site)
  have "below (s\<lparr>in_incomplete := True\<rparr>) W" using assms(1) by (simp add: below_def)
  with assms CCall show ?thesis
    by (cases dst) (auto intro!: join_var_below simp: value_unknown_def set_ok_def)
qed (use assms(4) copy in auto)
qed

lemma inclusion_pass_below:
  assumes "below s W" "inclusion_ok s" "\<forall>v. set_ok (in_limit s) (av_may (W v))"
    "\<forall>c \<in> set cs. satisfied (in_config s) W c"
  shows "below (fst (inclusion_pass cs s ch)) W"
  using assms
proof (induction cs arbitrary: s ch)
  case (Cons c cs)
  obtain s1 b where a: "inclusion_apply c s = (s1, b)" by (cases "inclusion_apply c s")
  have "below s1 W" using inclusion_apply_below [OF Cons.prems(1-3), of c] Cons.prems(4) a by simp
  moreover have "inclusion_ok s1" "in_config s1 = in_config s"
    using inclusion_apply_ok [OF Cons.prems(2), of c] inclusion_apply_frame(1) [of c s] a by simp_all
  ultimately show ?case using Cons.IH [of s1] Cons.prems a by simp
qed simp

lemma inclusion_loop_below:
  assumes "below s W" "inclusion_ok s" "\<forall>v. set_ok (in_limit s) (av_may (W v))"
    "\<forall>c \<in> set (in_constraints s). satisfied (in_config s) W c"
  shows "below (fst (inclusion_loop l ch i s)) W"
  using assms
proof (induction l ch i s rule: inclusion_loop.induct)
  case (1 l ch i s)
  show ?case
  proof (cases "ch \<and> i < l")
    case True
    obtain s1 b where p: "inclusion_pass (in_constraints s) s False = (s1, b)"
      by (cases "inclusion_pass (in_constraints s) s False")
    have "below s1 W" "inclusion_ok s1" "in_config s1 = in_config s" "in_constraints s1 = in_constraints s"
      using inclusion_pass_below [OF "1.prems", of False] inclusion_pass_ok [OF "1.prems"(2), of "in_constraints s" False]
        inclusion_pass_frame [of "in_constraints s" s False] p by simp_all
    moreover have e: "inclusion_loop l ch i s = inclusion_loop l b (i + 1) s1"
      by (subst inclusion_loop.simps) (use True p in simp)
    ultimately show ?thesis unfolding e using "1.IH" [OF True p [symmetric]] "1.prems" by simp
  next
    case False
    then have "inclusion_loop l ch i s = (s, i)" by (subst inclusion_loop.simps) auto
    with "1.prems" show ?thesis by simp
  qed
qed

definition seeds_ok :: "precision_config \<Rightarrow> (alias_var \<times> alias_value) list \<Rightarrow> bool" where
  "seeds_ok cfg seeds \<longleftrightarrow> 1 \<le> max_alias_set_size cfg \<and>
     (\<forall>(var, v) \<in> set seeds. value_ok (max_alias_set_size cfg) v)"

lemma inclusion_seeds:
  assumes "seeds_ok (in_config s) seeds" "inclusion_ok s"
  shows "inclusion_ok (fold (\<lambda>(var, v). inclusion_seed var v) seeds s) \<and>
    in_config (fold (\<lambda>(var, v). inclusion_seed var v) seeds s) = in_config s \<and>
    in_constraints (fold (\<lambda>(var, v). inclusion_seed var v) seeds s) = in_constraints s \<and>
    in_incomplete (fold (\<lambda>(var, v). inclusion_seed var v) seeds s) = in_incomplete s"
  using assms
proof (induction seeds arbitrary: s)
  case (Cons x seeds)
  obtain var v where x: "x = (var, v)" by (cases x)
  let ?s = "inclusion_seed var v s"
  have "inclusion_ok ?s" using Cons.prems by (auto simp: inclusion_seed_def x seeds_ok_def intro: join_var_ok)
  moreover have "in_config ?s = in_config s" "in_constraints ?s = in_constraints s"
    "in_incomplete ?s = in_incomplete s" by (simp_all add: inclusion_seed_def join_var_view)
  moreover have "seeds_ok (in_config s) seeds" using Cons.prems by (simp add: seeds_ok_def)
  ultimately show ?case using Cons.IH [of ?s] by (simp add: x)
qed simp

lemma inclusion_seeds_below:
  assumes "\<forall>v. set_ok (in_limit s) (av_may (W v))" "covers_seeds seeds W" "below s W"
  shows "below (fold (\<lambda>(var, v). inclusion_seed var v) seeds s) W"
  using assms
proof (induction seeds arbitrary: s)
  case (Cons x seeds)
  obtain var v where x: "x = (var, v)" by (cases x)
  let ?s = "inclusion_seed var v s"
  have "below ?s W" using Cons.prems
    by (auto simp: inclusion_seed_def x covers_seeds_def intro!: join_var_below)
  moreover have "in_config ?s = in_config s" by (simp add: inclusion_seed_def join_var_view)
  ultimately show ?case using Cons.IH [of ?s] Cons.prems by (simp add: x covers_seeds_def)
qed simp

lemma inclusion_grows:
  "set_less_equal (av_may (inclusion_value s w)) (av_may (inclusion_value (fst (inclusion_join_var var v s)) w))"
  by (simp add: join_var_view set_join_upper)

lemma inclusion_apply_grows:
  "set_less_equal (av_may (inclusion_value s w)) (av_may (inclusion_value (fst (inclusion_apply c s)) w))"
  by (cases c) (auto simp: inclusion_grows Let_def split: option.splits
      intro: set_less_equal_trans [OF _ inclusion_grows])

lemma inclusion_pass_grows:
  "set_less_equal (av_may (inclusion_value s w)) (av_may (inclusion_value (fst (inclusion_pass cs s ch)) w))"
proof (induction cs arbitrary: s ch)
  case (Cons c cs)
  obtain s1 b where a: "inclusion_apply c s = (s1, b)" by (cases "inclusion_apply c s")
  with inclusion_apply_grows [of s w c] Cons.IH [of s1 "ch \<or> b"] show ?case
    by (auto intro: set_less_equal_trans)
qed simp

lemma inclusion_loop_grows:
  "set_less_equal (av_may (inclusion_value s w)) (av_may (inclusion_value (fst (inclusion_loop l ch i s)) w))"
proof (induction l ch i s rule: inclusion_loop.induct)
  case (1 l ch i s)
  obtain s1 b where p: "inclusion_pass (in_constraints s) s False = (s1, b)"
    by (cases "inclusion_pass (in_constraints s) s False")
  show ?case
  proof (cases "ch \<and> i < l")
    case True
    have e: "inclusion_loop l ch i s = inclusion_loop l b (i + 1) s1"
      by (subst inclusion_loop.simps) (use True p in simp)
    show ?thesis
      unfolding e using "1" [OF True p [symmetric]] inclusion_pass_grows [of s w "in_constraints s" False] p
      by (auto intro: set_less_equal_trans)
  next
    case False
    then have "inclusion_loop l ch i s = (s, i)" by (subst inclusion_loop.simps) auto
    then show ?thesis by simp
  qed
qed

lemma inclusion_seeds_covered:
  "set_less_equal (av_may (inclusion_value s w))
     (av_may (inclusion_value (fold (\<lambda>(var, v). inclusion_seed var v) seeds s) w)) \<and>
   covers_seeds seeds (inclusion_value (fold (\<lambda>(var, v). inclusion_seed var v) seeds s))"
proof (induction seeds arbitrary: s w)
  case (Cons x seeds)
  obtain var v where x: "x = (var, v)" by (cases x)
  let ?s = "inclusion_seed var v s" and ?f = "fold (\<lambda>(var, v). inclusion_seed var v) seeds"
  have "set_less_equal (av_may v) (av_may (inclusion_value ?s var))"
    by (simp add: inclusion_seed_def join_var_view set_join_upper)
  then have "set_less_equal (av_may v) (av_may (inclusion_value (?f ?s) var))"
    using Cons.IH [of ?s var] by (auto intro: set_less_equal_trans)
  moreover have "set_less_equal (av_may (inclusion_value s w)) (av_may (inclusion_value (?f ?s) w))"
    using set_less_equal_trans [OF inclusion_grows [of s w var v, folded inclusion_seed_def]
        conjunct1 [OF Cons.IH [of ?s w]]] .
  ultimately show ?case using Cons.IH [of ?s w] by (simp add: x covers_seeds_def)
qed (simp add: covers_seeds_def)

lemma seed_all_inclusion:
  "seed_all seeds (CsInclusion s) = Some (CsInclusion (fold (\<lambda>(var, v). inclusion_seed var v) seeds s))"
  by (induction seeds arbitrary: s) auto

lemma add_all_inclusion:
  "fold configured_add cs (CsInclusion s) = CsInclusion (s\<lparr>in_constraints := in_constraints s @ cs\<rparr>)"
  by (induction cs arbitrary: s) (simp_all add: inclusion_add_def)

lemma inclusion_value_constraints [simp]:
  "inclusion_value (s\<lparr>in_constraints := cs\<rparr>) = inclusion_value s"
  by (simp add: inclusion_value_def fun_eq_iff)

lemma inclusion_new_ok:
  "1 \<le> max_alias_set_size cfg \<Longrightarrow> inclusion_ok (inclusion_new cfg)"
  by (simp add: inclusion_ok_def inclusion_new_def inclusion_value_def)

text \<open>The solver on a frame: the seeded solver with all constraints.\<close>

definition inclusion_start ::
    "precision_config \<Rightarrow> (alias_var \<times> alias_value) list \<Rightarrow> alias_constraint list \<Rightarrow> inclusion_solver" where
  "inclusion_start cfg seeds cs =
     (fold (\<lambda>(var, v). inclusion_seed var v) seeds (inclusion_new cfg))\<lparr>in_constraints := cs\<rparr>"

lemma inclusion_start_facts:
  assumes "seeds_ok cfg seeds"
  shows "inclusion_ok (inclusion_start cfg seeds cs)" "in_config (inclusion_start cfg seeds cs) = cfg"
    "in_constraints (inclusion_start cfg seeds cs) = cs" "\<not> in_incomplete (inclusion_start cfg seeds cs)"
    "covers_seeds seeds (inclusion_value (inclusion_start cfg seeds cs))"
    "constraint_model_of cfg seeds cs W \<Longrightarrow> below (inclusion_start cfg seeds cs) W"
proof -
  let ?s = "fold (\<lambda>(var, v). inclusion_seed var v) seeds (inclusion_new cfg)"
  have new: "in_config (inclusion_new cfg) = cfg" "in_constraints (inclusion_new cfg) = []"
    "\<not> in_incomplete (inclusion_new cfg)" "inclusion_ok (inclusion_new cfg)"
    using assms by (auto simp: inclusion_new_def inclusion_new_ok [unfolded inclusion_new_def] seeds_ok_def)
  have s: "inclusion_ok ?s" "in_config ?s = cfg" "\<not> in_incomplete ?s"
    using inclusion_seeds [of "inclusion_new cfg" seeds] assms new by auto
  show "inclusion_ok (inclusion_start cfg seeds cs)"
    using s(1) by (simp add: inclusion_start_def inclusion_ok_def)
  show "in_config (inclusion_start cfg seeds cs) = cfg" "in_constraints (inclusion_start cfg seeds cs) = cs"
    "\<not> in_incomplete (inclusion_start cfg seeds cs)"
    using s by (simp_all add: inclusion_start_def)
  show "covers_seeds seeds (inclusion_value (inclusion_start cfg seeds cs))"
    using inclusion_seeds_covered [of "inclusion_new cfg" _ seeds] by (simp add: inclusion_start_def)
  show "below (inclusion_start cfg seeds cs) W" if W: "constraint_model_of cfg seeds cs W"
  proof -
    have "below (inclusion_new cfg) W"
      by (simp add: below_def inclusion_new_def inclusion_value_def value_bottom_def)
    with W new(1) inclusion_seeds_below [of "inclusion_new cfg" W seeds] have "below ?s W"
      by (simp add: constraint_model_of_def)
    then show ?thesis by (simp add: inclusion_start_def below_def)
  qed
qed

lemma inclusion_solve_spec:
  assumes seeds: "seeds_ok cfg seeds"
    and sol_def: "sol = inclusion_solve (inclusion_start cfg seeds cs)"
  shows "covers_seeds seeds (solution_value sol)"
    "\<not> so_incomplete sol \<Longrightarrow> \<forall>c \<in> set cs. satisfied cfg (solution_value sol) c \<and> \<not> is_call c"
    "constraint_model_of cfg seeds cs W \<Longrightarrow> set_less_equal (av_may (solution_value sol v)) (av_may (W v))"
    "value_ok (max_alias_set_size cfg) (solution_value sol v)"
proof -
  let ?s = "inclusion_start cfg seeds cs" and ?l = "max_fixpoint_iterations cfg"
  note st = inclusion_start_facts [OF seeds, of cs]
  obtain s' n where l: "inclusion_loop ?l True 0 ?s = (s', n)" by (cases "inclusion_loop ?l True 0 ?s")
  have v: "solution_value sol = inclusion_value s'"
    and i: "so_incomplete sol \<longleftrightarrow> in_incomplete s' \<or> ?l \<le> n"
    using l st(2) by (simp_all add: sol_def inclusion_solve_def Let_def solution_value_def [abs_def] inclusion_value_def [abs_def])
  show "covers_seeds seeds (solution_value sol)"
    unfolding v covers_seeds_def
  proof (clarify)
    fix var x assume "(var, x) \<in> set seeds"
    with st(5) have "set_less_equal (av_may x) (av_may (inclusion_value ?s var))" by (auto simp: covers_seeds_def)
    with inclusion_loop_grows [of ?s var ?l True 0] l
    show "set_less_equal (av_may x) (av_may (inclusion_value s' var))" by (auto intro: set_less_equal_trans)
  qed
  show "\<forall>c \<in> set cs. satisfied cfg (solution_value sol) c \<and> \<not> is_call c" if "\<not> so_incomplete sol"
    using inclusion_loop_fixpoint [OF l] that i st(2,3) v by auto
  show "set_less_equal (av_may (solution_value sol v)) (av_may (W v))" if W: "constraint_model_of cfg seeds cs W"
    using inclusion_loop_below [OF st(6) [OF W] st(1), of ?l True 0] W l st(2,3) v
    by (simp add: constraint_model_of_def below_def)
  show "value_ok (max_alias_set_size cfg) (solution_value sol v)"
  proof -
    have "inclusion_ok s'" "in_config s' = cfg" using inclusion_loop_frame [of ?l True 0 ?s] l st(1,2) by simp_all
    then show ?thesis unfolding v inclusion_ok_def by metis
  qed
qed

lemma frame_solve_inclusion:
  assumes "pc_constraint_model (fr_config f) = InclusionBased"
  shows "frame_solve f = Some (inclusion_solve (inclusion_start (fr_config f) (fr_seeds f) (fr_constraints f)))"
proof -
  have "in_constraints (fold (\<lambda>(var, v). inclusion_seed var v) seeds s) = in_constraints s" for seeds s
    by (induction seeds arbitrary: s) (auto simp: inclusion_seed_def join_var_view)
  then show ?thesis
    using assms by (simp add: frame_solve_def configured_new_def seed_all_inclusion add_all_inclusion
        inclusion_start_def inclusion_new_def)
qed

end
