(* ===== verification/Etas_Unification.thy ===== *)
theory Etas_Unification
  imports Etas_Inclusion
begin

text \<open>
  The unification solver: \<open>find\<close> with path compression returns the root and keeps every root;
  uniting merges classes; and what a run of the solver leaves behind.
\<close>

section \<open>Union find\<close>

text \<open>Parents never increase and stay inside the structure; so every chain ends in a root.\<close>

definition uf_ok :: "(alias_var \<rightharpoonup> alias_var) \<Rightarrow> bool" where
  "uf_ok P \<longleftrightarrow> finite (dom P) \<and> (\<forall>v p. P v = Some p \<longrightarrow> p \<le> v \<and> p \<in> dom P)"

inductive is_root :: "(alias_var \<rightharpoonup> alias_var) \<Rightarrow> alias_var \<Rightarrow> alias_var \<Rightarrow> bool" for P where
  root_None: "P v = None \<Longrightarrow> is_root P v v"
| root_self: "P v = Some v \<Longrightarrow> is_root P v v"
| root_step: "P v = Some p \<Longrightarrow> p \<noteq> v \<Longrightarrow> is_root P p r \<Longrightarrow> is_root P v r"

lemma is_root_unique: "is_root P v r \<Longrightarrow> is_root P v r' \<Longrightarrow> r = r'"
proof (induction arbitrary: r' rule: is_root.induct)
  case (root_None v)
  from root_None.prems show ?case by (cases rule: is_root.cases) (use root_None.hyps in auto)
next
  case (root_self v)
  from root_self.prems show ?case by (cases rule: is_root.cases) (use root_self.hyps in auto)
next
  case (root_step v p r)
  from root_step.prems show ?case
  proof (cases rule: is_root.cases)
    case (root_step q)
    with \<open>P v = Some p\<close> have "is_root P p r'" by simp
    then show ?thesis by (rule \<open>\<And>r'. is_root P p r' \<Longrightarrow> r = r'\<close>)
  qed (use root_step.hyps in simp_all)
qed

lemma is_root_top: "is_root P v r \<Longrightarrow> P r = None \<or> P r = Some r"
  by (induction rule: is_root.induct) auto

lemma is_root_le: "is_root P v r \<Longrightarrow> uf_ok P \<Longrightarrow> r \<le> v"
proof (induction rule: is_root.induct)
  case (root_step v p r)
  then have "r \<le> p" "p \<le> v" by (simp_all add: uf_ok_def)
  then show ?case by (rule order_trans)
qed simp_all

lemma is_root_dom: "is_root P v r \<Longrightarrow> uf_ok P \<Longrightarrow> v \<in> dom P \<Longrightarrow> P r = Some r"
proof (induction rule: is_root.induct)
  case (root_step v p r)
  moreover have "p \<in> dom P" using root_step by (simp add: uf_ok_def)
  ultimately show ?case by simp
qed auto

lemma is_root_same_class:
  assumes "is_root P v r" "\<And>x. x \<in> dom P \<Longrightarrow> True"
  shows "is_root P r r"
  using is_root_top [OF assms(1)] by (auto intro: root_None root_self)

lemma uf_ok_root_ex:
  assumes "uf_ok P"
  shows "\<exists>r. is_root P v r"
proof (induction "card {w \<in> dom P. w < v}" arbitrary: v rule: less_induct)
  case less
  show ?case
  proof (cases "P v")
    case None
    then show ?thesis by (blast intro: root_None)
  next
    case (Some p)
    show ?thesis
    proof (cases "p = v")
      case True
      with Some show ?thesis by (blast intro: root_self)
    next
      case False
      have "p \<le> v" "p \<in> dom P" using assms Some by (auto simp: uf_ok_def)
      then have p: "p < v" "p \<in> dom P" using False by (auto intro: le_neq_trans)
      have "finite {w \<in> dom P. w < v}" using assms by (simp add: uf_ok_def)
      moreover have "{w \<in> dom P. w < p} \<subset> {w \<in> dom P. w < v}" using p by auto
      ultimately have "card {w \<in> dom P. w < p} < card {w \<in> dom P. w < v}" by (rule psubset_card_mono)
      from less [OF this] obtain r where "is_root P p r" by blast
      with Some False show ?thesis by (blast intro: root_step)
    qed
  qed
qed

text \<open>Redirecting a node to its own root keeps every root.\<close>

lemma is_root_compress:
  assumes "is_root P v r" and ok: "uf_ok P"
  shows "is_root (P(v \<mapsto> r)) w x \<longleftrightarrow> is_root P w x"
proof -
  let ?P = "P(v \<mapsto> r)"
  have r: "is_root ?P r r"
    using is_root_top [OF assms(1)] assms(1)
    by (cases "r = v") (auto intro: root_self root_None)
  have fw: "is_root ?P w x" if "is_root P w x" for w x
    using that
  proof (induction rule: is_root.induct)
    case (root_None w)
    then show ?case
    proof (cases "w = v")
      case True
      with root_None assms(1) have "r = v" using is_root_unique is_root.root_None by blast
      with True show ?thesis by (auto intro: root_self)
    qed (auto intro: is_root.root_None)
  next
    case (root_self w)
    then show ?case
    proof (cases "w = v")
      case True
      with root_self assms(1) have "r = v" using is_root_unique is_root.root_self by blast
      with True show ?thesis by (auto intro: is_root.root_self)
    qed (auto intro: is_root.root_self)
  next
    case (root_step w p x)
    show ?case
    proof (cases "w = v")
      case True
      with root_step assms(1) have "x = r" using is_root_unique is_root.root_step by metis
      moreover have "is_root ?P v r"
        by (cases "r = v") (use r is_root.root_step [of ?P v r r] in simp_all)
      ultimately show ?thesis using True by (simp del: fun_upd_apply)
    next
      case False
      with root_step show ?thesis by (auto intro: is_root.root_step)
    qed
  qed
  show ?thesis
  proof
    assume h: "is_root ?P w x"
    obtain y where y: "is_root P w y" using uf_ok_root_ex [OF ok] by blast
    with fw h is_root_unique show "is_root P w x" by metis
  qed (rule fw)
qed

lemma uf_ok_insert:
  "uf_ok P \<Longrightarrow> r \<le> v \<Longrightarrow> r \<in> insert v (dom P) \<Longrightarrow> uf_ok (P(v \<mapsto> r))"
  by (auto simp: uf_ok_def)

text \<open>\<open>find\<close> returns, with the root; path compression keeps every root.\<close>

lemma uf_find_spec:
  assumes "uf_ok P"
  shows "\<exists>r P'. uf_find v P = Some (r, P') \<and> is_root P v r \<and> uf_ok P' \<and> P' r = Some r \<and>
    dom P' = insert v (dom P) \<and> (\<forall>w x. is_root P' w x \<longleftrightarrow> is_root P w x)"
proof -
  obtain r where r: "is_root P v r" using uf_ok_root_ex [OF assms] by blast
  from r assms show ?thesis
  proof (induction arbitrary: rule: is_root.induct)
    case (root_None v)
    have "is_root P v v" using root_None by (auto intro: is_root.root_None)
    with root_None show ?case
      by (subst uf_find.simps) (auto simp: uf_ok_insert is_root_compress)
  next
    case (root_self v)
    then show ?case
      by (subst uf_find.simps) (auto intro: is_root.root_self)
  next
    case (root_step v p r)
    from root_step.IH [OF root_step.prems] obtain r' P' where f: "uf_find p P = Some (r', P')"
      "is_root P p r'" "uf_ok P'" "P' r' = Some r'" "dom P' = insert p (dom P)"
      "\<forall>w x. is_root P' w x \<longleftrightarrow> is_root P w x" by blast
    have rr: "r' = r" using f(2) root_step.hyps(3) is_root_unique by blast
    have v: "is_root P v r" using root_step.hyps by (auto intro: is_root.root_step)
    then have v': "is_root P' v r" using f(6) by simp
    have p: "p \<in> dom P" using root_step.hyps(1) root_step.prems by (auto simp: uf_ok_def)
    have "uf_find v P = Some (r, P'(v \<mapsto> r))"
      using root_step.hyps f(1) rr by (subst uf_find.simps) simp
    moreover have "uf_ok (P'(v \<mapsto> r))"
      using f(3,4,5) rr is_root_le [OF v' f(3)] by (intro uf_ok_insert) auto
    moreover have "(P'(v \<mapsto> r)) r = Some r" using f(4) rr by simp
    moreover have "dom (P'(v \<mapsto> r)) = insert v (dom P)" using f(5) p by auto
    ultimately show ?case using v is_root_compress [OF v' f(3)] f(6) by blast
  qed
qed

text \<open>The representative of a variable.\<close>

definition rep :: "(alias_var \<rightharpoonup> alias_var) \<Rightarrow> alias_var \<Rightarrow> alias_var" where
  "rep P v = fst (the (uf_find v P))"

lemma rep_root: "uf_ok P \<Longrightarrow> is_root P v (rep P v)"
  using uf_find_spec [of P v] by (auto simp: rep_def)

lemma rep_eqI: "uf_ok P \<Longrightarrow> is_root P v r \<Longrightarrow> rep P v = r"
  using rep_root is_root_unique by blast

lemma rep_cong: "uf_ok P \<Longrightarrow> uf_ok P' \<Longrightarrow> \<forall>w x. is_root P' w x \<longleftrightarrow> is_root P w x \<Longrightarrow> rep P' v = rep P v"
  using rep_root is_root_unique by blast

lemma uf_find_rep:
  assumes "uf_ok P"
  obtains P' where "uf_find v P = Some (rep P v, P')" "uf_ok P'" "rep P' = rep P"
    "P' (rep P v) = Some (rep P v)" "dom P' = insert v (dom P)"
proof -
  from uf_find_spec [OF assms, of v] obtain r P' where f: "uf_find v P = Some (r, P')" "uf_ok P'"
    "P' r = Some r" "dom P' = insert v (dom P)" "\<forall>w x. is_root P' w x \<longleftrightarrow> is_root P w x" by blast
  moreover have "rep P v = r" using f(1) by (simp add: rep_def)
  moreover have "rep P' = rep P" using rep_cong [OF assms f(2) f(5)] by blast
  ultimately show ?thesis using that by blast
qed

lemma rep_idem: "uf_ok P \<Longrightarrow> rep P (rep P v) = rep P v"
  by (meson is_root_same_class rep_eqI rep_root)

text \<open>Linking one root below another.\<close>

lemma rep_link:
  assumes ok: "uf_ok P" and a: "P a = Some a" and b: "P b = Some b" and le: "a \<le> b"
  shows "uf_ok (P(b \<mapsto> a))" "rep (P(b \<mapsto> a)) v = (if rep P v = b then a else rep P v)"
proof -
  show ok': "uf_ok (P(b \<mapsto> a))" using ok a le by (intro uf_ok_insert) auto
  have ra: "is_root (P(b \<mapsto> a)) a a" using a by (cases "a = b") (auto intro: root_self)
  have "is_root (P(b \<mapsto> a)) v (if r = b then a else r)" if "is_root P v r" for v r
    using that
  proof (induction rule: is_root.induct)
    case (root_None v)
    then show ?case using b by (auto intro: is_root.root_None)
  next
    case (root_self v)
    then show ?case
      by (cases "a = b"; cases "v = b")
        (use root_self ra is_root.root_step [of "P(b \<mapsto> a)" b a a] is_root.root_self [of "P(b \<mapsto> a)" v]
          in \<open>simp_all del: fun_upd_apply, simp_all\<close>)
  next
    case (root_step v p r)
    then have "v \<noteq> b" using b by auto
    with root_step show ?case
      by (intro is_root.root_step [of "P(b \<mapsto> a)" v p]) (simp_all del: fun_upd_apply, simp)
  qed
  from this [OF rep_root [OF ok]] show "rep (P(b \<mapsto> a)) v = (if rep P v = b then a else rep P v)"
    by (rule rep_eqI [OF ok'])
qed

section \<open>The unification solver\<close>

abbreviation un_limit :: "unification_solver \<Rightarrow> nat" where
  "un_limit s \<equiv> max_alias_set_size (un_config s)"

abbreviation urep :: "unification_solver \<Rightarrow> alias_var \<Rightarrow> alias_var" where
  "urep s \<equiv> rep (un_parent s)"

text \<open>The value of a variable is the value of its representative.\<close>

definition un_view :: "unification_solver \<Rightarrow> alias_var \<Rightarrow> alias_value" where
  "un_view s v = or_default (un_values s (urep s v))"

definition unification_ok :: "unification_solver \<Rightarrow> bool" where
  "unification_ok s \<longleftrightarrow> 1 \<le> un_limit s \<and> uf_ok (un_parent s) \<and>
     (\<forall>r \<in> dom (un_values s). urep s r = r \<and> r \<in> dom (un_parent s)) \<and> (\<forall>v. value_ok (un_limit s) (un_view s v))"

lemma unification_okD:
  assumes "unification_ok s"
  shows "1 \<le> un_limit s" "uf_ok (un_parent s)" "un_values s r \<noteq> None \<Longrightarrow> urep s r = r"
    "value_ok (un_limit s) (un_view s v)" "dom (un_values s) \<subseteq> dom (un_parent s)"
  using assms by (auto simp: unification_ok_def)

lemma rep_top:
  assumes ok: "uf_ok P" and r: "rep P r = r" and d: "r \<in> dom P"
  shows "P r = Some r"
  using is_root_dom [OF _ ok d, of r] rep_root [OF ok, of r] r by simp

lemma rep_outside: "uf_ok P \<Longrightarrow> v \<notin> dom P \<Longrightarrow> rep P v = v"
  by (rule rep_eqI) (auto intro: root_None)

lemma unification_find_spec:
  assumes ok: "unification_ok s"
  obtains P where "unification_find v s = Some (urep s v, s\<lparr>un_parent := P\<rparr>)" "uf_ok P"
    "rep P = urep s" "dom P = insert v (dom (un_parent s))" "P (urep s v) = Some (urep s v)"
proof (rule uf_find_rep [OF unification_okD(2) [OF ok], of v])
  fix P assume "uf_find v (un_parent s) = Some (urep s v, P)" "uf_ok P" "rep P = urep s"
    "P (urep s v) = Some (urep s v)" "dom P = insert v (dom (un_parent s))"
  then show thesis using that [of P] by (simp add: unification_find_def)
qed

lemma unification_ok_parent:
  "unification_ok s \<Longrightarrow> uf_ok P \<Longrightarrow> rep P = urep s \<Longrightarrow> dom P = insert v (dom (un_parent s)) \<Longrightarrow>
     unification_ok (s\<lparr>un_parent := P\<rparr>)"
  by (auto simp: unification_ok_def un_view_def)

lemma un_view_parent: "rep P = urep s \<Longrightarrow> un_view (s\<lparr>un_parent := P\<rparr>) = un_view s"
  by (simp add: un_view_def fun_eq_iff)

lemma urep_idem: "unification_ok s \<Longrightarrow> urep s (urep s v) = urep s v"
  by (simp add: rep_idem unification_ok_def)

lemma un_view_rep: "unification_ok s \<Longrightarrow> un_view s (urep s v) = un_view s v"
  by (simp add: un_view_def urep_idem)

text \<open>Seeding joins the value into the whole class of the variable.\<close>

lemma unification_seed_spec:
  assumes ok: "unification_ok s" and v: "value_ok (un_limit s) v"
  obtains s' where "unification_seed var v s = Some s'" "unification_ok s'" "urep s' = urep s"
    "\<And>w. un_view s' w = (if urep s w = urep s var then vsup (un_limit s) (un_view s var) v else un_view s w)"
    "un_config s' = un_config s" "un_constraints s' = un_constraints s" "un_incomplete s' = un_incomplete s"
proof -
  let ?r = "urep s var"
  obtain P where P: "unification_find var s = Some (?r, s\<lparr>un_parent := P\<rparr>)" "uf_ok P" "rep P = urep s"
    "dom P = insert var (dom (un_parent s))" "P ?r = Some ?r"
    by (rule unification_find_spec [OF ok, of var])
  let ?n = "vsup (un_limit s) (un_view s var) v"
  define s' where "s' = s\<lparr>un_parent := P, un_values := (un_values s)(?r \<mapsto> ?n)\<rparr>"
  have e: "unification_seed var v s = Some s'"
    using P(1) by (simp add: unification_seed_def s'_def un_view_def vsup_def)
  have r: "urep s' = urep s" by (simp add: s'_def P(3))
  have view: "un_view s' w = (if urep s w = ?r then ?n else un_view s w)" for w
    unfolding un_view_def r by (simp add: s'_def un_view_def)
  have ok': "unification_ok s'"
    unfolding unification_ok_def r view
    using unification_okD [OF ok] urep_idem [OF ok] P v
    by (auto simp: s'_def vsup_ok)
  have fr: "un_config s' = un_config s" "un_constraints s' = un_constraints s" "un_incomplete s' = un_incomplete s"
    by (simp_all add: s'_def)
  show ?thesis by (rule that [OF e ok' r view fr])
qed

text \<open>Uniting merges two classes into one whose value is above both.\<close>

lemma unification_union_spec:
  assumes ok: "unification_ok s"
  obtains s' x where "unification_union a b s = Some s'" "unification_ok s'"
    "\<And>w. un_view s' w = (if urep s w = urep s a \<or> urep s w = urep s b then x else un_view s w)"
    "set_less_equal (av_may (un_view s a)) (av_may x)" "set_less_equal (av_may (un_view s b)) (av_may x)"
    "\<And>w. urep s' w = (if urep s w = urep s a \<or> urep s w = urep s b
       then min (urep s a) (urep s b) else urep s w)"
    "un_config s' = un_config s" "un_constraints s' = un_constraints s" "un_incomplete s' = un_incomplete s"
proof -
  let ?l = "urep s a" and ?r = "urep s b" and ?L = "un_limit s"
  obtain P where P: "unification_find a s = Some (?l, s\<lparr>un_parent := P\<rparr>)" "uf_ok P" "rep P = urep s"
    "dom P = insert a (dom (un_parent s))" "P ?l = Some ?l" by (rule unification_find_spec [OF ok, of a])
  let ?s = "s\<lparr>un_parent := P\<rparr>"
  have ok1: "unification_ok ?s" by (rule unification_ok_parent [OF ok P(2,3,4)])
  obtain Q where Q: "unification_find b ?s = Some (?r, s\<lparr>un_parent := Q\<rparr>)" "uf_ok Q" "rep Q = urep s"
    "Q ?r = Some ?r" "dom Q = insert b (dom P)"
  proof (rule unification_find_spec [OF ok1, of b])
    fix Q assume "unification_find b ?s = Some (urep ?s b, ?s\<lparr>un_parent := Q\<rparr>)" "uf_ok Q"
      "rep Q = urep ?s" "dom Q = insert b (dom (un_parent ?s))" "Q (urep ?s b) = Some (urep ?s b)"
    then show thesis using that [of Q] P(3) by simp
  qed
  have ok2: "unification_ok (s\<lparr>un_parent := Q\<rparr>)"
    using unification_ok_parent [OF ok1 Q(2), of b] Q(3,5) P(3) by simp
  have Ql: "Q ?l = Some ?l" using rep_top [OF Q(2), of ?l] Q(3,5) P(5) urep_idem [OF ok, of a] by auto
  show ?thesis
  proof (cases "?l = ?r")
    case True
    show ?thesis
      by (rule that [of "s\<lparr>un_parent := Q\<rparr>" "un_view s a"])
        (use P Q True ok2 in \<open>simp_all add: unification_union_def un_view_parent un_view_def\<close>)
  next
    case False
    define x where "x = (case un_values s ?r of None \<Rightarrow> un_view s a | Some w \<Rightarrow> vsup ?L (un_view s a) w)"
    define root where "root = min ?l ?r"
    define oth where "oth = max ?l ?r"
    have ro: "(if ?l \<le> ?r then (?l, ?r) else (?r, ?l)) = (root, oth)"
      by (simp add: root_def oth_def min_def max_def)
    have le: "root \<le> oth" by (auto simp: root_def oth_def min_def max_def)
    have ne: "root \<noteq> oth" and set: "{root, oth} = {?l, ?r}"
      using False by (auto simp: root_def oth_def min_def max_def)
    have Qro: "Q root = Some root" "Q oth = Some oth" using Q(4) Ql by (auto simp: root_def oth_def min_def max_def)
    define s' where "s' = s\<lparr>un_parent := Q(oth \<mapsto> root), un_values := ((un_values s)(?l := None, ?r := None))(root \<mapsto> x)\<rparr>"
    have e: "unification_union a b s = Some s'"
      using P(1) Q(1) False ro
      by (auto simp: unification_union_def s'_def x_def un_view_def vsup_def Let_def split: option.splits)
    note link = rep_link [OF Q(2) Qro le]
    have r: "urep s' w = (if urep s w = ?l \<or> urep s w = ?r then root else urep s w)" for w
    proof -
      have "root = ?l \<and> oth = ?r \<or> root = ?r \<and> oth = ?l" by (simp add: root_def oth_def min_def max_def)
      with link(2) [of w] Q(3) show ?thesis by (auto simp: s'_def simp del: fun_upd_apply)
    qed
    have rr: "urep s' w = root \<longleftrightarrow> urep s w = ?l \<or> urep s w = ?r" for w
      unfolding r using set by auto
    have view: "un_view s' w = (if urep s w = ?l \<or> urep s w = ?r then x else un_view s w)" for w
    proof (cases "urep s w = ?l \<or> urep s w = ?r")
      case True
      then have "urep s' w = root" using rr by blast
      with True show ?thesis by (simp add: un_view_def) (simp add: s'_def)
    next
      case False
      then have "urep s' w = urep s w" "urep s w \<noteq> root" using r [of w] rr [of w] by auto
      with False show ?thesis by (simp add: un_view_def) (simp add: s'_def)
    qed
    have xok: "value_ok ?L x"
      using unification_okD(1) [OF ok] unification_okD(4) [OF ok, of a] unification_okD(4) [OF ok, of b]
      by (auto simp: x_def un_view_def [of s b] intro!: vsup_ok split: option.splits)
    have la: "set_less_equal (av_may (un_view s a)) (av_may x)"
      by (auto simp: x_def set_join_upper split: option.splits)
    have lb: "set_less_equal (av_may (un_view s b)) (av_may x)"
      by (auto simp: x_def un_view_def [of s b] value_bottom_def set_join_upper split: option.splits)
    have keys: "urep s' k = k" if "un_values s' k \<noteq> None" for k
    proof (cases "k = root")
      case True
      have "urep s root = root" using urep_idem [OF ok] by (simp add: root_def min_def)
      then have "urep s' root = root" using rr [of root] set by auto
      with True show ?thesis by simp
    next
      case False
      then have "k \<noteq> ?l" "k \<noteq> ?r" "un_values s k \<noteq> None" using that by (auto simp: s'_def split: if_splits)
      with unification_okD(3) [OF ok] r [of k] show ?thesis by simp
    qed
    have ok': "unification_ok s'"
      unfolding unification_ok_def view
    proof (intro conjI ballI allI)
      show "1 \<le> un_limit s'" "uf_ok (un_parent s')" using unification_okD(1) [OF ok] link(1) by (simp_all add: s'_def)
      show "urep s' k = k" if "k \<in> dom (un_values s')" for k using keys [of k] that by blast
      show "k \<in> dom (un_parent s')" if "k \<in> dom (un_values s')" for k
        using that unification_okD(5) [OF ok] P(4) Q(5) Qro by (auto simp: s'_def split: if_splits)
      show "value_ok (un_limit s') (if urep s v = ?l \<or> urep s v = ?r then x else un_view s v)" for v
        using xok unification_okD(4) [OF ok] by (simp add: s'_def)
    qed
    have fr: "un_config s' = un_config s" "un_constraints s' = un_constraints s" "un_incomplete s' = un_incomplete s"
      by (simp_all add: s'_def)
    show ?thesis by (rule that [OF e ok' view la lb r [unfolded root_def] fr])
  qed
qed

text \<open>Every step of the solver keeps what was united and only adds may-aliases.\<close>

definition coarser :: "(alias_var \<Rightarrow> alias_var) \<Rightarrow> (alias_var \<Rightarrow> alias_var) \<Rightarrow> bool" where
  "coarser R R' \<longleftrightarrow> (\<forall>v w. R v = R w \<longrightarrow> R' v = R' w)"

lemma coarserD: "coarser R R' \<Longrightarrow> R v = R w \<Longrightarrow> R' v = R' w"
  unfolding coarser_def by blast

lemma coarser_refl [simp]: "coarser R R"
  by (simp add: coarser_def)

lemma coarser_trans: "coarser R S \<Longrightarrow> coarser S T \<Longrightarrow> coarser R T"
  unfolding coarser_def by blast

definition un_grows :: "unification_solver \<Rightarrow> unification_solver \<Rightarrow> bool" where
  "un_grows s s' \<longleftrightarrow> unification_ok s' \<and> un_config s' = un_config s \<and> un_constraints s' = un_constraints s \<and>
     (un_incomplete s \<longrightarrow> un_incomplete s') \<and>
     coarser (urep s) (urep s') \<and>
     (\<forall>v. set_less_equal (av_may (un_view s v)) (av_may (un_view s' v)))"

lemma un_grows_refl: "unification_ok s \<Longrightarrow> un_grows s s"
  by (simp add: un_grows_def)

lemma un_growsD:
  assumes "un_grows s s'"
  shows "unification_ok s'" "un_config s' = un_config s" "un_constraints s' = un_constraints s"
    "un_incomplete s \<Longrightarrow> un_incomplete s'" "coarser (urep s) (urep s')"
    "set_less_equal a (av_may (un_view s v)) \<Longrightarrow> set_less_equal a (av_may (un_view s' v))"
proof -
  show "unification_ok s'" "un_config s' = un_config s" "un_constraints s' = un_constraints s"
    "un_incomplete s \<Longrightarrow> un_incomplete s'" "coarser (urep s) (urep s')"
    using assms by (simp_all add: un_grows_def)
  show "set_less_equal a (av_may (un_view s' v))" if "set_less_equal a (av_may (un_view s v))"
    using assms set_less_equal_trans [OF that] unfolding un_grows_def by blast
qed

lemma un_grows_trans: "un_grows s t \<Longrightarrow> un_grows t u \<Longrightarrow> un_grows s u"
  unfolding un_grows_def [of s u]
  by (simp add: un_growsD(1-4)) (metis coarser_trans set_less_equal_refl un_growsD)

text \<open>What a constraint leaves behind when it has been applied.\<close>

fun united :: "unification_solver \<Rightarrow> alias_constraint \<Rightarrow> bool" where
  "united s (CAddrOf dst target) \<longleftrightarrow> set_less_equal (AKnown {target}) (av_may (un_view s dst))"
| "united s (CCopy dst src) \<longleftrightarrow> urep s dst = urep s src"
| "united s (CLoad dst src) \<longleftrightarrow> urep s dst = urep s src"
| "united s (CStore dst src) \<longleftrightarrow> urep s dst = urep s src"
| "united s (CProject dst base pr) \<longleftrightarrow> True"
| "united s (CCall dst callee args site) \<longleftrightarrow> un_incomplete s \<and>
     (case dst of None \<Rightarrow> True | Some d \<Rightarrow> av_may (un_view s d) = AUnknown)"

lemma set_above_unknown: "set_less_equal AUnknown a \<Longrightarrow> a = AUnknown"
  by (cases a) auto

lemma united_grows:
  assumes g: "un_grows s s'" and u: "united s c"
  shows "united s' c"
proof (cases c)
  case (CCall dst callee args site)
  have "av_may (un_view s' d) = AUnknown" if "av_may (un_view s d) = AUnknown" for d
    by (rule set_above_unknown, rule un_growsD(6) [OF g]) (simp add: that)
  with u un_growsD(4) [OF g] show ?thesis by (cases dst) (auto simp: CCall)
next
  case (CAddrOf dst target)
  with u show ?thesis by (simp add: un_growsD(6) [OF g])
next
  case (CCopy dst src)
  with u show ?thesis using coarserD [OF un_growsD(5) [OF g], of dst src] by simp
next
  case (CLoad dst src)
  with u show ?thesis using coarserD [OF un_growsD(5) [OF g], of dst src] by simp
next
  case (CStore dst src)
  with u show ?thesis using coarserD [OF un_growsD(5) [OF g], of dst src] by simp
qed simp

text \<open>A variable no constraint has touched is alone in its class.\<close>

definition alone :: "unification_solver \<Rightarrow> alias_var \<Rightarrow> bool" where
  "alone s v \<longleftrightarrow> (\<forall>w. urep s w = urep s v \<longrightarrow> w = v)"

definition un_step :: "unification_solver \<Rightarrow> alias_var set \<Rightarrow> unification_solver \<Rightarrow> bool" where
  "un_step s V s' \<longleftrightarrow> un_grows s s' \<and>
     (\<forall>v. v \<notin> V \<longrightarrow> alone s v \<longrightarrow> alone s' v \<and> un_view s' v = un_view s v)"

lemma un_step_refl: "unification_ok s \<Longrightarrow> un_step s V s"
  by (simp add: un_step_def un_grows_refl)

lemma un_step_trans: "un_step s V t \<Longrightarrow> un_step t W u \<Longrightarrow> un_step s (V \<union> W) u"
  by (auto simp: un_step_def intro: un_grows_trans)

lemma un_step_mono: "un_step s V t \<Longrightarrow> V \<subseteq> W \<Longrightarrow> un_step s W t"
  by (auto simp: un_step_def)

lemma un_stepD: "un_step s V t \<Longrightarrow> un_grows s t" "un_step s V t \<Longrightarrow> unification_ok t"
  "un_step s V t \<Longrightarrow> un_config t = un_config s"
  by (simp_all add: un_step_def un_grows_def)

lemma unification_seed_step:
  assumes ok: "unification_ok s" and v: "value_ok (un_limit s) v"
  obtains s' where "unification_seed var v s = Some s'" "un_step s {var} s'"
    "un_incomplete s' = un_incomplete s"
    "set_less_equal (av_may v) (av_may (un_view s' var))"
    "un_view s' var = vsup (un_limit s) (un_view s var) v" "urep s' = urep s"
proof (rule unification_seed_spec [OF ok v, of var])
  fix s' assume s': "unification_seed var v s = Some s'" "unification_ok s'" "urep s' = urep s"
    "\<And>w. un_view s' w = (if urep s w = urep s var then vsup (un_limit s) (un_view s var) v else un_view s w)"
    "un_config s' = un_config s" "un_constraints s' = un_constraints s" "un_incomplete s' = un_incomplete s"
  have "set_less_equal (av_may (un_view s w)) (av_may (un_view s' w))" for w
  proof (cases "urep s w = urep s var")
    case True
    then have "un_view s w = un_view s var" by (simp add: un_view_def)
    with True s'(4) show ?thesis by (simp add: set_join_upper)
  qed (simp add: s'(4))
  with s' have g: "un_grows s s'" by (simp add: un_grows_def)
  have "un_view s' w = un_view s w" if "w \<noteq> var" "alone s w" for w
    using that s'(4) by (auto simp: alone_def)
  with g s'(3) have "un_step s {var} s'" by (simp add: un_step_def alone_def)
  with s' show thesis by (intro that [of s']) (simp_all add: set_join_upper)
qed

lemma unification_union_step:
  assumes ok: "unification_ok s"
  obtains s' where "unification_union a b s = Some s'" "un_step s {a, b} s'"
    "un_incomplete s' = un_incomplete s" "urep s' a = urep s' b"
proof (rule unification_union_spec [OF ok, of a b])
  fix s' x assume s': "unification_union a b s = Some s'" "unification_ok s'"
    "\<And>w. un_view s' w = (if urep s w = urep s a \<or> urep s w = urep s b then x else un_view s w)"
    "set_less_equal (av_may (un_view s a)) (av_may x)" "set_less_equal (av_may (un_view s b)) (av_may x)"
    "\<And>w. urep s' w = (if urep s w = urep s a \<or> urep s w = urep s b
       then min (urep s a) (urep s b) else urep s w)"
    "un_config s' = un_config s" "un_constraints s' = un_constraints s" "un_incomplete s' = un_incomplete s"
  have "set_less_equal (av_may (un_view s w)) (av_may (un_view s' w))" for w
  proof (cases "urep s w = urep s a \<or> urep s w = urep s b")
    case True
    then have "un_view s w = un_view s a \<or> un_view s w = un_view s b" by (auto simp: un_view_def)
    with True s'(3-5) show ?thesis by auto
  next
    case False
    with s'(3) show ?thesis by simp
  qed
  moreover have "coarser (urep s) (urep s')" by (simp add: coarser_def s'(6))
  ultimately have g: "un_grows s s'" using s' by (simp add: un_grows_def)
  have "alone s' w \<and> un_view s' w = un_view s w" if "w \<noteq> a" "w \<noteq> b" "alone s w" for w
  proof -
    have n: "urep s w \<noteq> urep s a" "urep s w \<noteq> urep s b" using that by (auto simp: alone_def)
    have "y = w" if h: "urep s' y = urep s' w" for y
    proof -
      have m: "min (urep s a) (urep s b) \<noteq> urep s w" using n by (simp add: min_def)
      have "urep s y = urep s w" using h n m s'(6) [of y] s'(6) [of w] by (simp split: if_splits)
      with \<open>alone s w\<close> show ?thesis by (simp add: alone_def)
    qed
    with n s'(3) [of w] show ?thesis by (simp add: alone_def)
  qed
  with g have "un_step s {a, b} s'" by (simp add: un_step_def)
  with s' show thesis by (intro that [of s']) simp_all
qed

text \<open>Applying a constraint.\<close>

lemma unification_apply_step:
  assumes ok: "unification_ok s"
  obtains s' where "unification_apply c s = Some s'" "un_step s (set (constraint_vars c)) s'" "united s' c"
    "un_incomplete s' = (un_incomplete s \<or> is_call c)"
proof (cases c)
  case (CAddrOf dst target)
  have v: "value_ok (un_limit s) (from_place target)" using unification_okD(1) [OF ok] by simp
  obtain s' where s': "unification_seed dst (from_place target) s = Some s'" "un_step s {dst} s'"
    "un_incomplete s' = un_incomplete s" "set_less_equal (av_may (from_place target)) (av_may (un_view s' dst))"
    by (rule unification_seed_step [OF ok v, of dst])
  show ?thesis
    using that [of s'] s' by (simp add: CAddrOf is_call_def from_place_def)
next
  case (CProject dst base pr)
  obtain P where P: "unification_find base s = Some (urep s base, s\<lparr>un_parent := P\<rparr>)" "uf_ok P" "rep P = urep s"
    "dom P = insert base (dom (un_parent s))"
    by (rule unification_find_spec [OF ok, of base])
  let ?s = "s\<lparr>un_parent := P\<rparr>" and ?v = "value_project (un_view s base) pr (un_config s)"
  have ok1: "unification_ok ?s" by (rule unification_ok_parent [OF ok P(2,3,4)])
  have v: "value_ok (un_limit ?s) ?v"
    using value_project_ok [OF unification_okD(4) [OF ok, of base]] unification_okD(1) [OF ok] by simp
  have st: "un_step s {} ?s"
    using ok1 P(3) by (simp add: un_step_def un_grows_def un_view_parent alone_def)
  show ?thesis
  proof (rule unification_seed_step [OF ok1 v, of dst])
    fix s' assume s': "unification_seed dst ?v ?s = Some s'" "un_step ?s {dst} s'" "un_incomplete s' = un_incomplete ?s"
    have "unification_apply c s = Some s'"
      using P(1) s'(1) CProject by (simp add: unification_value_def un_view_def)
    moreover have "un_step s (set (constraint_vars c)) s'"
      by (rule un_step_mono [OF un_step_trans [OF st s'(2)]]) (simp add: CProject)
    ultimately show thesis using that [of s'] s'(3) CProject by (simp add: is_call_def)
  qed
next
  case (CCall dst callee args site)
  let ?s = "s\<lparr>un_incomplete := True\<rparr>"
  have ok1: "unification_ok ?s" using ok by (simp add: unification_ok_def un_view_def)
  have st: "un_step s {} ?s" using ok1 by (simp add: un_step_def un_grows_def un_view_def alone_def)
  show ?thesis
  proof (cases dst)
    case None
    then show ?thesis
      using that [of ?s] un_step_mono [OF st, of "set (constraint_vars c)"] CCall by (simp add: is_call_def)
  next
    case (Some d)
    have "value_ok (un_limit ?s) value_unknown" by simp
    then show ?thesis
    proof (rule unification_seed_step [OF ok1, of _ d])
      fix s' assume s': "unification_seed d value_unknown ?s = Some s'" "un_step ?s {d} s'"
        "un_incomplete s' = un_incomplete ?s" "set_less_equal (av_may value_unknown) (av_may (un_view s' d))"
      have "av_may (un_view s' d) = AUnknown" using s'(4) by (intro set_above_unknown) (simp add: value_unknown_def)
      moreover have "un_step s (set (constraint_vars c)) s'"
        by (rule un_step_mono [OF un_step_trans [OF st s'(2)]]) (simp add: CCall Some)
      ultimately show thesis using that [of s'] s'(1,3) CCall Some by (simp add: is_call_def)
    qed
  qed
next
  case (CCopy dst src)
  obtain s' where s': "unification_union dst src s = Some s'" "un_step s {dst, src} s'"
    "un_incomplete s' = un_incomplete s" "urep s' dst = urep s' src"
    by (rule unification_union_step [OF ok, of dst src])
  show ?thesis
    using that [of s'] s' by (simp add: CCopy is_call_def)
next
  case (CLoad dst src)
  obtain s' where s': "unification_union dst src s = Some s'" "un_step s {dst, src} s'"
    "un_incomplete s' = un_incomplete s" "urep s' dst = urep s' src"
    by (rule unification_union_step [OF ok, of dst src])
  show ?thesis
    using that [of s'] s' by (simp add: CLoad is_call_def)
next
  case (CStore dst src)
  obtain s' where s': "unification_union dst src s = Some s'" "un_step s {dst, src} s'"
    "un_incomplete s' = un_incomplete s" "urep s' dst = urep s' src"
    by (rule unification_union_step [OF ok, of dst src])
  show ?thesis
    using that [of s'] s' by (simp add: CStore is_call_def)
qed

lemma unification_run_step:
  assumes ok: "unification_ok s"
  obtains s' where "unification_run cs s = Some s'" "un_step s (all_vars cs) s'"
    "\<forall>c \<in> set cs. united s' c" "un_incomplete s' = (un_incomplete s \<or> (\<exists>c \<in> set cs. is_call c))"
proof -
  have "\<exists>s'. unification_run cs s = Some s' \<and> un_step s (all_vars cs) s' \<and>
    (\<forall>c \<in> set cs. united s' c) \<and> un_incomplete s' = (un_incomplete s \<or> (\<exists>c \<in> set cs. is_call c))"
    using ok
  proof (induction cs arbitrary: s)
    case Nil
    then show ?case by (simp add: un_step_refl)
  next
    case (Cons c cs)
    show ?case
    proof (rule unification_apply_step [OF Cons.prems, of c])
      fix t assume t: "unification_apply c s = Some t" "un_step s (set (constraint_vars c)) t" "united t c"
        "un_incomplete t = (un_incomplete s \<or> is_call c)"
      from Cons.IH [OF un_stepD(2) [OF t(2)]] obtain s' where s': "unification_run cs t = Some s'"
        "un_step t (all_vars cs) s'" "\<forall>c \<in> set cs. united s' c"
        "un_incomplete s' = (un_incomplete t \<or> (\<exists>c \<in> set cs. is_call c))" by blast
      have "un_step s (all_vars (c # cs)) s'"
        using un_step_trans [OF t(2) s'(2)] by (simp add: all_vars_def)
      moreover have "united s' c" by (rule united_grows [OF un_stepD(1) [OF s'(2)] t(3)])
      ultimately show ?thesis using t s' by auto
    qed
  qed
  then show ?thesis using that by blast
qed

lemma unification_collect_spec:
  assumes ok: "unification_ok s"
  shows "\<exists>vals'. unification_collect vars s vals = Some vals' \<and>
    (\<forall>v. vals' v = (if v \<in> set vars then Some (un_view s v) else vals v))"
  using ok
proof (induction vars arbitrary: s vals)
  case (Cons var vars)
  obtain P where P: "unification_find var s = Some (urep s var, s\<lparr>un_parent := P\<rparr>)" "uf_ok P" "rep P = urep s"
    "dom P = insert var (dom (un_parent s))"
    by (rule unification_find_spec [OF Cons.prems, of var])
  let ?s = "s\<lparr>un_parent := P\<rparr>"
  have view: "un_view ?s = un_view s" by (rule un_view_parent [OF P(3)])
  from Cons.IH [OF unification_ok_parent [OF Cons.prems P(2-4)], of "vals(var \<mapsto> un_view s var)"]
  obtain vals' where "unification_collect vars ?s (vals(var \<mapsto> un_view s var)) = Some vals'"
    "\<forall>v. vals' v = (if v \<in> set vars then Some (un_view s v) else (vals(var \<mapsto> un_view s var)) v)"
    unfolding view by blast
  then show ?case using P(1) by (auto simp: un_view_def)
qed simp

lemma un_view_outside:
  "unification_ok s \<Longrightarrow> v \<notin> dom (un_parent s) \<Longrightarrow> un_view s v = value_bottom"
proof -
  assume ok: "unification_ok s" and v: "v \<notin> dom (un_parent s)"
  have "urep s v = v" by (rule rep_outside [OF unification_okD(2) [OF ok] v])
  moreover have "un_values s v = None" using unification_okD(5) [OF ok] v by blast
  ultimately show ?thesis by (simp add: un_view_def)
qed

lemma unification_solve_spec:
  assumes ok: "unification_ok s"
  obtains t sol where "unification_solve s = Some sol" "un_step s (all_vars (un_constraints s)) t"
    "solution_value sol = un_view t" "\<forall>c \<in> set (un_constraints s). united t c"
    "so_incomplete sol = (un_incomplete s \<or> (\<exists>c \<in> set (un_constraints s). is_call c))"
    "dom (so_values sol) = dom (un_parent t) \<union> dom (un_values t)"
proof -
  obtain t where t: "unification_run (un_constraints s) s = Some t" "un_step s (all_vars (un_constraints s)) t"
    "\<forall>c \<in> set (un_constraints s). united t c"
    "un_incomplete t = (un_incomplete s \<or> (\<exists>c \<in> set (un_constraints s). is_call c))"
    by (rule unification_run_step [OF ok])
  let ?D = "dom (un_parent t) \<union> dom (un_values t)"
  have ok': "unification_ok t" by (rule un_stepD(2) [OF t(2)])
  have fin: "finite ?D"
    using unification_okD(2,5) [OF ok'] by (auto simp: uf_ok_def intro: finite_subset)
  from unification_collect_spec [OF ok', of "sorted_list_of_set ?D" Map.empty] fin
  obtain vals where vals: "unification_collect (sorted_list_of_set ?D) t Map.empty = Some vals"
    "\<forall>v. vals v = (if v \<in> ?D then Some (un_view t v) else None)" by auto
  let ?sol = "\<lparr>so_values = vals, so_incomplete = un_incomplete t\<rparr>"
  have "unification_solve s = Some ?sol" using t(1) vals(1) by (simp add: unification_solve_def)
  moreover have "solution_value ?sol = un_view t"
    using vals(2) un_view_outside [OF ok'] by (auto simp: solution_value_def fun_eq_iff)
  moreover have "dom vals = ?D" using vals(2) by (auto simp: dom_def)
  ultimately show ?thesis using that [of ?sol t] t by simp
qed

subsection \<open>Seeding\<close>

fun unification_seeds :: "(alias_var \<times> alias_value) list \<Rightarrow> unification_solver \<Rightarrow> unification_solver option" where
  "unification_seeds [] s = Some s"
| "unification_seeds ((var, v) # seeds) s = do { s \<leftarrow> unification_seed var v s; unification_seeds seeds s }"

lemma seed_all_unification:
  "seed_all seeds (CsUnification s) = map_option CsUnification (unification_seeds seeds s)"
  by (induction seeds s rule: unification_seeds.induct) (auto simp: bind_eq_None_conv split: bind_splits)

lemma add_all_unification:
  "fold configured_add cs (CsUnification s) = CsUnification (s\<lparr>un_constraints := un_constraints s @ cs\<rparr>)"
  by (induction cs arbitrary: s) (simp_all add: unification_add_def)

text \<open>
  As long as no classes have been united, seeding gives every variable the same value in both solvers.
\<close>

lemma unification_seeds_spec:
  assumes "unification_ok s" "\<And>v. alone s v" "un_config s = in_config i" "un_view s = inclusion_value i"
    "seeds_ok (in_config i) seeds"
  shows "\<exists>s'. unification_seeds seeds s = Some s' \<and> unification_ok s' \<and> (\<forall>v. alone s' v) \<and>
    un_config s' = un_config s \<and> un_constraints s' = un_constraints s \<and> un_incomplete s' = un_incomplete s \<and>
    un_view s' = inclusion_value (fold (\<lambda>(var, v). inclusion_seed var v) seeds i)"
  using assms
proof (induction seeds arbitrary: s i)
  case (Cons x seeds)
  obtain var v where x: "x = (var, v)" by (cases x)
  have v: "value_ok (un_limit s) v" using Cons.prems(3,5) by (simp add: seeds_ok_def x)
  obtain t where t: "unification_seed var v s = Some t" "unification_ok t" "urep t = urep s"
    "\<forall>w. un_view t w = (if urep s w = urep s var then vsup (un_limit s) (un_view s var) v else un_view s w)"
    "un_config t = un_config s" "un_constraints t = un_constraints s" "un_incomplete t = un_incomplete s"
    by (rule unification_seed_spec [OF Cons.prems(1) v, of var]) blast
  let ?i = "inclusion_seed var v i"
  have alone: "alone t w" for w using Cons.prems(2) [of w] t(3) by (simp add: alone_def)
  have same: "urep s w = urep s var \<longleftrightarrow> w = var" for w using Cons.prems(2) [of var] by (auto simp: alone_def)
  have cfg: "in_config ?i = in_config i" by (simp add: inclusion_seed_def join_var_view)
  have "un_view t w = inclusion_value ?i w" for w
    using Cons.prems(3,4) by (simp add: t(4) same inclusion_seed_def join_var_view)
  then have view: "un_view t = inclusion_value ?i" by blast
  have c: "un_config t = in_config ?i" using t(5) Cons.prems(3) cfg by simp
  have sd: "seeds_ok (in_config ?i) seeds" using Cons.prems(5) cfg by (simp add: seeds_ok_def)
  from Cons.IH [OF t(2) alone c view sd] t show ?case by (simp add: x)
qed (auto simp: fun_eq_iff)

definition un_seeded :: "precision_config \<Rightarrow> (alias_var \<times> alias_value) list \<Rightarrow> unification_solver \<Rightarrow> bool" where
  "un_seeded cfg seeds s \<longleftrightarrow> unification_ok s \<and> (\<forall>v. alone s v) \<and> un_config s = cfg \<and> un_constraints s = [] \<and>
     \<not> un_incomplete s \<and> un_view s = inclusion_value (inclusion_start cfg seeds [])"

lemma unification_new_ok:
  assumes "1 \<le> max_alias_set_size cfg"
  shows "unification_ok (unification_new cfg)" "alone (unification_new cfg) v"
    "un_view (unification_new cfg) = inclusion_value (inclusion_new cfg)"
proof -
  have uf: "uf_ok Map.empty" by (simp add: uf_ok_def)
  have view: "un_view (unification_new cfg) = (\<lambda>v. value_bottom)"
    by (simp add: un_view_def unification_new_def fun_eq_iff)
  show "unification_ok (unification_new cfg)"
    unfolding unification_ok_def view using assms uf by (simp add: unification_new_def)
  show "alone (unification_new cfg) v" by (simp add: alone_def unification_new_def rep_outside [OF uf])
  show "un_view (unification_new cfg) = inclusion_value (inclusion_new cfg)"
    by (simp add: view inclusion_value_def inclusion_new_def fun_eq_iff)
qed

lemma unification_seeds_new:
  assumes "seeds_ok cfg seeds"
  obtains s where "unification_seeds seeds (unification_new cfg) = Some s" "un_seeded cfg seeds s"
proof -
  have L: "1 \<le> max_alias_set_size cfg" using assms by (simp add: seeds_ok_def)
  have c: "un_config (unification_new cfg) = in_config (inclusion_new cfg)"
    by (simp add: unification_new_def inclusion_new_def)
  have sd: "seeds_ok (in_config (inclusion_new cfg)) seeds" using assms by (simp add: inclusion_new_def)
  from unification_seeds_spec [OF unification_new_ok(1,2) [OF L] c unification_new_ok(3) [OF L] sd]
  show ?thesis
    using that by (auto simp: un_seeded_def unification_new_def inclusion_start_def)
qed

lemma un_seeded_add:
  assumes "un_seeded cfg seeds s"
  shows "unification_ok (s\<lparr>un_constraints := cs\<rparr>)" "alone (s\<lparr>un_constraints := cs\<rparr>) v"
    "un_view (s\<lparr>un_constraints := cs\<rparr>) = inclusion_value (inclusion_start cfg seeds [])"
proof -
  have view: "un_view (s\<lparr>un_constraints := cs\<rparr>) = un_view s" by (simp add: un_view_def fun_eq_iff)
  with assms show "un_view (s\<lparr>un_constraints := cs\<rparr>) = inclusion_value (inclusion_start cfg seeds [])"
    by (simp add: un_seeded_def)
  show "unification_ok (s\<lparr>un_constraints := cs\<rparr>)"
  proof -
    have "unification_ok s" using assms by (simp add: un_seeded_def)
    then show ?thesis unfolding unification_ok_def view by simp
  qed
  show "alone (s\<lparr>un_constraints := cs\<rparr>) v" using assms by (simp add: un_seeded_def alone_def)
qed

lemma united_satisfied:
  "united s c \<Longrightarrow> \<nexists>dst base pr. c = CProject dst base pr \<Longrightarrow> satisfied cfg (un_view s) c"
  by (cases c) (simp_all add: un_view_def split: option.splits)

text \<open>The unification solver on a seeded frame.\<close>

lemma unification_solved:
  assumes seeds: "seeds_ok cfg seeds" and s: "un_seeded cfg seeds s"
  obtains sol where "unification_solve (s\<lparr>un_constraints := cs\<rparr>) = Some sol"
    "\<And>v. set_less_equal (av_may (inclusion_value (inclusion_start cfg seeds []) v)) (av_may (solution_value sol v))"
    "\<And>v. v \<notin> all_vars cs \<Longrightarrow> solution_value sol v = inclusion_value (inclusion_start cfg seeds []) v"
    "\<And>v. value_ok (max_alias_set_size cfg) (solution_value sol v)"
    "so_incomplete sol \<longleftrightarrow> (\<exists>c \<in> set cs. is_call c)"
    "\<And>c. c \<in> set cs \<Longrightarrow> (\<nexists>dst base pr. c = CProject dst base pr) \<Longrightarrow> satisfied cfg (solution_value sol) c"
    "\<And>dst src. CCopy dst src \<in> set cs \<or> CLoad dst src \<in> set cs \<or> CStore dst src \<in> set cs \<Longrightarrow>
       solution_value sol dst = solution_value sol src"
proof -
  let ?s = "s\<lparr>un_constraints := cs\<rparr>"
  note ad = un_seeded_add [OF s, of cs]
  obtain t sol where sol: "unification_solve ?s = Some sol" "un_step ?s (all_vars cs) t"
    "solution_value sol = un_view t" "\<forall>c \<in> set cs. united t c"
    "so_incomplete sol = (un_incomplete s \<or> (\<exists>c \<in> set cs. is_call c))"
    by (rule unification_solve_spec [OF ad(1)]) simp
  have ok: "unification_ok t" and cfg: "un_config t = cfg"
    using un_stepD(2,3) [OF sol(2)] s by (simp_all add: un_seeded_def)
  have eq: "un_view t v = un_view t w" if "urep t v = urep t w" for v w using that by (simp add: un_view_def)
  show ?thesis
  proof (rule that [OF sol(1)])
    show "set_less_equal (av_may (inclusion_value (inclusion_start cfg seeds []) v)) (av_may (solution_value sol v))" for v
      unfolding sol(3) by (rule un_growsD(6) [OF un_stepD(1) [OF sol(2)]]) (simp add: ad(3))
    show "solution_value sol v = inclusion_value (inclusion_start cfg seeds []) v" if "v \<notin> all_vars cs" for v
      using sol(2) that ad(2,3) unfolding sol(3) by (simp add: un_step_def)
    show "value_ok (max_alias_set_size cfg) (solution_value sol v)" for v
      using unification_okD(4) [OF ok, of v] cfg sol(3) by simp
    show "so_incomplete sol \<longleftrightarrow> (\<exists>c \<in> set cs. is_call c)" using sol(5) s by (simp add: un_seeded_def)
    show "satisfied cfg (solution_value sol) c"
      if "c \<in> set cs" "\<nexists>dst base pr. c = CProject dst base pr" for c
      unfolding sol(3) by (rule united_satisfied [OF bspec [OF sol(4) that(1)] that(2)])
    show "solution_value sol dst = solution_value sol src"
      if "CCopy dst src \<in> set cs \<or> CLoad dst src \<in> set cs \<or> CStore dst src \<in> set cs" for dst src
    proof -
      have "united t (CCopy dst src) \<or> united t (CLoad dst src) \<or> united t (CStore dst src)"
        using sol(4) that by blast
      then show ?thesis unfolding sol(3) by (intro eq) simp
    qed
  qed
qed

end
