(* ===== verification/Etas_Hybrid.thy ===== *)
theory Etas_Hybrid
  imports Etas_Unification
begin

text \<open>
  The hybrid solver: the propagated variables separate the constraints of the two solvers, so the
  joined solution is correct wherever each part is; and the properties of the three models.
\<close>

section \<open>The hybrid solver\<close>

text \<open>Propagation ends in a set that is closed under the constraints that touch it.\<close>

lemma propagate_pass_closed:
  assumes "\<not> snd (propagate_pass cfg cs vars False)" "c \<in> set cs" "requires_inclusion cfg vars c"
  shows "set (constraint_vars c) \<subseteq> vars"
  using assms
proof (induction cs)
  case (Cons d cs)
  show ?case
  proof (cases "requires_inclusion cfg vars d")
    case True
    have "\<not> snd (propagate_pass cfg cs (vars \<union> set (constraint_vars d)) (\<not> set (constraint_vars d) \<subseteq> vars))"
      using Cons.prems(1) True by simp
    then have sub: "set (constraint_vars d) \<subseteq> vars"
      using propagate_pass_mono [of "vars \<union> set (constraint_vars d)" cfg cs "\<not> set (constraint_vars d) \<subseteq> vars"] by auto
    then have "vars \<union> set (constraint_vars d) = vars" by blast
    with Cons sub True show ?thesis by (cases "c = d") auto
  next
    case False
    with Cons show ?thesis by (cases "c = d") auto
  qed
qed simp

lemma propagate_loop_closed:
  assumes "c \<in> set cs" "requires_inclusion cfg (propagate_loop cfg cs True vars) c"
  shows "set (constraint_vars c) \<subseteq> propagate_loop cfg cs True vars"
proof -
  have "(ch \<longrightarrow> (requires_inclusion cfg (propagate_loop cfg cs ch vars) c \<longrightarrow>
      set (constraint_vars c) \<subseteq> propagate_loop cfg cs ch vars)) \<and>
    (\<not> ch \<longrightarrow> propagate_loop cfg cs ch vars = vars)" for ch
    using assms(1)
  proof (induction cfg cs ch vars rule: propagate_loop.induct)
    case (1 cfg cs ch vars)
    show ?case
    proof (cases ch)
      case True
      let ?p = "propagate_pass cfg cs vars False"
      have e: "propagate_loop cfg cs ch vars = propagate_loop cfg cs (snd ?p) (fst ?p)"
        by (subst propagate_loop.simps) (simp add: True)
      show ?thesis
      proof (cases "snd ?p")
        case True
        with "1.IH" [OF \<open>ch\<close> "1.prems"] \<open>ch\<close> e show ?thesis by simp
      next
        case False
        then have "fst ?p = vars" using propagate_pass_mono [of vars cfg cs False] by auto
        then have "propagate_loop cfg cs ch vars = vars" using e False by (simp add: propagate_loop.simps)
        with propagate_pass_closed [OF False "1.prems"] \<open>ch\<close> show ?thesis by simp
      qed
    next
      case False
      then show ?thesis by (simp add: propagate_loop.simps)
    qed
  qed
  from this [of True] assms(2) show ?thesis by simp
qed

lemma seed_all_hybrid:
  "\<exists>vars. seed_all seeds (CsHybrid h) =
     map_option (\<lambda>u. CsHybrid (h\<lparr>hy_inclusion := fold (\<lambda>(var, v). inclusion_seed var v) seeds (hy_inclusion h),
       hy_unification := u, hy_inclusion_vars := vars\<rparr>)) (unification_seeds seeds (hy_unification h))"
proof (induction seeds arbitrary: h)
  case Nil
  then show ?case by (intro exI [of _ "hy_inclusion_vars h"]) simp
next
  case (Cons x seeds)
  obtain var v where x: "x = (var, v)" by (cases x)
  show ?case
  proof (cases "unification_seed var v (hy_unification h)")
    case None
    then show ?thesis by (simp add: x hybrid_seed_def)
  next
    case (Some u)
    then show ?thesis
      using Cons.IH [of "the (hybrid_seed var v h)"] by (auto simp: x hybrid_seed_def)
  qed
qed

lemma add_all_hybrid:
  "fold configured_add cs (CsHybrid h) = CsHybrid (h\<lparr>hy_constraints := hy_constraints h @ cs\<rparr>)"
  by (induction cs arbitrary: h) (simp_all add: hybrid_add_def)

lemma hybrid_split_spec:
  "hybrid_split cs h = h\<lparr>
     hy_inclusion := (hy_inclusion h)\<lparr>in_constraints := in_constraints (hy_inclusion h) @ filter (uses_inclusion h) cs\<rparr>,
     hy_unification := (hy_unification h)\<lparr>un_constraints := un_constraints (hy_unification h) @ filter (\<lambda>c. \<not> uses_inclusion h c) cs\<rparr>\<rparr>"
proof (induction cs arbitrary: h)
  case (Cons c cs)
  have *: "uses_inclusion (h\<lparr>hy_inclusion := a\<rparr>) = uses_inclusion h"
    "uses_inclusion (h\<lparr>hy_unification := b\<rparr>) = uses_inclusion h" for a b
    by (auto simp: uses_inclusion_def fun_eq_iff split: constraint_model.splits)
  show ?case
    by (simp add: Cons.IH * inclusion_add_def unification_add_def)
qed simp

text \<open>Variables no constraint mentions keep their seeded value in the inclusion solver.\<close>

lemma inclusion_apply_other:
  "w \<notin> set (constraint_vars c) \<Longrightarrow> inclusion_value (fst (inclusion_apply c s)) w = inclusion_value s w"
  by (cases c) (auto simp: join_var_view Let_def split: option.splits)

lemma inclusion_pass_other:
  "w \<notin> all_vars cs \<Longrightarrow> inclusion_value (fst (inclusion_pass cs s ch)) w = inclusion_value s w"
proof (induction cs arbitrary: s ch)
  case (Cons c cs)
  obtain s1 b where a: "inclusion_apply c s = (s1, b)" by (cases "inclusion_apply c s")
  with inclusion_apply_other [of w c s] Cons show ?case by (simp add: all_vars_def)
qed simp

lemma inclusion_loop_other:
  "w \<notin> all_vars (in_constraints s) \<Longrightarrow> inclusion_value (fst (inclusion_loop l ch i s)) w = inclusion_value s w"
proof (induction l ch i s rule: inclusion_loop.induct)
  case (1 l ch i s)
  obtain s1 b where p: "inclusion_pass (in_constraints s) s False = (s1, b)"
    by (cases "inclusion_pass (in_constraints s) s False")
  show ?case
  proof (cases "ch \<and> i < l")
    case True
    have e: "inclusion_loop l ch i s = inclusion_loop l b (i + 1) s1"
      by (subst inclusion_loop.simps) (use True p in simp)
    have "in_constraints s1 = in_constraints s" using inclusion_pass_frame [of "in_constraints s" s False] p by simp
    with "1.IH" [OF True p [symmetric]] "1.prems" inclusion_pass_other [OF "1.prems", of s False] p
    show ?thesis unfolding e by simp
  next
    case False
    then have "inclusion_loop l ch i s = (s, i)" by (subst inclusion_loop.simps) auto
    then show ?thesis by simp
  qed
qed

lemma inclusion_solve_other:
  assumes "w \<notin> all_vars cs"
  shows "solution_value (inclusion_solve (inclusion_start cfg seeds cs)) w = inclusion_value (inclusion_start cfg seeds []) w"
proof -
  have "inclusion_value (inclusion_start cfg seeds cs) w = inclusion_value (inclusion_start cfg seeds []) w"
    by (simp add: inclusion_start_def)
  moreover have "in_constraints (inclusion_start cfg seeds cs) = cs" by (simp add: inclusion_start_def)
  ultimately show ?thesis
    using assms inclusion_loop_other [of w "inclusion_start cfg seeds cs"]
    by (simp add: inclusion_solve_def solution_value_def inclusion_value_def Let_def split: prod.splits)
      (metis fst_conv)
qed

lemma value_project_may_cong:
  "av_may a = av_may b \<Longrightarrow> av_may (value_project a pr cfg) = av_may (value_project b pr cfg)"
  by (simp add: value_project_def split: alias_set.splits option.splits)

lemma satisfied_cong:
  assumes "\<And>v. v \<in> set (constraint_vars c) \<Longrightarrow> av_may (W v) = av_may (X v)"
  shows "satisfied cfg W c \<longleftrightarrow> satisfied cfg X c"
  using assms by (cases c) (auto simp: value_project_may_cong [OF assms] split: option.splits)

subsection \<open>Solving a frame with the hybrid solver\<close>

lemma join_entry_may:
  assumes "value_ok limit (or_default l)"
  shows "av_may (or_default (join_entry limit l r)) = set_join limit (av_may (or_default l)) (av_may (or_default r))"
proof (cases r)
  case None
  have "vsup limit (or_default l) value_bottom = or_default l" by (rule vsup_simps(2) [OF assms])
  then show ?thesis using None by (metis join_entry_def option.simps(4) or_default_def vsup_may)
next
  case (Some v)
  then show ?thesis by (simp add: join_entry_def vsup_def [symmetric])
qed

lemma set_join_absorb:
  assumes "set_ok limit a" "set_ok limit b" "set_less_equal b a"
  shows "set_join limit a b = a" "set_join limit b a = a"
  using assms set_less_equal_join [of limit b a] by (cases a; cases b; auto simp: Let_def Un_commute)+

text \<open>
  Where the constraints of the two parts mention different variables, the joined solution is the
  inclusion solution on the variables of the one part and the unification solution on the others.
\<close>

lemma split_solution:
  assumes seeds: "seeds_ok cfg seeds" and sep: "all_vars cs1 \<inter> all_vars cs2 = {}" and s: "un_seeded cfg seeds s"
  obtains sol1 sol2 where "inclusion_solve (inclusion_start cfg seeds cs1) = sol1"
    "unification_solve (s\<lparr>un_constraints := cs2\<rparr>) = Some sol2"
    "\<And>v. v \<notin> all_vars cs2 \<Longrightarrow>
       av_may (or_default (join_entry (max_alias_set_size cfg) (so_values sol1 v) (so_values sol2 v))) = av_may (solution_value sol1 v)"
    "\<And>v. v \<notin> all_vars cs1 \<Longrightarrow>
       av_may (or_default (join_entry (max_alias_set_size cfg) (so_values sol1 v) (so_values sol2 v))) = av_may (solution_value sol2 v)"
    "so_incomplete sol2 \<longleftrightarrow> (\<exists>c \<in> set cs2. is_call c)"
    "\<And>c. c \<in> set cs2 \<Longrightarrow> (\<nexists>dst base pr. c = CProject dst base pr) \<Longrightarrow> satisfied cfg (solution_value sol2) c"
proof -
  let ?L = "max_alias_set_size cfg" and ?seed = "inclusion_value (inclusion_start cfg seeds [])"
  define sol1 where "sol1 = inclusion_solve (inclusion_start cfg seeds cs1)"
  obtain sol2 where sol2: "unification_solve (s\<lparr>un_constraints := cs2\<rparr>) = Some sol2"
    "\<forall>v. set_less_equal (av_may (?seed v)) (av_may (solution_value sol2 v))"
    "\<forall>v. v \<notin> all_vars cs2 \<longrightarrow> solution_value sol2 v = ?seed v"
    "\<forall>v. value_ok ?L (solution_value sol2 v)"
    "so_incomplete sol2 \<longleftrightarrow> (\<exists>c \<in> set cs2. is_call c)"
    "\<forall>c \<in> set cs2. (\<nexists>dst base pr. c = CProject dst base pr) \<longrightarrow> satisfied cfg (solution_value sol2) c"
    by (rule unification_solved [OF seeds s, of cs2]) blast
  have ok1: "value_ok ?L (solution_value sol1 v)" for v by (rule inclusion_solve_spec(4) [OF seeds sol1_def])
  have ge1: "set_less_equal (av_may (?seed v)) (av_may (solution_value sol1 v))" for v
  proof -
    obtain s' n where l: "inclusion_loop (max_fixpoint_iterations cfg) True 0 (inclusion_start cfg seeds cs1) = (s', n)"
      by (cases "inclusion_loop (max_fixpoint_iterations cfg) True 0 (inclusion_start cfg seeds cs1)")
    have "solution_value sol1 v = inclusion_value s' v"
      using l inclusion_start_facts(2) [OF seeds, of cs1]
      by (simp add: sol1_def inclusion_solve_def Let_def solution_value_def inclusion_value_def)
    moreover have "inclusion_value (inclusion_start cfg seeds cs1) v = ?seed v" by (simp add: inclusion_start_def)
    ultimately show ?thesis
      using inclusion_loop_grows [of "inclusion_start cfg seeds cs1" v "max_fixpoint_iterations cfg" True 0] l by simp
  qed
  have join: "av_may (or_default (join_entry ?L (so_values sol1 v) (so_values sol2 v))) =
      set_join ?L (av_may (solution_value sol1 v)) (av_may (solution_value sol2 v))" for v
    using join_entry_may [of ?L "so_values sol1 v"] ok1 [of v] by (simp add: solution_value_def)
  have sok: "set_ok ?L (av_may (solution_value sol1 v))" "set_ok ?L (av_may (solution_value sol2 v))" for v
    using ok1 [of v] sol2(4) by (auto simp: value_ok_def)
  show ?thesis
  proof (rule that [OF sol1_def [symmetric] sol2(1) _ _ sol2(5)])
    show "av_may (or_default (join_entry ?L (so_values sol1 v) (so_values sol2 v))) = av_may (solution_value sol1 v)"
      if "v \<notin> all_vars cs2" for v
      unfolding join using sol2(3) ge1 [of v] that by (intro set_join_absorb(1) sok) simp
    show "av_may (or_default (join_entry ?L (so_values sol1 v) (so_values sol2 v))) = av_may (solution_value sol2 v)"
      if "v \<notin> all_vars cs1" for v
      unfolding join using sol2(2) inclusion_solve_other [OF that, of cfg seeds, folded sol1_def]
      by (intro set_join_absorb(2) sok) simp
    show "satisfied cfg (solution_value sol2) c" if "c \<in> set cs2" "\<nexists>dst base pr. c = CProject dst base pr" for c
      using sol2(6) that by blast
  qed
qed

lemma frame_solve_hybrid:
  assumes "pc_constraint_model (fr_config f) = HybridModel pre res pub"
    and seeds: "seeds_ok (fr_config f) (fr_seeds f)"
  obtains sol cs1 cs2 s sol2 where "frame_solve f = Some sol"
    "set (fr_constraints f) = set cs1 \<union> set cs2" "all_vars cs1 \<inter> all_vars cs2 = {}"
    "\<not> pre \<Longrightarrow> cs1 = fr_constraints f \<and> cs2 = []"
    "un_seeded (fr_config f) (fr_seeds f) s" "unification_solve (s\<lparr>un_constraints := cs2\<rparr>) = Some sol2"
    "\<And>v. solution_value sol v = or_default (join_entry (max_alias_set_size (fr_config f))
       (so_values (inclusion_solve (inclusion_start (fr_config f) (fr_seeds f) cs1)) v) (so_values sol2 v))"
    "so_incomplete sol \<longleftrightarrow> so_incomplete (inclusion_solve (inclusion_start (fr_config f) (fr_seeds f) cs1)) \<or> so_incomplete sol2"
proof -
  let ?cfg = "fr_config f" and ?seeds = "fr_seeds f" and ?cs = "fr_constraints f"
  obtain u where u: "unification_seeds ?seeds (unification_new ?cfg) = Some u" "un_seeded ?cfg ?seeds u"
    by (rule unification_seeds_new [OF seeds])
  from seed_all_hybrid [of ?seeds "hybrid_new ?cfg"] obtain vars where
    sd: "seed_all ?seeds (CsHybrid (hybrid_new ?cfg)) = Some (CsHybrid ((hybrid_new ?cfg)\<lparr>
      hy_inclusion := fold (\<lambda>(var, v). inclusion_seed var v) ?seeds (inclusion_new ?cfg),
      hy_unification := u, hy_inclusion_vars := vars\<rparr>))"
    using u(1) by (auto simp: hybrid_new_def)
  define V where "V = propagate_loop ?cfg ?cs True vars"
  define h where "h = \<lparr>hy_config = ?cfg, hy_inclusion = fold (\<lambda>(var, v). inclusion_seed var v) ?seeds (inclusion_new ?cfg),
    hy_unification = u, hy_inclusion_vars = V, hy_constraints = ?cs\<rparr>"
  define cs1 where "cs1 = filter (uses_inclusion h) ?cs"
  define cs2 where "cs2 = filter (\<lambda>c. \<not> uses_inclusion h c) ?cs"
  have in0: "in_constraints (fold (\<lambda>(var, v). inclusion_seed var v) ?seeds (inclusion_new ?cfg)) = []"
    using inclusion_seeds [of "inclusion_new ?cfg" ?seeds] seeds inclusion_new_ok [of ?cfg]
    by (simp add: seeds_ok_def inclusion_new_def)
  have un0: "un_constraints u = []" using u(2) by (simp add: un_seeded_def)
  obtain sol2 where sol2: "unification_solve (u\<lparr>un_constraints := cs2\<rparr>) = Some sol2"
    by (rule unification_solved [OF seeds u(2), of cs2])
  let ?i = "inclusion_solve (inclusion_start ?cfg ?seeds cs1)"
  let ?sol = "\<lparr>so_values = fst (join_map (max_alias_set_size ?cfg) (so_values ?i) (so_values sol2)),
    so_incomplete = so_incomplete ?i \<or> so_incomplete sol2\<rparr>"
  have hsel: "hy_config h = ?cfg" "hy_unification h = u" "hy_constraints h = ?cs"
    "hy_inclusion h = fold (\<lambda>(var, v). inclusion_seed var v) ?seeds (inclusion_new ?cfg)" by (simp_all add: h_def)
  have sv: "frame_solve f = Some ?sol"
    using assms(1) sd sol2
    by (simp add: frame_solve_def configured_new_def add_all_hybrid hybrid_solve_def propagate_inclusion_vars_def
        hybrid_new_def hybrid_split_spec Let_def h_def [symmetric] V_def [symmetric] cs1_def [symmetric]
        cs2_def [symmetric] hsel in0 un0 inclusion_start_def)
  have parts: "set ?cs = set cs1 \<union> set cs2" by (auto simp: cs1_def cs2_def)
  have sep: "all_vars cs1 \<inter> all_vars cs2 = {}"
  proof (cases pre)
    case True
    have use: "uses_inclusion h c \<longleftrightarrow> requires_inclusion ?cfg V c" for c
      using assms(1) True by (simp add: uses_inclusion_def h_def)
    have "set (constraint_vars c) \<subseteq> V" if "c \<in> set cs1" for c
      using propagate_loop_closed [of c ?cs ?cfg vars] that use by (auto simp: cs1_def V_def)
    then have "all_vars cs1 \<subseteq> V" by (auto simp: all_vars_def)
    moreover have "set (constraint_vars c) \<inter> V = {}" if "c \<in> set cs2" for c
      using that use by (auto simp: cs2_def requires_inclusion_def list_ex_iff)
    then have "all_vars cs2 \<inter> V = {}" by (auto simp: all_vars_def)
    ultimately show ?thesis by blast
  next
    case False
    then have "cs2 = []" using assms(1) by (simp add: cs2_def uses_inclusion_def h_def)
    then show ?thesis by (simp add: all_vars_def)
  qed
  have "\<not> pre \<Longrightarrow> cs1 = ?cs \<and> cs2 = []" using assms(1) by (simp add: cs1_def cs2_def uses_inclusion_def h_def)
  then show ?thesis
    using that [OF sv parts sep _ u(2) sol2] by (simp add: solution_value_def join_map_def)
qed

section \<open>Properties of the solvers\<close>

text \<open>C3. With the inclusion model, solving a frame whose seeds respect the size limit always
  gives a solution. The solution covers every seed; unless it is marked incomplete it satisfies
  every constraint, none of which is then a call; and it is least: no assignment of bounded alias
  sets that covers the seeds and satisfies the constraints has fewer may-aliases anywhere.\<close>

theorem inclusion_least_solution:
  assumes "pc_constraint_model (fr_config f) = InclusionBased" "seeds_ok (fr_config f) (fr_seeds f)"
  shows "\<exists>sol. frame_solve f = Some sol \<and> covers_seeds (fr_seeds f) (solution_value sol) \<and>
    (\<not> so_incomplete sol \<longrightarrow>
       (\<forall>c \<in> set (fr_constraints f). satisfied (fr_config f) (solution_value sol) c \<and> \<not> is_call c)) \<and>
    (\<forall>W v. constraint_model_of (fr_config f) (fr_seeds f) (fr_constraints f) W \<longrightarrow>
       set_less_equal (av_may (solution_value sol v)) (av_may (W v)))"
  using inclusion_solve_spec [OF assms(2) refl, of "fr_constraints f"] frame_solve_inclusion [OF assms(1)]
  by blast

definition chain_frame :: "precision_config \<Rightarrow> constraint_frame" where
  "chain_frame cfg = \<lparr>fr_config = cfg, fr_seeds = [(VSymbol 0, from_place (place_new TExternal))],
     fr_constraints = [CCopy (VSymbol 1) (VSymbol 0), CProject (VSymbol 2) (VSymbol 1) PrDeref]\<rparr>"

lemma chain_seeds_ok: "1 \<le> max_alias_set_size cfg \<Longrightarrow> seeds_ok cfg (fr_seeds (chain_frame cfg))"
  by (simp add: chain_frame_def seeds_ok_def)

theorem inclusion_least_solution_witness:
  "\<exists>sol. frame_solve (chain_frame config_precise) = Some sol \<and>
    covers_seeds (fr_seeds (chain_frame config_precise)) (solution_value sol)"
  using inclusion_least_solution [of "chain_frame config_precise"] chain_seeds_ok [of config_precise]
  by (auto simp: chain_frame_def config_precise_def)

text \<open>C8. With the unification model, solving a frame always gives a solution that covers every
  seed and satisfies every constraint that is not a projection; the two sides of a copy, load or
  store end with the same value, and the solution is marked incomplete exactly when a
  constraint is a call.\<close>

theorem unification_sound:
  assumes "pc_constraint_model (fr_config f) = UnificationBased" "seeds_ok (fr_config f) (fr_seeds f)"
  shows "\<exists>sol. frame_solve f = Some sol \<and> covers_seeds (fr_seeds f) (solution_value sol) \<and>
    (\<forall>c \<in> set (fr_constraints f). (\<nexists>dst base pr. c = CProject dst base pr) \<longrightarrow>
       satisfied (fr_config f) (solution_value sol) c) \<and>
    (\<forall>dst src. {CCopy dst src, CLoad dst src, CStore dst src} \<inter> set (fr_constraints f) \<noteq> {} \<longrightarrow>
       solution_value sol dst = solution_value sol src) \<and>
    (so_incomplete sol \<longleftrightarrow> (\<exists>c \<in> set (fr_constraints f). is_call c))"
proof -
  let ?cfg = "fr_config f" and ?seeds = "fr_seeds f" and ?cs = "fr_constraints f"
  obtain s where s: "unification_seeds ?seeds (unification_new ?cfg) = Some s" "un_seeded ?cfg ?seeds s"
    by (rule unification_seeds_new [OF assms(2)])
  have e: "frame_solve f = unification_solve (s\<lparr>un_constraints := ?cs\<rparr>)"
    using assms(1) s by (simp add: frame_solve_def configured_new_def seed_all_unification add_all_unification un_seeded_def)
  show ?thesis
  proof (rule unification_solved [OF assms(2) s(2), of ?cs])
    fix sol assume sol: "unification_solve (s\<lparr>un_constraints := ?cs\<rparr>) = Some sol"
      "\<And>v. set_less_equal (av_may (inclusion_value (inclusion_start ?cfg ?seeds []) v)) (av_may (solution_value sol v))"
      "so_incomplete sol \<longleftrightarrow> (\<exists>c \<in> set ?cs. is_call c)"
      "\<And>c. c \<in> set ?cs \<Longrightarrow> \<nexists>dst base pr. c = CProject dst base pr \<Longrightarrow> satisfied ?cfg (solution_value sol) c"
      "\<And>dst src. CCopy dst src \<in> set ?cs \<or> CLoad dst src \<in> set ?cs \<or> CStore dst src \<in> set ?cs \<Longrightarrow>
         solution_value sol dst = solution_value sol src"
    have "covers_seeds ?seeds (solution_value sol)"
      using inclusion_start_facts(5) [OF assms(2), of "[]"] sol(2)
      by (auto simp: covers_seeds_def intro: set_less_equal_trans)
    with sol(1,3,4,5) e show ?thesis by (intro exI [of _ sol]) auto
  qed
qed

theorem unification_sound_witness:
  "\<exists>sol. frame_solve (chain_frame config_fast) = Some sol \<and>
    solution_value sol (VSymbol 1) = solution_value sol (VSymbol 0)"
  using unification_sound [of "chain_frame config_fast"] chain_seeds_ok [of config_fast]
  by (auto simp: chain_frame_def config_fast_def)

text \<open>C9. With the hybrid model, solving a frame always gives a solution that covers every seed.
  Unless it is marked incomplete no constraint is a call and every constraint is satisfied, except
  that with pre-unification a projection may not be. Without pre-unification the solution is
  moreover least among the assignments that cover the seeds and satisfy the constraints.\<close>

theorem hybrid_sound:
  assumes "pc_constraint_model (fr_config f) = HybridModel pre res pub" "seeds_ok (fr_config f) (fr_seeds f)"
  shows "\<exists>sol. frame_solve f = Some sol \<and> covers_seeds (fr_seeds f) (solution_value sol) \<and>
    (\<not> so_incomplete sol \<longrightarrow> (\<forall>c \<in> set (fr_constraints f). \<not> is_call c \<and>
       (satisfied (fr_config f) (solution_value sol) c \<or> pre \<and> (\<exists>dst base pr. c = CProject dst base pr)))) \<and>
    (\<not> pre \<longrightarrow> (\<forall>W v. constraint_model_of (fr_config f) (fr_seeds f) (fr_constraints f) W \<longrightarrow>
       set_less_equal (av_may (solution_value sol v)) (av_may (W v))))"
proof -
  let ?cfg = "fr_config f" and ?seeds = "fr_seeds f" and ?cs = "fr_constraints f"
  let ?L = "max_alias_set_size ?cfg"
  obtain sol cs1 cs2 s sol2 where f: "frame_solve f = Some sol" "set ?cs = set cs1 \<union> set cs2"
    "all_vars cs1 \<inter> all_vars cs2 = {}" "\<not> pre \<longrightarrow> cs1 = ?cs \<and> cs2 = []"
    "un_seeded ?cfg ?seeds s" "unification_solve (s\<lparr>un_constraints := cs2\<rparr>) = Some sol2"
    "\<forall>v. solution_value sol v = or_default (join_entry ?L
       (so_values (inclusion_solve (inclusion_start ?cfg ?seeds cs1)) v) (so_values sol2 v))"
    "so_incomplete sol \<longleftrightarrow> so_incomplete (inclusion_solve (inclusion_start ?cfg ?seeds cs1)) \<or> so_incomplete sol2"
    by (rule frame_solve_hybrid [OF assms]) blast
  define sol1 where "sol1 = inclusion_solve (inclusion_start ?cfg ?seeds cs1)"
  note one = inclusion_solve_spec [OF assms(2) sol1_def]
  have two: "\<forall>v. v \<notin> all_vars cs2 \<longrightarrow> av_may (solution_value sol v) = av_may (solution_value sol1 v)"
    "\<forall>v. v \<notin> all_vars cs1 \<longrightarrow> av_may (solution_value sol v) = av_may (solution_value sol2 v)"
    "so_incomplete sol2 \<longleftrightarrow> (\<exists>c \<in> set cs2. is_call c)"
    "\<forall>c \<in> set cs2. (\<nexists>dst base pr. c = CProject dst base pr) \<longrightarrow> satisfied ?cfg (solution_value sol2) c"
    using split_solution [OF assms(2) f(3,5)] f(6,7) unfolding sol1_def by (metis option.inject)+
  have vars: "set (constraint_vars c) \<subseteq> all_vars cs" if "c \<in> set cs" for c cs
    using that by (auto simp: all_vars_def)
  have sat1: "satisfied ?cfg (solution_value sol) c \<longleftrightarrow> satisfied ?cfg (solution_value sol1) c" if "c \<in> set cs1" for c
    using vars [OF that] two(1) f(3) by (intro satisfied_cong) blast
  have sat2: "satisfied ?cfg (solution_value sol) c \<longleftrightarrow> satisfied ?cfg (solution_value sol2) c" if "c \<in> set cs2" for c
    using vars [OF that] two(2) f(3) by (intro satisfied_cong) blast
  have "set_less_equal (av_may (solution_value sol1 v)) (av_may (solution_value sol v))" for v
    using join_entry_may [of ?L "so_values sol1 v" "so_values sol2 v"] one(4) [of v] f(7)
    by (simp add: sol1_def [symmetric] solution_value_def [of sol1] set_join_upper)
  then have "covers_seeds ?seeds (solution_value sol)"
    using one(1) by (auto simp: covers_seeds_def intro: set_less_equal_trans)
  moreover have "\<not> is_call c \<and> (satisfied ?cfg (solution_value sol) c \<or> pre \<and> (\<exists>dst base pr. c = CProject dst base pr))"
    if "\<not> so_incomplete sol" "c \<in> set ?cs" for c
  proof (cases "c \<in> set cs1")
    case True
    with one(2) that(1) f(8) sat1 show ?thesis by (auto simp: sol1_def)
  next
    case False
    with that(2) f(2,4) have c: "c \<in> set cs2" pre by auto
    with two(3,4) that(1) f(8) sat2 show ?thesis by blast
  qed
  moreover have "set_less_equal (av_may (solution_value sol v)) (av_may (W v))"
    if "\<not> pre" "constraint_model_of ?cfg ?seeds ?cs W" for W v
    using one(3) [of W v] two(1) f(4) that by (simp add: all_vars_def)
  ultimately show ?thesis using f(1) by blast
qed

theorem hybrid_sound_witness:
  "\<exists>sol. frame_solve (chain_frame config_balanced) = Some sol \<and>
    covers_seeds (fr_seeds (chain_frame config_balanced)) (solution_value sol)"
  using hybrid_sound [of "chain_frame config_balanced" True True True] chain_seeds_ok [of config_balanced]
  by (auto simp: chain_frame_def config_balanced_def)



end
