(* ===== verification/Etas_Effect.thy ===== *)
theory Etas_Effect
  imports Etas_Lattice Etas_Place "HOL-Library.Finite_Map" "HOL-Library.Word"
begin

unbundle bit_operations_syntax

text \<open>
  Effects of the effect system (\<open>etas_effects/src/effect/{row,action,tag,extension}.rs\<close> and
  \<open>requirement/*.rs\<close>): effects and their derived order, effect sets and rows, the extension
  graph of effect tags with its depth-first search, effect-variable hashing and requirement sets.
  Ordered sets of the standard library are sets here; their iteration order matters nowhere in
  this part of the code.
\<close>

section \<open>Effects\<close>

type_synonym effect_tag_id = nat
type_synonym effect_action_id = nat
type_synonym effect_var_id = nat
type_synonym type_id = nat

datatype effect_arg_ref =
  ArgType type_id | ArgPath "utext list" | ArgString utext | ArgInt utext | ArgWildcard

datatype action_ref = ActionRef (ar_tag: effect_tag_id) (ar_action: effect_action_id)

datatype action_instance_ref = ActionInstanceRef (ai_action: action_ref) (ai_args: "effect_arg_ref list")

datatype effect =
    ETag effect_tag_id
  | EAction action_ref
  | EAppliedAction action_instance_ref
  | EApplied effect_tag_id "type_id list"
  | EVar effect_var_id
  | EError type_id

fun is_action :: "effect \<Rightarrow> bool" where
  "is_action (EAction _) = True"
| "is_action (EAppliedAction _) = True"
| "is_action _ = False"

section \<open>Effect sets and rows\<close>

type_synonym effect_set = "effect set"

definition effects_union_assign :: "effect_set \<Rightarrow> effect_set \<Rightarrow> effect_set \<times> bool" where
  "effects_union_assign s other = (s \<union> other, card (s \<union> other) \<noteq> card s)"

record effect_row =
  er_effects :: effect_set
  er_open :: "effect_var_id option"

definition row_empty :: effect_row where
  "row_empty = \<lparr>er_effects = {}, er_open = None\<rparr>"

definition row_is_empty :: "effect_row \<Rightarrow> bool" where
  "row_is_empty r \<longleftrightarrow> er_effects r = {} \<and> er_open r = None"

definition row_closed :: "effect_set \<Rightarrow> effect_row" where
  "row_closed s = \<lparr>er_effects = s, er_open = None\<rparr>"

definition row_union_assign :: "effect_row \<Rightarrow> effect_row \<Rightarrow> effect_row \<times> bool" where
  "row_union_assign r other =
     (let (s, changed) = effects_union_assign (er_effects r) (er_effects other);
          r = r\<lparr>er_effects := s\<rparr>
      in if er_open r = None \<and> er_open other \<noteq> None
         then (r\<lparr>er_open := er_open other\<rparr>, True)
         else (r, changed))"

definition remove_effect :: "effect \<Rightarrow> effect_row \<Rightarrow> effect_row \<times> bool" where
  "remove_effect e r = (r\<lparr>er_effects := er_effects r - {e}\<rparr>, e \<in> er_effects r)"

definition row_less_equal :: "effect_row \<Rightarrow> effect_row \<Rightarrow> bool" where
  "row_less_equal l r \<longleftrightarrow> er_effects l \<subseteq> er_effects r \<and>
     (case (er_open l, er_open r) of
        (None, Some _) \<Rightarrow> True
      | (None, None) \<Rightarrow> True
      | (Some a, Some b) \<Rightarrow> a = b
      | (Some _, None) \<Rightarrow> False)"

text \<open>The 32-bit FNV-1a hash of a name, with wrapping multiplication.\<close>

definition fnv_step :: "nat \<Rightarrow> 32 word \<Rightarrow> 32 word" where
  "fnv_step byte h = (h XOR of_nat byte) * 0x01000193"

definition effect_var_id_from_name :: "utext \<Rightarrow> effect_var_id" where
  "effect_var_id_from_name nm = unat (fold fnv_step (as_bytes nm) 0x811c9dc5)"

section \<open>The extension graph\<close>

type_synonym extension_graph = "(effect_tag_id, effect_tag_id fset) fmap"

definition add_edge :: "effect_tag_id \<Rightarrow> effect_tag_id \<Rightarrow> extension_graph \<Rightarrow> extension_graph" where
  "add_edge child parent g =
     fmupd child (finsert parent (case fmlookup g child of None \<Rightarrow> {||} | Some ps \<Rightarrow> ps)) g"

definition directly_extends :: "extension_graph \<Rightarrow> effect_tag_id \<Rightarrow> effect_tag_id \<Rightarrow> bool" where
  "directly_extends g child parent = (case fmlookup g child of None \<Rightarrow> False | Some ps \<Rightarrow> parent |\<in>| ps)"

text \<open>
  The vector used as a stack is a list with its last element first; \<open>extend\<close> pushes the parents
  in ascending order.
\<close>

function extends_loop :: "extension_graph \<Rightarrow> effect_tag_id \<Rightarrow> effect_tag_id list \<Rightarrow> effect_tag_id set \<Rightarrow> bool" where
  "extends_loop g ancestor [] seen = False"
| "extends_loop g ancestor (tag # stack) seen =
     (if tag \<in> seen then extends_loop g ancestor stack seen
      else
        case fmlookup g tag of
          None \<Rightarrow> extends_loop g ancestor stack (insert tag seen)
        | Some ps \<Rightarrow>
            if ancestor |\<in>| ps then True
            else extends_loop g ancestor (rev (sorted_list_of_fset ps) @ stack) (insert tag seen))"
  by pat_completeness auto
termination
proof (relation "measures [\<lambda>(g, _, _, seen). card (fset (fmdom g) - seen), \<lambda>(_, _, stack, _). length stack]",
    goal_cases)
  case (3 g ancestor tag stack seen)
  have "fset (fmdom g) - insert tag seen \<subseteq> fset (fmdom g) - seen" by blast
  then have "card (fset (fmdom g) - insert tag seen) \<le> card (fset (fmdom g) - seen)" by (intro card_mono) auto
  then show ?case by auto
next
  case (4 g ancestor tag stack seen ps)
  have "tag \<in> fset (fmdom g)" using 4 by (auto intro: fmdomI)
  then have "card (fset (fmdom g) - insert tag seen) < card (fset (fmdom g) - seen)"
    using 4 by (intro psubset_card_mono) auto
  then show ?case by simp
qed auto

definition tag_graph_extends :: "extension_graph \<Rightarrow> effect_tag_id \<Rightarrow> effect_tag_id \<Rightarrow> bool" where
  "tag_graph_extends g child ancestor =
     (if child = ancestor then True else extends_loop g ancestor [child] {})"

section \<open>Requirements\<close>

datatype limit_kind = LkIterations | LkTokens | LkContextTokens | LkCost | LkWallTime | LkAttempts | LkConcurrency
datatype limit_budget_kind = LbCount | LbMoney | LbDuration
datatype limit_value = LvCount nat | LvMoneyMicros nat utext | LvDurationMillis nat

record limit_requirement =
  lr_kind :: limit_kind
  lr_budget :: limit_budget_kind
  lr_value :: "limit_value option"

fun budget_kind :: "limit_kind \<Rightarrow> limit_budget_kind" where
  "budget_kind LkIterations = LbCount"
| "budget_kind LkTokens = LbCount"
| "budget_kind LkContextTokens = LbCount"
| "budget_kind LkAttempts = LbCount"
| "budget_kind LkConcurrency = LbCount"
| "budget_kind LkCost = LbMoney"
| "budget_kind LkWallTime = LbDuration"

text \<open>The trace-specification facts of a requirement stay a parameter \<open>'t\<close>.\<close>

datatype 't requirement_fact = RfLimit limit_requirement | RfTraceSpec 't

definition requirements_union_assign ::
    "'t requirement_fact set \<Rightarrow> 't requirement_fact set \<Rightarrow> 't requirement_fact set \<times> bool" where
  "requirements_union_assign s other = (s \<union> other, card (s \<union> other) \<noteq> card s)"

definition requirement_set_less_equal :: "'t requirement_fact set \<Rightarrow> 't requirement_fact set \<Rightarrow> bool" where
  "requirement_set_less_equal l r \<longleftrightarrow> (\<forall>f \<in> l. f \<in> r)"

section \<open>The derived order of effects\<close>

fun code_arg :: "effect_arg_ref \<Rightarrow> nat list" where
  "code_arg (ArgType t) = [0, t]"
| "code_arg (ArgPath ss) = 1 # code_list code_bytes ss"
| "code_arg (ArgString s) = 2 # code_bytes s"
| "code_arg (ArgInt s) = 3 # code_bytes s"
| "code_arg ArgWildcard = [4]"

fun code_action :: "action_ref \<Rightarrow> nat list" where
  "code_action (ActionRef t a) = [t, a]"

fun code_effect :: "effect \<Rightarrow> nat list" where
  "code_effect (ETag t) = [0, t]"
| "code_effect (EAction a) = 1 # code_action a"
| "code_effect (EAppliedAction i) = 2 # code_action (ai_action i) @ code_list code_arg (ai_args i)"
| "code_effect (EApplied t ts) = 3 # t # code_list (\<lambda>x. [x]) ts"
| "code_effect (EVar v) = [4, v]"
| "code_effect (EError t) = [5, t]"

lemma self_delimiting_arg: "self_delimiting code_arg"
proof -
  have "code_arg x @ r = code_arg y @ s \<Longrightarrow> x = y \<and> r = s" for x y r s
    by (cases x; cases y) (auto simp: self_delimiting_bytes_iff self_delimiting_strings_iff)
  then show ?thesis by (simp add: self_delimiting_def)
qed

lemma code_action_append: "code_action x @ r = code_action y @ s \<longleftrightarrow> x = y \<and> r = s"
  by (cases x; cases y) auto

lemma code_args_inj: "code_list code_arg x = code_list code_arg y \<longleftrightarrow> x = y"
  using self_delimiting_inj [OF self_delimiting_list [OF self_delimiting_arg]] by (simp add: inj_eq)

lemma code_types_inj: "code_list (\<lambda>x. [x]) xs = code_list (\<lambda>x. [x]) ys \<longleftrightarrow> xs = ys"
  using self_delimiting_inj [OF self_delimiting_list [OF self_delimiting_byte]] by (simp add: inj_eq)

lemma code_effect_inj [simp]: "code_effect x = code_effect y \<longleftrightarrow> x = y"
proof -
  have a: "code_action u = code_action v \<longleftrightarrow> u = v" for u v using code_action_append [of u "[]" v "[]"] by simp
  show ?thesis
    by (cases x; cases y)
      (auto simp: a code_action_append code_args_inj code_types_inj action_instance_ref.expand)
qed

instantiation effect :: linorder
begin

definition less_eq_effect :: "effect \<Rightarrow> effect \<Rightarrow> bool" where
  "less_eq_effect x y \<longleftrightarrow> code_effect x \<le> code_effect y"

definition less_effect :: "effect \<Rightarrow> effect \<Rightarrow> bool" where
  "less_effect x y \<longleftrightarrow> code_effect x < code_effect y"

instance
  by standard (auto simp: less_eq_effect_def less_effect_def order.strict_iff_order)

end

section \<open>The search computes reachability\<close>

definition edges :: "extension_graph \<Rightarrow> (effect_tag_id \<times> effect_tag_id) set" where
  "edges g = {(c, p). directly_extends g c p}"

lemma edges_lookup: "(c, p) \<in> edges g \<longleftrightarrow> (\<exists>ps. fmlookup g c = Some ps \<and> p |\<in>| ps)"
  by (auto simp: edges_def directly_extends_def split: option.splits)

lemma edges_add: "edges (add_edge c p g) = insert (c, p) (edges g)"
  by (auto simp: edges_def directly_extends_def add_edge_def split: option.splits if_splits)

lemma extends_loop_sound:
  "extends_loop g a stack seen \<Longrightarrow> \<exists>t \<in> set stack. (t, a) \<in> (edges g)\<^sup>+"
proof (induction g a stack seen rule: extends_loop.induct)
  case (2 g a tag stack seen)
  show ?case
  proof (cases "tag \<in> seen")
    case True
    with 2 show ?thesis by auto
  next
    case new: False
    show ?thesis
    proof (cases "fmlookup g tag")
      case None
      with new 2 show ?thesis by auto
    next
      case (Some ps)
      show ?thesis
      proof (cases "a |\<in>| ps")
        case True
        with Some have "(tag, a) \<in> edges g" by (auto simp: edges_lookup)
        then show ?thesis by auto
      next
        case False
        with new Some 2 obtain t where t: "t |\<in>| ps \<or> t \<in> set stack" "(t, a) \<in> (edges g)\<^sup>+" by auto
        from t(1) show ?thesis
        proof
          assume "t |\<in>| ps"
          with Some have "(tag, t) \<in> edges g" by (auto simp: edges_lookup)
          with t(2) have "(tag, a) \<in> (edges g)\<^sup>+" by (rule trancl_into_trancl2 [rotated])
          then show ?thesis by simp
        qed (use t(2) in auto)
      qed
    qed
  qed
qed simp

definition search_inv :: "extension_graph \<Rightarrow> effect_tag_id \<Rightarrow> effect_tag_id set \<Rightarrow> effect_tag_id set \<Rightarrow> bool" where
  "search_inv g a front seen \<longleftrightarrow> (\<forall>s \<in> seen. \<forall>p. (s, p) \<in> edges g \<longrightarrow> p \<noteq> a \<and> p \<in> seen \<union> front)"

lemma search_inv_closed:
  assumes "search_inv g a {} seen" "(s, t) \<in> (edges g)\<^sup>+" "s \<in> seen"
  shows "t \<noteq> a \<and> t \<in> seen"
  using assms(2,3) by (induction rule: trancl_induct) (use assms(1) in \<open>auto simp: search_inv_def\<close>)

lemma extends_loop_complete:
  assumes "\<not> extends_loop g a stack seen" "search_inv g a (set stack) seen" "t \<in> set stack \<union> seen"
  shows "(t, a) \<notin> (edges g)\<^sup>+"
  using assms
proof (induction g a stack seen rule: extends_loop.induct)
  case (1 g a seen)
  then show ?case using search_inv_closed by fastforce
next
  case (2 g a tag stack seen)
  show ?case
  proof (cases "tag \<in> seen")
    case True
    with "2.prems" have "search_inv g a (set stack) seen" by (auto simp: search_inv_def)
    with True 2 show ?thesis by auto
  next
    case new: False
    show ?thesis
    proof (cases "fmlookup g tag")
      case None
      with "2.prems" have "search_inv g a (set stack) (insert tag seen)"
        by (auto simp: search_inv_def edges_lookup)
      with None new 2 show ?thesis by auto
    next
      case (Some ps)
      with new "2.prems" have a: "a |\<notin>| ps"
        and r: "\<not> extends_loop g a (rev (sorted_list_of_fset ps) @ stack) (insert tag seen)"
        by (auto split: if_splits)
      have "search_inv g a (set (rev (sorted_list_of_fset ps) @ stack)) (insert tag seen)"
        using "2.prems" Some a by (auto simp: search_inv_def edges_lookup)
      with r a Some new "2.IH"(3) [OF new Some a] "2.prems" show ?thesis by auto
    qed
  qed
qed

lemma tag_graph_extends_iff: "tag_graph_extends g c a \<longleftrightarrow> (c, a) \<in> (edges g)\<^sup>*"
proof (cases "c = a")
  case False
  have "extends_loop g a [c] {} \<longleftrightarrow> (c, a) \<in> (edges g)\<^sup>+"
    using extends_loop_sound [of g a "[c]" "{}"] extends_loop_complete [of g a "[c]" "{}" c]
    by (auto simp: search_inv_def simp del: extends_loop.simps)
  with False show ?thesis by (auto simp: tag_graph_extends_def rtrancl_eq_or_trancl)
qed (simp add: tag_graph_extends_def)

section \<open>Rows\<close>

definition row_ok :: "effect_row \<Rightarrow> bool" where
  "row_ok r \<longleftrightarrow> finite (er_effects r)"

lemma card_union_changed: "finite a \<Longrightarrow> finite b \<Longrightarrow> card (a \<union> b) = card a \<longleftrightarrow> b \<subseteq> a"
  using card_subset_eq [of "a \<union> b" a] by (auto simp: Un_absorb2)

lemma row_union_fields:
  "er_effects (fst (row_union_assign r s)) = er_effects r \<union> er_effects s"
  "er_open (fst (row_union_assign r s)) = (if er_open r = None then er_open s else er_open r)"
  by (auto simp: row_union_assign_def effects_union_assign_def Let_def)

lemma row_union_changed:
  assumes "row_ok r" "row_ok s"
  shows "snd (row_union_assign r s) \<longleftrightarrow> fst (row_union_assign r s) \<noteq> r"
  using assms card_union_changed [of "er_effects r" "er_effects s"]
  by (cases r) (auto simp: row_union_assign_def effects_union_assign_def Let_def row_ok_def)

text \<open>
  Rows whose tail, where they have one, is the same variable form a join domain; the order of the
  code is the order of its join.
\<close>

interpretation effect_row: join_domain "\<lambda>r. row_ok r \<and> er_open r \<in> {None, Some v}" row_empty row_union_assign for v
proof (unfold_locales, goal_cases)
  case 1 then show ?case by (simp add: row_ok_def row_empty_def)
next
  case (2 a b) then show ?case by (auto simp: row_ok_def row_union_fields)
next
  case (3 a) then show ?case by (cases a) (simp add: row_union_assign_def effects_union_assign_def Let_def)
next
  case (4 a b) then show ?case
    by (intro effect_row.equality) (auto simp: row_union_fields)
next
  case (5 a b c) then show ?case
    by (intro effect_row.equality) (auto simp: row_union_fields)
next
  case (6 a) then show ?case
    by (intro effect_row.equality) (auto simp: row_union_fields row_empty_def)
next
  case (7 a b) then show ?case by (simp add: row_union_changed)
qed

lemma row_less_equal_upper:
  "row_less_equal r (fst (row_union_assign r s))"
  "row_less_equal s (fst (row_union_assign r s)) \<longleftrightarrow>
     er_open r = None \<or> er_open s = None \<or> er_open r = er_open s"
  by (auto simp: row_less_equal_def row_union_fields split: option.splits)

lemma row_union_least:
  assumes "row_less_equal r t" "row_less_equal s t"
  shows "row_less_equal (fst (row_union_assign r s)) t"
  using assms by (auto simp: row_less_equal_def row_union_fields split: option.splits)

section \<open>Properties\<close>

text \<open>C6. A tag extends another, as the depth-first search over the extension graph answers it,
  exactly when the other is reachable from it by zero or more extension steps; the search ends on
  every graph, cyclic ones included, and recording an extension adds exactly that step.\<close>

theorem extends_is_reachability:
  "(tag_graph_extends g child ancestor \<longleftrightarrow> (child, ancestor) \<in> {(c, p). directly_extends g c p}\<^sup>*) \<and>
   {(c, p). directly_extends (add_edge child parent g) c p} =
     insert (child, parent) {(c, p). directly_extends g c p}"
  using tag_graph_extends_iff edges_add by (simp add: edges_def)

text \<open>C29. The union of two effect rows holds the effects of both and the tail of the first row
  that has one, and reports a change exactly when it differs from the first row. It is the least
  row above both, except when both rows have tails that differ: then the second row's tail is lost
  and the union is not above the second row.\<close>

theorem row_union_upper_bound:
  assumes "finite (er_effects r)" "finite (er_effects s)"
  shows "er_effects (fst (row_union_assign r s)) = er_effects r \<union> er_effects s \<and>
    er_open (fst (row_union_assign r s)) = (if er_open r = None then er_open s else er_open r) \<and>
    (snd (row_union_assign r s) \<longleftrightarrow> fst (row_union_assign r s) \<noteq> r) \<and>
    row_less_equal r (fst (row_union_assign r s)) \<and>
    (row_less_equal s (fst (row_union_assign r s)) \<longleftrightarrow>
       \<not> (\<exists>v w. er_open r = Some v \<and> er_open s = Some w \<and> v \<noteq> w)) \<and>
    (\<forall>t. row_less_equal r t \<and> row_less_equal s t \<longrightarrow> row_less_equal (fst (row_union_assign r s)) t)"
proof -
  have "row_less_equal s (fst (row_union_assign r s)) \<longleftrightarrow>
      \<not> (\<exists>v w. er_open r = Some v \<and> er_open s = Some w \<and> v \<noteq> w)"
    unfolding row_less_equal_upper(2) by (cases "er_open r"; cases "er_open s") simp_all
  with row_union_changed [of r s] assms row_less_equal_upper(1) [of r s] row_union_least [of r _ s]
  show ?thesis unfolding row_ok_def row_union_fields by blast
qed

theorem row_union_upper_bound_witness:
  "finite (er_effects \<lparr>er_effects = {ETag 1}, er_open = Some 2\<rparr>) \<and>
   \<not> row_less_equal \<lparr>er_effects = {}, er_open = Some 3\<rparr>
       (fst (row_union_assign \<lparr>er_effects = {ETag 1}, er_open = Some 2\<rparr> \<lparr>er_effects = {}, er_open = Some 3\<rparr>))"
  using row_union_upper_bound [of "\<lparr>er_effects = {ETag 1}, er_open = Some 2\<rparr>" "\<lparr>er_effects = {}, er_open = Some 3\<rparr>"]
  by simp

end
