(* ===== verification/Etas_Support.thy ===== *)
theory Etas_Support
  imports Etas_Lattice "HOL-Library.FSet"
begin

text \<open>
  What a program needs at run time (\<open>etas_effects/src/infer/domain.rs\<close>, second half):
  determinism, host requirements, interpreter features and the support level they add up to.
\<close>

section \<open>Determinism\<close>

datatype determinism = Deterministic | RuntimeMediated | NonDeterministic

fun determinism_rank :: "determinism \<Rightarrow> nat" where
  "determinism_rank Deterministic = 0"
| "determinism_rank RuntimeMediated = 1"
| "determinism_rank NonDeterministic = 2"

instantiation determinism :: linorder
begin

definition less_eq_determinism :: "determinism \<Rightarrow> determinism \<Rightarrow> bool" where
  "less_eq_determinism a b \<longleftrightarrow> determinism_rank a \<le> determinism_rank b"

definition less_determinism :: "determinism \<Rightarrow> determinism \<Rightarrow> bool" where
  "less_determinism a b \<longleftrightarrow> determinism_rank a < determinism_rank b"

instance
proof (standard, goal_cases)
  case (4 x y)
  then show ?case by (cases x; cases y) (auto simp: less_eq_determinism_def)
qed (auto simp: less_eq_determinism_def less_determinism_def)

end

definition determinism_join_assign :: "determinism \<Rightarrow> determinism \<Rightarrow> determinism \<times> bool" where
  "determinism_join_assign d other = (let joined = max d other in (joined, joined \<noteq> d))"

fun join_independent_determinism :: "determinism option \<Rightarrow> determinism option \<Rightarrow> determinism option \<times> bool" where
  "join_independent_determinism (Some l) (Some r) =
     (case determinism_join_assign l r of (d, changed) \<Rightarrow> (Some d, changed))"
| "join_independent_determinism (Some _) None = (None, True)"
| "join_independent_determinism None _ = (None, False)"

section \<open>Requirements on the host and the interpreter\<close>

datatype host_requirement_kind =
    HkAgentic | HkToolCall | HkHostAuthority | HkDurableMemory | HkApproval | HkCheckpoint | HkTime
  | HkNetwork | HkTcp | HkStream | HkTls | HkBrowser | HkConsole | HkFileIO | HkCommand
  | HkSecretAccess | HkCompiler

datatype interpreter_feature_kind =
  FkEffectHandler | FkResume | FkRetry | FkCheckpoint | FkWorkflowOrchestration | FkTaskScheduler

datatype runtime_requirement_reason =
    RrAgentic | RrToolCall | RrHostAuthority | RrDurableMemory | RrApproval | RrCheckpoint | RrTime
  | RrNetwork | RrTcp | RrStream | RrTls | RrBrowser | RrConsole | RrFileIO | RrCommand
  | RrSecretAccess | RrCompiler | RrRuntimeHandler | RrTaskScheduler

datatype frontend_rejection_reason =
  UnresolvedEffect | UnsupportedHandler | EscapedEffect | MissingRequirement

type_synonym host_requirement_set = "host_requirement_kind set"
type_synonym interpreter_feature_set = "interpreter_feature_kind set"

record orchestration_requirement_set =
  oq_host :: host_requirement_set
  oq_features :: interpreter_feature_set

definition orchestration_feature :: "interpreter_feature_kind \<Rightarrow> orchestration_requirement_set" where
  "orchestration_feature k = \<lparr>oq_host = {}, oq_features = {k}\<rparr>"

definition orchestration_with_host ::
    "orchestration_requirement_set \<Rightarrow> host_requirement_set \<Rightarrow> orchestration_requirement_set" where
  "orchestration_with_host q h = \<lparr>oq_host = oq_host q \<union> h, oq_features = oq_features q\<rparr>"

definition orchestration_joined ::
    "orchestration_requirement_set \<Rightarrow> orchestration_requirement_set \<Rightarrow> orchestration_requirement_set" where
  "orchestration_joined q p = \<lparr>oq_host = oq_host q \<union> oq_host p, oq_features = oq_features q \<union> oq_features p\<rparr>"

section \<open>Interpreter support\<close>

datatype interpreter_support =
    LocalOnly
  | RequiresHost host_requirement_set
  | RequiresOrchestration orchestration_requirement_set
  | Rejected frontend_rejection_reason

fun support_from_reason :: "runtime_requirement_reason \<Rightarrow> interpreter_support" where
  "support_from_reason RrAgentic = RequiresHost {HkAgentic}"
| "support_from_reason RrToolCall = RequiresHost {HkToolCall}"
| "support_from_reason RrHostAuthority = RequiresHost {HkHostAuthority}"
| "support_from_reason RrDurableMemory = RequiresHost {HkDurableMemory}"
| "support_from_reason RrApproval = RequiresHost {HkApproval}"
| "support_from_reason RrCheckpoint = RequiresOrchestration (orchestration_feature FkCheckpoint)"
| "support_from_reason RrTime = RequiresHost {HkTime}"
| "support_from_reason RrNetwork = RequiresHost {HkNetwork}"
| "support_from_reason RrTcp = RequiresHost {HkTcp}"
| "support_from_reason RrStream = RequiresHost {HkStream}"
| "support_from_reason RrTls = RequiresHost {HkTls}"
| "support_from_reason RrBrowser = RequiresHost {HkBrowser}"
| "support_from_reason RrConsole = RequiresHost {HkConsole}"
| "support_from_reason RrFileIO = RequiresHost {HkFileIO}"
| "support_from_reason RrCommand = RequiresHost {HkCommand}"
| "support_from_reason RrSecretAccess = RequiresHost {HkSecretAccess}"
| "support_from_reason RrCompiler = RequiresHost {HkCompiler}"
| "support_from_reason RrRuntimeHandler = RequiresOrchestration (orchestration_feature FkEffectHandler)"
| "support_from_reason RrTaskScheduler = RequiresOrchestration (orchestration_feature FkTaskScheduler)"

fun reason_host_kind :: "runtime_requirement_reason \<Rightarrow> host_requirement_kind option" where
  "reason_host_kind RrAgentic = Some HkAgentic"
| "reason_host_kind RrToolCall = Some HkToolCall"
| "reason_host_kind RrHostAuthority = Some HkHostAuthority"
| "reason_host_kind RrDurableMemory = Some HkDurableMemory"
| "reason_host_kind RrApproval = Some HkApproval"
| "reason_host_kind RrTime = Some HkTime"
| "reason_host_kind RrNetwork = Some HkNetwork"
| "reason_host_kind RrTcp = Some HkTcp"
| "reason_host_kind RrStream = Some HkStream"
| "reason_host_kind RrTls = Some HkTls"
| "reason_host_kind RrBrowser = Some HkBrowser"
| "reason_host_kind RrConsole = Some HkConsole"
| "reason_host_kind RrFileIO = Some HkFileIO"
| "reason_host_kind RrCommand = Some HkCommand"
| "reason_host_kind RrSecretAccess = Some HkSecretAccess"
| "reason_host_kind RrCompiler = Some HkCompiler"
| "reason_host_kind RrCheckpoint = None"
| "reason_host_kind RrRuntimeHandler = None"
| "reason_host_kind RrTaskScheduler = None"

definition support_less_equal :: "interpreter_support \<Rightarrow> interpreter_support \<Rightarrow> bool" where
  "support_less_equal l r =
     (if l = r then True
      else case (l, r) of
        (LocalOnly, _) \<Rightarrow> True
      | (_, Rejected _) \<Rightarrow> True
      | (Rejected _, _) \<Rightarrow> False
      | (RequiresHost a, RequiresHost b) \<Rightarrow> a \<subseteq> b
      | (RequiresHost a, RequiresOrchestration b) \<Rightarrow> a \<subseteq> oq_host b
      | (RequiresOrchestration a, RequiresOrchestration b) \<Rightarrow>
          oq_host a \<subseteq> oq_host b \<and> oq_features a \<subseteq> oq_features b
      | (RequiresOrchestration _, RequiresHost _) \<Rightarrow> False
      | (RequiresHost _, LocalOnly) \<Rightarrow> False
      | (RequiresOrchestration _, LocalOnly) \<Rightarrow> False)"

definition without_host_requirements :: "host_requirement_kind list \<Rightarrow> interpreter_support \<Rightarrow> interpreter_support" where
  "without_host_requirements removed s =
     (case s of
        RequiresHost host \<Rightarrow>
          (let host = fold (\<lambda>k h. h - {k}) removed host in
           if host = {} then LocalOnly else RequiresHost host)
      | RequiresOrchestration q \<Rightarrow>
          (let q = q\<lparr>oq_host := fold (\<lambda>k h. h - {k}) removed (oq_host q)\<rparr> in
           if oq_host q = {} \<and> oq_features q = {} then LocalOnly else RequiresOrchestration q)
      | LocalOnly \<Rightarrow> s
      | Rejected _ \<Rightarrow> s)"

definition support_joined :: "interpreter_support \<Rightarrow> interpreter_support \<Rightarrow> interpreter_support" where
  "support_joined s other =
     (case (s, other) of
        (Rejected reason, _) \<Rightarrow> Rejected reason
      | (_, Rejected reason) \<Rightarrow> Rejected reason
      | (RequiresOrchestration l, RequiresOrchestration r) \<Rightarrow> RequiresOrchestration (orchestration_joined l r)
      | (RequiresOrchestration q, RequiresHost h) \<Rightarrow> RequiresOrchestration (orchestration_with_host q h)
      | (RequiresHost h, RequiresOrchestration q) \<Rightarrow> RequiresOrchestration (orchestration_with_host q h)
      | (RequiresOrchestration q, LocalOnly) \<Rightarrow> RequiresOrchestration q
      | (LocalOnly, RequiresOrchestration q) \<Rightarrow> RequiresOrchestration q
      | (RequiresHost l, RequiresHost r) \<Rightarrow> RequiresHost (l \<union> r)
      | (RequiresHost h, LocalOnly) \<Rightarrow> RequiresHost h
      | (LocalOnly, RequiresHost h) \<Rightarrow> RequiresHost h
      | (LocalOnly, LocalOnly) \<Rightarrow> LocalOnly)"

definition support_join_assign :: "interpreter_support \<Rightarrow> interpreter_support \<Rightarrow> interpreter_support \<times> bool" where
  "support_join_assign s other = (let joined = support_joined s other in (joined, joined \<noteq> s))"

section \<open>Determinism is a join domain\<close>

interpretation determinism: join_domain "\<lambda>_. True" Deterministic determinism_join_assign
proof (unfold_locales, goal_cases)
  case (6 a)
  then show ?case by (cases a) (auto simp: determinism_join_assign_def Let_def max_def less_eq_determinism_def)
qed (auto simp: determinism_join_assign_def Let_def ac_simps)

section \<open>Support is a preorder with least upper bounds\<close>

text \<open>
  Two rejections are below each other whatever their reasons; the join keeps the reason of the
  first. Up to the reason of a rejection the support levels form a join domain.
\<close>

lemma orchestration_eqI:
  "oq_host p = oq_host q \<Longrightarrow> oq_features p = oq_features q \<Longrightarrow> p = (q :: orchestration_requirement_set)"
  by simp

lemma support_less_equal_refl [simp]: "support_less_equal s s"
  by (simp add: support_less_equal_def)

lemma support_less_equal_trans:
  "support_less_equal a b \<Longrightarrow> support_less_equal b c \<Longrightarrow> support_less_equal a c"
  by (cases a; cases b; cases c) (auto simp: support_less_equal_def split: if_splits)

lemma support_joined_upper:
  "support_less_equal a (support_joined a b)" "support_less_equal b (support_joined a b)"
  by (cases a; cases b;
      auto simp: support_less_equal_def support_joined_def orchestration_joined_def orchestration_with_host_def)+

lemma support_joined_least:
  "support_less_equal a c \<Longrightarrow> support_less_equal b c \<Longrightarrow> support_less_equal (support_joined a b) c"
  by (cases a; cases b; cases c)
    (auto simp: support_less_equal_def support_joined_def orchestration_joined_def orchestration_with_host_def
      split: if_splits)

definition no_rejection :: "interpreter_support \<Rightarrow> bool" where
  "no_rejection s \<longleftrightarrow> (\<forall>reason. s \<noteq> Rejected reason)"

interpretation support: join_domain "\<lambda>s. s \<in> {s. no_rejection s} \<union> {Rejected reason}" LocalOnly support_join_assign
  for reason
proof (unfold_locales, goal_cases)
  case (2 a b)
  then show ?case by (cases a; cases b) (auto simp: no_rejection_def support_join_assign_def support_joined_def Let_def)
next
  case (3 a)
  then show ?case by (cases a) (auto simp: support_join_assign_def support_joined_def orchestration_joined_def Let_def)
next
  case (4 a b)
  then show ?case
    by (cases a; cases b)
      (auto simp: no_rejection_def support_join_assign_def support_joined_def orchestration_joined_def
        orchestration_with_host_def Let_def)
next
  case (5 a b c)
  then show ?case
    by (cases a; cases b; cases c)
      (auto simp: no_rejection_def support_join_assign_def support_joined_def orchestration_joined_def
        orchestration_with_host_def Let_def)
next
  case (6 a)
  then show ?case by (cases a) (auto simp: support_join_assign_def support_joined_def Let_def)
qed (auto simp: no_rejection_def support_join_assign_def Let_def)

text \<open>The host kinds a support level asks for, and its interpreter features.\<close>

fun support_hosts :: "interpreter_support \<Rightarrow> host_requirement_kind set" where
  "support_hosts (RequiresHost h) = h"
| "support_hosts (RequiresOrchestration q) = oq_host q"
| "support_hosts _ = {}"

fun support_features :: "interpreter_support \<Rightarrow> interpreter_feature_kind set" where
  "support_features (RequiresOrchestration q) = oq_features q"
| "support_features _ = {}"

lemma fold_remove: "fold (\<lambda>k h. h - {k}) ks h = h - set ks"
  by (induction ks arbitrary: h) auto

lemma without_host_view:
  "support_hosts (without_host_requirements ks s) = support_hosts s - set ks"
  "support_features (without_host_requirements ks s) = support_features s"
  by (cases s; auto simp: without_host_requirements_def fold_remove Let_def)+

section \<open>Properties\<close>

text \<open>The join of two support levels is the least level above both, and its change flag
  says whether the level changed; it asks exactly for the hosts and features of the two unless one
  of them is a rejection, in which case the result is the first rejection.\<close>

theorem support_join_is_least:
  "(let j = fst (support_join_assign a b) in
     support_less_equal a j \<and> support_less_equal b j \<and>
     (\<forall>c. support_less_equal a c \<and> support_less_equal b c \<longrightarrow> support_less_equal j c) \<and>
     (snd (support_join_assign a b) \<longleftrightarrow> j \<noteq> a) \<and>
     (no_rejection a \<and> no_rejection b \<longrightarrow>
        support_hosts j = support_hosts a \<union> support_hosts b \<and>
        support_features j = support_features a \<union> support_features b) \<and>
     (\<forall>reason. a = Rejected reason \<or> no_rejection a \<and> b = Rejected reason \<longrightarrow> j = Rejected reason))"
proof -
  have v: "support_hosts (support_joined a b) = support_hosts a \<union> support_hosts b \<and>
      support_features (support_joined a b) = support_features a \<union> support_features b"
    if "no_rejection a" "no_rejection b"
    using that by (cases a; cases b)
      (auto simp: no_rejection_def support_joined_def orchestration_joined_def orchestration_with_host_def)
  have r: "support_joined a b = Rejected reason" if "a = Rejected reason \<or> no_rejection a \<and> b = Rejected reason" for reason
    using that by (cases a; cases b) (auto simp: no_rejection_def support_joined_def)
  show ?thesis
    unfolding support_join_assign_def Let_def
    using support_joined_upper(1) [of a b] support_joined_upper(2) [of b a] support_joined_least [of a _ b] v r by simp
qed

theorem support_join_is_least_witness:
  "fst (support_join_assign (RequiresHost {HkTime}) (support_from_reason RrTaskScheduler)) =
     RequiresOrchestration \<lparr>oq_host = {HkTime}, oq_features = {FkTaskScheduler}\<rparr> \<and>
   support_less_equal (RequiresHost {HkTime})
     (fst (support_join_assign (RequiresHost {HkTime}) (support_from_reason RrTaskScheduler)))"
proof -
  have "fst (support_join_assign (RequiresHost {HkTime}) (support_from_reason RrTaskScheduler)) =
      RequiresOrchestration \<lparr>oq_host = {HkTime}, oq_features = {FkTaskScheduler}\<rparr>"
    by (simp add: support_join_assign_def support_joined_def orchestration_with_host_def orchestration_feature_def Let_def)
  moreover have "support_less_equal (RequiresHost {HkTime})
      (fst (support_join_assign (RequiresHost {HkTime}) (support_from_reason RrTaskScheduler)))"
    using support_join_is_least [of "RequiresHost {HkTime}" "support_from_reason RrTaskScheduler"]
    unfolding Let_def by blast
  ultimately show ?thesis by blast
qed

text \<open>Removing host requirements removes exactly the listed hosts and no feature, never
  raises the level, and a level that has neither hosts nor features left is local.\<close>

theorem without_host_requirements_exact:
  "support_hosts (without_host_requirements ks s) = support_hosts s - set ks \<and>
   support_features (without_host_requirements ks s) = support_features s \<and>
   support_less_equal (without_host_requirements ks s) s \<and>
   (without_host_requirements ks s = LocalOnly \<longleftrightarrow>
      s = LocalOnly \<or> no_rejection s \<and> support_hosts s \<subseteq> set ks \<and> support_features s = {})"
proof -
  have "support_less_equal (without_host_requirements ks s) s"
    by (cases s) (auto simp: without_host_requirements_def fold_remove Let_def support_less_equal_def)
  moreover have "without_host_requirements ks s = LocalOnly \<longleftrightarrow>
      s = LocalOnly \<or> no_rejection s \<and> support_hosts s \<subseteq> set ks \<and> support_features s = {}"
    by (cases s) (auto simp: without_host_requirements_def fold_remove Let_def no_rejection_def)
  ultimately show ?thesis by (simp add: without_host_view)
qed

end
