(* ===== verification/Etas_Registry.thy ===== *)
theory Etas_Registry
  imports Etas_Effect Etas_Support
begin

text \<open>
  The effect registry (\<open>etas_effects/src/effect/registry.rs\<close>): the tables of effect tags and
  actions, their lookups, and how the tables are filled from the core effects, the standard
  library, dependency metadata and the effect declarations of a program. Ordered maps are finite
  maps; where the code iterates over one, the model goes through its keys in ascending order. The
  standard library registry is not part of the repository: what the code reads of it is a
  parameter. Of the HIR and of the type facts the model keeps the fields this code reads.
\<close>

section \<open>Data\<close>

datatype core_effect =
  CeAgentic | CeNetwork | CeFileIO | CeCommand | CeMemory | CeSecret | CeTime | CeHuman | CeError

record effect_tag =
  et_id :: effect_tag_id
  et_name :: utext
  et_core :: "core_effect option"
  et_requirement :: "runtime_requirement_reason option"
  et_ack :: bool

datatype effect_action_arg_kind = KType | KMemoryPlace | KStaticResourcePath utext | KStringPattern

record effect_action_sig =
  sg_has_default_handler :: bool
  sg_id :: effect_action_id
  sg_owner :: effect_tag_id
  sg_name :: utext
  sg_effect_args :: "effect_action_arg_kind list"
  sg_selector_param_names :: "utext list"
  sg_selector_defaults :: "effect_arg_ref option list"
  sg_params :: "type_id list"
  sg_output :: type_id
  sg_returns_never :: bool
  sg_requirement :: "runtime_requirement_reason option"
  sg_ack :: bool

record dependency_effect_tag =
  dt_path :: "utext list"
  dt_requirement :: "runtime_requirement_reason option"

record dependency_effect_action =
  da_path :: "utext list"
  da_effect_args :: "effect_action_arg_kind list"
  da_selector_param_names :: "utext list"
  da_selector_defaults :: "effect_arg_ref option list"
  da_returns_never :: bool
  da_requirement :: "runtime_requirement_reason option"

record dependency_effect_extension =
  de_package :: "nat option"
  de_child :: "utext list"
  de_parent :: "utext list"

record dependency_source_binding =
  ds_symbol :: symbol_id
  ds_path :: "utext list"

record dependency_metadata =
  dm_tags :: "dependency_effect_tag list"
  dm_actions :: "dependency_effect_action list"
  dm_extensions :: "dependency_effect_extension list"
  dm_source_bindings :: "dependency_source_binding list"

record memory_place_decl =
  mp_id :: type_id
  mp_segments :: "utext list"

record effect_registry =
  rg_tags :: "(effect_tag_id, effect_tag) fmap"
  rg_names :: "(utext, effect_tag_id) fmap"
  rg_symbol_tags :: "(symbol_id, effect_tag_id) fmap"
  rg_actions :: "(symbol_id, effect_action_sig) fmap"
  rg_dependency_actions :: "(effect_action_id, effect_action_sig) fmap"
  rg_dependency_tag_paths :: "(effect_tag_id, utext list) fmap"
  rg_dependency_action_paths :: "(action_ref, utext list) fmap"
  rg_standard_actions :: "(effect_action_id, effect_action_sig) fmap"
  rg_action_names :: "(utext, action_ref) fmap"
  rg_actions_by_owner :: "(effect_tag_id, symbol_id list) fmap"
  rg_extensions :: extension_graph
  rg_memory_places :: "(type_id, memory_place_decl) fmap"
  rg_unresolved :: "dependency_effect_extension list"

definition registry_default :: effect_registry where
  "registry_default = \<lparr>rg_tags = fmempty, rg_names = fmempty, rg_symbol_tags = fmempty, rg_actions = fmempty,
     rg_dependency_actions = fmempty, rg_dependency_tag_paths = fmempty, rg_dependency_action_paths = fmempty,
     rg_standard_actions = fmempty, rg_action_names = fmempty, rg_actions_by_owner = fmempty,
     rg_extensions = fmempty, rg_memory_places = fmempty, rg_unresolved = []\<rparr>"

abbreviation u32_limit :: nat where "u32_limit \<equiv> 0xFFFFFFFF"

definition FIRST_DYNAMIC_TAG :: nat where "FIRST_DYNAMIC_TAG = 1024"
definition AGENTIC_TAG :: effect_tag_id where "AGENTIC_TAG = 0"
definition NETWORK_TAG :: effect_tag_id where "NETWORK_TAG = 1"
definition FILE_IO_TAG :: effect_tag_id where "FILE_IO_TAG = 2"
definition COMMAND_TAG :: effect_tag_id where "COMMAND_TAG = 3"
definition MEMORY_TAG :: effect_tag_id where "MEMORY_TAG = 4"
definition SECRET_TAG :: effect_tag_id where "SECRET_TAG = 6"
definition TIME_TAG :: effect_tag_id where "TIME_TAG = 7"
definition ERROR_TAG :: effect_tag_id where "ERROR_TAG = 8"
definition HUMAN_TAG :: effect_tag_id where "HUMAN_TAG = 10"
definition ERROR_RAISE_ACTION :: effect_action_id where "ERROR_RAISE_ACTION = 33"

fun join_dots :: "utext list \<Rightarrow> utext" where
  "join_dots [] = []"
| "join_dots [s] = s"
| "join_dots (s # ss) = s @ lit ''.'' @ join_dots ss"

definition dotted :: "utext \<Rightarrow> utext \<Rightarrow> utext" where
  "dotted a b = a @ lit ''.'' @ b"

definition fmap_values :: "('k::linorder, 'v) fmap \<Rightarrow> 'v list" where
  "fmap_values m = List.map_filter (fmlookup m) (sorted_list_of_fset (fmdom m))"

section \<open>Lookups\<close>

definition tag_by_name :: "effect_registry \<Rightarrow> utext \<Rightarrow> effect_tag_id option" where
  "tag_by_name r nm = fmlookup (rg_names r) nm"

definition tag_by_symbol :: "effect_registry \<Rightarrow> symbol_id \<Rightarrow> effect_tag_id option" where
  "tag_by_symbol r s = fmlookup (rg_symbol_tags r) s"

definition tag_by_core :: "effect_registry \<Rightarrow> core_effect \<Rightarrow> effect_tag_id option" where
  "tag_by_core r core = map_option et_id (find (\<lambda>t. et_core t = Some core) (fmap_values (rg_tags r)))"

definition tag_name :: "effect_registry \<Rightarrow> effect_tag_id \<Rightarrow> utext option" where
  "tag_name r t = map_option et_name (fmlookup (rg_tags r) t)"

definition tag_extends :: "effect_registry \<Rightarrow> effect_tag_id \<Rightarrow> effect_tag_id \<Rightarrow> bool" where
  "tag_extends r child ancestor = tag_graph_extends (rg_extensions r) child ancestor"

definition standard_action_signature :: "effect_registry \<Rightarrow> action_ref \<Rightarrow> effect_action_sig option" where
  "standard_action_signature r a =
     Option.bind (fmlookup (rg_standard_actions r) (ar_action a)) (\<lambda>sg. if sg_owner sg = ar_tag a then Some sg else None)"

definition local_action_signature :: "effect_registry \<Rightarrow> action_ref \<Rightarrow> effect_action_sig option" where
  "local_action_signature r a =
     find (\<lambda>sg. sg_owner sg = ar_tag a \<and> sg_id sg = ar_action a) (fmap_values (rg_actions r))"

definition dependency_action_signature :: "effect_registry \<Rightarrow> action_ref \<Rightarrow> effect_action_sig option" where
  "dependency_action_signature r a =
     Option.bind (fmlookup (rg_dependency_actions r) (ar_action a)) (\<lambda>sg. if sg_owner sg = ar_tag a then Some sg else None)"

definition or_else :: "'a option \<Rightarrow> 'a option \<Rightarrow> 'a option" where
  "or_else a b = (case a of None \<Rightarrow> b | Some _ \<Rightarrow> a)"

definition action_signature :: "effect_registry \<Rightarrow> action_ref \<Rightarrow> effect_action_sig option" where
  "action_signature r a =
     or_else (or_else (standard_action_signature r a) (local_action_signature r a)) (dependency_action_signature r a)"

definition action_name :: "effect_registry \<Rightarrow> effect_tag_id \<Rightarrow> effect_action_id \<Rightarrow> utext option" where
  "action_name r owner action = map_option sg_name (action_signature r (ActionRef owner action))"

definition action_by_name :: "effect_registry \<Rightarrow> utext \<Rightarrow> action_ref option" where
  "action_by_name r nm = fmlookup (rg_action_names r) nm"

definition standard_action_by_name :: "effect_registry \<Rightarrow> utext \<Rightarrow> action_ref option" where
  "standard_action_by_name r nm = do {
     a \<leftarrow> action_by_name r nm;
     _ \<leftarrow> standard_action_signature r a;
     Some a
   }"

definition standard_tag_by_name :: "effect_registry \<Rightarrow> utext \<Rightarrow> effect_tag_id option" where
  "standard_tag_by_name r nm = do {
     t \<leftarrow> tag_by_name r nm;
     if t < FIRST_DYNAMIC_TAG \<and> fmlookup (rg_dependency_tag_paths r) t = None then Some t else None
   }"

definition standard_tag_by_id :: "effect_registry \<Rightarrow> nat \<Rightarrow> effect_tag_id option" where
  "standard_tag_by_id r t =
     (if t < FIRST_DYNAMIC_TAG \<and> fmlookup (rg_tags r) t \<noteq> None \<and> fmlookup (rg_dependency_tag_paths r) t = None
      then Some t else None)"

definition core_action :: "effect_registry \<Rightarrow> core_effect \<Rightarrow> effect_action_id \<Rightarrow> action_ref option" where
  "core_action r core action = do {
     t \<leftarrow> tag_by_core r core;
     sg \<leftarrow> fmlookup (rg_standard_actions r) action;
     if sg_owner sg = t then Some (ActionRef t action) else None
   }"

definition action_names_for_owner :: "effect_registry \<Rightarrow> utext \<Rightarrow> utext list" where
  "action_names_for_owner r owner =
     filter (\<lambda>nm. starts_with nm (owner @ lit ''.'')) (sorted_list_of_fset (fmdom (rg_action_names r)))"

definition runtime_requirement_reason_for_action ::
    "effect_registry \<Rightarrow> effect_action_id \<Rightarrow> runtime_requirement_reason option" where
  "runtime_requirement_reason_for_action r a =
     Option.bind (or_else (fmlookup (rg_standard_actions r) a) (fmlookup (rg_dependency_actions r) a)) sg_requirement"

definition runtime_requirement_reason_for_action_ref ::
    "effect_registry \<Rightarrow> action_ref \<Rightarrow> runtime_requirement_reason option" where
  "runtime_requirement_reason_for_action_ref r a = Option.bind (action_signature r a) sg_requirement"

definition tag_requires_high_impact_ack :: "effect_registry \<Rightarrow> effect_tag_id \<Rightarrow> bool" where
  "tag_requires_high_impact_ack r t = (case fmlookup (rg_tags r) t of None \<Rightarrow> False | Some tag \<Rightarrow> et_ack tag)"

definition action_requires_high_impact_ack :: "effect_registry \<Rightarrow> action_ref \<Rightarrow> bool" where
  "action_requires_high_impact_ack r a = (case action_signature r a of None \<Rightarrow> False | Some sg \<Rightarrow> sg_ack sg)"

definition memory_place :: "effect_registry \<Rightarrow> type_id \<Rightarrow> memory_place_decl option" where
  "memory_place r t = fmlookup (rg_memory_places r) t"

definition memory_place_contains :: "effect_registry \<Rightarrow> type_id \<Rightarrow> type_id \<Rightarrow> bool" where
  "memory_place_contains r parent child =
     (case memory_place r parent of
        None \<Rightarrow> False
      | Some p \<Rightarrow> (case memory_place r child of None \<Rightarrow> False
          | Some c \<Rightarrow> take (length (mp_segments p)) (mp_segments c) = mp_segments p))"

definition is_memory_tag :: "effect_registry \<Rightarrow> effect_tag_id \<Rightarrow> bool" where
  "is_memory_tag r t \<longleftrightarrow> Option.bind (fmlookup (rg_tags r) t) et_core = Some CeMemory"

definition runtime_requirement_reason :: "effect_registry \<Rightarrow> effect_tag_id \<Rightarrow> runtime_requirement_reason option" where
  "runtime_requirement_reason r t = Option.bind (fmlookup (rg_tags r) t) et_requirement"

definition tag_by_path :: "effect_registry \<Rightarrow> utext list \<Rightarrow> effect_tag_id option" where
  "tag_by_path r path =
     or_else (tag_by_name r (join_dots path)) (if length path = 1 then tag_by_name r (path ! 0) else None)"

section \<open>Fresh identifiers\<close>

definition next_dynamic :: "nat fset \<Rightarrow> nat" where
  "next_dynamic ids =
     max (min (Suc (if ids = {||} then FIRST_DYNAMIC_TAG - 1 else fMax ids)) u32_limit) FIRST_DYNAMIC_TAG"

definition next_dynamic_tag :: "effect_registry \<Rightarrow> nat" where
  "next_dynamic_tag r = next_dynamic (fmdom (rg_tags r))"

definition next_dynamic_action :: "effect_registry \<Rightarrow> nat" where
  "next_dynamic_action r =
     next_dynamic (fmdom (rg_standard_actions r) |\<union>| fmdom (rg_dependency_actions r) |\<union>| sg_id |`| fmran (rg_actions r))"

section \<open>Registration\<close>

fun runtime_requirement_for_core :: "core_effect \<Rightarrow> runtime_requirement_reason option" where
  "runtime_requirement_for_core CeAgentic = Some RrAgentic"
| "runtime_requirement_for_core CeNetwork = Some RrNetwork"
| "runtime_requirement_for_core CeFileIO = Some RrFileIO"
| "runtime_requirement_for_core CeCommand = Some RrCommand"
| "runtime_requirement_for_core CeMemory = Some RrDurableMemory"
| "runtime_requirement_for_core CeSecret = Some RrSecretAccess"
| "runtime_requirement_for_core CeTime = Some RrTime"
| "runtime_requirement_for_core CeHuman = None"
| "runtime_requirement_for_core CeError = None"

definition core_effect_requires_high_impact_ack :: "core_effect \<Rightarrow> bool" where
  "core_effect_requires_high_impact_ack core \<longleftrightarrow> core \<in> {CeCommand, CeSecret}"

definition modify_tag :: "effect_tag_id \<Rightarrow> (effect_tag \<Rightarrow> effect_tag) \<Rightarrow> effect_registry \<Rightarrow> effect_registry" where
  "modify_tag t f r =
     (case fmlookup (rg_tags r) t of None \<Rightarrow> r | Some tag \<Rightarrow> r\<lparr>rg_tags := fmupd t (f tag) (rg_tags r)\<rparr>)"

definition register_tag ::
    "effect_tag_id \<Rightarrow> utext \<Rightarrow> core_effect option \<Rightarrow> runtime_requirement_reason option \<Rightarrow> effect_registry \<Rightarrow> effect_registry" where
  "register_tag t nm core requirement r =
     (let tag = \<lparr>et_id = t, et_name = nm, et_core = core, et_requirement = requirement,
            et_ack = (case core of None \<Rightarrow> False | Some c \<Rightarrow> core_effect_requires_high_impact_ack c)\<rparr>
      in r\<lparr>rg_tags := fmupd t tag (rg_tags r),
           rg_names := fmupd (lit ''std.effects.'' @ nm) t (fmupd nm t (rg_names r))\<rparr>)"

definition register_core :: "utext \<Rightarrow> effect_tag_id \<Rightarrow> core_effect \<Rightarrow> effect_registry \<Rightarrow> effect_registry" where
  "register_core nm t core r =
     (let r = register_tag t nm (Some core) (runtime_requirement_for_core core) r
      in r\<lparr>rg_names := fmupd (lit ''std.runtime.effects.'' @ nm) t (rg_names r)\<rparr>)"

definition register_standard_runtime ::
    "utext \<Rightarrow> effect_tag_id \<Rightarrow> runtime_requirement_reason \<Rightarrow> bool \<Rightarrow> effect_registry \<Rightarrow> effect_registry" where
  "register_standard_runtime nm t requirement ack r =
     (let r = register_tag t nm None (Some requirement) r
      in if ack then modify_tag t (\<lambda>tag. tag\<lparr>et_ack := True\<rparr>) r else r)"

definition add_extension :: "effect_tag_id \<Rightarrow> effect_tag_id \<Rightarrow> effect_registry \<Rightarrow> effect_registry" where
  "add_extension child parent r =
     (let r = r\<lparr>rg_extensions := add_edge child parent (rg_extensions r)\<rparr>
      in case runtime_requirement_reason r parent of
           None \<Rightarrow> r
         | Some q \<Rightarrow> modify_tag child
             (\<lambda>tag. tag\<lparr>et_requirement := (case et_requirement tag of None \<Rightarrow> Some q | Some p \<Rightarrow> Some p)\<rparr>) r)"

definition register_memory_places :: "(type_id \<times> utext list option) list \<Rightarrow> effect_registry \<Rightarrow> effect_registry" where
  "register_memory_places types r =
     fold (\<lambda>(t, place) r. case place of None \<Rightarrow> r
       | Some segments \<Rightarrow> r\<lparr>rg_memory_places := fmupd t \<lparr>mp_id = t, mp_segments = segments\<rparr> (rg_memory_places r)\<rparr>) types r"

section \<open>The standard library\<close>

text \<open>
  \<open>StdRegistry\<close> is not part of the repository: \<open>sr_symbols\<close> stands for \<open>symbols()\<close> and \<open>sr_lookup\<close> for
  \<open>lookup_qualified\<close>.
\<close>

datatype std_runtime_requirement =
    SqAgentic | SqToolCall | SqHostAuthority | SqDurableMemory | SqApproval | SqCheckpoint | SqTime
  | SqNetwork | SqTcp | SqStream | SqTls | SqBrowser | SqConsole | SqFileIO | SqCommand
  | SqSecretAccess | SqCompiler | SqRuntimeHandler | SqTaskScheduler

fun runtime_requirement_from_std :: "std_runtime_requirement \<Rightarrow> runtime_requirement_reason" where
  "runtime_requirement_from_std SqAgentic = RrAgentic"
| "runtime_requirement_from_std SqToolCall = RrToolCall"
| "runtime_requirement_from_std SqHostAuthority = RrHostAuthority"
| "runtime_requirement_from_std SqDurableMemory = RrDurableMemory"
| "runtime_requirement_from_std SqApproval = RrApproval"
| "runtime_requirement_from_std SqCheckpoint = RrCheckpoint"
| "runtime_requirement_from_std SqTime = RrTime"
| "runtime_requirement_from_std SqNetwork = RrNetwork"
| "runtime_requirement_from_std SqTcp = RrTcp"
| "runtime_requirement_from_std SqStream = RrStream"
| "runtime_requirement_from_std SqTls = RrTls"
| "runtime_requirement_from_std SqBrowser = RrBrowser"
| "runtime_requirement_from_std SqConsole = RrConsole"
| "runtime_requirement_from_std SqFileIO = RrFileIO"
| "runtime_requirement_from_std SqCommand = RrCommand"
| "runtime_requirement_from_std SqSecretAccess = RrSecretAccess"
| "runtime_requirement_from_std SqCompiler = RrCompiler"
| "runtime_requirement_from_std SqRuntimeHandler = RrRuntimeHandler"
| "runtime_requirement_from_std SqTaskScheduler = RrTaskScheduler"

datatype std_symbol_kind = SkEffect | SkEffectAction | SkOther

record std_effect_decl =
  sed_name :: utext
  sed_core :: bool
  sed_stable_id :: "nat option"
  sed_requirement :: "std_runtime_requirement option"
  sed_ack :: bool
  sed_extends :: "utext list"

record std_action_decl =
  sad_owner :: utext
  sad_name :: utext
  sad_stable_id :: "nat option"
  sad_requirement :: "std_runtime_requirement option"
  sad_effect_args :: "effect_action_arg_kind list"
  sad_returns_never :: bool
  sad_ack :: bool
  sad_has_default_handler :: bool

datatype std_decl = SdEffect std_effect_decl | SdEffectAction std_action_decl | SdOther

record std_symbol =
  ss_path :: "utext list"
  ss_kind :: std_symbol_kind
  ss_decl :: std_decl

record std_registry =
  sr_symbols :: "std_symbol list"
  sr_lookup :: "utext list \<Rightarrow> std_symbol option"

definition is_std_effect_symbol :: "utext list \<Rightarrow> bool" where
  "is_std_effect_symbol path \<longleftrightarrow> length path = 3 \<and> path ! 0 = lit ''std'' \<and>
     path ! 1 \<in> {lit ''effects'', lit ''task''}"

definition is_std_effect_action_symbol :: "utext list \<Rightarrow> bool" where
  "is_std_effect_action_symbol path \<longleftrightarrow> length path = 5 \<and> path ! 0 = lit ''std'' \<and>
     path ! 1 \<in> {lit ''effects'', lit ''task''} \<and> path ! 2 = lit ''actions''"

record standard_action_registration =
  ra_has_default_handler :: bool
  ra_id :: effect_action_id
  ra_owner :: effect_tag_id
  ra_name :: utext
  ra_requirement :: "runtime_requirement_reason option"
  ra_effect_args :: "effect_action_arg_kind list"
  ra_returns_never :: bool
  ra_ack :: bool

definition name_action :: "utext \<Rightarrow> action_ref \<Rightarrow> effect_registry \<Rightarrow> effect_registry" where
  "name_action nm a r = r\<lparr>rg_action_names := fmupd nm a (rg_action_names r)\<rparr>"

definition register_owner_aliases :: "utext \<Rightarrow> utext \<Rightarrow> action_ref \<Rightarrow> std_symbol list \<Rightarrow> effect_registry \<Rightarrow> effect_registry" where
  "register_owner_aliases owner nm a symbols r =
     fold (\<lambda>s r. if ss_path s \<noteq> [] \<and> last (ss_path s) = owner
            then name_action (join_dots (ss_path s @ [nm])) a r else r) symbols r"

definition register_standard_action_with_runtime ::
    "standard_action_registration \<Rightarrow> std_registry \<Rightarrow> effect_registry \<Rightarrow> effect_registry" where
  "register_standard_action_with_runtime g std r =
     (case fmlookup (rg_tags r) (ra_owner g) of
        None \<Rightarrow> r
      | Some owner_tag \<Rightarrow>
          (let owner_name = et_name owner_tag;
               a = ActionRef (ra_owner g) (ra_id g);
               sg = \<lparr>sg_has_default_handler = ra_has_default_handler g, sg_id = ra_id g, sg_owner = ra_owner g,
                 sg_name = ra_name g, sg_effect_args = ra_effect_args g, sg_selector_param_names = [],
                 sg_selector_defaults = [], sg_params = [], sg_output = 0, sg_returns_never = ra_returns_never g,
                 sg_requirement = ra_requirement g, sg_ack = ra_ack g\<rparr>;
               r = r\<lparr>rg_standard_actions := fmupd (ra_id g) sg (rg_standard_actions r)\<rparr>;
               r = name_action (dotted owner_name (ra_name g)) a r;
               r = name_action (lit ''std.effects.'' @ dotted owner_name (ra_name g)) a r;
               r = name_action (lit ''std.effects.actions.'' @ dotted owner_name (ra_name g)) a r;
               r = name_action (lit ''std.runtime.effects.'' @ dotted owner_name (ra_name g)) a r
           in register_owner_aliases owner_name (ra_name g) a (sr_symbols std) r))"

definition register_standard_action ::
    "standard_action_registration \<Rightarrow> std_registry \<Rightarrow> effect_registry \<Rightarrow> effect_registry" where
  "register_standard_action g std r =
     (let r = register_standard_action_with_runtime g std r
      in case ra_requirement g of
           None \<Rightarrow> r
         | Some q \<Rightarrow> modify_tag (ra_owner g) (\<lambda>tag. tag\<lparr>et_requirement := or_else (et_requirement tag) (Some q)\<rparr>) r)"

definition register_std_effect :: "std_symbol \<Rightarrow> effect_registry \<Rightarrow> effect_registry" where
  "register_std_effect s r =
     (if ss_kind s \<noteq> SkEffect \<or> \<not> is_std_effect_symbol (ss_path s) then r
      else case ss_decl s of
        SdEffect e \<Rightarrow>
          if sed_core e \<and> tag_by_name r (sed_name e) \<noteq> None then r
          else (case sed_stable_id e of
             None \<Rightarrow> r
           | Some t \<Rightarrow>
              (case sed_requirement e of
                 None \<Rightarrow> r
               | Some q \<Rightarrow>
                  fold (\<lambda>parent r. case tag_by_name r parent of None \<Rightarrow> r | Some p \<Rightarrow> add_extension t p r)
                    (sed_extends e)
                    (register_standard_runtime (sed_name e) t (runtime_requirement_from_std q) (sed_ack e) r)))
      | _ \<Rightarrow> r)"

definition registration_of :: "std_action_decl \<Rightarrow> effect_action_id \<Rightarrow> effect_tag_id \<Rightarrow>
    runtime_requirement_reason option \<Rightarrow> standard_action_registration" where
  "registration_of d i owner q = \<lparr>ra_has_default_handler = sad_has_default_handler d, ra_id = i, ra_owner = owner,
     ra_name = sad_name d, ra_requirement = q, ra_effect_args = sad_effect_args d,
     ra_returns_never = sad_returns_never d, ra_ack = sad_ack d\<rparr>"

definition register_std_action :: "std_registry \<Rightarrow> std_symbol \<Rightarrow> effect_registry \<Rightarrow> effect_registry" where
  "register_std_action std s r =
     (if ss_kind s \<noteq> SkEffectAction \<or> \<not> is_std_effect_action_symbol (ss_path s) then r
      else case ss_decl s of
        SdEffectAction d \<Rightarrow>
          (case sad_stable_id d of
             None \<Rightarrow> r
           | Some i \<Rightarrow>
              (case tag_by_name r (sad_owner d) of
                 None \<Rightarrow> r
               | Some owner \<Rightarrow>
                  (let q = or_else (map_option runtime_requirement_from_std (sad_requirement d))
                             (runtime_requirement_reason r owner);
                       r = register_standard_action (registration_of d i owner q) std r
                   in name_action (join_dots (ss_path s)) (ActionRef owner i) r)))
      | _ \<Rightarrow> r)"

definition register_std_raise :: "std_registry \<Rightarrow> effect_registry \<Rightarrow> effect_registry" where
  "register_std_raise std r =
     (case sr_lookup std [lit ''std'', lit ''runtime'', lit ''error'', lit ''raise''] of
        None \<Rightarrow> r
      | Some s \<Rightarrow>
          (case ss_decl s of
             SdEffectAction d \<Rightarrow>
               register_standard_action_with_runtime
                 (registration_of d (case sad_stable_id d of None \<Rightarrow> ERROR_RAISE_ACTION | Some i \<Rightarrow> i) ERROR_TAG
                   (map_option runtime_requirement_from_std (sad_requirement d))) std r
           | _ \<Rightarrow> r))"

definition register_standard_library_descriptors :: "std_registry \<Rightarrow> effect_registry \<Rightarrow> effect_registry" where
  "register_standard_library_descriptors std r =
     register_std_raise std
       (fold (register_std_action std) (sr_symbols std) (fold register_std_effect (sr_symbols std) r))"

definition core_registry :: effect_registry where
  "core_registry =
     register_core (lit ''Error'') ERROR_TAG CeError
     (register_core (lit ''Human'') HUMAN_TAG CeHuman
     (register_core (lit ''Time'') TIME_TAG CeTime
     (register_core (lit ''Secret'') SECRET_TAG CeSecret
     (register_core (lit ''Memory'') MEMORY_TAG CeMemory
     (register_core (lit ''Command'') COMMAND_TAG CeCommand
     (register_core (lit ''FileIO'') FILE_IO_TAG CeFileIO
     (register_core (lit ''Network'') NETWORK_TAG CeNetwork
     (register_core (lit ''Agentic'') AGENTIC_TAG CeAgentic registry_default))))))))"

definition with_standard_effects_from :: "std_registry \<Rightarrow> effect_registry" where
  "with_standard_effects_from std = register_standard_library_descriptors std core_registry"

section \<open>Dependency metadata\<close>

type_synonym registration_error = utext

fun register_dependency_tags ::
    "dependency_effect_tag list \<Rightarrow> effect_registry \<Rightarrow> registration_error + effect_registry" where
  "register_dependency_tags [] r = Inr r"
| "register_dependency_tags (d # ds) r =
     (if dt_path d = [] then Inl (lit ''dependency effect tag path must not be empty'')
      else
        let qualified = join_dots (dt_path d) in
        if tag_by_name r qualified \<noteq> None then register_dependency_tags ds r
        else
          let t = next_dynamic_tag r;
              tag = \<lparr>et_id = t, et_name = last (dt_path d), et_core = None, et_requirement = dt_requirement d, et_ack = False\<rparr>
          in register_dependency_tags ds
               (r\<lparr>rg_tags := fmupd t tag (rg_tags r), rg_names := fmupd qualified t (rg_names r),
                  rg_dependency_tag_paths := fmupd t (dt_path d) (rg_dependency_tag_paths r)\<rparr>))"

definition register_dependency_action ::
    "dependency_effect_action \<Rightarrow> effect_registry \<Rightarrow> registration_error + effect_registry" where
  "register_dependency_action d r =
     (if length (da_path d) < 2 then
        Inl (lit ''dependency action path `'' @ join_dots (da_path d) @ lit ''` must contain an effect and action name'')
      else if length (da_effect_args d) \<noteq> length (da_selector_param_names d) \<or>
              length (da_effect_args d) \<noteq> length (da_selector_defaults d) then
        Inl (lit ''dependency action `'' @ join_dots (da_path d) @ lit ''` selector metadata lengths do not match'')
      else
        let qualified = join_dots (da_path d) in
        case tag_by_path r (butlast (da_path d)) of
          None \<Rightarrow> Inl (lit ''dependency action `'' @ join_dots (da_path d) @
                    lit ''` references unknown effect owner `'' @ join_dots (butlast (da_path d)) @ lit ''`'')
        | Some owner \<Rightarrow>
            if (case action_by_name r qualified of None \<Rightarrow> False | Some a \<Rightarrow> ar_tag a = owner) then Inr r
            else
              let i = next_dynamic_action r;
                  a = ActionRef owner i;
                  sg = \<lparr>sg_has_default_handler = False, sg_id = i, sg_owner = owner, sg_name = last (da_path d),
                    sg_effect_args = da_effect_args d, sg_selector_param_names = da_selector_param_names d,
                    sg_selector_defaults = da_selector_defaults d, sg_params = [], sg_output = 0,
                    sg_returns_never = da_returns_never d,
                    sg_requirement = or_else (da_requirement d) (runtime_requirement_reason r owner), sg_ack = False\<rparr>;
                  r = r\<lparr>rg_dependency_actions := fmupd i sg (rg_dependency_actions r)\<rparr>;
                  r = name_action qualified a r;
                  r = r\<lparr>rg_dependency_action_paths := fmupd a (da_path d) (rg_dependency_action_paths r)\<rparr>;
                  short = dotted (da_path d ! (length (da_path d) - 2)) (last (da_path d))
              in Inr (if length (da_path d) > 2 \<and> action_by_name r short = None then name_action short a r else r))"

fun register_dependency_actions ::
    "dependency_effect_action list \<Rightarrow> effect_registry \<Rightarrow> registration_error + effect_registry" where
  "register_dependency_actions [] r = Inr r"
| "register_dependency_actions (d # ds) r =
     (case register_dependency_action d r of Inl e \<Rightarrow> Inl e | Inr r \<Rightarrow> register_dependency_actions ds r)"

definition register_dependency_extension :: "dependency_effect_extension \<Rightarrow> effect_registry \<Rightarrow> effect_registry" where
  "register_dependency_extension d r =
     (case tag_by_path r (de_child d) of
        None \<Rightarrow> r\<lparr>rg_unresolved := rg_unresolved r @ [d]\<rparr>
      | Some child \<Rightarrow>
          (case tag_by_path r (de_parent d) of
             None \<Rightarrow> r\<lparr>rg_unresolved := rg_unresolved r @ [d]\<rparr>
           | Some parent \<Rightarrow> add_extension child parent r))"

definition register_dependency_metadata ::
    "dependency_metadata \<Rightarrow> effect_registry \<Rightarrow> registration_error + effect_registry" where
  "register_dependency_metadata d r =
     (case register_dependency_tags (dm_tags d) r of
        Inl e \<Rightarrow> Inl e
      | Inr r \<Rightarrow>
          (case register_dependency_actions (dm_actions d) r of
             Inl e \<Rightarrow> Inl e
           | Inr r \<Rightarrow> Inr (fold register_dependency_extension (dm_extensions d) r)))"

section \<open>The declarations of a program\<close>

datatype resolve_result = Resolved symbol_id | PartiallyResolved | Unresolved | Ambiguous "symbol_id list"

text \<open>Of a symbol's definition the code tells apart effect actions and import aliases.\<close>

datatype symbol_def = DefEffectAction "symbol_id option" | DefImportAlias "utext list" | DefOther

record hir_symbol =
  hs_name :: utext
  hs_defining_item :: "item_id option"
  hs_def :: symbol_def

record hir_effect_decl =
  hd_symbol :: symbol_id
  hd_extends :: "resolve_result option"

record hir_module =
  hm_name :: "utext list option"
  hm_items :: "item_id list"

text \<open>The effect declarations among the items, in item order, the symbols and the modules.\<close>

record hir_program =
  hp_effects :: "hir_effect_decl list"
  hp_symbols :: "symbol_id \<rightharpoonup> hir_symbol"
  hp_modules :: "hir_module list"

record action_type_signature =
  ts_params :: "type_id list"
  ts_output :: type_id
  ts_effect_args :: "effect_action_arg_kind list"
  ts_selector_param_names :: "utext list"
  ts_selector_defaults :: "effect_arg_ref option list"
  ts_returns_never :: bool
  ts_has_default_handler :: bool

definition symbol_name :: "hir_program \<Rightarrow> symbol_id \<Rightarrow> utext option" where
  "symbol_name hir s = map_option hs_name (hp_symbols hir s)"

definition action_owner_symbol :: "hir_program \<Rightarrow> symbol_id \<Rightarrow> symbol_id option" where
  "action_owner_symbol hir s =
     Option.bind (hp_symbols hir s) (\<lambda>sym. case hs_def sym of DefEffectAction owner \<Rightarrow> owner | _ \<Rightarrow> None)"

definition module_name_for_symbol :: "hir_program \<Rightarrow> symbol_id \<Rightarrow> utext option" where
  "module_name_for_symbol hir s = do {
     sym \<leftarrow> hp_symbols hir s;
     i \<leftarrow> hs_defining_item sym;
     m \<leftarrow> find (\<lambda>m. i \<in> set (hm_items m)) (hp_modules hir);
     segments \<leftarrow> hm_name m;
     Some (join_dots segments)
   }"

definition tag_by_resolved_symbol :: "hir_program \<Rightarrow> effect_registry \<Rightarrow> symbol_id \<Rightarrow> effect_tag_id option" where
  "tag_by_resolved_symbol hir r s =
     or_else (tag_by_symbol r s)
       (Option.bind (hp_symbols hir s)
          (\<lambda>sym. case hs_def sym of DefImportAlias path \<Rightarrow> tag_by_name r (join_dots path) | _ \<Rightarrow> None))"

fun resolve_effect_ref :: "hir_program \<Rightarrow> effect_registry \<Rightarrow> resolve_result \<Rightarrow> effect_tag_id option" where
  "resolve_effect_ref hir r (Resolved s) = tag_by_resolved_symbol hir r s"
| "resolve_effect_ref hir r PartiallyResolved = None"
| "resolve_effect_ref hir r Unresolved = None"
| "resolve_effect_ref hir r (Ambiguous _) = None"

definition register_effect_names :: "hir_program \<Rightarrow> hir_effect_decl \<Rightarrow> effect_tag_id \<Rightarrow> effect_registry \<Rightarrow> effect_registry" where
  "register_effect_names hir d t r =
     (case symbol_name hir (hd_symbol d) of
        None \<Rightarrow> r
      | Some nm \<Rightarrow>
          (let r = (if fmlookup (rg_tags r) t = None
                    then r\<lparr>rg_tags := fmupd t \<lparr>et_id = t, et_name = nm, et_core = None, et_requirement = None,
                           et_ack = False\<rparr> (rg_tags r)\<rparr> else r);
               r = r\<lparr>rg_names := fmupd nm t (rg_names r)\<rparr>
           in case module_name_for_symbol hir (hd_symbol d) of
                None \<Rightarrow> r
              | Some module \<Rightarrow> r\<lparr>rg_names := fmupd (dotted module nm) t (rg_names r)\<rparr>))"

definition can_source_effect_bind_standard_tag :: "effect_registry \<Rightarrow> utext \<Rightarrow> effect_tag_id \<Rightarrow> bool" where
  "can_source_effect_bind_standard_tag r nm t =
     (case fmlookup (rg_tags r) t of
        None \<Rightarrow> False
      | Some tag \<Rightarrow> et_core tag \<noteq> None \<or> nm \<in> {lit ''Approval'', lit ''Console''})"

fun collect_bindings ::
    "dependency_source_binding list \<Rightarrow> (symbol_id, utext list) fmap \<Rightarrow>
     registration_error + (symbol_id, utext list) fmap" where
  "collect_bindings [] m = Inr m"
| "collect_bindings (b # bs) m =
     (if fmlookup m (ds_symbol b) \<noteq> None then Inl (lit ''duplicate dependency source effect binding'')
      else collect_bindings bs (fmupd (ds_symbol b) (ds_path b) m))"

definition bind_symbol :: "symbol_id \<Rightarrow> effect_tag_id \<Rightarrow> effect_registry \<Rightarrow> effect_registry" where
  "bind_symbol s t r = r\<lparr>rg_symbol_tags := fmupd s t (rg_symbol_tags r)\<rparr>"

text \<open>The counter of user tags is a \<open>u32\<close>; its increment is written with the wrap-around of a release build.\<close>

definition register_hir_effect ::
    "hir_program \<Rightarrow> hir_effect_decl \<Rightarrow> (symbol_id, utext list) fmap \<Rightarrow> nat \<Rightarrow> effect_registry \<Rightarrow>
     registration_error + (symbol_id, utext list) fmap \<times> nat \<times> effect_registry" where
  "register_hir_effect hir d bindings counter r =
     (let s = hd_symbol d in
      case tag_by_symbol r s of
        Some existing \<Rightarrow> Inr (bindings, counter, register_effect_names hir d existing r)
      | None \<Rightarrow>
        (case symbol_name hir s of
           None \<Rightarrow> Inr (bindings, counter, r)
         | Some nm \<Rightarrow>
           (case fmlookup bindings s of
              Some path \<Rightarrow>
                (case tag_by_path r path of
                   None \<Rightarrow> Inl (lit ''source effect binding has no matching dependency tag'')
                 | Some t \<Rightarrow>
                    if fmlookup (rg_dependency_tag_paths r) t \<noteq> Some path
                    then Inl (lit ''source effect binding does not identify a dependency tag'')
                    else Inr (fmdrop s bindings, counter, register_effect_names hir d t (bind_symbol s t r)))
            | None \<Rightarrow>
                (case Option.bind (tag_by_name r nm)
                        (\<lambda>t. if can_source_effect_bind_standard_tag r nm t then Some t else None) of
                   Some existing \<Rightarrow>
                     Inr (bindings, counter, register_effect_names hir d existing (bind_symbol s existing r))
                 | None \<Rightarrow>
                     Inr (bindings, (counter + 1) mod 2 ^ 32,
                       register_effect_names hir d counter (bind_symbol s counter r))))))"

fun register_hir_effect_loop ::
    "hir_program \<Rightarrow> hir_effect_decl list \<Rightarrow> (symbol_id, utext list) fmap \<Rightarrow> nat \<Rightarrow> effect_registry \<Rightarrow>
     registration_error + (symbol_id, utext list) fmap \<times> effect_registry" where
  "register_hir_effect_loop hir [] bindings counter r = Inr (bindings, r)"
| "register_hir_effect_loop hir (d # ds) bindings counter r =
     (case register_hir_effect hir d bindings counter r of
        Inl e \<Rightarrow> Inl e
      | Inr (bindings, counter, r) \<Rightarrow> register_hir_effect_loop hir ds bindings counter r)"

definition register_hir_effects ::
    "hir_program \<Rightarrow> dependency_metadata \<Rightarrow> effect_registry \<Rightarrow> registration_error + effect_registry" where
  "register_hir_effects hir dependencies r =
     (case collect_bindings (dm_source_bindings dependencies) fmempty of
        Inl e \<Rightarrow> Inl e
      | Inr bindings \<Rightarrow>
          (case register_hir_effect_loop hir (hp_effects hir) bindings (next_dynamic_tag r) r of
             Inl e \<Rightarrow> Inl e
           | Inr (bindings, r) \<Rightarrow>
               if bindings \<noteq> fmempty then Inl (lit ''source effect binding has no HIR effect declaration'') else Inr r))"

definition register_hir_effect_extension :: "hir_program \<Rightarrow> hir_effect_decl \<Rightarrow> effect_registry \<Rightarrow> effect_registry" where
  "register_hir_effect_extension hir d r =
     (case tag_by_symbol r (hd_symbol d) of
        None \<Rightarrow> r
      | Some child \<Rightarrow>
          (case hd_extends d of
             None \<Rightarrow> r
           | Some resolution \<Rightarrow>
               (case resolve_effect_ref hir r resolution of None \<Rightarrow> r | Some parent \<Rightarrow> add_extension child parent r)))"

definition register_hir_effect_extensions :: "hir_program \<Rightarrow> effect_registry \<Rightarrow> effect_registry" where
  "register_hir_effect_extensions hir r = fold (register_hir_effect_extension hir) (hp_effects hir) r"

definition strip_owner :: "utext \<Rightarrow> utext \<Rightarrow> utext" where
  "strip_owner owner nm = (if starts_with nm (owner @ lit ''.'') then drop (Suc (length owner)) nm else nm)"

text \<open>The signatures come from a hash map: their list is in the order the map happens to yield them.\<close>

definition register_hir_action ::
    "hir_program \<Rightarrow> symbol_id \<Rightarrow> action_type_signature \<Rightarrow> nat \<Rightarrow> effect_registry \<Rightarrow>
     registration_error + nat \<times> effect_registry" where
  "register_hir_action hir s ts counter r =
     (case Option.bind (action_owner_symbol hir s) (tag_by_symbol r) of
        None \<Rightarrow> Inr (counter, r)
      | Some owner \<Rightarrow>
      (case map_option et_name (fmlookup (rg_tags r) owner) of
        None \<Rightarrow> Inr (counter, r)
      | Some owner_name \<Rightarrow>
      (case symbol_name hir s of
        None \<Rightarrow> Inr (counter, r)
      | Some nm \<Rightarrow>
        let local = strip_owner owner_name nm;
            qualified = map_option (\<lambda>path. dotted (join_dots path) local) (fmlookup (rg_dependency_tag_paths r) owner);
            existing = (case qualified of
                          Some q \<Rightarrow> action_by_name r q
                        | None \<Rightarrow> action_by_name r (dotted owner_name local));
            (i, counter) = (case Option.bind existing (\<lambda>a. if ar_tag a = owner then Some (ar_action a) else None) of
                              Some i \<Rightarrow> (i, counter)
                            | None \<Rightarrow> (counter, min (counter + 1) u32_limit));
            sg = \<lparr>sg_has_default_handler = ts_has_default_handler ts, sg_id = i, sg_owner = owner, sg_name = local,
              sg_effect_args = ts_effect_args ts, sg_selector_param_names = ts_selector_param_names ts,
              sg_selector_defaults = ts_selector_defaults ts, sg_params = ts_params ts, sg_output = ts_output ts,
              sg_returns_never = ts_returns_never ts, sg_requirement = runtime_requirement_reason r owner, sg_ack = False\<rparr>;
            disagrees = (case fmlookup (rg_dependency_actions r) i of
                           None \<Rightarrow> False
                         | Some md \<Rightarrow> sg_owner md \<noteq> owner \<or> sg_effect_args md \<noteq> sg_effect_args sg \<or>
                             sg_selector_param_names md \<noteq> sg_selector_param_names sg \<or>
                             sg_selector_defaults md \<noteq> sg_selector_defaults sg \<or>
                             sg_returns_never md \<noteq> sg_returns_never sg)
        in if disagrees then Inl (lit ''dependency source action disagrees with its metadata selector signature'')
           else
             let r = r\<lparr>rg_actions := fmupd s sg (rg_actions r)\<rparr>;
                 a = ActionRef owner i;
                 r = name_action (dotted owner_name local) a r;
                 r = (case module_name_for_symbol hir s of
                        None \<Rightarrow> r
                      | Some module \<Rightarrow> name_action (dotted module (dotted owner_name local)) a r);
                 r = r\<lparr>rg_actions_by_owner := fmupd owner
                        ((case fmlookup (rg_actions_by_owner r) owner of None \<Rightarrow> [] | Some ss \<Rightarrow> ss) @ [s])
                        (rg_actions_by_owner r)\<rparr>
             in Inr (counter, r))))"

fun register_hir_action_loop ::
    "hir_program \<Rightarrow> (symbol_id \<times> action_type_signature) list \<Rightarrow> nat \<Rightarrow> effect_registry \<Rightarrow>
     registration_error + effect_registry" where
  "register_hir_action_loop hir [] counter r = Inr r"
| "register_hir_action_loop hir ((s, ts) # sigs) counter r =
     (case register_hir_action hir s ts counter r of
        Inl e \<Rightarrow> Inl e
      | Inr (counter, r) \<Rightarrow> register_hir_action_loop hir sigs counter r)"

definition register_hir_actions ::
    "hir_program \<Rightarrow> (symbol_id \<times> action_type_signature) list \<Rightarrow> effect_registry \<Rightarrow> registration_error + effect_registry" where
  "register_hir_actions hir sigs r = register_hir_action_loop hir sigs (next_dynamic_action r) r"

definition from_hir_types_dependencies_and_std ::
    "hir_program \<Rightarrow> (symbol_id \<times> action_type_signature) list \<Rightarrow> (type_id \<times> utext list option) list \<Rightarrow>
     dependency_metadata \<Rightarrow> std_registry \<Rightarrow> registration_error + effect_registry" where
  "from_hir_types_dependencies_and_std hir sigs places dependencies std =
     (case register_dependency_metadata dependencies (with_standard_effects_from std) of
        Inl e \<Rightarrow> Inl e
      | Inr r \<Rightarrow>
          (case register_hir_effects hir dependencies r of
             Inl e \<Rightarrow> Inl e
           | Inr r \<Rightarrow>
               (case register_hir_actions hir sigs (register_hir_effect_extensions hir r) of
                  Inl e \<Rightarrow> Inl e
                | Inr r \<Rightarrow> Inr (register_memory_places places r))))"

end
