(* ===== verification/Etas_Registry_Facts.thy ===== *)
theory Etas_Registry_Facts
  imports Etas_Registry
begin

text \<open>
  The facts about the effect registry: the invariant of its tables, that every registration
  keeps it, what registering the metadata of dependencies does and that dependency tags are fresh.
\<close>

section \<open>The invariant of the tables\<close>

fun core_tag :: "core_effect \<Rightarrow> effect_tag_id" where
  "core_tag CeAgentic = AGENTIC_TAG" | "core_tag CeNetwork = NETWORK_TAG" | "core_tag CeFileIO = FILE_IO_TAG"
| "core_tag CeCommand = COMMAND_TAG" | "core_tag CeMemory = MEMORY_TAG" | "core_tag CeSecret = SECRET_TAG"
| "core_tag CeTime = TIME_TAG" | "core_tag CeHuman = HUMAN_TAG" | "core_tag CeError = ERROR_TAG"

definition has_tag :: "effect_registry \<Rightarrow> effect_tag_id \<Rightarrow> bool" where
  "has_tag r t \<longleftrightarrow> fmlookup (rg_tags r) t \<noteq> None"

definition tags_ok :: "effect_registry \<Rightarrow> bool" where
  "tags_ok r \<longleftrightarrow> (\<forall>t tag. fmlookup (rg_tags r) t = Some tag \<longrightarrow>
     et_id tag = t \<and> (\<forall>c. et_core tag = Some c \<longrightarrow> t = core_tag c))"

definition names_ok :: "effect_registry \<Rightarrow> bool" where
  "names_ok r \<longleftrightarrow> (\<forall>nm t. fmlookup (rg_names r) nm = Some t \<longrightarrow> has_tag r t) \<and>
     (\<forall>s t. fmlookup (rg_symbol_tags r) s = Some t \<longrightarrow> has_tag r t) \<and>
     (\<forall>nm a. fmlookup (rg_action_names r) nm = Some a \<longrightarrow> has_tag r (ar_tag a))"

definition sigs_ok :: "effect_registry \<Rightarrow> bool" where
  "sigs_ok r \<longleftrightarrow>
     (\<forall>i sg. fmlookup (rg_standard_actions r) i = Some sg \<longrightarrow> sg_id sg = i \<and> has_tag r (sg_owner sg)) \<and>
     (\<forall>i sg. fmlookup (rg_dependency_actions r) i = Some sg \<longrightarrow> sg_id sg = i \<and> has_tag r (sg_owner sg) \<and>
        length (sg_selector_param_names sg) = length (sg_effect_args sg) \<and>
        length (sg_selector_defaults sg) = length (sg_effect_args sg)) \<and>
     (\<forall>s sg. fmlookup (rg_actions r) s = Some sg \<longrightarrow> has_tag r (sg_owner sg))"

definition registry_wf :: "effect_registry \<Rightarrow> bool" where
  "registry_wf r \<longleftrightarrow> tags_ok r \<and> names_ok r \<and> sigs_ok r"

lemmas registry_wf_defs = registry_wf_def tags_ok_def names_ok_def sigs_ok_def

lemma registry_default_wf: "registry_wf registry_default"
  by (simp add: registry_wf_defs registry_default_def)

text \<open>Operations that only add tags, or change the requirement and the flag of one.\<close>

lemma has_tag_update:
  "has_tag (r\<lparr>rg_names := n\<rparr>) t = has_tag r t" "has_tag (r\<lparr>rg_symbol_tags := s\<rparr>) t = has_tag r t"
  "has_tag (r\<lparr>rg_actions := a\<rparr>) t = has_tag r t" "has_tag (r\<lparr>rg_dependency_actions := d\<rparr>) t = has_tag r t"
  "has_tag (r\<lparr>rg_dependency_tag_paths := p\<rparr>) t = has_tag r t"
  "has_tag (r\<lparr>rg_dependency_action_paths := q\<rparr>) t = has_tag r t"
  "has_tag (r\<lparr>rg_standard_actions := sa\<rparr>) t = has_tag r t" "has_tag (r\<lparr>rg_action_names := an\<rparr>) t = has_tag r t"
  "has_tag (r\<lparr>rg_actions_by_owner := ao\<rparr>) t = has_tag r t" "has_tag (r\<lparr>rg_extensions := e\<rparr>) t = has_tag r t"
  "has_tag (r\<lparr>rg_memory_places := m\<rparr>) t = has_tag r t" "has_tag (r\<lparr>rg_unresolved := u\<rparr>) t = has_tag r t"
  "has_tag (r\<lparr>rg_tags := fmupd k tag (rg_tags r)\<rparr>) t \<longleftrightarrow> t = k \<or> has_tag r t"
  by (auto simp: has_tag_def)

lemma registry_wf_frame:
  "registry_wf (r\<lparr>rg_dependency_tag_paths := p\<rparr>) = registry_wf r"
  "registry_wf (r\<lparr>rg_dependency_action_paths := q\<rparr>) = registry_wf r"
  "registry_wf (r\<lparr>rg_actions_by_owner := ao\<rparr>) = registry_wf r"
  "registry_wf (r\<lparr>rg_extensions := e\<rparr>) = registry_wf r"
  "registry_wf (r\<lparr>rg_memory_places := m\<rparr>) = registry_wf r"
  "registry_wf (r\<lparr>rg_unresolved := u\<rparr>) = registry_wf r"
  by (simp_all add: registry_wf_defs has_tag_update)

lemma registry_wf_tag:
  assumes "registry_wf r" "et_id tag = t" "\<And>c. et_core tag = Some c \<Longrightarrow> t = core_tag c"
  shows "registry_wf (r\<lparr>rg_tags := fmupd t tag (rg_tags r)\<rparr>)"
  using assms by (auto simp: registry_wf_defs has_tag_update)

lemma registry_wf_name:
  "registry_wf r \<Longrightarrow> has_tag r t \<Longrightarrow> registry_wf (r\<lparr>rg_names := fmupd nm t (rg_names r)\<rparr>)"
  by (auto simp: registry_wf_defs has_tag_update)

lemma registry_wf_symbol:
  "registry_wf r \<Longrightarrow> has_tag r t \<Longrightarrow> registry_wf (r\<lparr>rg_symbol_tags := fmupd s t (rg_symbol_tags r)\<rparr>)"
  by (auto simp: registry_wf_defs has_tag_update)

lemma registry_wf_action_name:
  "registry_wf r \<Longrightarrow> has_tag r (ar_tag a) \<Longrightarrow> registry_wf (name_action nm a r)"
  by (auto simp: registry_wf_defs has_tag_update name_action_def)

lemma registry_wf_standard:
  "registry_wf r \<Longrightarrow> sg_id sg = i \<Longrightarrow> has_tag r (sg_owner sg) \<Longrightarrow>
     registry_wf (r\<lparr>rg_standard_actions := fmupd i sg (rg_standard_actions r)\<rparr>)"
  by (auto simp: registry_wf_defs has_tag_update)

lemma registry_wf_dependency:
  "registry_wf r \<Longrightarrow> sg_id sg = i \<Longrightarrow> has_tag r (sg_owner sg) \<Longrightarrow>
     length (sg_selector_param_names sg) = length (sg_effect_args sg) \<Longrightarrow>
     length (sg_selector_defaults sg) = length (sg_effect_args sg) \<Longrightarrow>
     registry_wf (r\<lparr>rg_dependency_actions := fmupd i sg (rg_dependency_actions r)\<rparr>)"
  by (auto simp: registry_wf_defs has_tag_update)

lemma registry_wf_action:
  "registry_wf r \<Longrightarrow> has_tag r (sg_owner sg) \<Longrightarrow> registry_wf (r\<lparr>rg_actions := fmupd s sg (rg_actions r)\<rparr>)"
  by (auto simp: registry_wf_defs has_tag_update)

lemma tag_by_name_has: "registry_wf r \<Longrightarrow> tag_by_name r nm = Some t \<Longrightarrow> has_tag r t"
  by (auto simp: registry_wf_def names_ok_def tag_by_name_def)

lemma tag_by_symbol_has: "registry_wf r \<Longrightarrow> tag_by_symbol r s = Some t \<Longrightarrow> has_tag r t"
  by (auto simp: registry_wf_def names_ok_def tag_by_symbol_def)

lemma tag_by_path_has: "registry_wf r \<Longrightarrow> tag_by_path r path = Some t \<Longrightarrow> has_tag r t"
  by (auto simp: tag_by_path_def or_else_def tag_by_name_has split: option.splits if_splits)

lemma has_tag_name_action [simp]: "has_tag (name_action nm a r) = has_tag r"
  by (auto simp: name_action_def has_tag_update fun_eq_iff)

text \<open>An operation keeps the tables well-formed and every tag known.\<close>

definition keeps_registry :: "(effect_registry \<Rightarrow> effect_registry) \<Rightarrow> bool" where
  "keeps_registry f \<longleftrightarrow> (\<forall>r. registry_wf r \<longrightarrow> registry_wf (f r) \<and> (\<forall>t. has_tag r t \<longrightarrow> has_tag (f r) t))"

lemma keeps_registryD:
  "keeps_registry f \<Longrightarrow> registry_wf r \<Longrightarrow> registry_wf (f r)"
  "keeps_registry f \<Longrightarrow> registry_wf r \<Longrightarrow> has_tag r t \<Longrightarrow> has_tag (f r) t"
  by (auto simp: keeps_registry_def)

lemma keeps_registry_id: "keeps_registry (\<lambda>r. r)"
  by (simp add: keeps_registry_def)

lemma keeps_registry_comp: "keeps_registry f \<Longrightarrow> keeps_registry g \<Longrightarrow> keeps_registry (\<lambda>r. f (g r))"
  by (auto simp: keeps_registry_def)

lemma keeps_registry_fold:
  assumes "\<And>x. x \<in> set xs \<Longrightarrow> keeps_registry (f x)"
  shows "keeps_registry (fold f xs)"
  using assms
proof (induction xs)
  case (Cons x xs)
  then have "keeps_registry (fold f xs)" "keeps_registry (f x)" by auto
  then have "keeps_registry (\<lambda>r. fold f xs (f x r))" by (rule keeps_registry_comp)
  then show ?case by (simp add: comp_def)
qed (simp add: keeps_registry_def id_def)

lemma modify_tag_keeps:
  assumes "\<And>tag. et_id (f tag) = et_id tag" "\<And>tag. et_core (f tag) = et_core tag"
  shows "keeps_registry (modify_tag t f)"
proof -
  have "registry_wf (modify_tag t f r) \<and> (\<forall>u. has_tag r u \<longrightarrow> has_tag (modify_tag t f r) u)" if "registry_wf r" for r
  proof (cases "fmlookup (rg_tags r) t")
    case (Some tag)
    then have "et_id tag = t" "\<And>c. et_core tag = Some c \<Longrightarrow> t = core_tag c"
      using that by (auto simp: registry_wf_def tags_ok_def)
    with assms have "et_id (f tag) = t" "\<And>c. et_core (f tag) = Some c \<Longrightarrow> t = core_tag c" by simp_all
    from registry_wf_tag [OF that this] Some show ?thesis
      by (simp add: modify_tag_def has_tag_update)
  qed (use that in \<open>simp add: modify_tag_def\<close>)
  then show ?thesis by (simp add: keeps_registry_def)
qed

lemma add_extension_keeps: "keeps_registry (add_extension child parent)"
proof -
  have m: "keeps_registry (modify_tag child
     (\<lambda>tag. tag\<lparr>et_requirement := (case et_requirement tag of None \<Rightarrow> Some q | Some p \<Rightarrow> Some p)\<rparr>))" for q
    by (rule modify_tag_keeps) simp_all
  show ?thesis
    unfolding keeps_registry_def add_extension_def Let_def
    using keeps_registryD [OF m] by (auto simp: registry_wf_frame has_tag_update split: option.splits)
qed

lemma register_tag_keeps:
  assumes "\<And>c. core = Some c \<Longrightarrow> t = core_tag c"
  shows "keeps_registry (register_tag t nm core requirement)" "has_tag (register_tag t nm core requirement r) t"
proof -
  have *: "register_tag t nm core requirement r = (let tag = \<lparr>et_id = t, et_name = nm, et_core = core, et_requirement = requirement,
            et_ack = (case core of None \<Rightarrow> False | Some c \<Rightarrow> core_effect_requires_high_impact_ack c)\<rparr>;
      r = r\<lparr>rg_tags := fmupd t tag (rg_tags r)\<rparr>; r = r\<lparr>rg_names := fmupd nm t (rg_names r)\<rparr>
      in r\<lparr>rg_names := fmupd (lit ''std.effects.'' @ nm) t (rg_names r)\<rparr>)" for r
    by (simp add: register_tag_def Let_def)
  have "registry_wf (register_tag t nm core requirement r)" if "registry_wf r" for r
    unfolding * Let_def
    by (intro registry_wf_name registry_wf_tag) (use that assms in \<open>simp_all add: has_tag_update\<close>)
  then show "keeps_registry (register_tag t nm core requirement)"
    unfolding keeps_registry_def by (simp add: * Let_def has_tag_update)
  show "has_tag (register_tag t nm core requirement r) t" unfolding * Let_def by (simp add: has_tag_update)
qed

lemma register_core_keeps: "keeps_registry (register_core nm (core_tag c) c)"
proof -
  let ?f = "register_tag (core_tag c) nm (Some c) (runtime_requirement_for_core c)"
  have k: "keeps_registry ?f" by (rule register_tag_keeps) simp
  have h: "has_tag (?f r) (core_tag c)" for r by (rule register_tag_keeps) simp
  show ?thesis
    unfolding keeps_registry_def register_core_def Let_def
    using registry_wf_name [OF keeps_registryD(1) [OF k] h] keeps_registryD(2) [OF k]
    by (auto simp: has_tag_update)
qed

lemma register_standard_runtime_keeps: "keeps_registry (register_standard_runtime nm t q ack)"
proof -
  have "keeps_registry (\<lambda>r. modify_tag t (\<lambda>tag. tag\<lparr>et_ack := True\<rparr>) (register_tag t nm None (Some q) r))"
    by (rule keeps_registry_comp [OF modify_tag_keeps register_tag_keeps(1)]) simp_all
  moreover have "keeps_registry (register_tag t nm None (Some q))" by (rule register_tag_keeps) simp
  ultimately show ?thesis by (simp add: keeps_registry_def register_standard_runtime_def Let_def)
qed

lemma core_registry_wf: "registry_wf core_registry"
  using keeps_registryD(1) [OF register_core_keeps [of _ CeAgentic]] keeps_registryD(1) [OF register_core_keeps [of _ CeNetwork]]
    keeps_registryD(1) [OF register_core_keeps [of _ CeFileIO]] keeps_registryD(1) [OF register_core_keeps [of _ CeCommand]]
    keeps_registryD(1) [OF register_core_keeps [of _ CeMemory]] keeps_registryD(1) [OF register_core_keeps [of _ CeSecret]]
    keeps_registryD(1) [OF register_core_keeps [of _ CeTime]] keeps_registryD(1) [OF register_core_keeps [of _ CeHuman]]
    keeps_registryD(1) [OF register_core_keeps [of _ CeError]] registry_default_wf
  by (simp add: core_registry_def)

subsection \<open>The standard library\<close>

lemma register_owner_aliases_keeps:
  assumes "registry_wf r" "has_tag r (ar_tag a)"
  shows "registry_wf (register_owner_aliases owner nm a ss r)" "has_tag (register_owner_aliases owner nm a ss r) = has_tag r"
proof -
  have "registry_wf (register_owner_aliases owner nm a ss r) \<and> has_tag (register_owner_aliases owner nm a ss r) = has_tag r"
    using assms unfolding register_owner_aliases_def
    by (induction ss arbitrary: r) (auto simp: registry_wf_action_name)
  then show "registry_wf (register_owner_aliases owner nm a ss r)" "has_tag (register_owner_aliases owner nm a ss r) = has_tag r"
    by simp_all
qed

lemma register_standard_action_with_runtime_keeps: "keeps_registry (register_standard_action_with_runtime g std)"
proof -
  have "registry_wf (register_standard_action_with_runtime g std r) \<and>
      has_tag (register_standard_action_with_runtime g std r) = has_tag r" if wf: "registry_wf r" for r
  proof (cases "fmlookup (rg_tags r) (ra_owner g)")
    case (Some tag)
    then have h: "has_tag r (ra_owner g)" by (simp add: has_tag_def)
    show ?thesis
      unfolding register_standard_action_with_runtime_def Some option.case Let_def
      using wf h
      by (auto simp: fun_eq_iff has_tag_update register_owner_aliases_keeps registry_wf_action_name registry_wf_standard
          intro!: register_owner_aliases_keeps)
  qed (use wf in \<open>simp add: register_standard_action_with_runtime_def\<close>)
  then show ?thesis by (simp add: keeps_registry_def)
qed

lemma register_standard_action_keeps: "keeps_registry (register_standard_action g std)"
proof (cases "ra_requirement g")
  case None
  then show ?thesis
    using register_standard_action_with_runtime_keeps by (simp add: register_standard_action_def keeps_registry_def Let_def)
next
  case (Some q)
  have "keeps_registry (modify_tag (ra_owner g) (\<lambda>tag. tag\<lparr>et_requirement := or_else (et_requirement tag) (Some q)\<rparr>))"
    by (rule modify_tag_keeps) simp_all
  from keeps_registry_comp [OF this register_standard_action_with_runtime_keeps [of g std]] Some show ?thesis
    by (simp add: register_standard_action_def Let_def keeps_registry_def)
qed

lemma register_std_effect_keeps: "keeps_registry (register_std_effect s)"
proof -
  have f: "keeps_registry (fold (\<lambda>parent r. case tag_by_name r parent of None \<Rightarrow> r | Some p \<Rightarrow> add_extension t p r) ps)" for t ps
    by (rule keeps_registry_fold)
      (auto simp: keeps_registry_def keeps_registryD [OF add_extension_keeps] split: option.splits)
  have c: "keeps_registry (\<lambda>r. fold (\<lambda>parent r. case tag_by_name r parent of None \<Rightarrow> r | Some p \<Rightarrow> add_extension t p r) ps
      (register_standard_runtime nm t q ack r))" for t ps nm q ack
    by (rule keeps_registry_comp [OF f register_standard_runtime_keeps])
  show ?thesis
    unfolding keeps_registry_def register_std_effect_def
    using keeps_registryD [OF c] by (auto split: std_decl.splits option.splits)
qed

lemma register_std_action_keeps: "keeps_registry (register_std_action std s)"
proof -
  have "registry_wf (name_action nm (ActionRef owner i) (register_standard_action g std r)) \<and>
      (\<forall>t. has_tag r t \<longrightarrow> has_tag (name_action nm (ActionRef owner i) (register_standard_action g std r)) t)"
    if "registry_wf r" "tag_by_name r n = Some owner" for r nm owner i g n
    using keeps_registryD [OF register_standard_action_keeps [of g std] that(1)] tag_by_name_has [OF that]
    by (auto intro!: registry_wf_action_name)
  then show ?thesis
    unfolding keeps_registry_def register_std_action_def Let_def
    by (auto split: std_decl.splits option.splits)
qed

lemma register_std_raise_keeps: "keeps_registry (register_std_raise std)"
  unfolding keeps_registry_def register_std_raise_def
  using keeps_registryD [OF register_standard_action_with_runtime_keeps] by (auto split: option.splits std_decl.splits)

lemma register_standard_library_descriptors_keeps: "keeps_registry (register_standard_library_descriptors std)"
proof -
  have "keeps_registry (fold register_std_effect (sr_symbols std))" "keeps_registry (fold (register_std_action std) (sr_symbols std))"
    by (rule keeps_registry_fold, rule register_std_effect_keeps register_std_action_keeps)+
  from keeps_registry_comp [OF register_std_raise_keeps keeps_registry_comp [OF this(2) this(1)], of std]
  show ?thesis by (simp add: register_standard_library_descriptors_def [abs_def])
qed

lemma with_standard_effects_wf: "registry_wf (with_standard_effects_from std)"
  unfolding with_standard_effects_from_def
  by (rule keeps_registryD(1) [OF register_standard_library_descriptors_keeps core_registry_wf])

subsection \<open>Dependency metadata\<close>

lemma register_dependency_tags_wf:
  assumes "registry_wf r" "register_dependency_tags ds r = Inr r'"
  shows "registry_wf r' \<and> (\<forall>t. has_tag r t \<longrightarrow> has_tag r' t)"
  using assms
proof (induction ds r arbitrary: r' rule: register_dependency_tags.induct)
  case (2 d ds r)
  show ?case
  proof (cases "tag_by_name r (join_dots (dt_path d)) = None")
    case False
    with 2 show ?thesis by (auto simp: Let_def split: if_splits)
  next
    case True
    let ?t = "next_dynamic_tag r"
    let ?tag = "\<lparr>et_id = ?t, et_name = last (dt_path d), et_core = None, et_requirement = dt_requirement d, et_ack = False\<rparr>"
    let ?r = "r\<lparr>rg_tags := fmupd ?t ?tag (rg_tags r), rg_names := fmupd (join_dots (dt_path d)) ?t (rg_names r),
      rg_dependency_tag_paths := fmupd ?t (dt_path d) (rg_dependency_tag_paths r)\<rparr>"
    have e: "dt_path d \<noteq> []" "register_dependency_tags ds ?r = Inr r'"
      using "2.prems"(2) True by (auto simp: Let_def split: if_splits)
    have "registry_wf (r\<lparr>rg_tags := fmupd ?t ?tag (rg_tags r)\<rparr>)"
      by (rule registry_wf_tag) (use "2.prems"(1) in simp_all)
    from registry_wf_name [OF this, of ?t "join_dots (dt_path d)"] have "registry_wf ?r"
      by (simp add: has_tag_update registry_wf_frame)
    with "2.IH"(2) [OF e(1) refl _ refl refl this e(2)] True show ?thesis by (auto simp: has_tag_update)
  qed
qed auto

lemma register_dependency_action_wf:
  assumes wf: "registry_wf r" and e: "register_dependency_action d r = Inr r'"
  shows "registry_wf r' \<and> has_tag r' = has_tag r"
proof -
  have len: "\<not> length (da_path d) < 2" "length (da_effect_args d) = length (da_selector_param_names d)"
    "length (da_effect_args d) = length (da_selector_defaults d)"
    using e by (auto simp: register_dependency_action_def split: if_splits)
  then obtain owner where o: "tag_by_path r (butlast (da_path d)) = Some owner"
    using e by (auto simp: register_dependency_action_def Let_def split: option.splits)
  have h: "has_tag r owner" by (rule tag_by_path_has [OF wf o])
  show ?thesis
    using e wf h len o
    by (auto simp: register_dependency_action_def Let_def fun_eq_iff has_tag_update split: if_splits option.splits
        intro!: registry_wf_action_name registry_wf_dependency simp: registry_wf_frame)
qed

lemma register_dependency_actions_wf:
  assumes "registry_wf r" "register_dependency_actions ds r = Inr r'"
  shows "registry_wf r' \<and> has_tag r' = has_tag r"
  using assms
proof (induction ds arbitrary: r)
  case (Cons d ds)
  then obtain s where s: "register_dependency_action d r = Inr s" "register_dependency_actions ds s = Inr r'"
    by (auto split: sum.splits)
  with register_dependency_action_wf [OF Cons.prems(1) s(1)] Cons.IH [of s] show ?case by simp
qed auto

lemma register_dependency_extension_keeps: "keeps_registry (register_dependency_extension d)"
  unfolding keeps_registry_def register_dependency_extension_def
  using keeps_registryD [OF add_extension_keeps] by (auto simp: registry_wf_frame has_tag_update split: option.splits)

lemma register_dependency_metadata_wf:
  assumes "registry_wf r" "register_dependency_metadata d r = Inr r'"
  shows "registry_wf r' \<and> (\<forall>t. has_tag r t \<longrightarrow> has_tag r' t)"
proof -
  obtain s u where s: "register_dependency_tags (dm_tags d) r = Inr s" "register_dependency_actions (dm_actions d) s = Inr u"
    "r' = fold register_dependency_extension (dm_extensions d) u"
    using assms(2) by (auto simp: register_dependency_metadata_def split: sum.splits)
  have "keeps_registry (fold register_dependency_extension (dm_extensions d))"
    by (rule keeps_registry_fold) (rule register_dependency_extension_keeps)
  from register_dependency_tags_wf [OF assms(1) s(1)] register_dependency_actions_wf [OF _ s(2)]
    keeps_registryD [OF this] s(3) show ?thesis by auto
qed

subsection \<open>The declarations of a program\<close>

lemma register_effect_names_wf:
  assumes wf: "registry_wf r" and t: "has_tag r t \<or> symbol_name hir (hd_symbol d) \<noteq> None"
  shows "registry_wf (register_effect_names hir d t r)" "has_tag r u \<Longrightarrow> has_tag (register_effect_names hir d t r) u"
    "has_tag (register_effect_names hir d t r) t"
proof -
  have "registry_wf (register_effect_names hir d t r) \<and> (\<forall>u. has_tag r u \<longrightarrow> has_tag (register_effect_names hir d t r) u) \<and>
      has_tag (register_effect_names hir d t r) t"
  proof (cases "symbol_name hir (hd_symbol d)")
    case (Some nm)
    define s where "s = (if fmlookup (rg_tags r) t = None
      then r\<lparr>rg_tags := fmupd t \<lparr>et_id = t, et_name = nm, et_core = None, et_requirement = None, et_ack = False\<rparr> (rg_tags r)\<rparr>
      else r)"
    have s1: "registry_wf s" unfolding s_def using wf by (auto intro: registry_wf_tag)
    have s2: "has_tag s t" "\<And>u. has_tag r u \<Longrightarrow> has_tag s u"
      unfolding s_def by (auto simp: has_tag_update) (simp_all add: has_tag_def)
    have n: "registry_wf (s\<lparr>rg_names := fmupd nm t (rg_names s)\<rparr>)" by (rule registry_wf_name [OF s1 s2(1)])
    from s1 s2 registry_wf_name [OF n, of t] n show ?thesis
      unfolding register_effect_names_def Some option.case s_def [symmetric] Let_def
      by (auto simp: has_tag_update split: option.splits)
  qed (use wf t in \<open>simp add: register_effect_names_def\<close>)
  then show "registry_wf (register_effect_names hir d t r)" "has_tag r u \<Longrightarrow> has_tag (register_effect_names hir d t r) u"
    "has_tag (register_effect_names hir d t r) t" by simp_all
qed

text \<open>Binding a symbol to a tag and recording its names, in either order of the two.\<close>

lemma bind_symbol_names:
  "register_effect_names hir d t (bind_symbol s t r) = bind_symbol s t (register_effect_names hir d t r)"
  by (auto simp: register_effect_names_def bind_symbol_def Let_def split: option.splits)

lemma declare_effect_wf:
  assumes "registry_wf r" "has_tag r t \<or> symbol_name hir (hd_symbol d) \<noteq> None"
  shows "registry_wf (register_effect_names hir d t (bind_symbol s t r))"
    "has_tag r u \<Longrightarrow> has_tag (register_effect_names hir d t (bind_symbol s t r)) u"
proof -
  show "registry_wf (register_effect_names hir d t (bind_symbol s t r))"
    unfolding bind_symbol_names by (simp add: bind_symbol_def registry_wf_symbol register_effect_names_wf [OF assms])
  show "has_tag (register_effect_names hir d t (bind_symbol s t r)) u" if "has_tag r u"
    unfolding bind_symbol_names using register_effect_names_wf(2) [OF assms that] by (simp add: bind_symbol_def has_tag_update)
qed

lemma register_hir_effect_wf:
  assumes wf: "registry_wf r" and e: "register_hir_effect hir d bindings counter r = Inr (bs, c, r')"
  shows "registry_wf r' \<and> (\<forall>t. has_tag r t \<longrightarrow> has_tag r' t)"
proof -
  have old: "registry_wf (register_effect_names hir d t r)" "has_tag r u \<Longrightarrow> has_tag (register_effect_names hir d t r) u"
    if "tag_by_symbol r (hd_symbol d) = Some t" for t u
    using register_effect_names_wf(1,2) [OF wf, of t hir d] tag_by_symbol_has [OF wf that] by auto
  have new: "registry_wf (register_effect_names hir d t (bind_symbol s t r))"
      "has_tag r u \<Longrightarrow> has_tag (register_effect_names hir d t (bind_symbol s t r)) u"
    if "symbol_name hir (hd_symbol d) = Some nm" for t s nm u
    using declare_effect_wf [OF wf] that by auto
  show ?thesis
    using e wf unfolding register_hir_effect_def Let_def
    by (auto simp: old new split: option.splits if_splits)
qed

lemma register_hir_effect_loop_wf:
  assumes "registry_wf r" "register_hir_effect_loop hir ds bindings counter r = Inr (bs, r')"
  shows "registry_wf r' \<and> (\<forall>t. has_tag r t \<longrightarrow> has_tag r' t)"
  using assms
proof (induction ds arbitrary: bindings counter r)
  case (Cons d ds)
  from Cons.prems(2) obtain b c u where u: "register_hir_effect hir d bindings counter r = Inr (b, c, u)"
    "register_hir_effect_loop hir ds b c u = Inr (bs, r')" by (auto split: sum.splits)
  from register_hir_effect_wf [OF Cons.prems(1) u(1)] Cons.IH [OF _ u(2)] show ?case by blast
qed simp

lemma register_hir_effect_extension_keeps: "keeps_registry (register_hir_effect_extension hir d)"
  unfolding keeps_registry_def register_hir_effect_extension_def
  using keeps_registryD [OF add_extension_keeps] by (auto split: option.splits)

lemma register_hir_action_wf:
  assumes wf: "registry_wf r" and e: "register_hir_action hir s ts counter r = Inr (counter', r')"
  shows "registry_wf r' \<and> has_tag r' = has_tag r"
proof -
  have "registry_wf (name_action nm a (r\<lparr>rg_actions := fmupd s sg (rg_actions r)\<rparr>))"
    "registry_wf (name_action nm' a (name_action nm a (r\<lparr>rg_actions := fmupd s sg (rg_actions r)\<rparr>)))"
    if "has_tag r (ar_tag a)" "sg_owner sg = ar_tag a" for nm nm' a sg
    using that wf by (simp_all add: registry_wf_action_name registry_wf_action has_tag_update)
  note acts = this
  show ?thesis
  proof (cases "Option.bind (action_owner_symbol hir s) (tag_by_symbol r)")
    case None
    with e wf show ?thesis by (simp add: register_hir_action_def)
  next
    case owner: (Some owner)
    then have h: "has_tag r owner" by (auto simp: bind_eq_Some_conv intro: tag_by_symbol_has [OF wf])
    then obtain owner_name where on: "map_option et_name (fmlookup (rg_tags r) owner) = Some owner_name"
      by (auto simp: has_tag_def)
    show ?thesis
    proof (cases "symbol_name hir s")
      case None
      with e wf owner on show ?thesis by (simp add: register_hir_action_def)
    next
      case (Some nm)
      show ?thesis
        using e wf acts h unfolding register_hir_action_def owner on Some option.case Let_def
        by (cases "module_name_for_symbol hir s")
          (auto split: if_splits prod.splits simp: registry_wf_frame has_tag_update fun_eq_iff)
    qed
  qed
qed

lemma register_hir_action_loop_wf:
  assumes "registry_wf r" "register_hir_action_loop hir sigs counter r = Inr r'"
  shows "registry_wf r' \<and> has_tag r' = has_tag r"
  using assms
proof (induction sigs arbitrary: counter r)
  case (Cons x sigs)
  obtain s ts where x: "x = (s, ts)" by (cases x)
  with Cons.prems(2) obtain c u where u: "register_hir_action hir s ts counter r = Inr (c, u)"
    "register_hir_action_loop hir sigs c u = Inr r'" by (auto split: sum.splits)
  from register_hir_action_wf [OF Cons.prems(1) u(1)] Cons.IH [OF _ u(2)] show ?case by auto
qed simp

lemma register_memory_places_wf: "registry_wf r \<Longrightarrow> registry_wf (register_memory_places places r)"
proof -
  have "keeps_registry (fold (\<lambda>(t, place) r. case place of None \<Rightarrow> r
       | Some segments \<Rightarrow> r\<lparr>rg_memory_places := fmupd t \<lparr>mp_id = t, mp_segments = segments\<rparr> (rg_memory_places r)\<rparr>) places)"
    by (rule keeps_registry_fold)
      (auto simp: keeps_registry_def registry_wf_frame has_tag_update split: option.splits)
  then show "registry_wf r \<Longrightarrow> registry_wf (register_memory_places places r)"
    by (simp add: register_memory_places_def keeps_registry_def)
qed

lemma find_SomeD: "find P xs = Some x \<Longrightarrow> x \<in> set xs \<and> P x"
  by (auto simp: find_Some_iff)

lemma fmap_valuesD: "x \<in> set (fmap_values m) \<Longrightarrow> \<exists>k. fmlookup m k = Some x"
  by (auto simp: fmap_values_def List.map_filter_def)

lemma tag_by_core_id:
  assumes "registry_wf r" "tag_by_core r c = Some t"
  shows "t = core_tag c"
proof -
  obtain tag where tag: "find (\<lambda>t. et_core t = Some c) (fmap_values (rg_tags r)) = Some tag" "t = et_id tag"
    using assms(2) by (auto simp: tag_by_core_def)
  from find_SomeD [OF tag(1)] obtain k where "et_core tag = Some c" "fmlookup (rg_tags r) k = Some tag"
    using fmap_valuesD by metis
  with assms(1) tag(2) show ?thesis by (auto simp: registry_wf_def tags_ok_def)
qed

lemma action_signature_owner:
  assumes wf: "registry_wf r" and "action_signature r a = Some sg"
  shows "sg_owner sg = ar_tag a \<and> sg_id sg = ar_action a \<and> has_tag r (ar_tag a)"
proof -
  have "standard_action_signature r a = Some sg \<or> local_action_signature r a = Some sg \<or>
      dependency_action_signature r a = Some sg"
    using assms(2) by (auto simp: action_signature_def or_else_def split: option.splits)
  then show ?thesis
  proof (elim disjE)
    assume "local_action_signature r a = Some sg"
    from find_SomeD [OF this [unfolded local_action_signature_def]] obtain s where
      "sg_owner sg = ar_tag a" "sg_id sg = ar_action a" "fmlookup (rg_actions r) s = Some sg"
      using fmap_valuesD by metis
    with wf show ?thesis unfolding registry_wf_def sigs_ok_def by metis
  next
    assume "standard_action_signature r a = Some sg"
    then have "fmlookup (rg_standard_actions r) (ar_action a) = Some sg" "sg_owner sg = ar_tag a"
      by (auto simp: standard_action_signature_def bind_eq_Some_conv split: if_splits)
    with wf show ?thesis unfolding registry_wf_def sigs_ok_def by metis
  next
    assume "dependency_action_signature r a = Some sg"
    then have "fmlookup (rg_dependency_actions r) (ar_action a) = Some sg" "sg_owner sg = ar_tag a"
      by (auto simp: dependency_action_signature_def bind_eq_Some_conv split: if_splits)
    with wf show ?thesis unfolding registry_wf_def sigs_ok_def by metis
  qed
qed

section \<open>What dependency registration does\<close>

lemma register_dependency_tags_error:
  "isl (register_dependency_tags ds r) \<longleftrightarrow> (\<exists>d \<in> set ds. dt_path d = [])"
  by (induction ds r rule: register_dependency_tags.induct) (auto simp: Let_def)

lemma register_dependency_tags_names:
  assumes "register_dependency_tags ds r = Inr r'"
  shows "(\<forall>nm t. tag_by_name r nm = Some t \<longrightarrow> tag_by_name r' nm = Some t) \<and>
    (\<forall>d \<in> set ds. tag_by_name r' (join_dots (dt_path d)) \<noteq> None)"
  using assms
proof (induction ds r arbitrary: r' rule: register_dependency_tags.induct)
  case (2 d ds r)
  show ?case
  proof (cases "tag_by_name r (join_dots (dt_path d)) = None")
    case False
    with "2.prems" have e: "dt_path d \<noteq> []" "register_dependency_tags ds r = Inr r'" by (auto simp: Let_def split: if_splits)
    obtain t where t: "tag_by_name r (join_dots (dt_path d)) = Some t" using False by blast
    note IH = "2.IH"(1) [OF e(1) refl False e(2)]
    have "tag_by_name r' (join_dots (dt_path d)) = Some t" using IH t by blast
    with IH show ?thesis by simp
  next
    case True
    let ?t = "next_dynamic_tag r"
    let ?tag = "\<lparr>et_id = ?t, et_name = last (dt_path d), et_core = None, et_requirement = dt_requirement d, et_ack = False\<rparr>"
    let ?r = "r\<lparr>rg_tags := fmupd ?t ?tag (rg_tags r), rg_names := fmupd (join_dots (dt_path d)) ?t (rg_names r),
      rg_dependency_tag_paths := fmupd ?t (dt_path d) (rg_dependency_tag_paths r)\<rparr>"
    have e: "dt_path d \<noteq> []" "register_dependency_tags ds ?r = Inr r'"
      using "2.prems" True by (auto simp: Let_def split: if_splits)
    have n: "tag_by_name ?r nm = (if nm = join_dots (dt_path d) then Some ?t else tag_by_name r nm)" for nm
      by (simp add: tag_by_name_def)
    from "2.IH"(2) [OF e(1) refl _ refl refl e(2)] True
    have IH: "\<And>nm t. tag_by_name ?r nm = Some t \<Longrightarrow> tag_by_name r' nm = Some t"
      "\<forall>d \<in> set ds. tag_by_name r' (join_dots (dt_path d)) \<noteq> None" by auto
    have "tag_by_name r' nm = Some t" if "tag_by_name r nm = Some t" for nm t
      by (rule IH(1)) (use that True n in auto)
    moreover have "tag_by_name r' (join_dots (dt_path d)) = Some ?t" by (rule IH(1)) (simp add: n)
    ultimately show ?thesis using IH(2) by simp
  qed
qed simp

lemma register_dependency_action_frame:
  assumes "register_dependency_action d r = Inr r'"
  shows "rg_names r' = rg_names r \<and> rg_tags r' = rg_tags r"
  using assms by (auto simp: register_dependency_action_def name_action_def Let_def split: if_splits option.splits)

definition action_malformed :: "effect_registry \<Rightarrow> dependency_effect_action \<Rightarrow> bool" where
  "action_malformed r d \<longleftrightarrow> length (da_path d) < 2 \<or>
     length (da_effect_args d) \<noteq> length (da_selector_param_names d) \<or>
     length (da_effect_args d) \<noteq> length (da_selector_defaults d) \<or>
     tag_by_path r (butlast (da_path d)) = None"

lemma action_malformed_cong: "rg_names r' = rg_names r \<Longrightarrow> action_malformed r' d = action_malformed r d"
  by (simp add: action_malformed_def tag_by_path_def tag_by_name_def)

lemma register_dependency_action_error: "isl (register_dependency_action d r) \<longleftrightarrow> action_malformed r d"
  by (auto simp: register_dependency_action_def action_malformed_def Let_def split: option.splits)

lemma register_dependency_actions_error:
  "isl (register_dependency_actions ds r) \<longleftrightarrow> (\<exists>d \<in> set ds. action_malformed r d)"
proof (induction ds arbitrary: r)
  case (Cons d ds)
  show ?case
  proof (cases "register_dependency_action d r")
    case (Inl e)
    then have "action_malformed r d" using register_dependency_action_error [of d r] by simp
    with Inl show ?thesis by simp
  next
    case (Inr s)
    then have "\<not> action_malformed r d" using register_dependency_action_error [of d r] by simp
    moreover have "action_malformed s c = action_malformed r c" for c
      by (rule action_malformed_cong) (simp add: register_dependency_action_frame [OF Inr])
    ultimately show ?thesis using Inr Cons.IH [of s] by simp
  qed
qed simp

lemma register_dependency_action_names:
  assumes "register_dependency_action d r = Inr r'"
  shows "(\<forall>nm. action_by_name r nm \<noteq> None \<longrightarrow> action_by_name r' nm \<noteq> None) \<and>
    action_by_name r' (join_dots (da_path d)) \<noteq> None"
  using assms
  by (auto simp: register_dependency_action_def name_action_def action_by_name_def Let_def split: if_splits option.splits)

lemma register_dependency_actions_names:
  assumes "register_dependency_actions ds r = Inr r'"
  shows "(\<forall>nm. action_by_name r nm \<noteq> None \<longrightarrow> action_by_name r' nm \<noteq> None) \<and>
    (\<forall>d \<in> set ds. action_by_name r' (join_dots (da_path d)) \<noteq> None) \<and> rg_names r' = rg_names r"
  using assms
proof (induction ds arbitrary: r)
  case (Cons d ds)
  then obtain s where s: "register_dependency_action d r = Inr s" "register_dependency_actions ds s = Inr r'"
    by (auto split: sum.splits)
  from Cons.IH [OF s(2)] register_dependency_action_names [OF s(1)] register_dependency_action_frame [OF s(1)]
  show ?case by (metis insert_iff list.set(2))
qed simp

lemma modify_tag_fields:
  "rg_names (modify_tag t f r) = rg_names r" "rg_action_names (modify_tag t f r) = rg_action_names r"
  "rg_extensions (modify_tag t f r) = rg_extensions r" "rg_unresolved (modify_tag t f r) = rg_unresolved r"
  by (simp_all add: modify_tag_def split: option.splits)

lemma add_extension_fields:
  "rg_names (add_extension c p r) = rg_names r" "rg_action_names (add_extension c p r) = rg_action_names r"
  "rg_extensions (add_extension c p r) = add_edge c p (rg_extensions r)" "rg_unresolved (add_extension c p r) = rg_unresolved r"
  by (simp_all add: add_extension_def modify_tag_fields Let_def split: option.splits)

text \<open>An extension of the metadata that the registry now holds, or has set aside as unresolved.\<close>

definition extension_recorded :: "effect_registry \<Rightarrow> dependency_effect_extension \<Rightarrow> bool" where
  "extension_recorded r d \<longleftrightarrow>
     (case (tag_by_path r (de_child d), tag_by_path r (de_parent d)) of
        (Some c, Some p) \<Rightarrow> directly_extends (rg_extensions r) c p
      | _ \<Rightarrow> d \<in> set (rg_unresolved r))"

lemma register_dependency_extension_recorded:
  "extension_recorded (register_dependency_extension d r) d"
  "extension_recorded r e \<Longrightarrow> extension_recorded (register_dependency_extension d r) e"
  "rg_names (register_dependency_extension d r) = rg_names r"
  "rg_action_names (register_dependency_extension d r) = rg_action_names r"
proof -
  have de: "directly_extends (add_edge c p g) x y \<longleftrightarrow> (x, y) = (c, p) \<or> directly_extends g x y" for c p g x y
    using edges_add [of c p g] by (auto simp: edges_def)
  show "rg_names (register_dependency_extension d r) = rg_names r"
    "rg_action_names (register_dependency_extension d r) = rg_action_names r"
    by (simp_all add: register_dependency_extension_def add_extension_fields split: option.splits)
  then have p: "tag_by_path (register_dependency_extension d r) path = tag_by_path r path" for path
    by (simp add: tag_by_path_def tag_by_name_def)
  show "extension_recorded (register_dependency_extension d r) d"
    unfolding extension_recorded_def p
    by (auto simp: register_dependency_extension_def add_extension_fields de split: option.splits)
  show "extension_recorded (register_dependency_extension d r) e" if "extension_recorded r e"
    using that unfolding extension_recorded_def p
    by (auto simp: register_dependency_extension_def add_extension_fields de split: option.splits)
qed

lemma register_dependency_extensions_recorded:
  "(\<forall>d. extension_recorded r d \<or> d \<in> set ds \<longrightarrow> extension_recorded (fold register_dependency_extension ds r) d) \<and>
   rg_names (fold register_dependency_extension ds r) = rg_names r \<and>
   rg_action_names (fold register_dependency_extension ds r) = rg_action_names r"
  by (induction ds arbitrary: r) (auto simp: register_dependency_extension_recorded)

lemma next_dynamic_facts:
  assumes "\<And>t. t |\<in>| ids \<Longrightarrow> t \<le> n" "FIRST_DYNAMIC_TAG \<le> n + 1" "n + 1 \<le> u32_limit"
  shows "next_dynamic ids |\<notin>| ids" "FIRST_DYNAMIC_TAG \<le> next_dynamic ids" "next_dynamic ids \<le> n + 1"
proof -
  have fm: "fMax ids \<le> n" if "ids \<noteq> {||}" using assms(1) fMax_in [OF that] by blast
  have m: "t \<le> fMax ids" if "t |\<in>| ids" for t using that by (rule fMax_ge)
  show "FIRST_DYNAMIC_TAG \<le> next_dynamic ids" by (simp add: next_dynamic_def)
  show "next_dynamic ids \<le> n + 1"
  proof (cases "ids = {||}")
    case True
    with assms(2) show ?thesis by (simp add: next_dynamic_def FIRST_DYNAMIC_TAG_def)
  next
    case False
    with fm [OF False] assms(2) show ?thesis by (simp add: next_dynamic_def)
  qed
  show "next_dynamic ids |\<notin>| ids"
  proof
    assume i: "next_dynamic ids |\<in>| ids"
    then have "ids \<noteq> {||}" by auto
    then have "Suc (fMax ids) \<le> next_dynamic ids" using fm assms(3) by (simp add: next_dynamic_def)
    with m [OF i] show False by simp
  qed
qed

lemma register_dependency_tags_kept:
  assumes "register_dependency_tags ds r = Inr r'" "\<forall>t. has_tag r t \<longrightarrow> t \<le> n" "FIRST_DYNAMIC_TAG \<le> n + 1"
    "n + length ds \<le> u32_limit"
  shows "(\<forall>t tag. fmlookup (rg_tags r) t = Some tag \<longrightarrow> fmlookup (rg_tags r') t = Some tag) \<and>
    (\<forall>t. has_tag r' t \<longrightarrow> has_tag r t \<or> FIRST_DYNAMIC_TAG \<le> t)"
  using assms
proof (induction ds r arbitrary: r' n rule: register_dependency_tags.induct)
  case (2 d ds r)
  show ?case
  proof (cases "tag_by_name r (join_dots (dt_path d)) = None")
    case False
    with "2.prems" have e: "dt_path d \<noteq> []" "register_dependency_tags ds r = Inr r'" by (auto simp: Let_def split: if_splits)
    from "2.IH"(1) [OF e(1) refl False e(2), of n] "2.prems" show ?thesis by auto
  next
    case True
    let ?t = "next_dynamic_tag r"
    let ?tag = "\<lparr>et_id = ?t, et_name = last (dt_path d), et_core = None, et_requirement = dt_requirement d, et_ack = False\<rparr>"
    let ?r = "r\<lparr>rg_tags := fmupd ?t ?tag (rg_tags r), rg_names := fmupd (join_dots (dt_path d)) ?t (rg_names r),
      rg_dependency_tag_paths := fmupd ?t (dt_path d) (rg_dependency_tag_paths r)\<rparr>"
    have e: "dt_path d \<noteq> []" "register_dependency_tags ds ?r = Inr r'"
      using "2.prems" True by (auto simp: Let_def split: if_splits)
    have le: "t \<le> n" if "t |\<in>| fmdom (rg_tags r)" for t using that "2.prems"(2) by (auto simp: has_tag_def)
    have t: "\<not> has_tag r ?t" "FIRST_DYNAMIC_TAG \<le> ?t" "?t \<le> n + 1"
      using next_dynamic_facts [of "fmdom (rg_tags r)" n] le "2.prems"(3,4)
      by (auto simp: next_dynamic_tag_def has_tag_def)
    have bound: "\<forall>t. has_tag ?r t \<longrightarrow> t \<le> n + 1" using t(3) "2.prems"(2) by (auto simp: has_tag_update)
    have kept: "fmlookup (rg_tags ?r) u = Some tag" if "fmlookup (rg_tags r) u = Some tag" for u tag
      using that t(1) by (auto simp: has_tag_def)
    from "2.IH"(2) [OF e(1) refl _ refl refl e(2) bound] True "2.prems"(3,4) kept t(2) show ?thesis
      by (auto simp: has_tag_update)
  qed
qed auto

section \<open>Properties\<close>

text \<open>C5. Whenever the registry of a program is built without an error, its tables agree: every
  tag or action name and every declared effect symbol leads to a registered tag, a core effect is
  found only under its reserved tag, and the signature found for an action belongs to that action
  and to a registered owner.\<close>

theorem registry_consistent:
  assumes "from_hir_types_dependencies_and_std hir sigs places dependencies std = Inr r"
  shows "(\<forall>nm t. tag_by_name r nm = Some t \<longrightarrow> tag_name r t \<noteq> None) \<and>
    (\<forall>s t. tag_by_symbol r s = Some t \<longrightarrow> tag_name r t \<noteq> None) \<and>
    (\<forall>nm a. action_by_name r nm = Some a \<longrightarrow> tag_name r (ar_tag a) \<noteq> None) \<and>
    (\<forall>c t. tag_by_core r c = Some t \<longrightarrow> t = core_tag c) \<and>
    (\<forall>a sg. action_signature r a = Some sg \<longrightarrow>
       sg_owner sg = ar_tag a \<and> sg_id sg = ar_action a \<and> tag_name r (ar_tag a) \<noteq> None)"
proof -
  from assms obtain r1 r2 r3 bs bs' where s: "register_dependency_metadata dependencies (with_standard_effects_from std) = Inr r1"
    "register_hir_effect_loop hir (hp_effects hir) bs (next_dynamic_tag r1) r1 = Inr (bs', r2)"
    "register_hir_action_loop hir sigs (next_dynamic_action (register_hir_effect_extensions hir r2))
       (register_hir_effect_extensions hir r2) = Inr r3" "r = register_memory_places places r3"
    by (auto simp: from_hir_types_dependencies_and_std_def register_hir_effects_def register_hir_actions_def
        split: sum.splits if_splits)
  have "registry_wf r1" using register_dependency_metadata_wf [OF with_standard_effects_wf s(1)] by simp
  then have "registry_wf r2" using register_hir_effect_loop_wf [OF _ s(2)] by simp
  moreover have "keeps_registry (fold (register_hir_effect_extension hir) (hp_effects hir))"
    by (rule keeps_registry_fold) (rule register_hir_effect_extension_keeps)
  ultimately have "registry_wf (register_hir_effect_extensions hir r2)"
    by (simp add: register_hir_effect_extensions_def keeps_registryD(1))
  then have "registry_wf r3" using register_hir_action_loop_wf [OF _ s(3)] by simp
  then have wf: "registry_wf r" using s(4) register_memory_places_wf by simp
  have n: "tag_name r t \<noteq> None \<longleftrightarrow> has_tag r t" for t by (simp add: tag_name_def has_tag_def)
  show ?thesis
    unfolding n using wf action_signature_owner [OF wf] tag_by_core_id [OF wf] tag_by_name_has [OF wf] tag_by_symbol_has [OF wf]
    by (auto simp: registry_wf_def names_ok_def action_by_name_def)
qed

theorem registry_consistent_witness:
  "\<exists>r. from_hir_types_dependencies_and_std \<lparr>hp_effects = [], hp_symbols = Map.empty, hp_modules = []\<rparr> [] []
     \<lparr>dm_tags = [], dm_actions = [], dm_extensions = [], dm_source_bindings = []\<rparr>
     \<lparr>sr_symbols = [], sr_lookup = (\<lambda>_. None)\<rparr> = Inr r \<and>
   (\<forall>nm t. tag_by_name r nm = Some t \<longrightarrow> tag_name r t \<noteq> None)"
proof -
  let ?hir = "\<lparr>hp_effects = [], hp_symbols = Map.empty, hp_modules = []\<rparr>"
  let ?d = "\<lparr>dm_tags = [], dm_actions = [], dm_extensions = [], dm_source_bindings = []\<rparr>"
  let ?std = "\<lparr>sr_symbols = [], sr_lookup = (\<lambda>_. None)\<rparr>"
  have e: "from_hir_types_dependencies_and_std ?hir [] [] ?d ?std = Inr core_registry"
    by (simp add: from_hir_types_dependencies_and_std_def register_dependency_metadata_def with_standard_effects_from_def
        register_standard_library_descriptors_def register_std_raise_def register_hir_effects_def
        register_hir_effect_extensions_def register_hir_actions_def register_memory_places_def)
  from registry_consistent [OF e] e show ?thesis by blast
qed

text \<open>C23. Registering dependency metadata fails exactly when the metadata is malformed: a tag without
  a path, or an action whose path is too short, whose selector lists differ in length or whose owner
  is unknown once the tags are registered. Otherwise every declared tag and action is found under
  its qualified name, no name is lost, and every extension is an edge of the graph or is set
  aside as unresolved.\<close>

theorem dependency_registration:
  "case register_dependency_metadata d r of
     Inl e \<Rightarrow> (\<exists>t \<in> set (dm_tags d). dt_path t = []) \<or>
       (\<exists>s. register_dependency_tags (dm_tags d) r = Inr s \<and> (\<exists>a \<in> set (dm_actions d). action_malformed s a))
   | Inr r' \<Rightarrow>
       (\<forall>t \<in> set (dm_tags d). dt_path t \<noteq> [] \<and> tag_by_name r' (join_dots (dt_path t)) \<noteq> None) \<and>
       (\<forall>a \<in> set (dm_actions d). \<not> action_malformed r' a \<and> action_by_name r' (join_dots (da_path a)) \<noteq> None) \<and>
       (\<forall>nm t. tag_by_name r nm = Some t \<longrightarrow> tag_by_name r' nm = Some t) \<and>
       (\<forall>x \<in> set (dm_extensions d). extension_recorded r' x)"
proof (cases "register_dependency_tags (dm_tags d) r")
  case (Inl e)
  then show ?thesis
    using register_dependency_tags_error [of "dm_tags d" r] by (simp add: register_dependency_metadata_def)
next
  case tags: (Inr s)
  show ?thesis
  proof (cases "register_dependency_actions (dm_actions d) s")
    case (Inl e)
    then show ?thesis
      using register_dependency_actions_error [of "dm_actions d" s] tags by (simp add: register_dependency_metadata_def)
  next
    case acts: (Inr u)
    let ?r = "fold register_dependency_extension (dm_extensions d) u"
    have e: "register_dependency_metadata d r = Inr ?r" using tags acts by (simp add: register_dependency_metadata_def)
    have nm: "rg_names ?r = rg_names s" "rg_action_names ?r = rg_action_names u"
      using register_dependency_extensions_recorded [of u "dm_extensions d"] register_dependency_actions_names [OF acts] by simp_all
    have bad: "action_malformed ?r a = action_malformed s a" for a by (rule action_malformed_cong) (rule nm(1))
    have ok: "\<forall>a \<in> set (dm_actions d). \<not> action_malformed s a" "\<forall>t \<in> set (dm_tags d). dt_path t \<noteq> []"
      using register_dependency_actions_error [of "dm_actions d" s] acts
        register_dependency_tags_error [of "dm_tags d" r] tags by auto
    have tn: "tag_by_name ?r = tag_by_name s" "action_by_name ?r = action_by_name u"
      by (simp_all add: fun_eq_iff tag_by_name_def action_by_name_def nm)
    show ?thesis
      unfolding e sum.case bad tn
      using ok register_dependency_tags_names [OF tags] register_dependency_actions_names [OF acts]
        register_dependency_extensions_recorded [of u "dm_extensions d"]
      by blast
  qed
qed

theorem dependency_registration_witness:
  "\<exists>r'. register_dependency_metadata \<lparr>dm_tags = [\<lparr>dt_path = [lit ''Net''], dt_requirement = None\<rparr>], dm_actions = [],
     dm_extensions = [], dm_source_bindings = []\<rparr> core_registry = Inr r' \<and> tag_by_name r' (lit ''Net'') \<noteq> None"
proof -
  let ?d = "\<lparr>dm_tags = [\<lparr>dt_path = [lit ''Net''], dt_requirement = None\<rparr>], dm_actions = [],
     dm_extensions = [], dm_source_bindings = []\<rparr>"
  have "\<not> isl (register_dependency_tags (dm_tags ?d) core_registry)" by (simp add: register_dependency_tags_error del: register_dependency_tags.simps)
  then obtain s where "register_dependency_tags (dm_tags ?d) core_registry = Inr s" by (cases "register_dependency_tags (dm_tags ?d) core_registry") auto
  then have "register_dependency_metadata ?d core_registry = Inr s"
    by (simp add: register_dependency_metadata_def del: register_dependency_tags.simps)
  with dependency_registration [of ?d core_registry] show ?thesis by auto
qed

text \<open>Registering dependency tags never touches a tag that is already there, and gives every new
  tag an identifier of the dynamic range, as long as the identifiers in use leave room below the
  32-bit limit for the tags to be added.\<close>

theorem dependency_tags_fresh:
  assumes "register_dependency_tags ds r = Inr r'" "\<forall>t. tag_name r t \<noteq> None \<longrightarrow> t \<le> n"
    "FIRST_DYNAMIC_TAG \<le> n + 1" "n + length ds \<le> u32_limit"
  shows "(\<forall>t tag. fmlookup (rg_tags r) t = Some tag \<longrightarrow> fmlookup (rg_tags r') t = Some tag) \<and>
    (\<forall>t. tag_name r' t \<noteq> None \<longrightarrow> tag_name r t \<noteq> None \<or> FIRST_DYNAMIC_TAG \<le> t)"
  using register_dependency_tags_kept [OF assms(1) _ assms(3,4)] assms(2) by (simp add: tag_name_def has_tag_def)

theorem dependency_tags_fresh_witness:
  "\<exists>r'. register_dependency_tags [\<lparr>dt_path = [lit ''Net''], dt_requirement = None\<rparr>] registry_default = Inr r' \<and>
    (\<forall>t. tag_name r' t \<noteq> None \<longrightarrow> FIRST_DYNAMIC_TAG \<le> t)"
proof -
  let ?ds = "[\<lparr>dt_path = [lit ''Net''], dt_requirement = None\<rparr>]"
  have "\<not> isl (register_dependency_tags ?ds registry_default)" by (simp add: register_dependency_tags_error del: register_dependency_tags.simps)
  then obtain s where s: "register_dependency_tags ?ds registry_default = Inr s" by (cases "register_dependency_tags ?ds registry_default") auto
  have none: "tag_name registry_default t = None" for t by (simp add: tag_name_def registry_default_def)
  from dependency_tags_fresh [OF s, of 1023] s show ?thesis by (simp add: none FIRST_DYNAMIC_TAG_def del: register_dependency_tags.simps)
qed

end
