(* ===== verification/Etas_Coverage.thy ===== *)
theory Etas_Coverage
  imports Etas_Registry_Facts "HOL-Library.Sublist"
begin

text \<open>
  Coverage of effects (\<open>etas_effects/src/effect/coverage.rs\<close>): which effects an allowed effect
  covers, the coverage of rows, what a handler leaves over, and the conservative disjointness check.
  The type relation (\<open>TypeRelation::assignable\<close>, a component of its own) is the parameter
  \<open>cv_assignable\<close> of a coverage context.
\<close>

section \<open>Data\<close>

record effect_coverage =
  cv_registry :: effect_registry
  cv_assignable :: "type_id \<Rightarrow> type_id \<Rightarrow> bool"

section \<open>Arguments\<close>

definition same_type :: "effect_coverage \<Rightarrow> type_id \<Rightarrow> type_id \<Rightarrow> bool" where
  "same_type c lhs rhs = cv_assignable c lhs rhs"

definition tag_covers :: "effect_coverage \<Rightarrow> effect_tag_id \<Rightarrow> effect_tag_id \<Rightarrow> bool" where
  "tag_covers c allowed actual \<longleftrightarrow> allowed = actual \<or> tag_extends (cv_registry c) actual allowed"

text \<open>\<open>zip\<close> stops at the shorter list.\<close>

definition path_arg_contains :: "utext list \<Rightarrow> utext list \<Rightarrow> bool" where
  "path_arg_contains allowed actual \<longleftrightarrow> length allowed \<le> length actual \<and>
     list_all (\<lambda>(x, y). x = y) (zip actual allowed)"

definition path_arg_matches :: "utext list \<Rightarrow> utext list \<Rightarrow> bool" where
  "path_arg_matches allowed actual \<longleftrightarrow> allowed \<noteq> [] \<and>
     (allowed = actual \<or>
      length allowed \<le> length actual \<and> list_all (\<lambda>(x, y). x = y) (zip (rev actual) (rev allowed)))"

fun effect_arg_covers :: "effect_coverage \<Rightarrow> effect_arg_ref \<Rightarrow> effect_arg_ref \<Rightarrow> bool" where
  "effect_arg_covers c ArgWildcard _ = True"
| "effect_arg_covers c (ArgType allowed) (ArgType actual) = same_type c allowed actual"
| "effect_arg_covers c allowed actual = (allowed = actual)"

fun memory_place_arg_segments :: "effect_coverage \<Rightarrow> effect_arg_ref \<Rightarrow> utext list option" where
  "memory_place_arg_segments c (ArgPath segments) = Some segments"
| "memory_place_arg_segments c (ArgType t) = map_option mp_segments (memory_place (cv_registry c) t)"
| "memory_place_arg_segments c ArgWildcard = None"
| "memory_place_arg_segments c (ArgString _) = None"
| "memory_place_arg_segments c (ArgInt _) = None"

definition memory_place_arg_contains :: "effect_coverage \<Rightarrow> effect_arg_ref \<Rightarrow> effect_arg_ref \<Rightarrow> bool" where
  "memory_place_arg_contains c allowed actual =
     (case (memory_place_arg_segments c allowed, memory_place_arg_segments c actual) of
        (Some p, Some q) \<Rightarrow> path_arg_contains p q
      | _ \<Rightarrow>
        (case (allowed, actual) of
           (ArgWildcard, _) \<Rightarrow> True
         | (ArgType p, ArgType q) \<Rightarrow> memory_place_contains (cv_registry c) p q
         | _ \<Rightarrow> effect_arg_covers c allowed actual))"

definition static_resource_path_arg_covers :: "effect_coverage \<Rightarrow> effect_arg_ref \<Rightarrow> effect_arg_ref \<Rightarrow> bool" where
  "static_resource_path_arg_covers c allowed actual =
     (case (allowed, actual) of
        (ArgWildcard, _) \<Rightarrow> True
      | (ArgPath p, ArgPath q) \<Rightarrow> path_arg_matches p q
      | _ \<Rightarrow> effect_arg_covers c allowed actual)"

section \<open>Effects\<close>

definition arg_kind_covers ::
    "effect_coverage \<Rightarrow> effect_action_arg_kind option \<Rightarrow> effect_arg_ref \<Rightarrow> effect_arg_ref \<Rightarrow> bool" where
  "arg_kind_covers c kind allowed actual =
     (case kind of
        Some KMemoryPlace \<Rightarrow> memory_place_arg_contains c allowed actual
      | Some (KStaticResourcePath _) \<Rightarrow> static_resource_path_arg_covers c allowed actual
      | _ \<Rightarrow> effect_arg_covers c allowed actual)"

definition arg_kind :: "effect_coverage \<Rightarrow> action_ref \<Rightarrow> nat \<Rightarrow> effect_action_arg_kind option" where
  "arg_kind c a i = Option.bind (action_signature (cv_registry c) a)
     (\<lambda>sg. if i < length (sg_effect_args sg) then Some (sg_effect_args sg ! i) else None)"

definition applied_action_covers :: "effect_coverage \<Rightarrow> action_instance_ref \<Rightarrow> action_instance_ref \<Rightarrow> bool" where
  "applied_action_covers c allowed actual =
     (if ai_action allowed \<noteq> ai_action actual \<or> length (ai_args allowed) \<noteq> length (ai_args actual) then False
      else list_all (\<lambda>(i, x, y). arg_kind_covers c (arg_kind c (ai_action allowed) i) x y)
             (enumerate 0 (zip (ai_args allowed) (ai_args actual))))"

definition applied_covers ::
    "effect_coverage \<Rightarrow> effect_tag_id \<Rightarrow> type_id list \<Rightarrow> effect_tag_id \<Rightarrow> type_id list \<Rightarrow> bool" where
  "applied_covers c allowed_tag allowed_args actual_tag actual_args =
     (if \<not> tag_covers c allowed_tag actual_tag \<or> length allowed_args \<noteq> length actual_args then False
      else case (allowed_args, actual_args) of
        ([allowed], [actual]) \<Rightarrow>
          if is_memory_tag (cv_registry c) allowed_tag
          then allowed_tag = actual_tag \<and> memory_place_contains (cv_registry c) allowed actual
          else same_type c allowed actual
      | _ \<Rightarrow> list_all (\<lambda>(x, y). same_type c x y) (zip allowed_args actual_args))"

definition covers :: "effect_coverage \<Rightarrow> effect \<Rightarrow> effect \<Rightarrow> bool" where
  "covers c allowed actual =
     (case (allowed, actual) of
        (ETag t, ETag u) \<Rightarrow> tag_covers c t u
      | (EAction a, EAction b) \<Rightarrow> a = b
      | (EAction a, EAppliedAction b) \<Rightarrow> a = ai_action b
      | (ETag t, EAction b) \<Rightarrow> tag_covers c t (ar_tag b)
      | (ETag t, EAppliedAction b) \<Rightarrow> tag_covers c t (ar_tag (ai_action b))
      | (EError t, EError u) \<Rightarrow> same_type c t u
      | (EAppliedAction a, EAppliedAction b) \<Rightarrow> applied_action_covers c a b
      | (EApplied t xs, EApplied u ys) \<Rightarrow> applied_covers c t xs u ys
      | (ETag t, EApplied u ys) \<Rightarrow> ys = [] \<and> tag_covers c t u
      | (EApplied t xs, EError u) \<Rightarrow>
          if t = ERROR_TAG \<and> length xs = 1 then same_type c (xs ! 0) u else allowed = actual
      | (EError t, EApplied u ys) \<Rightarrow>
          if u = ERROR_TAG \<and> length ys = 1 then same_type c t (ys ! 0) else allowed = actual
      | _ \<Rightarrow> allowed = actual)"

section \<open>Rows\<close>





definition known_tag :: "effect_coverage \<Rightarrow> effect \<Rightarrow> effect_tag_id option" where
  "known_tag c e = do {
     t \<leftarrow> (case e of
            ETag t \<Rightarrow> Some t
          | EApplied t _ \<Rightarrow> Some t
          | EAction a \<Rightarrow> map_option (\<lambda>_. ar_tag a) (action_signature (cv_registry c) a)
          | EAppliedAction a \<Rightarrow> map_option (\<lambda>_. ar_tag (ai_action a)) (action_signature (cv_registry c) (ai_action a))
          | EError _ \<Rightarrow> tag_by_core (cv_registry c) CeError
          | EVar _ \<Rightarrow> None);
     map_option (\<lambda>_. t) (tag_name (cv_registry c) t)
   }"

definition effects_disjoint :: "effect_coverage \<Rightarrow> effect \<Rightarrow> effect_set \<Rightarrow> bool" where
  "effects_disjoint c l right =
     (case known_tag c l of
        None \<Rightarrow> False
      | Some t \<Rightarrow> (\<forall>r \<in> right. case known_tag c r of
          None \<Rightarrow> False
        | Some u \<Rightarrow> t \<noteq> u \<and> \<not> tag_extends (cv_registry c) t u \<and> \<not> tag_extends (cv_registry c) u t))"

definition rows_disjoint :: "effect_coverage \<Rightarrow> effect_row \<Rightarrow> effect_row \<Rightarrow> bool" where
  "rows_disjoint c left right =
     (if er_open left \<noteq> None \<or> er_open right \<noteq> None then False
      else \<forall>l \<in> er_effects left. effects_disjoint c l (er_effects right))"

section \<open>Arguments and paths\<close>

lemma zip_equal_prefix: "length p \<le> length q \<Longrightarrow> list_all (\<lambda>(x, y). x = y) (zip q p) \<longleftrightarrow> prefix p q"
proof (induction p arbitrary: q)
  case (Cons x p)
  then show ?case by (cases q) auto
qed simp

lemma path_arg_contains_prefix: "path_arg_contains p q \<longleftrightarrow> prefix p q"
  using zip_equal_prefix [of p q] by (auto simp: path_arg_contains_def prefix_length_le)

lemma path_arg_matches_suffix: "path_arg_matches p q \<longleftrightarrow> p \<noteq> [] \<and> suffix p q"
  using zip_equal_prefix [of "rev p" "rev q"] prefix_length_le [of "rev p" "rev q"]
  by (auto simp: path_arg_matches_def suffix_to_prefix)

lemma memory_place_contains_prefix:
  "memory_place_contains r p q \<longleftrightarrow>
     (\<exists>x y. memory_place r p = Some x \<and> memory_place r q = Some y \<and> prefix (mp_segments x) (mp_segments y))"
  by (auto simp: memory_place_contains_def prefix_def append_eq_conv_conj split: option.splits) (metis append_take_drop_id)+

lemma tag_covers_reach: "tag_covers c t u \<longleftrightarrow> (u, t) \<in> (edges (rg_extensions (cv_registry c)))\<^sup>*"
  by (auto simp: tag_covers_def tag_extends_def tag_graph_extends_iff)

lemma tag_covers_refl [simp]: "tag_covers c t t"
  by (simp add: tag_covers_reach)

lemma tag_covers_trans: "tag_covers c t u \<Longrightarrow> tag_covers c u v \<Longrightarrow> tag_covers c t v"
  unfolding tag_covers_reach by (rule rtrancl_trans)

lemma applied_action_covers_iff:
  "applied_action_covers c a b \<longleftrightarrow> ai_action a = ai_action b \<and> length (ai_args a) = length (ai_args b) \<and>
     (\<forall>i < length (ai_args a). arg_kind_covers c (arg_kind c (ai_action a) i) (ai_args a ! i) (ai_args b ! i))"
  by (auto simp: applied_action_covers_def list_all_length nth_enumerate_eq)

section \<open>Which effects cover themselves\<close>

text \<open>
  An argument covers itself unless it is a type that is no memory place in the position of a memory
  place, or an empty path in the position of a static resource.
\<close>

fun arg_regular :: "effect_coverage \<Rightarrow> effect_action_arg_kind option \<Rightarrow> effect_arg_ref \<Rightarrow> bool" where
  "arg_regular c (Some KMemoryPlace) (ArgType t) = (memory_place (cv_registry c) t \<noteq> None)"
| "arg_regular c (Some (KStaticResourcePath _)) (ArgPath p) = (p \<noteq> [])"
| "arg_regular c _ _ = True"

fun effect_regular :: "effect_coverage \<Rightarrow> effect \<Rightarrow> bool" where
  "effect_regular c (EAppliedAction a) =
     (\<forall>i < length (ai_args a). arg_regular c (arg_kind c (ai_action a) i) (ai_args a ! i))"
| "effect_regular c (EApplied t [x]) = (is_memory_tag (cv_registry c) t \<longrightarrow> memory_place (cv_registry c) x \<noteq> None)"
| "effect_regular c _ = True"

lemma arg_kind_covers_self:
  assumes "reflp (cv_assignable c)"
  shows "arg_kind_covers c k x x \<longleftrightarrow> arg_regular c k x"
proof -
  have e: "effect_arg_covers c x x" using assms by (cases x) (simp_all add: same_type_def reflp_def)
  have m: "memory_place_arg_contains c x x \<longleftrightarrow> arg_regular c (Some KMemoryPlace) x"
    by (cases x) (auto simp: memory_place_arg_contains_def path_arg_contains_prefix memory_place_contains_prefix split: option.splits)
  have s: "static_resource_path_arg_covers c x x \<longleftrightarrow> arg_regular c (Some (KStaticResourcePath n)) x" for n
    using e by (cases x) (auto simp: static_resource_path_arg_covers_def path_arg_matches_suffix)
  show ?thesis
  proof (cases k)
    case (Some kind)
    then show ?thesis using e m s by (cases kind) (simp_all add: arg_kind_covers_def)
  qed (use e in \<open>simp add: arg_kind_covers_def\<close>)
qed

lemma applied_covers_self:
  assumes "reflp (cv_assignable c)"
  shows "applied_covers c t xs t xs \<longleftrightarrow> effect_regular c (EApplied t xs)"
proof -
  have all: "list_all (\<lambda>(x, y). same_type c x y) (zip ys ys)" for ys
    using assms by (induction ys) (simp_all add: same_type_def reflp_def)
  have one: "same_type c t t" for t using assms by (simp add: same_type_def reflp_def)
  show ?thesis
    using all [of xs] one
    by (auto simp: applied_covers_def memory_place_contains_prefix split: list.splits)
qed

lemma covers_self:
  assumes "reflp (cv_assignable c)"
  shows "covers c e e \<longleftrightarrow> effect_regular c e"
  using applied_covers_self [OF assms] arg_kind_covers_self [OF assms] assms
  by (cases e) (simp_all add: covers_def applied_action_covers_iff same_type_def reflp_def)

section \<open>Transitivity\<close>

lemma effect_arg_covers_iff:
  "effect_arg_covers c x y \<longleftrightarrow> x = ArgWildcard \<or>
     (case (x, y) of (ArgType t, ArgType u) \<Rightarrow> same_type c t u | _ \<Rightarrow> x = y)"
  by (cases x; cases y) simp_all

lemma memory_place_arg_contains_iff:
  "memory_place_arg_contains c x y \<longleftrightarrow> x = ArgWildcard \<or>
     (\<exists>p q. memory_place_arg_segments c x = Some p \<and> memory_place_arg_segments c y = Some q \<and> prefix p q) \<or>
     x = y \<and> (\<exists>s. x \<in> {ArgString s, ArgInt s})"
  by (cases x; cases y)
    (auto simp: memory_place_arg_contains_def path_arg_contains_prefix memory_place_contains_prefix split: option.splits)

lemma static_resource_path_arg_covers_iff:
  "static_resource_path_arg_covers c x y \<longleftrightarrow> x = ArgWildcard \<or>
     (case (x, y) of (ArgPath p, ArgPath q) \<Rightarrow> p \<noteq> [] \<and> suffix p q
      | (ArgType t, ArgType u) \<Rightarrow> same_type c t u
      | _ \<Rightarrow> x = y)"
  by (cases x; cases y) (simp_all add: static_resource_path_arg_covers_def path_arg_matches_suffix)

lemma arg_kind_covers_trans:
  assumes t: "transp (cv_assignable c)"
    and "arg_kind_covers c k x y" "arg_kind_covers c k y z"
  shows "arg_kind_covers c k x z"
proof -
  have e: "effect_arg_covers c x z" if "effect_arg_covers c x y" "effect_arg_covers c y z"
    using that by (cases x; cases y; cases z; simp add: same_type_def) (use t in \<open>blast dest: transpD\<close>)
  have m: "memory_place_arg_contains c x z" if "memory_place_arg_contains c x y" "memory_place_arg_contains c y z"
    using that unfolding memory_place_arg_contains_iff by (auto intro: prefix_order.trans)
  have s: "static_resource_path_arg_covers c x z"
    if "static_resource_path_arg_covers c x y" "static_resource_path_arg_covers c y z"
    using that unfolding static_resource_path_arg_covers_iff
    by (cases x; cases y; cases z; simp add: same_type_def)
      (use t in \<open>blast dest: transpD\<close>, use suffix_order.trans in blast)
  show ?thesis
    using assms(2,3) e m s by (auto simp: arg_kind_covers_def split: option.splits effect_action_arg_kind.splits)
qed

fun action_level :: "effect \<Rightarrow> bool" where
  "action_level (EApplied _ _) = False"
| "action_level (EError _) = False"
| "action_level _ = True"

lemma covers_trans:
  assumes t: "transp (cv_assignable c)"
    and "covers c x y" "covers c y z" "action_level x" "action_level y" "action_level z"
  shows "covers c x z"
proof -
  have a: "applied_action_covers c p r" if "applied_action_covers c p q" "applied_action_covers c q r" for p q r
  proof -
    have "arg_kind_covers c (arg_kind c (ai_action p) i) (ai_args p ! i) (ai_args r ! i)" if "i < length (ai_args p)" for i
      using \<open>applied_action_covers c p q\<close> \<open>applied_action_covers c q r\<close> that
      unfolding applied_action_covers_iff
      by - (rule arg_kind_covers_trans [OF t, where x = "ai_args p ! i" and y = "ai_args q ! i"], auto)
    then show ?thesis using that unfolding applied_action_covers_iff by simp
  qed
  have b: "ai_action p = ai_action q" if "applied_action_covers c p q" for p q
    using that unfolding applied_action_covers_iff by simp
  show ?thesis
    using assms(2-)
    by (cases x; cases y; cases z; simp add: covers_def) (use a b tag_covers_trans in metis)+
qed

section \<open>Disjointness\<close>

lemma covers_same_branch:
  assumes "covers c x y" "known_tag c x = Some t" "known_tag c y = Some u"
    "tag_by_core (cv_registry c) CeError \<in> {None, Some ERROR_TAG}"
  shows "tag_covers c t u"
  using assms
  by (cases x; cases y)
    (auto simp: covers_def known_tag_def applied_action_covers_iff applied_covers_def bind_eq_Some_conv split: if_splits)

lemma effects_disjoint_tags:
  "effects_disjoint c l R \<longleftrightarrow> known_tag c l \<noteq> None \<and>
     (\<forall>r \<in> R. \<exists>t u. known_tag c l = Some t \<and> known_tag c r = Some u \<and> \<not> tag_covers c t u \<and> \<not> tag_covers c u t)"
  by (fastforce simp: effects_disjoint_def tag_covers_def split: option.splits)

section \<open>Properties\<close>



text \<open>Rows that the conservative check calls disjoint do not interfere: no effect of one covers an
  effect of the other, in either direction, and the check does not depend on the order of the rows.
  The registry must find the error effect, when it finds one, under its reserved tag.\<close>

theorem disjoint_rows_do_not_cover:
  assumes "tag_by_core (cv_registry c) CeError \<in> {None, Some ERROR_TAG}"
    "rows_disjoint c left right" "x \<in> er_effects left" "y \<in> er_effects right"
  shows "\<not> covers c x y \<and> \<not> covers c y x \<and> rows_disjoint c right left"
proof -
  have d: "\<exists>t u. known_tag c l = Some t \<and> known_tag c r = Some u \<and> \<not> tag_covers c t u \<and> \<not> tag_covers c u t"
    if "l \<in> er_effects left" "r \<in> er_effects right" for l r
    using assms(2) that by (auto simp: rows_disjoint_def effects_disjoint_tags split: if_splits)
  have "\<not> covers c x y \<and> \<not> covers c y x"
    using d [OF assms(3,4)] covers_same_branch assms(1) by blast
  moreover have "rows_disjoint c right left"
  proof -
    have "er_open left = None" "er_open right = None" using assms(2) by (auto simp: rows_disjoint_def split: if_splits)
    moreover have "effects_disjoint c r (er_effects left)" if "r \<in> er_effects right" for r
      unfolding effects_disjoint_tags using d that assms(3) by (metis option.distinct(1))
    ultimately show ?thesis by (simp add: rows_disjoint_def)
  qed
  ultimately show ?thesis by blast
qed

theorem disjoint_rows_do_not_cover_witness:
  "\<exists>r. tag_name r 1 \<noteq> None \<and> \<not> covers \<lparr>cv_registry = r, cv_assignable = (=)\<rparr> (ETag 1) (ETag 2)"
proof -
  define tag where "tag = (\<lambda>t. \<lparr>et_id = t, et_name = [], et_core = None, et_requirement = None, et_ack = False\<rparr>)"
  define r where "r = registry_default\<lparr>rg_tags := fmupd 1 (tag 1) (fmupd 2 (tag 2) fmempty)\<rparr>"
  let ?c = "\<lparr>cv_registry = r, cv_assignable = (=)\<rparr>"
  have n: "tag_name r 1 = Some []" "tag_name r 2 = Some []"
    by (simp_all add: r_def registry_default_def tag_name_def tag_def)
  have core: "tag_by_core r CeError = None"
    by (auto simp: tag_by_core_def find_None_iff r_def registry_default_def tag_def dest!: fmap_valuesD split: if_splits)
  have e: "\<not> tag_extends r t u" if "t \<noteq> u" for t u
    using that by (simp add: tag_extends_def tag_graph_extends_def r_def registry_default_def)
  have "rows_disjoint ?c (row_closed {ETag 1}) (row_closed {ETag 2})"
    using n e by (simp add: rows_disjoint_def effects_disjoint_def known_tag_def row_closed_def)
  from disjoint_rows_do_not_cover [of ?c, OF _ this] core n show ?thesis by (auto simp: row_closed_def)
qed

text \<open>When the type relation is reflexive and transitive, coverage is reflexive on every
  effect but the irregular ones (a type that is no memory place where a memory place is expected, an
  empty path where a static resource is expected), and transitive on tags, actions and applied
  actions: allowing an action allows what is more specific than any action it allows.\<close>

theorem coverage_preorder:
  assumes "reflp (cv_assignable c)"
    "transp (cv_assignable c)"
  shows "(covers c e e \<longleftrightarrow> effect_regular c e) \<and>
    (\<forall>x y z. action_level x \<and> action_level y \<and> action_level z \<and> covers c x y \<and> covers c y z \<longrightarrow> covers c x z)"
  using covers_self [OF assms(1)] covers_trans [OF assms(2)] by blast

theorem coverage_preorder_witness:
  "covers \<lparr>cv_registry = registry_default, cv_assignable = (=)\<rparr> (EError 3) (EError 3)"
  using coverage_preorder [of "\<lparr>cv_registry = registry_default, cv_assignable = (=)\<rparr>" "EError 3"] by (simp add: reflp_def transp_def)

end
