(* ===== verification/Etas_Trace.thy ===== *)
theory Etas_Trace
  imports Etas_Coverage "HOL-Library.Product_Lexorder"
begin

text \<open>
  Action traces (\<open>etas_effects/src/infer/domain.rs\<close>, \<open>ActionTraceDomain\<close>) and the trace summaries
  built from them (\<open>trace_spec/domain.rs\<close>): the abstract order in which a body requests actions,
  its sequencing, branching and repetition, and the widening that bounds its size. The target of a
  parameter call is only compared, so its type is a parameter; of a span the code reads the source,
  the start and the end. Choices are sorted by their \<open>Debug\<close> text, a parameter \<open>dbg\<close>. A vector used
  as a stack is a list with its last element first.
\<close>

section \<open>Traces\<close>

type_synonym trace_span = "nat \<times> nat \<times> nat"

datatype action_event_source = SrcPerform | SrcStdIntrinsic | SrcAgentCall | SrcExternalMetadata | SrcTransfer | SrcUnknown

record action_event =
  ev_action :: effect
  ev_span :: trace_span
  ev_source :: action_event_source

record 't parameter_call_ref =
  pc_target :: 't
  pc_parameter :: utext
  pc_span :: trace_span

datatype 't trace =
    TEmpty
  | TEvent action_event
  | TParameterCall 't utext trace_span
  | TParallel "'t trace list"
  | TTaskStart expr_id "'t trace"
  | TTaskAwait expr_id
  | TSeq "'t trace list"
  | TChoice "'t trace list"
  | TRepeat "'t trace"
  | TUnknownOrder effect_set
  | TWidened effect_set "'t parameter_call_ref list"

definition FIXPOINT_TRACE_NODE_LIMIT :: nat where "FIXPOINT_TRACE_NODE_LIMIT = 32"

section \<open>Traversal\<close>

text \<open>The traces below a trace, in the order in which they stand.\<close>

fun trace_parts :: "'t trace \<Rightarrow> 't trace list" where
  "trace_parts (TSeq parts) = parts"
| "trace_parts (TChoice parts) = parts"
| "trace_parts (TParallel parts) = parts"
| "trace_parts (TRepeat inner) = [inner]"
| "trace_parts (TTaskStart _ body) = [body]"
| "trace_parts _ = []"

lemma trace_parts_size:
  "sum_list (map size (trace_parts t)) < size t" for t :: "'t trace"
proof (cases t)
  case (TParallel x4) then show ?thesis by (simp add: size_list_conv_sum_list)
next
  case (TSeq x7) then show ?thesis by (simp add: size_list_conv_sum_list)
next
  case (TChoice x8) then show ?thesis by (simp add: size_list_conv_sum_list)
qed simp_all

text \<open>The loops over a stack of pending traces: a search that stops at the first hit, and a collection.\<close>

function walk_any :: "('t trace \<Rightarrow> bool) \<Rightarrow> 't trace list \<Rightarrow> bool" where
  "walk_any p [] = False"
| "walk_any p (t # pending) = (if p t then True else walk_any p (rev (trace_parts t) @ pending))"
  by pat_completeness auto
termination
  by (relation "measure (\<lambda>(p, pending). sum_list (map size pending))")
    (simp_all add: rev_map [symmetric] trace_parts_size)

function walk_collect :: "bool \<Rightarrow> ('t trace \<Rightarrow> 'a \<Rightarrow> 'a) \<Rightarrow> 't trace list \<Rightarrow> 'a \<Rightarrow> 'a" where
  "walk_collect in_order f [] acc = acc"
| "walk_collect in_order f (t # pending) acc =
     walk_collect in_order f ((if in_order then trace_parts t else rev (trace_parts t)) @ pending) (f t acc)"
  by pat_completeness auto
termination
  by (relation "measure (\<lambda>(_, _, pending, _). sum_list (map size pending))")
    (auto simp: rev_map [symmetric] trace_parts_size)

fun is_unordered :: "'t trace \<Rightarrow> bool" where
  "is_unordered (TUnknownOrder _) = True"
| "is_unordered (TWidened _ _) = True"
| "is_unordered _ = False"

definition has_unordered_approximation :: "'t trace \<Rightarrow> bool" where
  "has_unordered_approximation t = walk_any is_unordered [t]"

fun is_parameter_call :: "'t trace \<Rightarrow> bool" where
  "is_parameter_call (TParameterCall _ _ _) = True"
| "is_parameter_call (TWidened _ calls) = (calls \<noteq> [])"
| "is_parameter_call _ = False"

definition has_parameter_calls :: "'t trace \<Rightarrow> bool" where
  "has_parameter_calls t = walk_any is_parameter_call [t]"

fun is_repeat :: "'t trace \<Rightarrow> bool" where
  "is_repeat (TRepeat _) = True"
| "is_repeat _ = False"

definition contains_repeat :: "'t trace \<Rightarrow> bool" where
  "contains_repeat t = walk_any is_repeat [t]"

function node_count_loop :: "nat \<Rightarrow> 't trace list \<Rightarrow> nat" where
  "node_count_loop count [] = count"
| "node_count_loop count (t # pending) =
     (if Suc count > FIXPOINT_TRACE_NODE_LIMIT then Suc count
      else node_count_loop (Suc count) (rev (trace_parts t) @ pending))"
  by pat_completeness auto
termination
  by (relation "measure (\<lambda>(_, pending). sum_list (map size pending))")
    (simp_all add: rev_map [symmetric] trace_parts_size)

definition node_count :: "'t trace \<Rightarrow> nat" where
  "node_count t = node_count_loop 0 [t]"

section \<open>Actions and parameter calls\<close>

fun add_actions :: "'t trace \<Rightarrow> effect_set \<Rightarrow> effect_set" where
  "add_actions (TUnknownOrder s) acc = fst (effects_union_assign acc s)"
| "add_actions (TWidened s _) acc = fst (effects_union_assign acc s)"
| "add_actions (TEvent e) acc = insert (ev_action e) acc"
| "add_actions _ acc = acc"

definition collect_actions :: "'t trace \<Rightarrow> effect_set \<Rightarrow> effect_set" where
  "collect_actions t acc = walk_collect False add_actions [t] acc"

definition action_set :: "'t trace \<Rightarrow> effect_set" where
  "action_set t = collect_actions t {}"

type_synonym 't call_map = "('t \<times> trace_span, 't parameter_call_ref) fmap"

definition insert_call :: "'t parameter_call_ref \<Rightarrow> 't call_map \<Rightarrow> 't call_map" where
  "insert_call c calls = fmupd (pc_target c, pc_span c) c calls"

fun add_calls :: "'t trace \<Rightarrow> 't call_map \<Rightarrow> 't call_map" where
  "add_calls (TParameterCall target parameter sp) calls =
     insert_call \<lparr>pc_target = target, pc_parameter = parameter, pc_span = sp\<rparr> calls"
| "add_calls (TWidened _ cs) calls = fold insert_call cs calls"
| "add_calls _ calls = calls"

definition collect_parameter_calls :: "'t trace \<Rightarrow> 't call_map \<Rightarrow> 't call_map" where
  "collect_parameter_calls t calls = walk_collect False add_calls [t] calls"

definition parameter_calls :: "('t::linorder) trace \<Rightarrow> 't parameter_call_ref list" where
  "parameter_calls t = fmap_values (collect_parameter_calls t fmempty)"

definition add_widened :: "'t trace \<Rightarrow> effect_set \<times> 't call_map \<Rightarrow> effect_set \<times> 't call_map" where
  "add_widened t = (\<lambda>(actions, calls). (add_actions t actions, add_calls t calls))"

definition collect_widened :: "'t trace \<Rightarrow> effect_set \<times> 't call_map \<Rightarrow> effect_set \<times> 't call_map" where
  "collect_widened t acc = walk_collect True add_widened [t] acc"

section \<open>Widening\<close>

definition widened_of :: "effect_set \<times> ('t::linorder) call_map \<Rightarrow> 't trace" where
  "widened_of = (\<lambda>(actions, calls).
     if actions = {} \<and> calls = fmempty then TEmpty else TWidened actions (fmap_values calls))"

definition into_widened :: "('t::linorder) trace \<Rightarrow> 't trace" where
  "into_widened t = widened_of (collect_widened t ({}, fmempty))"

definition merge_widened :: "('t::linorder) trace \<Rightarrow> 't trace \<Rightarrow> 't trace" where
  "merge_widened left right = widened_of (collect_widened right (collect_widened left ({}, fmempty)))"

definition widen_if_needed :: "('t::linorder) trace \<Rightarrow> 't trace" where
  "widen_if_needed t =
     (if node_count t \<le> FIXPOINT_TRACE_NODE_LIMIT \<and> \<not> contains_repeat t then t else into_widened t)"

definition stabilize_for_fixpoint :: "('t::linorder) trace \<Rightarrow> 't trace option \<Rightarrow> 't trace" where
  "stabilize_for_fixpoint t current =
     (if node_count t > FIXPOINT_TRACE_NODE_LIMIT \<or> contains_repeat t \<or>
         (case current of None \<Rightarrow> False | Some c \<Rightarrow> contains_repeat c)
      then into_widened t else t)"

section \<open>Sequence, choice, repetition\<close>

fun is_widened :: "'t trace \<Rightarrow> bool" where
  "is_widened (TWidened _ _) = True"
| "is_widened _ = False"

definition absorb_unordered :: "effect_set \<Rightarrow> ('t::linorder) trace \<Rightarrow> 't trace" where
  "absorb_unordered left right =
     (if is_widened right \<or> parameter_calls right \<noteq> [] then merge_widened (TUnknownOrder left) right
      else TUnknownOrder (fst (effects_union_assign left (action_set right))))"

definition seq_parts :: "('t::linorder) trace \<Rightarrow> 't trace \<Rightarrow> 't trace" where
  "seq_parts left right =
     (case (left, right) of
        (TEmpty, right) \<Rightarrow> right
      | (left, TEmpty) \<Rightarrow> left
      | (TUnknownOrder l, TUnknownOrder r) \<Rightarrow> TUnknownOrder (fst (effects_union_assign l r))
      | (TWidened a c, right) \<Rightarrow> merge_widened (TWidened a c) right
      | (right, TWidened a c) \<Rightarrow> merge_widened (TWidened a c) right
      | (TUnknownOrder l, right) \<Rightarrow> absorb_unordered l right
      | (right, TUnknownOrder l) \<Rightarrow> absorb_unordered l right
      | (TSeq l, TSeq r) \<Rightarrow> TSeq (l @ r)
      | (TSeq l, right) \<Rightarrow> TSeq (l @ [right])
      | (left, TSeq r) \<Rightarrow> TSeq (left # r)
      | (left, right) \<Rightarrow> TSeq [left, right])"

definition seq :: "('t::linorder) trace \<Rightarrow> 't trace \<Rightarrow> 't trace" where
  "seq left right = widen_if_needed (seq_parts left right)"

definition choice_of :: "('t trace \<Rightarrow> utext) \<Rightarrow> 't trace list \<Rightarrow> 't trace" where
  "choice_of dbg items = TChoice (remdups_adj (sort_key dbg items))"

definition choice_parts :: "(('t::linorder) trace \<Rightarrow> utext) \<Rightarrow> 't trace \<Rightarrow> 't trace \<Rightarrow> 't trace" where
  "choice_parts dbg left right =
     (if left = right then left
      else case (left, right) of
        (TUnknownOrder l, TUnknownOrder r) \<Rightarrow> TUnknownOrder (fst (effects_union_assign l r))
      | (TWidened a c, right) \<Rightarrow> merge_widened (TWidened a c) right
      | (right, TWidened a c) \<Rightarrow> merge_widened (TWidened a c) right
      | (TUnknownOrder l, right) \<Rightarrow> absorb_unordered l right
      | (right, TUnknownOrder l) \<Rightarrow> absorb_unordered l right
      | (TChoice l, TChoice r) \<Rightarrow> choice_of dbg (l @ r)
      | (TChoice l, right) \<Rightarrow> choice_of dbg (l @ [right])
      | (left, TChoice r) \<Rightarrow> choice_of dbg (left # r)
      | (left, right) \<Rightarrow> choice_of dbg [left, right])"

definition choice :: "(('t::linorder) trace \<Rightarrow> utext) \<Rightarrow> 't trace \<Rightarrow> 't trace \<Rightarrow> 't trace" where
  "choice dbg left right = widen_if_needed (choice_parts dbg left right)"

fun repeat :: "'t trace \<Rightarrow> 't trace" where
  "repeat TEmpty = TEmpty"
| "repeat (TRepeat inner) = TRepeat inner"
| "repeat t = TRepeat t"

definition seq_assign :: "('t::linorder) trace \<Rightarrow> 't trace \<Rightarrow> 't trace \<times> bool" where
  "seq_assign t other = (let joined = seq t other in (joined, joined \<noteq> t))"

definition choice_assign :: "(('t::linorder) trace \<Rightarrow> utext) \<Rightarrow> 't trace \<Rightarrow> 't trace \<Rightarrow> 't trace \<times> bool" where
  "choice_assign dbg t other = (let joined = choice dbg t other in (joined, joined \<noteq> t))"

definition trace_less_equal :: "'t trace \<Rightarrow> 't trace \<Rightarrow> bool" where
  "trace_less_equal l r \<longleftrightarrow> l = r \<or> l = TEmpty"

section \<open>What the traversals compute\<close>

lemma trace_parts_smaller: "s \<in> set (trace_parts t) \<Longrightarrow> size s < size t"
  using member_le_sum_list [of "size s" "map size (trace_parts t)"] trace_parts_size [of t] by simp

function subtraces :: "'t trace \<Rightarrow> 't trace set" where
  "subtraces t = insert t (\<Union>s \<in> set (trace_parts t). subtraces s)"
  by pat_completeness auto
termination by (relation "measure size") (simp_all add: trace_parts_smaller)

function nodes :: "'t trace \<Rightarrow> nat" where
  "nodes t = Suc (sum_list (map nodes (trace_parts t)))"
  by pat_completeness auto
termination by (relation "measure size") (simp_all add: trace_parts_smaller)

declare subtraces.simps [simp del] nodes.simps [simp del]

lemma subtraces_self [simp]: "t \<in> subtraces t"
  by (subst subtraces.simps) simp

lemma subtraces_split: "(\<exists>s \<in> subtraces t. P s) \<longleftrightarrow> P t \<or> (\<exists>u \<in> set (trace_parts t). \<exists>s \<in> subtraces u. P s)"
  by (subst subtraces.simps) auto

lemma subtraces_union: "(\<Union>s \<in> subtraces t. own s) = own t \<union> (\<Union>u \<in> set (trace_parts t). \<Union>s \<in> subtraces u. own s)"
  by (subst subtraces.simps) auto

lemma walk_any_iff: "walk_any p pending \<longleftrightarrow> (\<exists>t \<in> set pending. \<exists>s \<in> subtraces t. p s)"
proof (induction p pending rule: walk_any.induct)
  case (2 p t pending)
  then show ?case by (subst walk_any.simps) (auto simp: subtraces_split [of t])
qed simp

lemma has_parameter_calls_iff: "has_parameter_calls t \<longleftrightarrow> (\<exists>s \<in> subtraces t. is_parameter_call s)"
  by (simp add: has_parameter_calls_def walk_any_iff del: walk_any.simps)

lemma contains_repeat_iff: "contains_repeat t \<longleftrightarrow> (\<exists>s \<in> subtraces t. is_repeat s)"
  by (simp add: contains_repeat_def walk_any_iff del: walk_any.simps)

lemma has_unordered_iff: "has_unordered_approximation t \<longleftrightarrow> (\<exists>s \<in> subtraces t. is_unordered s)"
  by (simp add: has_unordered_approximation_def walk_any_iff del: walk_any.simps)

lemma node_count_loop_min:
  "count \<le> FIXPOINT_TRACE_NODE_LIMIT \<Longrightarrow>
   node_count_loop count pending = min (count + sum_list (map nodes pending)) (Suc FIXPOINT_TRACE_NODE_LIMIT)"
proof (induction count pending rule: node_count_loop.induct)
  case (2 count t pending)
  show ?case
  proof (cases "Suc count > FIXPOINT_TRACE_NODE_LIMIT")
    case True
    then have "count = FIXPOINT_TRACE_NODE_LIMIT" using 2(2) by simp
    then show ?thesis by (simp add: nodes.simps [of t])
  next
    case False
    then show ?thesis using 2(1) by (subst node_count_loop.simps) (simp add: nodes.simps [of t] rev_map [symmetric] algebra_simps)
  qed
qed simp

lemma node_count_min: "node_count t = min (nodes t) (Suc FIXPOINT_TRACE_NODE_LIMIT)"
  by (simp add: node_count_def node_count_loop_min FIXPOINT_TRACE_NODE_LIMIT_def del: node_count_loop.simps)

text \<open>
  A collector adds to what it has gathered what a trace holds by itself; over a stack of pending
  traces it gathers what all their parts hold, in whichever order it goes through them.
\<close>

locale trace_collector =
  fixes step :: "'t trace \<Rightarrow> 'a \<Rightarrow> 'a"
    and view :: "'a \<Rightarrow> 'b set"
    and own :: "'t trace \<Rightarrow> 'b set"
  assumes view_step: "view (step t acc) = view acc \<union> own t"
begin

definition gathered :: "'t trace \<Rightarrow> 'b set" where
  "gathered t = (\<Union>s \<in> subtraces t. own s)"

lemma gathered_split: "gathered t = own t \<union> (\<Union>u \<in> set (trace_parts t). gathered u)"
  unfolding gathered_def by (rule subtraces_union)

lemma view_walk: "view (walk_collect in_order step pending acc) = view acc \<union> (\<Union>t \<in> set pending. gathered t)"
proof (induction "sum_list (map size pending)" arbitrary: pending acc rule: less_induct)
  case less
  show ?case
  proof (cases pending)
    case (Cons t rest)
    let ?next = "(if in_order then trace_parts t else rev (trace_parts t)) @ rest"
    have "sum_list (map size ?next) < sum_list (map size pending)"
      using trace_parts_size [of t] by (simp add: Cons rev_map [symmetric])
    from less [OF this, of "step t acc"] show ?thesis
      by (auto simp: Cons view_step gathered_split [of t])
  qed simp
qed

end

fun own_actions :: "'t trace \<Rightarrow> effect set" where
  "own_actions (TUnknownOrder s) = s"
| "own_actions (TWidened s _) = s"
| "own_actions (TEvent e) = {ev_action e}"
| "own_actions _ = {}"

definition call_key :: "'t parameter_call_ref \<Rightarrow> 't \<times> trace_span" where
  "call_key c = (pc_target c, pc_span c)"

fun own_calls :: "'t trace \<Rightarrow> ('t \<times> trace_span) set" where
  "own_calls (TParameterCall target _ sp) = {(target, sp)}"
| "own_calls (TWidened _ cs) = call_key ` set cs"
| "own_calls _ = {}"

lemma view_add_actions: "add_actions t acc = acc \<union> own_actions t"
  by (cases t) (auto simp: effects_union_assign_def)

lemma dom_insert_call: "fset (fmdom (insert_call c calls)) = insert (call_key c) (fset (fmdom calls))"
  by (simp add: insert_call_def call_key_def)

lemma dom_fold_insert: "fset (fmdom (fold insert_call cs calls)) = call_key ` set cs \<union> fset (fmdom calls)"
  by (induction cs arbitrary: calls) (auto simp: dom_insert_call)

lemma view_add_calls: "fset (fmdom (add_calls t calls)) = fset (fmdom calls) \<union> own_calls t"
  by (cases t) (auto simp: dom_insert_call dom_fold_insert call_key_def)

interpretation actions: trace_collector add_actions "\<lambda>acc. acc" own_actions
  by unfold_locales (rule view_add_actions)

interpretation calls: trace_collector add_calls "\<lambda>m. fset (fmdom m)" own_calls
  by unfold_locales (rule view_add_calls)

interpretation widened_actions: trace_collector add_widened fst own_actions
  by unfold_locales (auto simp: add_widened_def view_add_actions split: prod.splits)

interpretation widened_calls: trace_collector add_widened "\<lambda>acc. fset (fmdom (snd acc))" own_calls
  by unfold_locales (auto simp: add_widened_def view_add_calls split: prod.splits)

abbreviation actions_of :: "'t trace \<Rightarrow> effect set" where "actions_of \<equiv> actions.gathered"
abbreviation calls_of :: "'t trace \<Rightarrow> ('t \<times> trace_span) set" where "calls_of \<equiv> calls.gathered"

lemma collect_actions_union: "collect_actions t acc = acc \<union> actions_of t"
  unfolding collect_actions_def using actions.view_walk [of False "[t]" acc] by simp

lemma action_set_eq: "action_set t = actions_of t"
  by (simp add: action_set_def collect_actions_union)

lemma collect_widened_eq:
  "fst (collect_widened t acc) = fst acc \<union> actions_of t"
  "fset (fmdom (snd (collect_widened t acc))) = fset (fmdom (snd acc)) \<union> calls_of t"
  unfolding collect_widened_def using widened_actions.view_walk [of True "[t]" acc] widened_calls.view_walk [of True "[t]" acc]
  by simp_all

section \<open>Footprints\<close>

lemma fmap_values_empty [simp]: "fmap_values m = [] \<longleftrightarrow> m = fmempty"
proof
  assume "fmap_values m = []"
  then have "\<forall>k. k |\<in>| fmdom m \<longrightarrow> fmlookup m k = None"
    by (auto simp: fmap_values_def List.map_filter_def filter_empty_conv)
  then have "fmlookup m k = None" for k by (metis fmdom_notD)
  then show "m = fmempty" by (intro fmap_ext) simp
qed (simp add: fmap_values_def List.map_filter_def sorted_list_of_fset.rep_eq)

definition keyed :: "'t call_map \<Rightarrow> bool" where
  "keyed m \<longleftrightarrow> (\<forall>k c. fmlookup m k = Some c \<longrightarrow> call_key c = k)"

lemma keyed_empty [simp]: "keyed fmempty"
  by (simp add: keyed_def)

lemma keyed_insert [simp]: "keyed m \<Longrightarrow> keyed (insert_call c m)"
  by (simp add: keyed_def insert_call_def call_key_def)

lemma keyed_fold [simp]: "keyed m \<Longrightarrow> keyed (fold insert_call cs m)"
  by (induction cs arbitrary: m) simp_all

lemma keyed_add [simp]: "keyed m \<Longrightarrow> keyed (add_calls t m)"
  by (cases t) simp_all

lemma keyed_walk: "keyed (snd acc) \<Longrightarrow> keyed (snd (walk_collect in_order add_widened pending acc))"
proof (induction "sum_list (map size pending)" arbitrary: pending acc rule: less_induct)
  case less
  show ?case
  proof (cases pending)
    case (Cons t rest)
    let ?next = "(if in_order then trace_parts t else rev (trace_parts t)) @ rest"
    have "sum_list (map size ?next) < sum_list (map size pending)"
      using trace_parts_size [of t] by (simp add: Cons rev_map [symmetric])
    moreover have "keyed (snd (add_widened t acc))" using less(2) by (cases acc) (simp add: add_widened_def)
    ultimately have "keyed (snd (walk_collect in_order add_widened ?next (add_widened t acc)))" by (rule less(1))
    then show ?thesis by (simp add: Cons)
  qed (use less in simp)
qed

lemma keyed_collect [simp]: "keyed (snd acc) \<Longrightarrow> keyed (snd (collect_widened t acc))"
  unfolding collect_widened_def by (rule keyed_walk)

lemma keys_of_values: "keyed m \<Longrightarrow> call_key ` set (fmap_values m) = fset (fmdom m)" for m :: "('t::linorder) call_map"
proof -
  assume "keyed m"
  then have "call_key ` set (fmap_values m) \<subseteq> fset (fmdom m)"
    by (auto simp: fmap_values_def List.map_filter_def keyed_def fmlookup_dom_iff)
  moreover have "k \<in> call_key ` set (fmap_values m)" if "k \<in> fset (fmdom m)" for k
  proof -
    from that obtain c where c: "fmlookup m k = Some c" by (auto simp: fmlookup_dom_iff)
    then have "c \<in> set (fmap_values m)" using that by (force simp: fmap_values_def List.map_filter_def)
    moreover have "call_key c = k" using c \<open>keyed m\<close> unfolding keyed_def by blast
    ultimately show ?thesis by blast
  qed
  ultimately show ?thesis by blast
qed

lemma gathered_simps [simp]:
  "actions_of TEmpty = {}" "calls_of TEmpty = {}"
  "actions_of (TEvent e) = {ev_action e}" "calls_of (TEvent e) = {}"
  "actions_of (TParameterCall t n sp) = {}" "calls_of (TParameterCall t n sp) = {(t, sp)}"
  "actions_of (TParallel ps) = (\<Union>p \<in> set ps. actions_of p)" "calls_of (TParallel ps) = (\<Union>p \<in> set ps. calls_of p)"
  "actions_of (TSeq ps) = (\<Union>p \<in> set ps. actions_of p)" "calls_of (TSeq ps) = (\<Union>p \<in> set ps. calls_of p)"
  "actions_of (TChoice ps) = (\<Union>p \<in> set ps. actions_of p)" "calls_of (TChoice ps) = (\<Union>p \<in> set ps. calls_of p)"
  "actions_of (TTaskStart i b) = actions_of b" "calls_of (TTaskStart i b) = calls_of b"
  "actions_of (TRepeat b) = actions_of b" "calls_of (TRepeat b) = calls_of b"
  "actions_of (TTaskAwait i) = {}" "calls_of (TTaskAwait i) = {}"
  "actions_of (TUnknownOrder s) = s" "calls_of (TUnknownOrder s) = {}"
  "actions_of (TWidened s cs) = s" "calls_of (TWidened s cs) = call_key ` set cs"
  by (subst actions.gathered_split calls.gathered_split; simp)+

lemma has_parameter_calls_keys: "has_parameter_calls t \<longleftrightarrow> calls_of t \<noteq> {}"
proof -
  have "is_parameter_call s \<longleftrightarrow> own_calls s \<noteq> {}" for s :: "'a trace" by (cases s) simp_all
  then show ?thesis by (auto simp: has_parameter_calls_iff calls.gathered_def)
qed

lemma parameter_calls_empty: "parameter_calls t = [] \<longleftrightarrow> calls_of t = {}"
proof -
  have "fset (fmdom (collect_parameter_calls t fmempty)) = calls_of t"
    unfolding collect_parameter_calls_def using calls.view_walk [of False "[t]" fmempty] by simp
  then show ?thesis
    by (simp add: parameter_calls_def) (metis bot_fset.rep_eq fmdom_empty fmempty_of_list fset_inject fmrestrict_fset_dom fmrestrict_fset_null)
qed

lemma widened_of_footprint:
  assumes "keyed calls"
  shows "actions_of (widened_of (A, calls)) = A" "calls_of (widened_of (A, calls)) = fset (fmdom calls)"
  using keys_of_values [OF assms] by (simp_all add: widened_of_def)

lemma into_widened_footprint:
  "actions_of (into_widened t) = actions_of t" "calls_of (into_widened t) = calls_of t"
proof -
  obtain A calls where c: "collect_widened t ({}, fmempty) = (A, calls)" by fastforce
  then have "keyed calls" using keyed_collect [of "({}, fmempty)" t] by simp
  from widened_of_footprint [OF this, of A] show "actions_of (into_widened t) = actions_of t" "calls_of (into_widened t) = calls_of t"
    using collect_widened_eq [of t "({}, fmempty)"] c by (simp_all add: into_widened_def)
qed

lemma merge_widened_footprint:
  "actions_of (merge_widened l r) = actions_of l \<union> actions_of r" "calls_of (merge_widened l r) = calls_of l \<union> calls_of r"
proof -
  let ?c = "collect_widened r (collect_widened l ({}, fmempty))"
  obtain A calls where c: "?c = (A, calls)" by fastforce
  then have "keyed calls" using keyed_collect [of "collect_widened l ({}, fmempty)" r] by simp
  from widened_of_footprint [OF this, of A]
  show "actions_of (merge_widened l r) = actions_of l \<union> actions_of r" "calls_of (merge_widened l r) = calls_of l \<union> calls_of r"
    using collect_widened_eq [of r "collect_widened l ({}, fmempty)"] collect_widened_eq [of l "({}, fmempty)"] c
    by (simp_all add: merge_widened_def)
qed

lemma absorb_unordered_footprint:
  "actions_of (absorb_unordered l r) = l \<union> actions_of r" "calls_of (absorb_unordered l r) = calls_of r"
  by (auto simp: absorb_unordered_def merge_widened_footprint effects_union_assign_def action_set_eq parameter_calls_empty)

lemma seq_parts_footprint:
  "actions_of (seq_parts a b) = actions_of a \<union> actions_of b" "calls_of (seq_parts a b) = calls_of a \<union> calls_of b"
  by (cases a; cases b; simp add: seq_parts_def merge_widened_footprint absorb_unordered_footprint effects_union_assign_def Un_ac)+

lemma choice_of_footprint:
  "actions_of (choice_of dbg ps) = (\<Union>p \<in> set ps. actions_of p)" "calls_of (choice_of dbg ps) = (\<Union>p \<in> set ps. calls_of p)"
  by (simp_all add: choice_of_def)

lemma choice_parts_footprint:
  "actions_of (choice_parts dbg a b) = actions_of a \<union> actions_of b" "calls_of (choice_parts dbg a b) = calls_of a \<union> calls_of b"
proof -
  have "actions_of (choice_parts dbg a b) = actions_of a \<union> actions_of b \<and> calls_of (choice_parts dbg a b) = calls_of a \<union> calls_of b"
  proof (cases "a = b")
    case False
    then show ?thesis
      unfolding choice_parts_def
      by (cases a; cases b; simp add: choice_of_footprint merge_widened_footprint absorb_unordered_footprint effects_union_assign_def Un_ac)
  qed (simp add: choice_parts_def)
  then show "actions_of (choice_parts dbg a b) = actions_of a \<union> actions_of b" "calls_of (choice_parts dbg a b) = calls_of a \<union> calls_of b"
    by simp_all
qed

lemma widen_if_needed_footprint:
  "actions_of (widen_if_needed t) = actions_of t" "calls_of (widen_if_needed t) = calls_of t"
  by (simp_all add: widen_if_needed_def into_widened_footprint)

end
