(* ===== verification/Etas_Trace_Runs.thy ===== *)
theory Etas_Trace_Runs
  imports Etas_Trace
begin

text \<open>
  The runs an action trace stands for, that the trace operations keep every run, stay within the
  node limit and keep the footprint, and the trace summaries of the specification analysis
  (\<open>trace_spec/domain.rs\<close>) with their join.
\<close>

section \<open>The runs of a trace\<close>

text \<open>
  A run is the list of actions a body requests. A parameter call may request anything. Actions in an
  unordered set come in any order and number. The actions of a started task interleave with all the
  rest; a parallel block interleaves its branches.
\<close>

definition conc :: "'a list set \<Rightarrow> 'a list set \<Rightarrow> 'a list set" where
  "conc A B = {x @ y |x y. x \<in> A \<and> y \<in> B}"

definition star :: "'a list set \<Rightarrow> 'a list set" where
  "star A = {concat xs |xs. set xs \<subseteq> A}"

definition interleave :: "'a list set \<Rightarrow> 'a list set \<Rightarrow> 'a list set" where
  "interleave A B = (\<Union>x \<in> A. \<Union>y \<in> B. shuffles x y)"

primrec sync :: "'t trace \<Rightarrow> effect list set" where
  "sync TEmpty = {[]}"
| "sync (TEvent e) = {[ev_action e]}"
| "sync (TParameterCall t n sp) = UNIV"
| "sync (TParallel ps) = foldr interleave (map sync ps) {[]}"
| "sync (TTaskStart i b) = {[]}"
| "sync (TTaskAwait i) = {[]}"
| "sync (TSeq ps) = foldr conc (map sync ps) {[]}"
| "sync (TChoice ps) = (\<Union>A \<in> set (map sync ps). A)"
| "sync (TRepeat b) = star (sync b)"
| "sync (TUnknownOrder s) = lists s"
| "sync (TWidened s cs) = (if cs = [] then lists s else UNIV)"

fun own_tasks :: "'t trace \<Rightarrow> effect set" where
  "own_tasks (TTaskStart i b) = (if has_parameter_calls b then UNIV else action_set b)"
| "own_tasks _ = {}"

definition tasks :: "'t trace \<Rightarrow> effect set" where
  "tasks t = (\<Union>s \<in> subtraces t. own_tasks s)"

definition executions :: "'t trace \<Rightarrow> effect list set" where
  "executions t = interleave (sync t) (lists (tasks t))"

lemma tasks_simps [simp]:
  "tasks TEmpty = {}" "tasks (TEvent e) = {}" "tasks (TParameterCall t n sp) = {}" "tasks (TTaskAwait i) = {}"
  "tasks (TParallel ps) = (\<Union>p \<in> set ps. tasks p)" "tasks (TSeq ps) = (\<Union>p \<in> set ps. tasks p)"
  "tasks (TChoice ps) = (\<Union>p \<in> set ps. tasks p)" "tasks (TRepeat b) = tasks b"
  "tasks (TTaskStart i b) = (if has_parameter_calls b then UNIV else action_set b) \<union> tasks b"
  "tasks (TUnknownOrder s) = {}" "tasks (TWidened s cs) = {}"
  unfolding tasks_def by (subst subtraces_union; simp)+

lemma conc_assoc: "conc (conc A B) C = conc A (conc B C)"
  by (auto simp: conc_def) (metis append.assoc)+

lemma conc_empty [simp]: "conc {[]} A = A" "conc A {[]} = A"
  by (auto simp: conc_def)

lemma conc_iff: "x \<in> conc A B \<longleftrightarrow> (\<exists>u \<in> A. \<exists>v \<in> B. x = u @ v)"
  by (auto simp: conc_def)

lemma interleave_empty [simp]: "interleave A {[]} = A"
  by (auto simp: interleave_def)

lemma sync_seq_append: "sync (TSeq (l @ r)) = conc (sync (TSeq l)) (sync (TSeq r))"
  by (induction l) (simp_all add: conc_assoc)

lemma star_star [simp]: "star (star A) = star A"
proof
  show "star A \<subseteq> star (star A)"
  proof
    fix x assume "x \<in> star A"
    then show "x \<in> star (star A)" unfolding star_def by (intro CollectI exI [of _ "[x]"]) auto
  qed
  show "star (star A) \<subseteq> star A"
  proof
    fix x assume "x \<in> star (star A)"
    then obtain xs where xs: "x = concat xs" "set xs \<subseteq> star A" by (auto simp: star_def)
    from xs(2) have "\<exists>ys. concat xs = concat ys \<and> set ys \<subseteq> A"
    proof (induction xs)
      case (Cons y ys)
      then obtain us vs where "y = concat us" "set us \<subseteq> A" "concat ys = concat vs" "set vs \<subseteq> A" by (auto simp: star_def)
      then show ?case by (intro exI [of _ "us @ vs"]) auto
    qed (auto intro: exI [of _ "[]"])
    with xs show "x \<in> star A" by (auto simp: star_def)
  qed
qed

lemma star_empty [simp]: "star {[]} = {[]}"
proof -
  have "concat xs = []" if "set xs \<subseteq> {[]}" for xs :: "'a list list" using that by (induction xs) auto
  moreover have "[] \<in> star {[]}" unfolding star_def by (auto intro: exI [of _ "[]"])
  ultimately show ?thesis by (auto simp: star_def)
qed

lemma set_interleave: "ys \<in> interleave A B \<Longrightarrow> \<exists>x \<in> A. \<exists>z \<in> B. set ys = set x \<union> set z"
  by (auto simp: interleave_def set_shuffles) (metis set_shuffles)

lemma sync_actions:
  "calls_of t = {} \<Longrightarrow> x \<in> sync t \<Longrightarrow> set x \<subseteq> actions_of t"
proof (induction t arbitrary: x)
  case (TParallel ps)
  have "y \<in> foldr interleave (map sync qs) {[]} \<Longrightarrow> set qs \<subseteq> set ps \<Longrightarrow> set y \<subseteq> actions_of (TParallel ps)" for y qs
  proof (induction qs arbitrary: y)
    case (Cons q qs)
    then obtain u v where "u \<in> sync q" "v \<in> foldr interleave (map sync qs) {[]}" "set y = set u \<union> set v"
      using set_interleave by fastforce
    moreover have "set v \<subseteq> actions_of (TParallel ps)" using Cons calculation by auto
    moreover have "set u \<subseteq> actions_of q" using TParallel(1) [of q u] Cons(3) TParallel(2) calculation by auto
    ultimately show ?case using Cons(3) by auto
  qed simp
  then show ?case using TParallel(3) by simp
next
  case (TSeq ps)
  have "y \<in> foldr conc (map sync qs) {[]} \<Longrightarrow> set qs \<subseteq> set ps \<Longrightarrow> set y \<subseteq> actions_of (TSeq ps)" for y qs
  proof (induction qs arbitrary: y)
    case (Cons q qs)
    then obtain u v where "u \<in> sync q" "v \<in> foldr conc (map sync qs) {[]}" "y = u @ v"
      using conc_iff [of y "sync q" "foldr conc (map sync qs) {[]}"] by auto
    moreover have "set v \<subseteq> actions_of (TSeq ps)" using Cons calculation by auto
    moreover have "set u \<subseteq> actions_of q" using TSeq(1) [of q u] Cons(3) TSeq(2) calculation by auto
    ultimately show ?case using Cons(3) by auto
  qed simp
  then show ?case using TSeq(3) by simp
next
  case (TChoice ps)
  then show ?case by (auto simp: subset_iff)
next
  case (TRepeat b)
  from TRepeat(3) obtain xs where xs: "x = concat xs" "set xs \<subseteq> sync b" by (auto simp: star_def)
  then have "set y \<subseteq> actions_of b" if "y \<in> set xs" for y using TRepeat(1) [of y] TRepeat(2) that by auto
  then show ?case using xs by auto
qed (auto split: if_splits)

lemma tasks_actions: "calls_of t = {} \<Longrightarrow> tasks t \<subseteq> actions_of t"
  by (induction t) (auto simp: has_parameter_calls_keys action_set_eq)

lemma executions_actions:
  assumes "calls_of t = {}" "ys \<in> executions t"
  shows "set ys \<subseteq> actions_of t"
  using set_interleave [of ys "sync t" "lists (tasks t)"] assms sync_actions [of t] tasks_actions [of t]
  unfolding executions_def by (fastforce simp: subset_iff)

lemma executions_widened_of:
  "executions (widened_of (A, calls)) = (if calls = fmempty then lists A else UNIV)"
  by (auto simp: executions_def widened_of_def)

text \<open>A trace that has gathered the footprint of another without an order covers all its runs.\<close>

definition forgets_order :: "'t trace \<Rightarrow> bool" where
  "forgets_order t \<longleftrightarrow> executions t = (if calls_of t = {} then lists (actions_of t) else UNIV)"

lemma forgets_order_covers:
  assumes "forgets_order w" "actions_of t \<subseteq> actions_of w" "calls_of t \<subseteq> calls_of w"
  shows "executions t \<subseteq> executions w"
proof (cases "calls_of w = {}")
  case True
  then have "calls_of t = {}" using assms(3) by simp
  then show ?thesis using executions_actions [of t] assms(1,2) True by (auto simp: forgets_order_def subset_iff)
qed (use assms(1) in \<open>simp add: forgets_order_def\<close>)

lemma forgets_order_widened_of: "keyed calls \<Longrightarrow> forgets_order (widened_of (A, calls))"
proof -
  assume "keyed calls"
  moreover have "calls = fmempty \<longleftrightarrow> fset (fmdom calls) = {}"
    by (metis bot_fset.rep_eq fmdom_empty fset_inject fmrestrict_fset_dom fmrestrict_fset_null)
  ultimately show ?thesis by (simp add: forgets_order_def executions_widened_of widened_of_footprint)
qed

lemma forgets_order_into_widened [simp]: "forgets_order (into_widened t)"
  using forgets_order_widened_of [of "snd (collect_widened t ({}, fmempty))" "fst (collect_widened t ({}, fmempty))"]
  by (simp add: into_widened_def)

lemma forgets_order_merge_widened [simp]: "forgets_order (merge_widened l r)"
  using forgets_order_widened_of [of "snd (collect_widened r (collect_widened l ({}, fmempty)))"
      "fst (collect_widened r (collect_widened l ({}, fmempty)))"]
  by (simp add: merge_widened_def)

lemma forgets_order_unknown [simp]: "forgets_order (TUnknownOrder s)"
  by (simp add: forgets_order_def executions_def)

lemma forgets_order_absorb [simp]: "forgets_order (absorb_unordered l r)"
  by (simp add: absorb_unordered_def)

section \<open>Sequencing, branching and repetition\<close>

lemma executions_cong: "sync s = sync t \<Longrightarrow> tasks s = tasks t \<Longrightarrow> executions s = executions t"
  by (simp add: executions_def)

lemma seq_parts_exact:
  assumes "\<not> is_unordered a" "\<not> is_unordered b"
  shows "executions (seq_parts a b) = executions (TSeq [a, b])"
proof -
  have "sync (seq_parts a b) = sync (TSeq [a, b]) \<and> tasks (seq_parts a b) = tasks (TSeq [a, b])"
    using assms by (cases a; cases b; simp add: seq_parts_def sync_seq_append conc_assoc Un_ac del: sync.simps(7); simp)
  then show ?thesis using executions_cong by blast
qed

lemma seq_parts_forgets:
  assumes "is_unordered a \<or> is_unordered b" "a \<noteq> TEmpty" "b \<noteq> TEmpty"
  shows "forgets_order (seq_parts a b)"
  using assms by (cases a; cases b; simp add: seq_parts_def)

lemma seq_parts_sound: "executions (TSeq [a, b]) \<subseteq> executions (seq_parts a b)"
proof -
  consider "a = TEmpty" | "b = TEmpty" "a \<noteq> TEmpty" | "\<not> is_unordered a" "\<not> is_unordered b" |
    "is_unordered a \<or> is_unordered b" "a \<noteq> TEmpty" "b \<noteq> TEmpty" by blast
  then show ?thesis
  proof cases
    case 1 then show ?thesis by (simp add: seq_parts_def executions_def)
  next
    case 2 then show ?thesis by (cases a) (simp_all add: seq_parts_def executions_def)
  next
    case 3 then show ?thesis by (simp add: seq_parts_exact)
  next
    case 4
    show ?thesis by (rule forgets_order_covers [OF seq_parts_forgets [OF 4]]) (simp_all add: seq_parts_footprint)
  qed
qed

lemma choice_of_runs: "sync (choice_of dbg ps) = (\<Union>p \<in> set ps. sync p)" "tasks (choice_of dbg ps) = (\<Union>p \<in> set ps. tasks p)"
  by (simp_all add: choice_of_def)

lemma choice_parts_exact:
  assumes "\<not> is_unordered a" "\<not> is_unordered b"
  shows "executions (choice_parts dbg a b) = executions (TChoice [a, b])"
proof (cases "a = b")
  case False
  then have "sync (choice_parts dbg a b) = sync (TChoice [a, b]) \<and> tasks (choice_parts dbg a b) = tasks (TChoice [a, b])"
    unfolding choice_parts_def using assms
    by (cases a; cases b; simp add: choice_of_runs Un_ac)
  then show ?thesis using executions_cong by blast
qed (simp add: choice_parts_def executions_def)

lemma choice_parts_forgets:
  assumes "is_unordered a \<or> is_unordered b" "a \<noteq> b"
  shows "forgets_order (choice_parts dbg a b)"
  using assms by (cases a; cases b; simp add: choice_parts_def; auto)

lemma choice_parts_sound: "executions (TChoice [a, b]) \<subseteq> executions (choice_parts dbg a b)"
proof -
  consider "a = b" | "\<not> is_unordered a" "\<not> is_unordered b" | "is_unordered a \<or> is_unordered b" "a \<noteq> b" by blast
  then show ?thesis
  proof cases
    case 1 then show ?thesis by (simp add: choice_parts_def executions_def)
  next
    case 2 then show ?thesis by (simp add: choice_parts_exact)
  next
    case 3
    show ?thesis by (rule forgets_order_covers [OF choice_parts_forgets [OF 3]]) (simp_all add: choice_parts_footprint)
  qed
qed

lemma into_widened_sound: "executions t \<subseteq> executions (into_widened t)"
  by (rule forgets_order_covers) (simp_all add: into_widened_footprint)

lemma widen_if_needed_sound: "executions t \<subseteq> executions (widen_if_needed t)"
  using into_widened_sound [of t] by (simp add: widen_if_needed_def)

lemma repeat_exact: "executions (repeat t) = executions (TRepeat t)"
  by (cases t) (simp_all add: executions_def)

section \<open>Bounded size\<close>

definition trace_bounded :: "'t trace \<Rightarrow> bool" where
  "trace_bounded t \<longleftrightarrow> nodes t \<le> FIXPOINT_TRACE_NODE_LIMIT \<and> (\<forall>s \<in> subtraces t. \<not> is_repeat s)"

lemma node_count_limit: "node_count t \<le> FIXPOINT_TRACE_NODE_LIMIT \<longleftrightarrow> nodes t \<le> FIXPOINT_TRACE_NODE_LIMIT"
  by (simp add: node_count_min min_def)

lemma leaf_trace: "trace_parts t = [] \<Longrightarrow> nodes t = 1" "trace_parts t = [] \<Longrightarrow> subtraces t = {t}"
  by (subst nodes.simps, simp) (subst subtraces.simps, simp)

lemma trace_bounded_into_widened: "trace_bounded (into_widened t)"
proof -
  have "trace_parts (into_widened t) = []" "\<not> is_repeat (into_widened t)"
    by (simp_all add: into_widened_def widened_of_def split: prod.splits)
  then show ?thesis by (simp add: trace_bounded_def leaf_trace FIXPOINT_TRACE_NODE_LIMIT_def)
qed

lemma trace_bounded_iff: "trace_bounded t \<longleftrightarrow> node_count t \<le> FIXPOINT_TRACE_NODE_LIMIT \<and> \<not> contains_repeat t"
  by (simp add: trace_bounded_def node_count_limit contains_repeat_iff)

lemma trace_bounded_widen: "trace_bounded (widen_if_needed t)"
  using trace_bounded_into_widened [of t] by (simp add: widen_if_needed_def trace_bounded_iff)

lemma widen_if_needed_bounded: "trace_bounded t \<Longrightarrow> widen_if_needed t = t"
  by (simp add: widen_if_needed_def trace_bounded_iff)

section \<open>Trace summaries\<close>

datatype effect_unit =
    EuItem item_id
  | EuHandlerArm item_id handler_arm_id
  | EuAnonymousFlow item_id expr_id anonymous_flow_body

fun effect_unit_owner :: "effect_unit \<Rightarrow> item_id option" where
  "effect_unit_owner (EuItem item) = Some item"
| "effect_unit_owner (EuHandlerArm owner _) = Some owner"
| "effect_unit_owner (EuAnonymousFlow owner _ _) = Some owner"

record 't trace_spec_summary =
  tss_unit :: "effect_unit option"
  tss_owner :: "item_id option"
  tss_trace :: "'t trace"
  tss_requested :: effect_row
  tss_incomplete :: bool

definition summary_default :: "'t trace_spec_summary" where
  "summary_default = \<lparr>tss_unit = None, tss_owner = None, tss_trace = TEmpty, tss_requested = row_empty, tss_incomplete = False\<rparr>"

definition summary_for_unit :: "effect_unit \<Rightarrow> 't trace_spec_summary" where
  "summary_for_unit u = summary_default\<lparr>tss_unit := Some u, tss_owner := effect_unit_owner u\<rparr>"

definition summary_seq_assign :: "('t::linorder) trace_spec_summary \<Rightarrow> 't trace_spec_summary \<Rightarrow> 't trace_spec_summary \<times> bool" where
  "summary_seq_assign s other =
     (let (trace, c1) = seq_assign (tss_trace s) (tss_trace other);
          (row, c2) = row_union_assign (tss_requested s) (tss_requested other);
          incomplete = (tss_incomplete s \<or> tss_incomplete other)
      in (s\<lparr>tss_trace := trace, tss_requested := row, tss_incomplete := incomplete\<rparr>,
          c1 \<or> c2 \<or> tss_incomplete s \<noteq> incomplete))"

definition summary_join_branch ::
    "(('t::linorder) trace \<Rightarrow> utext) \<Rightarrow> 't trace_spec_summary \<Rightarrow> 't trace_spec_summary \<Rightarrow> 't trace_spec_summary \<times> bool" where
  "summary_join_branch dbg s other =
     (let (trace, c1) = choice_assign dbg (tss_trace s) (tss_trace other);
          (row, c2) = row_union_assign (tss_requested s) (tss_requested other);
          incomplete = (tss_incomplete s \<or> tss_incomplete other)
      in (s\<lparr>tss_trace := trace, tss_requested := row, tss_incomplete := incomplete\<rparr>,
          c1 \<or> c2 \<or> tss_incomplete s \<noteq> incomplete))"

definition summary_mark_incomplete :: "'t trace_spec_summary \<Rightarrow> 't trace_spec_summary" where
  "summary_mark_incomplete s = s\<lparr>tss_incomplete := True\<rparr>"

definition is_bottom_like :: "'t trace_spec_summary \<Rightarrow> bool" where
  "is_bottom_like s \<longleftrightarrow> tss_unit s = None \<and> tss_owner s = None \<and> tss_trace s = TEmpty \<and>
     er_effects (tss_requested s) = {} \<and> er_open (tss_requested s) = None \<and> \<not> tss_incomplete s"

fun join_option :: "'a option \<Rightarrow> 'a option \<Rightarrow> 'a option \<times> bool" where
  "join_option None (Some other) = (Some other, True)"
| "join_option slot _ = (slot, False)"

definition summary_join_assign ::
    "(('t::linorder) trace \<Rightarrow> utext) \<Rightarrow> 't trace_spec_summary \<Rightarrow> 't trace_spec_summary \<Rightarrow> 't trace_spec_summary \<times> bool" where
  "summary_join_assign dbg s other =
     (if is_bottom_like s then (other, s \<noteq> other)
      else if is_bottom_like other then (s, False)
      else
        let (u, c1) = join_option (tss_unit s) (tss_unit other);
            (owner, c2) = join_option (tss_owner s) (tss_owner other);
            (joined, c3) = summary_join_branch dbg (s\<lparr>tss_unit := u, tss_owner := owner\<rparr>) other
        in (joined, c1 \<or> c2 \<or> c3))"

definition option_less_equal :: "'a option \<Rightarrow> 'a option \<Rightarrow> bool" where
  "option_less_equal l r \<longleftrightarrow> l = r \<or> l = None"

definition summary_less_equal :: "'t trace_spec_summary \<Rightarrow> 't trace_spec_summary \<Rightarrow> bool" where
  "summary_less_equal l r \<longleftrightarrow> option_less_equal (tss_unit l) (tss_unit r) \<and> option_less_equal (tss_owner l) (tss_owner r) \<and>
     trace_less_equal (tss_trace l) (tss_trace r) \<and> row_less_equal (tss_requested l) (tss_requested r) \<and>
     (\<not> tss_incomplete l \<or> tss_incomplete r)"

lemma join_option_changed: "snd (join_option a b) \<longleftrightarrow> fst (join_option a b) \<noteq> a"
  by (cases a; cases b) simp_all

lemma is_bottom_like_iff: "is_bottom_like s \<longleftrightarrow> s = summary_default"
  by (cases s) (auto simp: is_bottom_like_def summary_default_def row_empty_def intro: effect_row.equality)

lemma summary_join_branch_fields:
  "tss_trace (fst (summary_join_branch dbg s t)) = choice dbg (tss_trace s) (tss_trace t)"
  "tss_requested (fst (summary_join_branch dbg s t)) = fst (row_union_assign (tss_requested s) (tss_requested t))"
  "tss_incomplete (fst (summary_join_branch dbg s t)) \<longleftrightarrow> tss_incomplete s \<or> tss_incomplete t"
  "tss_unit (fst (summary_join_branch dbg s t)) = tss_unit s" "tss_owner (fst (summary_join_branch dbg s t)) = tss_owner s"
  by (simp_all add: summary_join_branch_def choice_assign_def Let_def split: prod.splits)

lemma summary_join_branch_changed:
  assumes "row_ok (tss_requested s)" "row_ok (tss_requested t)"
  shows "snd (summary_join_branch dbg s t) \<longleftrightarrow> fst (summary_join_branch dbg s t) \<noteq> s"
proof -
  have r: "snd (row_union_assign (tss_requested s) (tss_requested t)) \<longleftrightarrow>
      fst (row_union_assign (tss_requested s) (tss_requested t)) \<noteq> tss_requested s"
    by (rule row_union_changed) (use assms in simp_all)
  have "snd (summary_join_branch dbg s t) \<longleftrightarrow>
      tss_trace (fst (summary_join_branch dbg s t)) \<noteq> tss_trace s \<or>
      tss_requested (fst (summary_join_branch dbg s t)) \<noteq> tss_requested s \<or>
      tss_incomplete (fst (summary_join_branch dbg s t)) \<noteq> tss_incomplete s"
    unfolding summary_join_branch_fields using r
    by (cases "row_union_assign (tss_requested s) (tss_requested t)") (auto simp: summary_join_branch_def choice_assign_def Let_def)
  moreover have "fst (summary_join_branch dbg s t) = s \<longleftrightarrow>
      tss_trace (fst (summary_join_branch dbg s t)) = tss_trace s \<and>
      tss_requested (fst (summary_join_branch dbg s t)) = tss_requested s \<and>
      tss_incomplete (fst (summary_join_branch dbg s t)) = tss_incomplete s"
    using summary_join_branch_fields(4,5) [of dbg s t] by (metis trace_spec_summary.equality old.unit.exhaust)
  ultimately show ?thesis by blast
qed

definition with_identity_of :: "'t trace_spec_summary \<Rightarrow> 't trace_spec_summary \<Rightarrow> 't trace_spec_summary" where
  "with_identity_of s t = s\<lparr>tss_unit := fst (join_option (tss_unit s) (tss_unit t)), tss_owner := fst (join_option (tss_owner s) (tss_owner t))\<rparr>"

lemma with_identity_of_fields [simp]:
  "tss_trace (with_identity_of s t) = tss_trace s" "tss_requested (with_identity_of s t) = tss_requested s"
  "tss_incomplete (with_identity_of s t) = tss_incomplete s"
  "tss_unit (with_identity_of s t) = fst (join_option (tss_unit s) (tss_unit t))"
  "tss_owner (with_identity_of s t) = fst (join_option (tss_owner s) (tss_owner t))"
  by (simp_all add: with_identity_of_def)

lemma summary_join_assign_branch:
  assumes "s \<noteq> summary_default" "t \<noteq> summary_default"
  shows "summary_join_assign dbg s t = (fst (summary_join_branch dbg (with_identity_of s t) t),
    snd (join_option (tss_unit s) (tss_unit t)) \<or> snd (join_option (tss_owner s) (tss_owner t)) \<or>
    snd (summary_join_branch dbg (with_identity_of s t) t))"
  using assms by (simp add: summary_join_assign_def is_bottom_like_iff with_identity_of_def Let_def split: prod.splits)

section \<open>Properties\<close>

text \<open>C4. The trace operations never lose a run: sequencing, branching and repeating traces, and
  widening one for a fixpoint, give a trace whose runs include every run of the operands put in
  sequence, in a choice or in a loop. Without a widening they are exact: if the operands are not
  unordered and the result stays within the limits, the runs are the same.\<close>

theorem trace_operations_sound:
  "executions (TSeq [a, b]) \<subseteq> executions (seq a b) \<and>
   executions (TChoice [a, b]) \<subseteq> executions (choice dbg a b) \<and>
   executions (TRepeat a) = executions (repeat a) \<and>
   executions a \<subseteq> executions (stabilize_for_fixpoint a current) \<and>
   (\<not> is_unordered a \<and> \<not> is_unordered b \<longrightarrow>
      (trace_bounded (seq_parts a b) \<longrightarrow> executions (seq a b) = executions (TSeq [a, b])) \<and>
      (trace_bounded (choice_parts dbg a b) \<longrightarrow> executions (choice dbg a b) = executions (TChoice [a, b])))"
proof -
  have "executions a \<subseteq> executions (stabilize_for_fixpoint a current)"
    using into_widened_sound [of a] by (simp add: stabilize_for_fixpoint_def)
  moreover have "executions (TSeq [a, b]) \<subseteq> executions (seq a b)"
    unfolding seq_def using seq_parts_sound widen_if_needed_sound by blast
  moreover have "executions (TChoice [a, b]) \<subseteq> executions (choice dbg a b)"
    unfolding choice_def using choice_parts_sound widen_if_needed_sound by blast
  ultimately show ?thesis
    by (simp add: repeat_exact seq_def choice_def widen_if_needed_bounded seq_parts_exact choice_parts_exact)
qed

theorem trace_operations_sound_witness:
  "executions (seq (TTaskAwait 1) (TTaskAwait 2) :: nat trace) = executions (TSeq [TTaskAwait 1, TTaskAwait 2] :: nat trace)"
proof -
  have "node_count (TSeq [TTaskAwait 1, TTaskAwait 2] :: nat trace) = 3" "\<not> contains_repeat (TSeq [TTaskAwait 1, TTaskAwait 2] :: nat trace)"
    by (simp_all add: node_count_def contains_repeat_def FIXPOINT_TRACE_NODE_LIMIT_def)
  then have "trace_bounded (seq_parts (TTaskAwait 1) (TTaskAwait 2) :: nat trace)"
    by (simp add: trace_bounded_iff seq_parts_def FIXPOINT_TRACE_NODE_LIMIT_def)
  then show ?thesis
    using trace_operations_sound [of "TTaskAwait 1 :: nat trace" "TTaskAwait 2" "\<lambda>_. []" None] by simp
qed

text \<open>C21. Traces stay small and keep their footprint: whatever the operands, a sequence or choice has
  at most 32 nodes and no loop in it, and its actions and parameter calls, named by target and span,
  are exactly those of its operands; stabilising a trace keeps them too and removes every loop.\<close>

theorem trace_operations_bounded:
  "trace_bounded (seq a b) \<and> trace_bounded (choice dbg a b) \<and> trace_bounded (stabilize_for_fixpoint a current) \<and>
   action_set (seq a b) = action_set a \<union> action_set b \<and>
   action_set (choice dbg a b) = action_set a \<union> action_set b \<and>
   action_set (stabilize_for_fixpoint a current) = action_set a \<and>
   calls_of (seq a b) = calls_of a \<union> calls_of b \<and>
   calls_of (choice dbg a b) = calls_of a \<union> calls_of b \<and>
   calls_of (stabilize_for_fixpoint a current) = calls_of a"
proof -
  have "trace_bounded (stabilize_for_fixpoint a current)"
    using trace_bounded_into_widened [of a] by (auto simp: stabilize_for_fixpoint_def trace_bounded_iff)
  then show ?thesis
    by (simp add: seq_def choice_def trace_bounded_widen action_set_eq widen_if_needed_footprint seq_parts_footprint
        choice_parts_footprint stabilize_for_fixpoint_def into_widened_footprint)
qed

text \<open>Joining trace summaries reports a change exactly when the summary changed, keeps a
  summary unchanged when the other is bottom, takes the other when it is bottom itself, and else has
  every run of both, the requested actions of both and the incompleteness of either.\<close>

theorem trace_summary_join:
  assumes "finite (er_effects (tss_requested s))" "finite (er_effects (tss_requested t))"
  shows "(snd (summary_join_assign dbg s t) \<longleftrightarrow> fst (summary_join_assign dbg s t) \<noteq> s) \<and>
    fst (summary_join_assign dbg summary_default t) = t \<and>
    fst (summary_join_assign dbg s summary_default) = s \<and>
    (s \<noteq> summary_default \<and> t \<noteq> summary_default \<longrightarrow>
       executions (tss_trace s) \<union> executions (tss_trace t) \<subseteq> executions (tss_trace (fst (summary_join_assign dbg s t))) \<and>
       er_effects (tss_requested (fst (summary_join_assign dbg s t))) =
         er_effects (tss_requested s) \<union> er_effects (tss_requested t) \<and>
       (tss_incomplete (fst (summary_join_assign dbg s t)) \<longleftrightarrow> tss_incomplete s \<or> tss_incomplete t))"
proof -
  let ?s = "with_identity_of s t"
  let ?j = "summary_join_branch dbg ?s t"
  note j = summary_join_assign_branch [of s t dbg]
  have ch: "snd ?j \<longleftrightarrow> fst ?j \<noteq> ?s"
    by (rule summary_join_branch_changed) (use assms in \<open>simp_all add: row_ok_def\<close>)
  have same: "?s = s \<longleftrightarrow> fst (join_option (tss_unit s) (tss_unit t)) = tss_unit s \<and>
      fst (join_option (tss_owner s) (tss_owner t)) = tss_owner s"
    by (cases s) (auto simp: with_identity_of_def)
  have changed: "snd (summary_join_assign dbg s t) \<longleftrightarrow> fst (summary_join_assign dbg s t) \<noteq> s"
  proof (cases "s \<noteq> summary_default \<and> t \<noteq> summary_default")
    case True
    have "fst ?j = s \<Longrightarrow> ?s = s"
      using summary_join_branch_fields(4,5) [of dbg ?s t] same by auto
    with True show ?thesis using j ch same join_option_changed [of "tss_unit s" "tss_unit t"]
        join_option_changed [of "tss_owner s" "tss_owner t"] by auto
  qed (auto simp: summary_join_assign_def is_bottom_like_iff)
  have u: "executions (tss_trace s) \<union> executions (tss_trace t) \<subseteq> executions (choice dbg (tss_trace s) (tss_trace t))"
  proof -
    have "executions (tss_trace s) \<union> executions (tss_trace t) \<subseteq> executions (TChoice [tss_trace s, tss_trace t])"
      unfolding executions_def by (force simp: interleave_def)
    then show ?thesis unfolding choice_def using choice_parts_sound widen_if_needed_sound by blast
  qed
  show ?thesis
    using changed u by (auto simp: summary_join_assign_def [of _ summary_default] summary_join_assign_def [of _ _ summary_default] is_bottom_like_iff j
        summary_join_branch_fields row_union_fields)
qed

theorem trace_summary_join_witness:
  "executions (TTaskAwait 1 :: nat trace) \<subseteq>
     executions (tss_trace (fst (summary_join_assign (\<lambda>_. [])
       (summary_default\<lparr>tss_trace := TTaskAwait 1 :: nat trace\<rparr>) (summary_default\<lparr>tss_trace := TTaskAwait 2\<rparr>))))"
  using trace_summary_join [of "summary_default\<lparr>tss_trace := TTaskAwait 1 :: nat trace\<rparr>" "summary_default\<lparr>tss_trace := TTaskAwait 2\<rparr>" "\<lambda>_. []"]
  by (simp add: summary_default_def row_empty_def)

text \<open>C30. The order of trace summaries is not the order of their join: a summary is below its join with
  another exactly when its trace is empty or the join leaves its trace as it is.\<close>

theorem trace_summary_order:
  assumes "s \<noteq> summary_default" "t \<noteq> summary_default"
  shows "summary_less_equal s (fst (summary_join_assign dbg s t)) \<longleftrightarrow>
    tss_trace s = TEmpty \<or> choice dbg (tss_trace s) (tss_trace t) = tss_trace s"
proof -
  have o: "option_less_equal a (fst (join_option a b))" for a b :: "effect_unit option"
    by (cases a; cases b) (simp_all add: option_less_equal_def)
  have o': "option_less_equal a (fst (join_option a b))" for a b :: "item_id option"
    by (cases a; cases b) (simp_all add: option_less_equal_def)
  show ?thesis
    using row_less_equal_upper(1) [of "tss_requested s" "tss_requested t"]
    by (auto simp: summary_join_assign_branch [OF assms] summary_less_equal_def o o' summary_join_branch_fields trace_less_equal_def)
qed

theorem trace_summary_order_witness:
  "\<not> summary_less_equal (summary_default\<lparr>tss_trace := TTaskAwait 1 :: nat trace\<rparr>)
     (fst (summary_join_assign (\<lambda>_. []) (summary_default\<lparr>tss_trace := TTaskAwait 1\<rparr>) (summary_default\<lparr>tss_trace := TTaskAwait 2\<rparr>)))"
proof -
  have "choice (\<lambda>_. []) (TTaskAwait 1 :: nat trace) (TTaskAwait 2) \<noteq> TTaskAwait 1"
    by (simp add: choice_def choice_parts_def choice_of_def widen_if_needed_def node_count_def contains_repeat_def
        FIXPOINT_TRACE_NODE_LIMIT_def)
  then show ?thesis
    using trace_summary_order [of "summary_default\<lparr>tss_trace := TTaskAwait 1 :: nat trace\<rparr>" "summary_default\<lparr>tss_trace := TTaskAwait 2\<rparr>" "\<lambda>_. []"]
    by (simp add: summary_default_def)
qed

end
