(* ===== verification/Etas_Monitor.thy ===== *)
theory Etas_Monitor
  imports Etas_Trace_Runs
begin

text \<open>
  The temporal monitor of trace specifications (\<open>trace_spec/model.rs\<close>, \<open>trace_spec/monitor/*.rs\<close>):
  patterns and how they match an effect, and the check that in every run of a trace a guard comes
  before a target. The automaton library and the compiled prior-evidence automaton are not part of the
  repository: they are the record \<open>prior_product\<close> with the operations the monitor calls. The type
  facts (assignability, kinds of types, satisfaction of specs) are a parameter as well.
\<close>

section \<open>Patterns\<close>

datatype arg_bound_target = BoundAction action_ref | BoundEffectTag effect_tag_id

record arg_bound =
  ab_target :: arg_bound_target
  ab_arg_index :: nat
  ab_name :: utext
  ab_spec_symbol :: symbol_id
  ab_spec_args :: "type_id list"

record trace_spec_pattern =
  tp_row :: effect_row
  tp_label :: utext
  tp_arg_bounds :: "arg_bound list"

datatype type_kind = TkNominal | TkPrimitive | TkOther

record type_facts =
  tf_assignable :: "type_id \<Rightarrow> type_id \<Rightarrow> bool"
  tf_kind :: "type_id \<Rightarrow> type_kind option"
  tf_satisfies_spec :: "type_id \<Rightarrow> symbol_id \<Rightarrow> type_id list \<Rightarrow> bool"

definition coverage_of :: "effect_registry \<Rightarrow> type_facts \<Rightarrow> effect_coverage" where
  "coverage_of r types = \<lparr>cv_registry = r, cv_assignable = tf_assignable types\<rparr>"

fun effect_action_ref :: "effect \<Rightarrow> action_ref option" where
  "effect_action_ref (EAction a) = Some a"
| "effect_action_ref (EAppliedAction a) = Some (ai_action a)"
| "effect_action_ref _ = None"

definition comparable_concrete :: "type_facts \<Rightarrow> type_id \<Rightarrow> type_id \<Rightarrow> bool" where
  "comparable_concrete types l r \<longleftrightarrow>
     (tf_kind types l, tf_kind types r) \<in> {(Some TkNominal, Some TkNominal), (Some TkPrimitive, Some TkPrimitive)}"

definition type_args_conflict :: "type_facts \<Rightarrow> effect_action_sig \<Rightarrow> action_instance_ref \<Rightarrow> action_instance_ref \<Rightarrow> bool" where
  "type_args_conflict types sg l r =
     list_ex (\<lambda>(i, x, y).
         (i < length (sg_effect_args sg) \<and> sg_effect_args sg ! i = KType) \<and>
         (case (x, y) of
            (ArgType t, ArgType u) \<Rightarrow>
              comparable_concrete types t u \<and> \<not> tf_assignable types t u \<and> \<not> tf_assignable types u t
          | _ \<Rightarrow> False))
       (enumerate 0 (zip (ai_args l) (ai_args r)))"

definition candidate_may_match :: "effect_registry \<Rightarrow> type_facts \<Rightarrow> effect \<Rightarrow> effect \<Rightarrow> bool" where
  "candidate_may_match r types candidate e =
     (if (case (effect_action_ref candidate, effect_action_ref e) of (Some l, Some x) \<Rightarrow> l \<noteq> x | _ \<Rightarrow> False) then False
      else if (case (candidate, e) of
                 (EAppliedAction l, EAppliedAction x) \<Rightarrow>
                   ai_action l = ai_action x \<and>
                   (case action_signature r (ai_action l) of None \<Rightarrow> False | Some sg \<Rightarrow> type_args_conflict types sg l x)
               | _ \<Rightarrow> False) then False
      else \<not> rows_disjoint (coverage_of r types) (row_closed {candidate}) (row_closed {e}))"

definition may_match_effect :: "trace_spec_pattern \<Rightarrow> effect \<Rightarrow> effect_registry \<Rightarrow> type_facts \<Rightarrow> bool" where
  "may_match_effect p e r types =
     (if er_open (tp_row p) \<noteq> None then True
      else \<exists>candidate \<in> er_effects (tp_row p). candidate_may_match r types candidate e)"

fun bound_target_and_args :: "effect \<Rightarrow> effect \<Rightarrow> (arg_bound_target \<times> effect_arg_ref list) option" where
  "bound_target_and_args (EAppliedAction allowed) (EAppliedAction actual) =
     (if ai_action allowed = ai_action actual then Some (BoundAction (ai_action allowed), ai_args actual) else None)"
| "bound_target_and_args _ _ = None"

definition bounds_match :: "trace_spec_pattern \<Rightarrow> effect \<Rightarrow> effect \<Rightarrow> type_facts \<Rightarrow> bool" where
  "bounds_match p allowed actual types =
     (case bound_target_and_args allowed actual of
        None \<Rightarrow> tp_arg_bounds p = []
      | Some (target, args) \<Rightarrow>
          list_all (\<lambda>b.
              ab_arg_index b < length args \<and>
              (case args ! ab_arg_index b of
                 ArgType t \<Rightarrow> tf_satisfies_spec types t (ab_spec_symbol b) (ab_spec_args b)
               | _ \<Rightarrow> False))
            (filter (\<lambda>b. ab_target b = target) (tp_arg_bounds p)))"

definition matches_effect :: "trace_spec_pattern \<Rightarrow> effect \<Rightarrow> effect_registry \<Rightarrow> type_facts \<Rightarrow> bool" where
  "matches_effect p e r types \<longleftrightarrow>
     (\<exists>allowed \<in> er_effects (tp_row p). covers (coverage_of r types) allowed e \<and> bounds_match p allowed e types)"

definition matches_event :: "trace_spec_pattern \<Rightarrow> action_event \<Rightarrow> effect_registry \<Rightarrow> type_facts \<Rightarrow> bool" where
  "matches_event p ev r types = matches_effect p (ev_action ev) r types"

section \<open>The monitor\<close>

datatype temporal_result = Satisfied | Violation | NeedsOutcomeEvidence | UnknownResult

datatype prior_evidence_state = PeActive | PeRejected

text \<open>
  A product automaton with one component: its initial state, a bounded step, which is given the answers of
  the matcher on labels (named by their target pattern) and may fail, or give successor states and
  whether it rejected, and the component's state in a product state.
\<close>

record 'm prior_product =
  pp_initial :: 'm
  pp_step :: "'m \<Rightarrow> (trace_spec_pattern \<Rightarrow> bool) \<Rightarrow> ('m set \<times> bool) option"
  pp_component :: "'m \<Rightarrow> prior_evidence_state option"

record 'm abstract_state =
  as_monitor :: 'm
  as_prior :: bool

record 'm single_component_monitor =
  sm_product :: "'m prior_product"
  sm_guard :: trace_spec_pattern
  sm_target :: trace_spec_pattern

record trace_spec_matcher =
  tm_registry :: effect_registry
  tm_types :: type_facts

datatype 'm trace_run = RunStates "'m abstract_state set" bool | RunViolation

definition run_known :: "'m abstract_state set \<Rightarrow> 'm trace_run" where
  "run_known states = RunStates states False"

definition run_unknown :: "'m trace_run" where
  "run_unknown = RunStates {} True"

definition label_matches :: "trace_spec_matcher \<Rightarrow> action_event \<Rightarrow> bool \<Rightarrow> trace_spec_pattern \<Rightarrow> bool" where
  "label_matches mt ev prior target \<longleftrightarrow> matches_event target ev (tm_registry mt) (tm_types mt) \<and> \<not> prior"

definition step_state ::
    "'m single_component_monitor \<Rightarrow> trace_spec_matcher \<Rightarrow> action_event \<Rightarrow> 'm abstract_state \<Rightarrow> 'm trace_run" where
  "step_state m mt ev s =
     (case pp_step (sm_product m) (as_monitor s) (label_matches mt ev (as_prior s)) of
        None \<Rightarrow> RunStates {} True
      | Some (states, rejecting) \<Rightarrow>
          if states = {} \<or> rejecting then RunViolation
          else if (\<exists>n \<in> states. pp_component (sm_product m) n = Some PeRejected) then RunViolation
          else RunStates ((\<lambda>n. \<lparr>as_monitor = n,
                 as_prior = (as_prior s \<or> matches_event (sm_guard m) ev (tm_registry mt) (tm_types mt))\<rparr>) ` states) False)"

fun run_states :: "'m trace_run \<Rightarrow> 'm abstract_state set" where
  "run_states (RunStates states _) = states"
| "run_states RunViolation = {}"

fun run_incomplete :: "'m trace_run \<Rightarrow> bool" where
  "run_incomplete (RunStates _ incomplete) = incomplete"
| "run_incomplete RunViolation = False"

text \<open>The states are an ordered set; the first violation ends the step whichever state it comes from.\<close>

definition step_event ::
    "'m single_component_monitor \<Rightarrow> trace_spec_matcher \<Rightarrow> 'm abstract_state set \<Rightarrow> action_event \<Rightarrow> 'm trace_run" where
  "step_event m mt states ev =
     (if list_ex (\<lambda>p. \<not> matches_event p ev (tm_registry mt) (tm_types mt) \<and>
                       may_match_effect p (ev_action ev) (tm_registry mt) (tm_types mt)) [sm_guard m, sm_target m]
      then run_unknown
      else if (\<exists>s \<in> states. step_state m mt ev s = RunViolation) then RunViolation
      else RunStates (\<Union>s \<in> states. run_states (step_state m mt ev s)) (\<exists>s \<in> states. run_incomplete (step_state m mt ev s)))"

fun strip_repeats :: "'t trace \<Rightarrow> 't trace" where
  "strip_repeats (TRepeat nested) = strip_repeats nested"
| "strip_repeats t = t"

lemma strip_repeats_size [termination_simp]: "size (strip_repeats t) \<le> size t"
  by (induction t rule: strip_repeats.induct) simp_all

text \<open>The loop that follows a repetition until no new state is reached.\<close>

partial_function (option) repeat_loop ::
    "('m abstract_state set \<Rightarrow> 'm trace_run option) \<Rightarrow> 'm abstract_state set \<Rightarrow> 'm abstract_state set \<Rightarrow> bool \<Rightarrow> 'm trace_run option" where
  "repeat_loop body reached pending incomplete =
     (if pending = {} then Some (RunStates reached incomplete)
      else Option.bind (body pending)
        (\<lambda>r. case r of
           RunViolation \<Rightarrow> Some RunViolation
         | RunStates next_states next_incomplete \<Rightarrow>
             repeat_loop body (reached \<union> (next_states - reached)) (next_states - reached) (incomplete \<or> next_incomplete)))"

function (sequential) run_trace ::
    "'m single_component_monitor \<Rightarrow> trace_spec_matcher \<Rightarrow> (effect_set \<Rightarrow> bool) \<Rightarrow> 't trace \<Rightarrow> 'm abstract_state set \<Rightarrow> 'm trace_run option"
  and run_seq ::
    "'m single_component_monitor \<Rightarrow> trace_spec_matcher \<Rightarrow> (effect_set \<Rightarrow> bool) \<Rightarrow> 't trace list \<Rightarrow> 'm abstract_state set \<Rightarrow> bool \<Rightarrow> 'm trace_run option"
  and run_choice ::
    "'m single_component_monitor \<Rightarrow> trace_spec_matcher \<Rightarrow> (effect_set \<Rightarrow> bool) \<Rightarrow> 't trace list \<Rightarrow> 'm abstract_state set \<Rightarrow>
     'm abstract_state set \<Rightarrow> bool \<Rightarrow> 'm trace_run option" where
  "run_trace m mt needs_order t states =
     (if states = {} then Some (run_known states)
      else case t of
        TEmpty \<Rightarrow> Some (run_known states)
      | TEvent ev \<Rightarrow> Some (step_event m mt states ev)
      | TParameterCall _ _ _ \<Rightarrow> Some run_unknown
      | TTaskAwait _ \<Rightarrow> Some (run_known states)
      | TTaskStart _ body \<Rightarrow>
          Some (if has_parameter_calls body \<or> needs_order (action_set body) then run_unknown else run_known states)
      | TParallel branches \<Rightarrow>
          Some (if list_ex has_parameter_calls branches \<or> needs_order (action_set t) then run_unknown else run_known states)
      | TSeq parts \<Rightarrow> run_seq m mt needs_order parts states False
      | TChoice branches \<Rightarrow>
          if branches = [] then Some run_unknown else run_choice m mt needs_order branches states {} False
      | TRepeat inner \<Rightarrow>
          if \<not> has_parameter_calls inner \<and> \<not> needs_order (action_set inner) then Some (run_known states)
          else repeat_loop (\<lambda>pending. run_trace m mt needs_order (strip_repeats inner) pending) states states False
      | TUnknownOrder actions \<Rightarrow> Some (if needs_order actions then run_unknown else run_known states)
      | TWidened actions calls \<Rightarrow>
          Some (if calls \<noteq> [] \<or> needs_order actions then run_unknown else run_known states))"
| "run_seq m mt needs_order [] current incomplete = Some (RunStates current incomplete)"
| "run_seq m mt needs_order (part # parts) current incomplete =
     (case run_trace m mt needs_order part current of
        None \<Rightarrow> None
      | Some RunViolation \<Rightarrow> Some RunViolation
      | Some (RunStates next_states next_incomplete) \<Rightarrow>
          run_seq m mt needs_order parts next_states (incomplete \<or> next_incomplete))"
| "run_choice m mt needs_order [] states joined incomplete = Some (RunStates joined incomplete)"
| "run_choice m mt needs_order (branch # branches) states joined incomplete =
     (case run_trace m mt needs_order branch states of
        None \<Rightarrow> None
      | Some RunViolation \<Rightarrow> Some RunViolation
      | Some (RunStates next_states next_incomplete) \<Rightarrow>
          run_choice m mt needs_order branches states (joined \<union> next_states) (incomplete \<or> next_incomplete))"
  by pat_completeness auto
termination
  by (relation "measure (\<lambda>x. case x of Inl (_, _, _, t, _) \<Rightarrow> size t
      | Inr (Inl (_, _, _, ps, _)) \<Rightarrow> size_list size ps | Inr (Inr (_, _, _, ps, _)) \<Rightarrow> size_list size ps)")
    (auto simp: less_Suc_eq_le strip_repeats_size)

definition monitor_run ::
    "'m single_component_monitor \<Rightarrow> 't trace \<Rightarrow> effect_registry \<Rightarrow> type_facts \<Rightarrow> (prior_evidence_state \<Rightarrow> bool) \<Rightarrow>
     (effect_set \<Rightarrow> bool) \<Rightarrow> temporal_result option" where
  "monitor_run m trace r types final_rejects needs_order =
     (case run_trace m \<lparr>tm_registry = r, tm_types = types\<rparr> needs_order trace
        {\<lparr>as_monitor = pp_initial (sm_product m), as_prior = False\<rparr>} of
        None \<Rightarrow> None
      | Some RunViolation \<Rightarrow> Some Violation
      | Some (RunStates states incomplete) \<Rightarrow>
          if \<exists>s \<in> states. (case pp_component (sm_product m) (as_monitor s) of None \<Rightarrow> False | Some c \<Rightarrow> final_rejects c)
          then Some Violation
          else if incomplete then Some UnknownResult else Some Satisfied)"

definition require_before ::
    "(trace_spec_pattern \<Rightarrow> trace_spec_pattern \<Rightarrow> 'm prior_product) \<Rightarrow> 't trace \<Rightarrow> trace_spec_pattern \<Rightarrow> trace_spec_pattern \<Rightarrow>
     effect_registry \<Rightarrow> type_facts \<Rightarrow> temporal_result option" where
  "require_before compile_prior trace guard target r types =
     map_option
       (\<lambda>result. if result = Satisfied \<and> (\<exists>a \<in> action_set trace. matches_effect target a r types)
                 then NeedsOutcomeEvidence else result)
       (monitor_run \<lparr>sm_product = compile_prior guard target, sm_guard = guard, sm_target = target\<rparr> trace r types
          (\<lambda>s. s = PeRejected)
          (\<lambda>actions. \<exists>a \<in> actions. may_match_effect target a r types \<or> may_match_effect guard a r types))"

section \<open>A match is a possible match\<close>

lemma covers_same_action:
  assumes "covers c x y" "effect_action_ref x = Some a" "effect_action_ref y = Some b"
  shows "a = b"
  using assms by (cases x; cases y) (auto simp: covers_def applied_action_covers_iff)

lemma both_types_iff:
  "(case (x, y) of (ArgType t, ArgType u) \<Rightarrow> P t u | _ \<Rightarrow> False) \<longleftrightarrow> (\<exists>t u. x = ArgType t \<and> y = ArgType u \<and> P t u)"
  by (cases x; cases y) simp_all

lemma type_args_conflict_iff:
  "type_args_conflict types sg l x \<longleftrightarrow> (\<exists>i < min (length (ai_args l)) (length (ai_args x)).
     i < length (sg_effect_args sg) \<and> sg_effect_args sg ! i = KType \<and>
     (\<exists>t u. ai_args l ! i = ArgType t \<and> ai_args x ! i = ArgType u \<and>
        comparable_concrete types t u \<and> \<not> tf_assignable types t u \<and> \<not> tf_assignable types u t))"
  unfolding type_args_conflict_def list_ex_length both_types_iff
  by (auto simp: nth_enumerate_eq)

lemma covers_no_conflict:
  assumes "covers (coverage_of r types) (EAppliedAction l) (EAppliedAction x)" "action_signature r (ai_action l) = Some sg"
  shows "\<not> type_args_conflict types sg l x"
proof -
  have c: "\<forall>i < length (ai_args l). arg_kind_covers (coverage_of r types) (arg_kind (coverage_of r types) (ai_action l) i) (ai_args l ! i) (ai_args x ! i)"
    "length (ai_args l) = length (ai_args x)"
    using assms(1) by (auto simp: covers_def applied_action_covers_iff)
  have "tf_assignable types t u"
    if "i < length (ai_args l)" "i < length (sg_effect_args sg)" "sg_effect_args sg ! i = KType"
      "ai_args l ! i = ArgType t" "ai_args x ! i = ArgType u" for i t u
    using c(1) that assms(2)
    by (auto simp: arg_kind_covers_def arg_kind_def coverage_of_def same_type_def)
  then show ?thesis using c(2) by (auto simp: type_args_conflict_iff)
qed

lemma matches_may_match:
  assumes "tag_by_core r CeError \<in> {None, Some ERROR_TAG}" "matches_effect p e r types"
  shows "may_match_effect p e r types"
proof -
  let ?c = "coverage_of r types"
  from assms(2) obtain allowed where a: "allowed \<in> er_effects (tp_row p)" "covers ?c allowed e"
    by (auto simp: matches_effect_def)
  have "\<not> rows_disjoint ?c (row_closed {allowed}) (row_closed {e})"
  proof
    assume "rows_disjoint ?c (row_closed {allowed}) (row_closed {e})"
    then obtain t u where "known_tag ?c allowed = Some t" "known_tag ?c e = Some u" "\<not> tag_covers ?c t u"
      by (auto simp: rows_disjoint_def row_closed_def effects_disjoint_tags)
    then show False using covers_same_branch [OF a(2)] assms(1) by (simp add: coverage_of_def)
  qed
  moreover have "\<not> (case (effect_action_ref allowed, effect_action_ref e) of (Some l, Some x) \<Rightarrow> l \<noteq> x | _ \<Rightarrow> False)"
    using covers_same_action [OF a(2)] by (auto split: option.splits)
  moreover have "\<not> (case (allowed, e) of (EAppliedAction l, EAppliedAction x) \<Rightarrow> ai_action l = ai_action x \<and>
      (case action_signature r (ai_action l) of None \<Rightarrow> False | Some sg \<Rightarrow> type_args_conflict types sg l x) | _ \<Rightarrow> False)"
  proof (cases "\<exists>l x. allowed = EAppliedAction l \<and> e = EAppliedAction x")
    case True
    then obtain l x where "allowed = EAppliedAction l" "e = EAppliedAction x" by blast
    then show ?thesis using covers_no_conflict [of r types l x] a(2) by (auto split: option.splits)
  qed (auto split: effect.splits)
  ultimately have "candidate_may_match r types allowed e" by (simp only: candidate_may_match_def if_False not_False_eq_True)
  then show ?thesis using a(1) by (auto simp: may_match_effect_def)
qed

section \<open>Guarded runs\<close>

text \<open>
  What the monitor decides, for one pair of patterns: \<open>G\<close> and \<open>T\<close> say whether an action matches the guard
  and the target, the flag whether a guard has been requested already.
\<close>

fun guarded :: "('a \<Rightarrow> bool) \<Rightarrow> ('a \<Rightarrow> bool) \<Rightarrow> bool \<Rightarrow> 'a list \<Rightarrow> bool" where
  "guarded G T b [] = True"
| "guarded G T b (e # es) = ((T e \<longrightarrow> b) \<and> guarded G T (b \<or> G e) es)"

definition after :: "('a \<Rightarrow> bool) \<Rightarrow> bool \<Rightarrow> 'a list \<Rightarrow> bool" where
  "after G b xs \<longleftrightarrow> b \<or> (\<exists>e \<in> set xs. G e)"

lemma after_simps [simp]: "after G b [] = b" "after G b (e # es) = after G (b \<or> G e) es"
  "after G b (xs @ ys) = after G (after G b xs) ys"
  by (auto simp: after_def)

lemma guarded_append [simp]: "guarded G T b (xs @ ys) \<longleftrightarrow> guarded G T b xs \<and> guarded G T (after G b xs) ys"
  by (induction xs arbitrary: b) auto

lemma guarded_iff: "guarded G T b xs \<longleftrightarrow> (\<forall>i < length xs. T (xs ! i) \<longrightarrow> b \<or> (\<exists>j < i. G (xs ! j)))"
proof (induction xs arbitrary: b)
  case (Cons e es)
  show ?case
    unfolding guarded.simps Cons.IH by (simp add: All_less_Suc2 Ex_less_Suc2)
qed simp

lemma irrelevant_guarded:
  assumes "\<forall>e \<in> set xs. \<not> G e \<and> \<not> T e"
  shows "guarded G T b xs" "after G b xs = b"
  using assms by (induction xs arbitrary: b) auto

lemma guarded_shuffles:
  assumes "ys \<in> shuffles xs zs" "\<forall>e \<in> set zs. \<not> G e \<and> \<not> T e"
  shows "guarded G T b ys \<longleftrightarrow> guarded G T b xs"
  using assms
proof (induction xs zs arbitrary: ys b rule: shuffles.induct)
  case (1 zs) then show ?case using irrelevant_guarded(1) [of zs G T b] by simp
next
  case (3 x xs z zs)
  then show ?case by (auto simp: Cons_in_shuffles_iff)
qed simp

end
