(* ===== verification/Etas_Monitor_Facts.thy ===== *)
theory Etas_Monitor_Facts
  imports Etas_Monitor
begin

text \<open>
  That the monitor of trace specifications decides what it says: the contract of the compiled automaton,
  the locale \<open>prior_monitor\<close> with the correctness of the traversal, and the verdicts.
\<close>

section \<open>The contract of the compiled automaton\<close>

text \<open>
  What the monitor relies on: the compiled automaton starts active; an active state stays as it is unless
  the label of the missing evidence matches, and then the step rejects.
\<close>

definition prior_evidence_contract :: "'m prior_product \<Rightarrow> trace_spec_pattern \<Rightarrow> bool" where
  "prior_evidence_contract P target \<longleftrightarrow>
     pp_component P (pp_initial P) = Some PeActive \<and>
     (\<forall>n matched. pp_component P n = Some PeActive \<longrightarrow>
        (if matched target
         then (\<exists>states rejecting. pp_step P n matched = Some (states, rejecting) \<and>
                 (states = {} \<or> rejecting \<or> (\<exists>s \<in> states. pp_component P s = Some PeRejected)))
         else pp_step P n matched = Some ({n}, False)))"

text \<open>A trace has a run unless it has a choice without branches.\<close>

definition realisable :: "'t trace \<Rightarrow> bool" where
  "realisable t \<longleftrightarrow> TChoice [] \<notin> subtraces t"

lemma realisable_parts: "realisable t \<longleftrightarrow> t \<noteq> TChoice [] \<and> (\<forall>s \<in> set (trace_parts t). realisable s)"
  unfolding realisable_def by (subst subtraces.simps) auto

lemma realisable_strip: "realisable (strip_repeats t) \<longleftrightarrow> realisable t"
proof (induction t rule: strip_repeats.induct)
  case (1 nested)
  then show ?case using realisable_parts [of "TRepeat nested"] by simp
qed simp_all

lemma sync_strip: "star (sync (strip_repeats t)) = star (sync t)" "calls_of (strip_repeats t) = calls_of t" "tasks (strip_repeats t) = tasks t"
  by (induction t rule: strip_repeats.induct) simp_all

lemma star_nil [simp]: "[] \<in> star A"
  unfolding star_def by (auto intro: exI [of _ "[]"])

lemma foldr_conc_nonempty: "\<forall>A \<in> set As. A \<noteq> {} \<Longrightarrow> foldr conc As {[]} \<noteq> {}"
  by (induction As) (auto simp: conc_def)

lemma foldr_interleave_nonempty: "\<forall>A \<in> set As. A \<noteq> {} \<Longrightarrow> foldr interleave As {[]} \<noteq> {}"
proof (induction As)
  case (Cons A As)
  then obtain x y where "x \<in> A" "y \<in> foldr interleave As {[]}" by auto
  moreover have "x @ y \<in> shuffles x y" by (induction x) (auto intro: Cons_in_shuffles_leftI)
  ultimately have "x @ y \<in> interleave A (foldr interleave As {[]})" unfolding interleave_def [of A] by blast
  then show ?case by auto
qed simp

lemma realisable_sync: "realisable t \<Longrightarrow> sync t \<noteq> {}"
proof (induction t)
  case (TParallel ps)
  then have "\<forall>A \<in> set (map sync ps). A \<noteq> {}" using realisable_parts [of "TParallel ps"] by auto
  then show ?case using foldr_interleave_nonempty [of "map sync ps"] by simp
next
  case (TSeq ps)
  then have "\<forall>A \<in> set (map sync ps). A \<noteq> {}" using realisable_parts [of "TSeq ps"] by auto
  then show ?case using foldr_conc_nonempty [of "map sync ps"] by simp
next
  case (TChoice ps)
  then show ?case using realisable_parts [of "TChoice ps"] by (cases ps) auto
next
  case (TRepeat t)
  have "[] \<in> sync (TRepeat t)" by simp
  then show ?case by blast
qed auto

text \<open>
  The monitor of one pair of patterns, seen from its states: what it does on an event, and that a trace whose
  actions need no order has none that matters. The client lemmas are about the traversal only.
\<close>

locale prior_monitor =
  fixes m :: "'m single_component_monitor"
    and mt :: trace_spec_matcher
    and needs_order :: "effect_set \<Rightarrow> bool"
    and G :: "effect \<Rightarrow> bool"
    and T :: "effect \<Rightarrow> bool"
    and act :: "bool \<Rightarrow> 'm abstract_state"
  assumes act_prior: "as_prior (act b) = b"
    and needs_order_irrelevant: "\<not> needs_order A \<Longrightarrow> e \<in> A \<Longrightarrow> \<not> G e \<and> \<not> T e"
    and step_event_act: "B \<noteq> {} \<Longrightarrow>
      step_event m mt (act ` B) ev = run_unknown \<or>
      (if T (ev_action ev) \<and> False \<in> B then step_event m mt (act ` B) ev = RunViolation
       else step_event m mt (act ` B) ev = RunStates (act ` (\<lambda>b. b \<or> G (ev_action ev)) ` B) False)"
begin

definition complete :: "'t trace \<Rightarrow> bool set \<Rightarrow> bool set \<Rightarrow> bool" where
  "complete t B B' \<longleftrightarrow> B' \<noteq> {} \<and> calls_of t = {} \<and> (\<forall>e \<in> tasks t. \<not> G e \<and> \<not> T e) \<and>
     (\<forall>b \<in> B. \<forall>xs \<in> sync t. guarded G T b xs \<and> after G b xs \<in> B')"

definition reached_by :: "'t trace \<Rightarrow> bool set \<Rightarrow> bool set \<Rightarrow> bool" where
  "reached_by t B B' \<longleftrightarrow> (\<forall>b' \<in> B'. \<exists>b \<in> B. \<exists>xs \<in> sync t. after G b xs = b')"

definition violated :: "'t trace \<Rightarrow> bool set \<Rightarrow> bool" where
  "violated t B \<longleftrightarrow> (\<exists>b \<in> B. \<exists>xs \<in> sync t. \<not> guarded G T b xs)"

text \<open>What a result of the traversal means for the states it was started in.\<close>

definition run_ok :: "'t trace \<Rightarrow> bool set \<Rightarrow> 'm trace_run option \<Rightarrow> bool" where
  "run_ok t B r \<longleftrightarrow>
     r = Some RunViolation \<and> violated t B \<or>
     (\<exists>B' inc. r = Some (RunStates (act ` B') inc) \<and> reached_by t B B' \<and> (\<not> inc \<and> B \<noteq> {} \<longrightarrow> complete t B B'))"

lemma act_inj: "act a = act b \<longleftrightarrow> a = b"
proof
  assume "act a = act b"
  then have "as_prior (act a) = as_prior (act b)" by simp
  then show "a = b" by (simp add: act_prior)
qed simp

lemma act_image_empty [simp]: "act ` B = {} \<longleftrightarrow> B = {}"
  by simp

lemma run_ok_unknown: "run_ok t B (Some run_unknown)"
  unfolding run_ok_def run_unknown_def by (intro disjI2 exI [of _ "{}"] exI [of _ True]) (simp add: reached_by_def)

lemma run_ok_nothing: "run_ok t {} (Some (run_known {}))"
  unfolding run_ok_def run_known_def by (intro disjI2 exI [of _ "{}"] exI [of _ False]) (simp add: reached_by_def)

lemma irrelevant_complete:
  assumes "B \<noteq> {}" "calls_of t = {}" "\<not> needs_order (actions_of t)"
  shows "complete t B B"
proof -
  have i: "\<not> G e \<and> \<not> T e" if "e \<in> actions_of t" for e using needs_order_irrelevant [OF assms(3) that] .
  have "guarded G T b xs \<and> after G b xs = b" if "xs \<in> sync t" for b xs
    using irrelevant_guarded [of xs G T b] sync_actions [OF assms(2) that] i by blast
  then show ?thesis using assms(1,2) i tasks_actions [OF assms(2)] by (auto simp: complete_def)
qed

lemma irrelevant_reached:
  assumes "calls_of t = {}" "\<not> needs_order (actions_of t)" "sync t \<noteq> {}"
  shows "reached_by t B B"
proof -
  obtain xs where xs: "xs \<in> sync t" using assms(3) by blast
  have "after G b xs = b" for b
    using irrelevant_guarded(2) [of xs G T b] sync_actions [OF assms(1) xs] needs_order_irrelevant [OF assms(2)] by blast
  then show ?thesis using xs by (auto simp: reached_by_def)
qed

lemma run_ok_known:
  assumes "B \<noteq> {}" "calls_of t = {}" "\<not> needs_order (actions_of t)" "sync t \<noteq> {}"
  shows "run_ok t B (Some (run_known (act ` B)))"
  using irrelevant_complete [OF assms(1-3)] irrelevant_reached [OF assms(2-4)] by (auto simp: run_ok_def run_known_def)

lemma run_ok_event:
  assumes "B \<noteq> {}"
  shows "run_ok (TEvent ev) B (Some (step_event m mt (act ` B) ev))"
proof -
  let ?e = "ev_action ev"
  consider "step_event m mt (act ` B) ev = run_unknown"
    | "T ?e" "False \<in> B" "step_event m mt (act ` B) ev = RunViolation"
    | "\<not> (T ?e \<and> False \<in> B)" "step_event m mt (act ` B) ev = RunStates (act ` (\<lambda>b. b \<or> G ?e) ` B) False"
    using step_event_act [OF assms, of ev] by (auto split: if_splits)
  then show ?thesis
  proof cases
    case 1 then show ?thesis by (simp add: run_ok_unknown)
  next
    case 2 then show ?thesis by (auto simp: run_ok_def violated_def intro: bexI [of _ False])
  next
    case 3
    have "b" if "b \<in> B" "T ?e" for b using 3(1) that by (cases b) auto
    then have "complete (TEvent ev) B ((\<lambda>b. b \<or> G ?e) ` B)" using assms by (auto simp: complete_def)
    moreover have "reached_by (TEvent ev) B ((\<lambda>b. b \<or> G ?e) ` B)" by (auto simp: reached_by_def)
    ultimately show ?thesis unfolding run_ok_def 3(2) by blast
  qed
qed

end

context prior_monitor
begin

section \<open>Sequences\<close>

lemma complete_seq:
  assumes "complete p B B1" "complete (TSeq ps) B1 B2"
  shows "complete (TSeq (p # ps)) B B2"
proof -
  have "guarded G T b zs \<and> after G b zs \<in> B2" if "b \<in> B" "zs \<in> sync (TSeq (p # ps))" for b zs
  proof -
    from that(2) obtain xs ys where z: "zs = xs @ ys" "xs \<in> sync p" "ys \<in> sync (TSeq ps)"
      using conc_iff [of zs "sync p" "sync (TSeq ps)"] by auto
    have "guarded G T b xs" "after G b xs \<in> B1" using assms(1) that(1) z(2) unfolding complete_def by blast+
    moreover from this(2) have "guarded G T (after G b xs) ys" "after G (after G b xs) ys \<in> B2"
      using assms(2) z(3) unfolding complete_def by blast+
    ultimately show ?thesis using z(1) by simp
  qed
  moreover have "B2 \<noteq> {}" "calls_of (TSeq (p # ps)) = {}" "\<forall>e \<in> tasks (TSeq (p # ps)). \<not> G e \<and> \<not> T e"
    using assms unfolding complete_def by auto
  ultimately show ?thesis unfolding complete_def by blast
qed

lemma reached_byD: "reached_by t B B' \<Longrightarrow> b' \<in> B' \<Longrightarrow> \<exists>b \<in> B. \<exists>xs \<in> sync t. after G b xs = b'"
  unfolding reached_by_def by blast

lemma reached_seq:
  assumes "reached_by p B B1" "reached_by (TSeq ps) B1 B2"
  shows "reached_by (TSeq (p # ps)) B B2"
  unfolding reached_by_def
proof
  fix b' assume "b' \<in> B2"
  then obtain b1 ys where 1: "b1 \<in> B1" "ys \<in> sync (TSeq ps)" "after G b1 ys = b'" using assms(2) by (auto simp: reached_by_def)
  then obtain b xs where 2: "b \<in> B" "xs \<in> sync p" "after G b xs = b1" using assms(1) by (auto simp: reached_by_def)
  have "xs @ ys \<in> sync (TSeq (p # ps))" using 1 2 by (auto simp: conc_def)
  moreover have "after G b (xs @ ys) = b'" using 1 2 by simp
  ultimately show "\<exists>b \<in> B. \<exists>xs \<in> sync (TSeq (p # ps)). after G b xs = b'" using 2(1) by blast
qed

lemma violated_seq_first:
  assumes "violated p B" "sync (TSeq ps) \<noteq> {}"
  shows "violated (TSeq (p # ps)) B"
proof -
  obtain b xs ys where "b \<in> B" "xs \<in> sync p" "\<not> guarded G T b xs" "ys \<in> sync (TSeq ps)"
    using assms by (auto simp: violated_def)
  then have "xs @ ys \<in> sync (TSeq (p # ps))" "\<not> guarded G T b (xs @ ys)" by (auto simp: conc_def)
  then show ?thesis using \<open>b \<in> B\<close> unfolding violated_def by blast
qed

lemma violated_seq_rest:
  assumes "reached_by p B B1" "violated (TSeq ps) B1"
  shows "violated (TSeq (p # ps)) B"
proof -
  obtain b1 ys where 1: "b1 \<in> B1" "ys \<in> sync (TSeq ps)" "\<not> guarded G T b1 ys" using assms(2) by (auto simp: violated_def)
  then obtain b xs where 2: "b \<in> B" "xs \<in> sync p" "after G b xs = b1" using assms(1) by (auto simp: reached_by_def)
  have "xs @ ys \<in> sync (TSeq (p # ps))" "\<not> guarded G T b (xs @ ys)" using 1 2 by (auto simp: conc_def)
  then show ?thesis using 2(1) unfolding violated_def by blast
qed

text \<open>The result of a sequence that starts with the given completeness.\<close>

definition seq_ok :: "'t trace list \<Rightarrow> bool set \<Rightarrow> bool \<Rightarrow> 'm trace_run option \<Rightarrow> bool" where
  "seq_ok ps B inc r \<longleftrightarrow>
     r = Some RunViolation \<and> violated (TSeq ps) B \<or>
     (\<exists>B' inc'. r = Some (RunStates (act ` B') inc') \<and> reached_by (TSeq ps) B B' \<and>
        (\<not> inc' \<longrightarrow> \<not> inc \<and> (B \<noteq> {} \<longrightarrow> complete (TSeq ps) B B')))"

lemma run_seq_ok:
  assumes "\<And>p B. p \<in> set ps \<Longrightarrow> run_ok p B (run_trace m mt needs_order p (act ` B))" "\<forall>p \<in> set ps. realisable p"
  shows "seq_ok ps B inc (run_seq m mt needs_order ps (act ` B) inc)"
  using assms
proof (induction ps arbitrary: B inc)
  case Nil
  then show ?case by (auto simp: seq_ok_def reached_by_def complete_def)
next
  case (Cons p ps)
  have ne: "sync (TSeq ps) \<noteq> {}"
    using foldr_conc_nonempty [of "map sync ps"] Cons.prems(2) realisable_sync by auto
  from Cons.prems(1) [of p B] consider
      (viol) "run_trace m mt needs_order p (act ` B) = Some RunViolation" "violated p B"
    | (states) B1 i where "run_trace m mt needs_order p (act ` B) = Some (RunStates (act ` B1) i)" "reached_by p B B1"
        "\<not> i \<and> B \<noteq> {} \<longrightarrow> complete p B B1"
    by (auto simp: run_ok_def)
  then show ?case
  proof cases
    case viol
    then show ?thesis using violated_seq_first [OF _ ne] by (simp add: seq_ok_def del: run_trace.simps)
  next
    case states
    let ?r = "run_seq m mt needs_order ps (act ` B1) (inc \<or> i)"
    have e: "run_seq m mt needs_order (p # ps) (act ` B) inc = ?r" using states(1) by (simp del: run_trace.simps)
    have "seq_ok ps B1 (inc \<or> i) ?r" using Cons.IH Cons.prems by simp
    then consider "?r = Some RunViolation" "violated (TSeq ps) B1"
      | B' inc' where "?r = Some (RunStates (act ` B') inc')" "reached_by (TSeq ps) B1 B'"
        "\<not> inc' \<longrightarrow> \<not> (inc \<or> i) \<and> (B1 \<noteq> {} \<longrightarrow> complete (TSeq ps) B1 B')"
      by (auto simp: seq_ok_def)
    then show ?thesis
    proof cases
      case 1 then show ?thesis using violated_seq_rest [OF states(2)] unfolding seq_ok_def e by blast
    next
      case 2
      have "complete (TSeq (p # ps)) B B'" if "\<not> inc'" "B \<noteq> {}"
      proof -
        have "complete p B B1" using states(3) 2(3) that by simp
        moreover from this have "complete (TSeq ps) B1 B'" using 2(3) that by (simp add: complete_def)
        ultimately show ?thesis by (rule complete_seq)
      qed
      then show ?thesis unfolding seq_ok_def e using 2 reached_seq [OF states(2) 2(2)] by blast
    qed
  qed
qed

section \<open>Choices\<close>

definition choice_ok :: "'t trace list \<Rightarrow> bool set \<Rightarrow> bool set \<Rightarrow> bool \<Rightarrow> 'm trace_run option \<Rightarrow> bool" where
  "choice_ok ps B J inc r \<longleftrightarrow>
     r = Some RunViolation \<and> (\<exists>p \<in> set ps. violated p B) \<or>
     (\<exists>J' inc'. r = Some (RunStates (act ` J') inc') \<and> J \<subseteq> J' \<and>
        (\<forall>b' \<in> J' - J. \<exists>p \<in> set ps. \<exists>b \<in> B. \<exists>xs \<in> sync p. after G b xs = b') \<and>
        (\<not> inc' \<longrightarrow> \<not> inc \<and> (B \<noteq> {} \<longrightarrow> (\<forall>p \<in> set ps. \<exists>B'. B' \<subseteq> J' \<and> complete p B B'))))"

lemma run_choice_ok:
  assumes "\<And>p. p \<in> set ps \<Longrightarrow> run_ok p B (run_trace m mt needs_order p (act ` B))"
  shows "choice_ok ps B J inc (run_choice m mt needs_order ps (act ` B) (act ` J) inc)"
  using assms
proof (induction ps arbitrary: J inc)
  case Nil
  then show ?case by (auto simp: choice_ok_def)
next
  case (Cons p ps)
  from Cons.prems [of p] consider
      (viol) "run_trace m mt needs_order p (act ` B) = Some RunViolation" "violated p B"
    | (states) B1 i where "run_trace m mt needs_order p (act ` B) = Some (RunStates (act ` B1) i)" "reached_by p B B1"
        "\<not> i \<and> B \<noteq> {} \<longrightarrow> complete p B B1"
    by (auto simp: run_ok_def)
  then show ?case
  proof cases
    case viol
    then show ?thesis by (simp add: choice_ok_def del: run_trace.simps)
  next
    case states
    let ?r = "run_choice m mt needs_order ps (act ` B) (act ` (J \<union> B1)) (inc \<or> i)"
    have e: "run_choice m mt needs_order (p # ps) (act ` B) (act ` J) inc = ?r"
      using states(1) by (simp add: image_Un del: run_trace.simps)
    have "choice_ok ps B (J \<union> B1) (inc \<or> i) ?r" using Cons.IH Cons.prems by simp
    then consider "?r = Some RunViolation" "\<exists>p \<in> set ps. violated p B"
      | J' inc' where "?r = Some (RunStates (act ` J') inc')" "J \<union> B1 \<subseteq> J'"
        "\<forall>b' \<in> J' - (J \<union> B1). \<exists>p \<in> set ps. \<exists>b \<in> B. \<exists>xs \<in> sync p. after G b xs = b'"
        "\<not> inc' \<longrightarrow> \<not> (inc \<or> i) \<and> (B \<noteq> {} \<longrightarrow> (\<forall>p \<in> set ps. \<exists>B'. B' \<subseteq> J' \<and> complete p B B'))"
      by (auto simp: choice_ok_def)
    then show ?thesis
    proof cases
      case 1 then show ?thesis unfolding choice_ok_def e by auto
    next
      case 2
      have "\<forall>b' \<in> J' - J. \<exists>q \<in> set (p # ps). \<exists>b \<in> B. \<exists>xs \<in> sync q. after G b xs = b'"
        using 2(3) states(2) by (auto simp: reached_by_def)
      moreover have "\<exists>B'. B' \<subseteq> J' \<and> complete q B B'" if "\<not> inc'" "B \<noteq> {}" "q \<in> set (p # ps)" for q
      proof (cases "q = p")
        case True
        then show ?thesis using 2(2,4) states(3) that by (intro exI [of _ B1]) simp
      next
        case False
        then show ?thesis using 2(4) that by simp
      qed
      ultimately show ?thesis
        unfolding choice_ok_def e using 2(1,2,4)
        by - (rule disjI2, rule exI [of _ J'], rule exI [of _ inc'], simp)
    qed
  qed
qed

lemma run_ok_choice:
  assumes "choice_ok ps B {} False r" "ps \<noteq> []"
  shows "run_ok (TChoice ps) B r"
proof -
  from assms(1) consider "r = Some RunViolation" "\<exists>p \<in> set ps. violated p B"
    | J' inc' where "r = Some (RunStates (act ` J') inc')"
      "\<forall>b' \<in> J'. \<exists>p \<in> set ps. \<exists>b \<in> B. \<exists>xs \<in> sync p. after G b xs = b'"
      "\<not> inc' \<and> B \<noteq> {} \<longrightarrow> (\<forall>p \<in> set ps. \<exists>B'. B' \<subseteq> J' \<and> complete p B B')"
    by (auto simp: choice_ok_def)
  then show ?thesis
  proof cases
    case 1 then show ?thesis by (auto simp: run_ok_def violated_def)
  next
    case 2
    have "complete (TChoice ps) B J'" if "\<not> inc'" "B \<noteq> {}"
    proof -
      have c: "\<forall>p \<in> set ps. \<exists>B'. B' \<subseteq> J' \<and> complete p B B'" using 2(3) that by simp
      then have "J' \<noteq> {}" using assms(2) by (cases ps) (auto simp: complete_def)
      then show ?thesis using c by (fastforce simp: complete_def)
    qed
    moreover have "reached_by (TChoice ps) B J'" using 2(2) by (fastforce simp: reached_by_def)
    ultimately show ?thesis unfolding run_ok_def using 2(1) by blast
  qed
qed

section \<open>Repetitions\<close>

definition closed_under :: "'t trace \<Rightarrow> bool set \<Rightarrow> bool set \<Rightarrow> bool" where
  "closed_under t D R \<longleftrightarrow> (\<forall>b \<in> D. \<forall>xs \<in> sync t. guarded G T b xs \<and> after G b xs \<in> R) \<and>
     (D \<noteq> {} \<longrightarrow> calls_of t = {} \<and> (\<forall>e \<in> tasks t. \<not> G e \<and> \<not> T e))"

lemma closed_under_star:
  assumes "closed_under t R R" "b \<in> R" "xs \<in> star (sync t)"
  shows "guarded G T b xs \<and> after G b xs \<in> R"
proof -
  obtain ys where ys: "xs = concat ys" "set ys \<subseteq> sync t" using assms(3) by (auto simp: star_def)
  from ys(2) assms(2) have "guarded G T b (concat ys) \<and> after G b (concat ys) \<in> R"
  proof (induction ys arbitrary: b)
    case (Cons y ys)
    have "guarded G T b y" "after G b y \<in> R" using assms(1) Cons.prems by (auto simp: closed_under_def)
    moreover have "guarded G T (after G b y) (concat ys)" "after G (after G b y) (concat ys) \<in> R"
      using Cons.IH [of "after G b y"] Cons.prems calculation by auto
    ultimately show ?case by simp
  qed simp
  then show ?thesis using ys(1) by simp
qed

lemma star_append: "xs \<in> star A \<Longrightarrow> ys \<in> A \<Longrightarrow> xs @ ys \<in> star A"
proof -
  assume "xs \<in> star A" "ys \<in> A"
  then obtain us where "xs = concat us" "set us \<subseteq> A" by (auto simp: star_def)
  then have "xs @ ys = concat (us @ [ys])" "set (us @ [ys]) \<subseteq> A" using \<open>ys \<in> A\<close> by auto
  then show ?thesis unfolding star_def by blast
qed

lemma reached_repeat:
  assumes "reached_by (TRepeat t) S R" "P \<subseteq> R" "reached_by t P N"
  shows "reached_by (TRepeat t) S (R \<union> N)"
  unfolding reached_by_def
proof
  fix b' assume b': "b' \<in> R \<union> N"
  show "\<exists>b \<in> S. \<exists>xs \<in> sync (TRepeat t). after G b xs = b'"
  proof (cases "b' \<in> R")
    case True
    then show ?thesis using assms(1) by (auto simp: reached_by_def)
  next
    case False
    then obtain b1 ys where 1: "b1 \<in> P" "ys \<in> sync t" "after G b1 ys = b'" using b' assms(3) by (auto simp: reached_by_def)
    have "b1 \<in> R" using 1(1) assms(2) by blast
    from reached_byD [OF assms(1) this] obtain b xs where 2: "b \<in> S" "xs \<in> star (sync t)" "after G b xs = b1"
      unfolding sync.simps by blast
    have "xs @ ys \<in> sync (TRepeat t)" "after G b (xs @ ys) = b'" using 1 2 star_append [OF 2(2) 1(2)] by simp_all
    then show ?thesis using 2(1) by blast
  qed
qed

lemma violated_repeat:
  assumes "reached_by (TRepeat t) S R" "P \<subseteq> R" "violated t P"
  shows "violated (TRepeat t) S"
proof -
  obtain b1 ys where 1: "b1 \<in> P" "ys \<in> sync t" "\<not> guarded G T b1 ys" using assms(3) by (auto simp: violated_def)
  have "b1 \<in> R" using 1(1) assms(2) by blast
  from reached_byD [OF assms(1) this] obtain b xs where 2: "b \<in> S" "xs \<in> star (sync t)" "after G b xs = b1"
    unfolding sync.simps by blast
  have "xs @ ys \<in> sync (TRepeat t)" "\<not> guarded G T b (xs @ ys)" using 1 2 star_append [OF 2(2) 1(2)] by simp_all
  then show ?thesis using 2(1) unfolding violated_def by blast
qed

definition loop_ok :: "'t trace \<Rightarrow> bool set \<Rightarrow> bool set \<Rightarrow> bool \<Rightarrow> 'm trace_run option \<Rightarrow> bool" where
  "loop_ok t S R inc r \<longleftrightarrow>
     r = Some RunViolation \<and> violated (TRepeat t) S \<or>
     (\<exists>R' inc'. r = Some (RunStates (act ` R') inc') \<and> R \<subseteq> R' \<and> reached_by (TRepeat t) S R' \<and>
        (\<not> inc' \<longrightarrow> \<not> inc \<and> closed_under t R' R'))"

lemma repeat_loop_ok:
  assumes "\<And>B. run_ok t B (body (act ` B))"
    and "P \<subseteq> R" "reached_by (TRepeat t) S R" "\<not> inc \<Longrightarrow> closed_under t (R - P) R"
  shows "loop_ok t S R inc (repeat_loop body (act ` R) (act ` P) inc)"
  using assms(2-)
proof (induction "card (UNIV - R) + (if P = {} then 0 else 1)" arbitrary: R P inc rule: less_induct)
  case less
  show ?case
  proof (cases "P = {}")
    case True
    then show ?thesis using less.prems by (subst repeat_loop.simps) (auto simp: loop_ok_def)
  next
    case False
    from assms(1) [of P] consider
        (viol) "body (act ` P) = Some RunViolation" "violated t P"
      | (states) N i where "body (act ` P) = Some (RunStates (act ` N) i)" "reached_by t P N" "\<not> i \<longrightarrow> complete t P N"
      using False by (auto simp: run_ok_def)
    then show ?thesis
    proof cases
      case viol
      then show ?thesis
        using violated_repeat [OF less.prems(2,1)] False by (subst repeat_loop.simps) (simp add: loop_ok_def)
    next
      case states
      let ?R = "R \<union> N" and ?P = "N - R"
      let ?r = "repeat_loop body (act ` ?R) (act ` ?P) (inc \<or> i)"
      have im: "act ` R \<union> (act ` N - act ` R) = act ` ?R" "act ` N - act ` R = act ` ?P"
        using act_inj by auto
      have e: "repeat_loop body (act ` R) (act ` P) inc = ?r"
        using False states(1) by (subst repeat_loop.simps) (simp add: im image_Un)
      have "closed_under t (?R - ?P) ?R" if "\<not> (inc \<or> i)"
      proof -
        have "closed_under t (R - P) R" "complete t P N" using less.prems(3) states(3) that by simp_all
        moreover have "?R - ?P \<subseteq> (R - P) \<union> P" by auto
        ultimately show ?thesis unfolding closed_under_def complete_def using False by blast
      qed
      moreover have "card (UNIV - ?R) + (if ?P = {} then 0 else 1) < card (UNIV - R) + (if P = {} then 0 else 1)"
      proof (cases "?P = {}")
        case True
        then have "?R = R" by auto
        then show ?thesis using True False by simp
      next
        case False
        then have "UNIV - ?R \<subset> UNIV - R" by auto
        then have "card (UNIV - ?R) < card (UNIV - R)" by (intro psubset_card_mono) simp_all
        then show ?thesis using \<open>P \<noteq> {}\<close> by simp
      qed
      ultimately have "loop_ok t S ?R (inc \<or> i) ?r"
        using less.hyps [of ?R ?P "inc \<or> i"] reached_repeat [OF less.prems(2,1) states(2)] by blast
      then show ?thesis unfolding loop_ok_def e by auto
    qed
  qed
qed

lemma run_ok_loop:
  assumes "loop_ok t B B False r" "star (sync t) = star (sync u)" "calls_of t = calls_of u" "tasks t = tasks u"
  shows "run_ok (TRepeat u) B r"
proof -
  have c: "complete (TRepeat u) B R'" if "closed_under t R' R'" "B \<subseteq> R'" "B \<noteq> {}" for R'
    using that closed_under_star [OF that(1)] assms(2-4) by (auto simp: complete_def closed_under_def)
  have r: "reached_by (TRepeat t) = reached_by (TRepeat u)" "violated (TRepeat t) = violated (TRepeat u)"
    using assms(2) by (simp_all add: fun_eq_iff reached_by_def violated_def)
  show ?thesis using assms(1) c unfolding loop_ok_def run_ok_def r by blast
qed

end

context prior_monitor
begin

section \<open>Every trace\<close>

lemma run_trace_empty: "run_trace m mt needs_order t {} = Some (run_known {})"
  by simp

lemma run_trace_ok: "realisable t \<Longrightarrow> run_ok t B (run_trace m mt needs_order t (act ` B))"
proof (induction "size t" arbitrary: t B rule: less_induct)
  case less
  note ne = realisable_sync [OF less.prems]
  have IH: "run_ok p C (run_trace m mt needs_order p (act ` C))" if "p \<in> set (trace_parts t)" for p C
    using less.hyps [OF trace_parts_smaller [OF that]] realisable_parts [of t] less.prems that by blast
  show ?case
  proof (cases "B = {}")
    case True
    then show ?thesis using run_ok_nothing [of t] by (simp add: run_trace_empty del: run_trace.simps)
  next
    case B: False
    have known: "run_ok t B (Some (if has_parameter_calls t \<or> needs_order (action_set t) then run_unknown else run_known (act ` B)))"
      using run_ok_unknown [of t B] run_ok_known [OF B _ _ ne] by (simp add: has_parameter_calls_keys action_set_eq)
    show ?thesis
    proof (cases t)
      case TEmpty
      then show ?thesis using run_ok_known [OF B] B
        by (auto simp: run_ok_def run_known_def complete_def reached_by_def)
    next
      case (TEvent ev)
      then show ?thesis using run_ok_event [OF B, of ev] B by simp
    next
      case (TParameterCall x n sp)
      then show ?thesis using run_ok_unknown B by simp
    next
      case (TParallel ps)
      have "list_ex has_parameter_calls ps \<longleftrightarrow> has_parameter_calls t"
        by (auto simp: TParallel has_parameter_calls_keys list_ex_iff)
      then show ?thesis using known B by (simp add: TParallel)
    next
      case (TTaskStart i b)
      have "has_parameter_calls t \<longleftrightarrow> has_parameter_calls b" "action_set t = action_set b"
        by (simp_all add: TTaskStart has_parameter_calls_keys action_set_eq)
      then show ?thesis using known B by (simp add: TTaskStart)
    next
      case (TTaskAwait i)
      then show ?thesis using B by (auto simp: run_ok_def run_known_def complete_def reached_by_def)
    next
      case (TSeq ps)
      have "seq_ok ps B False (run_seq m mt needs_order ps (act ` B) False)"
        by (rule run_seq_ok) (use IH realisable_parts [of t] less.prems in \<open>auto simp: TSeq simp del: run_trace.simps\<close>)
      then have "run_ok t B (run_seq m mt needs_order ps (act ` B) False)" unfolding seq_ok_def run_ok_def TSeq by blast
      then show ?thesis using B by (simp add: TSeq)
    next
      case (TChoice ps)
      have "ps \<noteq> []" using realisable_parts [of t] less.prems TChoice by auto
      moreover have "choice_ok ps B {} False (run_choice m mt needs_order ps (act ` B) (act ` {}) False)"
        by (rule run_choice_ok) (use IH in \<open>simp add: TChoice del: run_trace.simps\<close>)
      ultimately show ?thesis using run_ok_choice [of ps B] B by (simp add: TChoice)
    next
      case (TRepeat inner)
      let ?i = "strip_repeats inner"
      have "size ?i < size t" using strip_repeats_size [of inner] by (simp add: TRepeat)
      moreover have "realisable ?i" using realisable_parts [of t] less.prems by (simp add: TRepeat realisable_strip)
      ultimately have "run_ok ?i C (run_trace m mt needs_order ?i (act ` C))" for C using less.hyps by blast
      moreover have "reached_by (TRepeat ?i) B B"
        unfolding reached_by_def by (intro ballI) (rule bexI, rule bexI [of _ "[]"], simp_all)
      ultimately have "loop_ok ?i B B False (repeat_loop (run_trace m mt needs_order ?i) (act ` B) (act ` B) False)"
        by (intro repeat_loop_ok) (simp_all add: closed_under_def)
      then have "run_ok t B (repeat_loop (run_trace m mt needs_order ?i) (act ` B) (act ` B) False)"
        unfolding TRepeat by (rule run_ok_loop) (simp_all add: sync_strip)
      moreover have "has_parameter_calls t \<longleftrightarrow> has_parameter_calls inner" "action_set t = action_set inner"
        by (simp_all add: TRepeat has_parameter_calls_keys action_set_eq)
      ultimately show ?thesis using known B by (subst run_trace.simps) (auto simp: TRepeat simp del: run_trace.simps)
    next
      case (TUnknownOrder s)
      have "\<not> has_parameter_calls t" "action_set t = s" by (simp_all add: TUnknownOrder has_parameter_calls_keys action_set_eq)
      then show ?thesis using known B by (simp add: TUnknownOrder)
    next
      case (TWidened s cs)
      have "has_parameter_calls t \<longleftrightarrow> cs \<noteq> []" "action_set t = s" by (simp_all add: TWidened has_parameter_calls_keys action_set_eq)
      then show ?thesis using known B by (simp add: TWidened)
    qed
  qed
qed

text \<open>The whole monitor, started without a guard.\<close>

lemma run_from_start:
  assumes "realisable t"
  shows "(\<exists>xs \<in> executions t. \<not> guarded G T False xs) \<and> run_trace m mt needs_order t {act False} = Some RunViolation \<or>
    (\<exists>B inc. run_trace m mt needs_order t {act False} = Some (RunStates (act ` B) inc) \<and>
       (\<not> inc \<longrightarrow> calls_of t = {} \<and> (\<forall>xs \<in> executions t. guarded G T False xs)))"
proof -
  have "run_ok t {False} (run_trace m mt needs_order t (act ` {False}))" by (rule run_trace_ok [OF assms])
  then have ok: "run_ok t {False} (run_trace m mt needs_order t {act False})" by (simp del: run_trace.simps)
  have sub: "sync t \<subseteq> executions t"
    unfolding executions_def interleave_def by (force intro: bexI [of _ "[]"])
  have all: "guarded G T False ys" if c: "complete t {False} B'" and y: "ys \<in> executions t" for B' ys
  proof -
    obtain xs zs where "xs \<in> sync t" "set zs \<subseteq> tasks t" "ys \<in> shuffles xs zs"
      using y by (auto simp: executions_def interleave_def)
    then show ?thesis using c guarded_shuffles [of ys xs zs G T False] by (auto simp: complete_def)
  qed
  have v: "\<exists>xs \<in> executions t. \<not> guarded G T False xs" if "violated t {False}"
    using that sub by (auto simp: violated_def)
  from ok consider "run_trace m mt needs_order t {act False} = Some RunViolation" "violated t {False}"
    | B inc where "run_trace m mt needs_order t {act False} = Some (RunStates (act ` B) inc)" "\<not> inc \<longrightarrow> complete t {False} B"
    by (auto simp: run_ok_def simp del: run_trace.simps)
  then show ?thesis
  proof cases
    case 1 then show ?thesis using v by simp
  next
    case 2
    then have "\<not> inc \<longrightarrow> calls_of t = {} \<and> (\<forall>xs \<in> executions t. guarded G T False xs)"
      using all [of B] by (simp add: complete_def)
    with 2(1) show ?thesis by blast
  qed
qed

end

section \<open>The monitor of a pair of patterns\<close>

definition monitor_state :: "'m prior_product \<Rightarrow> bool \<Rightarrow> 'm abstract_state" where
  "monitor_state P b = \<lparr>as_monitor = pp_initial P, as_prior = b\<rparr>"

definition order_matters :: "trace_spec_pattern \<Rightarrow> trace_spec_pattern \<Rightarrow> effect_registry \<Rightarrow> type_facts \<Rightarrow> effect_set \<Rightarrow> bool" where
  "order_matters guard target r types actions \<longleftrightarrow>
     (\<exists>a \<in> actions. may_match_effect target a r types \<or> may_match_effect guard a r types)"

lemma step_state_contract:
  assumes "prior_evidence_contract P target"
  shows "step_state \<lparr>sm_product = P, sm_guard = guard, sm_target = target\<rparr> \<lparr>tm_registry = r, tm_types = types\<rparr> ev (monitor_state P b) =
    (if matches_effect target (ev_action ev) r types \<and> \<not> b then RunViolation
     else RunStates {monitor_state P (b \<or> matches_effect guard (ev_action ev) r types)} False)"
proof -
  let ?l = "label_matches \<lparr>tm_registry = r, tm_types = types\<rparr> ev b"
  have l: "?l target \<longleftrightarrow> matches_effect target (ev_action ev) r types \<and> \<not> b" by (simp add: label_matches_def matches_event_def)
  have "(if ?l target then (\<exists>states rejecting. pp_step P (pp_initial P) ?l = Some (states, rejecting) \<and>
      (states = {} \<or> rejecting \<or> (\<exists>s \<in> states. pp_component P s = Some PeRejected)))
    else pp_step P (pp_initial P) ?l = Some ({pp_initial P}, False)) \<and> pp_component P (pp_initial P) = Some PeActive"
    using assms unfolding prior_evidence_contract_def by blast
  then show ?thesis unfolding l by (auto simp: step_state_def monitor_state_def matches_event_def split: if_splits)
qed

lemma prior_monitor_of_contract:
  assumes "prior_evidence_contract P target" "tag_by_core r CeError \<in> {None, Some ERROR_TAG}"
  shows "prior_monitor \<lparr>sm_product = P, sm_guard = guard, sm_target = target\<rparr> \<lparr>tm_registry = r, tm_types = types\<rparr>
    (order_matters guard target r types) (\<lambda>e. matches_effect guard e r types) (\<lambda>e. matches_effect target e r types) (monitor_state P)"
proof
  fix b show "as_prior (monitor_state P b) = b" by (simp add: monitor_state_def)
next
  fix A e assume "\<not> order_matters guard target r types A" "e \<in> A"
  then show "\<not> matches_effect guard e r types \<and> \<not> matches_effect target e r types"
    using matches_may_match [OF assms(2)] by (auto simp: order_matters_def)
next
  fix B :: "bool set" and ev :: action_event
  assume B: "B \<noteq> {}"
  let ?m = "\<lparr>sm_product = P, sm_guard = guard, sm_target = target\<rparr>" and ?mt = "\<lparr>tm_registry = r, tm_types = types\<rparr>"
  let ?T = "matches_effect target (ev_action ev) r types" and ?G = "matches_effect guard (ev_action ev) r types"
  note step = step_state_contract [OF assms(1), where guard = guard and r = r and types = types and ev = ev]
  have viol: "(\<exists>s \<in> monitor_state P ` B. step_state ?m ?mt ev s = RunViolation) \<longleftrightarrow> ?T \<and> False \<in> B"
  proof -
    have v: "step_state ?m ?mt ev (monitor_state P b) = RunViolation \<longleftrightarrow> ?T \<and> \<not> b" for b unfolding step by simp
    have "(\<exists>b \<in> B. \<not> b) \<longleftrightarrow> False \<in> B" by (metis (full_types))
    then show ?thesis by (auto simp: v)
  qed
  have st: "(\<Union>s \<in> monitor_state P ` B. run_states (step_state ?m ?mt ev s)) = monitor_state P ` (\<lambda>b. b \<or> ?G) ` B"
    "\<not> (\<exists>s \<in> monitor_state P ` B. run_incomplete (step_state ?m ?mt ev s))" if "\<not> (?T \<and> False \<in> B)"
  proof -
    have "step_state ?m ?mt ev (monitor_state P b) = RunStates {monitor_state P (b \<or> ?G)} False" if "b \<in> B" for b
      using \<open>\<not> (?T \<and> False \<in> B)\<close> that unfolding step by (cases b) auto
    then show "(\<Union>s \<in> monitor_state P ` B. run_states (step_state ?m ?mt ev s)) = monitor_state P ` (\<lambda>b. b \<or> ?G) ` B"
      "\<not> (\<exists>s \<in> monitor_state P ` B. run_incomplete (step_state ?m ?mt ev s))" by auto
  qed
  show "step_event ?m ?mt (monitor_state P ` B) ev = run_unknown \<or>
    (if ?T \<and> False \<in> B then step_event ?m ?mt (monitor_state P ` B) ev = RunViolation
     else step_event ?m ?mt (monitor_state P ` B) ev = RunStates (monitor_state P ` (\<lambda>b. b \<or> ?G) ` B) False)"
    unfolding step_event_def viol using st by simp
qed

text \<open>The automaton that the contract describes, with the state of its only component as product state.\<close>

definition reference_product :: "trace_spec_pattern \<Rightarrow> trace_spec_pattern \<Rightarrow> prior_evidence_state prior_product" where
  "reference_product guard target =
     \<lparr>pp_initial = PeActive,
      pp_step = (\<lambda>s matched. if s = PeActive \<and> \<not> matched target then Some ({s}, False) else Some ({PeRejected}, True)),
      pp_component = Some\<rparr>"

lemma reference_product_contract: "prior_evidence_contract (reference_product guard target) target"
  by (auto simp: prior_evidence_contract_def reference_product_def)

lemma core_registry_error_tag: "tag_by_core (with_standard_effects_from std) CeError \<in> {None, Some ERROR_TAG}"
  using tag_by_core_id [OF with_standard_effects_wf, of std CeError]
  by (cases "tag_by_core (with_standard_effects_from std) CeError") simp_all

interpretation reference_monitor: prior_monitor
  "\<lparr>sm_product = reference_product guard target, sm_guard = guard, sm_target = target\<rparr>"
  "\<lparr>tm_registry = with_standard_effects_from std, tm_types = types\<rparr>"
  "order_matters guard target (with_standard_effects_from std) types"
  "\<lambda>e. matches_effect guard e (with_standard_effects_from std) types"
  "\<lambda>e. matches_effect target e (with_standard_effects_from std) types"
  "monitor_state (reference_product guard target)" for guard target std types
  by (rule prior_monitor_of_contract [OF reference_product_contract core_registry_error_tag])

section \<open>Properties\<close>

text \<open>C22. A pattern that matches an effect may match it: the monitor never treats an action as
  irrelevant that matches the guard or the target. The registry must find the error effect, when it
  finds one, under its reserved tag.\<close>

theorem match_is_possible_match:
  assumes "tag_by_core r CeError \<in> {None, Some ERROR_TAG}" "matches_effect p e r types"
  shows "may_match_effect p e r types"
  by (rule matches_may_match [OF assms])

theorem match_is_possible_match_witness:
  "may_match_effect \<lparr>tp_row = row_closed {EAction (ActionRef 1 2)}, tp_label = [], tp_arg_bounds = []\<rparr> (EAction (ActionRef 1 2))
     (with_standard_effects_from \<lparr>sr_symbols = [], sr_lookup = (\<lambda>_. None)\<rparr>)
     \<lparr>tf_assignable = (=), tf_kind = (\<lambda>_. None), tf_satisfies_spec = (\<lambda>_ _ _. False)\<rparr>"
  by (rule match_is_possible_match [OF core_registry_error_tag])
    (simp add: matches_effect_def row_closed_def covers_def bounds_match_def)

text \<open>C2. The monitor always gives a verdict, and its verdicts about a trace are right: when it is
  satisfied, no run requests an action that matches the target; when it asks for outcome evidence, in
  every run each such request comes after one that matches the guard; when it reports a violation,
  some run requests the target with no guard before it. The trace has no choice without branches, the
  compiled automaton keeps its contract and the registry finds the error effect, if at all, under its
  reserved tag.\<close>

theorem monitor_verdicts:
  assumes "prior_evidence_contract (compile_prior guard target) target"
    "tag_by_core r CeError \<in> {None, Some ERROR_TAG}" "realisable trace"
  shows "\<exists>v. require_before compile_prior trace guard target r types = Some v \<and>
    (v = Satisfied \<longrightarrow> (\<forall>xs \<in> executions trace. \<forall>e \<in> set xs. \<not> matches_effect target e r types)) \<and>
    (v = NeedsOutcomeEvidence \<longrightarrow> (\<forall>xs \<in> executions trace. \<forall>i < length xs.
       matches_effect target (xs ! i) r types \<longrightarrow> (\<exists>j < i. matches_effect guard (xs ! j) r types))) \<and>
    (v = Violation \<longrightarrow> (\<exists>xs \<in> executions trace. \<exists>i < length xs.
       matches_effect target (xs ! i) r types \<and> (\<forall>j < i. \<not> matches_effect guard (xs ! j) r types)))"
proof -
  let ?P = "compile_prior guard target"
  let ?m = "\<lparr>sm_product = ?P, sm_guard = guard, sm_target = target\<rparr>" and ?mt = "\<lparr>tm_registry = r, tm_types = types\<rparr>"
  let ?G = "\<lambda>e. matches_effect guard e r types" and ?T = "\<lambda>e. matches_effect target e r types"
  have u: "(\<lambda>actions. \<exists>a \<in> actions. may_match_effect target a r types \<or> may_match_effect guard a r types) =
      order_matters guard target r types" by (simp add: fun_eq_iff order_matters_def)
  note run = prior_monitor.run_from_start [OF prior_monitor_of_contract [OF assms(1,2), of guard types] assms(3)]
  have act: "pp_component ?P (pp_initial ?P) = Some PeActive" using assms(1) by (simp add: prior_evidence_contract_def)
  let ?run = "run_trace ?m ?mt (order_matters guard target r types) trace {monitor_state ?P False}"
  have start: "require_before compile_prior trace guard target r types =
      map_option (\<lambda>result. if result = Satisfied \<and> (\<exists>a \<in> actions_of trace. ?T a) then NeedsOutcomeEvidence else result)
       (case ?run of None \<Rightarrow> None | Some RunViolation \<Rightarrow> Some Violation
        | Some (RunStates states incomplete) \<Rightarrow>
            if \<exists>s \<in> states. (case pp_component ?P (as_monitor s) of None \<Rightarrow> False | Some c \<Rightarrow> c = PeRejected) then Some Violation
            else if incomplete then Some UnknownResult else Some Satisfied)"
    unfolding require_before_def monitor_run_def u monitor_state_def action_set_eq single_component_monitor.select_convs
    by (rule refl)
  from run consider
      (viol) "?run = Some RunViolation" "\<exists>xs \<in> executions trace. \<not> guarded ?G ?T False xs"
    | (states) B inc where "?run = Some (RunStates (monitor_state ?P ` B) inc)"
        "\<not> inc \<longrightarrow> calls_of trace = {} \<and> (\<forall>xs \<in> executions trace. guarded ?G ?T False xs)" by blast
  then show ?thesis
  proof cases
    case viol
    then show ?thesis unfolding start by (auto simp: guarded_iff simp del: run_trace.simps)
  next
    case states
    have "\<not> (\<exists>s \<in> monitor_state ?P ` B. (case pp_component ?P (as_monitor s) of None \<Rightarrow> False | Some c \<Rightarrow> c = PeRejected))"
      by (simp add: monitor_state_def act)
    then have v: "require_before compile_prior trace guard target r types =
        Some (if inc then UnknownResult else if \<exists>a \<in> actions_of trace. ?T a then NeedsOutcomeEvidence else Satisfied)"
      unfolding start states(1) by simp
    have "\<not> ?T e" if "\<not> inc" "\<not> (\<exists>a \<in> actions_of trace. ?T a)" "xs \<in> executions trace" "e \<in> set xs" for xs e
      using executions_actions [of trace xs] states(2) that by auto
    then show ?thesis unfolding v using states(2) by (auto simp: guarded_iff)
  qed
qed

definition example_pattern :: "action_ref \<Rightarrow> trace_spec_pattern" where
  "example_pattern a = \<lparr>tp_row = row_closed {EAction a}, tp_label = [], tp_arg_bounds = []\<rparr>"

theorem monitor_verdicts_witness:
  "\<exists>v. require_before reference_product
      (TEvent \<lparr>ev_action = EAction (ActionRef 1 2), ev_span = (0, 0, 0), ev_source = SrcPerform\<rparr> :: nat trace)
      (example_pattern (ActionRef 1 1)) (example_pattern (ActionRef 1 2))
      (with_standard_effects_from \<lparr>sr_symbols = [], sr_lookup = (\<lambda>_. None)\<rparr>)
      \<lparr>tf_assignable = (=), tf_kind = (\<lambda>_. None), tf_satisfies_spec = (\<lambda>_ _ _. False)\<rparr> = Some v \<and>
    v \<noteq> Satisfied \<and> v \<noteq> NeedsOutcomeEvidence"
proof -
  let ?e = "EAction (ActionRef 1 2)"
  let ?t = "TEvent \<lparr>ev_action = ?e, ev_span = (0, 0, 0), ev_source = SrcPerform\<rparr> :: nat trace"
  let ?r = "with_standard_effects_from \<lparr>sr_symbols = [], sr_lookup = (\<lambda>_. None)\<rparr>"
  let ?ty = "\<lparr>tf_assignable = (=), tf_kind = (\<lambda>_. None), tf_satisfies_spec = (\<lambda>_ _ _. False)\<rparr>"
  have t: "realisable ?t" using leaf_trace(2) [of ?t] by (simp add: realisable_def)
  have x: "executions ?t = {[?e]}" by (simp add: executions_def)
  have m: "matches_effect (example_pattern (ActionRef 1 2)) ?e ?r ?ty"
    by (simp add: matches_effect_def row_closed_def covers_def bounds_match_def example_pattern_def)
  from monitor_verdicts [of reference_product "example_pattern (ActionRef 1 1)" "example_pattern (ActionRef 1 2)" ?r ?t ?ty,
      OF reference_product_contract core_registry_error_tag t]
  show ?thesis unfolding x using m by fastforce
qed

end
