(* ===== verification/Etas_Types.thy ===== *)
theory Etas_Types
  imports Etas_Effect "HOL-Library.Product_Lexorder" "HOL-Library.List_Lexorder"
begin

text \<open>
  The type store of the checker (\<open>etas_types/src/ty/{mod,nominal,primitive,scheme,row,store}.rs\<close>):
  types, their canonical form, stores with a frozen shared prefix, the freezing of a store with
  and without polling, the flat form in which a store is written and read back, the lookup index
  and the interner. Lists stand for vectors, finite maps for the ordered maps the code walks and
  partial functions for hash maps; a missing entry is \<open>None\<close>.
\<close>

section \<open>Types\<close>

datatype primitive_type =
    BoolT | I8T | I16T | I32T | I64T | I128T | ISizeT | U8T | U16T | U32T | U64T | U128T | USizeT
  | F32T | F64T | CharT | StringT | BytesT | UnitT | NeverT

text \<open>A specification reference has a derived order; its parts come from outside the repository,
  so it is a type variable.\<close>

datatype 's checked_spec_bound = SpecBound (sb_spec: 's) (sb_args: "type_id list")

datatype effect_ref = EffectRef (ef_name: utext) (ef_args: "effect_arg_ref list")

datatype effect_row_ref = EffectRowRef (rr_effects: "effect_ref list") (rr_tail: "utext option")

datatype handler_produced_effects = ProducedInfer | ProducedExplicit effect_row_ref

datatype field_type = FieldType (ft_name: utext) (ft_ty: type_id)

datatype trust_wrapper = Trusted | Untrusted | Secret | Public | Sanitized

datatype resource_handle_type =
  RhMemoryRegion type_id | RhExternalTool type_id | RhOther utext "type_id list"

type_synonym type_var_id = nat

datatype nominal_type_ref =
  NominalTypeRef (nm_name: utext) (nm_params: "utext list") (nm_representation: "type_id option")
    (nm_read_only_erased_view: bool)

datatype 's ty =
    TyExistential "'s checked_spec_bound list"
  | TyPrimitive primitive_type
  | TyIntegerLiteral utext
  | TyVar type_var_id
  | TyArray type_id
  | TyList type_id
  | TyMap type_id type_id
  | TySet type_id
  | TyRange type_id
  | TySlice type_id
  | TyOption type_id
  | TyResult type_id type_id
  | TyRecord "field_type list"
  | TyTuple "type_id list"
  | TyEnum utext
  | TyFunction "type_id list" type_id "effect_row_ref option"
  | TyHandler effect_row_ref handler_produced_effects "type_id option"
  | TyTask type_id effect_row_ref
  | TySchedulerHandle
  | TyContinuation type_id "type_id option" "effect_row_ref option"
  | TyNamed utext "symbol_id option"
  | TyNominal nominal_type_ref
  | TyApplied type_id "type_id list"
  | TyRefined type_id nat
  | TyTrust trust_wrapper type_id
  | TySchema type_id
  | TyPrompt
  | TyPromptPart
  | TyMessage type_id
  | TyMemorySelection type_id
  | TyStore type_id type_id
  | TyMemoryPlace "utext list"
  | TyMemoryRegion type_id
  | TyResourceHandle resource_handle_type

definition bound_key :: "'s checked_spec_bound \<Rightarrow> 's \<times> type_id list" where
  "bound_key b = (sb_spec b, sb_args b)"

definition canonical_type :: "('s::linorder) ty \<Rightarrow> 's ty" where
  "canonical_type t =
     (case t of
        TyExistential bounds \<Rightarrow> TyExistential (remdups_adj (sort_key bound_key bounds))
      | TyTuple elements \<Rightarrow> if elements = [] then TyPrimitive UnitT else TyTuple elements
      | t \<Rightarrow> t)"

section \<open>Stores\<close>

text \<open>Type identifiers are 32 bits wide: a position is cast with wrap-around.\<close>

definition type_id_of :: "nat \<Rightarrow> type_id" where
  "type_id_of n = n mod 2 ^ 32"

datatype 'g canonical_type_parameter_identity = ParameterIdentity (pi_owner: 'g) (pi_index: nat)

text \<open>
  Definition keys (\<open>'d\<close>) and generic owners (\<open>'g\<close>) belong to another package. What the store
  asks of them: the declaration kind of a key, whether an owner may own a portable parameter,
  whether it is an implementation, the owner that a declaration key gives, and the digest of a
  frozen type universe.
\<close>

record ('s, 'd, 'g) code_api =
  is_type_key :: "'d \<Rightarrow> bool"
  is_spec_key :: "'d \<Rightarrow> bool"
  is_agent_key :: "'d \<Rightarrow> bool"
  declaration_owner :: "'d \<Rightarrow> 'g"
  is_portable_parameter_owner :: "'g \<Rightarrow> bool"
  is_implementation_owner :: "'g \<Rightarrow> bool"
  base_digest :: "'s ty list \<Rightarrow> (type_id, 'd) fmap \<Rightarrow> (type_id, 'g canonical_type_parameter_identity) fmap \<Rightarrow> nat list"

record ('s, 'd, 'g) frozen_types =
  fz_types :: "'s ty list"
  fz_ids :: "'s ty \<rightharpoonup> type_id"
  fz_nominal_identities :: "(type_id, 'd) fmap"
  fz_parameter_identities :: "(type_id, 'g canonical_type_parameter_identity) fmap"
  fz_parameter_ids :: "'g canonical_type_parameter_identity \<rightharpoonup> type_id"
  fz_identity :: "nat list"

record ('s, 'd, 'g) type_store =
  sto_base :: "('s, 'd, 'g) frozen_types option"
  sto_types :: "'s ty list"
  sto_nominal_identities :: "(type_id, 'd) fmap"
  sto_parameter_identities :: "(type_id, 'g canonical_type_parameter_identity) fmap"
  sto_parameter_ids :: "'g canonical_type_parameter_identity \<rightharpoonup> type_id"

definition valid_owner :: "('s, 'd, 'g) code_api \<Rightarrow> 'g canonical_type_parameter_identity \<Rightarrow> bool" where
  "valid_owner A i = is_portable_parameter_owner A (pi_owner i)"

definition parameter_new_scoped ::
    "('s, 'd, 'g) code_api \<Rightarrow> 'g \<Rightarrow> nat \<Rightarrow> utext + 'g canonical_type_parameter_identity" where
  "parameter_new_scoped A owner index =
     (let identity = ParameterIdentity owner index in
      if \<not> valid_owner A identity then Inl (lit ''invalid canonical generic owner'') else Inr identity)"

definition parameter_new ::
    "('s, 'd, 'g) code_api \<Rightarrow> 'd \<Rightarrow> nat \<Rightarrow> utext + 'g canonical_type_parameter_identity" where
  "parameter_new A owner index =
     (if \<not> (is_type_key A owner \<or> is_spec_key A owner \<or> is_agent_key A owner)
      then Inl (lit ''type parameter owner is not a type, spec or agent declaration'')
      else parameter_new_scoped A (declaration_owner A owner) index)"

fun identity_matches_type :: "('s, 'd, 'g) code_api \<Rightarrow> 'd \<Rightarrow> 's ty \<Rightarrow> bool" where
  "identity_matches_type A identity (TyNominal _) = (is_type_key A identity \<or> is_agent_key A identity)"
| "identity_matches_type A identity (TyEnum _) = is_type_key A identity"
| "identity_matches_type A identity _ = False"

text \<open>An ordered map is walked by increasing key.\<close>

definition fmap_entries :: "('k::linorder, 'v) fmap \<Rightarrow> ('k \<times> 'v) list" where
  "fmap_entries m = map (\<lambda>k. (k, the (fmlookup m k))) (sorted_list_of_fset (fmdom m))"

definition invert_ids :: "(type_id, 'k) fmap \<Rightarrow> 'k \<rightharpoonup> type_id" where
  "invert_ids m = map_of (rev (map prod.swap (fmap_entries m)))"

definition store_new :: "('s, 'd, 'g) type_store" where
  "store_new = \<lparr>sto_base = None, sto_types = [], sto_nominal_identities = fmempty,
     sto_parameter_identities = fmempty, sto_parameter_ids = Map.empty\<rparr>"

definition with_base :: "('s, 'd, 'g) frozen_types \<Rightarrow> ('s, 'd, 'g) type_store" where
  "with_base b = \<lparr>sto_base = Some b, sto_types = [], sto_nominal_identities = fmempty,
     sto_parameter_identities = fmempty, sto_parameter_ids = Map.empty\<rparr>"

definition nominal_identity :: "('s, 'd, 'g) type_store \<Rightarrow> type_id \<Rightarrow> 'd option" where
  "nominal_identity s i =
     (case fmlookup (sto_nominal_identities s) i of
        Some d \<Rightarrow> Some d
      | None \<Rightarrow> Option.bind (sto_base s) (\<lambda>b. fmlookup (fz_nominal_identities b) i))"

definition nominal_identities :: "('s, 'd, 'g) type_store \<Rightarrow> (type_id, 'd) fmap" where
  "nominal_identities s =
     (case sto_base s of None \<Rightarrow> fmempty | Some b \<Rightarrow> fz_nominal_identities b) ++\<^sub>f sto_nominal_identities s"

definition parameter_identity ::
    "('s, 'd, 'g) type_store \<Rightarrow> type_id \<Rightarrow> 'g canonical_type_parameter_identity option" where
  "parameter_identity s i =
     (case fmlookup (sto_parameter_identities s) i of
        Some d \<Rightarrow> Some d
      | None \<Rightarrow> Option.bind (sto_base s) (\<lambda>b. fmlookup (fz_parameter_identities b) i))"

definition parameter_identities ::
    "('s, 'd, 'g) type_store \<Rightarrow> (type_id, 'g canonical_type_parameter_identity) fmap" where
  "parameter_identities s =
     (case sto_base s of None \<Rightarrow> fmempty | Some b \<Rightarrow> fz_parameter_identities b) ++\<^sub>f sto_parameter_identities s"

definition canonical_parameter ::
    "('s, 'd, 'g) type_store \<Rightarrow> 'g canonical_type_parameter_identity \<Rightarrow> type_id option" where
  "canonical_parameter s i =
     (case sto_parameter_ids s i of
        Some t \<Rightarrow> Some t
      | None \<Rightarrow> Option.bind (sto_base s) (\<lambda>b. fz_parameter_ids b i))"

definition base_len :: "('s, 'd, 'g) type_store \<Rightarrow> nat" where
  "base_len s = (case sto_base s of None \<Rightarrow> 0 | Some b \<Rightarrow> length (fz_types b))"

definition store_len :: "('s, 'd, 'g) type_store \<Rightarrow> nat" where
  "store_len s = base_len s + length (sto_types s)"

definition store_intern :: "('s::linorder) ty \<Rightarrow> ('s, 'd, 'g) type_store \<Rightarrow> type_id \<times> ('s, 'd, 'g) type_store" where
  "store_intern t s = (type_id_of (store_len s), s\<lparr>sto_types := sto_types s @ [canonical_type t]\<rparr>)"

definition nth_opt :: "'a list \<Rightarrow> nat \<Rightarrow> 'a option" where
  "nth_opt xs i = (if i < length xs then Some (xs ! i) else None)"

definition store_get :: "('s, 'd, 'g) type_store \<Rightarrow> type_id \<Rightarrow> 's ty option" where
  "store_get s i =
     (if i < base_len s then Option.bind (sto_base s) (\<lambda>b. nth_opt (fz_types b) i)
      else nth_opt (sto_types s) (i - base_len s))"

definition store_iter :: "('s, 'd, 'g) type_store \<Rightarrow> (type_id \<times> 's ty) list" where
  "store_iter s =
     map (\<lambda>(i, t). (type_id_of i, t))
       (enumerate 0 ((case sto_base s of None \<Rightarrow> [] | Some b \<Rightarrow> fz_types b) @ sto_types s))"

section \<open>Frozen universes\<close>

definition ordinary_ids ::
    "(type_id, 'd) fmap \<Rightarrow> (type_id, 'g canonical_type_parameter_identity) fmap \<Rightarrow> (type_id \<times> 's ty) list \<Rightarrow>
     's ty \<rightharpoonup> type_id" where
  "ordinary_ids nominals parameters entries =
     map_of (map prod.swap
       (filter (\<lambda>(i, _). i |\<notin>| fmdom nominals \<and> i |\<notin>| fmdom parameters) entries))"

definition type_base_new :: "('s, 'd, 'g) code_api \<Rightarrow> ('s, 'd, 'g) type_store \<Rightarrow> ('s, 'd, 'g) frozen_types" where
  "type_base_new A s =
     (let nominals = nominal_identities s;
          parameters = parameter_identities s;
          types = (if sto_base s = None then sto_types s else map snd (store_iter s))
      in \<lparr>fz_types = types,
          fz_ids = ordinary_ids nominals parameters (map (\<lambda>(i, t). (type_id_of i, t)) (enumerate 0 types)),
          fz_nominal_identities = nominals, fz_parameter_identities = parameters,
          fz_parameter_ids = invert_ids parameters, fz_identity = base_digest A types nominals parameters\<rparr>)"

text \<open>The controlled variant polls before each entry of every loop. The first loop collects, the
  second builds the index; the three loops of the digest feed the same data to the hash as the
  uncontrolled variant, so only their polls are told apart.\<close>

fun freeze_collect ::
    "(nat \<Rightarrow> 'e option) \<Rightarrow> ('s, 'd, 'g) type_store \<Rightarrow> (type_id \<times> 's ty) list \<Rightarrow>
     's ty list \<times> (type_id, 'd) fmap \<times> (type_id, 'g canonical_type_parameter_identity) fmap \<Rightarrow> nat \<Rightarrow>
     ('e, ('s ty list \<times> (type_id, 'd) fmap \<times> (type_id, 'g canonical_type_parameter_identity) fmap) \<times> nat) run" where
  "freeze_collect chk s [] acc k = Done (acc, k)"
| "freeze_collect chk s ((i, t) # entries) (types, nominals, parameters) k =
     run_bind (checkpoint chk k) (\<lambda>(_, k).
       freeze_collect chk s entries
         (types @ [t],
          (case nominal_identity s i of Some d \<Rightarrow> fmupd i d nominals | None \<Rightarrow> nominals),
          (case parameter_identity s i of Some p \<Rightarrow> fmupd i p parameters | None \<Rightarrow> parameters)) k)"

fun freeze_index ::
    "(nat \<Rightarrow> 'e option) \<Rightarrow> (type_id, 'd) fmap \<Rightarrow> (type_id, 'g canonical_type_parameter_identity) fmap \<Rightarrow>
     (nat \<times> 's ty) list \<Rightarrow> ('s ty \<rightharpoonup> type_id) \<Rightarrow> nat \<Rightarrow> ('e, ('s ty \<rightharpoonup> type_id) \<times> nat) run" where
  "freeze_index chk nominals parameters [] ids k = Done (ids, k)"
| "freeze_index chk nominals parameters ((index, t) # entries) ids k =
     run_bind (checkpoint chk k) (\<lambda>(_, k).
       let i = type_id_of index in
       freeze_index chk nominals parameters entries
         (if i |\<notin>| fmdom nominals \<and> i |\<notin>| fmdom parameters
          then (case ids t of None \<Rightarrow> ids(t \<mapsto> i) | Some _ \<Rightarrow> ids) else ids) k)"

fun poll_times :: "(nat \<Rightarrow> 'e option) \<Rightarrow> nat \<Rightarrow> nat \<Rightarrow> ('e, unit \<times> nat) run" where
  "poll_times chk 0 k = Done ((), k)"
| "poll_times chk (Suc n) k = run_bind (checkpoint chk k) (\<lambda>(_, k). poll_times chk n k)"

definition type_base_new_controlled ::
    "(nat \<Rightarrow> 'e option) \<Rightarrow> ('s, 'd, 'g) code_api \<Rightarrow> ('s, 'd, 'g) type_store \<Rightarrow> nat \<Rightarrow> nat \<Rightarrow>
     ('e, (nat + ('s, 'd, 'g) frozen_types) \<times> nat) run" where
  "type_base_new_controlled chk A s max_types k =
     run_bind (checkpoint chk k) (\<lambda>(_, k).
       if store_len s > max_types then Done (Inl max_types, k)
       else
         run_bind (freeze_collect chk s (store_iter s) ([], fmempty, fmempty) k) (\<lambda>((types, nominals, parameters), k).
         run_bind (freeze_index chk nominals parameters (enumerate 0 types) Map.empty k) (\<lambda>(ids, k).
         run_bind (poll_times chk (length types) k) (\<lambda>(_, k).
         run_bind (poll_times chk (length (fmap_entries nominals)) k) (\<lambda>(_, k).
         run_bind (poll_times chk (length (fmap_entries parameters)) k) (\<lambda>(_, k).
         run_bind (checkpoint chk k) (\<lambda>(_, k).
           Done (Inr \<lparr>fz_types = types, fz_ids = ids, fz_nominal_identities = nominals,
             fz_parameter_identities = parameters, fz_parameter_ids = invert_ids parameters,
             fz_identity = base_digest A types nominals parameters\<rparr>, k))))))))"

section \<open>Parts and the flat form\<close>

definition into_local_parts ::
    "('s, 'd, 'g) type_store \<Rightarrow>
     's ty list \<times> (type_id, 'd) fmap \<times> (type_id, 'g canonical_type_parameter_identity) fmap" where
  "into_local_parts s = (sto_types s, sto_nominal_identities s, sto_parameter_identities s)"

definition checked_sub :: "nat \<Rightarrow> nat \<Rightarrow> nat option" where
  "checked_sub a b = (if b \<le> a then Some (a - b) else None)"

fun nominals_valid ::
    "('s, 'd, 'g) code_api \<Rightarrow> nat \<Rightarrow> 's ty list \<Rightarrow> 'd set \<Rightarrow> (type_id \<times> 'd) list \<Rightarrow> bool" where
  "nominals_valid A offset types keys [] = True"
| "nominals_valid A offset types keys ((i, key) # entries) =
     ((case Option.bind (checked_sub i offset) (nth_opt types) of
         None \<Rightarrow> False | Some t \<Rightarrow> identity_matches_type A key t) \<and>
      key \<notin> keys \<and> nominals_valid A offset types (insert key keys) entries)"

fun is_plain_named :: "'s ty \<Rightarrow> bool" where
  "is_plain_named (TyNamed _ source_parameter) = (source_parameter = None)"
| "is_plain_named _ = False"

fun parameters_valid ::
    "('s, 'd, 'g) code_api \<Rightarrow> nat \<Rightarrow> 's ty list \<Rightarrow> (type_id, 'd) fmap \<Rightarrow>
     'g canonical_type_parameter_identity set \<Rightarrow> (type_id \<times> 'g canonical_type_parameter_identity) list \<Rightarrow> bool" where
  "parameters_valid A offset types nominals keys [] = True"
| "parameters_valid A offset types nominals keys ((i, key) # entries) =
     (valid_owner A key \<and>
      (case Option.bind (checked_sub i offset) (nth_opt types) of None \<Rightarrow> False | Some t \<Rightarrow> is_plain_named t) \<and>
      key \<notin> keys \<and> i |\<notin>| fmdom nominals \<and>
      parameters_valid A offset types nominals (insert key keys) entries)"

definition with_local_parts ::
    "('s, 'd, 'g) code_api \<Rightarrow> ('s, 'd, 'g) frozen_types \<Rightarrow> ('s::linorder) ty list \<Rightarrow> (type_id, 'd) fmap \<Rightarrow>
     (type_id, 'g canonical_type_parameter_identity) fmap \<Rightarrow> utext + ('s, 'd, 'g) type_store" where
  "with_local_parts A b types nominals parameters =
     (if \<not> nominals_valid A (length (fz_types b)) types (set (map snd (fmap_entries (fz_nominal_identities b))))
           (fmap_entries nominals)
      then Inl (lit ''invalid or duplicate body nominal identity'')
      else if \<not> parameters_valid A (length (fz_types b)) types nominals
           (set (map snd (fmap_entries (fz_parameter_identities b)))) (fmap_entries parameters)
      then Inl (lit ''invalid or duplicate body parameter identity'')
      else Inr \<lparr>sto_base = Some b, sto_types = map canonical_type types, sto_nominal_identities = nominals,
             sto_parameter_identities = parameters, sto_parameter_ids = invert_ids parameters\<rparr>)"

record ('s, 'd, 'g) flat_store =
  fl_types :: "'s ty list"
  fl_nominal_identities :: "(type_id, 'd) fmap"
  fl_parameter_identities :: "(type_id, 'g canonical_type_parameter_identity) fmap"

definition store_serialize :: "('s, 'd, 'g) type_store \<Rightarrow> ('s, 'd, 'g) flat_store" where
  "store_serialize s = \<lparr>fl_types = map snd (store_iter s), fl_nominal_identities = nominal_identities s,
     fl_parameter_identities = parameter_identities s\<rparr>"

definition store_deserialize ::
    "('s, 'd, 'g) code_api \<Rightarrow> ('s::linorder, 'd, 'g) flat_store \<Rightarrow> utext + ('s, 'd, 'g) type_store" where
  "store_deserialize A f =
     (if \<not> nominals_valid A 0 (fl_types f) {} (fmap_entries (fl_nominal_identities f))
      then Inl (lit ''invalid or duplicate canonical nominal identity'')
      else if \<not> parameters_valid A 0 (fl_types f) (fl_nominal_identities f) {} (fmap_entries (fl_parameter_identities f))
      then Inl (lit ''invalid or duplicate canonical parameter identity'')
      else Inr \<lparr>sto_base = None, sto_types = map canonical_type (fl_types f),
             sto_nominal_identities = fl_nominal_identities f, sto_parameter_identities = fl_parameter_identities f,
             sto_parameter_ids = invert_ids (fl_parameter_identities f)\<rparr>)"

section \<open>The lookup index\<close>

record type_lookup_index =
  li_first :: "nat \<rightharpoonup> type_id"
  li_collisions :: "nat \<Rightarrow> type_id list"

text \<open>The hash of a type is a parameter: the index must be right for every hash function.\<close>

definition lookup_index_add ::
    "('s ty \<Rightarrow> nat) \<Rightarrow> ('s, 'd, 'g) type_store \<Rightarrow> type_id \<times> 's ty \<Rightarrow> type_lookup_index \<Rightarrow> type_lookup_index" where
  "lookup_index_add h s e x =
     (case e of (i, t) \<Rightarrow>
        if nominal_identity s i \<noteq> None \<or> parameter_identity s i \<noteq> None then x
        else case li_first x (h t) of
          None \<Rightarrow> x\<lparr>li_first := (li_first x)(h t \<mapsto> i)\<rparr>
        | Some _ \<Rightarrow> x\<lparr>li_collisions := (li_collisions x)(h t := li_collisions x (h t) @ [i])\<rparr>)"

definition lookup_index_new :: "('s ty \<Rightarrow> nat) \<Rightarrow> ('s, 'd, 'g) type_store \<Rightarrow> type_lookup_index" where
  "lookup_index_new h s =
     fold (lookup_index_add h s) (store_iter s) \<lparr>li_first = Map.empty, li_collisions = (\<lambda>_. [])\<rparr>"

definition lookup_index_get ::
    "('s ty \<Rightarrow> nat) \<Rightarrow> type_lookup_index \<Rightarrow> ('s, 'd, 'g) type_store \<Rightarrow> 's ty \<Rightarrow> type_id option" where
  "lookup_index_get h x s t =
     (case li_first x (h t) of
        None \<Rightarrow> None
      | Some first \<Rightarrow>
          if store_get s first = Some t then Some first
          else find (\<lambda>i. store_get s i = Some t) (li_collisions x (h t)))"

section \<open>The interner\<close>

record ('s, 'd, 'g) type_interner =
  in_store :: "('s, 'd, 'g) type_store"
  in_types :: "'s ty \<rightharpoonup> type_id"
  in_canonical_nominals :: "'d \<rightharpoonup> type_id"

definition interner_new :: "('s, 'd, 'g) type_interner" where
  "interner_new = \<lparr>in_store = store_new, in_types = Map.empty, in_canonical_nominals = Map.empty\<rparr>"

definition interner_from_store :: "('s, 'd, 'g) type_store \<Rightarrow> ('s, 'd, 'g) type_interner" where
  "interner_from_store s =
     \<lparr>in_store = s,
      in_types = map_of (map prod.swap
        (filter (\<lambda>(i, _). nominal_identity s i = None \<and> parameter_identity s i = None)
          (map (\<lambda>(i, t). (type_id_of i, t)) (enumerate (base_len s) (sto_types s))))),
      in_canonical_nominals = invert_ids (nominal_identities s)\<rparr>"

definition interner_intern ::
    "('s::linorder) ty \<Rightarrow> ('s, 'd, 'g) type_interner \<Rightarrow> type_id \<times> ('s, 'd, 'g) type_interner" where
  "interner_intern t x =
     (let t = canonical_type t in
      case (case in_types x t of
              Some i \<Rightarrow> Some i
            | None \<Rightarrow> Option.bind (sto_base (in_store x)) (\<lambda>b. fz_ids b t)) of
        Some i \<Rightarrow> (i, x)
      | None \<Rightarrow>
          (case store_intern t (in_store x) of
             (i, s) \<Rightarrow> (i, x\<lparr>in_store := s, in_types := (in_types x)(t \<mapsto> i)\<rparr>)))"

definition interner_primitive ::
    "primitive_type \<Rightarrow> ('s::linorder, 'd, 'g) type_interner \<Rightarrow> type_id \<times> ('s, 'd, 'g) type_interner" where
  "interner_primitive p x = interner_intern (TyPrimitive p) x"

definition intern_canonical_nominal ::
    "('s, 'd, 'g) code_api \<Rightarrow> 'd \<Rightarrow> ('s::linorder) ty \<Rightarrow> ('s, 'd, 'g) type_interner \<Rightarrow>
     (utext + type_id) \<times> ('s, 'd, 'g) type_interner" where
  "intern_canonical_nominal A identity t x =
     (if \<not> identity_matches_type A identity t
      then (Inl (lit ''canonical nominal identity has an incompatible declaration kind''), x)
      else case in_canonical_nominals x identity of
        Some i \<Rightarrow>
          if store_get (in_store x) i = Some t then (Inr i, x)
          else (Inl (lit ''canonical nominal identity has conflicting layouts''), x)
      | None \<Rightarrow>
          (case store_intern t (in_store x) of
             (i, s) \<Rightarrow>
               (Inr i, x\<lparr>in_store := s\<lparr>sto_nominal_identities := fmupd i identity (sto_nominal_identities s)\<rparr>,
                         in_canonical_nominals := (in_canonical_nominals x)(identity \<mapsto> i)\<rparr>)))"

definition intern_canonical_parameter ::
    "('s, 'd, 'g) code_api \<Rightarrow> 'g canonical_type_parameter_identity \<Rightarrow> utext \<Rightarrow>
     ('s::linorder, 'd, 'g) type_interner \<Rightarrow> (utext + type_id) \<times> ('s, 'd, 'g) type_interner" where
  "intern_canonical_parameter A identity nm x =
     (if \<not> valid_owner A identity \<or> nm = [] then (Inl (lit ''invalid canonical type parameter''), x)
      else
        let t = TyNamed nm None in
        case canonical_parameter (in_store x) identity of
          Some i \<Rightarrow>
            if store_get (in_store x) i = Some t \<or> is_implementation_owner A (pi_owner identity) then (Inr i, x)
            else (Inl (lit ''canonical parameter has conflicting declaration''), x)
        | None \<Rightarrow>
            (case store_intern t (in_store x) of
               (i, s) \<Rightarrow>
                 (Inr i, x\<lparr>in_store := s\<lparr>sto_parameter_identities := fmupd i identity (sto_parameter_identities s),
                            sto_parameter_ids := (sto_parameter_ids s)(identity \<mapsto> i)\<rparr>\<rparr>)))"

text \<open>Completing a declaration panics on a shared type, on an identifier out of range and on a type
  that is no nominal declaration: \<open>None\<close>.\<close>

definition define_nominal ::
    "type_id \<Rightarrow> type_id option \<Rightarrow> ('s, 'd, 'g) type_interner \<Rightarrow> ('s, 'd, 'g) type_interner option" where
  "define_nominal i representation x =
     (case Option.bind (checked_sub i (base_len (in_store x))) (nth_opt (sto_types (in_store x))) of
        Some (TyNominal nominal) \<Rightarrow>
          (let index = i - base_len (in_store x);
               canonical = (nominal_identity (in_store x) i \<noteq> None);
               types = (if canonical then in_types x else (in_types x)(TyNominal nominal := None));
               t = TyNominal (NominalTypeRef (nm_name nominal) (nm_params nominal) representation
                     (nm_read_only_erased_view nominal))
           in Some (x\<lparr>in_store := (in_store x)\<lparr>sto_types := (sto_types (in_store x))[index := t]\<rparr>,
                      in_types := (if canonical then types else types(t \<mapsto> i))\<rparr>))
      | _ \<Rightarrow> None)"

end
