(* ===== verification/Etas_Types_Facts.thy ===== *)
theory Etas_Types_Facts
  imports Etas_Types
begin

text \<open>
  Facts about type stores and interners: canonical forms, the well-formedness that every reachable
  interner has, what the reader of a stored universe accepts, freezing with and without polls, the
  lookup index, and the properties of the component.
\<close>

section \<open>Canonical types\<close>

lemma bound_key_inj: "inj bound_key"
  by (rule injI) (simp add: bound_key_def checked_spec_bound.expand)

lemma canonical_type_idem [simp]: "canonical_type (canonical_type t) = canonical_type t"
proof -
  have "sort_key bound_key (remdups_adj (sort_key bound_key bs)) = remdups_adj (sort_key bound_key bs)" for bs :: "'a checked_spec_bound list"
  proof (rule sort_key_id_if_sorted)
    have "map bound_key (remdups_adj (sort_key bound_key bs)) = remdups_adj (map bound_key (sort_key bound_key bs))"
      using remdups_adj_map_injective [OF bound_key_inj, of "sort_key bound_key bs"] by simp
    then show "sorted (map bound_key (remdups_adj (sort_key bound_key bs)))" by (simp add: sorted_remdups_adj)
  qed
  moreover have "remdups_adj (remdups_adj xs) = remdups_adj xs" for xs :: "'a checked_spec_bound list"
    using distinct_adj_remdups_adj [of xs] by (simp only: distinct_adj_altdef)
  ultimately show ?thesis by (cases t) (simp_all add: canonical_type_def)
qed

lemma canonical_type_declaration [simp]:
  "canonical_type (TyNominal n) = TyNominal n" "canonical_type (TyEnum e) = TyEnum e"
  "canonical_type (TyNamed nm q) = TyNamed nm q" "canonical_type (TyPrimitive p) = TyPrimitive p"
  by (simp_all add: canonical_type_def)

lemma identity_matches_canonical [simp]:
  "identity_matches_type A d t \<Longrightarrow> canonical_type t = t"
  by (cases t) (simp_all add: canonical_type_def)

lemma identity_matches_canonical_type [simp]:
  "identity_matches_type A d (canonical_type t) = identity_matches_type A d t"
  by (cases t) (simp_all add: canonical_type_def)

lemma is_plain_named_canonical_type [simp]: "is_plain_named (canonical_type t) = is_plain_named t"
  by (cases t) (simp_all add: canonical_type_def)

lemma identity_not_plain: "identity_matches_type A d t \<Longrightarrow> \<not> is_plain_named t"
  by (cases t) simp_all

lemma is_plain_named_iff: "is_plain_named t \<longleftrightarrow> (\<exists>nm. t = TyNamed nm None)"
  by (cases t) auto

section \<open>Lookups\<close>

definition all_types :: "('s, 'd, 'g) type_store \<Rightarrow> 's ty list" where
  "all_types s = (case sto_base s of None \<Rightarrow> [] | Some b \<Rightarrow> fz_types b) @ sto_types s"

lemma length_all_types [simp]: "length (all_types s) = store_len s"
  by (simp add: all_types_def store_len_def base_len_def split: option.split)

lemma base_len_simps [simp]:
  "sto_base s = None \<Longrightarrow> base_len s = 0" "sto_base s = Some b \<Longrightarrow> base_len s = length (fz_types b)"
  by (simp_all add: base_len_def)

lemma nth_opt_append: "nth_opt (xs @ ys) i = (if i < length xs then nth_opt xs i else nth_opt ys (i - length xs))"
  by (auto simp: nth_opt_def nth_append)

lemma nth_opt_Some_iff: "nth_opt xs i = Some x \<longleftrightarrow> i < length xs \<and> xs ! i = x"
  by (auto simp: nth_opt_def)

lemma store_get_nth: "store_get s i = nth_opt (all_types s) i"
  by (cases "sto_base s") (simp_all add: store_get_def all_types_def nth_opt_append)

lemma store_get_Some_iff: "store_get s i = Some t \<longleftrightarrow> i < store_len s \<and> all_types s ! i = t"
  by (simp add: store_get_nth nth_opt_Some_iff)

lemma fmap_entries_iff: "(k, v) \<in> set (fmap_entries m) \<longleftrightarrow> fmlookup m k = Some v"
  by (auto simp: fmap_entries_def fmlookup_dom_iff)

lemma fmap_entries_distinct: "distinct (map fst (fmap_entries m))"
  by (simp add: fmap_entries_def comp_def sorted_list_of_fset.rep_eq)

lemma fmap_entries_values: "set (map snd (fmap_entries m)) = {v. \<exists>k. fmlookup m k = Some v}"
  using fmap_entries_iff [of _ _ m] by force

lemma fmlookup_identities:
  "fmlookup (nominal_identities s) i = nominal_identity s i"
  "fmlookup (parameter_identities s) i = parameter_identity s i"
  by (auto simp: nominal_identities_def nominal_identity_def parameter_identities_def parameter_identity_def
      fmlookup_dom_iff split: option.splits)

lemma type_id_of_small [simp]: "n < 2 ^ 32 \<Longrightarrow> type_id_of n = n"
  by (simp add: type_id_of_def)

lemma store_iter_small:
  "store_len s \<le> 2 ^ 32 \<Longrightarrow> store_iter s = enumerate 0 (all_types s)"
proof -
  assume l: "store_len s \<le> 2 ^ 32"
  have "map (\<lambda>(i, t). (type_id_of i, t)) (enumerate 0 (all_types s)) = map id (enumerate 0 (all_types s))"
    using l by (intro map_cong) (auto simp: in_set_enumerate_eq)
  then show ?thesis by (simp add: store_iter_def all_types_def)
qed

lemma store_iter_types: "map snd (store_iter s) = all_types s"
  by (simp add: store_iter_def all_types_def comp_def case_prod_unfold)

definition injective_values :: "('k \<rightharpoonup> 'v) \<Rightarrow> bool" where
  "injective_values f \<longleftrightarrow> (\<forall>i j v. f i = Some v \<longrightarrow> f j = Some v \<longrightarrow> i = j)"

lemma invert_ids_iff:
  assumes "injective_values (fmlookup m)"
  shows "invert_ids m v = Some i \<longleftrightarrow> fmlookup m i = Some v"
proof -
  have d: "distinct (map fst (rev (map prod.swap (fmap_entries m))))"
  proof -
    have "distinct (map snd (fmap_entries m))"
      using assms fmap_entries_distinct [of m] unfolding distinct_map inj_on_def injective_values_def
      by (metis fmap_entries_iff prod.collapse)
    then show ?thesis by (simp add: comp_def rev_map flip: rev_map)
  qed
  have "invert_ids m v = Some i \<longleftrightarrow> (v, i) \<in> set (rev (map prod.swap (fmap_entries m)))"
    unfolding invert_ids_def using d by (rule map_of_eq_Some_iff)
  also have "\<dots> \<longleftrightarrow> (i, v) \<in> set (fmap_entries m)" by force
  finally show ?thesis by (simp add: fmap_entries_iff)
qed

section \<open>Well-formed stores\<close>

definition ordinary :: "('s, 'd, 'g) type_store \<Rightarrow> type_id \<Rightarrow> bool" where
  "ordinary s i \<longleftrightarrow> nominal_identity s i = None \<and> parameter_identity s i = None"

record ('s, 'd, 'g) store_view =
  vw_get :: "type_id \<rightharpoonup> 's ty"
  vw_nominal :: "type_id \<rightharpoonup> 'd"
  vw_parameter :: "type_id \<rightharpoonup> 'g canonical_type_parameter_identity"

definition view_of :: "('s, 'd, 'g) type_store \<Rightarrow> ('s, 'd, 'g) store_view" where
  "view_of s = \<lparr>vw_get = store_get s, vw_nominal = nominal_identity s, vw_parameter = parameter_identity s\<rparr>"

text \<open>What every lookup relies on: canonical entries, and identities that sit on declarations of
  their kind and are never shared.\<close>

definition view_ok :: "('s::linorder, 'd, 'g) code_api \<Rightarrow> ('s, 'd, 'g) store_view \<Rightarrow> bool" where
  "view_ok A v \<longleftrightarrow>
     (\<forall>i t. vw_get v i = Some t \<longrightarrow> canonical_type t = t) \<and>
     (\<forall>i d. vw_nominal v i = Some d \<longrightarrow> (\<exists>t. vw_get v i = Some t \<and> identity_matches_type A d t)) \<and>
     (\<forall>i p. vw_parameter v i = Some p \<longrightarrow> valid_owner A p \<and> (\<exists>t. vw_get v i = Some t \<and> is_plain_named t)) \<and>
     injective_values (vw_nominal v) \<and> injective_values (vw_parameter v)"

definition store_ok :: "('s::linorder, 'd, 'g) code_api \<Rightarrow> ('s, 'd, 'g) type_store \<Rightarrow> bool" where
  "store_ok A s \<longleftrightarrow>
     view_ok A (view_of s) \<and>
     (\<forall>b. sto_base s = Some b \<longrightarrow>
        view_ok A (view_of (with_base b)) \<and> fz_parameter_ids b = invert_ids (fz_parameter_identities b) \<and>
        (\<forall>t i. fz_ids b t = Some i \<longrightarrow> nth_opt (fz_types b) i = Some t \<and> ordinary (with_base b) i)) \<and>
     (\<forall>i. i |\<in>| fmdom (sto_nominal_identities s) \<longrightarrow> base_len s \<le> i) \<and>
     (\<forall>i. i |\<in>| fmdom (sto_parameter_identities s) \<longrightarrow> base_len s \<le> i) \<and>
     sto_parameter_ids s = invert_ids (sto_parameter_identities s)"

lemma with_base_view:
  "sto_base (with_base b) = Some b" "store_get (with_base b) = nth_opt (fz_types b)"
  "nominal_identity (with_base b) = fmlookup (fz_nominal_identities b)"
  "parameter_identity (with_base b) = fmlookup (fz_parameter_identities b)"
  "base_len (with_base b) = length (fz_types b)" "sto_types (with_base b) = []" "store_len (with_base b) = length (fz_types b)"
  by (auto simp: with_base_def fun_eq_iff store_get_def nominal_identity_def parameter_identity_def nth_opt_def base_len_def store_len_def)

lemma view_okD:
  assumes "view_ok A (view_of s)"
  shows "store_get s i = Some t \<Longrightarrow> canonical_type t = t"
    "nominal_identity s i = Some d \<Longrightarrow> \<exists>t. store_get s i = Some t \<and> identity_matches_type A d t"
    "parameter_identity s i = Some p \<Longrightarrow> valid_owner A p \<and> (\<exists>nm. store_get s i = Some (TyNamed nm None))"
    "injective_values (nominal_identity s)" "injective_values (parameter_identity s)"
  using assms unfolding view_ok_def view_of_def is_plain_named_iff store_view.select_convs by blast+

lemma store_ok_view: "store_ok A s \<Longrightarrow> view_ok A (view_of s)"
  by (simp add: store_ok_def)

lemma identity_in_range:
  assumes "store_ok A s" "\<not> ordinary s i"
  shows "i < store_len s"
  using view_okD(2,3) [OF store_ok_view [OF assms(1)], of i] assms(2)
  by (auto simp: ordinary_def store_get_Some_iff)

lemma injective_valuesD: "injective_values f \<Longrightarrow> f i = Some v \<Longrightarrow> f j = Some v \<Longrightarrow> i = j"
  unfolding injective_values_def by blast

lemma canonical_parameter_iff:
  assumes ok: "store_ok A s"
  shows "canonical_parameter s p = Some i \<longleftrightarrow> parameter_identity s i = Some p"
proof -
  have inj: "injective_values (parameter_identity s)" using view_okD(5) [OF store_ok_view [OF ok]] .
  have local_inj: "injective_values (fmlookup (sto_parameter_identities s))"
    using inj by (auto simp: injective_values_def parameter_identity_def split: option.splits)
  have l: "sto_parameter_ids s p = Some i \<longleftrightarrow> fmlookup (sto_parameter_identities s) i = Some p" for i
    using ok invert_ids_iff [OF local_inj] by (simp add: store_ok_def)
  show ?thesis
  proof (cases "sto_base s")
    case None
    then have "parameter_identity s i = fmlookup (sto_parameter_identities s) i" "canonical_parameter s p = sto_parameter_ids s p"
      by (simp_all add: canonical_parameter_def parameter_identity_def split: option.split)
    with l show ?thesis by simp
  next
    case (Some b)
    then have vb: "view_ok A (view_of (with_base b))" "fz_parameter_ids b = invert_ids (fz_parameter_identities b)"
      and ge: "\<And>i. i |\<in>| fmdom (sto_parameter_identities s) \<Longrightarrow> length (fz_types b) \<le> i"
      using ok by (auto simp: store_ok_def)
    have binj: "injective_values (fmlookup (fz_parameter_identities b))"
      using view_okD(5) [OF vb(1)] by (simp add: with_base_view)
    have bl: "fz_parameter_ids b p = Some i \<longleftrightarrow> fmlookup (fz_parameter_identities b) i = Some p" for i
      using invert_ids_iff [OF binj] vb(2) by simp
    have small: "fmlookup (fz_parameter_identities b) i = Some q \<Longrightarrow> i < length (fz_types b)" for i q
      using view_okD(3) [OF vb(1), of i q] by (auto simp: with_base_view nth_opt_Some_iff)
    have disj: "fmlookup (fz_parameter_identities b) i = Some q \<Longrightarrow> fmlookup (sto_parameter_identities s) i = None" for i q
      using small [of i q] ge [of i] by (meson fmdom_notD linorder_not_le)
    show ?thesis
    proof (cases "sto_parameter_ids s p")
      case None
      then have "fmlookup (sto_parameter_identities s) j \<noteq> Some p" for j using l [of j] by simp
      with None Some bl [of i] disj [of i] show ?thesis
        by (auto simp: canonical_parameter_def parameter_identity_def split: option.splits)
    next
      case (Some j)
      then have j: "fmlookup (sto_parameter_identities s) j = Some p" using l by simp
      then have "parameter_identity s j = Some p" by (simp add: parameter_identity_def)
      with Some injective_valuesD [OF inj, of j p i] show ?thesis by (auto simp: canonical_parameter_def)
    qed
  qed
qed

text \<open>An entry appended to a store, with or without an identity.\<close>

lemma store_intern_parts:
  "store_intern t s = (i, s') \<Longrightarrow> store_len s < 2 ^ 32 \<Longrightarrow>
     i = store_len s \<and> s' = s\<lparr>sto_types := sto_types s @ [canonical_type t]\<rparr>"
  by (auto simp: store_intern_def)

lemma store_snoc:
  "all_types (s\<lparr>sto_types := sto_types s @ ts\<rparr>) = all_types s @ ts"
  "base_len (s\<lparr>sto_types := sto_types s @ ts\<rparr>) = base_len s"
  "store_len (s\<lparr>sto_types := sto_types s @ ts\<rparr>) = store_len s + length ts"
  by (simp_all add: all_types_def store_len_def base_len_def)

lemma store_identity_update [simp]:
  "store_get (s\<lparr>sto_nominal_identities := m\<rparr>) = store_get s"
  "store_get (s\<lparr>sto_parameter_identities := q, sto_parameter_ids := r\<rparr>) = store_get s"
  "base_len (s\<lparr>sto_nominal_identities := m\<rparr>) = base_len s"
  "base_len (s\<lparr>sto_parameter_identities := q, sto_parameter_ids := r\<rparr>) = base_len s"
  "store_len (s\<lparr>sto_nominal_identities := m\<rparr>) = store_len s"
  "store_len (s\<lparr>sto_parameter_identities := q, sto_parameter_ids := r\<rparr>) = store_len s"
  "parameter_identity (s\<lparr>sto_nominal_identities := m\<rparr>) = parameter_identity s"
  "nominal_identity (s\<lparr>sto_parameter_identities := q, sto_parameter_ids := r\<rparr>) = nominal_identity s"
  "nominal_identity (s\<lparr>sto_types := ts\<rparr>) = nominal_identity s"
  "parameter_identity (s\<lparr>sto_types := ts\<rparr>) = parameter_identity s"
  by (simp_all add: fun_eq_iff store_get_def base_len_def store_len_def nominal_identity_def parameter_identity_def
      split: option.split)

lemma store_get_snoc:
  "store_get (s\<lparr>sto_types := sto_types s @ [t]\<rparr>) = (store_get s)(store_len s \<mapsto> t)"
  unfolding fun_eq_iff store_get_nth store_snoc by (auto simp: nth_opt_def nth_append)

lemma identity_upd [simp]:
  "nominal_identity (s\<lparr>sto_nominal_identities := fmupd i d (sto_nominal_identities s)\<rparr>) = (nominal_identity s)(i \<mapsto> d)"
  "parameter_identity (s\<lparr>sto_parameter_identities := fmupd i p (sto_parameter_identities s), sto_parameter_ids := r\<rparr>) =
     (parameter_identity s)(i \<mapsto> p)"
  by (auto simp: fun_eq_iff nominal_identity_def parameter_identity_def split: option.split)

lemma option_fun_eqI: "(\<And>x y. f x = Some y \<longleftrightarrow> g x = Some y) \<Longrightarrow> f = g"
  by (rule ext) (metis not_Some_eq)

lemma injective_values_sub: "injective_values g \<Longrightarrow> (\<And>k w. f k = Some w \<Longrightarrow> g k = Some w) \<Longrightarrow> injective_values f"
  unfolding injective_values_def by blast

lemma invert_ids_upd:
  assumes "injective_values ((fmlookup m)(i \<mapsto> v))" "fmlookup m i = None"
  shows "invert_ids (fmupd i v m) = (invert_ids m)(v \<mapsto> i)"
proof (rule option_fun_eqI)
  fix x y
  have m: "injective_values (fmlookup m)"
    by (rule injective_values_sub [OF assms(1)]) (use assms(2) in auto)
  have "fmlookup (fmupd i v m) = (fmlookup m)(i \<mapsto> v)" by (rule ext) simp
  with assms(1) have "injective_values (fmlookup (fmupd i v m))" by simp
  note I = invert_ids_iff [OF this] invert_ids_iff [OF m]
  show "invert_ids (fmupd i v m) x = Some y \<longleftrightarrow> ((invert_ids m)(v \<mapsto> i)) x = Some y"
    using injective_valuesD [OF assms(1), of i v y] assms(2) unfolding I(1) by (cases "y = i") (auto simp: I(2))
qed

lemma view_ok_extend:
  assumes "view_ok A v" "vw_get v n = None" "canonical_type t = t"
  shows "view_ok A (v\<lparr>vw_get := (vw_get v)(n \<mapsto> t)\<rparr>)"
proof -
  have "i \<noteq> n" if "vw_get v i = Some u" for i u using that assms(2) by auto
  then show ?thesis using assms unfolding view_ok_def by (simp add: fun_upd_def) metis
qed

lemma injective_values_upd:
  "injective_values f \<Longrightarrow> (\<forall>i. f i \<noteq> Some v) \<Longrightarrow> injective_values (f(n \<mapsto> v))"
  by (auto simp: injective_values_def)

lemma view_ok_nominal:
  assumes "view_ok A v" "vw_get v n = Some t" "identity_matches_type A d t" "\<forall>i. vw_nominal v i \<noteq> Some d"
  shows "view_ok A (v\<lparr>vw_nominal := (vw_nominal v)(n \<mapsto> d)\<rparr>)"
  using assms injective_values_upd [OF _ assms(4)] unfolding view_ok_def by simp

lemma view_ok_parameter:
  assumes "view_ok A v" "vw_get v n = Some t" "is_plain_named t" "valid_owner A p" "\<forall>i. vw_parameter v i \<noteq> Some p"
  shows "view_ok A (v\<lparr>vw_parameter := (vw_parameter v)(n \<mapsto> p)\<rparr>)"
  using assms injective_values_upd [OF _ assms(5)] unfolding view_ok_def by simp

lemma store_get_beyond [simp]: "store_get s (store_len s) = None"
  by (simp add: store_get_nth nth_opt_def)

lemma base_len_le [simp]: "base_len s \<le> store_len s"
  by (simp add: store_len_def)

lemma view_of_snoc:
  "view_of (s\<lparr>sto_types := sto_types s @ [t]\<rparr>) = (view_of s)\<lparr>vw_get := (store_get s)(store_len s \<mapsto> t)\<rparr>"
  by (simp add: view_of_def store_get_snoc)

lemma view_of_identity:
  "view_of (s\<lparr>sto_nominal_identities := fmupd i d (sto_nominal_identities s)\<rparr>) =
     (view_of s)\<lparr>vw_nominal := (nominal_identity s)(i \<mapsto> d)\<rparr>"
  "view_of (s\<lparr>sto_parameter_identities := fmupd i p (sto_parameter_identities s), sto_parameter_ids := r\<rparr>) =
     (view_of s)\<lparr>vw_parameter := (parameter_identity s)(i \<mapsto> p)\<rparr>"
  by (simp_all add: view_of_def)

lemma store_ok_snoc:
  assumes "store_ok A s"
  shows "store_ok A (s\<lparr>sto_types := sto_types s @ [canonical_type t]\<rparr>)"
proof -
  have "view_ok A (view_of (s\<lparr>sto_types := sto_types s @ [canonical_type t]\<rparr>))"
    unfolding view_of_snoc using view_ok_extend [OF store_ok_view [OF assms], of "store_len s" "canonical_type t"]
    by (simp add: view_of_def)
  with assms show ?thesis by (simp add: store_ok_def store_snoc)
qed

lemma store_ok_nominal:
  assumes ok: "store_ok A s" and "store_get s n = Some t" "identity_matches_type A d t"
    "\<forall>i. nominal_identity s i \<noteq> Some d" "base_len s \<le> n"
  shows "store_ok A (s\<lparr>sto_nominal_identities := fmupd n d (sto_nominal_identities s)\<rparr>)"
proof -
  have "view_ok A (view_of (s\<lparr>sto_nominal_identities := fmupd n d (sto_nominal_identities s)\<rparr>))"
    unfolding view_of_identity using view_ok_nominal [OF store_ok_view [OF ok], of n t d] assms(2-4)
    by (simp add: view_of_def)
  with ok assms(5) show ?thesis by (simp add: store_ok_def)
qed

lemma store_ok_parameter:
  assumes ok: "store_ok A s" and "store_get s n = Some t" "is_plain_named t" "valid_owner A p"
    "\<forall>i. parameter_identity s i \<noteq> Some p" "base_len s \<le> n" "parameter_identity s n = None"
  shows "store_ok A (s\<lparr>sto_parameter_identities := fmupd n p (sto_parameter_identities s),
           sto_parameter_ids := (sto_parameter_ids s)(p \<mapsto> n)\<rparr>)"
    (is "store_ok A ?s")
proof -
  have v: "view_ok A (view_of ?s)"
    unfolding view_of_identity using view_ok_parameter [OF store_ok_view [OF ok], of n t p] assms(2-5)
    by (simp add: view_of_def)
  have none: "fmlookup (sto_parameter_identities s) n = None"
    using assms(7) by (simp add: parameter_identity_def split: option.splits)
  have "injective_values (parameter_identity ?s)" using view_okD(5) [OF v] .
  then have "injective_values ((fmlookup (sto_parameter_identities s))(n \<mapsto> p))"
    by (rule injective_values_sub) (auto simp: parameter_identity_def split: if_splits)
  then have "invert_ids (fmupd n p (sto_parameter_identities s)) = (invert_ids (sto_parameter_identities s))(p \<mapsto> n)"
    using none by (rule invert_ids_upd)
  with ok v assms(6) show ?thesis by (simp add: store_ok_def)
qed

section \<open>Accepted stores are well formed\<close>

lemma nominals_valid_iff:
  "nominals_valid A n types keys es \<longleftrightarrow>
     (\<forall>(i, d) \<in> set es. n \<le> i \<and> (\<exists>t. nth_opt types (i - n) = Some t \<and> identity_matches_type A d t)) \<and>
     distinct (map snd es) \<and> keys \<inter> set (map snd es) = {}"
proof (induction es arbitrary: keys)
  case (Cons e es)
  obtain i d where e: "e = (i, d)" by (cases e)
  have "(case Option.bind (checked_sub i n) (nth_opt types) of None \<Rightarrow> False | Some t \<Rightarrow> identity_matches_type A d t) \<longleftrightarrow>
      n \<le> i \<and> (\<exists>t. nth_opt types (i - n) = Some t \<and> identity_matches_type A d t)"
    by (auto simp: checked_sub_def split: option.splits)
  with Cons.IH [of "insert d keys"] show ?case by (auto simp: e)
qed simp

lemma parameters_valid_iff:
  "parameters_valid A n types nominals keys es \<longleftrightarrow>
     (\<forall>(i, p) \<in> set es. valid_owner A p \<and> n \<le> i \<and> (\<exists>t. nth_opt types (i - n) = Some t \<and> is_plain_named t) \<and>
        i |\<notin>| fmdom nominals) \<and>
     distinct (map snd es) \<and> keys \<inter> set (map snd es) = {}"
proof (induction es arbitrary: keys)
  case (Cons e es)
  obtain i p where e: "e = (i, p)" by (cases e)
  have "(case Option.bind (checked_sub i n) (nth_opt types) of None \<Rightarrow> False | Some t \<Rightarrow> is_plain_named t) \<longleftrightarrow>
      n \<le> i \<and> (\<exists>t. nth_opt types (i - n) = Some t \<and> is_plain_named t)"
    by (auto simp: checked_sub_def split: option.splits)
  with Cons.IH [of "insert p keys"] show ?case by (auto simp: e)
qed simp

lemma distinct_entries_iff: "distinct (map snd (fmap_entries m)) \<longleftrightarrow> injective_values (fmlookup m)"
proof
  assume d: "distinct (map snd (fmap_entries m))"
  show "injective_values (fmlookup m)"
    unfolding injective_values_def
  proof (intro allI impI)
    fix i j v assume "fmlookup m i = Some v" "fmlookup m j = Some v"
    then have "(i, v) \<in> set (fmap_entries m)" "(j, v) \<in> set (fmap_entries m)" by (simp_all add: fmap_entries_iff)
    with d show "i = j" unfolding distinct_map inj_on_def by force
  qed
next
  assume "injective_values (fmlookup m)"
  with fmap_entries_distinct [of m] show "distinct (map snd (fmap_entries m))"
    unfolding distinct_map inj_on_def injective_values_def by (metis fmap_entries_iff prod.collapse)
qed

lemma nth_opt_map [simp]: "nth_opt (map f xs) i = map_option f (nth_opt xs i)"
  by (simp add: nth_opt_def)

lemma entries_ball: "(\<forall>(i, d) \<in> set (fmap_entries m). P i d) \<longleftrightarrow> (\<forall>i d. fmlookup m i = Some d \<longrightarrow> P i d)"
  using fmap_entries_iff [of _ _ m] by fastforce

lemma deserialize_ok:
  assumes "store_deserialize A f = Inr s"
  shows "store_ok A s"
proof -
  let ?N = "fl_nominal_identities f" and ?P = "fl_parameter_identities f"
  from assms have n: "nominals_valid A 0 (fl_types f) {} (fmap_entries ?N)"
    and p: "parameters_valid A 0 (fl_types f) ?N {} (fmap_entries ?P)"
    and s: "s = \<lparr>sto_base = None, sto_types = map canonical_type (fl_types f), sto_nominal_identities = ?N,
       sto_parameter_identities = ?P, sto_parameter_ids = invert_ids ?P\<rparr>"
    by (auto simp: store_deserialize_def split: if_splits)
  have g: "store_get s = (\<lambda>i. map_option canonical_type (nth_opt (fl_types f) i))"
    "nominal_identity s = fmlookup ?N" "parameter_identity s = fmlookup ?P"
    by (auto simp: fun_eq_iff s store_get_def nominal_identity_def parameter_identity_def split: option.split)
  have "view_ok A (view_of s)"
    using n p unfolding view_ok_def view_of_def g nominals_valid_iff parameters_valid_iff distinct_entries_iff entries_ball
    by auto (metis identity_matches_canonical_type is_plain_named_canonical_type)+
  then show ?thesis by (simp add: store_ok_def s)
qed

lemma injective_values_case:
  assumes "injective_values f" "injective_values g" "\<And>i j v. f i = Some v \<Longrightarrow> g j \<noteq> Some v"
  shows "injective_values (\<lambda>i. case f i of None \<Rightarrow> g i | Some d \<Rightarrow> Some d)"
  unfolding injective_values_def
proof (intro allI impI)
  fix i j v
  assume "(case f i of None \<Rightarrow> g i | Some d \<Rightarrow> Some d) = Some v" "(case f j of None \<Rightarrow> g j | Some d \<Rightarrow> Some d) = Some v"
  with assms(3) [of i v j] assms(3) [of j v i] injective_valuesD [OF assms(1), of i v j] injective_valuesD [OF assms(2), of i v j]
  show "i = j" by (auto split: option.splits)
qed

lemma with_local_parts_ok:
  assumes "with_local_parts A b types nominals parameters = Inr s" "store_ok A (with_base b)"
  shows "store_ok A s"
proof -
  let ?n = "length (fz_types b)"
  from assms(1) have n: "nominals_valid A ?n types (set (map snd (fmap_entries (fz_nominal_identities b)))) (fmap_entries nominals)"
    and p: "parameters_valid A ?n types nominals (set (map snd (fmap_entries (fz_parameter_identities b)))) (fmap_entries parameters)"
    and s: "s = \<lparr>sto_base = Some b, sto_types = map canonical_type types, sto_nominal_identities = nominals,
       sto_parameter_identities = parameters, sto_parameter_ids = invert_ids parameters\<rparr>"
    by (auto simp: with_local_parts_def split: if_splits)
  have b: "view_ok A (view_of (with_base b))" using assms(2) by (simp add: store_ok_def)
  note bD = view_okD [OF b, unfolded with_base_view]
  have n': "fmlookup nominals i = Some d \<Longrightarrow> ?n \<le> i \<and> (\<exists>t. nth_opt types (i - ?n) = Some t \<and> identity_matches_type A d t)"
    and nd: "fmlookup nominals i = Some d \<Longrightarrow> fmlookup (fz_nominal_identities b) j \<noteq> Some d" for i j d
    using n unfolding nominals_valid_iff entries_ball fmap_entries_values by blast+
  have p': "fmlookup parameters i = Some q \<Longrightarrow> ?n \<le> i \<and> valid_owner A q \<and> (\<exists>t. nth_opt types (i - ?n) = Some t \<and> is_plain_named t)"
    and pd: "fmlookup parameters i = Some q \<Longrightarrow> fmlookup (fz_parameter_identities b) j \<noteq> Some q" for i j q
    using p unfolding parameters_valid_iff entries_ball fmap_entries_values by blast+
  have inj: "injective_values (fmlookup nominals)" "injective_values (fmlookup parameters)"
    using n p unfolding nominals_valid_iff parameters_valid_iff distinct_entries_iff by blast+
  have g: "store_get s i = (if i < ?n then nth_opt (fz_types b) i else map_option canonical_type (nth_opt types (i - ?n)))"
    "nominal_identity s i = (case fmlookup nominals i of Some d \<Rightarrow> Some d | None \<Rightarrow> fmlookup (fz_nominal_identities b) i)"
    "parameter_identity s i = (case fmlookup parameters i of Some d \<Rightarrow> Some d | None \<Rightarrow> fmlookup (fz_parameter_identities b) i)" for i
    by (simp_all add: s store_get_def nominal_identity_def parameter_identity_def split: option.split)
  have lt: "nth_opt (fz_types b) i = Some t \<Longrightarrow> i < ?n" for i t by (simp add: nth_opt_Some_iff)
  have "view_ok A (view_of s)"
    unfolding view_ok_def view_of_def store_view.select_convs
  proof (intro conjI allI impI)
    fix i t assume "store_get s i = Some t"
    with bD(1) [of i t] show "canonical_type t = t" by (auto simp: g split: if_splits)
  next
    fix i d assume "nominal_identity s i = Some d"
    then show "\<exists>t. store_get s i = Some t \<and> identity_matches_type A d t"
      using n' [of i d] bD(2) [of i d] lt [of i] by (fastforce simp: g split: option.splits)
  next
    fix i q assume q: "parameter_identity s i = Some q"
    then show "valid_owner A q" using p' [of i q] bD(3) [of i q] by (auto simp: g split: option.splits)
    from q show "\<exists>t. store_get s i = Some t \<and> is_plain_named t"
      using p' [of i q] bD(3) [of i q] lt [of i] by (fastforce simp: g split: option.splits)
  next
    show "injective_values (nominal_identity s)"
      unfolding g [abs_def] using inj(1) bD(4) nd by (intro injective_values_case) blast+
    show "injective_values (parameter_identity s)"
      unfolding g [abs_def] using inj(2) bD(5) pd by (intro injective_values_case) blast+
  qed
  then show ?thesis
    using assms(2) n' p' by (auto simp: store_ok_def s with_base_view fmlookup_dom_iff)
qed

section \<open>Freezing\<close>

lemma type_base_new_fields:
  assumes "store_len s \<le> 2 ^ 32"
  shows "fz_types (type_base_new A s) = all_types s"
    "fmlookup (fz_nominal_identities (type_base_new A s)) = nominal_identity s"
    "fmlookup (fz_parameter_identities (type_base_new A s)) = parameter_identity s"
    "fz_parameter_ids (type_base_new A s) = invert_ids (fz_parameter_identities (type_base_new A s))"
    "fz_ids (type_base_new A s) = ordinary_ids (nominal_identities s) (parameter_identities s) (enumerate 0 (all_types s))"
proof -
  show t: "fz_types (type_base_new A s) = all_types s"
    by (simp add: type_base_new_def Let_def store_iter_types all_types_def)
  show "fmlookup (fz_nominal_identities (type_base_new A s)) = nominal_identity s"
    "fmlookup (fz_parameter_identities (type_base_new A s)) = parameter_identity s"
    "fz_parameter_ids (type_base_new A s) = invert_ids (fz_parameter_identities (type_base_new A s))"
    by (auto simp: type_base_new_def Let_def fmlookup_identities fun_eq_iff)
  have "map (\<lambda>(i, t). (type_id_of i, t)) (enumerate 0 (all_types s)) = enumerate 0 (all_types s)"
    using store_iter_small [OF assms] by (simp add: store_iter_def all_types_def)
  with t show "fz_ids (type_base_new A s) = ordinary_ids (nominal_identities s) (parameter_identities s) (enumerate 0 (all_types s))"
    by (simp add: type_base_new_def Let_def)
qed

lemma frozen_view:
  assumes "store_len s \<le> 2 ^ 32"
  shows "view_of (with_base (type_base_new A s)) = view_of s"
proof -
  have "store_get s = nth_opt (all_types s)" by (rule ext) (rule store_get_nth)
  then show ?thesis by (simp add: view_of_def with_base_view type_base_new_fields [OF assms])
qed

lemma ordinary_ids_sound:
  "ordinary_ids nominals parameters es t = Some i \<Longrightarrow>
     (i, t) \<in> set es \<and> fmlookup nominals i = None \<and> fmlookup parameters i = None"
  by (auto simp: ordinary_ids_def fmdom_notD dest!: map_of_SomeD)

lemma freeze_ok:
  assumes "store_ok A s" "store_len s \<le> 2 ^ 32"
  shows "store_ok A (with_base (type_base_new A s))"
proof -
  let ?b = "type_base_new A s"
  have "nth_opt (fz_types ?b) i = Some t \<and> ordinary (with_base ?b) i" if "fz_ids ?b t = Some i" for t i
    using ordinary_ids_sound [of "nominal_identities s" "parameter_identities s" "enumerate 0 (all_types s)" t i] that
    by (auto simp: type_base_new_fields [OF assms(2)] ordinary_def with_base_view fmlookup_identities
        nth_opt_Some_iff in_set_enumerate_eq)
  moreover have "view_ok A (view_of (with_base ?b))" using store_ok_view [OF assms(1)] by (simp add: frozen_view [OF assms(2)])
  moreover have "invert_ids (fmempty :: (type_id, 'c canonical_type_parameter_identity) fmap) = Map.empty"
    by (rule option_fun_eqI) (simp add: invert_ids_iff injective_values_def)
  ultimately show ?thesis
    using type_base_new_fields(4) [OF assms(2), of A] by (auto simp: store_ok_def with_base_view) (simp_all add: with_base_def)
qed

section \<open>Well-formed interners\<close>

definition interner_ok :: "('s::linorder, 'd, 'g) code_api \<Rightarrow> ('s, 'd, 'g) type_interner \<Rightarrow> bool" where
  "interner_ok A x \<longleftrightarrow>
     store_ok A (in_store x) \<and>
     (\<forall>t i. in_types x t = Some i \<longrightarrow>
        store_get (in_store x) i = Some t \<and> ordinary (in_store x) i \<and> base_len (in_store x) \<le> i) \<and>
     (\<forall>d i. in_canonical_nominals x d = Some i \<longleftrightarrow> nominal_identity (in_store x) i = Some d)"

lemma interner_okD:
  assumes "interner_ok A x"
  shows "store_ok A (in_store x)"
    "in_types x t = Some i \<Longrightarrow> store_get (in_store x) i = Some t"
    "in_types x t = Some i \<Longrightarrow> ordinary (in_store x) i"
    "in_types x t = Some i \<Longrightarrow> base_len (in_store x) \<le> i"
    "in_canonical_nominals x d = Some i \<longleftrightarrow> nominal_identity (in_store x) i = Some d"
  using assms by (auto simp: interner_ok_def)

lemma from_store_types:
  assumes "store_len s \<le> 2 ^ 32"
  shows "in_types (interner_from_store s) t = Some i \<Longrightarrow>
    store_get s i = Some t \<and> ordinary s i \<and> base_len s \<le> i"
proof -
  have e: "map (\<lambda>(i, t). (type_id_of i, t)) (enumerate (base_len s) (sto_types s)) = enumerate (base_len s) (sto_types s)"
  proof -
    have "map (\<lambda>(i, t). (type_id_of i, t)) (enumerate (base_len s) (sto_types s)) = map id (enumerate (base_len s) (sto_types s))"
      using assms by (intro map_cong) (auto simp: in_set_enumerate_eq store_len_def)
    then show ?thesis by simp
  qed
  assume "in_types (interner_from_store s) t = Some i"
  then have "(i, t) \<in> set (enumerate (base_len s) (sto_types s))" "ordinary s i"
    unfolding interner_from_store_def e ordinary_def by (auto dest!: map_of_SomeD)
  then show ?thesis by (auto simp: in_set_enumerate_eq store_get_def nth_opt_def)
qed

lemma from_store_ok:
  assumes "store_ok A s" "store_len s \<le> 2 ^ 32"
  shows "interner_ok A (interner_from_store s)"
proof -
  have "injective_values (fmlookup (nominal_identities s))"
    using view_okD(4) [OF store_ok_view [OF assms(1)]] by (simp add: fmlookup_identities [abs_def])
  then have "in_canonical_nominals (interner_from_store s) d = Some i \<longleftrightarrow> nominal_identity s i = Some d" for d i
    by (simp add: interner_from_store_def invert_ids_iff fmlookup_identities)
  with from_store_types [OF assms(2)] assms(1) show ?thesis
    by (simp add: interner_ok_def) (simp add: interner_from_store_def)
qed

lemma store_ok_empty: "store_ok A store_new"
proof -
  have "invert_ids (fmempty :: (type_id, 'c canonical_type_parameter_identity) fmap) = Map.empty"
    by (rule option_fun_eqI) (simp add: invert_ids_iff injective_values_def)
  then show ?thesis
    by (simp add: store_ok_def store_new_def view_ok_def view_of_def store_get_def nominal_identity_def
        parameter_identity_def injective_values_def nth_opt_def)
qed

lemma interner_new_ok: "interner_ok A interner_new"
  using store_ok_empty
  by (simp add: interner_ok_def interner_new_def) (simp add: store_new_def nominal_identity_def)

text \<open>Interning a type that is known changes nothing; a new one is appended.\<close>

definition known_type :: "('s, 'd, 'g) type_interner \<Rightarrow> 's ty \<Rightarrow> type_id option" where
  "known_type x t =
     (case in_types x t of Some i \<Rightarrow> Some i | None \<Rightarrow> Option.bind (sto_base (in_store x)) (\<lambda>b. fz_ids b t))"

definition append_type :: "('s::linorder) ty \<Rightarrow> ('s, 'd, 'g) type_store \<Rightarrow> ('s, 'd, 'g) type_store" where
  "append_type t s = s\<lparr>sto_types := sto_types s @ [canonical_type t]\<rparr>"

lemma append_type_simps [simp]:
  "store_get (append_type t s) = (store_get s)(store_len s \<mapsto> canonical_type t)"
  "nominal_identity (append_type t s) = nominal_identity s"
  "parameter_identity (append_type t s) = parameter_identity s"
  "base_len (append_type t s) = base_len s" "store_len (append_type t s) = Suc (store_len s)"
  "sto_base (append_type t s) = sto_base s"
  by (simp_all add: append_type_def store_get_snoc store_snoc)

lemma append_type_ok: "store_ok A s \<Longrightarrow> store_ok A (append_type t s)"
  unfolding append_type_def by (rule store_ok_snoc)

lemma append_type_ordinary [simp]: "ordinary (append_type t s) = ordinary s"
  by (simp add: ordinary_def fun_eq_iff)

lemma beyond_ordinary: "store_ok A s \<Longrightarrow> ordinary s (store_len s)"
  using identity_in_range by blast

lemma intern_unfold:
  assumes "store_len (in_store x) < 2 ^ 32"
  shows "interner_intern t x =
    (case known_type x (canonical_type t) of
       Some i \<Rightarrow> (i, x)
     | None \<Rightarrow> (store_len (in_store x),
         x\<lparr>in_store := append_type t (in_store x), in_types := (in_types x)(canonical_type t \<mapsto> store_len (in_store x))\<rparr>))"
  using assms
  by (simp add: interner_intern_def known_type_def store_intern_def append_type_def Let_def split: option.split)

lemma known_type_sound:
  assumes "interner_ok A x" "known_type x t = Some i"
  shows "store_get (in_store x) i = Some t \<and> ordinary (in_store x) i"
proof (cases "in_types x t")
  case (Some j)
  with assms interner_okD(2,3) [OF assms(1), of t j] show ?thesis by (simp add: known_type_def)
next
  case None
  with assms(2) obtain b where b: "sto_base (in_store x) = Some b" "fz_ids b t = Some i"
    by (auto simp: known_type_def split: option.splits bind_splits)
  have ok: "store_ok A (in_store x)" using interner_okD(1) [OF assms(1)] .
  with b have o: "nth_opt (fz_types b) i = Some t" "ordinary (with_base b) i" by (auto simp: store_ok_def)
  then have "i < length (fz_types b)" by (simp add: nth_opt_Some_iff)
  with ok b(1) have "i |\<notin>| fmdom (sto_nominal_identities (in_store x))" "i |\<notin>| fmdom (sto_parameter_identities (in_store x))"
    by (auto simp: store_ok_def)
  with o b \<open>i < length (fz_types b)\<close> show ?thesis
    by (auto simp: store_get_def ordinary_def with_base_view nominal_identity_def parameter_identity_def fmdom_notD)
qed

lemma intern_ok:
  assumes "interner_ok A x" "store_len (in_store x) < 2 ^ 32"
  shows "interner_ok A (snd (interner_intern t x))"
proof (cases "known_type x (canonical_type t)")
  case None
  let ?s = "in_store x" and ?n = "store_len (in_store x)"
  note D = interner_okD [OF assms(1)]
  have "in_types x u = Some i \<Longrightarrow> i < ?n" for u i using D(2) [of u i] by (simp add: store_get_Some_iff)
  then have "interner_ok A (x\<lparr>in_store := append_type t ?s, in_types := (in_types x)(canonical_type t \<mapsto> ?n)\<rparr>)"
    using append_type_ok [OF D(1)] D(2-5) beyond_ordinary [OF D(1)] unfolding interner_ok_def
    by (auto split: if_splits)
  with None assms(2) show ?thesis by (simp add: intern_unfold)
qed (use assms in \<open>simp add: intern_unfold\<close>)

lemma canonical_nominal_unfold:
  assumes "store_len (in_store x) < 2 ^ 32"
  shows "intern_canonical_nominal A d t x =
     (if \<not> identity_matches_type A d t
      then (Inl (lit ''canonical nominal identity has an incompatible declaration kind''), x)
      else case in_canonical_nominals x d of
        Some i \<Rightarrow>
          if store_get (in_store x) i = Some t then (Inr i, x)
          else (Inl (lit ''canonical nominal identity has conflicting layouts''), x)
      | None \<Rightarrow>
         (Inr (store_len (in_store x)),
          x\<lparr>in_store := (append_type t (in_store x))\<lparr>sto_nominal_identities :=
               fmupd (store_len (in_store x)) d (sto_nominal_identities (append_type t (in_store x)))\<rparr>,
            in_canonical_nominals := (in_canonical_nominals x)(d \<mapsto> store_len (in_store x))\<rparr>))"
  using assms by (simp add: intern_canonical_nominal_def store_intern_def append_type_def split: option.split)

lemma canonical_parameter_unfold:
  assumes "store_len (in_store x) < 2 ^ 32"
  shows "intern_canonical_parameter A p nm x =
     (if \<not> valid_owner A p \<or> nm = [] then (Inl (lit ''invalid canonical type parameter''), x)
      else case canonical_parameter (in_store x) p of
          Some i \<Rightarrow>
            if store_get (in_store x) i = Some (TyNamed nm None) \<or> is_implementation_owner A (pi_owner p) then (Inr i, x)
            else (Inl (lit ''canonical parameter has conflicting declaration''), x)
        | None \<Rightarrow>
           (Inr (store_len (in_store x)),
            x\<lparr>in_store := (append_type (TyNamed nm None) (in_store x))\<lparr>
                sto_parameter_identities := fmupd (store_len (in_store x)) p
                  (sto_parameter_identities (append_type (TyNamed nm None) (in_store x))),
                sto_parameter_ids := (sto_parameter_ids (append_type (TyNamed nm None) (in_store x)))(p \<mapsto> store_len (in_store x))\<rparr>\<rparr>))"
  using assms by (simp add: intern_canonical_parameter_def store_intern_def append_type_def Let_def split: option.split)

lemma intern_canonical_nominal_ok:
  assumes "interner_ok A x" "store_len (in_store x) < 2 ^ 32"
  shows "interner_ok A (snd (intern_canonical_nominal A d t x))"
proof (cases "identity_matches_type A d t \<and> in_canonical_nominals x d = None")
  case True
  let ?s = "in_store x" and ?n = "store_len (in_store x)"
  let ?a = "append_type t ?s"
  note D = interner_okD [OF assms(1)]
  have fresh: "\<forall>i. nominal_identity ?s i \<noteq> Some d" using True D(5) [of d] by simp
  have n: "nominal_identity ?s ?n = None" using beyond_ordinary [OF D(1)] by (simp add: ordinary_def)
  have lt: "in_types x u = Some i \<Longrightarrow> i < ?n" for u i using D(2) [of u i] by (simp add: store_get_Some_iff)
  have s: "store_ok A (?a\<lparr>sto_nominal_identities := fmupd ?n d (sto_nominal_identities ?a)\<rparr>)"
    using True fresh by (intro store_ok_nominal [OF append_type_ok [OF D(1)], where t = "canonical_type t"]) simp_all
  have "interner_ok A (x\<lparr>in_store := ?a\<lparr>sto_nominal_identities := fmupd ?n d (sto_nominal_identities ?a)\<rparr>,
      in_canonical_nominals := (in_canonical_nominals x)(d \<mapsto> ?n)\<rparr>)"
    unfolding interner_ok_def
    using s D(2-5) fresh n lt by (auto simp: ordinary_def split: if_splits) blast+
  with True assms(2) show ?thesis by (simp add: canonical_nominal_unfold)
qed (use assms in \<open>auto simp: canonical_nominal_unfold split: option.split\<close>)

lemma intern_canonical_parameter_ok:
  assumes "interner_ok A x" "store_len (in_store x) < 2 ^ 32"
  shows "interner_ok A (snd (intern_canonical_parameter A p nm x))"
proof (cases "valid_owner A p \<and> canonical_parameter (in_store x) p = None")
  case True
  let ?s = "in_store x" and ?n = "store_len (in_store x)"
  let ?a = "append_type (TyNamed nm None) ?s"
  note D = interner_okD [OF assms(1)]
  have fresh: "\<forall>i. parameter_identity ?s i \<noteq> Some p" using True canonical_parameter_iff [OF D(1), of p] by simp
  have n: "parameter_identity ?s ?n = None" using beyond_ordinary [OF D(1)] by (simp add: ordinary_def)
  have lt: "in_types x u = Some i \<Longrightarrow> i < ?n" for u i using D(2) [of u i] by (simp add: store_get_Some_iff)
  let ?s' = "?a\<lparr>sto_parameter_identities := fmupd ?n p (sto_parameter_identities ?a),
      sto_parameter_ids := (sto_parameter_ids ?a)(p \<mapsto> ?n)\<rparr>"
  have s: "store_ok A ?s'"
    using True fresh n by (intro store_ok_parameter [OF append_type_ok [OF D(1)], where t = "TyNamed nm None"]) simp_all
  have "interner_ok A (x\<lparr>in_store := ?s'\<rparr>)"
    unfolding interner_ok_def using s D(2-5) lt by (auto simp: ordinary_def) blast
  with True assms(2) interner_okD show ?thesis using assms(1) by (simp add: canonical_parameter_unfold)
qed (use assms in \<open>auto simp: canonical_parameter_unfold split: option.split\<close>)

lemma define_nominal_unfold:
  assumes "define_nominal i rep x = Some y"
  obtains n where "base_len (in_store x) \<le> i" "store_get (in_store x) i = Some (TyNominal n)"
    "in_store y = (in_store x)\<lparr>sto_types := (sto_types (in_store x))[i - base_len (in_store x) :=
       TyNominal (NominalTypeRef (nm_name n) (nm_params n) rep (nm_read_only_erased_view n))]\<rparr>"
    "in_types y = (if nominal_identity (in_store x) i \<noteq> None then in_types x
       else (in_types x)(TyNominal n := None, TyNominal (NominalTypeRef (nm_name n) (nm_params n) rep (nm_read_only_erased_view n)) \<mapsto> i))"
    "in_canonical_nominals y = in_canonical_nominals x"
  using assms
  by (auto simp: define_nominal_def checked_sub_def store_get_def Let_def split: option.splits ty.splits bind_splits if_splits)

lemma store_get_update:
  assumes "base_len s \<le> i" "i < store_len s"
  shows "store_get (s\<lparr>sto_types := (sto_types s)[i - base_len s := t]\<rparr>) = (store_get s)(i \<mapsto> t)"
proof (rule ext)
  fix j
  have "base_len (s\<lparr>sto_types := (sto_types s)[i - base_len s := t]\<rparr>) = base_len s" by (simp add: base_len_def)
  then show "store_get (s\<lparr>sto_types := (sto_types s)[i - base_len s := t]\<rparr>) j = ((store_get s)(i \<mapsto> t)) j"
    using assms by (auto simp: store_get_def nth_opt_def store_len_def nth_list_update)
qed

lemma define_nominal_ok:
  assumes ok: "interner_ok A x" and d: "define_nominal i rep x = Some y"
  shows "interner_ok A y"
proof -
  let ?s = "in_store x"
  note D = interner_okD [OF ok]
  obtain n where i: "base_len ?s \<le> i" "store_get ?s i = Some (TyNominal n)"
    and y: "in_store y = ?s\<lparr>sto_types := (sto_types ?s)[i - base_len ?s :=
         TyNominal (NominalTypeRef (nm_name n) (nm_params n) rep (nm_read_only_erased_view n))]\<rparr>"
       "in_types y = (if nominal_identity ?s i \<noteq> None then in_types x
         else (in_types x)(TyNominal n := None, TyNominal (NominalTypeRef (nm_name n) (nm_params n) rep (nm_read_only_erased_view n)) \<mapsto> i))"
       "in_canonical_nominals y = in_canonical_nominals x"
    by (rule define_nominal_unfold [OF d])
  let ?t = "TyNominal (NominalTypeRef (nm_name n) (nm_params n) rep (nm_read_only_erased_view n))"
  let ?s' = "in_store y"
  have lt: "i < store_len ?s" using i(2) by (simp add: store_get_Some_iff)
  have g: "store_get ?s' = (store_get ?s)(i \<mapsto> ?t)" unfolding y(1) by (rule store_get_update [OF i(1) lt])
  have id: "nominal_identity ?s' = nominal_identity ?s" "parameter_identity ?s' = parameter_identity ?s"
    "base_len ?s' = base_len ?s" "sto_base ?s' = sto_base ?s"
    by (simp_all add: y(1) base_len_def)
  note V = view_okD [OF store_ok_view [OF D(1)]]
  have np: "parameter_identity ?s i = None" using V(3) [of i] i(2) by (cases "parameter_identity ?s i") auto
  have "identity_matches_type A e ?t" if "nominal_identity ?s i = Some e" for e
    using V(2) [OF that] i(2) by simp
  then have "view_ok A (view_of ?s')"
    using V np unfolding view_ok_def view_of_def store_view.select_convs g id
    by (auto simp: is_plain_named_iff) blast
  then have s: "store_ok A ?s'" using D(1) unfolding store_ok_def id by (simp add: y(1))
  have o: "ordinary ?s' = ordinary ?s" by (simp add: ordinary_def fun_eq_iff id)
  have old: "in_types x t = Some i \<Longrightarrow> t = TyNominal n" for t using D(2) [of t i] i(2) by simp
  have "store_get ?s' j = Some t \<and> ordinary ?s' j \<and> base_len ?s' \<le> j" if "in_types y t = Some j" for t j
  proof (cases "nominal_identity ?s i = None")
    case True
    with that y(2) np i(1) D(2-4) [of t j] old [of t] show ?thesis
      by (auto simp: g o id ordinary_def split: if_splits)
  next
    case False
    with that y(2) have "in_types x t = Some j" by simp
    with False D(2-4) [of t j] show ?thesis by (auto simp: g o id ordinary_def)
  qed
  with s D(5) show ?thesis by (simp add: interner_ok_def id y(3))
qed

section \<open>Reachable interners\<close>

text \<open>
  Every way the code makes an interner: from nothing, from a store read back from its flat form, by
  the operations of the interner, by freezing its store and starting a body on it, and by
  putting stored body parts back on a frozen store.
\<close>

inductive interner_reachable :: "('s::linorder, 'd, 'g) code_api \<Rightarrow> ('s, 'd, 'g) type_interner \<Rightarrow> bool" for A where
  reach_new: "interner_reachable A interner_new"
| reach_read: "store_deserialize A f = Inr s \<Longrightarrow> interner_reachable A (interner_from_store s)"
| reach_intern: "interner_reachable A x \<Longrightarrow> interner_reachable A (snd (interner_intern t x))"
| reach_nominal: "interner_reachable A x \<Longrightarrow> interner_reachable A (snd (intern_canonical_nominal A d t x))"
| reach_parameter: "interner_reachable A x \<Longrightarrow> interner_reachable A (snd (intern_canonical_parameter A p nm x))"
| reach_define: "interner_reachable A x \<Longrightarrow> define_nominal i rep x = Some y \<Longrightarrow> interner_reachable A y"
| reach_freeze: "interner_reachable A x \<Longrightarrow>
    interner_reachable A (interner_from_store (with_base (type_base_new A (in_store x))))"
| reach_parts: "interner_reachable A x \<Longrightarrow>
    with_local_parts A (type_base_new A (in_store x)) types nominals parameters = Inr s \<Longrightarrow>
    interner_reachable A (interner_from_store s)"

lemma intern_len: "store_len (in_store x) \<le> store_len (in_store (snd (interner_intern t x))) \<and>
    store_len (in_store (snd (interner_intern t x))) \<le> Suc (store_len (in_store x))"
  by (auto simp: interner_intern_def store_intern_def store_snoc Let_def split: option.split)

lemma canonical_len:
  "store_len (in_store x) \<le> store_len (in_store (snd (intern_canonical_nominal A d t x)))"
  "store_len (in_store x) \<le> store_len (in_store (snd (intern_canonical_parameter A p nm x)))"
  by (auto simp: intern_canonical_nominal_def intern_canonical_parameter_def store_intern_def store_snoc Let_def split: option.split)

lemma unchanged_at_limit:
  assumes "store_len (in_store (snd (interner_intern t x))) = store_len (in_store x)"
  shows "snd (interner_intern t x) = x"
  using assms by (auto simp: interner_intern_def store_intern_def store_snoc Let_def split: option.splits)

lemma frozen_length [simp]: "length (fz_types (type_base_new A s)) = store_len s"
proof -
  have "fz_types (type_base_new A s) = all_types s"
    by (simp add: type_base_new_def Let_def store_iter_types all_types_def)
  then show ?thesis by simp
qed

lemma in_store_from_store [simp]: "in_store (interner_from_store s) = s"
  by (simp add: interner_from_store_def)

lemma reachable_ok:
  assumes "interner_reachable A x" "store_len (in_store x) \<le> 2 ^ 32"
  shows "interner_ok A x"
  using assms
proof (induction rule: interner_reachable.induct)
  case reach_new
  show ?case by (rule interner_new_ok)
next
  case (reach_read f s)
  then show ?case using from_store_ok [OF deserialize_ok] by simp
next
  case (reach_intern x t)
  let ?y = "snd (interner_intern t x)"
  have ok: "interner_ok A x" using reach_intern intern_len [of x t] by simp
  show ?case
  proof (cases "store_len (in_store x) < 2 ^ 32")
    case True with ok show ?thesis by (rule intern_ok)
  next
    case False
    then have "store_len (in_store ?y) = store_len (in_store x)" using intern_len [of x t] reach_intern.prems by linarith
    with ok show ?thesis by (simp add: unchanged_at_limit)
  qed
next
  case (reach_nominal x d t)
  let ?y = "snd (intern_canonical_nominal A d t x)"
  have le: "store_len (in_store x) \<le> store_len (in_store ?y)" by (rule canonical_len)
  then have ok: "interner_ok A x" using reach_nominal by simp
  show ?case
  proof (cases "store_len (in_store x) < 2 ^ 32")
    case True with ok show ?thesis by (rule intern_canonical_nominal_ok)
  next
    case False
    then have "store_len (in_store ?y) = store_len (in_store x)" using le reach_nominal.prems by linarith
    then have "?y = x"
      by (auto simp: intern_canonical_nominal_def store_intern_def store_snoc split: option.splits if_splits)
    with ok show ?thesis by simp
  qed
next
  case (reach_parameter x p nm)
  let ?y = "snd (intern_canonical_parameter A p nm x)"
  have le: "store_len (in_store x) \<le> store_len (in_store ?y)" by (rule canonical_len)
  then have ok: "interner_ok A x" using reach_parameter by simp
  show ?case
  proof (cases "store_len (in_store x) < 2 ^ 32")
    case True with ok show ?thesis by (rule intern_canonical_parameter_ok)
  next
    case False
    then have "store_len (in_store ?y) = store_len (in_store x)" using le reach_parameter.prems by linarith
    then have "?y = x"
      by (auto simp: intern_canonical_parameter_def store_intern_def store_snoc Let_def split: option.splits if_splits)
    with ok show ?thesis by simp
  qed
next
  case (reach_define x i rep y)
  obtain ts where "in_store y = (in_store x)\<lparr>sto_types := ts\<rparr>" "length ts = length (sto_types (in_store x))"
    using define_nominal_unfold [OF reach_define(2)] by (metis length_list_update)
  then have "store_len (in_store y) = store_len (in_store x)" by (simp add: store_len_def base_len_def)
  with reach_define have "interner_ok A x" by simp
  then show ?case by (rule define_nominal_ok) (rule reach_define(2))
next
  case (reach_freeze x)
  have n: "store_len (in_store x) \<le> 2 ^ 32"
    using reach_freeze.prems by (simp add: with_base_view)
  with reach_freeze have "store_ok A (in_store x)" by (simp add: interner_ok_def)
  from from_store_ok [OF freeze_ok [OF this n]] reach_freeze.prems show ?case by simp
next
  case (reach_parts x types nominals parameters s)
  let ?b = "type_base_new A (in_store x)"
  have b: "sto_base s = Some ?b" using reach_parts(2) by (auto simp: with_local_parts_def split: if_splits)
  have n: "store_len (in_store x) \<le> 2 ^ 32"
    using reach_parts.prems b by (simp add: store_len_def [of s])
  with reach_parts have "store_ok A (in_store x)" by (simp add: interner_ok_def)
  from with_local_parts_ok [OF reach_parts(2) freeze_ok [OF this n]] reach_parts.prems show ?case
    by (simp add: from_store_ok)
qed

section \<open>Lookups, polls and round trips\<close>

lemma lookup_index_fold:
  fixes s :: "('s, 'd, 'g) type_store"
  assumes "\<And>j. j < length xs \<Longrightarrow> n + j < store_len s \<and> all_types s ! (n + j) = xs ! j"
    and inv: "\<And>k. (case li_first x k of None \<Rightarrow> [] | Some i \<Rightarrow> [i]) @ li_collisions x k =
        filter (\<lambda>i. ordinary s i \<and> h (all_types s ! i) = k) [0..<n]"
    and "\<And>k. li_first x k = None \<Longrightarrow> li_collisions x k = []"
  shows "(case li_first (fold (lookup_index_add h s) (enumerate n xs) x) k of None \<Rightarrow> [] | Some i \<Rightarrow> [i]) @
      li_collisions (fold (lookup_index_add h s) (enumerate n xs) x) k =
    filter (\<lambda>i. ordinary s i \<and> h (all_types s ! i) = k) [0..<n + length xs]"
  using assms
proof (induction xs arbitrary: n x)
  case (Cons t xs)
  have t: "n < store_len s" "all_types s ! n = t" using Cons.prems(1) [of 0] by simp_all
  let ?y = "lookup_index_add h s (n, t) x"
  have "(case li_first ?y k of None \<Rightarrow> [] | Some i \<Rightarrow> [i]) @ li_collisions ?y k =
      filter (\<lambda>i. ordinary s i \<and> h (all_types s ! i) = k) [0..<Suc n]" for k
    using Cons.prems(2) [of k] Cons.prems(2,3) [of "h t"] t(2)
    by (auto simp: lookup_index_add_def ordinary_def split: option.splits)
  moreover have "li_first ?y k = None \<Longrightarrow> li_collisions ?y k = []" for k
    using Cons.prems(3) [of k] by (auto simp: lookup_index_add_def split: if_splits option.splits)
  moreover have "Suc n + j < store_len s \<and> all_types s ! (Suc n + j) = xs ! j" if "j < length xs" for j
    using Cons.prems(1) [of "Suc j"] that by simp
  ultimately show ?case using Cons.IH [of "Suc n" ?y] by simp
qed simp

lemma lookup_index_split:
  "lookup_index_get h x s t =
     find (\<lambda>i. store_get s i = Some t) ((case li_first x (h t) of None \<Rightarrow> [] | Some i \<Rightarrow> [i]) @ li_collisions x (h t))"
  if "li_first x (h t) = None \<longrightarrow> li_collisions x (h t) = []"
  using that by (auto simp: lookup_index_get_def split: option.split)

lemma lookup_index_first:
  "li_first (fold (lookup_index_add h s) es x) k = None \<Longrightarrow>
   (li_first x k = None \<Longrightarrow> li_collisions x k = []) \<Longrightarrow> li_collisions (fold (lookup_index_add h s) es x) k = []"
proof (induction es arbitrary: x)
  case (Cons e es)
  have "li_first (lookup_index_add h s e x) k = None \<Longrightarrow> li_collisions (lookup_index_add h s e x) k = []"
    using Cons.prems(2) by (cases e) (auto simp: lookup_index_add_def split: if_splits option.splits)
  with Cons.IH [of "lookup_index_add h s e x"] Cons.prems(1) show ?case by simp
qed simp

lemma find_filter: "find P (filter Q xs) = find (\<lambda>x. Q x \<and> P x) xs"
  by (induction xs) auto

lemma find_cong_set: "(\<And>x. x \<in> set xs \<Longrightarrow> P x = Q x) \<Longrightarrow> find P xs = find Q xs"
  by (induction xs) auto

lemma lookup_index_exact_aux:
  assumes "store_len s \<le> 2 ^ 32"
  shows "lookup_index_get h (lookup_index_new h s) s t =
    find (\<lambda>i. ordinary s i \<and> store_get s i = Some t) [0..<store_len s]"
proof -
  let ?e = "\<lparr>li_first = Map.empty, li_collisions = (\<lambda>_. [])\<rparr>"
  let ?x = "lookup_index_new h s"
  have x: "?x = fold (lookup_index_add h s) (enumerate 0 (all_types s)) ?e"
    unfolding lookup_index_new_def store_iter_small [OF assms] by (rule refl)
  have "lookup_index_get h ?x s t =
      find (\<lambda>i. store_get s i = Some t) ((case li_first ?x (h t) of None \<Rightarrow> [] | Some i \<Rightarrow> [i]) @ li_collisions ?x (h t))"
    using lookup_index_first [of h s "enumerate 0 (all_types s)" ?e "h t"] by (intro lookup_index_split) (simp add: x)
  also have "(case li_first ?x (h t) of None \<Rightarrow> [] | Some i \<Rightarrow> [i]) @ li_collisions ?x (h t) =
      filter (\<lambda>i. ordinary s i \<and> h (all_types s ! i) = h t) [0..<store_len s]"
    using lookup_index_fold [of "all_types s" 0 s ?e h "h t"] by (simp add: x)
  finally show ?thesis by (auto simp: find_filter store_get_Some_iff intro: find_cong_set)
qed

lemma freeze_collect_spec:
  "run_spec chk k (freeze_collect chk s es (types, nominals, parameters) k)
     (\<lambda>(types', nominals', parameters').
        types' = types @ map snd es \<and>
        (\<forall>i. fmlookup nominals' i = (if i \<in> set (map fst es) \<and> nominal_identity s i \<noteq> None then nominal_identity s i else fmlookup nominals i)) \<and>
        (\<forall>i. fmlookup parameters' i = (if i \<in> set (map fst es) \<and> parameter_identity s i \<noteq> None then parameter_identity s i else fmlookup parameters i)))"
proof (induction es arbitrary: types nominals parameters k)
  case Nil
  then show ?case by (simp add: run_spec_Done)
next
  case (Cons e es)
  obtain i t where e: "e = (i, t)" by (cases e)
  have up: "fmlookup (case f of None \<Rightarrow> m | Some d \<Rightarrow> fmupd i d m) j = (if j = i \<and> f \<noteq> None then f else fmlookup m j)"
    for f :: "'x option" and m j by (auto split: option.split)
  show ?case unfolding e freeze_collect.simps
    by (rule run_spec_checkpoint, simp only: prod.case, rule run_spec_conseq [OF Cons.IH]) (auto simp: up case_prod_unfold)
qed

lemma freeze_index_spec:
  "run_spec chk k (freeze_index chk nominals parameters es ids k)
     (\<lambda>ids'. ids' = ordinary_ids nominals parameters (map (\<lambda>(i, t). (type_id_of i, t)) es) ++ ids)"
proof (induction es arbitrary: ids k)
  case Nil
  then show ?case by (simp add: run_spec_Done ordinary_ids_def)
next
  case (Cons e es)
  obtain i t where e: "e = (i, t)" by (cases e)
  let ?i = "type_id_of i"
  let ?ids = "if ?i |\<notin>| fmdom nominals \<and> ?i |\<notin>| fmdom parameters
     then (case ids t of None \<Rightarrow> ids(t \<mapsto> ?i) | Some _ \<Rightarrow> ids) else ids"
  have "ordinary_ids nominals parameters (map (\<lambda>(i, t). (type_id_of i, t)) es) ++ ?ids =
      ordinary_ids nominals parameters (map (\<lambda>(i, t). (type_id_of i, t)) (e # es)) ++ ids"
    by (rule ext) (auto simp: e ordinary_ids_def map_add_def split: option.splits)
  with Cons.IH [of _ ?ids] show ?case unfolding e freeze_index.simps
    by (intro run_spec_checkpoint) (simp add: Let_def)
qed

lemma poll_times_spec: "run_spec chk k (poll_times chk n k) (\<lambda>_. True)"
  by (induction n arbitrary: k) (auto intro: run_spec_Done run_spec_checkpoint)

section \<open>Properties\<close>

lemma known_type_append:
  "known_type (x\<lparr>in_store := append_type t (in_store x), in_types := (in_types x)(u \<mapsto> i)\<rparr>) v =
     (if v = u then Some i else known_type x v)"
  by (simp add: known_type_def split: option.split)

lemma all_types_canonical:
  assumes "store_ok A s" "t \<in> set (all_types s)"
  shows "canonical_type t = t"
proof -
  from assms(2) obtain i where "i < store_len s" "all_types s ! i = t" by (auto simp: in_set_conv_nth)
  then have "store_get s i = Some t" by (simp add: store_get_Some_iff)
  then show ?thesis by (rule view_okD(1) [OF store_ok_view [OF assms(1)]])
qed

lemma serialize_accepted:
  assumes ok: "store_ok A s"
  shows "store_deserialize A (store_serialize s) =
    Inr \<lparr>sto_base = None, sto_types = all_types s, sto_nominal_identities = nominal_identities s,
         sto_parameter_identities = parameter_identities s, sto_parameter_ids = invert_ids (parameter_identities s)\<rparr>"
proof -
  note V = view_okD [OF store_ok_view [OF ok]]
  have g: "nth_opt (all_types s) i = store_get s i" for i by (simp add: store_get_nth)
  have f: "fmlookup (nominal_identities s) = nominal_identity s" "fmlookup (parameter_identities s) = parameter_identity s"
    by (simp_all add: fmlookup_identities [abs_def])
  have n: "nominals_valid A 0 (all_types s) {} (fmap_entries (nominal_identities s))"
    unfolding nominals_valid_iff distinct_entries_iff entries_ball f using V(2,4) by (auto simp: g)
  have "i |\<notin>| fmdom (nominal_identities s)" "\<exists>t. store_get s i = Some t \<and> is_plain_named t" "valid_owner A q"
    if "parameter_identity s i = Some q" for i q
    using V(2) [of i] V(3) [OF that] by (cases "nominal_identity s i"; auto simp: fmlookup_dom_iff f)+
  then have p: "parameters_valid A 0 (all_types s) (nominal_identities s) {} (fmap_entries (parameter_identities s))"
    unfolding parameters_valid_iff distinct_entries_iff entries_ball f using V(5) by (auto simp: g)
  have "map canonical_type (all_types s) = all_types s" using all_types_canonical [OF ok] by (intro map_idI)
  with n p show ?thesis by (simp add: store_deserialize_def store_serialize_def store_iter_types)
qed

lemma local_identities:
  assumes ok: "store_ok A s" and b: "sto_base s = Some b"
  shows "fmlookup (sto_nominal_identities s) i = Some d \<Longrightarrow>
      length (fz_types b) \<le> i \<and> nominal_identity s i = Some d \<and> fmlookup (fz_nominal_identities b) j \<noteq> Some d"
    "fmlookup (sto_parameter_identities s) i = Some p \<Longrightarrow>
      length (fz_types b) \<le> i \<and> parameter_identity s i = Some p \<and> fmlookup (fz_parameter_identities b) j \<noteq> Some p"
proof -
  note V = view_okD [OF store_ok_view [OF ok]]
  have vb: "view_ok A (view_of (with_base b))" using ok b by (auto simp: store_ok_def)
  have ge: "fmlookup (sto_nominal_identities s) k = Some e \<Longrightarrow> length (fz_types b) \<le> k"
    "fmlookup (sto_parameter_identities s) k = Some q \<Longrightarrow> length (fz_types b) \<le> k" for k e q
    using ok b by (auto simp: store_ok_def intro: fmdomI)
  {
    assume h: "fmlookup (sto_nominal_identities s) i = Some d"
    then have i: "nominal_identity s i = Some d" by (simp add: nominal_identity_def)
    have "False" if j: "fmlookup (fz_nominal_identities b) j = Some d"
    proof -
      have lt: "j < length (fz_types b)" using view_okD(2) [OF vb, of j d] j by (auto simp: with_base_view nth_opt_Some_iff)
      then have "fmlookup (sto_nominal_identities s) j = None" using ge(1) [of j] by (cases "fmlookup (sto_nominal_identities s) j") auto
      then have "nominal_identity s j = Some d" using j b by (simp add: nominal_identity_def)
      with injective_valuesD [OF V(4) i] ge(1) [OF h] lt show False by auto
    qed
    with h i ge(1) show "length (fz_types b) \<le> i \<and> nominal_identity s i = Some d \<and> fmlookup (fz_nominal_identities b) j \<noteq> Some d" by blast
  }
  assume h: "fmlookup (sto_parameter_identities s) i = Some p"
  then have i: "parameter_identity s i = Some p" by (simp add: parameter_identity_def)
  have "False" if j: "fmlookup (fz_parameter_identities b) j = Some p"
  proof -
    have lt: "j < length (fz_types b)" using view_okD(3) [OF vb, of j p] j by (auto simp: with_base_view nth_opt_Some_iff)
    then have "fmlookup (sto_parameter_identities s) j = None" using ge(2) [of j] by (cases "fmlookup (sto_parameter_identities s) j") auto
    then have "parameter_identity s j = Some p" using j b by (simp add: parameter_identity_def)
    with injective_valuesD [OF V(5) i] ge(2) [OF h] lt show False by auto
  qed
  with h i ge(2) show "length (fz_types b) \<le> i \<and> parameter_identity s i = Some p \<and> fmlookup (fz_parameter_identities b) j \<noteq> Some p" by blast
qed

lemma local_parts_restored:
  assumes ok: "store_ok A s" and b: "sto_base s = Some b"
  shows "with_local_parts A b (sto_types s) (sto_nominal_identities s) (sto_parameter_identities s) = Inr s"
proof -
  note V = view_okD [OF store_ok_view [OF ok]] and L = local_identities [OF ok b]
  let ?n = "length (fz_types b)"
  have get: "?n \<le> i \<Longrightarrow> nth_opt (sto_types s) (i - ?n) = store_get s i" for i using b by (simp add: store_get_def)
  have inj: "injective_values (fmlookup (sto_nominal_identities s))" "injective_values (fmlookup (sto_parameter_identities s))"
    using L by (auto intro: injective_values_sub [OF V(4)] injective_values_sub [OF V(5)])
  have n: "nominals_valid A ?n (sto_types s) (set (map snd (fmap_entries (fz_nominal_identities b)))) (fmap_entries (sto_nominal_identities s))"
    unfolding nominals_valid_iff distinct_entries_iff entries_ball fmap_entries_values
  proof (intro conjI allI impI)
    fix i d assume "fmlookup (sto_nominal_identities s) i = Some d"
    with L(1) [of i d] V(2) [of i d] get [of i] show "?n \<le> i" "\<exists>t. nth_opt (sto_types s) (i - ?n) = Some t \<and> identity_matches_type A d t" by auto
  qed (use inj L in blast)+
  have p: "parameters_valid A ?n (sto_types s) (sto_nominal_identities s) (set (map snd (fmap_entries (fz_parameter_identities b))))
      (fmap_entries (sto_parameter_identities s))"
    unfolding parameters_valid_iff distinct_entries_iff entries_ball fmap_entries_values
  proof (intro conjI allI impI)
    fix i q assume "fmlookup (sto_parameter_identities s) i = Some q"
    then have q: "?n \<le> i" "parameter_identity s i = Some q" using L(2) by blast+
    with V(3) [OF q(2)] get [of i] show "?n \<le> i" "valid_owner A q" "\<exists>t. nth_opt (sto_types s) (i - ?n) = Some t \<and> is_plain_named t" by auto
    show "i |\<notin>| fmdom (sto_nominal_identities s)"
      using V(2) [of i] V(3) [OF q(2)] L(1) [of i] by (cases "fmlookup (sto_nominal_identities s) i") (auto simp: fmlookup_dom_iff)
  qed (use inj L in blast)+
  have "map canonical_type (sto_types s) = sto_types s"
    using all_types_canonical [OF ok] by (intro map_idI) (simp add: all_types_def)
  with n p ok b show ?thesis by (simp add: with_local_parts_def store_ok_def)
qed

text \<open>C15. Interning gives a type one identifier: the identifier leads back to the canonical form of the
  type and is no declaration's or parameter's, interning the type again changes nothing, two types
  get one identifier exactly when their canonical forms agree, and no entry that was
  there is changed. This holds for every interner the code can make, as long as the
  store has not used up the 32-bit identifiers.\<close>

theorem type_interning:
  assumes "interner_reachable A x" "store_len (in_store x) + 1 < 2 ^ 32" "interner_intern t x = (i, y)"
  shows "store_get (in_store y) i = Some (canonical_type t) \<and>
    nominal_identity (in_store y) i = None \<and> parameter_identity (in_store y) i = None \<and>
    interner_intern t y = (i, y) \<and>
    (\<forall>u. fst (interner_intern u y) = i \<longleftrightarrow> canonical_type u = canonical_type t) \<and>
    (\<forall>j v. store_get (in_store x) j = Some v \<longrightarrow> store_get (in_store y) j = Some v)"
proof -
  have ok: "interner_ok A x" using reachable_ok [OF assms(1)] assms(2) by simp
  have okD: "interner_ok A y" using intern_ok [OF ok, of t] assms(2,3) by simp
  have len: "store_len (in_store y) < 2 ^ 32" using intern_len [of x t] assms(2,3) by simp
  have k: "known_type y (canonical_type t) = Some i"
    using assms(2,3) by (auto simp: intern_unfold known_type_append split: option.splits)
  from known_type_sound [OF okD this]
  have s: "store_get (in_store y) i = Some (canonical_type t)" "ordinary (in_store y) i" by simp_all
  have "fst (interner_intern u y) = i \<longleftrightarrow> canonical_type u = canonical_type t" for u
  proof (cases "known_type y (canonical_type u)")
    case None
    have "i < store_len (in_store y)" using s(1) by (simp add: store_get_Some_iff)
    with None k len show ?thesis by (auto simp: intern_unfold)
  next
    case (Some j)
    with known_type_sound [OF okD Some] s(1) k len show ?thesis by (auto simp: intern_unfold)
  qed
  moreover have "store_get (in_store y) j = Some v" if "store_get (in_store x) j = Some v" for j v
  proof -
    have "j < store_len (in_store x)" using that by (simp add: store_get_Some_iff)
    with that assms(2,3) show ?thesis by (auto simp: intern_unfold split: option.splits)
  qed
  ultimately show ?thesis using s k len by (simp add: ordinary_def intern_unfold)
qed

definition example_api :: "(nat, nat, nat) code_api" where
  "example_api = \<lparr>is_type_key = (\<lambda>_. True), is_spec_key = (\<lambda>_. False), is_agent_key = (\<lambda>_. False), declaration_owner = (\<lambda>d. d),
     is_portable_parameter_owner = (\<lambda>_. True), is_implementation_owner = (\<lambda>_. False), base_digest = (\<lambda>_ _ _. [])\<rparr>"

lemma interner_new_len [simp]: "store_len (in_store interner_new) = 0"
  by (simp add: interner_new_def store_new_def store_len_def base_len_def)

theorem type_interning_witness:
  "\<exists>i y. interner_intern (TyTuple []) (interner_new :: (nat, nat, nat) type_interner) = (i, y) \<and>
     store_get (in_store y) i = Some (TyPrimitive UnitT) \<and> fst (interner_intern (TyPrimitive UnitT) y) = i"
proof -
  obtain i y where e: "interner_intern (TyTuple []) (interner_new :: (nat, nat, nat) type_interner) = (i, y)" by fastforce
  from type_interning [OF reach_new [of example_api] _ e] e show ?thesis by (auto simp: canonical_type_def)
qed

text \<open>C31. Declarations never share an identifier: a declaration key or a parameter that is interned
  successfully is found again under the identifier it got and under no other, with the
  type it was declared with (a parameter of an implementation keeps its first spelling). It
  fails exactly on a key of the wrong kind or on a declaration that conflicts with the one
  already there, and then nothing changes; no entry of the store is ever changed.\<close>

theorem canonical_declarations:
  assumes "interner_reachable A x" "store_len (in_store x) < 2 ^ 32"
  shows "(case intern_canonical_nominal A d t x of
      (Inr i, y) \<Rightarrow> store_get (in_store y) i = Some t \<and> (\<forall>j. nominal_identity (in_store y) j = Some d \<longleftrightarrow> j = i) \<and>
        (\<forall>j v. store_get (in_store x) j = Some v \<longrightarrow> store_get (in_store y) j = Some v)
    | (Inl _, y) \<Rightarrow> y = x \<and> (\<not> identity_matches_type A d t \<or>
        (\<exists>i u. nominal_identity (in_store x) i = Some d \<and> store_get (in_store x) i = Some u \<and> u \<noteq> t))) \<and>
    (case intern_canonical_parameter A p nm x of
      (Inr i, y) \<Rightarrow> (\<exists>nm'. store_get (in_store y) i = Some (TyNamed nm' None) \<and> (nm' = nm \<or> is_implementation_owner A (pi_owner p))) \<and>
        (\<forall>j. parameter_identity (in_store y) j = Some p \<longleftrightarrow> j = i) \<and>
        (\<forall>j v. store_get (in_store x) j = Some v \<longrightarrow> store_get (in_store y) j = Some v)
    | (Inl _, y) \<Rightarrow> y = x \<and> (\<not> valid_owner A p \<or> nm = [] \<or>
        (\<exists>i nm'. parameter_identity (in_store x) i = Some p \<and> store_get (in_store x) i = Some (TyNamed nm' None) \<and> nm' \<noteq> nm)))"
proof (rule conjI)
  let ?s = "in_store x"
  have ok: "interner_ok A x" using reachable_ok [OF assms(1)] assms(2) by simp
  note D = interner_okD [OF ok]
  note V = view_okD [OF store_ok_view [OF D(1)]]
  have lt: "store_get ?s j = Some v \<Longrightarrow> j \<noteq> store_len ?s" for j v by (auto simp: store_get_Some_iff)
  have uniq: "nominal_identity ?s i = Some d \<Longrightarrow> nominal_identity ?s j = Some d \<longleftrightarrow> j = i" for i j
    using injective_valuesD [OF V(4)] by blast
  show "case intern_canonical_nominal A d t x of
      (Inr i, y) \<Rightarrow> store_get (in_store y) i = Some t \<and> (\<forall>j. nominal_identity (in_store y) j = Some d \<longleftrightarrow> j = i) \<and>
        (\<forall>j v. store_get ?s j = Some v \<longrightarrow> store_get (in_store y) j = Some v)
    | (Inl _, y) \<Rightarrow> y = x \<and> (\<not> identity_matches_type A d t \<or>
        (\<exists>i u. nominal_identity ?s i = Some d \<and> store_get ?s i = Some u \<and> u \<noteq> t))"
  proof (cases "in_canonical_nominals x d")
    case None
    then have "nominal_identity ?s j \<noteq> Some d" for j using D(5) [of d j] by simp
    with None lt show ?thesis by (auto simp: canonical_nominal_unfold [OF assms(2)])
  next
    case (Some i)
    then have "nominal_identity ?s i = Some d" using D(5) [of d i] by simp
    with Some uniq [OF this] V(2) [OF this] show ?thesis by (auto simp: canonical_nominal_unfold [OF assms(2)])
  qed
  have puniq: "parameter_identity ?s i = Some p \<Longrightarrow> parameter_identity ?s j = Some p \<longleftrightarrow> j = i" for i j
    using injective_valuesD [OF V(5)] by blast
  show "case intern_canonical_parameter A p nm x of
      (Inr i, y) \<Rightarrow> (\<exists>nm'. store_get (in_store y) i = Some (TyNamed nm' None) \<and> (nm' = nm \<or> is_implementation_owner A (pi_owner p))) \<and>
        (\<forall>j. parameter_identity (in_store y) j = Some p \<longleftrightarrow> j = i) \<and>
        (\<forall>j v. store_get ?s j = Some v \<longrightarrow> store_get (in_store y) j = Some v)
    | (Inl _, y) \<Rightarrow> y = x \<and> (\<not> valid_owner A p \<or> nm = [] \<or>
        (\<exists>i nm'. parameter_identity ?s i = Some p \<and> store_get ?s i = Some (TyNamed nm' None) \<and> nm' \<noteq> nm))"
  proof (cases "canonical_parameter ?s p")
    case None
    then have "parameter_identity ?s j \<noteq> Some p" for j using canonical_parameter_iff [OF D(1), of p j] by simp
    with None lt show ?thesis by (auto simp: canonical_parameter_unfold [OF assms(2)])
  next
    case (Some i)
    then have i: "parameter_identity ?s i = Some p" using canonical_parameter_iff [OF D(1), of p i] by simp
    with Some puniq [OF i] V(3) [OF i] show ?thesis by (auto simp: canonical_parameter_unfold [OF assms(2)])
  qed
qed

theorem canonical_declarations_witness:
  "\<exists>i y. intern_canonical_nominal example_api 7 (TyEnum (lit ''E'')) (interner_new :: (nat, nat, nat) type_interner) = (Inr i, y) \<and>
     store_get (in_store y) i = Some (TyEnum (lit ''E'')) \<and> nominal_identity (in_store y) i = Some 7"
proof -
  let ?x = "interner_new :: (nat, nat, nat) type_interner"
  have "isl (fst (intern_canonical_nominal example_api 7 (TyEnum (lit ''E'')) ?x)) = False"
    by (simp add: intern_canonical_nominal_def example_api_def interner_new_def store_intern_def)
  then obtain i y where "intern_canonical_nominal example_api 7 (TyEnum (lit ''E'')) ?x = (Inr i, y)"
    by (cases "intern_canonical_nominal example_api 7 (TyEnum (lit ''E'')) ?x"; cases "fst (intern_canonical_nominal example_api 7 (TyEnum (lit ''E'')) ?x)") auto
  with canonical_declarations [OF reach_new [of example_api], of 7 "TyEnum (lit ''E'')" "ParameterIdentity 0 0" "[]"]
  show ?thesis by auto
qed

text \<open>C32. A store survives being written and read back, and a body's store survives being taken
  apart and put back on its base: the reader accepts what was written, and every type,
  declaration identity and parameter is found under the same identifier as before.\<close>

theorem type_store_roundtrip:
  assumes "interner_reachable A x" "store_len (in_store x) \<le> 2 ^ 32"
  shows "(\<exists>s'. store_deserialize A (store_serialize (in_store x)) = Inr s' \<and>
      store_get s' = store_get (in_store x) \<and> nominal_identity s' = nominal_identity (in_store x) \<and>
      parameter_identity s' = parameter_identity (in_store x) \<and> canonical_parameter s' = canonical_parameter (in_store x)) \<and>
    (\<forall>b. sto_base (in_store x) = Some b \<longrightarrow>
      (case into_local_parts (in_store x) of (types, nominals, parameters) \<Rightarrow>
         with_local_parts A b types nominals parameters = Inr (in_store x)))"
proof -
  let ?s = "in_store x"
  have ok: "store_ok A ?s" using interner_okD(1) [OF reachable_ok [OF assms]] .
  let ?s' = "\<lparr>sto_base = None, sto_types = all_types ?s, sto_nominal_identities = nominal_identities ?s,
     sto_parameter_identities = parameter_identities ?s, sto_parameter_ids = invert_ids (parameter_identities ?s)\<rparr>"
  note d = serialize_accepted [OF ok]
  have v: "store_get ?s' = store_get ?s" "nominal_identity ?s' = nominal_identity ?s" "parameter_identity ?s' = parameter_identity ?s"
    by (auto simp: fun_eq_iff store_get_nth [of ?s] store_get_def [of ?s'] nominal_identity_def [of ?s'] parameter_identity_def [of ?s']
        fmlookup_identities split: option.split)
  have "canonical_parameter ?s' = canonical_parameter ?s"
    by (rule option_fun_eqI) (simp only: canonical_parameter_iff [OF ok] canonical_parameter_iff [OF deserialize_ok [OF d]] v)
  with d v local_parts_restored [OF ok] show ?thesis by (auto simp: into_local_parts_def)
qed

theorem type_store_roundtrip_witness:
  "\<exists>s'. store_deserialize example_api (store_serialize (in_store (snd (interner_intern (TyArray 3) interner_new)))) = Inr s' \<and>
     store_get s' 0 = Some (TyArray 3)"
proof -
  let ?x = "snd (interner_intern (TyArray 3) (interner_new :: (nat, nat, nat) type_interner))"
  have r: "interner_reachable example_api ?x" by (intro reach_intern reach_new)
  have l: "store_len (in_store ?x) \<le> 2 ^ 32" using intern_len [of "interner_new :: (nat, nat, nat) type_interner" "TyArray 3"] by simp
  have "store_get (in_store ?x) 0 = Some (TyArray 3)"
    by (simp add: intern_unfold known_type_def interner_new_def store_new_def store_len_def base_len_def canonical_type_def)
  with type_store_roundtrip [OF r l] show ?thesis by auto
qed

text \<open>Freezing a store with polling gives the frozen store of the plain constructor, digest included,
  unless a poll fails, in which case it stops with the first failure, or the store has more types than
  allowed, in which case it reports the limit. In the frozen store every type and every
  identity is found as in the store it was made of.\<close>

theorem type_base_controlled:
  assumes "interner_reachable A x" "store_len (in_store x) \<le> 2 ^ 32"
  shows "run_spec chk k (type_base_new_controlled chk A (in_store x) max_types k)
      (\<lambda>r. r = (if store_len (in_store x) > max_types then Inl max_types else Inr (type_base_new A (in_store x)))) \<and>
    store_get (with_base (type_base_new A (in_store x))) = store_get (in_store x) \<and>
    nominal_identity (with_base (type_base_new A (in_store x))) = nominal_identity (in_store x) \<and>
    parameter_identity (with_base (type_base_new A (in_store x))) = parameter_identity (in_store x)"
proof
  let ?s = "in_store x"
  have ok: "store_ok A ?s" using interner_okD(1) [OF reachable_ok [OF assms]] .
  show "store_get (with_base (type_base_new A ?s)) = store_get ?s \<and>
      nominal_identity (with_base (type_base_new A ?s)) = nominal_identity ?s \<and>
      parameter_identity (with_base (type_base_new A ?s)) = parameter_identity ?s"
    using frozen_view [OF assms(2), of A] by (simp add: view_of_def)
  have out: "nominal_identity ?s i = None" "parameter_identity ?s i = None" if "\<not> i < store_len ?s" for i
    using identity_in_range [OF ok, of i] that unfolding ordinary_def by blast+
  have collect: "(\<lambda>(types', nominals', parameters'). types' = [] @ map snd (store_iter ?s) \<and>
        (\<forall>i. fmlookup nominals' i = (if i \<in> set (map fst (store_iter ?s)) \<and> nominal_identity ?s i \<noteq> None then nominal_identity ?s i else fmlookup fmempty i)) \<and>
        (\<forall>i. fmlookup parameters' i = (if i \<in> set (map fst (store_iter ?s)) \<and> parameter_identity ?s i \<noteq> None then parameter_identity ?s i else fmlookup fmempty i))) r
      \<Longrightarrow> r = (all_types ?s, nominal_identities ?s, parameter_identities ?s)" for r
    by (cases r) (auto simp: store_iter_types store_iter_small [OF assms(2)] out fmlookup_identities intro!: fmap_ext)
  have new: "type_base_new A ?s = \<lparr>fz_types = all_types ?s,
      fz_ids = ordinary_ids (nominal_identities ?s) (parameter_identities ?s) (map (\<lambda>(i, t). (type_id_of i, t)) (enumerate 0 (all_types ?s))) ++ Map.empty,
      fz_nominal_identities = nominal_identities ?s, fz_parameter_identities = parameter_identities ?s,
      fz_parameter_ids = invert_ids (parameter_identities ?s),
      fz_identity = base_digest A (all_types ?s) (nominal_identities ?s) (parameter_identities ?s)\<rparr>"
    using type_base_new_fields(1) [OF assms(2), of A] by (auto simp: type_base_new_def Let_def)
  show "run_spec chk k (type_base_new_controlled chk A ?s max_types k)
      (\<lambda>r. r = (if store_len ?s > max_types then Inl max_types else Inr (type_base_new A ?s)))"
  proof (cases "store_len ?s > max_types")
    case True
    then show ?thesis unfolding type_base_new_controlled_def
      by (intro run_spec_checkpoint) (simp add: run_spec_Done)
  next
    case False
    have rest: "run_spec chk k' (run_bind (freeze_collect chk ?s (store_iter ?s) ([], fmempty, fmempty) k') (\<lambda>((types, nominals, parameters), k).
         run_bind (freeze_index chk nominals parameters (enumerate 0 types) Map.empty k) (\<lambda>(ids, k).
         run_bind (poll_times chk (length types) k) (\<lambda>(_, k).
         run_bind (poll_times chk (length (fmap_entries nominals)) k) (\<lambda>(_, k).
         run_bind (poll_times chk (length (fmap_entries parameters)) k) (\<lambda>(_, k).
         run_bind (checkpoint chk k) (\<lambda>(_, k).
           Done (Inr \<lparr>fz_types = types, fz_ids = ids, fz_nominal_identities = nominals,
             fz_parameter_identities = parameters, fz_parameter_ids = invert_ids parameters,
             fz_identity = base_digest A types nominals parameters\<rparr>, k))))))))
       (\<lambda>r. r = Inr (type_base_new A ?s))" for k'
      apply (rule run_spec_bind [OF freeze_collect_spec])
      apply (drule collect, simp only: prod.case)
      apply (rule run_spec_bind [OF freeze_index_spec], simp only: prod.case)
      apply (rule run_spec_bind [OF poll_times_spec], simp only: prod.case)+
      apply (rule run_spec_checkpoint, simp only: prod.case, rule run_spec_Done)
      apply (simp only: new)
      done
    with False show ?thesis unfolding type_base_new_controlled_def
      by (intro run_spec_checkpoint) (simp only: prod.case if_False)
  qed
qed

theorem type_base_controlled_witness:
  "run_spec (\<lambda>_. None :: unit option) 0 (type_base_new_controlled (\<lambda>_. None) example_api (in_store interner_new) 5 0)
     (\<lambda>r. r = Inr (type_base_new example_api (in_store interner_new)))"
  using type_base_controlled [OF reach_new [of example_api], of "\<lambda>_. None :: unit option" 0 5] by simp

text \<open>C33. The lookup index finds the first ordinary entry with the given type, whatever the hash
  function: types whose hashes collide are told apart, entries that belong to a declaration or a
  parameter are never returned, and a type that is absent is reported as absent.\<close>

theorem lookup_index_exact:
  assumes "store_len s \<le> 2 ^ 32"
  shows "case lookup_index_get h (lookup_index_new h s) s t of
      None \<Rightarrow> (\<forall>i. store_get s i = Some t \<longrightarrow> nominal_identity s i \<noteq> None \<or> parameter_identity s i \<noteq> None)
    | Some i \<Rightarrow> store_get s i = Some t \<and> nominal_identity s i = None \<and> parameter_identity s i = None \<and>
        (\<forall>j < i. store_get s j = Some t \<longrightarrow> nominal_identity s j \<noteq> None \<or> parameter_identity s j \<noteq> None)"
proof (cases "find (\<lambda>i. ordinary s i \<and> store_get s i = Some t) [0..<store_len s]")
  case None
  then have "\<forall>i < store_len s. \<not> (ordinary s i \<and> store_get s i = Some t)" by (simp add: find_None_iff)
  then show ?thesis
    unfolding lookup_index_exact_aux [OF assms] None option.case by (auto simp: ordinary_def store_get_Some_iff)
next
  case (Some i)
  then have "i < store_len s" "ordinary s i \<and> store_get s i = Some t" "\<forall>j < i. \<not> (ordinary s j \<and> store_get s j = Some t)"
    by (auto simp: find_Some_iff)
  then show ?thesis
    unfolding lookup_index_exact_aux [OF assms] Some option.case by (auto simp: ordinary_def)
qed

theorem lookup_index_exact_witness:
  "let s = in_store (snd (interner_intern (TyArray 3) (interner_new :: (nat, nat, nat) type_interner)))
   in \<exists>i. lookup_index_get (\<lambda>_. 0) (lookup_index_new (\<lambda>_. 0) s) s (TyArray 3) = Some i"
proof -
  let ?s = "in_store (snd (interner_intern (TyArray 3) (interner_new :: (nat, nat, nat) type_interner)))"
  have l: "store_len ?s \<le> 2 ^ 32" using intern_len [of "interner_new :: (nat, nat, nat) type_interner" "TyArray 3"] by simp
  have "store_get ?s 0 = Some (TyArray 3)" "nominal_identity ?s 0 = None" "parameter_identity ?s 0 = None"
    by (simp_all add: intern_unfold known_type_def interner_new_def store_new_def store_len_def base_len_def canonical_type_def
        nominal_identity_def parameter_identity_def)
  with lookup_index_exact [OF l, where h = "\<lambda>_. 0" and t = "TyArray 3"] show ?thesis unfolding Let_def by (auto split: option.splits)
qed

end
