(* ===== verification/Etas_Unify.thy ===== *)
theory Etas_Unify
  imports Etas_Types_Facts
begin

text \<open>The type unifier of \<open>etas_types/src/solver/unification.rs\<close> and the assignability test of
  \<open>solver/assignability.rs\<close>. A unifier holds a store, the bindings it has made, bindings known from
  elsewhere, and the flags for read-only erasure and definition contracts. The pair of resolved types
  selects an arm: the rows of the large match in \<open>unify\<close>, in its order. The recursion goes through
  bindings and has no structural bound in the code, so \<open>unify\<close>, \<open>occurs\<close> and \<open>is_assignable\<close> count
  nested calls, and \<open>None\<close> means that the count was too small.\<close>

section \<open>Substitutions and the state of the unifier\<close>

type_synonym substitution = "(type_var_id, type_id) fmap"

definition substitution_insert :: "type_var_id \<Rightarrow> type_id \<Rightarrow> substitution \<Rightarrow> substitution" where
  "substitution_insert v t s = fmupd v t s"

definition substitution_extend :: "substitution \<Rightarrow> substitution \<Rightarrow> substitution" where
  "substitution_extend s other = s ++\<^sub>f other"

datatype unify_error = Mismatch type_id type_id | OccursCheck type_var_id type_id

record ('s, 'd, 'g) type_unifier =
  tu_store :: "('s, 'd, 'g) type_store"
  tu_substitution :: substitution
  tu_known :: "substitution option"
  tu_read_only_erasure :: bool
  tu_definition_contract :: bool
  tu_pattern_parameters :: "type_id set option"
  tu_parameter_bindings :: "(type_id, type_id) fmap"

definition unifier_new :: "('s, 'd, 'g) type_store \<Rightarrow> ('s, 'd, 'g) type_unifier" where
  "unifier_new s = \<lparr>tu_store = s, tu_substitution = fmempty, tu_known = None, tu_read_only_erasure = False,
     tu_definition_contract = False, tu_pattern_parameters = None, tu_parameter_bindings = fmempty\<rparr>"

definition unifier_with_substitution :: "('s, 'd, 'g) type_store \<Rightarrow> substitution \<Rightarrow> ('s, 'd, 'g) type_unifier" where
  "unifier_with_substitution s sub = \<lparr>tu_store = s, tu_substitution = sub, tu_known = None, tu_read_only_erasure = False,
     tu_definition_contract = False, tu_pattern_parameters = None, tu_parameter_bindings = fmempty\<rparr>"

definition unifier_with_known :: "('s, 'd, 'g) type_store \<Rightarrow> substitution \<Rightarrow> ('s, 'd, 'g) type_unifier" where
  "unifier_with_known s known = \<lparr>tu_store = s, tu_substitution = fmempty, tu_known = Some known, tu_read_only_erasure = False,
     tu_definition_contract = False, tu_pattern_parameters = None, tu_parameter_bindings = fmempty\<rparr>"

definition with_read_only_erasure :: "('s, 'd, 'g) type_unifier \<Rightarrow> ('s, 'd, 'g) type_unifier" where
  "with_read_only_erasure u = u\<lparr>tu_read_only_erasure := True\<rparr>"

definition with_pattern_parameters :: "type_id set \<Rightarrow> ('s, 'd, 'g) type_unifier \<Rightarrow> ('s, 'd, 'g) type_unifier" where
  "with_pattern_parameters parameters u = u\<lparr>tu_pattern_parameters := Some parameters, tu_definition_contract := True\<rparr>"

section \<open>Following bindings\<close>

definition binding :: "('s, 'd, 'g) type_unifier \<Rightarrow> type_var_id \<Rightarrow> type_id option" where
  "binding u v =
     (case fmlookup (tu_substitution u) v of
        Some t \<Rightarrow> Some t
      | None \<Rightarrow> Option.bind (tu_known u) (\<lambda>known. fmlookup known v))"

definition bound_vars :: "('s, 'd, 'g) type_unifier \<Rightarrow> type_var_id set" where
  "bound_vars u = fset (fmdom (tu_substitution u)) \<union> (case tu_known u of None \<Rightarrow> {} | Some k \<Rightarrow> fset (fmdom k))"

lemma finite_bound_vars [simp]: "finite (bound_vars u)"
  by (simp add: bound_vars_def split: option.split)

lemma binding_bound: "binding u v = Some t \<Longrightarrow> v \<in> bound_vars u"
  by (auto simp: binding_def bound_vars_def fmlookup_dom_iff split: option.splits bind_splits)

function resolve_loop :: "('s, 'd, 'g) type_unifier \<Rightarrow> type_id \<Rightarrow> type_var_id set \<Rightarrow> unify_error + type_id" where
  "resolve_loop u t visited =
     (case store_get (tu_store u) t of
        Some (TyVar v) \<Rightarrow>
          (case binding u v of
             None \<Rightarrow> Inr t
           | Some nxt \<Rightarrow> if v \<in> visited then Inl (OccursCheck v t) else resolve_loop u nxt (insert v visited))
      | _ \<Rightarrow> Inr t)"
  by pat_completeness auto
termination
proof (relation "measure (\<lambda>(u, _, visited). card (bound_vars u - visited))", goal_cases)
  case (2 u t visited a v nxt)
  then have "v \<in> bound_vars u" by (auto intro: binding_bound)
  with 2 have "bound_vars u - insert v visited \<subset> bound_vars u - visited" by blast
  then show ?case by (simp add: psubset_card_mono)
qed simp

declare resolve_loop.simps [simp del]

definition resolve :: "('s, 'd, 'g) type_unifier \<Rightarrow> type_id \<Rightarrow> unify_error + type_id" where
  "resolve u t = resolve_loop u t {}"

section \<open>The occurs check\<close>

text \<open>The check follows bindings as it descends, so it is bounded by fuel: \<open>None\<close> is a check that has
  not ended yet.\<close>

fun or_else_lazy :: "bool option \<Rightarrow> bool option \<Rightarrow> bool option" where
  "or_else_lazy None _ = None"
| "or_else_lazy (Some True) _ = Some True"
| "or_else_lazy (Some False) b = b"

fun any_occurs :: "(type_id \<Rightarrow> bool option) \<Rightarrow> type_id list \<Rightarrow> bool option" where
  "any_occurs f [] = Some False"
| "any_occurs f (t # ts) = or_else_lazy (f t) (any_occurs f ts)"

definition effect_occurs :: "('s, 'd, 'g) type_store \<Rightarrow> type_var_id \<Rightarrow> effect_ref \<Rightarrow> bool" where
  "effect_occurs s needle e \<longleftrightarrow>
     (\<exists>a \<in> set (ef_args e). case a of ArgType t \<Rightarrow> (case store_get s t of Some (TyVar v) \<Rightarrow> v = needle | _ \<Rightarrow> False) | _ \<Rightarrow> False)"

definition effect_row_occurs :: "('s, 'd, 'g) type_store \<Rightarrow> type_var_id \<Rightarrow> effect_row_ref \<Rightarrow> bool" where
  "effect_row_occurs s needle row \<longleftrightarrow> (\<exists>e \<in> set (rr_effects row). effect_occurs s needle e)"

definition row_option_occurs :: "('s, 'd, 'g) type_store \<Rightarrow> type_var_id \<Rightarrow> effect_row_ref option \<Rightarrow> bool option" where
  "row_option_occurs s needle row = Some (case row of None \<Rightarrow> False | Some r \<Rightarrow> effect_row_occurs s needle r)"

definition option_occurs :: "(type_id \<Rightarrow> bool option) \<Rightarrow> type_id option \<Rightarrow> bool option" where
  "option_occurs f t = (case t of None \<Rightarrow> Some False | Some t \<Rightarrow> f t)"

definition occurs_type :: "('s, 'd, 'g) type_store \<Rightarrow> type_var_id \<Rightarrow> (type_id \<Rightarrow> bool option) \<Rightarrow> 's ty \<Rightarrow> bool option" where
  "occurs_type s needle f a =
     (case a of
        TyExistential bounds \<Rightarrow> any_occurs f (concat (map sb_args bounds))
      | TyVar v \<Rightarrow> Some (v = needle)
      | TyArray t \<Rightarrow> f t
      | TyList t \<Rightarrow> f t
      | TySet t \<Rightarrow> f t
      | TySlice t \<Rightarrow> f t
      | TyOption t \<Rightarrow> f t
      | TyMessage t \<Rightarrow> f t
      | TySchema t \<Rightarrow> f t
      | TyMemorySelection t \<Rightarrow> f t
      | TyMemoryRegion t \<Rightarrow> f t
      | TyRange t \<Rightarrow> f t
      | TyTrust _ t \<Rightarrow> f t
      | TyMap k v \<Rightarrow> or_else_lazy (f k) (f v)
      | TyStore k v \<Rightarrow> or_else_lazy (f k) (f v)
      | TyResourceHandle h \<Rightarrow>
          (case h of RhMemoryRegion t \<Rightarrow> f t | RhExternalTool t \<Rightarrow> f t | RhOther _ args \<Rightarrow> any_occurs f args)
      | TyResult ok err \<Rightarrow> or_else_lazy (f ok) (f err)
      | TyTuple elems \<Rightarrow> any_occurs f elems
      | TyRecord fs \<Rightarrow> any_occurs f (map ft_ty fs)
      | TyFunction input output effects \<Rightarrow>
          or_else_lazy (any_occurs f input) (or_else_lazy (f output) (row_option_occurs s needle effects))
      | TyHandler handled produced result \<Rightarrow>
          or_else_lazy (option_occurs f result)
            (or_else_lazy (Some (effect_row_occurs s needle handled))
              (case produced of ProducedInfer \<Rightarrow> Some False | ProducedExplicit row \<Rightarrow> Some (effect_row_occurs s needle row)))
      | TyTask output effects \<Rightarrow> or_else_lazy (f output) (Some (effect_row_occurs s needle effects))
      | TyContinuation output answer residual \<Rightarrow>
          or_else_lazy (f output) (or_else_lazy (option_occurs f answer) (row_option_occurs s needle residual))
      | _ \<Rightarrow> Some False)"

fun occurs :: "nat \<Rightarrow> ('s, 'd, 'g) type_unifier \<Rightarrow> type_var_id \<Rightarrow> type_id \<Rightarrow> bool option" where
  "occurs 0 u needle t = None"
| "occurs (Suc n) u needle t =
     (case resolve u t of
        Inl _ \<Rightarrow> Some True
      | Inr t \<Rightarrow>
          (case store_get (tu_store u) t of
             None \<Rightarrow> Some False
           | Some a \<Rightarrow> occurs_type (tu_store u) needle (occurs n u needle) a))"

section \<open>Unification\<close>

definition same_effect_row :: "effect_row_ref option \<Rightarrow> effect_row_ref option \<Rightarrow> bool" where
  "same_effect_row lhs rhs =
     (case (lhs, rhs) of
        (None, None) \<Rightarrow> True
      | (Some l, Some r) \<Rightarrow>
          rr_tail l = rr_tail r \<and> (\<forall>e \<in> set (rr_effects l). e \<in> set (rr_effects r)) \<and>
          (\<forall>e \<in> set (rr_effects r). e \<in> set (rr_effects l))
      | _ \<Rightarrow> False)"

definition is_integer_primitive :: "primitive_type \<Rightarrow> bool" where
  "is_integer_primitive p \<longleftrightarrow>
     p \<in> {I8T, I16T, I32T, I64T, I128T, ISizeT, U8T, U16T, U32T, U64T, U128T, USizeT}"

text \<open>
  The match over the two types selects an arm; what the arm does comes after: bind a variable,
  unify pairs in order (none of them is success), the fields of two records, two functions with
  erasure switched off, two applications with the contract of the declaration, or fail.
\<close>

datatype unify_arm =
    ArmBind type_var_id type_id
  | ArmPairs "(type_id \<times> type_id) list"
  | ArmRecord "field_type list" "field_type list"
  | ArmFunction "(type_id \<times> type_id) list"
  | ArmApplied type_id type_id "(type_id \<times> type_id) list"
  | ArmFail

fun option_pair :: "type_id option \<Rightarrow> type_id option \<Rightarrow> (type_id \<times> type_id) list" where
  "option_pair (Some a) (Some b) = [(a, b)]"
| "option_pair _ _ = []"

definition bounds_alike :: "'s checked_spec_bound list \<Rightarrow> 's checked_spec_bound list \<Rightarrow> bool" where
  "bounds_alike left right \<longleftrightarrow> length left = length right \<and>
     list_all (\<lambda>(a, b). sb_spec a = sb_spec b \<and> length (sb_args a) = length (sb_args b)) (zip left right)"

definition same_identity :: "'i option \<Rightarrow> 'i option \<Rightarrow> bool \<Rightarrow> bool" where
  "same_identity l r otherwise =
     (case (l, r) of (Some a, Some b) \<Rightarrow> a = b | (None, None) \<Rightarrow> otherwise | _ \<Rightarrow> False)"

definition match_types :: "('s, 'd, 'g) type_unifier \<Rightarrow> type_id \<Rightarrow> type_id \<Rightarrow> 's ty \<Rightarrow> 's ty \<Rightarrow> unify_arm" where
  "match_types u lhs rhs a b =
     (let s = tu_store u;
          other = (if lhs = rhs then ArmPairs [] else ArmFail)
      in case a of
        TyExistential left \<Rightarrow>
          (case b of
             TyExistential right \<Rightarrow>
               if bounds_alike left right
               then ArmPairs (concat (map (\<lambda>(l, r). zip (sb_args l) (sb_args r)) (zip left right))) else other
           | _ \<Rightarrow> other)
      | TyPrimitive p \<Rightarrow>
          (case b of
             TyPrimitive q \<Rightarrow> if p = q then ArmPairs [] else other
           | TyIntegerLiteral _ \<Rightarrow> if is_integer_primitive p then ArmPairs [] else other
           | _ \<Rightarrow> other)
      | TyIntegerLiteral _ \<Rightarrow>
          (case b of
             TyPrimitive p \<Rightarrow> if is_integer_primitive p then ArmPairs [] else other
           | TyIntegerLiteral _ \<Rightarrow> ArmPairs []
           | _ \<Rightarrow> other)
      | TyArray x \<Rightarrow> (case b of TyArray y \<Rightarrow> ArmPairs [(x, y)] | _ \<Rightarrow> other)
      | TyList x \<Rightarrow> (case b of TyList y \<Rightarrow> ArmPairs [(x, y)] | _ \<Rightarrow> other)
      | TySet x \<Rightarrow> (case b of TySet y \<Rightarrow> ArmPairs [(x, y)] | _ \<Rightarrow> other)
      | TySlice x \<Rightarrow> (case b of TySlice y \<Rightarrow> ArmPairs [(x, y)] | _ \<Rightarrow> other)
      | TyOption x \<Rightarrow> (case b of TyOption y \<Rightarrow> ArmPairs [(x, y)] | _ \<Rightarrow> other)
      | TyMessage x \<Rightarrow> (case b of TyMessage y \<Rightarrow> ArmPairs [(x, y)] | _ \<Rightarrow> other)
      | TySchema x \<Rightarrow> (case b of TySchema y \<Rightarrow> ArmPairs [(x, y)] | _ \<Rightarrow> other)
      | TyMemorySelection x \<Rightarrow> (case b of TyMemorySelection y \<Rightarrow> ArmPairs [(x, y)] | _ \<Rightarrow> other)
      | TyMemoryRegion x \<Rightarrow> (case b of TyMemoryRegion y \<Rightarrow> ArmPairs [(x, y)] | _ \<Rightarrow> other)
      | TyTrust aw x \<Rightarrow> (case b of TyTrust bw y \<Rightarrow> if aw = bw then ArmPairs [(x, y)] else other | _ \<Rightarrow> other)
      | TyRange x \<Rightarrow> (case b of TyRange y \<Rightarrow> ArmPairs [(x, y)] | _ \<Rightarrow> other)
      | TyMap ak av \<Rightarrow> (case b of TyMap bk bv \<Rightarrow> ArmPairs [(ak, bk), (av, bv)] | _ \<Rightarrow> other)
      | TyStore ak av \<Rightarrow> (case b of TyStore bk bv \<Rightarrow> ArmPairs [(ak, bk), (av, bv)] | _ \<Rightarrow> other)
      | TyResourceHandle ah \<Rightarrow>
          (case b of
             TyResourceHandle bh \<Rightarrow>
               (case ah of
                  RhMemoryRegion x \<Rightarrow> (case bh of RhMemoryRegion y \<Rightarrow> ArmPairs [(x, y)] | _ \<Rightarrow> other)
                | RhExternalTool x \<Rightarrow> (case bh of RhExternalTool y \<Rightarrow> ArmPairs [(x, y)] | _ \<Rightarrow> other)
                | RhOther an aa \<Rightarrow>
                    (case bh of
                       RhOther bn ba \<Rightarrow> if an = bn \<and> length aa = length ba then ArmPairs (zip aa ba) else other
                     | _ \<Rightarrow> other))
           | _ \<Rightarrow> other)
      | TyResult aok ae \<Rightarrow> (case b of TyResult bok be \<Rightarrow> ArmPairs [(aok, bok), (ae, be)] | _ \<Rightarrow> other)
      | TyTuple xs \<Rightarrow>
          (case b of TyTuple ys \<Rightarrow> if length xs = length ys then ArmPairs (zip xs ys) else other | _ \<Rightarrow> other)
      | TyRecord fs \<Rightarrow>
          (case b of TyRecord gs \<Rightarrow> if length fs = length gs then ArmRecord fs gs else other | _ \<Rightarrow> other)
      | TyFunction ai ao ae \<Rightarrow>
          (case b of
             TyFunction bi bo be \<Rightarrow>
               if length ai = length bi then
                 if tu_definition_contract u \<and> \<not> same_effect_row ae be then ArmFail
                 else ArmFunction (zip ai bi @ [(ao, bo)])
               else other
           | _ \<Rightarrow> other)
      | TyHandler ah ap ar \<Rightarrow>
          (case b of TyHandler bh bp br \<Rightarrow> if ah = bh then ArmPairs (option_pair ar br) else other | _ \<Rightarrow> other)
      | TyTask ao ae \<Rightarrow>
          (case b of TyTask bo be \<Rightarrow> if same_effect_row (Some ae) (Some be) then ArmPairs [(ao, bo)] else other | _ \<Rightarrow> other)
      | TySchedulerHandle \<Rightarrow> (case b of TySchedulerHandle \<Rightarrow> ArmPairs [] | _ \<Rightarrow> other)
      | TyContinuation ao aa ar \<Rightarrow>
          (case b of
             TyContinuation bo ba br \<Rightarrow> if same_effect_row ar br then ArmPairs ((ao, bo) # option_pair aa ba) else other
           | _ \<Rightarrow> other)
      | TyNamed an ap \<Rightarrow>
          (case b of
             TyNamed bn bp \<Rightarrow>
               if same_identity (parameter_identity s lhs) (parameter_identity s rhs) (an = bn \<and> ap = bp)
               then ArmPairs [] else other
           | _ \<Rightarrow> other)
      | TyNominal an \<Rightarrow>
          (case b of
             TyNominal bn \<Rightarrow>
               if same_identity (nominal_identity s lhs) (nominal_identity s rhs) (nm_name an = nm_name bn)
               then ArmPairs [] else other
           | _ \<Rightarrow> other)
      | TyApplied ac aa \<Rightarrow>
          (case b of
             TyNominal view \<Rightarrow>
               if tu_read_only_erasure u \<and> nm_read_only_erased_view view \<and> length aa = length (nm_params view) \<and>
                  nominal_identity s ac = nominal_identity s rhs \<and> store_get s ac = Some (TyNominal view)
               then ArmPairs [] else other
           | TyApplied bc ba \<Rightarrow> if length aa = length ba then ArmApplied ac bc (zip aa ba) else other
           | _ \<Rightarrow> other)
      | _ \<Rightarrow> other)"

fun as_type_var :: "'s ty option \<Rightarrow> type_var_id option" where
  "as_type_var (Some (TyVar v)) = Some v"
| "as_type_var _ = None"

definition select_arm :: "('s, 'd, 'g) type_unifier \<Rightarrow> type_id \<Rightarrow> type_id \<Rightarrow> unify_arm" where
  "select_arm u lhs rhs =
     (let l = store_get (tu_store u) lhs;
          r = store_get (tu_store u) rhs
      in case as_type_var l of
        Some v \<Rightarrow> ArmBind v rhs
      | None \<Rightarrow>
          (case as_type_var r of
             Some v \<Rightarrow> ArmBind v lhs
           | None \<Rightarrow>
               (case (l, r) of
                  (Some a, Some b) \<Rightarrow> match_types u lhs rhs a b
                | _ \<Rightarrow> if lhs = rhs then ArmPairs [] else ArmFail)))"

type_synonym ('s, 'd, 'g) unify_result = "((unify_error + unit) \<times> ('s, 'd, 'g) type_unifier) option"

definition bind_var ::
    "(type_var_id \<Rightarrow> type_id \<Rightarrow> bool option) \<Rightarrow> type_var_id \<Rightarrow> type_id \<Rightarrow> ('s, 'd, 'g) type_unifier \<Rightarrow> ('s, 'd, 'g) unify_result" where
  "bind_var occ v t u =
     (case occ v t of
        None \<Rightarrow> None
      | Some True \<Rightarrow> Some (Inl (OccursCheck v t), u)
      | Some False \<Rightarrow> Some (Inr (), u\<lparr>tu_substitution := substitution_insert v t (tu_substitution u)\<rparr>))"

fun unify_pairs ::
    "(type_id \<Rightarrow> type_id \<Rightarrow> ('s, 'd, 'g) type_unifier \<Rightarrow> ('s, 'd, 'g) unify_result) \<Rightarrow> (type_id \<times> type_id) list \<Rightarrow>
     ('s, 'd, 'g) type_unifier \<Rightarrow> ('s, 'd, 'g) unify_result" where
  "unify_pairs f [] u = Some (Inr (), u)"
| "unify_pairs f ((a, b) # ps) u =
     (case f a b u of
        None \<Rightarrow> None
      | Some (Inl e, u) \<Rightarrow> Some (Inl e, u)
      | Some (Inr _, u) \<Rightarrow> unify_pairs f ps u)"

fun unify_fields ::
    "(type_id \<Rightarrow> type_id \<Rightarrow> ('s, 'd, 'g) type_unifier \<Rightarrow> ('s, 'd, 'g) unify_result) \<Rightarrow> type_id \<Rightarrow> type_id \<Rightarrow>
     field_type list \<Rightarrow> field_type list \<Rightarrow> ('s, 'd, 'g) type_unifier \<Rightarrow> ('s, 'd, 'g) unify_result" where
  "unify_fields f lhs rhs gs [] u = Some (Inr (), u)"
| "unify_fields f lhs rhs gs (field # fs) u =
     (case find (\<lambda>candidate. ft_name candidate = ft_name field) gs of
        None \<Rightarrow> Some (Inl (Mismatch lhs rhs), u)
      | Some other \<Rightarrow>
          (case f (ft_ty field) (ft_ty other) u of
             None \<Rightarrow> None
           | Some (Inl e, u) \<Rightarrow> Some (Inl e, u)
           | Some (Inr _, u) \<Rightarrow> unify_fields f lhs rhs gs fs u))"

definition erased_view_declaration :: "('s, 'd, 'g) type_store \<Rightarrow> type_id \<Rightarrow> bool" where
  "erased_view_declaration s t =
     (case store_get s t of Some (TyNominal declaration) \<Rightarrow> nm_read_only_erased_view declaration | _ \<Rightarrow> False)"

fun run_arm ::
    "(('s, 'd, 'g) type_unifier \<Rightarrow> type_var_id \<Rightarrow> type_id \<Rightarrow> bool option) \<Rightarrow>
     (type_id \<Rightarrow> type_id \<Rightarrow> ('s, 'd, 'g) type_unifier \<Rightarrow> ('s, 'd, 'g) unify_result) \<Rightarrow> type_id \<Rightarrow> type_id \<Rightarrow>
     unify_arm \<Rightarrow> ('s, 'd, 'g) type_unifier \<Rightarrow> ('s, 'd, 'g) unify_result" where
  "run_arm occ f lhs rhs (ArmBind v t) u = bind_var (occ u) v t u"
| "run_arm occ f lhs rhs (ArmPairs ps) u = unify_pairs f ps u"
| "run_arm occ f lhs rhs (ArmRecord fs gs) u = unify_fields f lhs rhs gs fs u"
| "run_arm occ f lhs rhs (ArmFunction ps) u =
     (let erasure = tu_read_only_erasure u in
      case unify_pairs f ps (u\<lparr>tu_read_only_erasure := False\<rparr>) of
        None \<Rightarrow> None
      | Some (result, u) \<Rightarrow> Some (result, u\<lparr>tu_read_only_erasure := erasure\<rparr>))"
| "run_arm occ f lhs rhs (ArmApplied ac bc ps) u =
     (case f ac bc u of
        None \<Rightarrow> None
      | Some (Inl e, u) \<Rightarrow> Some (Inl e, u)
      | Some (Inr _, u) \<Rightarrow>
          (let contract = tu_definition_contract u in
           case unify_pairs f ps (u\<lparr>tu_definition_contract := contract \<or> erased_view_declaration (tu_store u) ac\<rparr>) of
             None \<Rightarrow> None
           | Some (result, u) \<Rightarrow> Some (result, u\<lparr>tu_definition_contract := contract\<rparr>)))"
| "run_arm occ f lhs rhs ArmFail u = Some (Inl (Mismatch lhs rhs), u)"

text \<open>One call, with the recursive calls as an argument.\<close>

definition unify_step ::
    "(('s, 'd, 'g) type_unifier \<Rightarrow> type_var_id \<Rightarrow> type_id \<Rightarrow> bool option) \<Rightarrow>
     (type_id \<Rightarrow> type_id \<Rightarrow> ('s, 'd, 'g) type_unifier \<Rightarrow> ('s, 'd, 'g) unify_result) \<Rightarrow> type_id \<Rightarrow> type_id \<Rightarrow>
     ('s, 'd, 'g) type_unifier \<Rightarrow> ('s, 'd, 'g) unify_result" where
  "unify_step occ f lhs rhs u =
     (case resolve u lhs of
        Inl e \<Rightarrow> Some (Inl e, u)
      | Inr lhs \<Rightarrow>
          (case resolve u rhs of
             Inl e \<Rightarrow> Some (Inl e, u)
           | Inr rhs \<Rightarrow>
               if (case tu_pattern_parameters u of None \<Rightarrow> False | Some parameters \<Rightarrow> lhs \<in> parameters) then
                 (case fmlookup (tu_parameter_bindings u) lhs of
                    Some previous \<Rightarrow>
                      (case f previous rhs ((unifier_new (tu_store u))\<lparr>tu_definition_contract := True\<rparr>) of
                         None \<Rightarrow> None
                       | Some (result, _) \<Rightarrow> Some (result, u))
                  | None \<Rightarrow> Some (Inr (), u\<lparr>tu_parameter_bindings := fmupd lhs rhs (tu_parameter_bindings u)\<rparr>))
               else if lhs = rhs \<and> tu_pattern_parameters u = None then Some (Inr (), u)
               else if tu_pattern_parameters u \<noteq> None \<and> lhs \<noteq> rhs \<and>
                       (as_type_var (store_get (tu_store u) lhs) \<noteq> None \<or> as_type_var (store_get (tu_store u) rhs) \<noteq> None)
               then Some (Inl (Mismatch lhs rhs), u)
               else run_arm occ f lhs rhs (select_arm u lhs rhs) u))"

fun unify :: "nat \<Rightarrow> type_id \<Rightarrow> type_id \<Rightarrow> ('s, 'd, 'g) type_unifier \<Rightarrow> ('s, 'd, 'g) unify_result" where
  "unify 0 lhs rhs u = None"
| "unify (Suc n) lhs rhs u = unify_step (occurs n) (unify n) lhs rhs u"

section \<open>Assignability\<close>

definition is_index_input :: "('s, 'd, 'g) type_store \<Rightarrow> type_id \<Rightarrow> bool" where
  "is_index_input s t =
     (case store_get s t of
        Some (TyIntegerLiteral _) \<Rightarrow> True
      | Some (TyPrimitive p) \<Rightarrow> p \<in> {I8T, I16T, I32T, I64T, I128T, ISizeT, U8T, U16T, U32T, U64T, U128T, USizeT}
      | _ \<Rightarrow> False)"

definition is_length_input :: "('s, 'd, 'g) type_store \<Rightarrow> type_id \<Rightarrow> bool" where
  "is_length_input s t =
     (case store_get s t of
        Some (TyArray _) \<Rightarrow> True
      | Some (TyList _) \<Rightarrow> True
      | Some (TySlice _) \<Rightarrow> True
      | Some (TyMap _ _) \<Rightarrow> True
      | Some (TyPrimitive p) \<Rightarrow> p \<in> {StringT, BytesT}
      | _ \<Rightarrow> False)"

definition is_emptiness_input :: "('s, 'd, 'g) type_store \<Rightarrow> type_id \<Rightarrow> bool" where
  "is_emptiness_input s t = is_length_input s t"

definition support_constraint_assignable :: "('s, 'd, 'g) type_store \<Rightarrow> type_id \<Rightarrow> type_id \<Rightarrow> bool" where
  "support_constraint_assignable s source target =
     (case store_get s target of
        Some (TyNamed nm _) \<Rightarrow>
          if nm = lit ''Index'' then is_index_input s source
          else if nm = lit ''LengthInput'' then is_length_input s source
          else if nm = lit ''EmptinessInput'' then is_emptiness_input s source
          else False
      | _ \<Rightarrow> False)"

definition assignable ::
    "nat \<Rightarrow> ('s, 'd, 'g) type_store \<Rightarrow> substitution option \<Rightarrow> type_id \<Rightarrow> type_id \<Rightarrow> (unify_error + unit) option" where
  "assignable n s substitutions source target =
     (if store_get s source = Some (TyPrimitive NeverT) then Some (Inr ())
      else if support_constraint_assignable s source target then Some (Inr ())
      else
        let u = (case substitutions of
                   Some known \<Rightarrow> unifier_with_known s known | None \<Rightarrow> unifier_new s)
        in map_option fst (unify n source target (with_read_only_erasure u)))"

definition is_assignable :: "nat \<Rightarrow> ('s, 'd, 'g) type_store \<Rightarrow> type_id \<Rightarrow> type_id \<Rightarrow> bool option" where
  "is_assignable n s source target = map_option (\<lambda>r. r = Inr ()) (assignable n s None source target)"

definition is_assignable_with_substitution ::
    "nat \<Rightarrow> ('s, 'd, 'g) type_store \<Rightarrow> type_id \<Rightarrow> type_id \<Rightarrow> substitution \<Rightarrow> bool option" where
  "is_assignable_with_substitution n s source target substitutions =
     map_option (\<lambda>r. r = Inr ()) (assignable n s (Some substitutions) source target)"

end
