(* ===== verification/Etas_Unify_Facts.thy ===== *)
theory Etas_Unify_Facts
  imports Etas_Unify
begin

text \<open>What the unifier promises. Agreement of two types under the bindings is an inductive relation that
  knows nothing of the order in which the code looks at their parts. A successful call makes its
  arguments agree; on stores without variables whose types mention earlier entries only, the calls
  always end and decide agreement, and so does assignability. The last property shows where the
  occurs check stops short.\<close>

section \<open>What unification means\<close>

text \<open>Following bindings, without the bookkeeping of visited variables.\<close>

inductive leads :: "('s, 'd, 'g) type_unifier \<Rightarrow> type_id \<Rightarrow> type_id \<Rightarrow> bool" for u where
  leads_end: "(\<And>v. store_get (tu_store u) t = Some (TyVar v) \<Longrightarrow> binding u v = None) \<Longrightarrow> leads u t t"
| leads_step: "store_get (tu_store u) t = Some (TyVar v) \<Longrightarrow> binding u v = Some nxt \<Longrightarrow> leads u nxt x \<Longrightarrow> leads u t x"

text \<open>A type without the identifiers of its parts, and the parts in order. An answer that is absent
  agrees with any other.\<close>

definition shape_of :: "'s ty \<Rightarrow> 's ty" where
  "shape_of a =
     (case a of
        TyExistential bs \<Rightarrow> TyExistential (map (\<lambda>b. SpecBound (sb_spec b) (replicate (length (sb_args b)) 0)) bs)
      | TyArray _ \<Rightarrow> TyArray 0 | TyList _ \<Rightarrow> TyList 0 | TySet _ \<Rightarrow> TySet 0 | TySlice _ \<Rightarrow> TySlice 0
      | TyOption _ \<Rightarrow> TyOption 0 | TyMessage _ \<Rightarrow> TyMessage 0 | TySchema _ \<Rightarrow> TySchema 0
      | TyMemorySelection _ \<Rightarrow> TyMemorySelection 0 | TyMemoryRegion _ \<Rightarrow> TyMemoryRegion 0
      | TyTrust w _ \<Rightarrow> TyTrust w 0 | TyRange _ \<Rightarrow> TyRange 0
      | TyMap _ _ \<Rightarrow> TyMap 0 0 | TyStore _ _ \<Rightarrow> TyStore 0 0 | TyResult _ _ \<Rightarrow> TyResult 0 0
      | TyResourceHandle h \<Rightarrow> TyResourceHandle
          (case h of RhMemoryRegion _ \<Rightarrow> RhMemoryRegion 0 | RhExternalTool _ \<Rightarrow> RhExternalTool 0
           | RhOther nm args \<Rightarrow> RhOther nm (replicate (length args) 0))
      | TyTuple ts \<Rightarrow> TyTuple (replicate (length ts) 0)
      | TyHandler h _ _ \<Rightarrow> TyHandler h ProducedInfer None
      | TyTask _ _ \<Rightarrow> TyTask 0 (EffectRowRef [] None)
      | TyContinuation _ _ _ \<Rightarrow> TyContinuation 0 None None
      | a \<Rightarrow> a)"

definition parts_of :: "'s ty \<Rightarrow> type_id option list" where
  "parts_of a =
     (case a of
        TyExistential bs \<Rightarrow> map Some (concat (map sb_args bs))
      | TyArray t \<Rightarrow> [Some t] | TyList t \<Rightarrow> [Some t] | TySet t \<Rightarrow> [Some t] | TySlice t \<Rightarrow> [Some t]
      | TyOption t \<Rightarrow> [Some t] | TyMessage t \<Rightarrow> [Some t] | TySchema t \<Rightarrow> [Some t]
      | TyMemorySelection t \<Rightarrow> [Some t] | TyMemoryRegion t \<Rightarrow> [Some t]
      | TyTrust _ t \<Rightarrow> [Some t] | TyRange t \<Rightarrow> [Some t]
      | TyMap k v \<Rightarrow> [Some k, Some v] | TyStore k v \<Rightarrow> [Some k, Some v] | TyResult t e \<Rightarrow> [Some t, Some e]
      | TyResourceHandle h \<Rightarrow>
          (case h of RhMemoryRegion t \<Rightarrow> [Some t] | RhExternalTool t \<Rightarrow> [Some t] | RhOther _ args \<Rightarrow> map Some args)
      | TyTuple ts \<Rightarrow> map Some ts
      | TyHandler _ _ r \<Rightarrow> [r]
      | TyTask t _ \<Rightarrow> [Some t]
      | TyContinuation t answer _ \<Rightarrow> [Some t, answer]
      | _ \<Rightarrow> [])"

definition structural :: "'s ty \<Rightarrow> bool" where
  "structural a =
     (case a of
        TyPrimitive _ \<Rightarrow> True | TySchedulerHandle \<Rightarrow> True | TyExistential _ \<Rightarrow> True | TyTuple _ \<Rightarrow> True
      | TyResourceHandle _ \<Rightarrow> True | _ \<Rightarrow> parts_of a \<noteq> [])"

definition rows_alike :: "'s ty \<Rightarrow> 's ty \<Rightarrow> bool" where
  "rows_alike a b =
     (case a of
        TyTask _ e \<Rightarrow> (case b of TyTask _ e' \<Rightarrow> same_effect_row (Some e) (Some e') | _ \<Rightarrow> True)
      | TyContinuation _ _ e \<Rightarrow> (case b of TyContinuation _ _ e' \<Rightarrow> same_effect_row e e' | _ \<Rightarrow> True)
      | _ \<Rightarrow> True)"

definition part_pairs :: "'s ty \<Rightarrow> 's ty \<Rightarrow> (type_id \<times> type_id) list" where
  "part_pairs a b = concat (map (\<lambda>(p, q). option_pair p q) (zip (parts_of a) (parts_of b)))"

fun integer_like :: "'s ty \<Rightarrow> bool" where
  "integer_like (TyPrimitive p) = is_integer_primitive p"
| "integer_like (TyIntegerLiteral _) = True"
| "integer_like _ = False"

fun is_literal :: "'s ty \<Rightarrow> bool" where
  "is_literal (TyIntegerLiteral _) = True"
| "is_literal _ = False"

text \<open>Types that agree without looking at parts: an integer literal with any integer type, two
  declarations or parameters by identity or else by name, an application with the erased view of its declaration.\<close>

definition leaf_alike :: "('s, 'd, 'g) type_store \<Rightarrow> bool \<Rightarrow> type_id \<Rightarrow> type_id \<Rightarrow> 's ty \<Rightarrow> 's ty \<Rightarrow> bool" where
  "leaf_alike s erasure x y a b \<longleftrightarrow>
     integer_like a \<and> integer_like b \<and> (is_literal a \<or> is_literal b) \<or>
     (case a of
        TyNamed an ap \<Rightarrow>
          (case b of
             TyNamed bn bp \<Rightarrow> same_identity (parameter_identity s x) (parameter_identity s y) (an = bn \<and> ap = bp)
           | _ \<Rightarrow> False)
      | TyNominal an \<Rightarrow>
          (case b of
             TyNominal bn \<Rightarrow> same_identity (nominal_identity s x) (nominal_identity s y) (nm_name an = nm_name bn)
           | _ \<Rightarrow> False)
      | TyApplied ac aa \<Rightarrow>
          (case b of
             TyNominal view \<Rightarrow>
               erasure \<and> nm_read_only_erased_view view \<and> length aa = length (nm_params view) \<and>
               nominal_identity s ac = nominal_identity s y \<and> store_get s ac = Some (TyNominal view)
           | _ \<Rightarrow> False)
      | _ \<Rightarrow> False)"

text \<open>
  Two types agree under the bindings of a unifier. The flags are those of the unifier: whether an
  application may stand for its read-only view, and whether function types must have equal effect rows.
\<close>

inductive agree :: "('s, 'd, 'g) type_unifier \<Rightarrow> bool \<Rightarrow> bool \<Rightarrow> type_id \<Rightarrow> type_id \<Rightarrow> bool" for u where
  agree_same: "leads u l x \<Longrightarrow> leads u r x \<Longrightarrow> agree u er ct l r"
| agree_leaf: "leads u l x \<Longrightarrow> leads u r y \<Longrightarrow> store_get (tu_store u) x = Some a \<Longrightarrow> store_get (tu_store u) y = Some b \<Longrightarrow>
    leaf_alike (tu_store u) er x y a b \<Longrightarrow> agree u er ct l r"
| agree_parts: "leads u l x \<Longrightarrow> leads u r y \<Longrightarrow> store_get (tu_store u) x = Some a \<Longrightarrow> store_get (tu_store u) y = Some b \<Longrightarrow>
    structural a \<Longrightarrow> shape_of a = shape_of b \<Longrightarrow> rows_alike a b \<Longrightarrow>
    (\<And>p q. (p, q) \<in> set (part_pairs a b) \<Longrightarrow> agree u er ct p q) \<Longrightarrow> agree u er ct l r"
| agree_record: "leads u l x \<Longrightarrow> leads u r y \<Longrightarrow> store_get (tu_store u) x = Some (TyRecord fs) \<Longrightarrow>
    store_get (tu_store u) y = Some (TyRecord gs) \<Longrightarrow> length fs = length gs \<Longrightarrow>
    (\<And>f. f \<in> set fs \<Longrightarrow> \<exists>g. find (\<lambda>c. ft_name c = ft_name f) gs = Some g \<and> agree u er ct (ft_ty f) (ft_ty g)) \<Longrightarrow>
    agree u er ct l r"
| agree_function: "leads u l x \<Longrightarrow> leads u r y \<Longrightarrow> store_get (tu_store u) x = Some (TyFunction ai ao ae) \<Longrightarrow>
    store_get (tu_store u) y = Some (TyFunction bi bo be) \<Longrightarrow> length ai = length bi \<Longrightarrow> (ct \<Longrightarrow> same_effect_row ae be) \<Longrightarrow>
    (\<And>p q. (p, q) \<in> set (zip ai bi) \<Longrightarrow> agree u False ct p q) \<Longrightarrow> agree u False ct ao bo \<Longrightarrow> agree u er ct l r"
| agree_applied: "leads u l x \<Longrightarrow> leads u r y \<Longrightarrow> store_get (tu_store u) x = Some (TyApplied ac aa) \<Longrightarrow>
    store_get (tu_store u) y = Some (TyApplied bc ba) \<Longrightarrow> length aa = length ba \<Longrightarrow> agree u er ct ac bc \<Longrightarrow>
    (\<And>p q. (p, q) \<in> set (zip aa ba) \<Longrightarrow> agree u er (ct \<or> erased_view_declaration (tu_store u) ac) p q) \<Longrightarrow> agree u er ct l r"

section \<open>The arms\<close>

definition arm_of :: "('s, 'd, 'g) type_store \<Rightarrow> bool \<Rightarrow> bool \<Rightarrow> type_id \<Rightarrow> type_id \<Rightarrow> 's ty \<Rightarrow> 's ty \<Rightarrow> unify_arm" where
  "arm_of s er ct x y a b =
     (if leaf_alike s er x y a b then ArmPairs []
      else if structural a \<and> shape_of a = shape_of b \<and> rows_alike a b then ArmPairs (part_pairs a b)
      else case a of
        TyRecord fs \<Rightarrow> (case b of TyRecord gs \<Rightarrow> if length fs = length gs then ArmRecord fs gs else ArmFail | _ \<Rightarrow> ArmFail)
      | TyFunction ai ao ae \<Rightarrow>
          (case b of
             TyFunction bi bo be \<Rightarrow> if length ai = length bi \<and> (ct \<longrightarrow> same_effect_row ae be) then ArmFunction (zip ai bi @ [(ao, bo)]) else ArmFail
           | _ \<Rightarrow> ArmFail)
      | TyApplied ac aa \<Rightarrow> (case b of TyApplied bc ba \<Rightarrow> if length aa = length ba then ArmApplied ac bc (zip aa ba) else ArmFail | _ \<Rightarrow> ArmFail)
      | _ \<Rightarrow> ArmFail)"

lemma zip_concat_args:
  "bounds_alike bs cs \<Longrightarrow>
    concat (map (\<lambda>(l, r). zip (sb_args l) (sb_args r)) (zip bs cs)) = zip (concat (map sb_args bs)) (concat (map sb_args cs))"
proof (induction bs arbitrary: cs)
  case (Cons b bs)
  then obtain c cs' where "cs = c # cs'" by (cases cs) (auto simp: bounds_alike_def)
  with Cons show ?case by (simp add: bounds_alike_def)
qed (simp add: bounds_alike_def)

lemma bounds_alike_shape:
  "bounds_alike bs cs \<longleftrightarrow>
     map (\<lambda>b. SpecBound (sb_spec b) (replicate (length (sb_args b)) (0::nat))) bs =
     map (\<lambda>b. SpecBound (sb_spec b) (replicate (length (sb_args b)) 0)) cs"
proof (induction bs arbitrary: cs)
  case (Cons b bs)
  show ?case
  proof (cases cs)
    case (Cons c cs')
    have "bounds_alike (b # bs) (c # cs') \<longleftrightarrow>
        sb_spec b = sb_spec c \<and> length (sb_args b) = length (sb_args c) \<and> bounds_alike bs cs'"
      by (auto simp: bounds_alike_def)
    with Cons Cons.IH [of cs'] show ?thesis by (auto simp: replicate_eq_replicate)
  qed (simp add: bounds_alike_def)
qed (auto simp: bounds_alike_def)

lemma option_pair_Some: "concat (map (\<lambda>(p, q). option_pair p q) (zip (map Some xs) (map Some ys))) = zip xs ys"
  by (induction xs arbitrary: ys) (auto simp: zip_Cons1 split: list.split)

lemmas arm_defs = match_types_def arm_of_def leaf_alike_def structural_def shape_of_def rows_alike_def part_pairs_def parts_of_def

lemma match_types_arm:
  assumes "x \<noteq> y" "\<And>v. a \<noteq> TyVar v" "\<And>v. b \<noteq> TyVar v"
  shows "match_types u x y a b = arm_of (tu_store u) (tu_read_only_erasure u) (tu_definition_contract u) x y a b"
proof (cases a)
  case (TyExistential bs)
  show ?thesis
  proof (cases b)
    case (TyExistential cs)
    then show ?thesis
      using \<open>a = TyExistential bs\<close> assms(1) bounds_alike_shape [of bs cs] zip_concat_args [of bs cs]
        option_pair_Some [of "concat (map sb_args bs)" "concat (map sb_args cs)"]
      by (simp add: arm_defs Let_def map_concat)
  qed (use TyExistential assms in \<open>simp_all add: arm_defs Let_def\<close>)
next
  case (TyResourceHandle h)
  show ?thesis
  proof (cases b)
    case (TyResourceHandle k)
    then show ?thesis using \<open>a = TyResourceHandle h\<close> assms(1)
      by (cases h; cases k) (simp_all add: arm_defs Let_def replicate_eq_replicate option_pair_Some)
  qed (use TyResourceHandle assms in \<open>simp_all add: arm_defs Let_def split: resource_handle_type.split\<close>)
next
  case (TyVar v)
  with assms(2) [of v] show ?thesis by simp
qed (use assms in \<open>cases b; simp add: arm_defs Let_def replicate_eq_replicate option_pair_Some\<close>)+

lemma as_type_var_None: "as_type_var o' = None \<longleftrightarrow> (\<forall>v. o' \<noteq> Some (TyVar v))"
  by (cases o' rule: as_type_var.cases) simp_all


lemma select_arm_missing:
  assumes "x \<noteq> y" "\<And>w. store_get (tu_store u) x \<noteq> Some (TyVar w)" "\<And>w. store_get (tu_store u) y \<noteq> Some (TyVar w)"
    "store_get (tu_store u) x = None \<or> store_get (tu_store u) y = None"
  shows "select_arm u x y = ArmFail"
  using assms by (auto simp: select_arm_def as_type_var_None [THEN iffD2] split: option.split)

lemma select_arm_types:
  assumes "x \<noteq> y" "store_get (tu_store u) x = Some a" "store_get (tu_store u) y = Some b"
    "\<And>v. a \<noteq> TyVar v" "\<And>v. b \<noteq> TyVar v"
  shows "select_arm u x y = arm_of (tu_store u) (tu_read_only_erasure u) (tu_definition_contract u) x y a b"
  using assms(2,3) as_type_var_None [of "Some a"] as_type_var_None [of "Some b"] assms(4,5)
  by (simp add: select_arm_def match_types_arm [OF assms(1,4,5)])

section \<open>Bindings only grow\<close>

definition extends :: "('s, 'd, 'g) type_unifier \<Rightarrow> ('s, 'd, 'g) type_unifier \<Rightarrow> bool" where
  "extends u u' \<longleftrightarrow> tu_store u' = tu_store u \<and> (\<forall>v t. binding u v = Some t \<longrightarrow> binding u' v = Some t)"

text \<open>Every chain of bindings ends.\<close>

definition resolved :: "('s, 'd, 'g) type_unifier \<Rightarrow> bool" where
  "resolved u \<longleftrightarrow> (\<forall>t. \<exists>x. leads u t x)"

lemma extends_refl [simp]: "extends u u"
  by (simp add: extends_def)

lemma extends_trans: "extends u v \<Longrightarrow> extends v w \<Longrightarrow> extends u w"
  by (simp add: extends_def)





lemma leads_not_var: "store_get (tu_store u) x = Some a \<Longrightarrow> (\<And>v. a \<noteq> TyVar v) \<Longrightarrow> leads u x x"
  by (rule leads_end) auto

lemma leads_mono: "leads u t x \<Longrightarrow> extends u u' \<Longrightarrow> leads u' x y \<Longrightarrow> leads u' t y"
proof (induction rule: leads.induct)
  case (leads_step t v nxt x)
  then show ?case by (auto simp: extends_def intro: leads.leads_step)
qed

lemma structural_not_var: "structural a \<Longrightarrow> a \<noteq> TyVar v \<and> (shape_of a = shape_of b \<longrightarrow> b \<noteq> TyVar v)"
  by (cases a) (auto simp: structural_def parts_of_def shape_of_def)

lemma leaf_alike_not_var: "leaf_alike s er x y a b \<Longrightarrow> a \<noteq> TyVar v \<and> b \<noteq> TyVar v"
  by (cases a) (auto simp: leaf_alike_def)

lemma agree_mono:
  assumes "agree u er ct l r" "extends u u'" "resolved u'"
  shows "agree u' er ct l r"
  using assms(1)
proof (induction rule: agree.induct)
  note lm = leads_mono [OF _ assms(2)]
  have st: "tu_store u' = tu_store u" using assms(2) by (simp add: extends_def)
  have nv: "leads u t x \<Longrightarrow> store_get (tu_store u) x = Some a \<Longrightarrow> (\<And>v. a \<noteq> TyVar v) \<Longrightarrow> leads u' t x" for t x a
    using lm leads_not_var [of u' x a] st by simp
  {
    case (agree_same l x r er ct)
    obtain y where "leads u' x y" using assms(3) by (auto simp: resolved_def)
    with lm agree_same show ?case by (auto intro: agree.agree_same)
  next
    case (agree_leaf l x r y a b er ct)
    then show ?case using leaf_alike_not_var [OF agree_leaf(5)] nv st by (intro agree.agree_leaf [of u' l x r y a b]) auto
  next
    case (agree_parts l x r y a b er ct)
    then show ?case using structural_not_var [OF agree_parts(5), of _ b] nv st by (intro agree.agree_parts [of u' l x r y a b]) auto
  next
    case (agree_record l x r y fs gs er ct)
    then have "leads u' l x" "leads u' r y" using nv by auto
    moreover have "\<exists>g. find (\<lambda>c. ft_name c = ft_name f) gs = Some g \<and> agree u' er ct (ft_ty f) (ft_ty g)" if "f \<in> set fs" for f
      using agree_record(6) [OF that] by blast
    ultimately show ?case using agree_record(3-5) st by (intro agree.agree_record [of u' l x r y fs gs]) auto
  next
    case (agree_function l x r y ai ao ae bi bo be ct er)
    then show ?case using nv st by (intro agree.agree_function [of u' l x r y ai ao ae bi bo be]) auto
  next
    case (agree_applied l x r y ac aa bc ba er ct)
    then show ?case using nv st by (intro agree.agree_applied [of u' l x r y ac aa bc ba]) auto
  }
qed

section \<open>Binding a variable\<close>

lemma binding_insert [simp]:
  "binding (u\<lparr>tu_substitution := substitution_insert v t (tu_substitution u)\<rparr>) = (binding u)(v \<mapsto> t)"
  by (auto simp: fun_eq_iff binding_def substitution_insert_def split: option.split)




section \<open>Soundness\<close>

text \<open>What every call keeps: the store, the flags and the bindings there were.\<close>

definition keeps :: "('s, 'd, 'g) type_unifier \<Rightarrow> ('s, 'd, 'g) type_unifier \<Rightarrow> bool" where
  "keeps u u' \<longleftrightarrow> extends u u' \<and> tu_known u' = tu_known u \<and> tu_read_only_erasure u' = tu_read_only_erasure u \<and>
     tu_definition_contract u' = tu_definition_contract u \<and> tu_pattern_parameters u' = tu_pattern_parameters u \<and>
     tu_parameter_bindings u' = tu_parameter_bindings u"

lemma keeps_refl [simp]: "keeps u u"
  by (simp add: keeps_def)









lemma arm_of_cases [case_names leaf parts rec_fields func app fail]:
  obtains "leaf_alike s er x y a b" "arm_of s er ct x y a b = ArmPairs []"
  | "structural a" "shape_of a = shape_of b" "rows_alike a b" "arm_of s er ct x y a b = ArmPairs (part_pairs a b)"
  | fs gs where "a = TyRecord fs" "b = TyRecord gs" "length fs = length gs" "arm_of s er ct x y a b = ArmRecord fs gs"
  | ai ao ae bi bo be where "a = TyFunction ai ao ae" "b = TyFunction bi bo be" "length ai = length bi"
      "ct \<longrightarrow> same_effect_row ae be" "arm_of s er ct x y a b = ArmFunction (zip ai bi @ [(ao, bo)])"
  | ac aa bc ba where "a = TyApplied ac aa" "b = TyApplied bc ba" "length aa = length ba"
      "arm_of s er ct x y a b = ArmApplied ac bc (zip aa ba)"
  | "arm_of s er ct x y a b = ArmFail" "\<not> leaf_alike s er x y a b" "\<not> (structural a \<and> shape_of a = shape_of b \<and> rows_alike a b)"
proof (cases "leaf_alike s er x y a b")
  case True
  then show ?thesis by (intro that(1)) (simp_all add: arm_of_def)
next
  case nl: False
  show ?thesis
  proof (cases "structural a \<and> shape_of a = shape_of b \<and> rows_alike a b")
    case True
    with nl show ?thesis by (intro that(2)) (simp_all add: arm_of_def)
  next
    case ns: False
    let ?A = "arm_of s er ct x y a b"
    have A: "?A = (case a of
        TyRecord fs \<Rightarrow> (case b of TyRecord gs \<Rightarrow> if length fs = length gs then ArmRecord fs gs else ArmFail | _ \<Rightarrow> ArmFail)
      | TyFunction ai ao ae \<Rightarrow>
          (case b of
             TyFunction bi bo be \<Rightarrow> if length ai = length bi \<and> (ct \<longrightarrow> same_effect_row ae be) then ArmFunction (zip ai bi @ [(ao, bo)]) else ArmFail
           | _ \<Rightarrow> ArmFail)
      | TyApplied ac aa \<Rightarrow> (case b of TyApplied bc ba \<Rightarrow> if length aa = length ba then ArmApplied ac bc (zip aa ba) else ArmFail | _ \<Rightarrow> ArmFail)
      | _ \<Rightarrow> ArmFail)" unfolding arm_of_def if_not_P [OF nl] if_not_P [OF ns] by (rule refl)
    show ?thesis
    proof (cases "?A = ArmFail")
      case True with nl ns show ?thesis by (intro that(6))
    next
      case False
      then consider (r) fs where "a = TyRecord fs" | (f) ai ao ae where "a = TyFunction ai ao ae" | (p) ac aa where "a = TyApplied ac aa"
        unfolding A by (cases a) simp_all
      then show ?thesis
      proof cases
        case r with False A that(3) show ?thesis by (cases b) (simp_all split: if_splits)
      next
        case f with False A that(4) show ?thesis by (cases b) (simp_all split: if_splits)
      next
        case p with False A that(5) show ?thesis by (cases b) (simp_all split: if_splits)
      qed
    qed
  qed
qed

lemma binding_flags [simp]:
  "binding (u\<lparr>tu_read_only_erasure := e\<rparr>) = binding u" "binding (u\<lparr>tu_definition_contract := c\<rparr>) = binding u"
  by (simp_all add: fun_eq_iff binding_def split: option.split)

lemma leads_cong:
  assumes "tu_store u' = tu_store u" "binding u' = binding u"
  shows "leads u t x \<Longrightarrow> leads u' t x"
proof (induction rule: leads.induct)
  case (leads_end t)
  then show ?case using assms by (intro leads.leads_end) simp
next
  case (leads_step t v nxt x)
  then show ?case using assms by (intro leads.leads_step [of u' t v nxt]) simp_all
qed

lemma flag_update:
  assumes "tu_store u' = tu_store u" "binding u' = binding u" "resolved u"
  shows "resolved u'" "agree u er ct l r \<Longrightarrow> agree u' er ct l r"
proof -
  show r: "resolved u'" using assms leads_cong [OF assms(1,2)] unfolding resolved_def by meson
  show "agree u er ct l r \<Longrightarrow> agree u' er ct l r"
    using agree_mono [OF _ _ r] assms(1,2) by (simp add: extends_def)
qed





section \<open>Stores without variables\<close>

definition ground_store :: "('s, 'd, 'g) type_store \<Rightarrow> bool" where
  "ground_store s \<longleftrightarrow> (\<forall>i v. store_get s i \<noteq> Some (TyVar v))"

text \<open>The identifiers a type is built from. A store whose types only mention earlier entries, as
  interning makes them, is well founded.\<close>

definition components_of :: "'s ty \<Rightarrow> type_id set" where
  "components_of a = {t. Some t \<in> set (parts_of a)} \<union>
     (case a of
        TyRecord fs \<Rightarrow> ft_ty ` set fs
      | TyFunction ai ao _ \<Rightarrow> insert ao (set ai)
      | TyApplied ac aa \<Rightarrow> insert ac (set aa)
      | _ \<Rightarrow> {})"

definition well_founded_store :: "('s, 'd, 'g) type_store \<Rightarrow> bool" where
  "well_founded_store s \<longleftrightarrow> (\<forall>i a. store_get s i = Some a \<longrightarrow> (\<forall>c \<in> components_of a. c < i))"

lemma ground_leads [simp]: "ground_store (tu_store u) \<Longrightarrow> leads u t x \<longleftrightarrow> t = x"
  by (auto simp: ground_store_def elim: leads.cases intro: leads_end)

lemma ground_resolve [simp]: "ground_store (tu_store u) \<Longrightarrow> resolve u t = Inr t"
  by (auto simp: ground_store_def resolve_def resolve_loop.simps split: option.split ty.split)

lemma ground_resolved: "ground_store (tu_store u) \<Longrightarrow> resolved u"
  by (simp add: resolved_def)

lemma part_pairs_components: "(p, q) \<in> set (part_pairs a b) \<Longrightarrow> p \<in> components_of a"
proof -
  have "(p, q) \<in> set (option_pair x y) \<Longrightarrow> x = Some p" for x y by (cases x; cases y) auto
  then show "(p, q) \<in> set (part_pairs a b) \<Longrightarrow> p \<in> components_of a"
    by (auto simp: part_pairs_def components_of_def dest: set_zip_leftD)
qed

text \<open>Without variables two different entries agree exactly as the arm for their types says.\<close>

lemma leaf_alike_no: "\<not> leaf_alike s er x y (TyRecord fs) b" "\<not> leaf_alike s er x y (TyFunction i t e) b"
  "\<not> leaf_alike s er x y (TyApplied ac aa) (TyApplied bc ba)"
  "\<not> structural (TyRecord fs)" "\<not> structural (TyFunction i t e)" "\<not> structural (TyApplied ac aa)"
  by (simp_all add: leaf_alike_def structural_def parts_of_def)

lemma agree_ground:
  assumes g: "ground_store (tu_store u)" and ne: "x \<noteq> y"
    and a: "store_get (tu_store u) x = Some a" and b: "store_get (tu_store u) y = Some b"
  shows "agree u er ct x y \<longleftrightarrow>
    (case arm_of (tu_store u) er ct x y a b of
       ArmPairs ps \<Rightarrow> (\<forall>(p, q) \<in> set ps. agree u er ct p q)
     | ArmRecord fs gs \<Rightarrow> (\<forall>f \<in> set fs. \<exists>g. find (\<lambda>c. ft_name c = ft_name f) gs = Some g \<and> agree u er ct (ft_ty f) (ft_ty g))
     | ArmFunction ps \<Rightarrow> (\<forall>(p, q) \<in> set ps. agree u False ct p q)
     | ArmApplied ac bc ps \<Rightarrow> agree u er ct ac bc \<and> (\<forall>(p, q) \<in> set ps. agree u er (ct \<or> erased_view_declaration (tu_store u) ac) p q)
     | _ \<Rightarrow> False)" (is "_ \<longleftrightarrow> ?rhs")
proof
  assume "agree u er ct x y"
  then show ?rhs
  proof (cases rule: agree.cases)
    case (agree_parts x' y' a' b')
    with g a b show ?thesis by (auto simp: arm_of_def)
  qed (use g ne a b in \<open>auto simp: arm_of_def leaf_alike_no\<close>)
next
  assume r: ?rhs
  have l: "leads u x x" "leads u y y" using g by simp_all
  show "agree u er ct x y"
  proof (cases rule: arm_of_cases [where s = "tu_store u" and er = er and ct = ct and x = x and y = y and a = a and b = b])
    case leaf then show ?thesis using l a b by (auto intro: agree_leaf)
  next
    case parts then show ?thesis using l a b r by (auto intro!: agree_parts [of u x x y y a b])
  next
    case (rec_fields fs gs) then show ?thesis using l a b r by (auto intro!: agree_record [of u x x y y fs gs])
  next
    case (func ai ao ae bi bo be) then show ?thesis using l a b r by (auto intro!: agree_function [of u x x y y ai ao ae bi bo be])
  next
    case (app ac aa bc ba) then show ?thesis using l a b r by (auto intro!: agree_applied [of u x x y y ac aa bc ba])
  next
    case fail then show ?thesis using r by simp
  qed
qed

definition decides ::
    "(type_id \<Rightarrow> type_id \<Rightarrow> ('s, 'd, 'g) type_unifier \<Rightarrow> ('s, 'd, 'g) unify_result) \<Rightarrow> ('s, 'd, 'g) type_unifier \<Rightarrow> type_id \<Rightarrow> type_id \<Rightarrow> bool" where
  "decides f u l r \<longleftrightarrow> (\<exists>res. f l r u = Some (res, u) \<and> (res = Inr () \<longleftrightarrow> agree u (tu_read_only_erasure u) (tu_definition_contract u) l r))"

lemma decides_pairs:
  "(\<And>p q. (p, q) \<in> set ps \<Longrightarrow> decides f u p q) \<Longrightarrow>
   \<exists>res. unify_pairs f ps u = Some (res, u) \<and>
     (res = Inr () \<longleftrightarrow> (\<forall>(p, q) \<in> set ps. agree u (tu_read_only_erasure u) (tu_definition_contract u) p q))"
proof (induction ps)
  case (Cons e ps)
  obtain p q where e: "e = (p, q)" by (cases e)
  obtain res where r: "f p q u = Some (res, u)" "res = Inr () \<longleftrightarrow> agree u (tu_read_only_erasure u) (tu_definition_contract u) p q"
    using Cons.prems [of p q] by (auto simp: e decides_def)
  show ?case
  proof (cases res)
    case (Inl x) with r show ?thesis by (auto simp: e)
  next
    case (Inr z) with r Cons.IH Cons.prems show ?thesis by (auto simp: e)
  qed
qed simp

lemma decides_fields:
  "(\<And>h g. h \<in> set fs \<Longrightarrow> decides f u (ft_ty h) (ft_ty g)) \<Longrightarrow>
   \<exists>res. unify_fields f lhs rhs gs fs u = Some (res, u) \<and>
     (res = Inr () \<longleftrightarrow> (\<forall>h \<in> set fs. \<exists>g. find (\<lambda>c. ft_name c = ft_name h) gs = Some g \<and>
        agree u (tu_read_only_erasure u) (tu_definition_contract u) (ft_ty h) (ft_ty g)))"
proof (induction fs)
  case (Cons h fs)
  show ?case
  proof (cases "find (\<lambda>c. ft_name c = ft_name h) gs")
    case (Some g)
    obtain res where r: "f (ft_ty h) (ft_ty g) u = Some (res, u)"
        "res = Inr () \<longleftrightarrow> agree u (tu_read_only_erasure u) (tu_definition_contract u) (ft_ty h) (ft_ty g)"
      using Cons.prems [of h g] by (auto simp: decides_def)
    show ?thesis
    proof (cases res)
      case (Inl x) with r Some show ?thesis by auto
    next
      case (Inr z) with r Some Cons.IH Cons.prems show ?thesis by auto
    qed
  qed simp
qed simp

lemma unify_decides:
  assumes "ground_store (tu_store u)" "well_founded_store (tu_store u)" "tu_pattern_parameters u = None" "l < n"
  shows "decides (unify n) u l r"
  using assms
proof (induction n arbitrary: l r u)
  case (Suc n)
  note g = Suc.prems(1) and wf = Suc.prems(2) and none = Suc.prems(3)
  let ?s = "tu_store u" and ?er = "tu_read_only_erasure u" and ?ct = "tu_definition_contract u"
  show ?case
  proof (cases "l = r")
    case True
    then show ?thesis using g none by (auto simp: decides_def unify_step_def intro: agree_same)
  next
    case ne: False
    have step: "unify_step (occurs n) (unify n) l r u = run_arm (occurs n) (unify n) l r (select_arm u l r) u"
      using g none ne by (simp add: unify_step_def)
    show ?thesis
    proof (cases "store_get ?s l = None \<or> store_get ?s r = None")
      case True
      then have "\<not> agree u ?er ?ct l r" using g ne by (auto elim: agree.cases)
      moreover have "select_arm u l r = ArmFail"
        using g by (intro select_arm_missing [OF ne _ _ True]) (simp_all add: ground_store_def)
      ultimately show ?thesis by (auto simp: decides_def step)
    next
      case False
      then obtain a b where a: "store_get ?s l = Some a" and b: "store_get ?s r = Some b" by auto
      have v: "\<And>v. a \<noteq> TyVar v" "\<And>v. b \<noteq> TyVar v" using a b g by (auto simp: ground_store_def)
      have lt: "c < n" if "c \<in> components_of a" for c using wf a that Suc.prems(4) by (fastforce simp: well_founded_store_def)
      have IH: "decides (unify n) w c d" if "c \<in> components_of a" "tu_store w = ?s" "tu_pattern_parameters w = None" for c d w
        using Suc.IH [of w c d] that g wf lt by simp
      have arm: "select_arm u l r = arm_of ?s ?er ?ct l r a b"
        by (rule select_arm_types [OF ne a b v])
      note ag = agree_ground [OF g ne a b, of ?er ?ct]
      show ?thesis
      proof (cases rule: arm_of_cases [where s = ?s and er = ?er and ct = ?ct and x = l and y = r and a = a and b = b])
        case leaf
        then show ?thesis using ag by (simp add: decides_def step arm)
      next
        case parts
        have "decides (unify n) u p q" if "(p, q) \<in> set (part_pairs a b)" for p q
          using IH [OF part_pairs_components [OF that]] none by simp
        from decides_pairs [OF this] parts ag show ?thesis by (auto simp: decides_def step arm)
      next
        case (rec_fields fs gs)
        have "decides (unify n) u (ft_ty h) (ft_ty k)" if "h \<in> set fs" for h k
          using IH none that by (simp add: rec_fields(1) components_of_def)
        from decides_fields [OF this] rec_fields ag show ?thesis by (auto simp: decides_def step arm)
      next
        case (func ai ao ae bi bo be)
        let ?v = "u\<lparr>tu_read_only_erasure := False\<rparr>"
        have d: "decides (unify n) ?v p q" if "(p, q) \<in> set (zip ai bi @ [(ao, bo)])" for p q
          using IH [of p ?v q] none that by (auto simp: func(1) components_of_def dest: set_zip_leftD)
        from decides_pairs [of "zip ai bi @ [(ao, bo)]" "unify n" ?v] d obtain res where res: "unify_pairs (unify n) (zip ai bi @ [(ao, bo)]) ?v = Some (res, ?v)"
            "res = Inr () \<longleftrightarrow> (\<forall>(p, q) \<in> set (zip ai bi @ [(ao, bo)]). agree ?v False ?ct p q)"
          by (simp del: set_append set_simps) blast
        have "agree ?v False ?ct p q \<longleftrightarrow> agree u False ?ct p q" for p q
          using flag_update(2) [of u ?v] flag_update(2) [of ?v u] ground_resolved [of u] ground_resolved [of ?v] g by auto
        with res func ag show ?thesis by (auto simp: decides_def step arm)
      next
        case (app ac aa bc ba)
        have "decides (unify n) u ac bc" using IH none by (simp add: app(1) components_of_def)
        then obtain res where c: "unify n ac bc u = Some (res, u)" "res = Inr () \<longleftrightarrow> agree u ?er ?ct ac bc" by (auto simp: decides_def)
        let ?v = "u\<lparr>tu_definition_contract := ?ct \<or> erased_view_declaration ?s ac\<rparr>"
        have d: "decides (unify n) ?v p q" if "(p, q) \<in> set (zip aa ba)" for p q
          using IH [of p ?v q] none that by (auto simp: app(1) components_of_def dest: set_zip_leftD)
        from decides_pairs [of "zip aa ba" "unify n" ?v] d obtain res' where res: "unify_pairs (unify n) (zip aa ba) ?v = Some (res', ?v)"
            "res' = Inr () \<longleftrightarrow> (\<forall>(p, q) \<in> set (zip aa ba). agree ?v ?er (?ct \<or> erased_view_declaration ?s ac) p q)"
          by (simp del: set_append set_simps) blast
        have "agree ?v er ct p q \<longleftrightarrow> agree u er ct p q" for er ct p q
          using flag_update(2) [of u ?v] flag_update(2) [of ?v u] ground_resolved [of u] ground_resolved [of ?v] g by auto
        with c res app ag show ?thesis by (cases res) (auto simp: decides_def step arm Let_def)
      next
        case fail
        then show ?thesis using ag by (simp add: decides_def step arm)
      qed
    qed
  qed
qed (simp)

section \<open>Properties\<close>


definition plain_store :: "nat ty list \<Rightarrow> (nat, nat, nat) type_store" where
  "plain_store ts = \<lparr>sto_base = None, sto_types = ts, sto_nominal_identities = fmempty,
     sto_parameter_identities = fmempty, sto_parameter_ids = Map.empty\<rparr>"

lemma plain_store_get [simp]: "store_get (plain_store ts) i = nth_opt ts i"
  by (simp add: store_get_def plain_store_def)




text \<open>C11. On a store without type variables whose types mention only earlier entries, assignability always
  gives an answer, with as many nested calls as the identifier of the source type allows, and the
  answer is right: a type is assignable exactly if it is \<open>Never\<close>, or the target is one of the named
  input constraints and the type meets it, or the two types agree, where an application may
  stand for the read-only view of its declaration. Every type is assignable to itself.\<close>

theorem assignability_decided:
  assumes "ground_store s" "well_founded_store s" "source < n"
  shows "\<exists>b. is_assignable n s source target = Some b \<and>
     (b \<longleftrightarrow> store_get s source = Some (TyPrimitive NeverT) \<or> support_constraint_assignable s source target \<or>
        agree (unifier_new s) True False source target) \<and>
     (source = target \<longrightarrow> b)"
proof -
  let ?u = "with_read_only_erasure (unifier_new s)"
  have u: "tu_store ?u = s" "tu_read_only_erasure ?u" "\<not> tu_definition_contract ?u" "tu_pattern_parameters ?u = None"
    by (simp_all add: with_read_only_erasure_def unifier_new_def)
  obtain res where res: "unify n source target ?u = Some (res, ?u)" "res = Inr () \<longleftrightarrow> agree ?u True False source target"
    using unify_decides [of ?u source n target] assms u by (auto simp: decides_def)
  have b: "binding ?u = binding (unifier_new s)" "tu_store (unifier_new s) = s"
    by (simp_all add: with_read_only_erasure_def) (simp add: unifier_new_def)
  have "agree ?u True False source target \<longleftrightarrow> agree (unifier_new s) True False source target"
    using flag_update(2) [of ?u "unifier_new s"] flag_update(2) [of "unifier_new s" ?u] b u(1)
      ground_resolved [of ?u] ground_resolved [of "unifier_new s"] assms(1) by auto
  moreover have "agree (unifier_new s) True False source source" using assms(1) b by (auto intro: agree_same)
  ultimately show ?thesis using res by (auto simp: is_assignable_def assignable_def Let_def)
qed

theorem assignability_decided_witness:
  "is_assignable 1 (plain_store [TyPrimitive I8T, TyIntegerLiteral (lit ''1''), TyPrimitive I16T]) 0 0 = Some True"
proof -
  let ?s = "plain_store [TyPrimitive I8T, TyIntegerLiteral (lit ''1''), TyPrimitive I16T]"
  have g: "ground_store ?s" "well_founded_store ?s"
    by (auto simp: ground_store_def well_founded_store_def nth_opt_def components_of_def parts_of_def nth_Cons split: nat.splits if_splits)
  from assignability_decided [OF g, of 0 1 0] show ?thesis by auto
qed

text \<open>C34. The occurs check does not look into applied types, so a variable can be bound to an application
  of a constructor to itself. Both unifications below succeed and leave such a binding; unifying
  the two variables afterwards never ends: no number of nested calls is enough.\<close>

definition cyclic_store :: "(nat, nat, nat) type_store" where
  "cyclic_store = plain_store [TyNominal (NominalTypeRef (lit ''C'') [lit ''T''] None False), TyVar 0, TyVar 1,
     TyApplied 0 [1], TyApplied 0 [2]]"

lemma cyclic_store_get [simp]:
  "store_get cyclic_store 0 = Some (TyNominal (NominalTypeRef (lit ''C'') [lit ''T''] None False))"
  "store_get cyclic_store (Suc 0) = Some (TyVar 0)" "store_get cyclic_store 2 = Some (TyVar 1)"
  "store_get cyclic_store 3 = Some (TyApplied 0 [1])" "store_get cyclic_store 4 = Some (TyApplied 0 [2])"
  by (simp_all add: cyclic_store_def nth_opt_def numeral_eq_Suc)

definition cyclic_unifier :: "substitution \<Rightarrow> (nat, nat, nat) type_unifier" where
  "cyclic_unifier sub = (unifier_new cyclic_store)\<lparr>tu_substitution := sub\<rparr>"

lemma cyclic_unifier_simps [simp]:
  "tu_store (cyclic_unifier sub) = cyclic_store" "tu_pattern_parameters (cyclic_unifier sub) = None"
  "tu_definition_contract (cyclic_unifier sub) = False" "tu_read_only_erasure (cyclic_unifier sub) = False"
  "binding (cyclic_unifier sub) v = fmlookup sub v" "tu_substitution (cyclic_unifier sub) = sub"
  "(cyclic_unifier sub)\<lparr>tu_substitution := sub'\<rparr> = cyclic_unifier sub'"
  "(cyclic_unifier sub)\<lparr>tu_definition_contract := False\<rparr> = cyclic_unifier sub"
  by (simp_all add: cyclic_unifier_def unifier_new_def binding_def split: option.split)

lemma cyclic_bindings:
  "unify (Suc (Suc n)) (Suc 0) 3 (cyclic_unifier fmempty) = Some (Inr (), cyclic_unifier (fmupd 0 3 fmempty))"
  "unify (Suc (Suc n)) 2 4 (cyclic_unifier (fmupd 0 3 fmempty)) =
     Some (Inr (), cyclic_unifier (fmupd (Suc 0) 4 (fmupd 0 3 fmempty)))"
  by (simp_all add: unify_step_def resolve_def resolve_loop.simps select_arm_def bind_var_def occurs_type_def
      substitution_insert_def)

lemma cyclic_diverges: "unify n (Suc 0) 2 (cyclic_unifier (fmupd (Suc 0) 4 (fmupd 0 3 fmempty))) = None"
proof (induction n)
  case (Suc n)
  let ?u = "cyclic_unifier (fmupd (Suc 0) 4 (fmupd 0 3 fmempty))"
  have r: "resolve ?u (Suc 0) = Inr 3" "resolve ?u 2 = Inr 4" "resolve ?u 0 = Inr 0"
    by (simp_all add: resolve_def resolve_loop.simps)
  have "unify n 0 0 ?u = None \<or> unify n 0 0 ?u = Some (Inr (), ?u)"
    by (cases n) (simp_all add: unify_step_def r)
  with Suc show ?case
    by (auto simp: unify_step_def r select_arm_def match_types_def erased_view_declaration_def)
qed simp

theorem occurs_check_gap:
  "\<exists>u1 u2. unify 3 1 3 (unifier_new cyclic_store) = Some (Inr (), u1) \<and> unify 3 2 4 u1 = Some (Inr (), u2) \<and>
     (\<forall>n. unify n 1 2 u2 = None)"
proof -
  have "unifier_new cyclic_store = cyclic_unifier fmempty" by (simp add: cyclic_unifier_def unifier_new_def)
  with cyclic_bindings [of 1] cyclic_diverges show ?thesis by (auto simp: numeral_3_eq_3 [symmetric])
qed

end
