(* ===== verification/Etas_Literal.thy ===== *)
theory Etas_Literal
  imports Etas_Lexer Etas_Types_Facts Complex_Main "HOL-Library.Word"
begin

text \<open>Numeric literals, from \<open>etas_types/src/solver/numeric_literal.rs\<close>: signs, radix prefixes, separators,
  the 128-bit magnitude and the ranges of the integer types, and the check of floating-point literals. Magnitudes
  are 128-bit words and keep their wrap-around. What the code uses of the Rust library is modelled
  too: \<open>to_digit\<close>, \<open>from_str_radix\<close> with its checked steps, and the decimal grammar and
  rounding to nearest of \<open>f64\<close> and \<open>f32\<close> on exact rational numbers.\<close>

section \<open>Integer literals\<close>

datatype numeric_literal_kind = IntegerKind | FloatKind

record checked_integer_literal_value =
  ci_negative :: bool
  ci_magnitude :: "128 word"

definition ETAS_POINTER_BITS :: nat where
  "ETAS_POINTER_BITS = 64"

fun source_name :: "primitive_type \<Rightarrow> utext" where
  "source_name BoolT = lit ''bool''"
| "source_name I8T = lit ''i8''"
| "source_name I16T = lit ''i16''"
| "source_name I32T = lit ''i32''"
| "source_name I64T = lit ''i64''"
| "source_name I128T = lit ''i128''"
| "source_name ISizeT = lit ''isize''"
| "source_name U8T = lit ''u8''"
| "source_name U16T = lit ''u16''"
| "source_name U32T = lit ''u32''"
| "source_name U64T = lit ''u64''"
| "source_name U128T = lit ''u128''"
| "source_name USizeT = lit ''usize''"
| "source_name F32T = lit ''f32''"
| "source_name F64T = lit ''f64''"
| "source_name CharT = lit ''char''"
| "source_name StringT = lit ''string''"
| "source_name BytesT = lit ''bytes''"
| "source_name UnitT = lit ''unit''"
| "source_name NeverT = lit ''never''"

fun integer_layout :: "primitive_type \<Rightarrow> (bool \<times> nat) option" where
  "integer_layout I8T = Some (True, 8)"
| "integer_layout I16T = Some (True, 16)"
| "integer_layout I32T = Some (True, 32)"
| "integer_layout I64T = Some (True, 64)"
| "integer_layout I128T = Some (True, 128)"
| "integer_layout ISizeT = Some (True, ETAS_POINTER_BITS)"
| "integer_layout U8T = Some (False, 8)"
| "integer_layout U16T = Some (False, 16)"
| "integer_layout U32T = Some (False, 32)"
| "integer_layout U64T = Some (False, 64)"
| "integer_layout U128T = Some (False, 128)"
| "integer_layout USizeT = Some (False, ETAS_POINTER_BITS)"
| "integer_layout _ = None"

text \<open>\<open>char::to_digit\<close> for a radix of at most 36.\<close>

definition to_digit :: "uchar \<Rightarrow> nat \<Rightarrow> nat option" where
  "to_digit c radix =
     (let d = (if uc CHR ''0'' \<le> c \<and> c \<le> uc CHR ''9'' then Some (c - uc CHR ''0'')
               else if uc CHR ''a'' \<le> c \<and> c \<le> uc CHR ''z'' then Some (c - uc CHR ''a'' + 10)
               else if uc CHR ''A'' \<le> c \<and> c \<le> uc CHR ''Z'' then Some (c - uc CHR ''A'' + 10)
               else None)
      in case d of None \<Rightarrow> None | Some d \<Rightarrow> if d < radix then Some d else None)"

definition strip_prefix :: "utext \<Rightarrow> utext \<Rightarrow> utext option" where
  "strip_prefix p t = (if starts_with t p then Some (drop (length p) t) else None)"

fun or_prefix :: "'a option \<Rightarrow> 'a option \<Rightarrow> 'a option" where
  "or_prefix None b = b"
| "or_prefix a b = a"

definition base_text :: "nat \<Rightarrow> utext" where
  "base_text radix =
     (if radix < 10 then [uc CHR ''0'' + radix] else [uc CHR ''0'' + radix div 10, uc CHR ''0'' + radix mod 10])"

text \<open>The loop over the characters with their indices.\<close>

fun check_digits :: "nat \<Rightarrow> utext \<Rightarrow> (nat \<times> uchar) list \<Rightarrow> utext + unit" where
  "check_digits radix chars [] = Inr ()"
| "check_digits radix chars ((i, ch) # rest) =
     (if ch = uc CHR ''_'' then
        if i = 0 \<or> i + 1 = length chars \<or> chars ! (i - 1) = uc CHR ''_'' \<or> chars ! (i + 1) = uc CHR ''_''
        then Inl (lit ''numeric separators must appear between digits'')
        else check_digits radix chars rest
      else if to_digit ch radix = None
      then Inl (lit ''`'' @ [ch] @ lit ''` is not a base-'' @ base_text radix @ lit '' digit'')
      else check_digits radix chars rest)"

definition normalized_digits :: "utext \<Rightarrow> nat \<Rightarrow> utext + utext" where
  "normalized_digits digits radix =
     (if digits = [] then Inl (lit ''the integer literal has no digits'')
      else case check_digits radix digits (enumerate 0 digits) of
        Inl e \<Rightarrow> Inl e
      | Inr _ \<Rightarrow> Inr (filter (\<lambda>ch. ch \<noteq> uc CHR ''_'') digits))"

text \<open>\<open>u128::from_str_radix\<close> on text without a sign: every step is a checked multiplication and a
  checked addition.\<close>

definition checked_mul :: "128 word \<Rightarrow> 128 word \<Rightarrow> 128 word option" where
  "checked_mul a b = (if unat a * unat b < 2 ^ 128 then Some (a * b) else None)"

definition checked_add :: "128 word \<Rightarrow> 128 word \<Rightarrow> 128 word option" where
  "checked_add a b = (if unat a + unat b < 2 ^ 128 then Some (a + b) else None)"

fun from_str_radix_loop :: "nat \<Rightarrow> 128 word \<Rightarrow> utext \<Rightarrow> 128 word option" where
  "from_str_radix_loop radix acc [] = Some acc"
| "from_str_radix_loop radix acc (c # cs) =
     (case to_digit c radix of
        None \<Rightarrow> None
      | Some d \<Rightarrow>
          (case checked_mul acc (of_nat radix) of
             None \<Rightarrow> None
           | Some acc \<Rightarrow>
               (case checked_add acc (of_nat d) of
                  None \<Rightarrow> None
                | Some acc \<Rightarrow> from_str_radix_loop radix acc cs)))"

definition from_str_radix :: "utext \<Rightarrow> nat \<Rightarrow> 128 word option" where
  "from_str_radix t radix = (if t = [] then None else from_str_radix_loop radix 0 t)"

definition split_sign :: "utext \<Rightarrow> bool \<times> utext" where
  "split_sign t =
     (case strip_prefix (lit ''-'') t of
        Some digits \<Rightarrow> (True, digits)
      | None \<Rightarrow> (False, (case strip_prefix (lit ''+'') t of None \<Rightarrow> t | Some digits \<Rightarrow> digits)))"

definition split_radix :: "utext \<Rightarrow> nat \<times> utext" where
  "split_radix digits =
     (case or_prefix (strip_prefix (lit ''0x'') digits) (strip_prefix (lit ''0X'') digits) of
        Some digits \<Rightarrow> (16, digits)
      | None \<Rightarrow>
          (case or_prefix (strip_prefix (lit ''0o'') digits) (strip_prefix (lit ''0O'') digits) of
             Some digits \<Rightarrow> (8, digits)
           | None \<Rightarrow>
               (case or_prefix (strip_prefix (lit ''0b'') digits) (strip_prefix (lit ''0B'') digits) of
                  Some digits \<Rightarrow> (2, digits)
                | None \<Rightarrow> (10, digits))))"

definition checked_integer_literal :: "utext \<Rightarrow> primitive_type \<Rightarrow> utext + checked_integer_literal_value" where
  "checked_integer_literal t p =
     (let (negative, digits) = split_sign t; (radix, digits) = split_radix digits in
      case normalized_digits digits radix of
        Inl e \<Rightarrow> Inl e
      | Inr digits \<Rightarrow>
          (case from_str_radix digits radix of
             None \<Rightarrow> Inl (lit ''the integer magnitude exceeds 128 bits'')
           | Some magnitude \<Rightarrow>
               let value = \<lparr>ci_negative = (negative \<and> magnitude \<noteq> 0), ci_magnitude = magnitude\<rparr> in
               (case integer_layout p of
                  None \<Rightarrow> Inl (lit ''an integer literal requires an integer target type'')
                | Some (is_signed, bits) \<Rightarrow>
                    if \<not> is_signed then
                      if negative then Inl (lit ''a negative literal is not representable as '' @ source_name p)
                      else
                        let maximum = (if bits = 128 then - 1 else push_bit bits 1 - 1) in
                        if magnitude \<le> maximum then Inr value
                        else Inl (lit ''the value is outside the range of '' @ source_name p)
                    else
                      let maximum = push_bit (bits - 1) 1 - 1;
                          maximum_magnitude = (if negative then maximum + 1 else maximum) in
                      if magnitude \<le> maximum_magnitude then Inr value
                      else Inl (lit ''the value is outside the range of '' @ source_name p))))"

section \<open>Floating-point literals\<close>

fun check_float :: "utext \<Rightarrow> (nat \<times> uchar) list \<Rightarrow> bool" where
  "check_float chars [] = True"
| "check_float chars ((i, ch) # rest) =
     (if ch = uc CHR ''_'' \<and>
         (i = 0 \<or> i + 1 = length chars \<or> \<not> is_ascii_digit (chars ! (i - 1)) \<or> \<not> is_ascii_digit (chars ! (i + 1)))
      then False else check_float chars rest)"

definition normalized_float :: "utext \<Rightarrow> utext + utext" where
  "normalized_float t =
     (if check_float t (enumerate 0 t) then Inr (filter (\<lambda>ch. ch \<noteq> uc CHR ''_'') t)
      else Inl (lit ''numeric separators must appear between digits''))"

definition float_mantissa_is_nonzero :: "utext \<Rightarrow> bool" where
  "float_mantissa_is_nonzero t \<longleftrightarrow>
     (let trimmed = dropWhile (\<lambda>c. c \<in> {uc CHR ''+'', uc CHR ''-''}) t;
          mantissa = takeWhile (\<lambda>c. c \<notin> {uc CHR ''e'', uc CHR ''E''}) trimmed
      in \<exists>c \<in> set mantissa. is_ascii_digit c \<and> c \<noteq> uc CHR ''0'')"

text \<open>Reading a decimal number: the grammar of \<open>str::parse\<close> for floats, with the exact value.
  The words for infinities and not-a-number are read without regard to case.\<close>

datatype parsed_float = ParsedNotFinite | ParsedNumber rat

definition digits_value :: "utext \<Rightarrow> nat" where
  "digits_value t = foldl (\<lambda>acc c. acc * 10 + (c - uc CHR ''0'')) 0 t"

definition ascii_lower :: "uchar \<Rightarrow> uchar" where
  "ascii_lower c = (if uc CHR ''A'' \<le> c \<and> c \<le> uc CHR ''Z'' then c + 32 else c)"

definition parse_exponent :: "utext \<Rightarrow> int option" where
  "parse_exponent t =
     (case t of
        [] \<Rightarrow> Some 0
      | c # rest \<Rightarrow>
          if c \<in> {uc CHR ''e'', uc CHR ''E''} then
            let (negative, digits) = split_sign rest in
            if digits \<noteq> [] \<and> list_all is_ascii_digit digits
            then Some (if negative then - int (digits_value digits) else int (digits_value digits)) else None
          else None)"

definition parse_number :: "utext \<Rightarrow> rat option" where
  "parse_number t =
     (let whole = takeWhile is_ascii_digit t;
          rest = dropWhile is_ascii_digit t;
          (fraction, rest) =
            (case rest of
               [] \<Rightarrow> ([], [])
             | c # r \<Rightarrow> if c = uc CHR ''.'' then (takeWhile is_ascii_digit r, dropWhile is_ascii_digit r) else ([], rest))
      in if whole = [] \<and> fraction = [] then None
         else map_option (\<lambda>e. of_nat (digits_value (whole @ fraction)) * 10 powi (e - int (length fraction)))
           (parse_exponent rest))"

definition parse_float :: "utext \<Rightarrow> parsed_float option" where
  "parse_float t =
     (let (negative, rest) = split_sign t in
      if map ascii_lower rest \<in> {lit ''inf'', lit ''infinity'', lit ''nan''} then Some ParsedNotFinite
      else map_option (\<lambda>x. ParsedNumber (if negative then - x else x)) (parse_number rest))"

text \<open>Rounding a rational number to a binary format with \<open>p\<close> digits and least exponent \<open>emin\<close>:
  to the nearest number, ties to even; \<open>None\<close> is an infinity.\<close>

fun bit_count :: "nat \<Rightarrow> nat" where
  "bit_count n = (if n = 0 then 0 else Suc (bit_count (n div 2)))"

declare bit_count.simps [simp del]

definition ilog2 :: "rat \<Rightarrow> int" where
  "ilog2 x =
     (let (a, b) = quotient_of x; k = int (bit_count (nat a)) - int (bit_count (nat b))
      in if 2 powi k \<le> x then k else k - 1)"

definition round_half_even :: "rat \<Rightarrow> int" where
  "round_half_even q =
     (let f = \<lfloor>q\<rfloor>; r = q - of_int f in
      if r < 1 / 2 then f else if r > 1 / 2 then f + 1 else if even f then f else f + 1)"

definition round_magnitude :: "nat \<Rightarrow> int \<Rightarrow> rat \<Rightarrow> rat" where
  "round_magnitude p emin x =
     (if x = 0 then 0
      else let e = max emin (ilog2 x - int p + 1) in of_int (round_half_even (x / 2 powi e)) * 2 powi e)"

definition round_float :: "nat \<Rightarrow> int \<Rightarrow> int \<Rightarrow> rat \<Rightarrow> rat option" where
  "round_float p emin emax x =
     (let y = round_magnitude p emin \<bar>x\<bar> in if 2 powi emax \<le> y then None else Some (if x < 0 then - y else y))"

definition to_f64 :: "rat \<Rightarrow> rat option" where
  "to_f64 x = round_float 53 (- 1074) 1024 x"

definition to_f32 :: "rat \<Rightarrow> rat option" where
  "to_f32 x = round_float 24 (- 149) 128 x"

definition validate_float :: "utext \<Rightarrow> primitive_type \<Rightarrow> utext + unit" where
  "validate_float t p =
     (if p \<notin> {F32T, F64T} then Inl (lit ''a floating-point literal requires an f32 or f64 target type'')
      else case normalized_float t of
        Inl e \<Rightarrow> Inl e
      | Inr normalized \<Rightarrow>
          (case parse_float normalized of
             None \<Rightarrow> Inl (lit ''the floating-point literal is malformed'')
           | Some ParsedNotFinite \<Rightarrow> Inl (lit ''the value is not finite'')
           | Some (ParsedNumber x) \<Rightarrow>
               (case to_f64 x of
                  None \<Rightarrow> Inl (lit ''the value is not finite'')
                | Some value \<Rightarrow>
                    if value = 0 \<and> float_mantissa_is_nonzero normalized
                    then Inl (lit ''the value is outside the representable range of '' @ source_name p)
                    else if p = F32T \<and>
                            (case to_f32 value of None \<Rightarrow> True | Some narrowed \<Rightarrow> value \<noteq> 0 \<and> narrowed = 0)
                    then Inl (lit ''the value is outside the representable range of f32'')
                    else Inr ())))"

definition validate_numeric ::
    "('s, 'd, 'g) type_store \<Rightarrow> numeric_literal_kind \<Rightarrow> utext \<Rightarrow> type_id \<Rightarrow> utext + unit" where
  "validate_numeric s kind t i =
     (case store_get s i of
        Some (TyPrimitive p) \<Rightarrow>
          (case kind of
             IntegerKind \<Rightarrow> (case checked_integer_literal t p of Inl e \<Rightarrow> Inl e | Inr _ \<Rightarrow> Inr ())
           | FloatKind \<Rightarrow> validate_float t p)
      | _ \<Rightarrow> Inl (lit ''the target is not a primitive numeric type''))"

end
