(* ===== verification/Etas_Literal_Facts.thy ===== *)
theory Etas_Literal_Facts
  imports Etas_Literal
begin

text \<open>Numeric literals are accepted exactly when a grammar and the range of the target say so. The checks
  by index are shown to recognise groups of digits, the checked loop to compute the value or fail, and rounding to
  overflow and to vanish exactly at half a unit beyond the largest and the smallest number.\<close>

section \<open>The grammar of integer literals\<close>

abbreviation underscore :: uchar where "underscore \<equiv> 0x5F"

definition is_digit_of :: "nat \<Rightarrow> uchar \<Rightarrow> bool" where
  "is_digit_of radix c \<longleftrightarrow> to_digit c radix \<noteq> None"

fun join_groups :: "utext list \<Rightarrow> utext" where
  "join_groups [] = []"
| "join_groups [g] = g"
| "join_groups (g # gs) = g @ underscore # join_groups gs"

definition digit_groups :: "nat \<Rightarrow> utext list \<Rightarrow> bool" where
  "digit_groups radix gs \<longleftrightarrow> gs \<noteq> [] \<and> (\<forall>g \<in> set gs. g \<noteq> [] \<and> (\<forall>c \<in> set g. is_digit_of radix c))"

definition radix_value :: "nat \<Rightarrow> utext \<Rightarrow> nat" where
  "radix_value radix t = foldl (\<lambda>acc c. acc * radix + the (to_digit c radix)) 0 t"

lemma underscore_no_digit [simp]: "\<not> is_digit_of radix underscore" "to_digit underscore radix = None"
  by (simp_all add: is_digit_of_def to_digit_def uc_def)

text \<open>The same check as one pass that remembers whether the last character was a digit.\<close>

fun separated :: "nat \<Rightarrow> bool \<Rightarrow> utext \<Rightarrow> bool" where
  "separated radix after_digit [] = after_digit"
| "separated radix after_digit (c # cs) =
     (if c = underscore then after_digit \<and> separated radix False cs
      else is_digit_of radix c \<and> separated radix True cs)"

lemma check_digits_separated:
  assumes "pre = [] \<or> last pre = underscore \<Longrightarrow> suf \<noteq> [] \<and> hd suf \<noteq> underscore"
  shows "check_digits radix (pre @ suf) (enumerate (length pre) suf) = Inr () \<longleftrightarrow>
    separated radix (pre \<noteq> [] \<and> last pre \<noteq> underscore) suf"
  using assms
proof (induction suf arbitrary: pre)
  case (Cons c cs)
  have rest: "check_digits radix (pre @ c # cs) (enumerate (Suc (length pre)) cs) = Inr () \<longleftrightarrow> separated radix (c \<noteq> underscore) cs"
    if "c = underscore \<Longrightarrow> cs \<noteq> [] \<and> hd cs \<noteq> underscore"
    using Cons.IH [of "pre @ [c]"] that by simp
  show ?case
  proof (cases "c = underscore")
    case True
    with Cons.prems have pre: "pre \<noteq> []" "last pre \<noteq> underscore" by auto
    then have prev: "(pre @ c # cs) ! (length pre - Suc 0) \<noteq> underscore" by (simp add: nth_append last_conv_nth)
    show ?thesis
    proof (cases "cs = [] \<or> hd cs = underscore")
      case bad: True
      then have "\<not> separated radix False cs" by (cases cs) auto
      with bad True show ?thesis by (auto simp: nth_append hd_conv_nth)
    next
      case False
      then have "cs ! 0 \<noteq> underscore" by (cases cs) auto
      with False True pre prev rest show ?thesis by (auto simp: nth_append)
    qed
  next
    case False
    then show ?thesis using rest by (auto simp: is_digit_of_def)
  qed
qed auto

lemma separated_groups:
  "separated radix True cs \<longleftrightarrow>
     (\<exists>g gs. cs = join_groups (g # gs) \<and> (\<forall>c \<in> set g. is_digit_of radix c) \<and> (gs \<noteq> [] \<longrightarrow> digit_groups radix gs))"
  "separated radix False cs \<longleftrightarrow> (\<exists>gs. cs = join_groups gs \<and> digit_groups radix gs)"
proof (induction cs)
  case Nil
  { case 1 show ?case by (intro iffI exI [of _ "[]"]) simp_all }
  { case 2 show ?case
    proof -
      have "join_groups gs \<noteq> []" if "digit_groups radix gs" for gs
        using that by (cases gs rule: join_groups.cases) (auto simp: digit_groups_def)
      then show ?thesis by force
    qed }
next
  case (Cons c cs)
  { case 1
    show ?case
    proof
      assume s: "separated radix True (c # cs)"
      show "\<exists>g gs. c # cs = join_groups (g # gs) \<and> (\<forall>c \<in> set g. is_digit_of radix c) \<and> (gs \<noteq> [] \<longrightarrow> digit_groups radix gs)"
      proof (cases "c = underscore")
        case True
        with s Cons.IH(2) obtain gs where gs: "cs = join_groups gs" "digit_groups radix gs" by auto
        then have "gs \<noteq> []" by (simp add: digit_groups_def)
        then have "c # cs = join_groups ([] # gs)" using gs True by (cases gs) auto
        with gs show ?thesis by (intro exI [of _ "[]"] exI [of _ gs]) simp
      next
        case False
        with s Cons.IH(1) obtain g gs where g: "cs = join_groups (g # gs)" "\<forall>c \<in> set g. is_digit_of radix c"
            "gs \<noteq> [] \<longrightarrow> digit_groups radix gs" "is_digit_of radix c" by auto
        then have "c # cs = join_groups ((c # g) # gs)" by (cases gs) auto
        with g show ?thesis by (intro exI [of _ "c # g"] exI [of _ gs]) simp
      qed
    next
      assume "\<exists>g gs. c # cs = join_groups (g # gs) \<and> (\<forall>c \<in> set g. is_digit_of radix c) \<and> (gs \<noteq> [] \<longrightarrow> digit_groups radix gs)"
      then obtain g gs where g: "c # cs = join_groups (g # gs)" "\<forall>c \<in> set g. is_digit_of radix c"
          "gs \<noteq> [] \<longrightarrow> digit_groups radix gs" by blast
      show "separated radix True (c # cs)"
      proof (cases g)
        case Nil
        with g have "c = underscore \<and> cs = join_groups gs \<and> gs \<noteq> []" by (cases gs) auto
        with g(3) Cons.IH(2) have "c = underscore" "separated radix False cs" by blast+
        then show ?thesis by simp
      next
        case (Cons d g')
        with g have "c = d" "cs = join_groups (g' # gs)" by (cases gs; auto)+
        moreover from this g Cons have "is_digit_of radix c" "c \<noteq> underscore" by auto
        moreover have "separated radix True cs" using Cons.IH(1) g Cons \<open>cs = join_groups (g' # gs)\<close> by auto
        ultimately show ?thesis by simp
      qed
    qed }
  { case 2
    show ?case
    proof
      assume "separated radix False (c # cs)"
      with Cons.IH(1) obtain g gs where g: "cs = join_groups (g # gs)" "\<forall>c \<in> set g. is_digit_of radix c"
            "gs \<noteq> [] \<longrightarrow> digit_groups radix gs" "is_digit_of radix c" by (auto split: if_splits)
      then have "c # cs = join_groups ((c # g) # gs)" by (cases gs) auto
      with g show "\<exists>gs. c # cs = join_groups gs \<and> digit_groups radix gs"
        by (intro exI [of _ "(c # g) # gs"]) (auto simp: digit_groups_def)
    next
      assume "\<exists>gs. c # cs = join_groups gs \<and> digit_groups radix gs"
      then obtain d g gs where g: "c # cs = join_groups ((d # g) # gs)" "digit_groups radix ((d # g) # gs)"
        by (auto simp: digit_groups_def neq_Nil_conv)
      then have "c = d" "cs = join_groups (g # gs)" by (cases gs; auto)+
      moreover from this g have "is_digit_of radix c" "c \<noteq> underscore" by (auto simp: digit_groups_def)
      moreover have "separated radix True cs"
        using Cons.IH(1) g \<open>cs = join_groups (g # gs)\<close> by (auto simp: digit_groups_def)
      ultimately show "separated radix False (c # cs)" by simp
    qed }
qed

lemma join_groups_digits: "digit_groups radix gs \<Longrightarrow> filter (\<lambda>c. c \<noteq> underscore) (join_groups gs) = concat gs"
proof (induction gs rule: join_groups.induct)
  case (2 g)
  then show ?case by (auto simp: digit_groups_def filter_id_conv)
next
  case (3 g g' gs)
  moreover from 3 have "filter (\<lambda>c. c \<noteq> underscore) g = g" by (auto simp: digit_groups_def filter_id_conv)
  ultimately show ?case by (simp add: digit_groups_def)
qed simp

lemma normalized_digits_exact:
  "normalized_digits cs radix = Inr ds \<longleftrightarrow> (\<exists>gs. cs = join_groups gs \<and> digit_groups radix gs \<and> ds = concat gs)"
proof (cases "cs = [] \<or> hd cs = underscore")
  case True
  then have "\<not> separated radix False cs" by (cases cs) auto
  moreover have "normalized_digits cs radix \<noteq> Inr ds"
    using True by (cases cs) (auto simp: normalized_digits_def)
  ultimately show ?thesis using separated_groups(2) by blast
next
  case False
  then have "check_digits radix cs (enumerate 0 cs) = Inr () \<longleftrightarrow> separated radix False cs"
    using check_digits_separated [of "[]" cs radix] by simp
  then have "normalized_digits cs radix = Inr ds \<longleftrightarrow> separated radix False cs \<and> ds = filter (\<lambda>c. c \<noteq> underscore) cs"
    using False by (auto simp: normalized_digits_def split: sum.splits)
  then show ?thesis using separated_groups(2) [of radix cs] join_groups_digits [of radix] by metis
qed

section \<open>The value\<close>

lemma to_digit_less: "to_digit c radix = Some d \<Longrightarrow> d < radix"
  by (auto simp: to_digit_def Let_def split: option.splits if_splits)

lemma foldl_value_mono: "0 < radix \<Longrightarrow> acc \<le> foldl (\<lambda>acc c. acc * radix + f c) (acc :: nat) t"
proof (induction t arbitrary: acc)
  case (Cons c t)
  have "acc \<le> acc * radix + f c" using Cons.prems by (simp add: trans_le_add1)
  also have "\<dots> \<le> foldl (\<lambda>acc c. acc * radix + f c) (acc * radix + f c) t" using Cons by blast
  finally show ?case by simp
qed simp

lemma from_str_radix_loop_exact:
  assumes "2 \<le> radix" "radix \<le> 36" "\<forall>c \<in> set t. is_digit_of radix c"
  shows "from_str_radix_loop radix acc t =
    (let n = foldl (\<lambda>acc c. acc * radix + the (to_digit c radix)) (unat acc) t
     in if n < 2 ^ 128 then Some (of_nat n) else None)"
  using assms(3)
proof (induction t arbitrary: acc)
  case Nil
  then show ?case using unsigned_less [of acc] by (simp add: Let_def)
next
  case (Cons c t)
  then obtain d where d: "to_digit c radix = Some d" by (auto simp: is_digit_of_def)
  let ?n = "unat acc * radix + d"
  have small: "unat (of_nat radix :: 128 word) = radix" "unat (of_nat d :: 128 word) = d"
    using assms to_digit_less [OF d] by (simp_all add: unat_of_nat)
  have grows: "?n \<le> foldl (\<lambda>acc c. acc * radix + the (to_digit c radix)) ?n t"
    using foldl_value_mono [of radix ?n] assms(1) by simp
  show ?case
  proof (cases "?n < 2 ^ 128")
    case True
    then have "unat (acc * of_nat radix) = unat acc * radix"
      by (simp add: unat_mult_lem [THEN iffD1] small)
    moreover from this True have "unat (acc * of_nat radix + of_nat d) = ?n"
      using unat_add_lem [THEN iffD1, of "acc * of_nat radix" "of_nat d"] small by simp
    ultimately show ?thesis using True Cons d by (simp add: checked_mul_def checked_add_def small)
  next
    case False
    then have n: "\<not> foldl (\<lambda>acc c. acc * radix + the (to_digit c radix)) ?n t < 2 ^ 128" using grows by linarith
    have "checked_mul acc (of_nat radix) = None \<or>
      (\<exists>m. checked_mul acc (of_nat radix) = Some m \<and> checked_add m (of_nat d) = None)"
    proof (cases "unat acc * radix < 2 ^ 128")
      case True
      then have "unat (acc * of_nat radix) = unat acc * radix"
        by (simp add: unat_mult_lem [THEN iffD1] small)
      with True False show ?thesis by (simp add: checked_mul_def checked_add_def small)
    qed (simp add: checked_mul_def small)
    with n d show ?thesis by auto
  qed
qed

lemma from_str_radix_exact:
  assumes "2 \<le> radix" "radix \<le> 36" "digit_groups radix gs"
  shows "from_str_radix (concat gs) radix =
    (let n = radix_value radix (concat gs) in if n < 2 ^ 128 then Some (of_nat n) else None)"
  using assms from_str_radix_loop_exact [OF assms(1,2), of "concat gs" 0]
  by (cases gs) (auto simp: from_str_radix_def radix_value_def digit_groups_def)

definition literal_prefix :: "nat \<Rightarrow> utext \<Rightarrow> bool" where
  "literal_prefix radix p \<longleftrightarrow>
     (radix = 16 \<and> p \<in> {lit ''0x'', lit ''0X''}) \<or> (radix = 8 \<and> p \<in> {lit ''0o'', lit ''0O''}) \<or>
     (radix = 2 \<and> p \<in> {lit ''0b'', lit ''0B''}) \<or> (radix = 10 \<and> p = [])"

definition is_sign :: "utext \<Rightarrow> bool" where
  "is_sign sign \<longleftrightarrow> sign \<in> {[], lit ''-'', lit ''+''}"

lemma strip_prefix_Some: "strip_prefix p t = Some d \<longleftrightarrow> t = p @ d"
  by (auto simp: strip_prefix_def starts_with_def) (metis append_take_drop_id)

lemma strip_prefix_append [simp]: "strip_prefix p (p @ d) = Some d"
  by (simp add: strip_prefix_Some)

lemma split_sign_exact:
  "split_sign t = (negative, d) \<Longrightarrow> \<exists>sign. is_sign sign \<and> t = sign @ d \<and> (negative \<longleftrightarrow> sign = lit ''-'')"
  by (fastforce simp: split_sign_def is_sign_def strip_prefix_Some lit_def split: option.splits)

lemma or_prefix_strip: "or_prefix (strip_prefix a t) (strip_prefix b t) = Some d \<Longrightarrow> \<exists>p \<in> {a, b}. t = p @ d"
  by (cases "strip_prefix a t") (auto simp: strip_prefix_Some)

lemma split_radix_cases:
  "(case a of Some x \<Rightarrow> (16 :: nat, x)
    | None \<Rightarrow> (case b of Some x \<Rightarrow> (8, x) | None \<Rightarrow> (case c of Some x \<Rightarrow> (2, x) | None \<Rightarrow> (10, t)))) = (radix, d) \<Longrightarrow>
   (radix = 16 \<and> a = Some d) \<or> (radix = 8 \<and> b = Some d) \<or> (radix = 2 \<and> c = Some d) \<or> (radix = 10 \<and> t = d)"
  by (auto split: option.splits)

lemma split_radix_exact: "split_radix t = (radix, d) \<Longrightarrow> \<exists>p. literal_prefix radix p \<and> t = p @ d"
  unfolding split_radix_def literal_prefix_def by (drule split_radix_cases) (use or_prefix_strip in blast)

lemma join_groups_chars: "digit_groups radix gs \<Longrightarrow> c \<in> set (join_groups gs) \<Longrightarrow> is_digit_of radix c \<or> c = underscore"
  by (induction gs rule: join_groups.induct) (auto simp: digit_groups_def)

lemma join_groups_starts: "digit_groups radix gs \<Longrightarrow> \<exists>c cs. join_groups gs = c # cs \<and> is_digit_of radix c"
  by (cases gs rule: join_groups.cases) (auto simp: digit_groups_def neq_Nil_conv)

lemma digit_range: "is_digit_of radix c \<Longrightarrow> radix \<le> 16 \<Longrightarrow> (0x30 \<le> c \<and> c < 0x3A) \<or> (0x61 \<le> c \<and> c < 0x67) \<or> (0x41 \<le> c \<and> c < 0x47)"
  by (auto simp: is_digit_of_def to_digit_def Let_def uc_def split: if_splits)

lemma decimal_digit_range: "is_digit_of 10 c \<Longrightarrow> 0x30 \<le> c \<and> c < 0x3A"
  by (auto simp: is_digit_of_def to_digit_def Let_def uc_def split: if_splits)

lemma split_radix_prefix:
  assumes "literal_prefix radix p" "digit_groups radix gs"
  shows "split_radix (p @ join_groups gs) = (radix, join_groups gs)"
proof (cases "radix = 10")
  case True
  have "strip_prefix [uc CHR ''0'', x] (join_groups gs) = None" if "x \<in> {0x78, 0x58, 0x6F, 0x4F, 0x62, 0x42}" for x
  proof (rule ccontr)
    assume "strip_prefix [uc CHR ''0'', x] (join_groups gs) \<noteq> None"
    then have "x \<in> set (join_groups gs)" by (auto simp: strip_prefix_Some)
    then show False using join_groups_chars [OF assms(2), of x] decimal_digit_range [of x] True that by auto
  qed
  with True assms(1) show ?thesis by (simp add: split_radix_def literal_prefix_def lit_def uc_def)
next
  case False
  have two: "strip_prefix [a, b] (c # d # cs) = (if a = c \<and> b = d then Some cs else None)" for a b c d cs
    by (simp add: strip_prefix_def starts_with_def)
  from False assms(1) show ?thesis
    unfolding literal_prefix_def by (elim disjE conjE insertE) (simp_all add: split_radix_def lit_def two uc_def)
qed

lemma split_sign_literal:
  assumes "is_sign sign" "literal_prefix radix p" "digit_groups radix gs"
  shows "split_sign (sign @ p @ join_groups gs) = (sign = lit ''-'', p @ join_groups gs)"
proof -
  obtain c cs where c: "p @ join_groups gs = c # cs" "c \<noteq> uc CHR ''-''" "c \<noteq> uc CHR ''+''"
    using assms(2) join_groups_starts [OF assms(3)] digit_range [of radix] decimal_digit_range
    by (fastforce simp: literal_prefix_def lit_def)
  then show ?thesis using assms(1)
    by (auto simp: is_sign_def split_sign_def strip_prefix_def starts_with_def lit_def)
qed

section \<open>Ranges\<close>

definition in_integer_range :: "primitive_type \<Rightarrow> int \<Rightarrow> bool" where
  "in_integer_range p x \<longleftrightarrow>
     (case integer_layout p of
        None \<Rightarrow> False
      | Some (is_signed, bits) \<Rightarrow>
          if is_signed then - (2 ^ (bits - 1)) \<le> x \<and> x < 2 ^ (bits - 1) else 0 \<le> x \<and> x < 2 ^ bits)"

definition is_signed_integer :: "primitive_type \<Rightarrow> bool" where
  "is_signed_integer p \<longleftrightarrow> (\<exists>bits. integer_layout p = Some (True, bits))"

lemma layout_bits: "integer_layout p = Some (is_signed, bits) \<Longrightarrow> bits \<in> {8, 16, 32, 64, 128}"
  by (cases p) (auto simp: ETAS_POINTER_BITS_def)

lemma le_pred_iff: "n \<le> 2 ^ k - 1 \<longleftrightarrow> n < (2 :: nat) ^ k"
proof -
  have "0 < (2 :: nat) ^ k" by simp
  then show ?thesis by linarith
qed

lemma unat_small: "n < 2 ^ 128 \<Longrightarrow> unat (of_nat n :: 128 word) = n"
  by (simp add: unat_of_nat)

lemma unat_exp_pred:
  assumes "k < 128"
  shows "unat (push_bit k 1 - 1 :: 128 word) = 2 ^ k - 1" "unat (push_bit k 1 - 1 + 1 :: 128 word) = 2 ^ k"
proof -
  have k: "(2 :: nat) ^ k < 2 ^ 128" using assms by (intro power_strict_increasing) simp_all
  have "push_bit k 1 - 1 = (of_nat (2 ^ k - 1) :: 128 word)" "push_bit k 1 - 1 + 1 = (of_nat (2 ^ k) :: 128 word)"
    by (simp_all add: push_bit_of_1 of_nat_diff)
  then show "unat (push_bit k 1 - 1 :: 128 word) = 2 ^ k - 1" "unat (push_bit k 1 - 1 + 1 :: 128 word) = 2 ^ k"
    using unat_small [of "2 ^ k - 1"] unat_small [OF k] k by (simp_all del: of_nat_power of_nat_diff)
qed

lemma unsigned_maximum:
  assumes "bits \<in> {8, 16, 32, 64, 128}" "n < 2 ^ 128"
  shows "(of_nat n :: 128 word) \<le> (if bits = 128 then - 1 else push_bit bits 1 - 1) \<longleftrightarrow> n < 2 ^ bits"
proof (cases "bits = 128")
  case True
  with assms(2) show ?thesis by simp
next
  case False
  with assms(1) have "bits < 128" by auto
  then show ?thesis
    using False le_pred_iff [of n bits] unfolding word_le_nat_alt unat_small [OF assms(2)] by (simp add: unat_exp_pred(1) [simplified])
qed

lemma signed_maximum:
  assumes "bits \<in> {8, 16, 32, 64, 128}" "n < 2 ^ 128"
  shows "(of_nat n :: 128 word) \<le> push_bit (bits - 1) 1 - 1 \<longleftrightarrow> n < 2 ^ (bits - 1)"
    "(of_nat n :: 128 word) \<le> push_bit (bits - 1) 1 - 1 + 1 \<longleftrightarrow> n \<le> 2 ^ (bits - 1)"
proof -
  have b: "bits - 1 < 128" using assms(1) by auto
  have "n \<le> 2 ^ (bits - 1) - 1 \<longleftrightarrow> n < 2 ^ (bits - 1)" by (rule le_pred_iff)
  then show "(of_nat n :: 128 word) \<le> push_bit (bits - 1) 1 - 1 \<longleftrightarrow> n < 2 ^ (bits - 1)"
    "(of_nat n :: 128 word) \<le> push_bit (bits - 1) 1 - 1 + 1 \<longleftrightarrow> n \<le> 2 ^ (bits - 1)"
    unfolding word_le_nat_alt unat_exp_pred [OF b] unat_small [OF assms(2)] by simp_all
qed

lemma range_too_small: "in_integer_range p (if neg then - int n else int n) \<Longrightarrow> n < 2 ^ 128"
  by (cases p) (auto simp: in_integer_range_def ETAS_POINTER_BITS_def split: if_splits)

lemma fits_layout:
  "int n < 2 ^ bits \<longleftrightarrow> n < 2 ^ bits" "int n < 2 ^ (bits - Suc 0) \<longleftrightarrow> n < 2 ^ (bits - Suc 0)"
  "- (2 ^ (bits - Suc 0)) \<le> - int n \<longleftrightarrow> n \<le> 2 ^ (bits - Suc 0)" "- int n < 2 ^ (bits - Suc 0)"
  "- (2 ^ (bits - Suc 0)) \<le> int n"
proof -
  have "(0 :: int) < 2 ^ (bits - Suc 0)" by simp
  then show "- int n < 2 ^ (bits - Suc 0)" "- (2 ^ (bits - Suc 0)) \<le> int n" by linarith+
qed simp_all

section \<open>Integer literals are read exactly\<close>

lemma checked_integer_literal_groups:
  assumes "is_sign sign" "literal_prefix radix pfx" "digit_groups radix groups" "n = radix_value radix (concat groups)"
  shows "checked_integer_literal (sign @ pfx @ join_groups groups) p = Inr v \<longleftrightarrow>
    in_integer_range p (if sign = lit ''-'' then - int n else int n) \<and> (sign = lit ''-'' \<longrightarrow> is_signed_integer p) \<and>
    unat (ci_magnitude v) = n \<and> (ci_negative v \<longleftrightarrow> sign = lit ''-'' \<and> n \<noteq> 0)"
proof (cases "n < 2 ^ 128")
  case False
  have radix: "2 \<le> radix" "radix \<le> 36" using assms(2) by (auto simp: literal_prefix_def)
  have "normalized_digits (join_groups groups) radix = Inr (concat groups)"
    using normalized_digits_exact assms(3) by blast
  with False have "checked_integer_literal (sign @ pfx @ join_groups groups) p \<noteq> Inr v"
    using from_str_radix_exact [OF radix assms(3)] assms(4)
    by (simp add: checked_integer_literal_def split_sign_literal [OF assms(1-3)] split_radix_prefix [OF assms(2,3)] Let_def)
  moreover have "\<not> in_integer_range p (if sign = lit ''-'' then - int n else int n)" using range_too_small False by blast
  ultimately show ?thesis by simp
next
  case True
  have radix: "2 \<le> radix" "radix \<le> 36" using assms(2) by (auto simp: literal_prefix_def)
  have norm: "normalized_digits (join_groups groups) radix = Inr (concat groups)"
    using normalized_digits_exact assms(3) by blast
  have v: "v = \<lparr>ci_negative = (sign = lit ''-'' \<and> n \<noteq> 0), ci_magnitude = of_nat n\<rparr> \<longleftrightarrow>
      unat (ci_magnitude v) = n \<and> (ci_negative v \<longleftrightarrow> sign = lit ''-'' \<and> n \<noteq> 0)"
    using True by (cases v) (auto simp: unat_of_nat)
  have z: "(of_nat n :: 128 word) \<noteq> 0 \<longleftrightarrow> n \<noteq> 0" using True by (simp add: unat_eq_0 [symmetric] unat_of_nat)
  show ?thesis
  proof (cases "integer_layout p")
    case None
    then show ?thesis using from_str_radix_exact [OF radix assms(3)] assms(4) True norm
      by (simp add: checked_integer_literal_def split_sign_literal [OF assms(1-3)] split_radix_prefix [OF assms(2,3)]
          Let_def in_integer_range_def)
  next
    case (Some l)
    obtain is_signed bits where l: "integer_layout p = Some (is_signed, bits)" using Some by (cases l) auto
    note bits = layout_bits [OF l]
    have "checked_integer_literal (sign @ pfx @ join_groups groups) p = Inr v \<longleftrightarrow>
      (if \<not> is_signed then sign \<noteq> lit ''-'' \<and> n < 2 ^ bits
       else if sign = lit ''-'' then n \<le> 2 ^ (bits - 1) else n < 2 ^ (bits - 1)) \<and>
      v = \<lparr>ci_negative = (sign = lit ''-'' \<and> n \<noteq> 0), ci_magnitude = of_nat n\<rparr>"
      using from_str_radix_exact [OF radix assms(3)] assms(4) True norm l z
        unsigned_maximum [OF bits True] signed_maximum [OF bits True]
      by (auto simp: checked_integer_literal_def split_sign_literal [OF assms(1-3)] split_radix_prefix [OF assms(2,3)] Let_def)
    moreover have "in_integer_range p (if sign = lit ''-'' then - int n else int n) \<and> (sign = lit ''-'' \<longrightarrow> is_signed_integer p) \<longleftrightarrow>
      (if \<not> is_signed then sign \<noteq> lit ''-'' \<and> n < 2 ^ bits
       else if sign = lit ''-'' then n \<le> 2 ^ (bits - 1) else n < 2 ^ (bits - 1))"
      by (auto simp: fits_layout in_integer_range_def is_signed_integer_def l)
    ultimately show ?thesis unfolding v by blast
  qed
qed

text \<open>C35. Integer literals. A literal is accepted exactly if it is an optional sign, an optional radix prefix and
  groups of digits of that radix with single separators between them, the target is an integer type, a minus
  sign has a signed target, and the value fits the target. The result is the value: its magnitude does
  not depend on radix, prefix or separators, and zero has no sign.\<close>

theorem integer_literal_exact:
  "checked_integer_literal t p = Inr v \<longleftrightarrow>
     (\<exists>sign radix pfx groups n.
        t = sign @ pfx @ join_groups groups \<and> is_sign sign \<and> literal_prefix radix pfx \<and>
        digit_groups radix groups \<and> n = radix_value radix (concat groups) \<and>
        in_integer_range p (if sign = lit ''-'' then - int n else int n) \<and>
        (sign = lit ''-'' \<longrightarrow> is_signed_integer p) \<and>
        unat (ci_magnitude v) = n \<and> (ci_negative v \<longleftrightarrow> sign = lit ''-'' \<and> n \<noteq> 0))"
    (is "?lhs \<longleftrightarrow> (\<exists>sign radix pfx groups n. ?spec sign radix pfx groups n)")
proof
  assume ?lhs
  obtain neg d where d: "split_sign t = (neg, d)" by force
  obtain radix e where e: "split_radix d = (radix, e)" by force
  obtain sign where sign: "is_sign sign" "t = sign @ d" using split_sign_exact [OF d] by blast
  obtain pfx where pfx: "literal_prefix radix pfx" "d = pfx @ e" using split_radix_exact [OF e] by blast
  from \<open>?lhs\<close> d e obtain ds where "normalized_digits e radix = Inr ds"
    by (auto simp: checked_integer_literal_def split: sum.splits)
  then obtain groups where g: "e = join_groups groups" "digit_groups radix groups"
    using normalized_digits_exact by metis
  with \<open>?lhs\<close> sign pfx show "\<exists>sign radix pfx groups n. ?spec sign radix pfx groups n"
    using checked_integer_literal_groups [OF sign(1) pfx(1) g(2) refl] by blast
next
  assume "\<exists>sign radix pfx groups n. ?spec sign radix pfx groups n"
  then show ?lhs using checked_integer_literal_groups by blast
qed

section \<open>Rounding\<close>

lemma two_powi [simp]: "0 < (2 :: rat) powi e" "(2 :: rat) powi e \<noteq> 0"
  by (simp_all add: zero_less_power_int)

lemma two_add: "(2 :: rat) powi (a + b) = 2 powi a * 2 powi b"
  by (simp add: power_int_add)

lemma two_pred: "(2 :: rat) powi (e - 1) = 2 powi e / 2"
  by (simp add: power_int_diff)

lemma two_mono: "a \<le> b \<Longrightarrow> (2 :: rat) powi a \<le> 2 powi b"
  by (simp add: power_int_increasing)

lemma bit_count_bounds: "0 < n \<Longrightarrow> 2 ^ (bit_count n - 1) \<le> n \<and> n < 2 ^ bit_count n \<and> 0 < bit_count n"
proof (induction n rule: bit_count.induct)
  case (1 n)
  have step: "bit_count n = Suc (bit_count (n div 2))" using 1(2) by (subst bit_count.simps) simp
  show ?case
  proof (cases "n div 2 = 0")
    case True
    with 1(2) have "n = 1" by simp
    moreover have "bit_count 0 = 0" by (subst bit_count.simps) simp
    ultimately show ?thesis using step by simp
  next
    case False
    with 1 have ih: "2 ^ (bit_count (n div 2) - 1) \<le> n div 2" "n div 2 < 2 ^ bit_count (n div 2)" "0 < bit_count (n div 2)" by simp_all
    then have "(2 :: nat) ^ bit_count (n div 2) = 2 * 2 ^ (bit_count (n div 2) - 1)" by (cases "bit_count (n div 2)") auto
    moreover have "2 * 2 ^ (bit_count (n div 2) - 1) \<le> n" "n < 2 * (n div 2) + 2" using ih(1) by linarith+
    ultimately show ?thesis using ih step by simp
  qed
qed

lemma bit_count_rat:
  assumes "0 < n"
  shows "2 powi (int (bit_count n) - 1) \<le> (of_nat n :: rat)" "(of_nat n :: rat) < 2 powi int (bit_count n)"
proof -
  have "int (bit_count n) - 1 = int (bit_count n - 1)" using bit_count_bounds [OF assms] by simp
  then have "2 powi (int (bit_count n) - 1) = (of_nat (2 ^ (bit_count n - 1)) :: rat)" by (simp only: power_int_of_nat) simp
  also have "\<dots> \<le> of_nat n" using bit_count_bounds [OF assms] by (simp only: of_nat_le_iff)
  finally show "2 powi (int (bit_count n) - 1) \<le> (of_nat n :: rat)" .
  have "(of_nat n :: rat) < of_nat (2 ^ bit_count n)" using bit_count_bounds [OF assms] by (simp only: of_nat_less_iff)
  then show "(of_nat n :: rat) < 2 powi int (bit_count n)" by simp
qed

lemma ilog2_bounds:
  assumes "0 < x"
  shows "2 powi ilog2 x \<le> x" "x < 2 powi (ilog2 x + 1)"
proof -
  obtain a b where q: "quotient_of x = (a, b)" by force
  have b: "0 < b" using quotient_of_denom_pos [OF q] .
  have x: "x = of_int a / of_int b" using quotient_of_div [OF q] .
  with assms b have a: "0 < a" by (simp add: zero_less_divide_iff)
  let ?m = "int (bit_count (nat a))" and ?n = "int (bit_count (nat b))"
  have na: "(of_nat (nat a) :: rat) = of_int a" "(of_nat (nat b) :: rat) = of_int b" using a b by simp_all
  have A: "2 powi (?m - 1) \<le> (of_int a :: rat)" "(of_int a :: rat) < 2 powi ?m"
    and B: "2 powi (?n - 1) \<le> (of_int b :: rat)" "(of_int b :: rat) < 2 powi ?n"
    using bit_count_rat [of "nat a"] bit_count_rat [of "nat b"] a b na by simp_all
  have "x < 2 powi (?m - ?n + 1)"
  proof -
    have "of_int a < 2 powi (?m - ?n + 1) * (2 :: rat) powi (?n - 1)" using A(2) by (simp flip: two_add)
    also have "\<dots> \<le> 2 powi (?m - ?n + 1) * of_int b" using B(1) by (simp add: mult_left_mono)
    finally show ?thesis using b by (simp add: x divide_simps)
  qed
  moreover have "2 powi (?m - ?n - 1) \<le> x"
  proof -
    have "(2 :: rat) powi (?m - ?n - 1) * of_int b \<le> 2 powi (?m - ?n - 1) * 2 powi ?n" using B(2) by (simp add: mult_left_mono)
    also have "\<dots> \<le> of_int a" using A(1) unfolding two_add [symmetric] by simp
    finally show ?thesis using b by (simp add: x divide_simps)
  qed
  ultimately show "2 powi ilog2 x \<le> x" "x < 2 powi (ilog2 x + 1)"
    by (auto simp: ilog2_def q Let_def not_le)
qed

lemma round_half_even_near: "\<bar>of_int (round_half_even q) - q\<bar> \<le> 1 / 2"
proof -
  have "of_int \<lfloor>q\<rfloor> \<le> q" "q < of_int \<lfloor>q\<rfloor> + 1" by linarith+
  then show ?thesis unfolding round_half_even_def Let_def by (auto simp: abs_le_iff)
qed

lemma round_half_even_ge: "of_int n \<le> q \<Longrightarrow> n \<le> round_half_even q"
  unfolding round_half_even_def Let_def by (simp add: le_floor_iff) (smt (verit) le_floor_iff)

lemma round_half_even_ge_even: "even n \<Longrightarrow> n \<le> round_half_even q \<longleftrightarrow> of_int n - 1 / 2 \<le> q"
proof
  assume "even n" "of_int n - 1 / 2 \<le> q"
  show "n \<le> round_half_even q"
  proof (cases "of_int n \<le> q")
    case False
    with \<open>of_int n - 1 / 2 \<le> q\<close> have "\<lfloor>q\<rfloor> = n - 1" by linarith
    with \<open>of_int n - 1 / 2 \<le> q\<close> \<open>even n\<close> show ?thesis by (auto simp: round_half_even_def Let_def)
  qed (rule round_half_even_ge)
next
  assume "n \<le> round_half_even q"
  then have "(of_int n :: rat) \<le> of_int (round_half_even q)" by simp
  then show "of_int n - 1 / 2 \<le> q" using round_half_even_near [of q] by linarith
qed

lemma round_half_even_0: "0 \<le> q \<Longrightarrow> round_half_even q = 0 \<longleftrightarrow> q \<le> 1 / 2"
proof -
  assume "0 \<le> q"
  have "0 \<le> round_half_even q" using round_half_even_ge [of 0 q] \<open>0 \<le> q\<close> by simp
  moreover have "round_half_even q < 1 \<longleftrightarrow> q \<le> 1 / 2"
  proof
    assume "round_half_even q < 1"
    then have "round_half_even q = 0" using \<open>0 \<le> round_half_even q\<close> by simp
    then show "q \<le> 1 / 2" using round_half_even_near [of q] by simp
  next
    assume "q \<le> 1 / 2"
    then have "\<lfloor>q\<rfloor> = 0" using \<open>0 \<le> q\<close> by linarith
    with \<open>q \<le> 1 / 2\<close> show "round_half_even q < 1" by (auto simp: round_half_even_def Let_def)
  qed
  ultimately show ?thesis by linarith
qed

text \<open>Where rounding overflows and where it underflows.\<close>

lemma round_magnitude_overflow:
  assumes "0 \<le> x" "0 < p" "emin \<le> emax - int p"
  shows "2 powi emax \<le> round_magnitude p emin x \<longleftrightarrow> 2 powi emax - 2 powi (emax - int p - 1) \<le> x"
proof (cases "x = 0")
  case True
  have "2 powi (emax - int p - 1) < (2 :: rat) powi emax" by (rule power_int_strict_increasing) simp_all
  with True show ?thesis by (simp add: round_magnitude_def not_le)
next
  case False
  define l e where "l = ilog2 x" and "e = max emin (l - int p + 1)"
  have y: "round_magnitude p emin x = of_int (round_half_even (x / 2 powi e)) * 2 powi e"
    using False by (simp add: round_magnitude_def l_def e_def Let_def)
  have x: "2 powi l \<le> x" "x < 2 powi (l + 1)" using ilog2_bounds [of x] False assms(1) by (simp_all add: l_def)
  consider "emax \<le> l" | "l = emax - 1" | "l \<le> emax - 2" by linarith
  then show ?thesis
  proof cases
    case 1
    with assms have e: "e = l - int p + 1" by (simp add: e_def)
    have "2 powi (int p - 1) * 2 powi e = (2 :: rat) powi l" by (simp add: e flip: two_add)
    then have "2 powi (int p - 1) \<le> x / 2 powi e" using x(1) by (simp add: divide_simps)
    moreover have "(2 :: rat) powi (int p - 1) = of_int (2 ^ (p - 1))" using assms(2) by (cases p) simp_all
    ultimately have "2 ^ (p - 1) \<le> round_half_even (x / 2 powi e)" by (simp only: round_half_even_ge)
    then have "(of_int (2 ^ (p - 1)) :: rat) \<le> of_int (round_half_even (x / 2 powi e))" by (simp only: of_int_le_iff)
    then have "2 powi (int p - 1) * 2 powi e \<le> round_magnitude p emin x"
      unfolding y using \<open>(2 :: rat) powi (int p - 1) = of_int (2 ^ (p - 1))\<close> by (simp only: mult_right_mono two_powi less_imp_le)
    then have "2 powi l \<le> round_magnitude p emin x" using \<open>2 powi (int p - 1) * 2 powi e = (2 :: rat) powi l\<close> by simp
    then have "2 powi emax \<le> round_magnitude p emin x" using two_mono [OF 1] by linarith
    moreover have "2 powi emax - 2 powi (emax - int p - 1) \<le> x" using x(1) two_mono [OF 1] two_powi(1) [of "emax - int p - 1"] by linarith
    ultimately show ?thesis by simp
  next
    case 2
    with assms have e: "e = emax - int p" by (simp add: e_def)
    have E: "(2 :: rat) powi emax = 2 ^ p * 2 powi e" by (simp add: e flip: two_add power_int_of_nat)
    have H: "(2 :: rat) powi (emax - int p - 1) = 2 powi e / 2" by (simp add: e two_pred)
    have "2 powi emax \<le> round_magnitude p emin x \<longleftrightarrow> (of_int (2 ^ p) :: rat) \<le> of_int (round_half_even (x / 2 powi e))"
      unfolding y E by simp
    also have "\<dots> \<longleftrightarrow> 2 ^ p \<le> round_half_even (x / 2 powi e)" by (simp only: of_int_le_iff)
    also have "\<dots> \<longleftrightarrow> 2 ^ p - 1 / 2 \<le> x / 2 powi e" using assms(2) by (subst round_half_even_ge_even) simp_all
    also have "\<dots> \<longleftrightarrow> (2 ^ p - 1 / 2) * 2 powi e \<le> x" by (simp add: pos_le_divide_eq)
    finally show ?thesis by (simp add: E H left_diff_distrib)
  next
    case 3
    have "e - 1 \<le> emax - 2" using assms 3 by (simp add: e_def)
    then have "(2 :: rat) powi e / 2 \<le> 2 powi emax / 4" using two_mono [of "e - 1" "emax - 2"] by (simp add: two_pred power_int_diff)
    moreover have "x < 2 powi emax / 2" using x(2) two_mono [of "l + 1" "emax - 1"] 3 by (simp add: two_pred)
    moreover have "round_magnitude p emin x \<le> x + 2 powi e / 2"
    proof -
      have "of_int (round_half_even (x / 2 powi e)) \<le> x / 2 powi e + 1 / 2" using round_half_even_near [of "x / 2 powi e"] by linarith
      then have "round_magnitude p emin x \<le> (x / 2 powi e + 1 / 2) * 2 powi e" unfolding y by (simp only: mult_right_mono two_powi less_imp_le)
      then show ?thesis by (simp add: distrib_right)
    qed
    moreover have "(2 :: rat) powi (emax - int p - 1) \<le> 2 powi emax / 4"
      using two_mono [of "emax - int p - 1" "emax - 2"] assms(2) by (simp add: power_int_diff)
    ultimately show ?thesis using two_powi(1) [of emax] by linarith
  qed
qed

lemma round_magnitude_underflow:
  assumes "0 \<le> x" "0 < p"
  shows "round_magnitude p emin x = 0 \<longleftrightarrow> x \<le> 2 powi (emin - 1)"
proof (cases "x = 0")
  case True
  then show ?thesis by (simp add: round_magnitude_def less_imp_le)
next
  case False
  define l e where "l = ilog2 x" and "e = max emin (l - int p + 1)"
  have y: "round_magnitude p emin x = 0 \<longleftrightarrow> x \<le> 2 powi (e - 1)"
  proof -
    have "round_magnitude p emin x = 0 \<longleftrightarrow> round_half_even (x / 2 powi e) = 0"
      using False by (simp add: round_magnitude_def l_def e_def Let_def)
    also have "\<dots> \<longleftrightarrow> x / 2 powi e \<le> 1 / 2" using round_half_even_0 assms(1) by simp
    finally show ?thesis by (simp add: two_pred divide_simps)
  qed
  have x: "2 powi l \<le> x" using ilog2_bounds [of x] False assms(1) by (simp add: l_def)
  show ?thesis
  proof (cases "e = emin")
    case False
    then have "e - 1 < l" "emin - 1 < l" using assms(2) by (auto simp: e_def max_def split: if_splits)
    then have "2 powi (e - 1) < x" "2 powi (emin - 1) < x"
      using x power_int_strict_increasing [of _ l "2 :: rat"] by (meson less_le_trans one_less_numeral_iff semiring_norm(76))+
    with y show ?thesis by simp
  qed (use y in simp)
qed

section \<open>The grammar of floating-point literals\<close>

definition exponent_text :: "utext \<Rightarrow> int \<Rightarrow> bool" where
  "exponent_text t e \<longleftrightarrow>
     (t = [] \<and> e = 0) \<or>
     (\<exists>c sign ds. c \<in> {uc CHR ''e'', uc CHR ''E''} \<and> is_sign sign \<and> ds \<noteq> [] \<and> list_all is_ascii_digit ds \<and>
        t = c # sign @ ds \<and> e = (if sign = lit ''-'' then - int (digits_value ds) else int (digits_value ds)))"

definition decimal_text :: "utext \<Rightarrow> rat \<Rightarrow> bool" where
  "decimal_text t x \<longleftrightarrow>
     (\<exists>whole dot fraction rest e. t = whole @ dot @ fraction @ rest \<and> list_all is_ascii_digit (whole @ fraction) \<and>
        (dot = lit ''.'' \<or> dot = [] \<and> fraction = []) \<and> whole @ fraction \<noteq> [] \<and> exponent_text rest e \<and>
        x = of_nat (digits_value (whole @ fraction)) * 10 powi (e - int (length fraction)))"

definition separators_between_digits :: "utext \<Rightarrow> bool" where
  "separators_between_digits t \<longleftrightarrow>
     (\<forall>i < length t. t ! i = uc CHR ''_'' \<longrightarrow>
        0 < i \<and> i + 1 < length t \<and> is_ascii_digit (t ! (i - 1)) \<and> is_ascii_digit (t ! (i + 1)))"

lemma check_float_all:
  "check_float t xs \<longleftrightarrow> (\<forall>x \<in> set xs. snd x = uc CHR ''_'' \<longrightarrow> 0 < fst x \<and> fst x + 1 \<noteq> length t \<and>
     is_ascii_digit (t ! (fst x - 1)) \<and> is_ascii_digit (t ! (fst x + 1)))"
  by (induction xs) (auto split: if_splits)

lemma check_float_exact: "check_float t (enumerate 0 t) \<longleftrightarrow> separators_between_digits t"
proof -
  have "(\<forall>x \<in> set (enumerate 0 t). P x) \<longleftrightarrow> (\<forall>i < length t. P (i, t ! i))" for P
    by (auto simp: in_set_enumerate_eq)
  moreover have "i + 1 \<noteq> length t \<longleftrightarrow> i + 1 < length t" if "i < length t" for i using that by linarith
  ultimately show ?thesis unfolding check_float_all separators_between_digits_def by (simp cong: conj_cong)
qed

lemma normalized_float_exact:
  "normalized_float t = Inr n \<longleftrightarrow> separators_between_digits t \<and> n = filter (\<lambda>c. c \<noteq> uc CHR ''_'') t"
  unfolding normalized_float_def check_float_exact by auto

lemma digit_not_special [simp]:
  "\<not> is_ascii_digit 0x2B" "\<not> is_ascii_digit 0x2D" "\<not> is_ascii_digit 0x2E" "\<not> is_ascii_digit 0x65" "\<not> is_ascii_digit 0x45"
  by (simp_all add: is_ascii_digit_def)

lemma split_sign_plain:
  assumes "is_sign sign" "t = [] \<or> hd t \<notin> {0x2B, 0x2D}"
  shows "split_sign (sign @ t) = (sign = lit ''-'', t)"
  using assms by (cases t) (auto simp: is_sign_def split_sign_def strip_prefix_def starts_with_def lit_def)

lemma parse_exponent_exact: "parse_exponent t = Some e \<longleftrightarrow> exponent_text t e"
proof (cases t)
  case Nil
  then show ?thesis by (auto simp: parse_exponent_def exponent_text_def)
next
  case (Cons c r)
  obtain neg ds where s: "split_sign r = (neg, ds)" by force
  show ?thesis
  proof
    assume "parse_exponent t = Some e"
    with Cons s split_sign_exact [OF s] show "exponent_text t e"
      by (auto simp: parse_exponent_def exponent_text_def split: if_splits)
  next
    assume "exponent_text t e"
    with Cons obtain sign ds where d: "c \<in> {uc CHR ''e'', uc CHR ''E''}" "is_sign sign" "ds \<noteq> []" "list_all is_ascii_digit ds"
        "r = sign @ ds" "e = (if sign = lit ''-'' then - int (digits_value ds) else int (digits_value ds))"
      by (auto simp: exponent_text_def)
    have "hd ds \<notin> {0x2B, 0x2D}" using d(3,4) by (cases ds) auto
    then have "split_sign r = (sign = lit ''-'', ds)" using split_sign_plain [OF d(2), of ds] d(5) by simp
    with d Cons show "parse_exponent t = Some e" by (simp add: parse_exponent_def)
  qed
qed

lemma exponent_start: "exponent_text t e \<Longrightarrow> t = [] \<or> (\<exists>c r. t = c # r \<and> (c = 0x65 \<or> c = 0x45))"
  by (auto simp: exponent_text_def)

lemma parse_number_exact: "parse_number t = Some x \<longleftrightarrow> decimal_text t x"
proof
  assume p: "parse_number t = Some x"
  define whole r where "whole = takeWhile is_ascii_digit t" and "r = dropWhile is_ascii_digit t"
  have t: "t = whole @ r" "list_all is_ascii_digit whole"
    by (simp_all add: whole_def r_def list_all_iff) (metis set_takeWhileD)
  show "decimal_text t x"
  proof (cases "\<exists>r'. r = uc CHR ''.'' # r'")
    case True
    then obtain r' where r': "r = uc CHR ''.'' # r'" by blast
    have r2: "r' = takeWhile is_ascii_digit r' @ dropWhile is_ascii_digit r'" "list_all is_ascii_digit (takeWhile is_ascii_digit r')"
      by (simp_all add: list_all_iff) (metis set_takeWhileD)
    from p r' obtain e where "parse_exponent (dropWhile is_ascii_digit r') = Some e"
        "x = of_nat (digits_value (whole @ takeWhile is_ascii_digit r')) * 10 powi (e - int (length (takeWhile is_ascii_digit r')))"
        "whole @ takeWhile is_ascii_digit r' \<noteq> []"
      by (auto simp: parse_number_def Let_def simp flip: whole_def r_def split: if_splits)
    with t r' r2 show ?thesis unfolding decimal_text_def parse_exponent_exact
      by (intro exI [of _ whole] exI [of _ "lit ''.''"] exI [of _ "takeWhile is_ascii_digit r'"]
          exI [of _ "dropWhile is_ascii_digit r'"] exI [of _ e]) (simp add: lit_def)
  next
    case False
    with p obtain e where "parse_exponent r = Some e" "x = of_nat (digits_value whole) * 10 powi e" "whole \<noteq> []"
      by (auto simp: parse_number_def Let_def simp flip: whole_def r_def split: if_splits list.splits)
    with t show ?thesis unfolding decimal_text_def parse_exponent_exact
      by (intro exI [of _ whole] exI [of _ "[]"] exI [of _ "[]"] exI [of _ r] exI [of _ e]) simp
  qed
next
  assume "decimal_text t x"
  then obtain whole dot fraction rest e where d: "t = whole @ dot @ fraction @ rest" "list_all is_ascii_digit (whole @ fraction)"
      "dot = lit ''.'' \<or> dot = [] \<and> fraction = []" "whole @ fraction \<noteq> []" "exponent_text rest e"
      "x = of_nat (digits_value (whole @ fraction)) * 10 powi (e - int (length fraction))"
    unfolding decimal_text_def by blast
  have stop: "takeWhile is_ascii_digit rest = []" "dropWhile is_ascii_digit rest = rest" using exponent_start [OF d(5)] by auto
  have "takeWhile is_ascii_digit t = whole" "dropWhile is_ascii_digit t = dot @ fraction @ rest"
    using d(1-3) stop by (auto simp: list_all_iff lit_def)
  moreover have "takeWhile is_ascii_digit (fraction @ rest) = fraction" "dropWhile is_ascii_digit (fraction @ rest) = rest"
    using d(2) stop by (auto simp: list_all_iff)
  moreover have "parse_exponent rest = Some e" using d(5) parse_exponent_exact by blast
  moreover note reads = calculation
  from d(3) show "parse_number t = Some x"
  proof
    assume "dot = lit ''.''"
    with d(4,6) show ?thesis by (simp add: parse_number_def lit_def Let_def reads)
  next
    assume "dot = [] \<and> fraction = []"
    with d(4,6) exponent_start [OF d(5)] show ?thesis
      using reads(5) by (auto simp: parse_number_def Let_def reads(1-4))
  qed
qed

lemma decimal_start: "decimal_text t x \<Longrightarrow> \<exists>c r. t = c # r \<and> (is_ascii_digit c \<or> c = 0x2E)"
proof -
  assume "decimal_text t x"
  then obtain whole dot fraction rest where d: "t = whole @ dot @ fraction @ rest" "list_all is_ascii_digit (whole @ fraction)"
      "dot = lit ''.'' \<or> dot = [] \<and> fraction = []" "whole @ fraction \<noteq> []"
    unfolding decimal_text_def by blast
  then show ?thesis by (cases whole) (auto simp: lit_def)
qed

lemma parse_float_exact:
  "parse_float t = Some (ParsedNumber x) \<longleftrightarrow>
     (\<exists>sign n y. is_sign sign \<and> t = sign @ n \<and> decimal_text n y \<and> x = (if sign = lit ''-'' then - y else y))"
proof -
  obtain neg n where s: "split_sign t = (neg, n)" by force
  have no_word: "map ascii_lower n \<notin> {lit ''inf'', lit ''infinity'', lit ''nan''}" if "decimal_text n y" for n y
    using decimal_start [OF that] by (auto simp: lit_def ascii_lower_def is_ascii_digit_def uc_def split: if_splits)
  show ?thesis
  proof
    assume "parse_float t = Some (ParsedNumber x)"
    with s split_sign_exact [OF s] show "\<exists>sign n y. is_sign sign \<and> t = sign @ n \<and> decimal_text n y \<and> x = (if sign = lit ''-'' then - y else y)"
      by (auto simp: parse_float_def parse_number_exact split: if_splits)
  next
    assume "\<exists>sign n y. is_sign sign \<and> t = sign @ n \<and> decimal_text n y \<and> x = (if sign = lit ''-'' then - y else y)"
    then obtain sign n y where n: "is_sign sign" "t = sign @ n" "decimal_text n y" "x = (if sign = lit ''-'' then - y else y)" by blast
    have "hd n \<notin> {0x2B, 0x2D}" using decimal_start [OF n(3)] by auto
    then have "split_sign t = (sign = lit ''-'', n)" using split_sign_plain [OF n(1), of n] n(2) by simp
    with n no_word [OF n(3)] show "parse_float t = Some (ParsedNumber x)"
      using parse_number_exact [of n y] by (auto simp: parse_float_def)
  qed
qed

section \<open>Floating-point literals are checked exactly\<close>

lemma digits_value_zero:
  assumes "list_all is_ascii_digit t"
  shows "digits_value t = 0 \<longleftrightarrow> (\<forall>c \<in> set t. c = uc CHR ''0'')"
proof -
  have "foldl (\<lambda>acc c. acc * 10 + (c - uc CHR ''0'')) acc t = 0 \<longleftrightarrow> acc = 0 \<and> (\<forall>c \<in> set t. c = uc CHR ''0'')" for acc
    using assms by (induction t arbitrary: acc) (auto simp: is_ascii_digit_def)
  then show ?thesis by (simp add: digits_value_def)
qed

lemma mantissa_exact:
  assumes "is_sign sign" "decimal_text n y"
  shows "float_mantissa_is_nonzero (sign @ n) \<longleftrightarrow> y \<noteq> 0"
proof -
  obtain whole dot fraction rest e where d: "n = whole @ dot @ fraction @ rest" "list_all is_ascii_digit (whole @ fraction)"
      "dot = lit ''.'' \<or> dot = [] \<and> fraction = []" "exponent_text rest e"
      "y = of_nat (digits_value (whole @ fraction)) * 10 powi (e - int (length fraction))"
    using assms(2) unfolding decimal_text_def by blast
  have "dropWhile (\<lambda>c. c \<in> {uc CHR ''+'', uc CHR ''-''}) (sign @ n) = n"
    using assms(1) decimal_start [OF assms(2)] by (auto simp: is_sign_def lit_def)
  moreover have "takeWhile (\<lambda>c. c \<notin> {uc CHR ''e'', uc CHR ''E''}) n = whole @ dot @ fraction"
  proof -
    have "\<forall>c \<in> set (whole @ dot @ fraction). c \<notin> {uc CHR ''e'', uc CHR ''E''}"
      using d(2,3) digit_not_special by (auto simp: list_all_iff lit_def ball_Un)
    moreover have "takeWhile (\<lambda>c. c \<notin> {uc CHR ''e'', uc CHR ''E''}) rest = []" using exponent_start [OF d(4)] by auto
    ultimately show ?thesis unfolding d(1) append_assoc [symmetric] by (subst takeWhile_append2) auto
  qed
  moreover have "(\<exists>c \<in> set (whole @ dot @ fraction). is_ascii_digit c \<and> c \<noteq> uc CHR ''0'') \<longleftrightarrow> digits_value (whole @ fraction) \<noteq> 0"
    using d(2,3) digits_value_zero [OF d(2)] by (auto simp: list_all_iff lit_def)
  ultimately show ?thesis by (simp add: float_mantissa_is_nonzero_def Let_def d(5))
qed

definition in_float_range :: "nat \<Rightarrow> int \<Rightarrow> int \<Rightarrow> rat \<Rightarrow> bool" where
  "in_float_range p emin emax x \<longleftrightarrow>
     \<bar>x\<bar> < 2 powi emax - 2 powi (emax - int p - 1) \<and> (x = 0 \<or> 2 powi (emin - 1) < \<bar>x\<bar>)"

lemma round_float_exact:
  assumes "0 < p" "emin \<le> emax - int p"
  shows "(\<exists>y. round_float p emin emax x = Some y \<and> (x = 0 \<or> y \<noteq> 0)) \<longleftrightarrow> in_float_range p emin emax x"
  using round_magnitude_overflow [of "\<bar>x\<bar>" p emin emax] round_magnitude_underflow [of "\<bar>x\<bar>" p emin] assms
  by (auto simp: round_float_def in_float_range_def Let_def not_le)

lemma to_f64_exact: "(\<exists>y. to_f64 x = Some y \<and> (x = 0 \<or> y \<noteq> 0)) \<longleftrightarrow> in_float_range 53 (- 1074) 1024 x"
  unfolding to_f64_def by (rule round_float_exact) simp_all

lemma to_f32_exact: "(\<exists>y. to_f32 x = Some y \<and> (x = 0 \<or> y \<noteq> 0)) \<longleftrightarrow> in_float_range 24 (- 149) 128 x"
  unfolding to_f32_def by (rule round_float_exact) simp_all

lemma ex_determined:
  assumes "L a b c x" "\<And>a b c x'. L a b c x' \<Longrightarrow> x' = x"
  shows "(\<exists>a b c x. L a b c x \<and> Q x) \<longleftrightarrow> Q x"
  using assms by blast

text \<open>C36. Floating-point literals. A literal is accepted exactly if the target is a float type, every separator is between
  two digits and the rest is a decimal number whose nearest double is finite, and not zero unless
  the number is; for a single-precision target the same has to hold when that double is rounded
  again. Finite and not zero are ranges of the exact value of the literal.\<close>

theorem float_literal_exact:
  "validate_float t p = Inr () \<longleftrightarrow>
     p \<in> {F32T, F64T} \<and> separators_between_digits t \<and>
     (\<exists>sign n y x. is_sign sign \<and> filter (\<lambda>c. c \<noteq> uc CHR ''_'') t = sign @ n \<and> decimal_text n y \<and>
        x = (if sign = lit ''-'' then - y else y) \<and> in_float_range 53 (- 1074) 1024 x \<and>
        (p = F32T \<longrightarrow> in_float_range 24 (- 149) 128 (the (to_f64 x))))"
proof (cases "p \<in> {F32T, F64T} \<and> separators_between_digits t")
  case False
  have "normalized_float t \<noteq> Inr m" if "\<not> separators_between_digits t" for m
    using that normalized_float_exact by blast
  with False show ?thesis by (auto simp: validate_float_def split: sum.splits)
next
  case True
  define n where "n = filter (\<lambda>c. c \<noteq> uc CHR ''_'') t"
  have norm: "normalized_float t = Inr n" using True normalized_float_exact n_def by blast
  have checked: "validate_float t p = Inr () \<longleftrightarrow>
      in_float_range 53 (- 1074) 1024 x \<and> (p = F32T \<longrightarrow> in_float_range 24 (- 149) 128 (the (to_f64 x)))"
    if x: "parse_float n = Some (ParsedNumber x)" and m: "float_mantissa_is_nonzero n \<longleftrightarrow> x \<noteq> 0" for x
  proof (cases "to_f64 x")
    case None
    then show ?thesis using True norm x to_f64_exact [of x] by (auto simp: validate_float_def)
  next
    case (Some y)
    then show ?thesis using True norm x m to_f64_exact [of x] to_f32_exact [of y]
      by (auto simp: validate_float_def split: option.splits)
  qed
  show ?thesis
  proof (cases "\<exists>x. parse_float n = Some (ParsedNumber x)")
    case True
    then obtain x where x: "parse_float n = Some (ParsedNumber x)" by blast
    then obtain sign k y where k: "is_sign sign" "n = sign @ k" "decimal_text k y" "x = (if sign = lit ''-'' then - y else y)"
      using parse_float_exact by blast
    have "float_mantissa_is_nonzero n \<longleftrightarrow> x \<noteq> 0" using mantissa_exact [OF k(1,3)] k(2,4) by simp
    note v = checked [OF x this]
    let ?literal = "\<lambda>sign k y x. is_sign sign \<and> n = sign @ k \<and> decimal_text k y \<and> x = (if sign = lit ''-'' then - y else y)"
    have "?literal sign k y x" using k by blast
    moreover have unique: "x' = x" if "?literal sign' k' y' x'" for sign' k' y' x'
      using parse_float_exact [of n x'] that x by auto
    ultimately have "(\<exists>sign k y x. ?literal sign k y x \<and> Q x) \<longleftrightarrow> Q x" for Q by (rule ex_determined)
    from this [of "\<lambda>x. in_float_range 53 (- 1074) 1024 x \<and> (p = F32T \<longrightarrow> in_float_range 24 (- 149) 128 (the (to_f64 x)))"]
    show ?thesis unfolding n_def [symmetric] v using \<open>p \<in> {F32T, F64T} \<and> separators_between_digits t\<close> by (simp only: simp_thms conj_assoc)
  next
    case False
    then have "validate_float t p \<noteq> Inr ()" using norm by (auto simp: validate_float_def split: option.splits parsed_float.splits)
    moreover have "\<not> (is_sign sign \<and> n = sign @ k \<and> decimal_text k y)" for sign k y using False parse_float_exact by blast
    ultimately show ?thesis unfolding n_def [symmetric] by blast
  qed
qed

theorem integer_literal_exact_witness:
  "checked_integer_literal (lit ''-0x8_0'') I8T = Inr \<lparr>ci_negative = True, ci_magnitude = 128\<rparr>"
proof -
  have "digit_groups 16 [lit ''8'', lit ''0'']" "radix_value 16 (concat [lit ''8'', lit ''0'']) = 128"
    by (simp_all add: digit_groups_def is_digit_of_def to_digit_def radix_value_def lit_def uc_def)
  moreover have "lit ''-0x8_0'' = lit ''-'' @ lit ''0x'' @ join_groups [lit ''8'', lit ''0'']" by (simp add: lit_def uc_def)
  ultimately show ?thesis
    by (intro integer_literal_exact [THEN iffD2] exI [of _ "lit ''-''"] exI [of _ 16] exI [of _ "lit ''0x''"]
        exI [of _ "[lit ''8'', lit ''0'']"] exI [of _ 128])
      (simp add: is_sign_def literal_prefix_def in_integer_range_def is_signed_integer_def)
qed

theorem float_literal_exact_witness: "validate_float (lit ''2_0.5'') F64T = Inr ()"
proof -
  let ?n = "[0x32, 0x30, 0x2E, 0x35] :: utext"
  have "decimal_text ?n (205 / 10)"
    unfolding decimal_text_def
    by (intro exI [of _ "[0x32, 0x30]"] exI [of _ "lit ''.''"] exI [of _ "[0x35]"] exI [of _ "[]"] exI [of _ 0])
      (simp add: lit_def uc_def is_ascii_digit_def exponent_text_def digits_value_def)
  moreover have "separators_between_digits (lit ''2_0.5'')"
    by (auto simp: separators_between_digits_def lit_def uc_def is_ascii_digit_def less_Suc_eq)
  moreover have "in_float_range 53 (- 1074) 1024 (205 / 10)" by (simp add: in_float_range_def)
  ultimately show ?thesis
    by (intro float_literal_exact [THEN iffD2] conjI exI [of _ "[]"] exI [of _ ?n] exI [of _ "205 / 10"])
      (simp_all add: is_sign_def lit_def uc_def)
qed

end
