(* ===== verification/Etas_Substitute.thy ===== *)
theory Etas_Substitute
  imports Etas_Unify_Facts
begin

text \<open>Substitution in types: the engine that replaces type parameters, variables, spec identities and
  effect rows in a type and places the result in a store, an interner or the store of another
  compilation (\<open>ty/substitution.rs\<close> and \<open>ty/substitution/rows.rs\<close>). The engine keeps its worklist state, its
  results and its budget; a step is a function from the engine to an error or a value and the engine
  after it, and \<open>None\<close> stands for a computation that has run out of fuel.\<close>

section \<open>Errors, budgets and the engine\<close>

datatype ('s, 'e) type_substitution_error =
    InvalidApplication type_id
  | MissingType type_id
  | MissingTypeIdentity type_id
  | MissingEnumLayout type_id
  | MissingEffectIdentity utext
  | MissingSpecIdentity 's
  | UnresolvedParameter type_id
  | OpenEffectRow utext
  | CyclicType type_id
  | CyclicEffectRow utext
  | UnmaterializedType "'s ty"
  | UnresolvedType type_id
  | RepresentationLimit nat
  | ExpansionDepth nat
  | WorkLimit utext nat
  | SubstitutionInterrupted 'e

record 'e type_substitution_budget =
  bu_max_nodes :: nat
  bu_max_edges :: nat
  bu_nodes :: nat
  bu_edges :: nat
  bu_control :: "(nat \<Rightarrow> 'e option) option"

definition budget_new :: "nat \<Rightarrow> nat \<Rightarrow> (nat \<Rightarrow> 'e option) option \<Rightarrow> 'e type_substitution_budget" where
  "budget_new max_nodes max_edges control =
     \<lparr>bu_max_nodes = max_nodes, bu_max_edges = max_edges, bu_nodes = 0, bu_edges = 0, bu_control = control\<rparr>"

record ('s, 'd, 'g) type_relocation_input =
  ri_source :: "('s, 'd, 'g) type_store"
  ri_target :: "('s, 'd, 'g) type_store"
  ri_declaration_types :: "type_id \<rightharpoonup> type_id"
  ri_target_types :: type_lookup_index
  ri_effect_names :: "utext \<rightharpoonup> utext"

record ('s, 'd, 'g) type_relocation_materialization_input =
  rm_source :: "('s, 'd, 'g) type_store"
  rm_target :: "('s, 'd, 'g) type_interner"
  rm_declaration_types :: "type_id \<rightharpoonup> type_id"
  rm_effect_names :: "utext \<rightharpoonup> utext"

datatype ('s, 'd, 'g) substitution_target =
    Materialize "('s, 'd, 'g) type_interner"
  | Existing "('s, 'd, 'g) type_store"
  | Relocate "('s, 'd, 'g) type_relocation_input"
  | RelocateMaterialize "('s, 'd, 'g) type_relocation_materialization_input"

datatype effect_row_substitution =
    RowArguments "(utext, effect_row_ref) fmap"
  | RowEquations "(utext, effect_row_ref) fmap"

text \<open>
  The engine. Beside the fields of the code it has the hash function of the lookup indices, the test
  for references to source and external specifications, and the number of polls so far: the answer
  of a control to the poll with number \<open>k\<close> is a function of \<open>k\<close>.
\<close>

record ('s, 'd, 'g, 'e) type_substitution_engine =
  se_target :: "('s, 'd, 'g) substitution_target"
  se_existing_lookup :: "type_lookup_index option"
  se_relocation_overrides :: "(type_id \<rightharpoonup> type_id) option"
  se_named :: "(utext, type_id) fmap option"
  se_parameters :: "(symbol_id, type_id) fmap option"
  se_canonical_parameters :: "('g canonical_type_parameter_identity, type_id) fmap option"
  se_variables :: "substitution option"
  se_type_parameters :: "(type_id, type_id) fmap option"
  se_spec_identities :: "('s, 's) fmap option"
  se_effect_rows :: "effect_row_substitution option"
  se_closed_named_types :: "(type_id \<Rightarrow> bool) option"
  se_active :: "type_id set"
  se_memo :: "type_id \<rightharpoonup> type_id"
  se_memo_depths :: "type_id \<rightharpoonup> nat"
  se_expansion_depth :: "nat option"
  se_budget :: "'e type_substitution_budget option"
  se_control :: "(nat \<Rightarrow> 'e option) option"
  se_hash :: "'s ty \<Rightarrow> nat"
  se_declared_spec :: "'s \<Rightarrow> bool"
  se_polls :: nat

section \<open>Stateful steps\<close>

type_synonym ('s, 'd, 'g, 'e, 'a) sub =
  "('s, 'd, 'g, 'e) type_substitution_engine \<Rightarrow>
   ((('s, 'e) type_substitution_error + 'a) \<times> ('s, 'd, 'g, 'e) type_substitution_engine) option"

definition sub_ok :: "'a \<Rightarrow> ('s, 'd, 'g, 'e, 'a) sub" where
  "sub_ok x e = Some (Inr x, e)"

definition sub_fail :: "('s, 'e) type_substitution_error \<Rightarrow> ('s, 'd, 'g, 'e, 'a) sub" where
  "sub_fail err e = Some (Inl err, e)"

definition sub_bind ::
    "('s, 'd, 'g, 'e, 'a) sub \<Rightarrow> ('a \<Rightarrow> ('s, 'd, 'g, 'e, 'b) sub) \<Rightarrow> ('s, 'd, 'g, 'e, 'b) sub" where
  "sub_bind m f e =
     (case m e of
        None \<Rightarrow> None
      | Some (Inl err, e) \<Rightarrow> Some (Inl err, e)
      | Some (Inr x, e) \<Rightarrow> f x e)"

definition sub_read :: "(('s, 'd, 'g, 'e) type_substitution_engine \<Rightarrow> ('s, 'd, 'g, 'e, 'a) sub) \<Rightarrow> ('s, 'd, 'g, 'e, 'a) sub" where
  "sub_read f e = f e e"

fun sub_map :: "('a \<Rightarrow> ('s, 'd, 'g, 'e, 'b) sub) \<Rightarrow> 'a list \<Rightarrow> ('s, 'd, 'g, 'e, 'b list) sub" where
  "sub_map f [] = sub_ok []"
| "sub_map f (x # xs) = sub_bind (f x) (\<lambda>y. sub_bind (sub_map f xs) (\<lambda>ys. sub_ok (y # ys)))"

definition sub_option :: "('a \<Rightarrow> ('s, 'd, 'g, 'e, 'b) sub) \<Rightarrow> 'a option \<Rightarrow> ('s, 'd, 'g, 'e, 'b option) sub" where
  "sub_option f x = (case x of None \<Rightarrow> sub_ok None | Some x \<Rightarrow> sub_bind (f x) (\<lambda>y. sub_ok (Some y)))"

definition sub_poll :: "(nat \<Rightarrow> 'e option) option \<Rightarrow> ('s, 'd, 'g, 'e, unit) sub" where
  "sub_poll control e =
     (case control of
        None \<Rightarrow> Some (Inr (), e)
      | Some chk \<Rightarrow>
          (case chk (se_polls e) of
             None \<Rightarrow> Some (Inr (), e\<lparr>se_polls := se_polls e + 1\<rparr>)
           | Some i \<Rightarrow> Some (Inl (SubstitutionInterrupted i), e\<lparr>se_polls := se_polls e + 1\<rparr>)))"

definition budget_checkpoint :: "'e type_substitution_budget \<Rightarrow> ('s, 'd, 'g, 'e, unit) sub" where
  "budget_checkpoint b = sub_poll (bu_control b)"

text \<open>The two counters are charged alike; sums beyond the machine word are over the limit too.\<close>

definition budget_charge ::
    "utext \<Rightarrow> ('e type_substitution_budget \<Rightarrow> nat) \<Rightarrow> (nat \<Rightarrow> 'e type_substitution_budget \<Rightarrow> 'e type_substitution_budget) \<Rightarrow>
     nat \<Rightarrow> nat \<Rightarrow> 'e type_substitution_budget \<Rightarrow> ('s, 'd, 'g, 'e, unit) sub" where
  "budget_charge resource count store_count amount limit b =
     sub_bind (budget_checkpoint b) (\<lambda>_ e.
       let nxt = count b + amount in
       if nxt \<ge> 2 ^ 64 then Some (Inl (WorkLimit resource limit), e)
       else if nxt > limit then Some (Inl (WorkLimit resource limit), e)
       else Some (Inr (), e\<lparr>se_budget := Some (store_count nxt b)\<rparr>))"

definition charge_node :: "('s, 'd, 'g, 'e, unit) sub" where
  "charge_node = sub_read (\<lambda>e.
     case se_budget e of
       None \<Rightarrow> sub_ok ()
     | Some b \<Rightarrow> budget_charge (lit ''nodes'') bu_nodes (\<lambda>n. bu_nodes_update (\<lambda>_. n)) 1 (bu_max_nodes b) b)"

definition charge_edges :: "nat \<Rightarrow> ('s, 'd, 'g, 'e, unit) sub" where
  "charge_edges amount = sub_read (\<lambda>e.
     case se_budget e of
       None \<Rightarrow> sub_ok ()
     | Some b \<Rightarrow> budget_charge (lit ''edges'') bu_edges (\<lambda>n. bu_edges_update (\<lambda>_. n)) amount (bu_max_edges b) b)"

definition sub_checkpoint :: "('s, 'd, 'g, 'e, unit) sub" where
  "sub_checkpoint = sub_read (\<lambda>e. sub_bind (sub_poll (se_control e)) (\<lambda>_. sub_read (\<lambda>e.
     case se_budget e of None \<Rightarrow> sub_ok () | Some b \<Rightarrow> budget_checkpoint b)))"

section \<open>Building an engine\<close>

definition engine_for ::
    "('s ty \<Rightarrow> nat) \<Rightarrow> ('s \<Rightarrow> bool) \<Rightarrow> ('s, 'd, 'g) substitution_target \<Rightarrow> (utext, type_id) fmap option \<Rightarrow>
     ('s, 'd, 'g, 'e) type_substitution_engine" where
  "engine_for h declared target nm =
     \<lparr>se_target = target, se_existing_lookup = None, se_relocation_overrides = None, se_named = nm,
      se_parameters = None, se_canonical_parameters = None, se_variables = None, se_type_parameters = None,
      se_spec_identities = None, se_effect_rows = None, se_closed_named_types = None, se_active = {},
      se_memo = Map.empty, se_memo_depths = Map.empty, se_expansion_depth = None, se_budget = None,
      se_control = None, se_hash = h, se_declared_spec = declared, se_polls = 0\<rparr>"

definition materializing where
  "materializing h declared interner nm variables =
     (engine_for h declared (Materialize interner) (Some nm))\<lparr>se_variables := variables\<rparr>"

definition existing where
  "existing h declared s nm = engine_for h declared (Existing s) (Some nm)"

definition existing_indexed where
  "existing_indexed h declared s lookup nm = (existing h declared s nm)\<lparr>se_existing_lookup := Some lookup\<rparr>"

definition existing_with_variables where
  "existing_with_variables h declared s nm variables = (existing h declared s nm)\<lparr>se_variables := Some variables\<rparr>"

definition relocating where
  "relocating h declared input = engine_for h declared (Relocate input) None"

definition relocating_materialized where
  "relocating_materialized h declared input = engine_for h declared (RelocateMaterialize input) None"

definition relocating_materialized_with_overrides where
  "relocating_materialized_with_overrides h declared input overrides =
     (relocating_materialized h declared input)\<lparr>se_relocation_overrides := Some overrides\<rparr>"

definition clear_memo :: "('s, 'd, 'g, 'e) type_substitution_engine \<Rightarrow> ('s, 'd, 'g, 'e) type_substitution_engine" where
  "clear_memo e = e\<lparr>se_memo := Map.empty, se_memo_depths := Map.empty\<rparr>"

definition with_expansion_depth where
  "with_expansion_depth limit e = clear_memo (e\<lparr>se_expansion_depth := Some limit\<rparr>)"

definition with_budget where
  "with_budget b e = e\<lparr>se_budget := Some b\<rparr>"

definition with_type_parameters where
  "with_type_parameters ps e = clear_memo (e\<lparr>se_type_parameters := Some ps\<rparr>)"

definition with_spec_identities where
  "with_spec_identities ids e = clear_memo (e\<lparr>se_spec_identities := Some ids\<rparr>)"

definition with_execution_control where
  "with_execution_control control e = e\<lparr>se_control := control\<rparr>"

definition require_closed_parameters where
  "require_closed_parameters named_types e = clear_memo (e\<lparr>se_closed_named_types := Some named_types\<rparr>)"

definition with_source_parameters where
  "with_source_parameters ps e = clear_memo (e\<lparr>se_parameters := Some ps\<rparr>)"

definition with_canonical_parameters where
  "with_canonical_parameters ps e = clear_memo (e\<lparr>se_canonical_parameters := Some ps\<rparr>)"

definition with_effect_arguments where
  "with_effect_arguments rows e = clear_memo (e\<lparr>se_effect_rows := Some (RowArguments rows)\<rparr>)"

definition with_row_equations where
  "with_row_equations rows e = clear_memo (e\<lparr>se_effect_rows := Some (RowEquations rows)\<rparr>)"

section \<open>Questions to the engine\<close>

definition input_store :: "('s, 'd, 'g, 'e) type_substitution_engine \<Rightarrow> ('s, 'd, 'g) type_store" where
  "input_store e =
     (case se_target e of
        Materialize interner \<Rightarrow> in_store interner
      | Existing s \<Rightarrow> s
      | Relocate input \<Rightarrow> ri_source input
      | RelocateMaterialize input \<Rightarrow> rm_source input)"

definition none_or_empty :: "('k, 'v) fmap option \<Rightarrow> bool" where
  "none_or_empty m \<longleftrightarrow> (case m of None \<Rightarrow> True | Some m \<Rightarrow> fmdom m = {||})"

definition is_identity_mapping :: "('s, 'd, 'g, 'e) type_substitution_engine \<Rightarrow> bool" where
  "is_identity_mapping e \<longleftrightarrow>
     (case se_target e of Existing _ \<Rightarrow> True | _ \<Rightarrow> False) \<and>
     none_or_empty (se_named e) \<and> none_or_empty (se_parameters e) \<and> none_or_empty (se_type_parameters e) \<and>
     none_or_empty (se_spec_identities e) \<and> none_or_empty (se_canonical_parameters e) \<and>
     none_or_empty (se_variables e) \<and>
     (case se_effect_rows e of
        None \<Rightarrow> True
      | Some (RowArguments rows) \<Rightarrow> fmdom rows = {||}
      | Some (RowEquations rows) \<Rightarrow> fmdom rows = {||})"

definition is_relocation :: "('s, 'd, 'g, 'e) type_substitution_engine \<Rightarrow> bool" where
  "is_relocation e = (case se_target e of Relocate _ \<Rightarrow> True | RelocateMaterialize _ \<Rightarrow> True | _ \<Rightarrow> False)"

definition type_data :: "('s, 'd, 'g, 'e) type_substitution_engine \<Rightarrow> type_id \<Rightarrow> 's ty option" where
  "type_data e t =
     (case se_target e of
        Materialize interner \<Rightarrow> store_get (in_store interner) t
      | Existing s \<Rightarrow> store_get s t
      | Relocate input \<Rightarrow> store_get (ri_source input) t
      | RelocateMaterialize input \<Rightarrow> store_get (rm_source input) t)"

definition require_type :: "type_id \<Rightarrow> ('s, 'd, 'g, 'e, 's ty) sub" where
  "require_type t = sub_read (\<lambda>e. case type_data e t of None \<Rightarrow> sub_fail (MissingType t) | Some d \<Rightarrow> sub_ok d)"

definition replacement :: "('s, 'd, 'g, 'e) type_substitution_engine \<Rightarrow> type_id \<Rightarrow> 's ty \<Rightarrow> type_id option" where
  "replacement e i t =
     (case Option.bind (se_type_parameters e) (\<lambda>ps. fmlookup ps i) of
        Some r \<Rightarrow> Some r
      | None \<Rightarrow>
          (case parameter_identity (input_store e) i of
             Some identity \<Rightarrow> Option.bind (se_canonical_parameters e) (\<lambda>ps. fmlookup ps identity)
           | None \<Rightarrow>
               (case t of
                  TyNamed nm source_parameter \<Rightarrow>
                    (case se_parameters e of
                       Some ps \<Rightarrow> Option.bind source_parameter (\<lambda>symbol. fmlookup ps symbol)
                     | None \<Rightarrow> Option.bind (se_named e) (\<lambda>named. fmlookup named nm))
                | TyVar v \<Rightarrow> Option.bind (se_variables e) (\<lambda>variables. fmlookup variables v)
                | _ \<Rightarrow> None)))"

definition proper_replacement :: "('s, 'd, 'g, 'e) type_substitution_engine \<Rightarrow> type_id \<Rightarrow> 's ty \<Rightarrow> type_id option" where
  "proper_replacement e i t = (case replacement e i t of Some r \<Rightarrow> if r \<noteq> i then Some r else None | None \<Rightarrow> None)"

definition is_named :: "'s ty \<Rightarrow> bool" where
  "is_named t = (case t of TyNamed _ _ \<Rightarrow> True | _ \<Rightarrow> False)"

definition mapped_declaration :: "('s, 'd, 'g, 'e) type_substitution_engine \<Rightarrow> type_id \<Rightarrow> type_id option" where
  "mapped_declaration e t =
     (case se_target e of
        Relocate input \<Rightarrow> ri_declaration_types input t
      | RelocateMaterialize input \<Rightarrow>
          (case Option.bind (se_relocation_overrides e) (\<lambda>m. m t) of
             Some r \<Rightarrow> Some r
           | None \<Rightarrow> rm_declaration_types input t)
      | _ \<Rightarrow> None)"

section \<open>Effect rows\<close>

datatype expanded_effect_row = ExpandedRow (xr_row: effect_row_ref) (xr_argument_start: "nat option")

definition extend_row :: "effect_row_ref \<Rightarrow> effect_row_ref \<Rightarrow> effect_row_ref" where
  "extend_row row b = EffectRowRef (rr_effects row @ rr_effects b) (rr_tail b)"

definition expand_arguments ::
    "(utext, effect_row_ref) fmap \<Rightarrow> effect_row_ref \<Rightarrow> ('s, 'd, 'g, 'e, expanded_effect_row) sub" where
  "expand_arguments arguments row =
     (case Option.bind (rr_tail row) (fmlookup arguments) of
        None \<Rightarrow> sub_ok (ExpandedRow row None)
      | Some b \<Rightarrow>
          sub_bind (charge_edges (length (rr_effects b))) (\<lambda>_.
            sub_ok (ExpandedRow (extend_row row b) (Some (length (rr_effects row))))))"

text \<open>The equation for the tail of a row, unless it maps the tail to itself.\<close>

definition next_equation ::
    "(utext, effect_row_ref) fmap \<Rightarrow> effect_row_ref \<Rightarrow> (utext \<times> effect_row_ref) option" where
  "next_equation equations row =
     Option.bind (rr_tail row) (\<lambda>tail.
       case fmlookup equations tail of
         Some b \<Rightarrow> if rr_effects b \<noteq> [] \<or> rr_tail b \<noteq> Some tail then Some (tail, b) else None
       | None \<Rightarrow> None)"

lemma next_equation_less:
  assumes "next_equation equations row = Some (tail, b)" "tail \<notin> visited"
  shows "card (fset (fmdom equations) - insert tail visited) < card (fset (fmdom equations) - visited)"
proof -
  have "tail |\<in>| fmdom equations"
    using assms(1) by (auto simp: next_equation_def fmlookup_dom_iff split: option.splits if_splits bind_splits)
  with assms(2) have "fset (fmdom equations) - insert tail visited \<subset> fset (fmdom equations) - visited" by blast
  then show ?thesis by (simp add: psubset_card_mono)
qed

definition charge_equation :: "effect_row_ref \<Rightarrow> ('s, 'd, 'g, 'e, unit) sub" where
  "charge_equation b =
     sub_bind sub_checkpoint (\<lambda>_. sub_bind charge_node (\<lambda>_. charge_edges (length (rr_effects b))))"

function expand_equations ::
    "(utext, effect_row_ref) fmap \<Rightarrow> effect_row_ref \<Rightarrow> utext set \<Rightarrow> ('s, 'd, 'g, 'e, effect_row_ref) sub" where
  "expand_equations equations row visited e =
     (case next_equation equations row of
        None \<Rightarrow> Some (Inr row, e)
      | Some (tail, b) \<Rightarrow>
          (case charge_equation b e of
             None \<Rightarrow> None
           | Some (Inl err, e) \<Rightarrow> Some (Inl err, e)
           | Some (Inr _, e) \<Rightarrow>
               if tail \<in> visited then Some (Inl (CyclicEffectRow tail), e)
               else
                 (case se_expansion_depth e of
                    Some limit \<Rightarrow>
                      if card (se_active e) + card (insert tail visited) > limit
                      then Some (Inl (ExpansionDepth limit), e)
                      else expand_equations equations (extend_row row b) (insert tail visited) e
                  | None \<Rightarrow> expand_equations equations (extend_row row b) (insert tail visited) e)))"
  by pat_completeness auto
termination
  by (relation "measure (\<lambda>(equations, _, visited, _). card (fset (fmdom equations) - visited))")
    (auto intro: next_equation_less)

declare expand_equations.simps [simp del]

definition expanded_row :: "effect_row_ref \<Rightarrow> ('s, 'd, 'g, 'e, expanded_effect_row) sub" where
  "expanded_row row = sub_read (\<lambda>e.
     if is_relocation e \<and> rr_tail row \<noteq> None then sub_fail (OpenEffectRow (the (rr_tail row)))
     else
       sub_bind
         (case se_effect_rows e of
            Some (RowArguments arguments) \<Rightarrow> expand_arguments arguments row
          | Some (RowEquations equations) \<Rightarrow>
              sub_bind (expand_equations equations row {}) (\<lambda>row. sub_ok (ExpandedRow row None))
          | None \<Rightarrow> sub_ok (ExpandedRow row None))
         (\<lambda>expanded.
            if se_closed_named_types e \<noteq> None \<and> rr_tail (xr_row expanded) \<noteq> None
            then sub_fail (OpenEffectRow (the (rr_tail (xr_row expanded)))) else sub_ok expanded))"

definition effect_type_args :: "effect_ref \<Rightarrow> type_id list" where
  "effect_type_args effect = concat (map (\<lambda>a. case a of ArgType t \<Rightarrow> [t] | _ \<Rightarrow> []) (ef_args effect))"

definition expanded_types :: "expanded_effect_row \<Rightarrow> type_id list" where
  "expanded_types x =
     concat (map (\<lambda>(index, effect).
       if (case xr_argument_start x of None \<Rightarrow> False | Some start \<Rightarrow> start \<le> index) then [] else effect_type_args effect)
       (enumerate 0 (rr_effects (xr_row x))))"

definition row_dependencies :: "effect_row_ref \<Rightarrow> ('s, 'd, 'g, 'e, type_id list) sub" where
  "row_dependencies row = sub_bind (expanded_row row) (\<lambda>x. sub_ok (expanded_types x))"

definition row_option_dependencies :: "effect_row_ref option \<Rightarrow> ('s, 'd, 'g, 'e, type_id list) sub" where
  "row_option_dependencies row = (case row of None \<Rightarrow> sub_ok [] | Some row \<Rightarrow> row_dependencies row)"

definition data_dependencies :: "bool \<Rightarrow> 's ty \<Rightarrow> ('s, 'd, 'g, 'e, type_id list) sub" where
  "data_dependencies relocation d =
     (case d of
        TyExistential bounds \<Rightarrow> sub_ok (concat (map sb_args bounds))
      | TyArray t \<Rightarrow> sub_ok [t]
      | TyList t \<Rightarrow> sub_ok [t]
      | TySet t \<Rightarrow> sub_ok [t]
      | TyRange t \<Rightarrow> sub_ok [t]
      | TySlice t \<Rightarrow> sub_ok [t]
      | TyOption t \<Rightarrow> sub_ok [t]
      | TyRefined t _ \<Rightarrow> sub_ok [t]
      | TyTrust _ t \<Rightarrow> sub_ok [t]
      | TySchema t \<Rightarrow> sub_ok [t]
      | TyMessage t \<Rightarrow> sub_ok [t]
      | TyMemorySelection t \<Rightarrow> sub_ok [t]
      | TyMemoryRegion t \<Rightarrow> sub_ok [t]
      | TyMap k v \<Rightarrow> sub_ok [k, v]
      | TyStore k v \<Rightarrow> sub_ok [k, v]
      | TyResult ok err \<Rightarrow> sub_ok [ok, err]
      | TyRecord fs \<Rightarrow> sub_ok (map ft_ty fs)
      | TyTuple ts \<Rightarrow> sub_ok ts
      | TyFunction input output effects \<Rightarrow>
          sub_bind (row_option_dependencies effects) (\<lambda>ds. sub_ok (input @ [output] @ ds))
      | TyHandler handled produced result \<Rightarrow>
          sub_bind (row_dependencies handled) (\<lambda>ds.
            sub_bind (case produced of ProducedInfer \<Rightarrow> sub_ok [] | ProducedExplicit row \<Rightarrow> row_dependencies row) (\<lambda>ps.
              sub_ok (ds @ ps @ (case result of None \<Rightarrow> [] | Some t \<Rightarrow> [t]))))
      | TyTask output effects \<Rightarrow> sub_bind (row_dependencies effects) (\<lambda>ds. sub_ok (output # ds))
      | TyContinuation output answer residual \<Rightarrow>
          sub_bind (row_option_dependencies residual) (\<lambda>ds.
            sub_ok (output # (case answer of None \<Rightarrow> [] | Some t \<Rightarrow> [t]) @ ds))
      | TyApplied constructor args \<Rightarrow> sub_ok (if relocation then constructor # args else args)
      | TyResourceHandle h \<Rightarrow>
          sub_ok (case h of RhMemoryRegion t \<Rightarrow> [t] | RhExternalTool t \<Rightarrow> [t] | RhOther _ args \<Rightarrow> args)
      | _ \<Rightarrow> sub_ok [])"

definition dependencies :: "type_id \<Rightarrow> ('s, 'd, 'g, 'e, type_id list) sub" where
  "dependencies t = sub_bind (require_type t) (\<lambda>d. sub_read (\<lambda>e.
     if mapped_declaration e t \<noteq> None then sub_ok []
     else
       (case proper_replacement e t d of
          Some r \<Rightarrow> sub_ok (if is_named d then [] else [r])
        | None \<Rightarrow> data_dependencies (is_relocation e) d)))"

section \<open>Assembling a type from its parts\<close>

text \<open>Arguments belong to the namespace of the caller, so the bindings are set aside for them.\<close>

definition aside ::
    "('s, 'd, 'g, 'e) type_substitution_engine \<Rightarrow> ('s, 'd, 'g, 'e) type_substitution_engine" where
  "aside e = e\<lparr>se_named := None, se_parameters := None, se_type_parameters := None, se_canonical_parameters := None,
     se_effect_rows := None, se_memo := Map.empty, se_memo_depths := Map.empty, se_active := {}\<rparr>"

definition restored ::
    "('s, 'd, 'g, 'e) type_substitution_engine \<Rightarrow> ('s, 'd, 'g, 'e) type_substitution_engine \<Rightarrow>
     ('s, 'd, 'g, 'e) type_substitution_engine" where
  "restored e0 e = e\<lparr>se_named := se_named e0, se_parameters := se_parameters e0,
     se_type_parameters := se_type_parameters e0, se_canonical_parameters := se_canonical_parameters e0,
     se_effect_rows := se_effect_rows e0, se_memo := se_memo e0, se_memo_depths := se_memo_depths e0,
     se_active := se_active e0\<rparr>"

definition substitute_argument ::
    "(type_id \<Rightarrow> ('s, 'd, 'g, 'e, type_id) sub) \<Rightarrow> type_id \<Rightarrow> ('s, 'd, 'g, 'e, type_id) sub" where
  "substitute_argument f t = sub_bind (require_type t) (\<lambda>_ e.
     if se_variables e = None \<and> se_closed_named_types e = None then Some (Inr t, e)
     else
       (case f t (aside e) of
          None \<Rightarrow> None
        | Some (result, e') \<Rightarrow> Some (result, restored e e')))"

definition effect_names :: "('s, 'd, 'g, 'e) type_substitution_engine \<Rightarrow> (utext \<rightharpoonup> utext) option" where
  "effect_names e =
     (case se_target e of
        Relocate input \<Rightarrow> Some (ri_effect_names input)
      | RelocateMaterialize input \<Rightarrow> Some (rm_effect_names input)
      | _ \<Rightarrow> None)"

definition rename_effect :: "utext \<Rightarrow> ('s, 'd, 'g, 'e, utext) sub" where
  "rename_effect nm = sub_read (\<lambda>e.
     case effect_names e of
       None \<Rightarrow> sub_ok nm
     | Some names \<Rightarrow> (case names nm of Some n \<Rightarrow> sub_ok n | None \<Rightarrow> sub_fail (MissingEffectIdentity nm)))"

definition substitute_effect_arg ::
    "(type_id \<Rightarrow> ('s, 'd, 'g, 'e, type_id) sub) \<Rightarrow> bool \<Rightarrow> effect_arg_ref \<Rightarrow> ('s, 'd, 'g, 'e, effect_arg_ref) sub" where
  "substitute_effect_arg f is_argument a =
     sub_bind sub_checkpoint (\<lambda>_.
       case a of
         ArgType t \<Rightarrow> sub_bind (if is_argument then substitute_argument f t else f t) (\<lambda>t. sub_ok (ArgType t))
       | a \<Rightarrow> sub_ok a)"

definition substitute_effect ::
    "(type_id \<Rightarrow> ('s, 'd, 'g, 'e, type_id) sub) \<Rightarrow> nat option \<Rightarrow> nat \<times> effect_ref \<Rightarrow> ('s, 'd, 'g, 'e, effect_ref) sub" where
  "substitute_effect f argument_start entry =
     (case entry of (index, effect) \<Rightarrow>
        sub_bind sub_checkpoint (\<lambda>_.
        sub_bind charge_node (\<lambda>_.
        sub_bind (charge_edges (length (ef_args effect))) (\<lambda>_.
        sub_bind (rename_effect (ef_name effect)) (\<lambda>nm.
        sub_bind (sub_map (substitute_effect_arg f (case argument_start of None \<Rightarrow> False | Some start \<Rightarrow> start \<le> index))
            (ef_args effect)) (\<lambda>args.
          sub_ok (EffectRef nm args)))))))"

fun unique_effects :: "nat \<Rightarrow> nat \<Rightarrow> effect_ref set \<Rightarrow> effect_ref list \<Rightarrow> ('s, 'd, 'g, 'e, effect_ref list) sub" where
  "unique_effects original index seen [] = sub_ok []"
| "unique_effects original index seen (effect # effects) =
     sub_bind sub_checkpoint (\<lambda>_.
     sub_bind (unique_effects original (Suc index) (insert effect seen) effects) (\<lambda>rest.
       sub_ok (if index < original \<or> effect \<notin> seen then effect # rest else rest)))"

definition substitute_effect_row ::
    "(type_id \<Rightarrow> ('s, 'd, 'g, 'e, type_id) sub) \<Rightarrow> effect_row_ref \<Rightarrow> ('s, 'd, 'g, 'e, effect_row_ref) sub" where
  "substitute_effect_row f row =
     sub_bind sub_checkpoint (\<lambda>_.
     sub_bind (expanded_row row) (\<lambda>x.
     sub_bind (sub_map (substitute_effect f (xr_argument_start x)) (enumerate 0 (rr_effects (xr_row x)))) (\<lambda>effects.
     sub_bind (unique_effects (length (rr_effects row)) 0 {} effects) (\<lambda>unique.
       sub_ok (EffectRowRef unique (rr_tail (xr_row x)))))))"

definition substitute_bound ::
    "(type_id \<Rightarrow> ('s, 'd, 'g, 'e, type_id) sub) \<Rightarrow> 's checked_spec_bound \<Rightarrow> ('s, 'd, 'g, 'e, 's checked_spec_bound) sub" where
  "substitute_bound f b = sub_read (\<lambda>e.
     case Option.bind (se_spec_identities e) (\<lambda>ids. fmlookup ids (sb_spec b)) of
       Some identity \<Rightarrow> sub_bind (sub_map f (sb_args b)) (\<lambda>args. sub_ok (SpecBound identity args))
     | None \<Rightarrow>
         if is_relocation e \<and> se_declared_spec e (sb_spec b) then sub_fail (MissingSpecIdentity (sb_spec b))
         else sub_bind (sub_map f (sb_args b)) (\<lambda>args. sub_ok (SpecBound (sb_spec b) args)))"

definition substitute_field ::
    "(type_id \<Rightarrow> ('s, 'd, 'g, 'e, type_id) sub) \<Rightarrow> field_type \<Rightarrow> ('s, 'd, 'g, 'e, field_type) sub" where
  "substitute_field f field = sub_bind (f (ft_ty field)) (\<lambda>t. sub_ok (FieldType (ft_name field) t))"

text \<open>The parts in the order of the code; \<open>None\<close> is the early return of the type itself.\<close>

definition assemble_data ::
    "(type_id \<Rightarrow> ('s, 'd, 'g, 'e, type_id) sub) \<Rightarrow> type_id \<Rightarrow> 's ty \<Rightarrow> ('s, 'd, 'g, 'e, 's ty option) sub" where
  "assemble_data f t d = sub_read (\<lambda>e.
     let one = (\<lambda>make x. sub_bind (f x) (\<lambda>x. sub_ok (Some (make x))));
         two = (\<lambda>make x y. sub_bind (f x) (\<lambda>x. sub_bind (f y) (\<lambda>y. sub_ok (Some (make x y)))));
         row = substitute_effect_row f;
         identity = (if is_relocation e then sub_fail (MissingTypeIdentity t) else sub_ok None);
         atom = sub_ok (if is_relocation e then Some d else None)
     in case d of
        TyExistential bounds \<Rightarrow> sub_bind (sub_map (substitute_bound f) bounds) (\<lambda>bounds. sub_ok (Some (TyExistential bounds)))
      | TyArray x \<Rightarrow> one TyArray x
      | TyList x \<Rightarrow> one TyList x
      | TyMap k v \<Rightarrow> two TyMap k v
      | TySet x \<Rightarrow> one TySet x
      | TyRange x \<Rightarrow> one TyRange x
      | TySlice x \<Rightarrow> one TySlice x
      | TyOption x \<Rightarrow> one TyOption x
      | TyResult ok err \<Rightarrow> two TyResult ok err
      | TyRecord fs \<Rightarrow> sub_bind (sub_map (substitute_field f) fs) (\<lambda>fs. sub_ok (Some (TyRecord fs)))
      | TyTuple xs \<Rightarrow> sub_bind (sub_map f xs) (\<lambda>xs. sub_ok (Some (TyTuple xs)))
      | TyFunction input output effects \<Rightarrow>
          sub_bind (sub_map f input) (\<lambda>input.
          sub_bind (f output) (\<lambda>output.
          sub_bind (sub_option row effects) (\<lambda>effects. sub_ok (Some (TyFunction input output effects)))))
      | TyHandler handled produced result \<Rightarrow>
          sub_bind (row handled) (\<lambda>handled.
          sub_bind (case produced of
                      ProducedInfer \<Rightarrow> sub_ok ProducedInfer
                    | ProducedExplicit r \<Rightarrow> sub_bind (row r) (\<lambda>r. sub_ok (ProducedExplicit r))) (\<lambda>produced.
          sub_bind (sub_option f result) (\<lambda>result. sub_ok (Some (TyHandler handled produced result)))))
      | TyTask output effects \<Rightarrow>
          sub_bind (f output) (\<lambda>output. sub_bind (row effects) (\<lambda>effects. sub_ok (Some (TyTask output effects))))
      | TyContinuation output answer residual \<Rightarrow>
          sub_bind (f output) (\<lambda>output.
          sub_bind (sub_option f answer) (\<lambda>answer.
          sub_bind (sub_option row residual) (\<lambda>residual. sub_ok (Some (TyContinuation output answer residual)))))
      | TyApplied constructor args \<Rightarrow>
          sub_bind (if is_relocation e then f constructor else sub_ok constructor) (\<lambda>constructor.
          sub_bind (sub_map f args) (\<lambda>args. sub_ok (Some (TyApplied constructor args))))
      | TyRefined base predicate \<Rightarrow>
          if is_relocation e then sub_fail (MissingTypeIdentity t) else one (\<lambda>base. TyRefined base predicate) base
      | TyTrust wrapper x \<Rightarrow> one (TyTrust wrapper) x
      | TySchema x \<Rightarrow> one TySchema x
      | TyMessage x \<Rightarrow> one TyMessage x
      | TyMemorySelection x \<Rightarrow> one TyMemorySelection x
      | TyStore k v \<Rightarrow> two TyStore k v
      | TyMemoryRegion x \<Rightarrow> one TyMemoryRegion x
      | TyResourceHandle h \<Rightarrow>
          (case h of
             RhMemoryRegion x \<Rightarrow> one (\<lambda>x. TyResourceHandle (RhMemoryRegion x)) x
           | RhExternalTool x \<Rightarrow> one (\<lambda>x. TyResourceHandle (RhExternalTool x)) x
           | RhOther nm args \<Rightarrow> sub_bind (sub_map f args) (\<lambda>args. sub_ok (Some (TyResourceHandle (RhOther nm args)))))
      | TyPrimitive _ \<Rightarrow> atom
      | TySchedulerHandle \<Rightarrow> atom
      | TyPrompt \<Rightarrow> atom
      | TyPromptPart \<Rightarrow> atom
      | TyMemoryPlace _ \<Rightarrow> atom
      | TyVar _ \<Rightarrow> if se_closed_named_types e \<noteq> None then sub_fail (UnresolvedParameter t) else identity
      | TyNamed _ _ \<Rightarrow>
          if (case se_closed_named_types e of None \<Rightarrow> False | Some known \<Rightarrow> \<not> known t)
          then sub_fail (UnresolvedParameter t) else identity
      | TyIntegerLiteral _ \<Rightarrow> identity
      | TyEnum _ \<Rightarrow> identity
      | TyNominal _ \<Rightarrow> identity)"

definition place_type :: "('s::linorder) ty \<Rightarrow> ('s, 'd, 'g, 'e, type_id) sub" where
  "place_type specialized e =
     (case se_target e of
        Materialize interner \<Rightarrow>
          (case interner_intern specialized interner of
             (i, interner) \<Rightarrow> Some (Inr i, e\<lparr>se_target := Materialize interner\<rparr>))
      | Existing s \<Rightarrow>
          (case (case se_existing_lookup e of
                   Some lookup \<Rightarrow> lookup_index_get (se_hash e) lookup s specialized
                 | None \<Rightarrow> map_option fst (find (\<lambda>(_, candidate). candidate = specialized) (store_iter s))) of
             Some i \<Rightarrow> Some (Inr i, e)
           | None \<Rightarrow> Some (Inl (UnmaterializedType specialized), e))
      | Relocate input \<Rightarrow>
          (case lookup_index_get (se_hash e) (ri_target_types input) (ri_target input) specialized of
             Some i \<Rightarrow> Some (Inr i, e)
           | None \<Rightarrow> Some (Inl (UnmaterializedType specialized), e))
      | RelocateMaterialize input \<Rightarrow>
          (case interner_intern specialized (rm_target input) of
             (i, interner) \<Rightarrow> Some (Inr i, e\<lparr>se_target := RelocateMaterialize (input\<lparr>rm_target := interner\<rparr>)\<rparr>)))"

definition materialize :: "type_id \<Rightarrow> ('s::linorder) ty \<Rightarrow> ('s, 'd, 'g, 'e, type_id) sub" where
  "materialize original specialized = sub_read (\<lambda>e.
     if is_relocation e then place_type specialized
     else sub_bind (require_type original) (\<lambda>d. if d = specialized then sub_ok original else place_type specialized))"

definition target_has :: "('s, 'd, 'g, 'e) type_substitution_engine \<Rightarrow> type_id \<Rightarrow> bool" where
  "target_has e t =
     (case se_target e of
        Relocate input \<Rightarrow> store_get (ri_target input) t \<noteq> None
      | RelocateMaterialize input \<Rightarrow> store_get (in_store (rm_target input)) t \<noteq> None
      | _ \<Rightarrow> False)"

definition assemble :: "(type_id \<Rightarrow> ('s::linorder, 'd, 'g, 'e, type_id) sub) \<Rightarrow> type_id \<Rightarrow> ('s, 'd, 'g, 'e, type_id) sub" where
  "assemble f t =
     sub_bind (require_type t) (\<lambda>d. sub_read (\<lambda>e.
       case mapped_declaration e t of
         Some mapped \<Rightarrow> if target_has e mapped then sub_ok mapped else sub_fail (MissingType mapped)
       | None \<Rightarrow>
           (case proper_replacement e t d of
              Some r \<Rightarrow> if is_named d then substitute_argument f r else f r
            | None \<Rightarrow>
                sub_bind (assemble_data f t d) (\<lambda>specialized.
                  case specialized of None \<Rightarrow> sub_ok t | Some specialized \<Rightarrow> materialize t specialized))))"

section \<open>The worklist\<close>

definition check_expansion_depth :: "('s, 'd, 'g, 'e, unit) sub" where
  "check_expansion_depth = sub_read (\<lambda>e.
     case se_expansion_depth e of
       Some limit \<Rightarrow> if limit \<le> card (se_active e) then sub_fail (ExpansionDepth limit) else sub_ok ()
     | None \<Rightarrow> sub_ok ())"

definition record_depth :: "type_id \<Rightarrow> ('s, 'd, 'g, 'e, unit) sub" where
  "record_depth current = sub_read (\<lambda>e.
     case se_expansion_depth e of
       None \<Rightarrow> sub_ok ()
     | Some limit \<Rightarrow>
         sub_bind (dependencies current) (\<lambda>ds e.
           let depth = 1 + fold max (List.map_filter (se_memo_depths e) ds) 0 in
           if depth > limit then Some (Inl (ExpansionDepth limit), e)
           else Some (Inr (), e\<lparr>se_memo_depths := (se_memo_depths e)(current \<mapsto> depth)\<rparr>)))"

definition finish_type ::
    "(type_id \<Rightarrow> ('s::linorder, 'd, 'g, 'e, type_id) sub) \<Rightarrow> type_id \<Rightarrow> ('s, 'd, 'g, 'e, unit) sub" where
  "finish_type f current =
     sub_bind (record_depth current) (\<lambda>_.
     sub_bind (assemble f current) (\<lambda>specialized e.
       Some (Inr (), e\<lparr>se_active := se_active e - {current}, se_memo := (se_memo e)(current \<mapsto> specialized)\<rparr>)))"

text \<open>Entering a type: the state counts it as active before its dependencies are known, so the
  activation stands even if they fail.\<close>

definition enter_type :: "type_id \<Rightarrow> ('s, 'd, 'g, 'e, unit) sub" where
  "enter_type current = sub_read (\<lambda>e.
     if current \<in> se_active e then sub_fail (CyclicType current)
     else sub_bind check_expansion_depth (\<lambda>_. sub_bind charge_node (\<lambda>_ e.
       Some (Inr (), e\<lparr>se_active := insert current (se_active e)\<rparr>))))"

definition expand_type :: "type_id \<Rightarrow> ('s, 'd, 'g, 'e, type_id list) sub" where
  "expand_type current =
     sub_bind (dependencies current) (\<lambda>ds. sub_bind (charge_edges (length ds)) (\<lambda>_. sub_ok ds))"

text \<open>The loop, with the types it has entered. The first argument stands for the nested calls.\<close>

fun substitute_loop ::
    "(type_id \<Rightarrow> ('s::linorder, 'd, 'g, 'e, type_id) sub) \<Rightarrow> nat \<Rightarrow> (type_id \<times> bool) list \<Rightarrow> type_id list \<Rightarrow>
     ('s, 'd, 'g, 'e) type_substitution_engine \<Rightarrow>
     ((('s, 'e) type_substitution_error + unit) \<times> type_id list \<times> ('s, 'd, 'g, 'e) type_substitution_engine) option" where
  "substitute_loop f 0 pending entered e = None"
| "substitute_loop f (Suc n) [] entered e = Some (Inr (), entered, e)"
| "substitute_loop f (Suc n) ((current, finish) # pending) entered e =
     (case sub_checkpoint e of
        None \<Rightarrow> None
      | Some (Inl err, e) \<Rightarrow> Some (Inl err, entered, e)
      | Some (Inr _, e) \<Rightarrow>
          if se_memo e current \<noteq> None then substitute_loop f n pending entered e
          else if finish then
            (case finish_type f current e of
               None \<Rightarrow> None
             | Some (Inl err, e) \<Rightarrow> Some (Inl err, entered, e)
             | Some (Inr _, e) \<Rightarrow> substitute_loop f n pending entered e)
          else
            (case enter_type current e of
               None \<Rightarrow> None
             | Some (Inl err, e) \<Rightarrow> Some (Inl err, entered, e)
             | Some (Inr _, e) \<Rightarrow>
                 (case expand_type current e of
                    None \<Rightarrow> None
                  | Some (Inl err, e) \<Rightarrow> Some (Inl err, entered @ [current], e)
                  | Some (Inr ds, e) \<Rightarrow>
                      substitute_loop f n (map (\<lambda>d. (d, False)) ds @ (current, True) # pending) (entered @ [current]) e)))"

definition substitute_with ::
    "(type_id \<Rightarrow> ('s::linorder, 'd, 'g, 'e, type_id) sub) \<Rightarrow> nat \<Rightarrow> type_id \<Rightarrow> ('s, 'd, 'g, 'e, type_id) sub" where
  "substitute_with f n t =
     sub_bind sub_checkpoint (\<lambda>_ e.
       case se_memo e t of
         Some specialized \<Rightarrow> Some (Inr specialized, e)
       | None \<Rightarrow>
           (case substitute_loop f n [(t, False)] [] e of
              None \<Rightarrow> None
            | Some (result, entered, e) \<Rightarrow>
                Some ((case result of
                         Inl err \<Rightarrow> Inl err
                       | Inr _ \<Rightarrow> (case se_memo e t of Some specialized \<Rightarrow> Inr specialized | None \<Rightarrow> Inl (MissingType t))),
                      e\<lparr>se_active := se_active e - set entered\<rparr>)))"

fun substitute :: "nat \<Rightarrow> type_id \<Rightarrow> ('s::linorder, 'd, 'g, 'e, type_id) sub" where
  "substitute 0 t e = None"
| "substitute (Suc n) t e = substitute_with (substitute n) n t e"

section \<open>Closed arguments\<close>

definition require_closed_argument_row :: "effect_row_ref \<Rightarrow> ('s, 'd, 'g, 'e, unit) sub" where
  "require_closed_argument_row row =
     (case rr_tail row of Some tail \<Rightarrow> sub_fail (OpenEffectRow tail) | None \<Rightarrow> sub_ok ())"

definition require_closed_data :: "type_id \<Rightarrow> 's ty \<Rightarrow> ('s, 'd, 'g, 'e, unit) sub" where
  "require_closed_data current d =
     (case d of
        TyVar _ \<Rightarrow> sub_fail (UnresolvedType current)
      | TyNamed _ _ \<Rightarrow> sub_fail (UnresolvedType current)
      | TyFunction _ _ effects \<Rightarrow>
          (case effects of None \<Rightarrow> sub_fail (UnresolvedType current) | Some row \<Rightarrow> require_closed_argument_row row)
      | TyHandler handled produced _ \<Rightarrow>
          sub_bind (require_closed_argument_row handled) (\<lambda>_.
            case produced of ProducedExplicit row \<Rightarrow> require_closed_argument_row row | ProducedInfer \<Rightarrow> sub_ok ())
      | TyTask _ effects \<Rightarrow> require_closed_argument_row effects
      | TyContinuation _ _ residual \<Rightarrow>
          (case residual of Some row \<Rightarrow> require_closed_argument_row row | None \<Rightarrow> sub_ok ())
      | _ \<Rightarrow> sub_ok ())"

definition poll_budget :: "('s, 'd, 'g, 'e, unit) sub" where
  "poll_budget = sub_read (\<lambda>e. case se_budget e of None \<Rightarrow> sub_ok () | Some b \<Rightarrow> budget_checkpoint b)"

definition visit_closed :: "type_id \<Rightarrow> ('s, 'd, 'g, 'e, type_id list) sub" where
  "visit_closed current =
     sub_bind charge_node (\<lambda>_.
     sub_bind (require_type current) (\<lambda>d.
     sub_bind (require_closed_data current d) (\<lambda>_.
       expand_type current)))"

fun validate_loop :: "nat \<Rightarrow> type_id list \<Rightarrow> type_id set \<Rightarrow> ('s, 'd, 'g, 'e, unit) sub" where
  "validate_loop 0 pending visited e = None"
| "validate_loop (Suc n) [] visited e = Some (Inr (), e)"
| "validate_loop (Suc n) (current # pending) visited e =
     (case poll_budget e of
        None \<Rightarrow> None
      | Some (Inl err, e) \<Rightarrow> Some (Inl err, e)
      | Some (Inr _, e) \<Rightarrow>
          if current \<in> visited then validate_loop n pending visited e
          else
            (case visit_closed current e of
               None \<Rightarrow> None
             | Some (Inl err, e) \<Rightarrow> Some (Inl err, e)
             | Some (Inr ds, e) \<Rightarrow> validate_loop n (rev ds @ pending) (insert current visited) e))"

definition validate_closed_argument :: "nat \<Rightarrow> type_id \<Rightarrow> ('s, 'd, 'g, 'e, unit) sub" where
  "validate_closed_argument n t = validate_loop n [t] {}"

fun validate_each :: "('a \<Rightarrow> ('s, 'd, 'g, 'e, unit) sub) \<Rightarrow> 'a list \<Rightarrow> ('s, 'd, 'g, 'e, unit) sub" where
  "validate_each f [] = sub_ok ()"
| "validate_each f (x # xs) = sub_bind (f x) (\<lambda>_. validate_each f xs)"

definition validate_closed_effect_argument :: "nat \<Rightarrow> effect_row_ref \<Rightarrow> ('s, 'd, 'g, 'e, unit) sub" where
  "validate_closed_effect_argument n row =
     sub_bind (require_closed_argument_row row) (\<lambda>_.
       validate_each (\<lambda>effect.
         sub_bind charge_node (\<lambda>_.
         sub_bind (charge_edges (length (ef_args effect))) (\<lambda>_.
           validate_each (validate_closed_argument n) (effect_type_args effect)))) (rr_effects row))"

section \<open>Entry points\<close>

text \<open>The parameters of a generic declaration, bound to the arguments of an application.\<close>

fun application_parameters ::
    "('s, 'd, 'g) code_api \<Rightarrow> type_id \<Rightarrow> 'd \<Rightarrow> (nat \<times> type_id) list \<Rightarrow>
     ('g canonical_type_parameter_identity, type_id) fmap \<Rightarrow>
     ('s, 'e) type_substitution_error + ('g canonical_type_parameter_identity, type_id) fmap" where
  "application_parameters A constructor owner [] acc = Inr acc"
| "application_parameters A constructor owner ((index, t) # rest) acc =
     (if index \<ge> 2 ^ 32 then Inl (InvalidApplication constructor)
      else case parameter_new A owner index of
        Inl _ \<Rightarrow> Inl (InvalidApplication constructor)
      | Inr identity \<Rightarrow> application_parameters A constructor owner rest (fmupd identity t acc))"

definition canonical_parameters_for_application ::
    "('s, 'd, 'g) code_api \<Rightarrow> ('s, 'd, 'g) type_store \<Rightarrow> type_id \<Rightarrow> type_id list \<Rightarrow>
     ('s, 'e) type_substitution_error + ('g canonical_type_parameter_identity, type_id) fmap" where
  "canonical_parameters_for_application A s constructor arguments =
     (case nominal_identity s constructor of
        None \<Rightarrow> Inr fmempty
      | Some owner \<Rightarrow> application_parameters A constructor owner (enumerate 0 arguments) fmempty)"

definition substitute_named_params where
  "substitute_named_params n h declared interner t substitutions =
     substitute n t (materializing h declared interner substitutions None)"

definition substitute_type_params where
  "substitute_type_params n h declared interner t named variables =
     substitute n t (materializing h declared interner named (Some variables))"

definition substitute_effect_row_params where
  "substitute_effect_row_params n h declared interner row named variables =
     substitute_effect_row (substitute n) row (materializing h declared interner named (Some variables))"

definition substitute_named_params_in_store where
  "substitute_named_params_in_store n h declared s t substitutions =
     substitute n t (existing h declared s substitutions)"

end
