(* ===== verification/Etas_Substitute_Facts.thy ===== *)
theory Etas_Substitute_Facts
  imports Etas_Substitute
begin

text \<open>What every step of a substitution keeps: the locales \<open>engine_steps\<close> and \<open>engine_relation\<close> lift a
  relation from the elementary steps to the whole engine, and the order on engine states is an
  instance. Then the relation \<open>substitutes\<close>, which says what the result of a substitution has to be.\<close>

section \<open>What every step keeps\<close>

definition preserves ::
    "(('s, 'd, 'g, 'e) type_substitution_engine \<Rightarrow> ('s, 'd, 'g, 'e) type_substitution_engine \<Rightarrow> bool) \<Rightarrow>
     ('s, 'd, 'g, 'e, 'a) sub \<Rightarrow> bool" where
  "preserves R m \<longleftrightarrow> (\<forall>e result e'. m e = Some (result, e') \<longrightarrow> R e e')"

lemma preservesD: "preserves R m \<Longrightarrow> m e = Some (result, e') \<Longrightarrow> R e e'"
  by (simp add: preserves_def)

lemma preserves_read: "(\<And>e. preserves R (m e)) \<Longrightarrow> preserves R (sub_read m)"
  by (auto simp: preserves_def sub_read_def)

lemma sub_bind_cases:
  assumes "sub_bind m f e = Some (result, e')"
  obtains err where "m e = Some (Inl err, e')" "result = Inl err"
  | x e1 where "m e = Some (Inr x, e1)" "f x e1 = Some (result, e')"
  using assms by (auto simp: sub_bind_def split: option.splits prod.splits sum.splits)

text \<open>
  A relation between engine states that holds across every elementary step holds across every
  compound one. For the steps that only look at types these are a poll and a charge that stays within
  the limit; assembly also interns types, and substitutes arguments with the bindings set aside.
\<close>

locale engine_steps =
  fixes R :: "('s::linorder, 'd, 'g, 'e) type_substitution_engine \<Rightarrow> ('s, 'd, 'g, 'e) type_substitution_engine \<Rightarrow> bool"
  assumes refl: "R e e"
    and trans: "R e1 e2 \<Longrightarrow> R e2 e3 \<Longrightarrow> R e1 e3"
    and poll: "R e (e\<lparr>se_polls := se_polls e + 1\<rparr>)"
    and nodes: "se_budget e = Some b \<Longrightarrow> bu_nodes b + 1 \<le> bu_max_nodes b \<Longrightarrow>
      R e (e\<lparr>se_budget := Some (b\<lparr>bu_nodes := bu_nodes b + 1\<rparr>)\<rparr>)"
    and edges: "se_budget e = Some b \<Longrightarrow> bu_edges b + k \<le> bu_max_edges b \<Longrightarrow>
      R e (e\<lparr>se_budget := Some (b\<lparr>bu_edges := bu_edges b + k\<rparr>)\<rparr>)"
begin

lemma preserves_ok [intro!]: "preserves R (sub_ok x)"
  by (simp add: preserves_def sub_ok_def refl)

lemma preserves_fail [intro!]: "preserves R (sub_fail x)"
  by (simp add: preserves_def sub_fail_def refl)

lemma preserves_bind [intro]: "preserves R m \<Longrightarrow> (\<And>x. preserves R (f x)) \<Longrightarrow> preserves R (sub_bind m f)"
  unfolding preserves_def by (blast elim: sub_bind_cases intro: trans)

lemma preserves_map [intro]: "(\<And>x. x \<in> set xs \<Longrightarrow> preserves R (f x)) \<Longrightarrow> preserves R (sub_map f xs)"
  by (induction xs) auto

lemma preserves_option [intro]: "(\<And>x. preserves R (f x)) \<Longrightarrow> preserves R (sub_option f x)"
  by (auto simp: sub_option_def split: option.split)

lemma preserves_if [intro]: "(b \<Longrightarrow> preserves R m) \<Longrightarrow> (\<not> b \<Longrightarrow> preserves R m') \<Longrightarrow> preserves R (if b then m else m')"
  by simp

lemma preserves_poll [intro!]: "preserves R (sub_poll control)"
  by (auto simp: preserves_def sub_poll_def poll [simplified] refl split: option.splits)

lemma preserves_checkpoint [intro!]: "preserves R sub_checkpoint" "preserves R (budget_checkpoint b)"
  unfolding sub_checkpoint_def budget_checkpoint_def by (auto intro!: preserves_read split: option.split)

text \<open>A poll leaves the budget alone, so the budget read before it is the one that is charged.\<close>

lemma poll_budget_same: "budget_checkpoint b e = Some (result, e') \<Longrightarrow> se_budget e' = se_budget e"
  by (auto simp: budget_checkpoint_def sub_poll_def split: option.splits)

lemma preserves_charge_node [intro!]: "preserves R charge_node"
proof -
  have "R e e'" if "se_budget e = Some b" "budget_charge (lit ''nodes'') bu_nodes (\<lambda>n. bu_nodes_update (\<lambda>_. n)) 1 (bu_max_nodes b) b e =
      Some (result, e')" for e e' b and result :: "('s, 'e) type_substitution_error + unit"
  proof -
    from that(2) show ?thesis unfolding budget_charge_def
    proof (cases rule: sub_bind_cases)
      case (2 x e1)
      have "R e e1" using preservesD [OF preserves_checkpoint(2)] 2(1) by blast
      moreover have "R e1 e'"
        using 2(2) nodes [of e1 b] poll_budget_same [OF 2(1)] that(1) by (auto simp: Let_def refl split: if_splits)
      ultimately show ?thesis by (rule trans)
    qed (use preservesD [OF preserves_checkpoint(2)] in blast)
  qed
  then show ?thesis unfolding charge_node_def preserves_def sub_read_def
    by (auto simp: sub_ok_def refl split: option.splits)
qed

lemma preserves_charge_edges [intro!]: "preserves R (charge_edges k)"
proof -
  have "R e e'" if "se_budget e = Some b" "budget_charge (lit ''edges'') bu_edges (\<lambda>n. bu_edges_update (\<lambda>_. n)) k (bu_max_edges b) b e =
      Some (result, e')" for e e' b and result :: "('s, 'e) type_substitution_error + unit"
  proof -
    from that(2) show ?thesis unfolding budget_charge_def
    proof (cases rule: sub_bind_cases)
      case (2 x e1)
      have "R e e1" using preservesD [OF preserves_checkpoint(2)] 2(1) by blast
      moreover have "R e1 e'"
        using 2(2) edges [of e1 b k] poll_budget_same [OF 2(1)] that(1) by (auto simp: Let_def refl split: if_splits)
      ultimately show ?thesis by (rule trans)
    qed (use preservesD [OF preserves_checkpoint(2)] in blast)
  qed
  then show ?thesis unfolding charge_edges_def preserves_def sub_read_def
    by (auto simp: sub_ok_def refl split: option.splits)
qed

lemma preserves_require [intro!]: "preserves R (require_type t)"
  unfolding require_type_def by (auto intro!: preserves_read split: option.split)

lemma preserves_equations: "expand_equations equations row visited e = Some (result, e') \<Longrightarrow> R e e'"
proof (induction equations row visited e arbitrary: result e' rule: expand_equations.induct)
  case (1 equations row visited e)
  have charge: "preserves R (charge_equation b)" for b unfolding charge_equation_def by auto
  show ?case
  proof (cases "next_equation equations row")
    case None
    with 1 show ?thesis by (auto simp: expand_equations.simps [of equations row visited e] refl)
  next
    case (Some tb)
    obtain tail b where tb: "tb = (tail, b)" by force
    obtain r e1 where c: "charge_equation b e = Some (r, e1)"
      using 1(3) Some tb by (auto simp: expand_equations.simps [of equations row visited e] split: option.splits)
    have "R e e1" using preservesD [OF charge c] .
    moreover have "R e1 e'"
      using 1 Some tb c refl [of e1] by (auto simp: expand_equations.simps [of equations row visited e] split: sum.splits if_splits option.splits)
    ultimately show ?thesis by (rule trans)
  qed
qed

lemma preserves_expanded_row [intro!]: "preserves R (expanded_row row)"
proof -
  have "preserves R (expand_equations equations row visited)" for equations row visited
    unfolding preserves_def using preserves_equations by blast
  then show ?thesis unfolding expanded_row_def expand_arguments_def
    by (intro preserves_read preserves_if preserves_bind) (auto split: option.split effect_row_substitution.split)
qed

lemma preserves_row_dependencies [intro!]:
  "preserves R (row_dependencies row)" "preserves R (row_option_dependencies row')"
  unfolding row_dependencies_def row_option_dependencies_def by (auto split: option.split)

lemma preserves_dependencies [intro!]: "preserves R (dependencies t)"
proof -
  have "preserves R (data_dependencies relocation d)" for relocation d
    unfolding data_dependencies_def by (auto split: ty.split resource_handle_type.split handler_produced_effects.split)
  then show ?thesis unfolding dependencies_def by (auto intro!: preserves_read split: option.split)
qed

lemma preserves_expand [intro!]: "preserves R (expand_type c)"
  unfolding expand_type_def by auto

lemma preserves_visit: "preserves R (visit_closed t)"
proof -
  have "preserves R (require_closed_argument_row row)" for row
    unfolding require_closed_argument_row_def by (auto split: option.split)
  then have "preserves R (require_closed_data t d)" for d
    unfolding require_closed_data_def by (auto split: ty.split option.split handler_produced_effects.split)
  then show ?thesis unfolding visit_closed_def by auto
qed

lemma preserves_validate: "validate_loop n pending visited e = Some (result, e') \<Longrightarrow> R e e'"
proof (induction n arbitrary: pending visited e)
  case (Suc n)
  have poll: "preserves R poll_budget" unfolding poll_budget_def by (auto intro!: preserves_read split: option.split)
  show ?case
  proof (cases pending)
    case Nil
    with Suc.prems show ?thesis by (simp add: refl)
  next
    case (Cons current rest)
    with Suc.prems obtain r e1 where r: "poll_budget e = Some (r, e1)" by (auto split: option.splits)
    have "R e e1" using preservesD [OF poll r] .
    moreover have "R e1 e'"
      using Suc.prems Suc.IH r Cons preservesD [OF preserves_visit] refl [of e1]
      by (auto split: sum.splits if_splits option.splits prod.splits) (blast intro: trans)
    ultimately show ?thesis by (rule trans)
  qed
qed simp

end

locale engine_relation = engine_steps +
  assumes interned: "se_target e = Materialize x \<Longrightarrow> R e (e\<lparr>se_target := Materialize (snd (interner_intern t x))\<rparr>)"
    and relocated: "se_target e = RelocateMaterialize y \<Longrightarrow>
      R e (e\<lparr>se_target := RelocateMaterialize (y\<lparr>rm_target := snd (interner_intern t (rm_target y))\<rparr>)\<rparr>)"
    and bracket: "R (aside e) e' \<Longrightarrow> R e (restored e e')"

context engine_relation
begin

lemma preserves_argument:
  assumes "preserves R (f t)"
  shows "preserves R (substitute_argument f t)"
proof -
  have "R e e'" if "(\<lambda>e. if se_variables e = None \<and> se_closed_named_types e = None then Some (Inr t, e)
       else (case f t (aside e) of None \<Rightarrow> None | Some (result, e') \<Rightarrow> Some (result, restored e e'))) e = Some (result, e')" for e result e'
    using that preservesD [OF assms] by (auto simp: refl bracket split: if_splits option.splits)
  then show ?thesis unfolding substitute_argument_def by (intro preserves_bind preserves_require) (simp add: preserves_def)
qed

lemma preserves_unique: "preserves R (unique_effects original index seen effects)"
  by (induction effects arbitrary: index seen) auto

lemma preserves_effect_row:
  assumes "\<And>t. preserves R (f t)"
  shows "preserves R (substitute_effect_row f row)"
proof -
  have "preserves R (substitute_effect_arg f b a)" for b a
    unfolding substitute_effect_arg_def by (auto intro!: assms preserves_argument split: effect_arg_ref.split)
  moreover have "preserves R (rename_effect nm)" for nm
    unfolding rename_effect_def by (auto intro!: preserves_read split: option.split)
  ultimately have "preserves R (substitute_effect f start entry)" for start entry
    unfolding substitute_effect_def by (auto intro!: preserves_bind preserves_map split: prod.split)
  then show ?thesis unfolding substitute_effect_row_def
    by (intro preserves_bind preserves_map preserves_checkpoint preserves_expanded_row preserves_unique preserves_ok)
qed

lemma preserves_bound:
  assumes "\<And>t. preserves R (f t)"
  shows "preserves R (substitute_bound f b)"
  unfolding substitute_bound_def by (auto intro!: preserves_read preserves_bind preserves_map assms split: option.split)

lemma preserves_assemble_data:
  assumes "\<And>t. preserves R (f t)"
  shows "preserves R (assemble_data f t d)"
proof -
  have "preserves R (substitute_field f field)" for field
    unfolding substitute_field_def by (auto intro!: assms)
  note steps = assms this preserves_bound [OF assms] preserves_effect_row [OF assms]
  show ?thesis
  proof (cases d)
    case (TyHandler handled produced result)
    then show ?thesis unfolding assemble_data_def Let_def
      by (auto intro!: preserves_read steps preserves_bind split: handler_produced_effects.split)
  next
    case (TyResourceHandle h)
    then show ?thesis unfolding assemble_data_def Let_def
      by (auto intro!: preserves_read steps preserves_bind split: resource_handle_type.split)
  qed (auto simp: assemble_data_def Let_def intro!: preserves_read steps preserves_bind preserves_map preserves_option preserves_if)
qed

lemma preserves_place: "preserves R (place_type t)"
proof -
  have "R e e'" if "place_type t e = Some (result, e')" for e result e'
  proof (cases "se_target e")
    case (Materialize x)
    with that interned [OF Materialize, of t] show ?thesis by (auto simp: place_type_def split: prod.splits)
  next
    case (RelocateMaterialize x)
    with that relocated [OF RelocateMaterialize, of t] show ?thesis by (auto simp: place_type_def split: prod.splits)
  qed (use that in \<open>auto simp: place_type_def refl split: option.splits\<close>)
  then show ?thesis by (simp add: preserves_def)
qed

lemma preserves_materialize: "preserves R (materialize original t)"
  unfolding materialize_def by (auto intro!: preserves_read preserves_place)

lemma preserves_assemble:
  assumes "\<And>t. preserves R (f t)"
  shows "preserves R (assemble f t)"
  unfolding assemble_def
  by (intro preserves_bind preserves_require preserves_read)
    (auto intro!: assms preserves_argument preserves_assemble_data preserves_materialize split: option.split)

end

section \<open>The order on engine states\<close>

definition store_le :: "('s, 'd, 'g) type_store \<Rightarrow> ('s, 'd, 'g) type_store \<Rightarrow> bool" where
  "store_le s s' \<longleftrightarrow> (\<forall>i d. store_get s i = Some d \<longrightarrow> store_get s' i = Some d) \<and> store_len s \<le> store_len s' \<and>
     parameter_identity s' = parameter_identity s \<and> nominal_identity s' = nominal_identity s"

definition interner_le :: "('s::linorder, 'd, 'g) type_interner \<Rightarrow> ('s, 'd, 'g) type_interner \<Rightarrow> bool" where
  "interner_le x x' \<longleftrightarrow> store_le (in_store x) (in_store x') \<and>
     (\<forall>A. interner_ok A x \<longrightarrow> store_len (in_store x') < 2 ^ 32 \<longrightarrow> interner_ok A x')"

fun target_le :: "('s::linorder, 'd, 'g) substitution_target \<Rightarrow> ('s, 'd, 'g) substitution_target \<Rightarrow> bool" where
  "target_le (Materialize x) (Materialize x') = interner_le x x'"
| "target_le (RelocateMaterialize x) (RelocateMaterialize x') \<longleftrightarrow>
     x' = x\<lparr>rm_target := rm_target x'\<rparr> \<and> interner_le (rm_target x) (rm_target x')"
| "target_le t t' \<longleftrightarrow> t = t'"

fun work_le :: "'e type_substitution_budget option \<Rightarrow> 'e type_substitution_budget option \<Rightarrow> bool" where
  "work_le None b' \<longleftrightarrow> b' = None"
| "work_le (Some b) b' \<longleftrightarrow> (\<exists>c. b' = Some c \<and> c = b\<lparr>bu_nodes := bu_nodes c, bu_edges := bu_edges c\<rparr> \<and>
     bu_nodes b \<le> bu_nodes c \<and> bu_edges b \<le> bu_edges c \<and>
     (bu_nodes b \<le> bu_max_nodes b \<longrightarrow> bu_nodes c \<le> bu_max_nodes b) \<and>
     (bu_edges b \<le> bu_max_edges b \<longrightarrow> bu_edges c \<le> bu_max_edges b))"

text \<open>The settings of the engine are everything else.\<close>

definition same_settings ::
    "('s, 'd, 'g, 'e) type_substitution_engine \<Rightarrow> ('s, 'd, 'g, 'e) type_substitution_engine \<Rightarrow> bool" where
  "same_settings e e' \<longleftrightarrow>
     e' = e\<lparr>se_target := se_target e', se_active := se_active e', se_memo := se_memo e', se_memo_depths := se_memo_depths e',
       se_budget := se_budget e', se_polls := se_polls e'\<rparr>"

text \<open>Across a step that is not part of the worklist itself: results are kept and no active type
  gets one.\<close>

definition engine_grows ::
    "('s::linorder, 'd, 'g, 'e) type_substitution_engine \<Rightarrow> ('s, 'd, 'g, 'e) type_substitution_engine \<Rightarrow> bool" where
  "engine_grows e e' \<longleftrightarrow> same_settings e e' \<and> target_le (se_target e) (se_target e') \<and> work_le (se_budget e) (se_budget e') \<and>
     se_polls e \<le> se_polls e' \<and> se_memo e \<subseteq>\<^sub>m se_memo e'"

definition engine_le ::
    "('s::linorder, 'd, 'g, 'e) type_substitution_engine \<Rightarrow> ('s, 'd, 'g, 'e) type_substitution_engine \<Rightarrow> bool" where
  "engine_le e e' \<longleftrightarrow> engine_grows e e' \<and> se_active e' = se_active e \<and>
     (\<forall>c \<in> se_active e. se_memo e c = None \<longrightarrow> se_memo e' c = None)"

lemma store_le_refl [simp]: "store_le s s"
  by (simp add: store_le_def)

lemma store_le_trans: "store_le s1 s2 \<Longrightarrow> store_le s2 s3 \<Longrightarrow> store_le s1 s3"
  by (auto simp: store_le_def)

lemma interner_le_refl [simp]: "interner_le x x"
  by (simp add: interner_le_def)

lemma interner_le_trans: "interner_le x y \<Longrightarrow> interner_le y z \<Longrightarrow> interner_le x z"
  unfolding interner_le_def using store_le_trans [of "in_store x" "in_store y" "in_store z"]
  by (auto simp: store_le_def)

lemma target_le_refl [simp]: "target_le t t"
  by (cases t) auto

lemma target_le_trans: "target_le a b \<Longrightarrow> target_le b c \<Longrightarrow> target_le a c"
proof (induction a b rule: target_le.induct)
  case (2 x x')
  then show ?case by (cases c) (auto intro: interner_le_trans, metis type_relocation_materialization_input.surjective
      type_relocation_materialization_input.update_convs(2))
qed (cases c; auto intro: interner_le_trans)+

lemma work_le_refl [simp]: "work_le b b"
  by (cases b) auto

lemma work_le_trans: "work_le a b \<Longrightarrow> work_le b c \<Longrightarrow> work_le a c"
proof (cases a)
  case (Some x)
  moreover assume "work_le a b" "work_le b c"
  ultimately obtain y z where y: "b = Some y" "y = x\<lparr>bu_nodes := bu_nodes y, bu_edges := bu_edges y\<rparr>"
      and z: "c = Some z" "z = y\<lparr>bu_nodes := bu_nodes z, bu_edges := bu_edges z\<rparr>"
      and l: "work_le (Some x) (Some y)" "work_le (Some y) (Some z)" by auto
  have "bu_max_nodes y = bu_max_nodes x" "bu_max_edges y = bu_max_edges x" using y(2) by (cases x; cases y; simp)+
  moreover have "z = x\<lparr>bu_nodes := bu_nodes z, bu_edges := bu_edges z\<rparr>" using y(2) z(2) by (cases x; cases y; cases z) simp
  ultimately show ?thesis using Some z l by auto
qed simp

lemma same_settings_refl [simp]: "same_settings e e"
  by (simp add: same_settings_def)

lemma same_settings_trans: "same_settings a b \<Longrightarrow> same_settings b c \<Longrightarrow> same_settings a c"
  unfolding same_settings_def by (cases a; cases b; cases c) simp

lemma engine_grows_refl [simp]: "engine_grows e e"
  by (simp add: engine_grows_def)

lemma engine_grows_trans: "engine_grows a b \<Longrightarrow> engine_grows b c \<Longrightarrow> engine_grows a c"
  unfolding engine_grows_def by (blast intro: same_settings_trans target_le_trans work_le_trans order.trans map_le_trans)

lemma engine_le_refl [simp]: "engine_le e e"
  by (simp add: engine_le_def)

lemma engine_le_trans: "engine_le a b \<Longrightarrow> engine_le b c \<Longrightarrow> engine_le a c"
  unfolding engine_le_def by (blast intro: engine_grows_trans)

lemma intern_le: "interner_le x (snd (interner_intern t x))"
proof -
  have "store_le (in_store x) (in_store (snd (interner_intern t x)))"
    by (auto simp: store_le_def interner_intern_def store_intern_def Let_def store_snoc store_get_snoc
        split: option.split)
  moreover have "interner_ok A (snd (interner_intern t x))"
    if "interner_ok A x" "store_len (in_store (snd (interner_intern t x))) < 2 ^ 32" for A
    using intern_ok [OF that(1)] that(2) intern_len [of x t] by simp
  ultimately show ?thesis by (simp add: interner_le_def)
qed

interpretation growth: engine_relation engine_le
proof (unfold_locales, goal_cases)
  case (4 e b)
  then show ?case by (auto simp: engine_le_def engine_grows_def same_settings_def)
next
  case (5 e b k)
  then show ?case by (auto simp: engine_le_def engine_grows_def same_settings_def)
next
  case (6 e x t)
  then show ?case using intern_le [of x t] by (simp add: engine_le_def engine_grows_def same_settings_def)
next
  case (7 e y t)
  then show ?case using intern_le [of "rm_target y" t] by (simp add: engine_le_def engine_grows_def same_settings_def)
next
  case (8 e e')
  then have s: "same_settings (aside e) e'" and r: "target_le (se_target e) (se_target e')" "work_le (se_budget e) (se_budget e')" "se_polls e \<le> se_polls e'"
    by (simp_all add: engine_le_def engine_grows_def aside_def)
  have "same_settings e (restored e e')" using s unfolding same_settings_def restored_def aside_def by (cases e; cases e') simp
  with r show ?case by (simp add: engine_le_def engine_grows_def restored_def)
next
  case (2 e1 e2 e3)
  then show ?case by (rule engine_le_trans)
qed (simp_all add: engine_le_def engine_grows_def same_settings_def)

text \<open>Steps that record nothing.\<close>

definition quiet_le ::
    "('s::linorder, 'd, 'g, 'e) type_substitution_engine \<Rightarrow> ('s, 'd, 'g, 'e) type_substitution_engine \<Rightarrow> bool" where
  "quiet_le e e' \<longleftrightarrow> engine_le e e' \<and> se_memo e' = se_memo e"

interpretation quiet: engine_relation quiet_le
proof (unfold_locales, goal_cases)
  case (2 e1 e2 e3)
  then show ?case by (auto simp: quiet_le_def intro: engine_le_trans)
next
  case (8 e e')
  then show ?case using growth.bracket [of e e'] by (simp add: quiet_le_def restored_def)
qed (auto simp: quiet_le_def intro: growth.poll [simplified] growth.nodes [simplified] growth.edges growth.interned growth.relocated)

lemma quiet_le_refl [simp]: "quiet_le e e"
  by (simp add: quiet_le_def)

lemma quiet_le_trans: "quiet_le a b \<Longrightarrow> quiet_le b c \<Longrightarrow> quiet_le a c"
  by (rule quiet.trans)

lemma quiet_leD: "quiet_le e e' \<Longrightarrow> engine_le e e'" "quiet_le e e' \<Longrightarrow> se_memo e' = se_memo e"
  by (simp_all add: quiet_le_def)

section \<open>The worklist keeps the order\<close>

lemmas growth_rules = growth.preserves_checkpoint growth.preserves_charge_node growth.preserves_charge_edges
  growth.preserves_dependencies growth.preserves_expand growth.preserves_require

lemma engine_leD:
  assumes "engine_le e e'"
  shows "engine_grows e e'" "se_active e' = se_active e" "c \<in> se_active e \<Longrightarrow> se_memo e c = None \<Longrightarrow> se_memo e' c = None"
  using assms by (auto simp: engine_le_def)

lemma engine_grows_memo: "engine_grows e e' \<Longrightarrow> se_memo e c = Some r \<Longrightarrow> se_memo e' c = Some r"
  by (auto simp: engine_grows_def map_le_def dom_def)

lemma record_depth_quiet: "preserves quiet_le (record_depth current)"
proof -
  have "preserves quiet_le (\<lambda>e. let depth = 1 + fold max (List.map_filter (se_memo_depths e) ds) 0 in
           if depth > limit then Some (Inl (ExpansionDepth limit), e)
           else Some (Inr (), e\<lparr>se_memo_depths := (se_memo_depths e)(current \<mapsto> depth)\<rparr>))" for ds limit
    by (auto simp: preserves_def Let_def quiet_le_def engine_le_def engine_grows_def same_settings_def split: if_splits)
  then show ?thesis unfolding record_depth_def
    by (auto intro!: preserves_read quiet.preserves_bind quiet.preserves_dependencies quiet.preserves_ok split: option.split)
qed

lemma record_depth_le: "preserves engine_le (record_depth current)"
  using record_depth_quiet by (auto simp: preserves_def quiet_le_def)

lemma finish_type_le:
  assumes f: "\<And>t. preserves engine_le (f t)" and run: "finish_type f current e = Some (result, e')"
  shows "(\<exists>err. result = Inl err \<and> engine_le e e') \<or>
    (result = Inr () \<and> (\<exists>e1 specialized. record_depth current e = Some (Inr (), e1) \<and>
       (\<exists>e2. assemble f current e1 = Some (Inr specialized, e2) \<and> engine_le e e2 \<and>
       e' = e2\<lparr>se_active := se_active e2 - {current}, se_memo := (se_memo e2)(current \<mapsto> specialized)\<rparr>)))"
  using run unfolding finish_type_def
proof (cases rule: sub_bind_cases)
  case (1 err)
  then show ?thesis using preservesD [OF record_depth_le] by blast
next
  case (2 x e1)
  have e1: "engine_le e e1" using preservesD [OF record_depth_le 2(1)] .
  have asm: "preserves engine_le (assemble f current)" using f by (rule growth.preserves_assemble)
  from 2(2) show ?thesis
  proof (cases rule: sub_bind_cases)
    case (1 err)
    then show ?thesis using preservesD [OF asm] e1 engine_le_trans by blast
  next
    case (2 specialized e2)
    have "engine_le e e2" using engine_le_trans [OF e1 preservesD [OF asm 2(1)]] .
    with 2 \<open>record_depth current e = Some (Inr x, e1)\<close> show ?thesis by auto
  qed
qed

definition loop_state ::
    "('s::linorder, 'd, 'g, 'e) type_substitution_engine \<Rightarrow> (type_id \<times> bool) list \<Rightarrow> type_id list \<Rightarrow>
     ('s, 'd, 'g, 'e) type_substitution_engine \<Rightarrow> bool" where
  "loop_state e0 pending entered e \<longleftrightarrow>
     engine_grows e0 e \<and> se_active e0 \<subseteq> se_active e \<and> se_active e \<subseteq> se_active e0 \<union> set entered \<and>
     set entered \<inter> se_active e0 = {} \<and>
     (\<forall>c. (c, True) \<in> set pending \<and> se_memo e c = None \<longrightarrow> c \<in> se_active e \<and> c \<in> set entered) \<and>
     (\<forall>c \<in> se_active e0. se_memo e0 c = None \<longrightarrow> se_memo e c = None)"

lemma loop_state_step: "loop_state e0 pending entered e \<Longrightarrow> engine_le e e' \<Longrightarrow> loop_state e0 pending entered e'"
  unfolding loop_state_def using engine_grows_memo [of e e'] engine_leD [of e e'] engine_grows_trans [of e0 e e']
  by (metis (no_types, lifting) not_None_eq subsetD)

lemma loop_state_pending: "loop_state e0 pending entered e \<Longrightarrow> set pending' \<subseteq> set pending \<Longrightarrow> loop_state e0 pending' entered e"
  by (auto simp: loop_state_def)

lemma loop_state_finish_grows:
  assumes l: "loop_state e0 ((current, True) # pending) entered e" and "se_memo e current = None" "engine_le e e2"
  shows "engine_grows e (e2\<lparr>se_active := se_active e2 - {current}, se_memo := (se_memo e2)(current \<mapsto> specialized)\<rparr>)" (is "engine_grows _ ?e")
proof -
  have "current \<in> se_active e" using l assms(2) by (auto simp: loop_state_def)
  then have "se_memo e2 current = None" using engine_leD(3) [OF assms(3) _ assms(2)] by blast
  then have "engine_grows e2 ?e" by (auto simp: engine_grows_def same_settings_def map_le_def)
  then show ?thesis using engine_leD(1) [OF assms(3)] engine_grows_trans by blast
qed

lemma loop_state_finish:
  assumes l: "loop_state e0 ((current, True) # pending) entered e" and "se_memo e current = None" "engine_le e e2"
  shows "loop_state e0 pending entered
    (e2\<lparr>se_active := se_active e2 - {current}, se_memo := (se_memo e2)(current \<mapsto> specialized)\<rparr>)" (is "loop_state _ _ _ ?e")
proof -
  have c: "current \<in> se_active e" "current \<in> set entered" using l assms(2) by (auto simp: loop_state_def)
  have l2: "loop_state e0 ((current, True) # pending) entered e2" using loop_state_step [OF l assms(3)] .
  have "engine_grows e0 ?e" using loop_state_finish_grows [OF assms] l engine_grows_trans by (auto simp: loop_state_def)
  then show ?thesis using l2 c by (auto simp: loop_state_def)
qed

lemma enter_type_quiet:
  assumes "enter_type current e = Some (result, e')"
  shows "(\<exists>err. result = Inl err \<and> quiet_le e e') \<or>
    (result = Inr () \<and> current \<notin> se_active e \<and> (\<exists>e1. quiet_le e e1 \<and> e' = e1\<lparr>se_active := insert current (se_active e1)\<rparr>))"
proof (cases "current \<in> se_active e")
  case True
  with assms show ?thesis by (auto simp: enter_type_def sub_read_def sub_fail_def)
next
  case False
  have depth: "preserves quiet_le check_expansion_depth"
    unfolding check_expansion_depth_def by (auto intro!: preserves_read split: option.split)
  from False assms have "sub_bind check_expansion_depth (\<lambda>_. sub_bind charge_node (\<lambda>_ e.
       Some (Inr (), e\<lparr>se_active := insert current (se_active e)\<rparr>))) e = Some (result, e')"
    by (simp add: enter_type_def sub_read_def)
  then show ?thesis
  proof (cases rule: sub_bind_cases)
    case (1 err)
    then show ?thesis using preservesD [OF depth] by blast
  next
    case (2 x e1)
    have e1: "quiet_le e e1" using preservesD [OF depth 2(1)] .
    from 2(2) show ?thesis
    proof (cases rule: sub_bind_cases)
      case (1 err)
      then show ?thesis using preservesD [OF quiet.preserves_charge_node 1(1)] e1 quiet_le_trans by blast
    next
      case (2 y e2)
      have "quiet_le e e2" using quiet_le_trans [OF e1 preservesD [OF quiet.preserves_charge_node 2(1)]] .
      with 2 False show ?thesis by auto
    qed
  qed
qed

text \<open>One turn of the loop.\<close>

lemma substitute_loop_cases:
  assumes run: "substitute_loop f (Suc n) ((current, finish) # pending) entered e = Some (result, entered', e')"
  obtains
    (interrupted) err where "result = Inl err" "entered' = entered" "quiet_le e e'"
  | (skip) e1 where "quiet_le e e1" "se_memo e1 current \<noteq> None"
      "substitute_loop f n pending entered e1 = Some (result, entered', e')"
  | (finish) r e1 e2 where finish "quiet_le e e1" "se_memo e1 current = None" "finish_type f current e1 = Some (r, e2)"
      "(\<exists>err. r = Inl err \<and> result = Inl err \<and> entered' = entered \<and> e' = e2) \<or>
       (r = Inr () \<and> substitute_loop f n pending entered e2 = Some (result, entered', e'))"
  | (enter) r e1 e2 where "\<not> finish" "quiet_le e e1" "se_memo e1 current = None" "current \<notin> se_active e1"
      "expand_type current (e1\<lparr>se_active := insert current (se_active e1)\<rparr>) = Some (r, e2)"
      "(\<exists>err. r = Inl err \<and> result = Inl err \<and> entered' = entered @ [current] \<and> e' = e2) \<or>
       (\<exists>ds. r = Inr ds \<and> substitute_loop f n (map (\<lambda>d. (d, False)) ds @ (current, True) # pending) (entered @ [current]) e2 =
          Some (result, entered', e'))"
proof -
  obtain r1 e1 where c: "sub_checkpoint e = Some (r1, e1)" using run by (auto split: option.splits)
  have q: "quiet_le e e1" using preservesD [OF quiet.preserves_checkpoint(1) c] .
  show thesis
  proof (cases r1)
    case (Inl err)
    with run c q show ?thesis by (auto intro: interrupted)
  next
    case r1: (Inr u)
    consider "se_memo e1 current \<noteq> None" | "se_memo e1 current = None" finish | "se_memo e1 current = None" "\<not> finish" by blast
    then show ?thesis
    proof cases
      case 1
      with run c r1 q show ?thesis by (auto intro: skip)
    next
      case 2
      with run c r1 obtain r e2 where "finish_type f current e1 = Some (r, e2)" by (auto split: option.splits)
      with 2 run c r1 show ?thesis by (intro finish [OF _ q]) (auto split: sum.splits)
    next
      case 3
      with run c r1 obtain r2 e2 where r2: "enter_type current e1 = Some (r2, e2)" by (auto split: option.splits)
      from enter_type_quiet [OF r2] show ?thesis
      proof (elim disjE exE conjE)
        fix err assume "r2 = Inl err" "quiet_le e1 e2"
        with run c r1 3 r2 quiet_le_trans [OF q] show ?thesis by (auto intro: interrupted)
      next
        fix ea assume a: "r2 = Inr ()" "current \<notin> se_active e1" "quiet_le e1 ea" "e2 = ea\<lparr>se_active := insert current (se_active ea)\<rparr>"
        have "se_memo ea current = None" "current \<notin> se_active ea"
          using 3 a(2) quiet_leD [OF a(3)] by (auto simp: engine_le_def)
        moreover obtain r3 e3 where "expand_type current e2 = Some (r3, e3)" using run c r1 3 r2 a(1) by (auto split: option.splits)
        ultimately show ?thesis using run c r1 3 r2 a(1,4)
          by (intro enter [OF _ quiet_le_trans [OF q a(3)]]) (auto split: sum.splits)
      qed
    qed
  qed
qed

lemma loop_state_enter:
  assumes l: "loop_state e0 ((current, False) # pending) entered e" and "current \<notin> se_active e" "engine_le e e1"
  shows "loop_state e0 ((current, True) # pending) (entered @ [current]) (e1\<lparr>se_active := insert current (se_active e1)\<rparr>)"
proof -
  have l1: "loop_state e0 ((current, False) # pending) entered e1" using loop_state_step [OF l assms(3)] .
  have "engine_grows e1 (e1\<lparr>se_active := insert current (se_active e1)\<rparr>)" by (simp add: engine_grows_def same_settings_def)
  then have "engine_grows e0 (e1\<lparr>se_active := insert current (se_active e1)\<rparr>)" using l1 engine_grows_trans by (auto simp: loop_state_def)
  then show ?thesis using l1 assms(2) engine_leD(2) [OF assms(3)] by (auto simp: loop_state_def)
qed

lemma substitute_loop_le:
  assumes f: "\<And>t. preserves engine_le (f t)"
  shows "substitute_loop f n pending entered e = Some (result, entered', e') \<Longrightarrow> loop_state e0 pending entered e \<Longrightarrow>
    loop_state e0 [] entered' e' \<and> engine_grows e e'"
proof (induction n arbitrary: pending entered e)
  case (Suc n)
  show ?case
  proof (cases pending)
    case Nil
    with Suc.prems show ?thesis by simp
  next
    case (Cons p rest)
    obtain current fin where p: "p = (current, fin)" by force
    note l = Suc.prems(2) [unfolded Cons p]
    from Suc.prems(1) [unfolded Cons p] show ?thesis
    proof (cases rule: substitute_loop_cases)
      case (interrupted err)
      then show ?thesis using loop_state_pending [OF loop_state_step [OF l quiet_leD(1)]] by (auto dest: quiet_leD engine_leD)
    next
      case (skip e1)
      have "loop_state e0 rest entered e1" using loop_state_pending [OF loop_state_step [OF l quiet_leD(1) [OF skip(1)]]] by auto
      with skip Suc.IH show ?thesis by (blast intro: engine_grows_trans dest: quiet_leD engine_leD)
    next
      case (finish r e1 e2)
      have l1: "loop_state e0 ((current, True) # rest) entered e1" using loop_state_step [OF l quiet_leD(1) [OF finish(2)]] finish(1) by simp
      have g1: "engine_grows e e1" using finish(2) by (blast dest: quiet_leD engine_leD)
      from finish_type_le [OF f finish(4)] show ?thesis
      proof (elim disjE exE conjE)
        fix err assume "r = Inl err" "engine_le e1 e2"
        then show ?thesis using finish(5) loop_state_pending [OF loop_state_step [OF l1]] engine_grows_trans [OF g1] by (auto dest: engine_leD)
      next
        fix ea specialized eb
        assume a: "r = Inr ()" "engine_le e1 eb" "e2 = eb\<lparr>se_active := se_active eb - {current}, se_memo := (se_memo eb)(current \<mapsto> specialized)\<rparr>"
        have l2: "loop_state e0 rest entered e2" unfolding a(3) by (rule loop_state_finish [OF l1 finish(3) a(2)])
        have "engine_grows e1 e2" unfolding a(3) using loop_state_finish_grows [OF l1 finish(3) a(2)] .
        with Suc.IH [OF _ l2] finish(5) a(1) g1 show ?thesis by (blast intro: engine_grows_trans)
      qed
    next
      case (enter r e1 e2)
      let ?e = "e1\<lparr>se_active := insert current (se_active e1)\<rparr>"
      have l1: "loop_state e0 ((current, True) # rest) (entered @ [current]) ?e"
        using loop_state_enter [OF _ enter(4) engine_le_refl] loop_state_step [OF l quiet_leD(1) [OF enter(2)]] enter(1) by simp
      have l2: "loop_state e0 ((current, True) # rest) (entered @ [current]) e2"
        using loop_state_step [OF l1 preservesD [OF growth.preserves_expand enter(5)]] .
      have "engine_grows e1 ?e" by (simp add: engine_grows_def same_settings_def)
      then have g: "engine_grows e e2"
        using enter(2) preservesD [OF growth.preserves_expand enter(5)] by (blast intro: engine_grows_trans dest: quiet_leD engine_leD)
      have "loop_state e0 (map (\<lambda>d. (d, False)) ds @ (current, True) # rest) (entered @ [current]) e2" for ds
        using l2 by (auto simp: loop_state_def)
      with enter(6) Suc.IH g loop_state_pending [OF l2, of "[]"] show ?thesis by (auto intro: engine_grows_trans)
    qed
  qed
qed simp

lemma substitute_with_le:
  assumes f: "\<And>t. preserves engine_le (f t)"
  shows "preserves engine_le (substitute_with f n t)"
  unfolding substitute_with_def
proof (intro growth.preserves_bind growth.preserves_checkpoint)
  fix x :: unit
  show "preserves engine_le (\<lambda>e. case se_memo e t of Some specialized \<Rightarrow> Some (Inr specialized, e)
       | None \<Rightarrow> (case substitute_loop f n [(t, False)] [] e of None \<Rightarrow> None
            | Some (result, entered, e) \<Rightarrow>
                Some ((case result of Inl err \<Rightarrow> Inl err
                       | Inr _ \<Rightarrow> (case se_memo e t of Some specialized \<Rightarrow> Inr specialized | None \<Rightarrow> Inl (MissingType t))),
                      e\<lparr>se_active := se_active e - set entered\<rparr>)))"
  proof -
    have "engine_le e (e1\<lparr>se_active := se_active e1 - set entered\<rparr>)"
      if "substitute_loop f n [(t, False)] [] e = Some (r, entered, e1)" for e r entered e1
    proof -
      have "loop_state e [(t, False)] [] e" by (simp add: loop_state_def)
      from substitute_loop_le [OF f that this] have l: "loop_state e [] entered e1" by blast
      have "engine_grows e1 (e1\<lparr>se_active := se_active e1 - set entered\<rparr>)" by (simp add: engine_grows_def same_settings_def)
      then have "engine_grows e (e1\<lparr>se_active := se_active e1 - set entered\<rparr>)" using l engine_grows_trans by (auto simp: loop_state_def)
      then show ?thesis using l by (auto simp: engine_le_def loop_state_def)
    qed
    then show ?thesis by (auto simp: preserves_def split: option.splits prod.splits)
  qed
qed

lemma substitute_le: "preserves engine_le (substitute n t :: ('s::linorder, 'd, 'g, 'e, type_id) sub)"
proof (induction n arbitrary: t)
  case 0
  show ?case by (simp add: preserves_def)
next
  case (Suc n)
  have "preserves engine_le (substitute_with (substitute n) n t :: ('s, 'd, 'g, 'e, type_id) sub)" by (rule substitute_with_le) (rule Suc.IH)
  then show ?case by (simp add: preserves_def)
qed

section \<open>What substitution means\<close>

inductive unfolds :: "(utext, effect_row_ref) fmap \<Rightarrow> effect_row_ref \<Rightarrow> effect_row_ref \<Rightarrow> bool" for equations where
  unfolds_end: "next_equation equations row = None \<Longrightarrow> unfolds equations row row"
| unfolds_step: "next_equation equations row = Some (tail, b) \<Longrightarrow> unfolds equations (extend_row row b) r \<Longrightarrow>
    unfolds equations row r"

definition row_expands :: "('s, 'd, 'g, 'e) type_substitution_engine \<Rightarrow> effect_row_ref \<Rightarrow> expanded_effect_row \<Rightarrow> bool" where
  "row_expands e row x \<longleftrightarrow> (is_relocation e \<longrightarrow> rr_tail row = None) \<and>
     (case se_effect_rows e of
        None \<Rightarrow> x = ExpandedRow row None
      | Some (RowArguments arguments) \<Rightarrow>
          x = (case Option.bind (rr_tail row) (fmlookup arguments) of
                 None \<Rightarrow> ExpandedRow row None
               | Some b \<Rightarrow> ExpandedRow (extend_row row b) (Some (length (rr_effects row))))
      | Some (RowEquations equations) \<Rightarrow> \<exists>r. unfolds equations row r \<and> x = ExpandedRow r None)"

text \<open>The image of a row: the types in its effects are mapped, except in those that came from an
  argument, names are translated, and repeated effects that were not there before are dropped.\<close>

fun unique_list :: "nat \<Rightarrow> nat \<Rightarrow> effect_ref set \<Rightarrow> effect_ref list \<Rightarrow> effect_ref list" where
  "unique_list original index seen [] = []"
| "unique_list original index seen (effect # effects) =
     (let rest = unique_list original (Suc index) (insert effect seen) effects in
      if index < original \<or> effect \<notin> seen then effect # rest else rest)"

definition map_effect_arg :: "(type_id \<Rightarrow> type_id) \<Rightarrow> effect_arg_ref \<Rightarrow> effect_arg_ref" where
  "map_effect_arg g a = (case a of ArgType t \<Rightarrow> ArgType (g t) | a \<Rightarrow> a)"

definition map_effect ::
    "('s, 'd, 'g, 'e) type_substitution_engine \<Rightarrow> (type_id \<Rightarrow> type_id) \<Rightarrow> nat option \<Rightarrow> nat \<times> effect_ref \<Rightarrow> effect_ref" where
  "map_effect e g start entry =
     EffectRef (case effect_names e of None \<Rightarrow> ef_name (snd entry) | Some names \<Rightarrow> the (names (ef_name (snd entry))))
       (if (case start of None \<Rightarrow> False | Some start \<Rightarrow> start \<le> fst entry) then ef_args (snd entry)
        else map (map_effect_arg g) (ef_args (snd entry)))"

definition row_image ::
    "('s, 'd, 'g, 'e) type_substitution_engine \<Rightarrow> (type_id \<Rightarrow> type_id) \<Rightarrow> effect_row_ref \<Rightarrow> expanded_effect_row \<Rightarrow> effect_row_ref" where
  "row_image e g row x =
     EffectRowRef (unique_list (length (rr_effects row)) 0 {}
         (map (map_effect e g (xr_argument_start x)) (enumerate 0 (rr_effects (xr_row x)))))
       (rr_tail (xr_row x))"

definition data_children :: "bool \<Rightarrow> 's ty \<Rightarrow> type_id list" where
  "data_children relocation d =
     (case d of
        TyExistential bounds \<Rightarrow> concat (map sb_args bounds)
      | TyArray t \<Rightarrow> [t] | TyList t \<Rightarrow> [t] | TySet t \<Rightarrow> [t] | TyRange t \<Rightarrow> [t] | TySlice t \<Rightarrow> [t] | TyOption t \<Rightarrow> [t]
      | TyRefined t _ \<Rightarrow> [t] | TyTrust _ t \<Rightarrow> [t] | TySchema t \<Rightarrow> [t] | TyMessage t \<Rightarrow> [t] | TyMemorySelection t \<Rightarrow> [t]
      | TyMemoryRegion t \<Rightarrow> [t]
      | TyMap k v \<Rightarrow> [k, v] | TyStore k v \<Rightarrow> [k, v] | TyResult ok err \<Rightarrow> [ok, err]
      | TyRecord fs \<Rightarrow> map ft_ty fs
      | TyTuple ts \<Rightarrow> ts
      | TyFunction input output _ \<Rightarrow> input @ [output]
      | TyHandler _ _ result \<Rightarrow> (case result of None \<Rightarrow> [] | Some t \<Rightarrow> [t])
      | TyTask output _ \<Rightarrow> [output]
      | TyContinuation output answer _ \<Rightarrow> output # (case answer of None \<Rightarrow> [] | Some t \<Rightarrow> [t])
      | TyApplied constructor args \<Rightarrow> if relocation then constructor # args else args
      | TyResourceHandle h \<Rightarrow> (case h of RhMemoryRegion t \<Rightarrow> [t] | RhExternalTool t \<Rightarrow> [t] | RhOther _ args \<Rightarrow> args)
      | _ \<Rightarrow> [])"

definition data_rows :: "'s ty \<Rightarrow> effect_row_ref list" where
  "data_rows d =
     (case d of
        TyFunction _ _ effects \<Rightarrow> (case effects of None \<Rightarrow> [] | Some row \<Rightarrow> [row])
      | TyHandler handled produced _ \<Rightarrow> handled # (case produced of ProducedInfer \<Rightarrow> [] | ProducedExplicit row \<Rightarrow> [row])
      | TyTask _ effects \<Rightarrow> [effects]
      | TyContinuation _ _ residual \<Rightarrow> (case residual of None \<Rightarrow> [] | Some row \<Rightarrow> [row])
      | _ \<Rightarrow> [])"

definition map_data ::
    "bool \<Rightarrow> (type_id \<Rightarrow> type_id) \<Rightarrow> (effect_row_ref \<Rightarrow> effect_row_ref) \<Rightarrow> ('s \<Rightarrow> 's) \<Rightarrow> 's ty \<Rightarrow> 's ty" where
  "map_data relocation g h sp d =
     (case d of
        TyExistential bounds \<Rightarrow> TyExistential (map (\<lambda>b. SpecBound (sp (sb_spec b)) (map g (sb_args b))) bounds)
      | TyArray t \<Rightarrow> TyArray (g t) | TyList t \<Rightarrow> TyList (g t) | TySet t \<Rightarrow> TySet (g t) | TyRange t \<Rightarrow> TyRange (g t)
      | TySlice t \<Rightarrow> TySlice (g t) | TyOption t \<Rightarrow> TyOption (g t) | TyRefined t p \<Rightarrow> TyRefined (g t) p
      | TyTrust w t \<Rightarrow> TyTrust w (g t) | TySchema t \<Rightarrow> TySchema (g t) | TyMessage t \<Rightarrow> TyMessage (g t)
      | TyMemorySelection t \<Rightarrow> TyMemorySelection (g t) | TyMemoryRegion t \<Rightarrow> TyMemoryRegion (g t)
      | TyMap k v \<Rightarrow> TyMap (g k) (g v) | TyStore k v \<Rightarrow> TyStore (g k) (g v) | TyResult ok err \<Rightarrow> TyResult (g ok) (g err)
      | TyRecord fs \<Rightarrow> TyRecord (map (\<lambda>field. FieldType (ft_name field) (g (ft_ty field))) fs)
      | TyTuple ts \<Rightarrow> TyTuple (map g ts)
      | TyFunction input output effects \<Rightarrow> TyFunction (map g input) (g output) (map_option h effects)
      | TyHandler handled produced result \<Rightarrow>
          TyHandler (h handled) (case produced of ProducedInfer \<Rightarrow> ProducedInfer | ProducedExplicit row \<Rightarrow> ProducedExplicit (h row))
            (map_option g result)
      | TyTask output effects \<Rightarrow> TyTask (g output) (h effects)
      | TyContinuation output answer residual \<Rightarrow> TyContinuation (g output) (map_option g answer) (map_option h residual)
      | TyApplied constructor args \<Rightarrow> TyApplied (if relocation then g constructor else constructor) (map g args)
      | TyResourceHandle r \<Rightarrow>
          TyResourceHandle (case r of
             RhMemoryRegion t \<Rightarrow> RhMemoryRegion (g t) | RhExternalTool t \<Rightarrow> RhExternalTool (g t) | RhOther nm args \<Rightarrow> RhOther nm (map g args))
      | d \<Rightarrow> d)"

definition spec_image :: "('s, 'd, 'g, 'e) type_substitution_engine \<Rightarrow> 's \<Rightarrow> 's" where
  "spec_image e spec =
     (case Option.bind (se_spec_identities e) (\<lambda>ids. fmlookup ids spec) of Some identity \<Rightarrow> identity | None \<Rightarrow> spec)"

text \<open>Where a result stands: in the interner it is the canonical form, in a store the form itself.\<close>

definition output_has :: "('s::linorder, 'd, 'g, 'e) type_substitution_engine \<Rightarrow> type_id \<Rightarrow> 's ty \<Rightarrow> bool" where
  "output_has e r d \<longleftrightarrow>
     (case se_target e of
        Materialize x \<Rightarrow> store_get (in_store x) r = Some (canonical_type d)
      | Existing s \<Rightarrow> store_get s r = Some d
      | Relocate input \<Rightarrow> store_get (ri_target input) r = Some d
      | RelocateMaterialize input \<Rightarrow> store_get (in_store (rm_target input)) r = Some (canonical_type d))"

definition placed :: "('s::linorder, 'd, 'g, 'e) type_substitution_engine \<Rightarrow> type_id \<Rightarrow> 's ty \<Rightarrow> 's ty \<Rightarrow> type_id \<Rightarrow> bool" where
  "placed e t d d' r \<longleftrightarrow> (if \<not> is_relocation e \<and> d' = d then r = t else output_has e r d')"

inductive substitutes :: "('s::linorder, 'd, 'g, 'e) type_substitution_engine \<Rightarrow> type_id \<Rightarrow> type_id \<Rightarrow> bool" for e where
  substitutes_mapped: "type_data e t = Some d \<Longrightarrow> mapped_declaration e t = Some r \<Longrightarrow> target_has e r \<Longrightarrow> substitutes e t r"
| substitutes_argument: "type_data e t = Some d \<Longrightarrow> mapped_declaration e t = None \<Longrightarrow> proper_replacement e t d = Some r \<Longrightarrow>
    is_named d \<Longrightarrow> type_data e r \<noteq> None \<Longrightarrow> substitutes e t r"
| substitutes_binding: "type_data e t = Some d \<Longrightarrow> mapped_declaration e t = None \<Longrightarrow> proper_replacement e t d = Some x \<Longrightarrow>
    \<not> is_named d \<Longrightarrow> substitutes e x r \<Longrightarrow> substitutes e t r"
| substitutes_data: "type_data e t = Some d \<Longrightarrow> mapped_declaration e t = None \<Longrightarrow> proper_replacement e t d = None \<Longrightarrow>
    (\<forall>c \<in> set (data_children (is_relocation e) d). substitutes e c (g c)) \<Longrightarrow>
    (\<forall>row \<in> set (data_rows d). \<exists>x. row_expands e row x \<and> (\<forall>c \<in> set (expanded_types x). substitutes e c (g c)) \<and>
       h row = row_image e g row x) \<Longrightarrow>
    placed e t d (map_data (is_relocation e) g h (spec_image e) d) r \<Longrightarrow> substitutes e t r"

text \<open>It depends on the settings and on what is in the stores, and both only grow.\<close>

lemma settings_same:
  assumes "same_settings e e'"
  shows "se_existing_lookup e' = se_existing_lookup e" "se_relocation_overrides e' = se_relocation_overrides e"
    "se_named e' = se_named e" "se_parameters e' = se_parameters e" "se_canonical_parameters e' = se_canonical_parameters e"
    "se_variables e' = se_variables e" "se_type_parameters e' = se_type_parameters e" "se_spec_identities e' = se_spec_identities e"
    "se_effect_rows e' = se_effect_rows e" "se_closed_named_types e' = se_closed_named_types e"
    "se_expansion_depth e' = se_expansion_depth e" "se_hash e' = se_hash e" "se_declared_spec e' = se_declared_spec e"
    "se_control e' = se_control e"
  using assms unfolding same_settings_def by (cases e; cases e'; simp)+

lemma engine_grows_same:
  assumes "engine_grows e e'"
  shows "is_relocation e' = is_relocation e" "mapped_declaration e' = mapped_declaration e"
    "proper_replacement e' = proper_replacement e" "effect_names e' = effect_names e" "row_expands e' = row_expands e"
    "row_image e' = row_image e" "spec_image e' = spec_image e"
proof -
  have s: "same_settings e e'" and t: "target_le (se_target e) (se_target e')" using assms by (simp_all add: engine_grows_def)
  note s = settings_same [OF s]
  show r: "is_relocation e' = is_relocation e" using t by (cases "se_target e"; cases "se_target e'") (simp_all add: is_relocation_def)
  show "mapped_declaration e' = mapped_declaration e"
    using t s by (cases "se_target e"; cases "se_target e'") (auto simp: mapped_declaration_def fun_eq_iff, (metis type_relocation_materialization_input.select_convs(3) type_relocation_materialization_input.surjective type_relocation_materialization_input.update_convs(2))+)
  show n: "effect_names e' = effect_names e"
    using t s by (cases "se_target e"; cases "se_target e'") (auto simp: effect_names_def, metis type_relocation_materialization_input.select_convs(4) type_relocation_materialization_input.surjective type_relocation_materialization_input.update_convs(2))
  have pi: "parameter_identity (input_store e') = parameter_identity (input_store e)"
    using t by (cases "se_target e"; cases "se_target e'") (auto simp: input_store_def interner_le_def store_le_def, metis type_relocation_materialization_input.select_convs(1) type_relocation_materialization_input.surjective type_relocation_materialization_input.update_convs(2))
  have "replacement e' = replacement e" unfolding replacement_def [abs_def] s pi by (rule refl)
  then show "proper_replacement e' = proper_replacement e" by (simp add: proper_replacement_def fun_eq_iff)
  show "row_expands e' = row_expands e" using r s by (simp add: row_expands_def fun_eq_iff)
  have m: "map_effect e' = map_effect e" using n by (simp add: map_effect_def fun_eq_iff)
  show "row_image e' = row_image e" unfolding row_image_def [abs_def] m by (rule refl)
  show "spec_image e' = spec_image e" using s by (simp add: spec_image_def fun_eq_iff)
qed

lemma engine_grows_data:
  assumes "engine_grows e e'"
  shows "type_data e t = Some d \<Longrightarrow> type_data e' t = Some d" "target_has e r \<Longrightarrow> target_has e' r"
    "output_has e r d \<Longrightarrow> output_has e' r d"
proof -
  have t: "target_le (se_target e) (se_target e')" using assms by (simp add: engine_grows_def)
  have src: "rm_source x' = rm_source x" if "x' = x\<lparr>rm_target := y\<rparr>" for x x' :: "('a, 'b, 'c) type_relocation_materialization_input" and y
    using that by simp
  show "type_data e t = Some d \<Longrightarrow> type_data e' t = Some d"
    using t by (cases "se_target e"; cases "se_target e'") (auto simp: type_data_def interner_le_def store_le_def dest: src)
  show "target_has e r \<Longrightarrow> target_has e' r" "output_has e r d \<Longrightarrow> output_has e' r d"
    using t by (cases "se_target e"; cases "se_target e'"; auto simp: target_has_def output_has_def interner_le_def store_le_def)+
qed

lemma substitutes_grows:
  assumes "engine_grows e e'"
  shows "substitutes e t r \<Longrightarrow> substitutes e' t r"
proof (induction rule: substitutes.induct)
  case (substitutes_mapped t d r)
  then show ?case using engine_grows_same [OF assms] engine_grows_data [OF assms] by (auto intro: substitutes.substitutes_mapped)
next
  case (substitutes_argument t d r)
  then show ?case using engine_grows_same [OF assms] engine_grows_data(1) [OF assms] by (auto intro: substitutes.substitutes_argument)
next
  case (substitutes_binding t d x r)
  then show ?case using engine_grows_same [OF assms] engine_grows_data(1) [OF assms] by (auto intro: substitutes.substitutes_binding)
next
  case (substitutes_data t d g h r)
  have "placed e' t d (map_data (is_relocation e) g h (spec_image e) d) r"
    using substitutes_data.hyps engine_grows_data(3) [OF assms] engine_grows_same(1) [OF assms] unfolding placed_def by (metis (full_types))
  moreover have "type_data e' t = Some d" using substitutes_data.hyps engine_grows_data(1) [OF assms] by blast
  ultimately show ?case using substitutes_data.hyps substitutes_data.IH unfolding engine_grows_same [OF assms, symmetric]
    by (intro substitutes.substitutes_data [of e' t d g h r]) blast+
qed

end
