(* ===== verification/Etas_Substitute_Sound.thy ===== *)
theory Etas_Substitute_Sound
  imports Etas_Substitute_Facts
begin

text \<open>Substitution is sound: whatever the engine records is an image in the sense of \<open>substitutes\<close>. The
  locale \<open>sound_calls\<close> states what assembly asks of the nested calls, and the engine itself is its
  instance. A substitution with nothing to substitute is the identity.\<close>

section \<open>Assembly is sound\<close>

definition plain_engine :: "('s, 'd, 'g, 'e) type_substitution_engine \<Rightarrow> bool" where
  "plain_engine e \<longleftrightarrow> se_variables e = None \<and> se_closed_named_types e = None"

definition target_ok :: "('s::linorder, 'd, 'g) code_api \<Rightarrow> ('s, 'd, 'g, 'e) type_substitution_engine \<Rightarrow> bool" where
  "target_ok A e \<longleftrightarrow>
     (case se_target e of
        Materialize x \<Rightarrow> interner_ok A x
      | RelocateMaterialize input \<Rightarrow> interner_ok A (rm_target input)
      | _ \<Rightarrow> True)"

text \<open>Identifiers have 32 bits: what follows holds as long as the output store stays below.\<close>

definition in_bounds :: "('s, 'd, 'g, 'e) type_substitution_engine \<Rightarrow> bool" where
  "in_bounds e \<longleftrightarrow>
     (case se_target e of
        Materialize x \<Rightarrow> store_len (in_store x) < 2 ^ 32
      | Existing s \<Rightarrow> store_len s < 2 ^ 32
      | RelocateMaterialize input \<Rightarrow> store_len (in_store (rm_target input)) < 2 ^ 32
      | _ \<Rightarrow> True)"

definition memo_sound :: "('s::linorder, 'd, 'g, 'e) type_substitution_engine \<Rightarrow> bool" where
  "memo_sound e \<longleftrightarrow> (\<forall>t r. se_memo e t = Some r \<longrightarrow> substitutes e t r)"

definition ready :: "('s::linorder, 'd, 'g) code_api \<Rightarrow> ('s, 'd, 'g, 'e) type_substitution_engine \<Rightarrow> bool" where
  "ready A e \<longleftrightarrow> plain_engine e \<and> target_ok A e \<and> memo_sound e"

definition runs ::
    "('s::linorder, 'd, 'g) code_api \<Rightarrow> ('s, 'd, 'g, 'e) type_substitution_engine \<Rightarrow> ('s, 'd, 'g, 'e, 'a) sub \<Rightarrow>
     ('a \<Rightarrow> ('s, 'd, 'g, 'e) type_substitution_engine \<Rightarrow> bool) \<Rightarrow> bool" where
  "runs A e m Q \<longleftrightarrow> (\<forall>result e'. m e = Some (result, e') \<longrightarrow> engine_le e e' \<and>
     (ready A e \<longrightarrow> in_bounds e' \<longrightarrow> ready A e' \<and> (\<forall>v. result = Inr v \<longrightarrow> Q v e')))"

lemma engine_le_in_bounds: "engine_le e e' \<Longrightarrow> in_bounds e' \<Longrightarrow> in_bounds e"
  by (cases "se_target e"; cases "se_target e'") (auto simp: in_bounds_def engine_le_def engine_grows_def interner_le_def store_le_def)

lemma engine_le_plain: "engine_le e e' \<Longrightarrow> plain_engine e' = plain_engine e"
  using settings_same [of e e'] by (simp add: engine_le_def engine_grows_def plain_engine_def)

lemma engine_le_target_ok: "engine_le e e' \<Longrightarrow> target_ok A e \<Longrightarrow> in_bounds e' \<Longrightarrow> target_ok A e'"
  by (cases "se_target e"; cases "se_target e'") (auto simp: target_ok_def in_bounds_def engine_le_def engine_grows_def interner_le_def)

lemma quiet_ready: "quiet_le e e' \<Longrightarrow> ready A e \<Longrightarrow> in_bounds e' \<Longrightarrow> ready A e'"
  using engine_le_plain [of e e'] engine_le_target_ok [of e e' A] substitutes_grows [of e e']
  by (auto simp: ready_def quiet_le_def memo_sound_def engine_le_def)

lemma runs_quietI:
  "preserves quiet_le m \<Longrightarrow> (\<And>v e'. m e = Some (Inr v, e') \<Longrightarrow> engine_le e e' \<Longrightarrow> ready A e' \<Longrightarrow> in_bounds e' \<Longrightarrow> ready A e \<Longrightarrow> Q v e') \<Longrightarrow> runs A e m Q"
  unfolding runs_def using preservesD quiet_ready quiet_le_def by metis

lemma runs_quiet: "preserves quiet_le m \<Longrightarrow> runs A e m (\<lambda>_ _. True)"
  by (rule runs_quietI) simp_all

lemma runs_ok: "(ready A e \<Longrightarrow> Q x e) \<Longrightarrow> runs A e (sub_ok x) Q"
  by (simp add: runs_def sub_ok_def)

lemma runs_fail: "runs A e (sub_fail err) Q"
  by (simp add: runs_def sub_fail_def)

lemma runs_bind:
  assumes "runs A e m Q1" "\<And>x e1. engine_le e e1 \<Longrightarrow> runs A e1 (f x) (\<lambda>y e2. Q1 x e1 \<longrightarrow> Q y e2)"
  shows "runs A e (sub_bind m f) Q"
  unfolding runs_def
proof (intro allI impI)
  fix result e' assume "sub_bind m f e = Some (result, e')"
  then show "engine_le e e' \<and> (ready A e \<longrightarrow> in_bounds e' \<longrightarrow> ready A e' \<and> (\<forall>v. result = Inr v \<longrightarrow> Q v e'))"
  proof (cases rule: sub_bind_cases)
    case (1 err)
    then show ?thesis using assms(1) by (auto simp: runs_def)
  next
    case (2 x e1)
    have e1: "engine_le e e1" "ready A e \<Longrightarrow> in_bounds e1 \<Longrightarrow> ready A e1 \<and> Q1 x e1" using assms(1) 2(1) by (auto simp: runs_def)
    have e2: "engine_le e1 e'" "ready A e1 \<Longrightarrow> in_bounds e' \<Longrightarrow> ready A e' \<and> (\<forall>v. result = Inr v \<longrightarrow> Q1 x e1 \<longrightarrow> Q v e')"
      using assms(2) [OF e1(1), of x] 2(2) by (auto simp: runs_def)
    show ?thesis using e1 e2 engine_le_trans engine_le_in_bounds by blast
  qed
qed

lemma runs_then: "runs A e m (\<lambda>_ _. True) \<Longrightarrow> (\<And>x e1. engine_le e e1 \<Longrightarrow> runs A e1 (f x) Q) \<Longrightarrow> runs A e (sub_bind m f) Q"
  by (rule runs_bind) (auto simp: runs_def)

lemma runs_conseq:
  "runs A e m Q \<Longrightarrow> (\<And>v e'. engine_le e e' \<Longrightarrow> ready A e' \<Longrightarrow> Q v e' \<Longrightarrow> Q' v e') \<Longrightarrow> runs A e m Q'"
  by (auto simp: runs_def)

lemma runs_read: "runs A e (m e) Q \<Longrightarrow> runs A e (sub_read m) Q"
  by (simp add: runs_def sub_read_def)

definition stable :: "(('s::linorder, 'd, 'g, 'e) type_substitution_engine \<Rightarrow> bool) \<Rightarrow> bool" where
  "stable P \<longleftrightarrow> (\<forall>e e'. engine_le e e' \<longrightarrow> P e \<longrightarrow> P e')"

lemma stableD: "stable P \<Longrightarrow> engine_le e e' \<Longrightarrow> P e \<Longrightarrow> P e'"
  by (simp add: stable_def)

lemma stable_memo: "stable (\<lambda>e. se_memo e t = Some r)"
  by (auto simp: stable_def engine_le_def intro: engine_grows_memo)

lemma runs_map:
  assumes "\<And>x e. runs A e (f x) (P x)" "\<And>x y. stable (P x y)"
  shows "runs A e (sub_map f xs) (\<lambda>ys e'. list_all2 (\<lambda>x y. P x y e') xs ys)"
proof (induction xs arbitrary: e)
  case Nil
  show ?case by (simp add: runs_ok)
next
  case (Cons x xs)
  show ?case unfolding sub_map.simps
  proof (rule runs_bind [OF assms(1)])
    fix y e1
    show "runs A e1 (sub_bind (sub_map f xs) (\<lambda>ys. sub_ok (y # ys))) (\<lambda>ys e2. P x y e1 \<longrightarrow> list_all2 (\<lambda>x y. P x y e2) (x # xs) ys)"
      by (rule runs_bind [OF Cons.IH], rule runs_ok) (use stableD [OF assms(2)] in auto)
  qed
qed

lemma runs_option:
  assumes "\<And>x e. runs A e (f x) (P x)"
  shows "runs A e (sub_option f x) (\<lambda>y e'. case x of None \<Rightarrow> y = None | Some a \<Rightarrow> \<exists>b. y = Some b \<and> P a b e')"
  unfolding sub_option_def
proof (cases x)
  case (Some a)
  show "runs A e (case x of None \<Rightarrow> sub_ok None | Some x \<Rightarrow> sub_bind (f x) (\<lambda>y. sub_ok (Some y))) (\<lambda>y e'. case x of None \<Rightarrow> y = None | Some a \<Rightarrow> \<exists>b. y = Some b \<and> P a b e')"
    unfolding Some option.case by (rule runs_bind [OF assms], rule runs_ok) auto
qed (simp add: runs_ok)

section \<open>Rows and data\<close>

definition memo_image :: "('s, 'd, 'g, 'e) type_substitution_engine \<Rightarrow> type_id \<Rightarrow> type_id" where
  "memo_image e t = the (se_memo e t)"

definition known :: "('s, 'd, 'g, 'e) type_substitution_engine \<Rightarrow> type_id list \<Rightarrow> bool" where
  "known e ts \<longleftrightarrow> (\<forall>t \<in> set ts. se_memo e t \<noteq> None)"

lemma memo_image_grows: "engine_le e e' \<Longrightarrow> se_memo e t \<noteq> None \<Longrightarrow> memo_image e' t = memo_image e t"
  using engine_grows_memo [of e e' t] by (auto simp: memo_image_def engine_le_def)

lemma known_grows: "engine_le e e' \<Longrightarrow> known e ts \<Longrightarrow> known e' ts"
  using engine_grows_memo [of e e'] by (fastforce simp: known_def engine_le_def)

lemma known_map: "engine_le e e' \<Longrightarrow> known e ts \<Longrightarrow> map (memo_image e') ts = map (memo_image e) ts"
  by (auto simp: known_def memo_image_grows)

lemma engine_le_same: "engine_le e e' \<Longrightarrow> is_relocation e' = is_relocation e \<and> effect_names e' = effect_names e \<and>
    row_expands e' = row_expands e \<and> row_image e' = row_image e \<and> spec_image e' = spec_image e"
  using engine_grows_same [of e e'] by (simp add: engine_le_def)

lemma memo_images: "list_all2 (\<lambda>x y. se_memo e x = Some y) xs ys \<longleftrightarrow> known e xs \<and> ys = map (memo_image e) xs"
  by (induction xs arbitrary: ys) (auto simp: list_all2_Cons1 known_def memo_image_def)

definition effect_imaged where
  "effect_imaged start entry effect e \<longleftrightarrow>
     ((case start of None \<Rightarrow> False | Some start \<Rightarrow> start \<le> fst entry) \<or> known e (effect_type_args (snd entry))) \<and>
     effect = map_effect e (memo_image e) start entry"

definition row_imaged where
  "row_imaged row row' e \<longleftrightarrow> (\<exists>x. row_expands e row x \<and> known e (expanded_types x) \<and> row' = row_image e (memo_image e) row x)"

lemma unfolds_functional: "unfolds equations row r \<Longrightarrow> unfolds equations row r' \<Longrightarrow> r = r'"
proof (induction arbitrary: r' rule: unfolds.induct)
  case (unfolds_end row)
  from unfolds_end(2,1) show ?case by (cases rule: unfolds.cases) auto
next
  case (unfolds_step row tail b r)
  from unfolds_step(4,1,3) show ?case by (cases rule: unfolds.cases) auto
qed

lemma row_expands_functional: "row_expands e row x \<Longrightarrow> row_expands e row y \<Longrightarrow> x = y"
  by (auto simp: row_expands_def split: option.splits effect_row_substitution.splits dest: unfolds_functional)

lemma row_imaged_functional: "row_imaged row a e \<Longrightarrow> row_imaged row b e \<Longrightarrow> a = b"
  by (auto simp: row_imaged_def dest: row_expands_functional)

lemma map_effect_arg_known:
  "engine_le e e' \<Longrightarrow> known e (effect_type_args effect) \<Longrightarrow> a \<in> set (ef_args effect) \<Longrightarrow> map_effect_arg (memo_image e') a = map_effect_arg (memo_image e) a"
  by (cases a) (auto simp: map_effect_arg_def known_def effect_type_args_def memo_image_grows split: effect_arg_ref.splits)

lemma effect_imaged_stable: "stable (effect_imaged start entry effect)"
  unfolding stable_def
proof (intro allI impI)
  fix e e' :: "('a, 'b, 'c, 'd) type_substitution_engine" assume a: "engine_le e e'" "effect_imaged start entry effect e"
  have "map_effect e' (memo_image e') start entry = map_effect e (memo_image e) start entry"
    using a engine_le_same [OF a(1)] map_effect_arg_known [OF a(1)] by (auto simp: effect_imaged_def map_effect_def)
  then show "effect_imaged start entry effect e'" using a known_grows by (auto simp: effect_imaged_def)
qed

lemma known_expanded:
  "known e (expanded_types x) \<longleftrightarrow> (\<forall>entry \<in> set (enumerate 0 (rr_effects (xr_row x))).
     (case xr_argument_start x of None \<Rightarrow> False | Some start \<Rightarrow> start \<le> fst entry) \<or> known e (effect_type_args (snd entry)))"
proof -
  have "known e (concat (map g xs)) \<longleftrightarrow> (\<forall>x \<in> set xs. known e (g x))" for g and xs :: "(nat \<times> effect_ref) list"
    by (auto simp: known_def)
  moreover have "known e (if b then [] else ts) \<longleftrightarrow> b \<or> known e ts" for b ts by (simp add: known_def)
  ultimately show ?thesis unfolding expanded_types_def case_prod_unfold by simp
qed

lemma list_all2_determined: "list_all2 (\<lambda>x y. P x \<and> y = g x) xs ys \<longleftrightarrow> (\<forall>x \<in> set xs. P x) \<and> ys = map g xs"
  by (induction xs arbitrary: ys) (auto simp: list_all2_Cons1)

lemma effects_imaged:
  "list_all2 (\<lambda>entry effect. effect_imaged (xr_argument_start x) entry effect e) (enumerate 0 (rr_effects (xr_row x))) effects \<longleftrightarrow>
     known e (expanded_types x) \<and> effects = map (map_effect e (memo_image e) (xr_argument_start x)) (enumerate 0 (rr_effects (xr_row x)))"
  unfolding effect_imaged_def list_all2_determined known_expanded ..

lemma row_imaged_stable: "stable (row_imaged row row')"
  unfolding stable_def
proof (intro allI impI)
  fix e e' :: "('a, 'b, 'c, 'd) type_substitution_engine" assume a: "engine_le e e'" "row_imaged row row' e"
  then obtain x where x: "row_expands e row x" "known e (expanded_types x)" "row' = row_image e (memo_image e) row x" by (auto simp: row_imaged_def)
  let ?effects = "\<lambda>e. map (map_effect e (memo_image e) (xr_argument_start x)) (enumerate 0 (rr_effects (xr_row x)))"
  have "list_all2 (\<lambda>entry effect. effect_imaged (xr_argument_start x) entry effect e) (enumerate 0 (rr_effects (xr_row x))) (?effects e)"
    using effects_imaged x(2) by blast
  then have "list_all2 (\<lambda>entry effect. effect_imaged (xr_argument_start x) entry effect e') (enumerate 0 (rr_effects (xr_row x))) (?effects e)"
    by (rule list_all2_mono) (use stableD [OF effect_imaged_stable a(1)] in blast)
  then have k: "known e' (expanded_types x)" and eq: "?effects e = ?effects e'" using effects_imaged by blast+
  have "row' = row_image e' (memo_image e') row x" unfolding x(3) row_image_def eq ..
  then show "row_imaged row row' e'" using k x(1) engine_le_same [OF a(1)] by (auto simp: row_imaged_def)
qed

lemma expand_equations_value: "expand_equations equations row visited e = Some (Inr r, e') \<Longrightarrow> unfolds equations row r"
proof (induction equations row visited e arbitrary: r e' rule: expand_equations.induct)
  case (1 equations row visited e)
  show ?case
  proof (cases "next_equation equations row")
    case None
    with 1(3) show ?thesis by (auto simp: expand_equations.simps [of equations row visited e] intro: unfolds_end)
  next
    case (Some tb)
    obtain tail b where tb: "tb = (tail, b)" by force
    with Some 1 have "unfolds equations (extend_row row b) r"
      by (auto simp: expand_equations.simps [of equations row visited e] split: option.splits sum.splits if_splits)
    with Some tb show ?thesis by (auto intro: unfolds_step)
  qed
qed

lemma expanded_row_value: "expanded_row row e = Some (Inr x, e') \<Longrightarrow> row_expands e row x"
  unfolding expanded_row_def sub_read_def
  by (auto simp: row_expands_def sub_fail_def sub_ok_def expand_arguments_def expand_equations_value elim!: sub_bind_cases
      split: if_splits option.splits effect_row_substitution.splits)

lemma runs_expanded_row: "runs A e (expanded_row row) (\<lambda>x e'. row_expands e' row x)"
  by (rule runs_quietI) (auto simp: expanded_row_value engine_le_same)

lemma unique_effects_value: "unique_effects original index seen effects e = Some (Inr us, e') \<Longrightarrow> us = unique_list original index seen effects"
  by (induction effects arbitrary: index seen e us e') (auto simp: sub_ok_def Let_def elim!: sub_bind_cases)

lemmas quiet_step = runs_quiet [OF quiet.preserves_checkpoint(1)] runs_quiet [OF quiet.preserves_charge_node]
  runs_quiet [OF quiet.preserves_charge_edges]

text \<open>
  What assembly asks of the nested calls: a call that succeeds returns what the engine has recorded
  for the type, and keeps the records sound.
\<close>

locale sound_calls =
  fixes A :: "('s::linorder, 'd, 'g) code_api" and f :: "type_id \<Rightarrow> ('s, 'd, 'g, 'e, type_id) sub"
  assumes call: "runs A e (f t) (\<lambda>r e'. se_memo e' t = Some r)"
begin

lemma call_le: "preserves engine_le (f t)"
  using call by (auto simp: preserves_def runs_def)

lemma runs_argument: "runs A e (substitute_argument f t) (\<lambda>r e'. r = t \<and> type_data e' t \<noteq> None)"
  unfolding runs_def
proof (intro allI impI conjI)
  fix result e' assume run: "substitute_argument f t e = Some (result, e')"
  show "engine_le e e'" using preservesD [OF growth.preserves_argument run] call_le by blast
  assume "ready A e"
  then have plain: "se_variables e = None" "se_closed_named_types e = None" by (simp_all add: ready_def plain_engine_def)
  have req: "require_type t e = Some (r, e1) \<Longrightarrow> e1 = e \<and> (\<exists>d. r = Inr d \<longrightarrow> type_data e t = Some d)" for r e1
    by (auto simp: require_type_def sub_read_def sub_ok_def sub_fail_def split: option.splits)
  from run have "e' = e \<and> (\<forall>v. result = Inr v \<longrightarrow> v = t \<and> type_data e t \<noteq> None)"
    unfolding substitute_argument_def using plain
    by (auto simp: require_type_def sub_read_def sub_ok_def sub_fail_def elim!: sub_bind_cases split: option.splits)
  with \<open>ready A e\<close> show "ready A e'" "\<And>v. result = Inr v \<Longrightarrow> v = t" "\<And>v. result = Inr v \<Longrightarrow> type_data e' t \<noteq> None" by auto
qed

lemma runs_types: "runs A e (sub_map f ts) (\<lambda>rs e'. known e' ts \<and> rs = map (memo_image e') ts)"
  by (rule runs_conseq [OF runs_map [OF call stable_memo]]) (simp add: memo_images)

lemma runs_effect_arg:
  "runs A e (substitute_effect_arg f b a)
     (\<lambda>a' e'. if b then a' = a else a' = map_effect_arg (memo_image e') a \<and> known e' (case a of ArgType t \<Rightarrow> [t] | _ \<Rightarrow> []))"
  unfolding substitute_effect_arg_def
proof (rule runs_then [OF quiet_step(1)])
  fix e1
  show "runs A e1 (case a of ArgType t \<Rightarrow> sub_bind (if b then substitute_argument f t else f t) (\<lambda>t. sub_ok (ArgType t)) | a \<Rightarrow> sub_ok a)
     (\<lambda>a' e'. if b then a' = a else a' = map_effect_arg (memo_image e') a \<and> known e' (case a of ArgType t \<Rightarrow> [t] | _ \<Rightarrow> []))"
  proof (cases a)
    case (ArgType t)
    show ?thesis
    proof (cases b)
      case True
      show ?thesis unfolding ArgType effect_arg_ref.case using True
        by simp (rule runs_bind [OF runs_argument], rule runs_ok, simp)
    next
      case False
      show ?thesis unfolding ArgType effect_arg_ref.case using False
        by simp (rule runs_bind [OF call], rule runs_ok, simp add: map_effect_arg_def memo_image_def known_def)
    qed
  qed (auto intro: runs_ok simp: map_effect_arg_def known_def)
qed

lemma runs_effect: "runs A e (substitute_effect f start entry) (effect_imaged start entry)"
proof -
  obtain index effect where entry: "entry = (index, effect)" by force
  define b where "b = (case start of None \<Rightarrow> False | Some start \<Rightarrow> start \<le> index)"
  let ?P = "\<lambda>a a' (e' :: ('s, 'd, 'g, 'e) type_substitution_engine). if b then a' = a else a' = map_effect_arg (memo_image e') a \<and> known e' (case a of ArgType t \<Rightarrow> [t] | _ \<Rightarrow> [])"
  have st: "stable (?P a a')" for a a'
  proof (cases a)
    case (ArgType t)
    have "\<lbrakk>engine_le e e'; known e [t]\<rbrakk> \<Longrightarrow> known e' [t] \<and> memo_image e' t = memo_image e t" for e e' :: "('s, 'd, 'g, 'e) type_substitution_engine"
      using known_grows [of e e' "[t]"] known_map [of e e' "[t]"] by simp
    with ArgType show ?thesis by (auto simp: stable_def map_effect_arg_def)
  qed (auto simp: stable_def map_effect_arg_def known_def)
  have args: "list_all2 (\<lambda>a a'. ?P a a' e') (ef_args effect) args \<Longrightarrow>
      (b \<or> known e' (effect_type_args effect)) \<and> args = (if b then ef_args effect else map (map_effect_arg (memo_image e')) (ef_args effect))" for args e'
  proof (cases b)
    case True
    assume "list_all2 (\<lambda>a a'. ?P a a' e') (ef_args effect) args"
    with True show ?thesis using list_all2_determined [of "\<lambda>_. True" "\<lambda>a. a" "ef_args effect" args] by simp
  next
    case False
    assume "list_all2 (\<lambda>a a'. ?P a a' e') (ef_args effect) args"
    then have "list_all2 (\<lambda>a a'. known e' (case a of ArgType t \<Rightarrow> [t] | _ \<Rightarrow> []) \<and> a' = map_effect_arg (memo_image e') a) (ef_args effect) args"
      by (rule list_all2_mono) (use False in auto)
    then show ?thesis unfolding list_all2_determined using False by (auto simp: known_def effect_type_args_def)
  qed
  have name: "runs A e (rename_effect nm) (\<lambda>n e'. n = (case effect_names e' of None \<Rightarrow> nm | Some names \<Rightarrow> the (names nm)))" for e nm
    unfolding rename_effect_def by (rule runs_read) (auto intro: runs_ok runs_fail split: option.split)
  show ?thesis unfolding substitute_effect_def entry prod.case
  proof (rule runs_then [OF quiet_step(1)], rule runs_then [OF quiet_step(2)], rule runs_then [OF quiet_step(3)], rule runs_bind [OF name],
      rule runs_bind [OF runs_map [OF runs_effect_arg st [unfolded b_def]]], rule runs_ok)
    fix nm args and e3 e4 :: "('s, 'd, 'g, 'e) type_substitution_engine"
    assume e3: "engine_le e3 e4"
    show "list_all2 (\<lambda>a a'. if case start of None \<Rightarrow> False | Some start \<Rightarrow> start \<le> index then a' = a
          else a' = map_effect_arg (memo_image e4) a \<and> known e4 (case a of ArgType t \<Rightarrow> [t] | _ \<Rightarrow> [])) (ef_args effect) args \<longrightarrow>
        nm = (case effect_names e3 of None \<Rightarrow> ef_name effect | Some names \<Rightarrow> the (names (ef_name effect))) \<longrightarrow>
        effect_imaged start (index, effect) (EffectRef nm args) e4"
    proof (intro impI)
      assume "list_all2 (\<lambda>a a'. if case start of None \<Rightarrow> False | Some start \<Rightarrow> start \<le> index then a' = a
          else a' = map_effect_arg (memo_image e4) a \<and> known e4 (case a of ArgType t \<Rightarrow> [t] | _ \<Rightarrow> [])) (ef_args effect) args"
        and "nm = (case effect_names e3 of None \<Rightarrow> ef_name effect | Some names \<Rightarrow> the (names (ef_name effect)))"
      then have "b \<or> known e4 (effect_type_args effect)" "args = (if b then ef_args effect else map (map_effect_arg (memo_image e4)) (ef_args effect))"
          "nm = (case effect_names e4 of None \<Rightarrow> ef_name effect | Some names \<Rightarrow> the (names (ef_name effect)))"
        using args engine_le_same [OF e3] unfolding b_def by auto
      then show "effect_imaged start (index, effect) (EffectRef nm args) e4"
        by (simp only: effect_imaged_def map_effect_def fst_conv snd_conv b_def [symmetric] simp_thms)
    qed
  qed
qed

lemma runs_row: "runs A e (substitute_effect_row f row) (row_imaged row)"
  unfolding substitute_effect_row_def
proof (rule runs_then [OF quiet_step(1)], rule runs_bind [OF runs_expanded_row],
    rule runs_bind [OF runs_map [OF runs_effect effect_imaged_stable]],
    rule runs_bind [OF runs_quietI [OF quiet.preserves_unique]], rule unique_effects_value, assumption, rule runs_ok)
  fix x effects us and e1 e2 e3 :: "('s, 'd, 'g, 'e) type_substitution_engine"
  assume e: "engine_le e1 e2" "engine_le e2 e3"
  show "us = unique_list (length (rr_effects row)) 0 {} effects \<longrightarrow>
      list_all2 (\<lambda>entry effect. effect_imaged (xr_argument_start x) entry effect e2) (enumerate 0 (rr_effects (xr_row x))) effects \<longrightarrow>
      row_expands e1 row x \<longrightarrow> row_imaged row (EffectRowRef us (rr_tail (xr_row x))) e3"
  proof (intro impI)
    assume us: "us = unique_list (length (rr_effects row)) 0 {} effects" and "row_expands e1 row x"
      and "list_all2 (\<lambda>entry effect. effect_imaged (xr_argument_start x) entry effect e2) (enumerate 0 (rr_effects (xr_row x))) effects"
    then have k: "known e2 (expanded_types x)" "row_expands e2 row x"
        and us: "us = unique_list (length (rr_effects row)) 0 {} (map (map_effect e2 (memo_image e2) (xr_argument_start x)) (enumerate 0 (rr_effects (xr_row x))))"
      using engine_le_same [OF e(1)] unfolding effects_imaged by simp_all
    have "row_imaged row (EffectRowRef us (rr_tail (xr_row x))) e2"
      unfolding row_imaged_def row_image_def us using k by blast
    then show "row_imaged row (EffectRowRef us (rr_tail (xr_row x))) e3" using stableD [OF row_imaged_stable e(2)] by blast
  qed
qed

text \<open>The parts of a type, row by row and child by child.\<close>

lemma runs_bound:
  "runs A e (substitute_bound f b) (\<lambda>b' e'. known e' (sb_args b) \<and> b' = SpecBound (spec_image e' (sb_spec b)) (map (memo_image e') (sb_args b)))"
  unfolding substitute_bound_def
proof (rule runs_read)
  show "runs A e (case Option.bind (se_spec_identities e) (\<lambda>ids. fmlookup ids (sb_spec b)) of
       Some identity \<Rightarrow> sub_bind (sub_map f (sb_args b)) (\<lambda>args. sub_ok (SpecBound identity args))
     | None \<Rightarrow> if is_relocation e \<and> se_declared_spec e (sb_spec b) then sub_fail (MissingSpecIdentity (sb_spec b))
         else sub_bind (sub_map f (sb_args b)) (\<lambda>args. sub_ok (SpecBound (sb_spec b) args)))
     (\<lambda>b' e'. known e' (sb_args b) \<and> b' = SpecBound (spec_image e' (sb_spec b)) (map (memo_image e') (sb_args b)))"
  proof -
    have "runs A e (sub_bind (sub_map f (sb_args b)) (\<lambda>args. sub_ok (SpecBound (spec_image e (sb_spec b)) args)))
       (\<lambda>b' e'. known e' (sb_args b) \<and> b' = SpecBound (spec_image e' (sb_spec b)) (map (memo_image e') (sb_args b)))"
      by (rule runs_bind [OF runs_types], rule runs_ok) (auto simp: engine_le_same)
    note image = this
    show ?thesis
    proof (cases "Option.bind (se_spec_identities e) (\<lambda>ids. fmlookup ids (sb_spec b))")
      case None
      then have "spec_image e (sb_spec b) = sb_spec b" by (simp add: spec_image_def)
      with image None show ?thesis by (simp add: runs_fail)
    next
      case (Some identity)
      then have "spec_image e (sb_spec b) = identity" by (simp add: spec_image_def)
      with image Some show ?thesis by simp
    qed
  qed
qed

lemma runs_bounds:
  "runs A e (sub_map (substitute_bound f) bs) (\<lambda>bs' e'. known e' (concat (map sb_args bs)) \<and>
     bs' = map (\<lambda>b. SpecBound (spec_image e' (sb_spec b)) (map (memo_image e') (sb_args b))) bs)"
proof (rule runs_conseq [OF runs_map [OF runs_bound]])
  fix b b'
  show "stable (\<lambda>e'. known e' (sb_args b) \<and> b' = SpecBound (spec_image e' (sb_spec b)) (map (memo_image e') (sb_args b)))"
    unfolding stable_def using known_grows known_map engine_le_same by metis
next
  fix bs' e'
  assume "list_all2 (\<lambda>b b'. known e' (sb_args b) \<and> b' = SpecBound (spec_image e' (sb_spec b)) (map (memo_image e') (sb_args b))) bs bs'"
  then show "known e' (concat (map sb_args bs)) \<and> bs' = map (\<lambda>b. SpecBound (spec_image e' (sb_spec b)) (map (memo_image e') (sb_args b))) bs"
    unfolding list_all2_determined by (auto simp: known_def)
qed

lemma runs_fields:
  "runs A e (sub_map (substitute_field f) fs) (\<lambda>fs' e'. known e' (map ft_ty fs) \<and>
     fs' = map (\<lambda>field. FieldType (ft_name field) (memo_image e' (ft_ty field))) fs)"
proof (rule runs_conseq [OF runs_map])
  fix field e0
  show "runs A e0 (substitute_field f field) (\<lambda>field' e'. se_memo e' (ft_ty field) \<noteq> None \<and> field' = FieldType (ft_name field) (memo_image e' (ft_ty field)))"
    unfolding substitute_field_def by (rule runs_bind [OF call], rule runs_ok) (simp add: memo_image_def)
next
  fix field field'
  show "stable (\<lambda>e'. se_memo e' (ft_ty field) \<noteq> None \<and> field' = FieldType (ft_name field) (memo_image e' (ft_ty field)))"
    unfolding stable_def using known_grows [of _ _ "[ft_ty field]"] memo_image_grows by (fastforce simp: known_def)
next
  fix fs' e'
  assume "list_all2 (\<lambda>field field'. se_memo e' (ft_ty field) \<noteq> None \<and> field' = FieldType (ft_name field) (memo_image e' (ft_ty field))) fs fs'"
  then show "known e' (map ft_ty fs) \<and> fs' = map (\<lambda>field. FieldType (ft_name field) (memo_image e' (ft_ty field))) fs"
    unfolding list_all2_determined by (auto simp: known_def)
qed

lemma runs_one:
  "runs A e (sub_bind (f x) (\<lambda>x. sub_ok (Some (build x)))) (\<lambda>d e'. known e' [x] \<and> d = Some (build (memo_image e' x)))"
  by (rule runs_bind [OF call], rule runs_ok) (simp add: known_def memo_image_def)

lemma runs_two:
  "runs A e (sub_bind (f x) (\<lambda>x. sub_bind (f y) (\<lambda>y. sub_ok (Some (build x y)))))
     (\<lambda>d e'. known e' [x, y] \<and> d = Some (build (memo_image e' x) (memo_image e' y)))"
proof (rule runs_bind [OF call], rule runs_bind [OF call], rule runs_ok)
  fix x' e1 y' e2 assume "engine_le e1 e2"
  then show "se_memo e2 y = Some y' \<longrightarrow> se_memo e1 x = Some x' \<longrightarrow> known e2 [x, y] \<and> Some (build x' y') = Some (build (memo_image e2 x) (memo_image e2 y))"
    using stableD [OF stable_memo, of e1 e2 x x'] by (simp add: known_def memo_image_def)
qed

end

definition data_imaged where
  "data_imaged d d' e \<longleftrightarrow> known e (data_children (is_relocation e) d) \<and>
     (\<exists>h. (\<forall>row \<in> set (data_rows d). row_imaged row (h row) e) \<and>
       d' = map_data (is_relocation e) (memo_image e) h (spec_image e) d)"

definition assembled where
  "assembled d result e \<longleftrightarrow>
     (case result of None \<Rightarrow> \<not> is_relocation e \<and> data_imaged d d e | Some d' \<Rightarrow> data_imaged d d' e)"

lemmas data_simps = assembled_def data_imaged_def data_children_def data_rows_def map_data_def

lemma known_simps [simp]: "known e []" "known e (t # ts) \<longleftrightarrow> se_memo e t \<noteq> None \<and> known e ts" "known e (ts @ us) \<longleftrightarrow> known e ts \<and> known e us"
  by (auto simp: known_def)

lemma one_row: "row_imaged row row' e \<Longrightarrow> \<exists>h. row_imaged row (h row) e \<and> h row = row'"
  by (rule exI [of _ "\<lambda>_. row'"]) simp

lemma two_rows: "row_imaged r1 a e \<Longrightarrow> row_imaged r2 b e \<Longrightarrow> \<exists>h. row_imaged r1 (h r1) e \<and> row_imaged r2 (h r2) e \<and> h r1 = a \<and> h r2 = b"
  by (rule exI [of _ "\<lambda>r. if r = r1 then a else b"]) (auto dest: row_imaged_functional)

lemma map_data_cong:
  assumes "\<And>t. t \<in> set (data_children relocation d) \<Longrightarrow> g t = g' t"
  shows "map_data relocation g h sp d = map_data relocation g' h sp d"
  using assms by (cases d) (auto simp: map_data_def data_children_def map_option_case
      split: resource_handle_type.splits option.splits if_splits)

context sound_calls
begin

lemma runs_leaf:
  assumes "data_children (is_relocation e) d = []" "data_rows d = []" "\<And>g h sp. map_data (is_relocation e) g h sp d = d"
  shows "runs A e (sub_ok (Some d)) (assembled d)" "\<not> is_relocation e \<Longrightarrow> runs A e (sub_ok None) (assembled d)"
  using assms by (auto intro!: runs_ok simp: assembled_def data_imaged_def)

lemma runs_function:
  "runs A e (sub_bind (sub_map f input) (\<lambda>input. sub_bind (f output) (\<lambda>output.
     sub_bind (sub_option (substitute_effect_row f) effects) (\<lambda>effects. sub_ok (Some (TyFunction input output effects))))))
   (assembled (TyFunction input output effects))"
proof (rule runs_bind [OF runs_types], rule runs_bind [OF call], rule runs_bind [OF runs_option [OF runs_row]], rule runs_ok)
  fix input' "output'" effects' and e1 e2 e3 :: "('s, 'd, 'g, 'e) type_substitution_engine"
  assume e: "engine_le e1 e2" "engine_le e2 e3"
  note e13 = engine_le_trans [OF e]
  show "(case effects of None \<Rightarrow> effects' = None | Some row \<Rightarrow> \<exists>b. effects' = Some b \<and> row_imaged row b e3) \<longrightarrow>
      se_memo e2 output = Some output' \<longrightarrow> known e1 input \<and> input' = map (memo_image e1) input \<longrightarrow>
      assembled (TyFunction input output effects) (Some (TyFunction input' output' effects')) e3"
  proof (intro impI, elim conjE)
    assume a: "case effects of None \<Rightarrow> effects' = None | Some row \<Rightarrow> \<exists>b. effects' = Some b \<and> row_imaged row b e3"
      "se_memo e2 output = Some output'" "known e1 input" "input' = map (memo_image e1) input"
    have "known e3 input" "input' = map (memo_image e3) input" using known_grows [OF e13 a(3)] known_map [OF e13 a(3)] a(4) by simp_all
    moreover have "se_memo e3 output = Some output'" using stableD [OF stable_memo e(2) a(2)] .
    moreover have "\<exists>h. (\<forall>row. effects = Some row \<longrightarrow> row_imaged row (h row) e3) \<and> effects' = map_option h effects"
      using a(1) one_row by (cases effects) fastforce+
    ultimately show "assembled (TyFunction input output effects) (Some (TyFunction input' output' effects')) e3"
      by (cases effects) (auto simp: data_simps memo_image_def)
  qed
qed

lemma runs_handler:
  "runs A e (sub_bind (substitute_effect_row f handled) (\<lambda>handled.
     sub_bind (case produced of ProducedInfer \<Rightarrow> sub_ok ProducedInfer
        | ProducedExplicit r \<Rightarrow> sub_bind (substitute_effect_row f r) (\<lambda>r. sub_ok (ProducedExplicit r))) (\<lambda>produced.
     sub_bind (sub_option f result) (\<lambda>result. sub_ok (Some (TyHandler handled produced result))))))
   (assembled (TyHandler handled produced result))"
proof -
  have p: "runs A e (case produced of ProducedInfer \<Rightarrow> sub_ok ProducedInfer
        | ProducedExplicit r \<Rightarrow> sub_bind (substitute_effect_row f r) (\<lambda>r. sub_ok (ProducedExplicit r)))
     (\<lambda>p e'. case produced of ProducedInfer \<Rightarrow> p = ProducedInfer | ProducedExplicit r \<Rightarrow> \<exists>r'. p = ProducedExplicit r' \<and> row_imaged r r' e')" for e
    by (cases produced) (auto intro!: runs_ok runs_bind [OF runs_row])
  show ?thesis
  proof (rule runs_bind [OF runs_row], rule runs_bind [OF p], rule runs_bind [OF runs_option [OF call]], rule runs_ok)
    fix handled' produced' result' and e1 e2 e3 :: "('s, 'd, 'g, 'e) type_substitution_engine"
    assume e: "engine_le e1 e2" "engine_le e2 e3"
    note e13 = engine_le_trans [OF e]
    show "(case result of None \<Rightarrow> result' = None | Some t \<Rightarrow> \<exists>b. result' = Some b \<and> se_memo e3 t = Some b) \<longrightarrow>
        (case produced of ProducedInfer \<Rightarrow> produced' = ProducedInfer | ProducedExplicit r \<Rightarrow> \<exists>r'. produced' = ProducedExplicit r' \<and> row_imaged r r' e2) \<longrightarrow>
        row_imaged handled handled' e1 \<longrightarrow>
        assembled (TyHandler handled produced result) (Some (TyHandler handled' produced' result')) e3"
    proof (intro impI)
      assume a: "case result of None \<Rightarrow> result' = None | Some t \<Rightarrow> \<exists>b. result' = Some b \<and> se_memo e3 t = Some b"
        "case produced of ProducedInfer \<Rightarrow> produced' = ProducedInfer | ProducedExplicit r \<Rightarrow> \<exists>r'. produced' = ProducedExplicit r' \<and> row_imaged r r' e2"
        "row_imaged handled handled' e1"
      have h: "row_imaged handled handled' e3" using stableD [OF row_imaged_stable e13 a(3)] .
      have "\<exists>h. row_imaged handled (h handled) e3 \<and> handled' = h handled \<and>
        (case produced of ProducedInfer \<Rightarrow> produced' = ProducedInfer | ProducedExplicit r \<Rightarrow> row_imaged r (h r) e3 \<and> produced' = ProducedExplicit (h r))"
      proof (cases produced)
        case ProducedInfer
        then show ?thesis using a(2) one_row [OF h] by auto
      next
        case (ProducedExplicit r)
        then obtain r' where r': "produced' = ProducedExplicit r'" "row_imaged r r' e2" using a(2) by auto
        from two_rows [OF h stableD [OF row_imaged_stable e(2) r'(2)]] show ?thesis using ProducedExplicit r'(1) by auto
      qed
      then show "assembled (TyHandler handled produced result) (Some (TyHandler handled' produced' result')) e3"
        using a(1) by (cases result; cases produced) (auto simp: data_simps memo_image_def)
    qed
  qed
qed

lemma runs_task:
  "runs A e (sub_bind (f output) (\<lambda>output. sub_bind (substitute_effect_row f effects) (\<lambda>effects. sub_ok (Some (TyTask output effects)))))
   (assembled (TyTask output effects))"
proof (rule runs_bind [OF call], rule runs_bind [OF runs_row], rule runs_ok)
  fix "output'" effects' and e1 e2 :: "('s, 'd, 'g, 'e) type_substitution_engine"
  assume e: "engine_le e1 e2"
  show "row_imaged effects effects' e2 \<longrightarrow> se_memo e1 output = Some output' \<longrightarrow> assembled (TyTask output effects) (Some (TyTask output' effects')) e2"
    using stableD [OF stable_memo e, of "output" "output'"] one_row [of effects effects' e2] by (auto simp: data_simps memo_image_def)
qed

lemma runs_continuation:
  "runs A e (sub_bind (f output) (\<lambda>output. sub_bind (sub_option f answer) (\<lambda>answer.
     sub_bind (sub_option (substitute_effect_row f) residual) (\<lambda>residual. sub_ok (Some (TyContinuation output answer residual))))))
   (assembled (TyContinuation output answer residual))"
proof (rule runs_bind [OF call], rule runs_bind [OF runs_option [OF call]], rule runs_bind [OF runs_option [OF runs_row]], rule runs_ok)
  fix "output'" answer' residual' and e1 e2 e3 :: "('s, 'd, 'g, 'e) type_substitution_engine"
  assume e: "engine_le e1 e2" "engine_le e2 e3"
  show "(case residual of None \<Rightarrow> residual' = None | Some row \<Rightarrow> \<exists>b. residual' = Some b \<and> row_imaged row b e3) \<longrightarrow>
      (case answer of None \<Rightarrow> answer' = None | Some t \<Rightarrow> \<exists>b. answer' = Some b \<and> se_memo e2 t = Some b) \<longrightarrow>
      se_memo e1 output = Some output' \<longrightarrow>
      assembled (TyContinuation output answer residual) (Some (TyContinuation output' answer' residual')) e3"
  proof (intro impI)
    assume a: "case residual of None \<Rightarrow> residual' = None | Some row \<Rightarrow> \<exists>b. residual' = Some b \<and> row_imaged row b e3"
      "case answer of None \<Rightarrow> answer' = None | Some t \<Rightarrow> \<exists>b. answer' = Some b \<and> se_memo e2 t = Some b" "se_memo e1 output = Some output'"
    have "se_memo e3 output = Some output'" using stableD [OF stable_memo engine_le_trans [OF e] a(3)] .
    moreover have "case answer of None \<Rightarrow> answer' = None | Some t \<Rightarrow> \<exists>b. answer' = Some b \<and> se_memo e3 t = Some b"
      using a(2) stableD [OF stable_memo e(2)] by (auto split: option.splits)
    moreover have "\<exists>h. (\<forall>row. residual = Some row \<longrightarrow> row_imaged row (h row) e3) \<and> residual' = map_option h residual"
      using a(1) one_row by (cases residual) fastforce+
    ultimately show "assembled (TyContinuation output answer residual) (Some (TyContinuation output' answer' residual')) e3"
      by (cases residual; cases answer) (auto simp: data_simps memo_image_def)
  qed
qed

lemma runs_applied:
  "runs A e (sub_bind (if is_relocation e then f constructor else sub_ok constructor) (\<lambda>constructor.
     sub_bind (sub_map f args) (\<lambda>args. sub_ok (Some (TyApplied constructor args)))))
   (assembled (TyApplied constructor args))"
proof (rule runs_bind)
  show "runs A e (if is_relocation e then f constructor else sub_ok constructor)
    (\<lambda>c e'. if is_relocation e' then se_memo e' constructor = Some c else c = constructor)"
    by (auto intro!: runs_ok runs_conseq [OF call] simp: engine_le_same)
next
  fix c and e1 :: "('s, 'd, 'g, 'e) type_substitution_engine"
  show "runs A e1 (sub_bind (sub_map f args) (\<lambda>args. sub_ok (Some (TyApplied c args))))
    (\<lambda>y e2. (if is_relocation e1 then se_memo e1 constructor = Some c else c = constructor) \<longrightarrow> assembled (TyApplied constructor args) y e2)"
  proof (rule runs_bind [OF runs_types], rule runs_ok)
    fix args' and e2 :: "('s, 'd, 'g, 'e) type_substitution_engine"
    assume e: "engine_le e1 e2"
    show "known e2 args \<and> args' = map (memo_image e2) args \<longrightarrow>
        (if is_relocation e1 then se_memo e1 constructor = Some c else c = constructor) \<longrightarrow>
        assembled (TyApplied constructor args) (Some (TyApplied c args')) e2"
      using stableD [OF stable_memo e, of constructor c] engine_le_same [OF e] by (auto simp: data_simps memo_image_def)
  qed
qed

lemma runs_data: "runs A e (assemble_data f t d) (assembled d)"
  unfolding assemble_data_def Let_def
proof (rule runs_read, goal_cases)
  case 1
  note leaf = runs_leaf [of e]
  have one: "runs A e (sub_bind (f x) (\<lambda>x. sub_ok (Some (build x)))) (assembled d0)"
    if "data_children (is_relocation e) d0 = [x]" "data_rows d0 = []" "\<And>g h sp. map_data (is_relocation e) g h sp d0 = build (g x)" for x build and d0 :: "'s ty"
    by (rule runs_conseq [OF runs_one]) (use that in \<open>auto simp: assembled_def data_imaged_def engine_le_same\<close>)
  have two: "runs A e (sub_bind (f x) (\<lambda>x. sub_bind (f y) (\<lambda>y. sub_ok (Some (build x y))))) (assembled d0)"
    if "data_children (is_relocation e) d0 = [x, y]" "data_rows d0 = []" "\<And>g h sp. map_data (is_relocation e) g h sp d0 = build (g x) (g y)" for x y build and d0 :: "'s ty"
    by (rule runs_conseq [OF runs_two]) (use that in \<open>auto simp: assembled_def data_imaged_def engine_le_same\<close>)
  have many: "runs A e (sub_bind (sub_map f ts) (\<lambda>ts. sub_ok (Some (build ts)))) (assembled d0)"
    if "data_children (is_relocation e) d0 = ts" "data_rows d0 = []" "\<And>g h sp. map_data (is_relocation e) g h sp d0 = build (map g ts)" for ts build and d0 :: "'s ty"
    by (rule runs_bind [OF runs_types], rule runs_ok) (use that in \<open>auto simp: assembled_def data_imaged_def engine_le_same\<close>)
  note parts = data_children_def data_rows_def map_data_def
  show ?case
  proof (cases d)
    case (TyExistential bs)
    then show ?thesis by simp (rule runs_bind [OF runs_bounds], rule runs_ok, auto simp: data_simps engine_le_same)
  next
    case (TyRecord fs)
    then show ?thesis by simp (rule runs_bind [OF runs_fields], rule runs_ok, auto simp: data_simps engine_le_same)
  next
    case (TyFunction input out effects)
    then show ?thesis using runs_function by simp
  next
    case (TyHandler handled produced result)
    then show ?thesis using runs_handler by simp
  next
    case (TyTask out effects)
    then show ?thesis using runs_task by simp
  next
    case (TyContinuation out answer residual)
    then show ?thesis using runs_continuation by simp
  next
    case (TyApplied constructor args)
    then show ?thesis using runs_applied by simp
  next
    case (TyResourceHandle h)
    then show ?thesis by (cases h) (auto intro!: one many simp: parts)
  qed (auto intro!: one two many leaf runs_fail simp: parts)
qed

end

lemma data_imaged_stable: "stable (data_imaged d d')"
  unfolding stable_def
proof (intro allI impI)
  fix e e' :: "('a::linorder, 'b, 'c, 'd) type_substitution_engine"
  assume e: "engine_le e e'" and "data_imaged d d' e"
  then obtain h where h: "known e (data_children (is_relocation e) d)" "\<forall>row \<in> set (data_rows d). row_imaged row (h row) e"
      "d' = map_data (is_relocation e) (memo_image e) h (spec_image e) d" by (auto simp: data_imaged_def)
  have "known e' (data_children (is_relocation e) d)" using known_grows [OF e h(1)] .
  moreover have "\<forall>row \<in> set (data_rows d). row_imaged row (h row) e'" using h(2) stableD [OF row_imaged_stable e] by blast
  moreover have "map_data (is_relocation e) (memo_image e') h (spec_image e) d = map_data (is_relocation e) (memo_image e) h (spec_image e) d"
    using h(1) memo_image_grows [OF e] map_data_cong by (metis known_def)
  ultimately show "data_imaged d d' e'" using h(3) engine_le_same [OF e] by (auto simp: data_imaged_def)
qed

section \<open>Substitution is sound\<close>

lemma sub_bind_assoc: "sub_bind (sub_bind m f) g = sub_bind m (\<lambda>x. sub_bind (f x) g)"
  by (auto simp: sub_bind_def fun_eq_iff split: option.split sum.split)

lemma grows_in_bounds: "engine_grows e e' \<Longrightarrow> in_bounds e' \<Longrightarrow> in_bounds e"
  by (cases "se_target e"; cases "se_target e'") (auto simp: in_bounds_def engine_grows_def interner_le_def store_le_def)

lemma finish_in_bounds:
  assumes "\<And>t. preserves engine_le (f t)" "finish_type f current e = Some (result, e')" "in_bounds e'"
  shows "in_bounds e"
  using finish_type_le [OF assms(1,2)] assms(3) engine_le_in_bounds by (fastforce simp: in_bounds_def)

lemma ready_active: "ready A e \<Longrightarrow> ready A (e\<lparr>se_active := S\<rparr>)"
proof -
  assume r: "ready A e"
  have "engine_grows e (e\<lparr>se_active := S\<rparr>)" by (simp add: engine_grows_def same_settings_def)
  from substitutes_grows [OF this] r show ?thesis by (simp add: ready_def plain_engine_def target_ok_def memo_sound_def)
qed

lemma intern_result:
  assumes "interner_ok A x" "store_len (in_store (snd (interner_intern t x))) < 2 ^ 32"
  shows "store_get (in_store (snd (interner_intern t x))) (fst (interner_intern t x)) = Some (canonical_type t)"
proof -
  have len: "store_len (in_store x) < 2 ^ 32" using intern_len [of x t] assms(2) by simp
  show ?thesis
  proof (cases "known_type x (canonical_type t)")
    case None
    then show ?thesis using len by (simp add: intern_unfold)
  next
    case (Some i)
    then show ?thesis using len known_type_sound [OF assms(1) Some] by (simp add: intern_unfold)
  qed
qed

lemma lookup_index_get_sound: "lookup_index_get h x s t = Some i \<Longrightarrow> store_get s i = Some t"
  by (auto simp: lookup_index_get_def find_Some_iff split: option.splits if_splits)

lemma place_type_value:
  assumes "place_type d e = Some (Inr r, e')" "target_ok A e" "in_bounds e'"
  shows "output_has e' r d"
proof (cases "se_target e")
  case (Materialize x)
  with assms intern_result [of A x d] show ?thesis
    by (auto simp: place_type_def output_has_def target_ok_def in_bounds_def split: prod.splits)
next
  case (Existing s)
  have "store_get s i = Some d" if "find (\<lambda>(_, candidate). candidate = d) (store_iter s) = Some (i, t)" "store_len s < 2 ^ 32" for i t
    using that store_iter_small [of s] by (auto simp: find_Some_iff nth_enumerate_eq store_get_Some_iff)
  with Existing assms show ?thesis
    by (auto simp: place_type_def output_has_def in_bounds_def split: option.splits dest: lookup_index_get_sound)
next
  case (Relocate input)
  with assms show ?thesis by (auto simp: place_type_def output_has_def split: option.splits dest: lookup_index_get_sound)
next
  case (RelocateMaterialize input)
  with assms intern_result [of A "rm_target input" d] show ?thesis
    by (auto simp: place_type_def output_has_def target_ok_def in_bounds_def split: prod.splits)
qed

lemma runs_place: "runs A e (place_type d) (\<lambda>r e'. output_has e' r d)"
  by (rule runs_quietI [OF quiet.preserves_place]) (auto intro: place_type_value simp: ready_def)

lemma runs_require: "runs A e (require_type t) (\<lambda>d e'. type_data e' t = Some d)"
  by (rule runs_quietI [OF quiet.preserves_require])
    (auto simp: require_type_def sub_read_def sub_ok_def sub_fail_def split: option.splits)

lemma require_type_same: "require_type t e = Some (r, e') \<Longrightarrow> e' = e"
  by (auto simp: require_type_def sub_read_def sub_ok_def sub_fail_def split: option.splits)

lemma runs_materialize: "type_data e t = Some d \<Longrightarrow> runs A e (materialize t d') (\<lambda>r e'. placed e' t d d' r)"
  unfolding materialize_def
proof (rule runs_read, cases "is_relocation e")
  case True
  then show "runs A e (if is_relocation e then place_type d' else sub_bind (require_type t) (\<lambda>d. if d = d' then sub_ok t else place_type d'))
      (\<lambda>r e'. placed e' t d d' r)"
    by simp (rule runs_conseq [OF runs_place], simp add: placed_def engine_le_same)
next
  case False
  assume d: "type_data e t = Some d"
  have "require_type t e = Some (Inr d, e)" using d by (simp add: require_type_def sub_read_def sub_ok_def)
  then have "sub_bind (require_type t) (\<lambda>d. if d = d' then sub_ok t else place_type d') e = (if d = d' then sub_ok t else place_type d') e"
    by (simp add: sub_bind_def)
  moreover have "runs A e (if d = d' then sub_ok t else place_type d') (\<lambda>r e'. placed e' t d d' r)"
    using False by (auto intro!: runs_ok runs_conseq [OF runs_place] simp: placed_def engine_le_same)
  ultimately show "runs A e (if is_relocation e then place_type d' else sub_bind (require_type t) (\<lambda>d. if d = d' then sub_ok t else place_type d'))
      (\<lambda>r e'. placed e' t d d' r)" using False by (simp add: runs_def)
qed

lemma memo_substitutes: "ready A e \<Longrightarrow> known e ts \<Longrightarrow> t \<in> set ts \<Longrightarrow> substitutes e t (memo_image e t)"
  by (auto simp: ready_def memo_sound_def known_def memo_image_def)

lemma imaged_substitutes:
  assumes "ready A e" "type_data e t = Some d" "mapped_declaration e t = None" "proper_replacement e t d = None"
    "data_imaged d d' e" "placed e t d d' r"
  shows "substitutes e t r"
proof -
  from assms(5) obtain h where h: "known e (data_children (is_relocation e) d)" "\<forall>row \<in> set (data_rows d). row_imaged row (h row) e"
      "d' = map_data (is_relocation e) (memo_image e) h (spec_image e) d" by (auto simp: data_imaged_def)
  show ?thesis
  proof (rule substitutes_data [OF assms(2-4)])
    show "\<forall>c \<in> set (data_children (is_relocation e) d). substitutes e c (memo_image e c)"
      using memo_substitutes [OF assms(1) h(1)] by blast
    show "\<forall>row \<in> set (data_rows d). \<exists>x. row_expands e row x \<and> (\<forall>c \<in> set (expanded_types x). substitutes e c (memo_image e c)) \<and>
        h row = row_image e (memo_image e) row x"
      using h(2) memo_substitutes [OF assms(1)] unfolding row_imaged_def by blast
    show "placed e t d (map_data (is_relocation e) (memo_image e) h (spec_image e) d) r" using assms(6) h(3) by simp
  qed
qed

context sound_calls
begin

lemma runs_assemble: "runs A e (assemble f t) (\<lambda>r e'. substitutes e' t r)"
proof (cases "type_data e t")
  case None
  then show ?thesis by (simp add: runs_def assemble_def sub_bind_def require_type_def sub_read_def sub_fail_def)
next
  case d: (Some d)
  let ?body = "case mapped_declaration e t of Some mapped \<Rightarrow> if target_has e mapped then sub_ok mapped else sub_fail (MissingType mapped)
       | None \<Rightarrow> (case proper_replacement e t d of Some r \<Rightarrow> if is_named d then substitute_argument f r else f r
            | None \<Rightarrow> sub_bind (assemble_data f t d) (\<lambda>specialized. case specialized of None \<Rightarrow> sub_ok t | Some specialized \<Rightarrow> materialize t specialized))"
  have "runs A e ?body (\<lambda>r e'. substitutes e' t r)"
  proof (cases "mapped_declaration e t")
    case (Some mapped)
    then show ?thesis using d by (auto intro!: runs_ok runs_fail intro: substitutes_mapped)
  next
    case m: None
    show ?thesis
    proof (cases "proper_replacement e t d")
      case (Some r)
      have keep: "engine_le e e' \<Longrightarrow> type_data e' t = Some d \<and> mapped_declaration e' t = None \<and> proper_replacement e' t d = Some r" for e' :: "('s, 'd, 'g, 'e) type_substitution_engine"
        using engine_grows_data(1) [OF engine_leD(1) d, of e'] engine_grows_same(2,3) [OF engine_leD(1), of e e'] m Some by auto
      show ?thesis
      proof (cases "is_named d")
        case True
        then show ?thesis using m Some
          by simp (rule runs_conseq [OF runs_argument], use keep in \<open>blast intro: substitutes_argument\<close>)
      next
        case False
        have "substitutes e' t v" if "engine_le e e'" "ready A e'" "se_memo e' r = Some v" for v and e' :: "('s, 'd, 'g, 'e) type_substitution_engine"
          using keep [OF that(1)] that(2,3) False by (auto simp: ready_def memo_sound_def intro: substitutes_binding)
        then show ?thesis using m Some False by simp (rule runs_conseq [OF call])
      qed
    next
      case None
      have keep: "engine_le e e' \<Longrightarrow> type_data e' t = Some d \<and> mapped_declaration e' t = None \<and> proper_replacement e' t d = None" for e' :: "('s, 'd, 'g, 'e) type_substitution_engine"
        using engine_grows_data(1) [OF engine_leD(1) d, of e'] engine_grows_same(2,3) [OF engine_leD(1), of e e'] m None by auto
      have "runs A e (sub_bind (assemble_data f t d) (\<lambda>specialized. case specialized of None \<Rightarrow> sub_ok t | Some specialized \<Rightarrow> materialize t specialized))
          (\<lambda>r e'. substitutes e' t r)"
      proof (rule runs_bind [OF runs_data])
        fix specialized and e1 :: "('s, 'd, 'g, 'e) type_substitution_engine"
        assume e1: "engine_le e e1"
        note k1 = keep [OF e1]
        show "runs A e1 (case specialized of None \<Rightarrow> sub_ok t | Some specialized \<Rightarrow> materialize t specialized)
            (\<lambda>r e2. assembled d specialized e1 \<longrightarrow> substitutes e2 t r)"
        proof (cases specialized)
          case None
          then show ?thesis
            by simp (rule runs_ok, use k1 in \<open>auto simp: assembled_def placed_def intro: imaged_substitutes\<close>)
        next
          case (Some d')
          have "substitutes e2 t r" if "engine_le e1 e2" "ready A e2" "placed e2 t d d' r" "data_imaged d d' e1" for r and e2 :: "('s, 'd, 'g, 'e) type_substitution_engine"
          proof -
            note k2 = keep [OF engine_le_trans [OF e1 that(1)]]
            show ?thesis by (rule imaged_substitutes [OF that(2) _ _ _ stableD [OF data_imaged_stable that(1,4)] that(3)]) (use k2 in simp_all)
          qed
          then show ?thesis unfolding Some option.case using k1
            by (intro runs_conseq [OF runs_materialize]) (auto simp: assembled_def)
        qed
      qed
      with m None show ?thesis by simp
    qed
  qed
  moreover have "assemble f t e = ?body e"
    using d by (simp add: assemble_def sub_bind_def require_type_def sub_read_def sub_ok_def)
  ultimately show ?thesis by (simp add: runs_def)
qed

lemma finish_ready:
  assumes run: "finish_type f current e = Some (result, e')" and "ready A e" "in_bounds e'" "current \<in> se_active e" "se_memo e current = None"
  shows "ready A e'"
proof -
  have prep: "runs A e (sub_bind (record_depth current) (\<lambda>_. assemble f current)) (\<lambda>r e'. substitutes e' current r)"
    by (rule runs_then [OF runs_quiet [OF record_depth_quiet] runs_assemble])
  from run have "sub_bind (sub_bind (record_depth current) (\<lambda>_. assemble f current)) (\<lambda>specialized e.
       Some (Inr (), e\<lparr>se_active := se_active e - {current}, se_memo := (se_memo e)(current \<mapsto> specialized)\<rparr>)) e = Some (result, e')"
    by (simp add: finish_type_def sub_bind_assoc)
  then show ?thesis
  proof (cases rule: sub_bind_cases)
    case (1 err)
    then show ?thesis using prep assms by (auto simp: runs_def)
  next
    case (2 specialized e2)
    then have e': "e' = e2\<lparr>se_active := se_active e2 - {current}, se_memo := (se_memo e2)(current \<mapsto> specialized)\<rparr>" by simp
    have le: "engine_le e e2" and "in_bounds e2" using prep 2(1) assms(3) by (auto simp: runs_def e' in_bounds_def)
    then have r: "ready A e2" "substitutes e2 current specialized" using prep 2(1) assms(2) by (auto simp: runs_def)
    have "se_memo e2 current = None" using engine_leD(3) [OF le assms(4,5)] .
    then have g: "engine_grows e2 e'" by (auto simp: e' engine_grows_def same_settings_def map_le_def)
    have "memo_sound e'"
      unfolding memo_sound_def using r substitutes_grows [OF g] by (auto simp: e' ready_def memo_sound_def)
    then show ?thesis using r(1) by (simp add: ready_def e' plain_engine_def target_ok_def)
  qed
qed

lemma loop_ready:
  "substitute_loop f n pending entered e = Some (result, entered', e') \<Longrightarrow> loop_state e0 pending entered e \<Longrightarrow>
   ready A e \<Longrightarrow> in_bounds e' \<Longrightarrow> ready A e'"
proof (induction n arbitrary: pending entered e)
  case (Suc n)
  show ?case
  proof (cases pending)
    case Nil
    with Suc.prems show ?thesis by simp
  next
    case (Cons p rest)
    obtain current fin where p: "p = (current, fin)" by force
    note l = Suc.prems(2) [unfolded Cons p]
    have later: "in_bounds e1" if "substitute_loop f n pending1 entered1 e1 = Some (result, entered', e')" "loop_state e0 pending1 entered1 e1"
      for pending1 entered1 e1
      using substitute_loop_le [OF call_le that] Suc.prems(4) grows_in_bounds by blast
    from Suc.prems(1) [unfolded Cons p] show ?thesis
    proof (cases rule: substitute_loop_cases)
      case (interrupted err)
      then show ?thesis using quiet_ready Suc.prems by blast
    next
      case (skip e1)
      have l1: "loop_state e0 rest entered e1" using loop_state_pending [OF loop_state_step [OF l quiet_leD(1) [OF skip(1)]]] by auto
      with skip Suc later [OF skip(3) l1] quiet_ready show ?thesis by blast
    next
      case (finish r e1 e2)
      have l1: "loop_state e0 ((current, True) # rest) entered e1" using loop_state_step [OF l quiet_leD(1) [OF finish(2)]] finish(1) by simp
      then have c: "current \<in> se_active e1" using finish(3) by (auto simp: loop_state_def)
      have done2: "ready A e2" if "in_bounds e2"
        using finish_ready [OF finish(4) _ that c finish(3)] quiet_ready [OF finish(2)] Suc.prems(3) finish_in_bounds [OF call_le finish(4) that] by blast
      from finish_type_le [OF call_le finish(4)] finish(5) show ?thesis
      proof (elim disjE exE conjE)
        fix ea specialized eb
        assume a: "r = Inr ()" "engine_le e1 eb" "e2 = eb\<lparr>se_active := se_active eb - {current}, se_memo := (se_memo eb)(current \<mapsto> specialized)\<rparr>"
          and rest: "substitute_loop f n rest entered e2 = Some (result, entered', e')"
        have l2: "loop_state e0 rest entered e2" unfolding a(3) by (rule loop_state_finish [OF l1 finish(3) a(2)])
        show ?thesis using Suc.IH [OF rest l2 done2 Suc.prems(4)] later [OF rest l2] by blast
      qed (use done2 Suc.prems(4) in auto)
    next
      case (enter r e1 e2)
      let ?e = "e1\<lparr>se_active := insert current (se_active e1)\<rparr>"
      have l1: "loop_state e0 ((current, True) # rest) (entered @ [current]) ?e"
        using loop_state_enter [OF _ enter(4) engine_le_refl] loop_state_step [OF l quiet_leD(1) [OF enter(2)]] enter(1) by simp
      have l2: "loop_state e0 (map (\<lambda>d. (d, False)) ds @ (current, True) # rest) (entered @ [current]) e2" for ds
        using loop_state_step [OF l1 preservesD [OF growth.preserves_expand enter(5)]] by (auto simp: loop_state_def)
      have q: "quiet_le ?e e2" using preservesD [OF quiet.preserves_expand enter(5)] .
      have b: "in_bounds e2" using enter(6) Suc.prems(4) later [OF _ l2] by blast
      then have "in_bounds e1" using engine_le_in_bounds [OF quiet_leD(1) [OF q]] by (simp add: in_bounds_def)
      then have "ready A ?e" using quiet_ready [OF enter(2) Suc.prems(3)] by (intro ready_active)
      then have "ready A e2" using quiet_ready [OF q _ b] by blast
      with enter(6) Suc.IH [OF _ l2 _ Suc.prems(4)] show ?thesis by blast
    qed
  qed
qed simp

lemma runs_substitute_with: "runs A e (substitute_with f n t) (\<lambda>r e'. se_memo e' t = Some r)"
  unfolding runs_def
proof (intro allI impI conjI)
  fix result e' assume run: "substitute_with f n t e = Some (result, e')"
  show "engine_le e e'" using preservesD [OF substitute_with_le run] call_le by blast
  assume ready: "ready A e" and bounds: "in_bounds e'"
  from run have "ready A e' \<and> (\<forall>v. result = Inr v \<longrightarrow> se_memo e' t = Some v)" unfolding substitute_with_def
  proof (cases rule: sub_bind_cases)
    case (1 err)
    then show ?thesis using quiet_ready [OF preservesD [OF quiet.preserves_checkpoint(1)]] ready bounds by blast
  next
    case (2 x e1)
    have q: "quiet_le e e1" using preservesD [OF quiet.preserves_checkpoint(1) 2(1)] .
    show ?thesis
    proof (cases "se_memo e1 t")
      case (Some r)
      with 2(2) quiet_ready [OF q ready] bounds show ?thesis by auto
    next
      case None
      with 2(2) obtain r entered e2 where loop: "substitute_loop f n [(t, False)] [] e1 = Some (r, entered, e2)"
          and e': "e' = e2\<lparr>se_active := se_active e2 - set entered\<rparr>"
          and result: "result = (case r of Inl err \<Rightarrow> Inl err | Inr _ \<Rightarrow> (case se_memo e2 t of Some specialized \<Rightarrow> Inr specialized | None \<Rightarrow> Inl (MissingType t)))"
        by (auto split: option.splits)
      have l: "loop_state e1 [(t, False)] [] e1" by (simp add: loop_state_def)
      have b2: "in_bounds e2" using bounds by (simp add: e' in_bounds_def)
      then have "in_bounds e1" using substitute_loop_le [OF call_le loop l] grows_in_bounds by blast
      then have "ready A e1" using quiet_ready [OF q ready] by blast
      from loop_ready [OF loop l this b2] have "ready A e'" unfolding e' by (rule ready_active)
      then show ?thesis using result by (auto simp: e' split: sum.splits option.splits)
    qed
  qed
  then show "ready A e'" "\<And>v. result = Inr v \<Longrightarrow> se_memo e' t = Some v" by auto
qed

end

lemma substitute_sound_calls:
  "sound_calls (A :: ('s::linorder, 'd, 'g) code_api) (substitute n :: type_id \<Rightarrow> ('s, 'd, 'g, 'e, type_id) sub)"
proof (induction n)
  case 0
  show ?case by unfold_locales (simp add: runs_def)
next
  case (Suc n)
  show ?case
  proof unfold_locales
    fix e :: "('s, 'd, 'g, 'e) type_substitution_engine" and t
    show "runs A e (substitute (Suc n) t) (\<lambda>r e'. se_memo e' t = Some r)"
      using sound_calls.runs_substitute_with [OF Suc.IH, of e n t] by (simp add: runs_def)
  qed
qed

interpretation nested: sound_calls A "substitute n" for A n
  by (rule substitute_sound_calls)

definition example_interner :: "(nat, nat, nat) type_interner" where
  "example_interner =
     snd (interner_intern (TyPrimitive BoolT) (snd (interner_intern (TyArray 0) (snd (interner_intern (TyNamed (lit ''T'') None) interner_new)))))"

definition example_engine :: "(nat, nat, nat, unit) type_substitution_engine" where
  "example_engine = with_budget (budget_new 8 8 None)
     (materializing (\<lambda>_. 0) (\<lambda>_. False) example_interner (fmap_of_list [(lit ''T'', 2)]) None)"

lemma example_interner_eq:
  "example_interner = \<lparr>in_store = plain_store [TyNamed (lit ''T'') None, TyArray 0, TyPrimitive BoolT],
     in_types = [TyNamed (lit ''T'') None \<mapsto> 0, TyArray 0 \<mapsto> 1, TyPrimitive BoolT \<mapsto> 2], in_canonical_nominals = Map.empty\<rparr>"
proof -
  have two: "Suc (Suc 0) = 2" by simp
  show ?thesis
    by (simp add: example_interner_def interner_intern_def interner_new_def store_new_def store_len_def base_len_def canonical_type_def
     type_id_of_def store_intern_def plain_store_def Let_def) (simp only: two)
qed

lemmas example_steps = example_engine_def example_interner_eq with_budget_def budget_new_def materializing_def engine_for_def
  substitute_with_def sub_checkpoint_def sub_poll_def sub_read_def sub_bind_def sub_ok_def sub_fail_def budget_checkpoint_def budget_charge_def
  charge_node_def charge_edges_def enter_type_def check_expansion_depth_def expand_type_def dependencies_def require_type_def type_data_def
  mapped_declaration_def proper_replacement_def replacement_def input_store_def parameter_identity_def is_named_def data_dependencies_def
  is_relocation_def finish_type_def record_depth_def assemble_def substitute_argument_def assemble_data_def materialize_def place_type_def
  nth_opt_def plain_store_def interner_intern_def store_intern_def canonical_type_def type_id_of_def store_len_def base_len_def
  fmlookup_of_list Let_def store_get_def

text \<open>Evaluation stays out of the steps that have not been reached.\<close>

lemma lazy_steps:
  "sub_bind m f e = sub_bind m f e" "sub_read g e = sub_read g e" "assemble_data h t d e = assemble_data h t d e"
  by simp_all

lemma example_run:
  obtains e' where "substitute 6 1 example_engine = Some (Inr 3, e')" "in_bounds e'"
proof -
  have six: "6 = Suc (Suc (Suc (Suc (Suc (Suc 0)))))" by simp
  have "\<exists>e'. substitute 6 1 example_engine = Some (Inr 3, e') \<and> in_bounds e'"
    unfolding six by (simp add: example_steps in_bounds_def cong: lazy_steps)
  then show ?thesis using that by blast
qed

section \<open>Substitution with nothing to substitute\<close>

lemma identity_rows:
  assumes "is_identity_mapping e" "row_expands e row x" "\<forall>c \<in> set (expanded_types x). g c = c"
  shows "row_image e g row x = row"
proof -
  have names: "effect_names e = None" using assms(1) by (auto simp: is_identity_mapping_def effect_names_def split: substitution_target.splits)
  have lookup: "fmdom m = {||} \<Longrightarrow> fmlookup m k = None" for m :: "(utext, effect_row_ref) fmap" and k
    by (metis fempty_iff fmdom_notD)
  have "next_equation m row = None" if "fmdom m = {||}" for m using that lookup by (auto simp: next_equation_def split: bind_splits)
  then have ends: "fmdom m = {||} \<Longrightarrow> unfolds m row r \<Longrightarrow> r = row" for m r by (auto elim: unfolds.cases)
  have rows: "case se_effect_rows e of None \<Rightarrow> True | Some (RowArguments m) \<Rightarrow> fmdom m = {||} | Some (RowEquations m) \<Rightarrow> fmdom m = {||}"
    using assms(1) by (simp add: is_identity_mapping_def)
  have x: "x = ExpandedRow row None"
  proof (cases "se_effect_rows e")
    case None
    with assms(2) show ?thesis by (simp add: row_expands_def)
  next
    case (Some m)
    with rows ends lookup assms(2) show ?thesis by (cases m; cases "rr_tail row") (auto simp: row_expands_def)
  qed
  have "map_effect_arg g a = a" if "(i, effect) \<in> set (enumerate 0 (rr_effects row))" "a \<in> set (ef_args effect)" for i effect a
    using assms(3) that unfolding x by (cases a) (force simp: map_effect_arg_def expanded_types_def effect_type_args_def)+
  then have "map_effect e g None entry = snd entry" if "entry \<in> set (enumerate 0 (rr_effects row))" for entry
    using that names by (cases entry; cases "snd entry") (auto simp: map_effect_def intro!: map_idI)
  then have "map (map_effect e g None) (enumerate 0 (rr_effects row)) = map snd (enumerate 0 (rr_effects row))" by (rule map_cong [OF refl])
  moreover have "unique_list n i S xs = xs" if "i + length xs \<le> n" for n i S xs
    using that by (induction xs arbitrary: i S) auto
  ultimately show ?thesis by (simp add: row_image_def x)
qed

lemma map_data_ident:
  assumes "\<And>c. c \<in> set (data_children relocation d) \<Longrightarrow> g c = c" "\<And>row. row \<in> set (data_rows d) \<Longrightarrow> h row = row" "\<And>s. sp s = s"
  shows "map_data relocation g h sp d = d"
proof -
  have ids: "(\<And>x. x \<in> set xs \<Longrightarrow> k x = x) \<Longrightarrow> map k xs = xs" for k :: "'x \<Rightarrow> 'x" and xs by (rule map_idI)
  have bs: "map (\<lambda>b. SpecBound (sp (sb_spec b)) (map g (sb_args b))) bs = bs" if "\<And>c. c \<in> set (concat (map sb_args bs)) \<Longrightarrow> g c = c" for bs
  proof (rule map_idI)
    fix b assume "b \<in> set bs"
    then have "map g (sb_args b) = sb_args b" using that by (intro map_idI) auto
    then show "SpecBound (sp (sb_spec b)) (map g (sb_args b)) = b" using assms(3) by simp
  qed
  have fs: "map (\<lambda>field. FieldType (ft_name field) (g (ft_ty field))) fs = fs" if "\<And>c. c \<in> set (map ft_ty fs) \<Longrightarrow> g c = c" for fs
    by (rule map_idI) (use that in auto)
  have os: "map_option k x = x" if "\<And>a. x = Some a \<Longrightarrow> k a = a" for k :: "'x \<Rightarrow> 'x" and x using that by (cases x) auto
  show ?thesis using assms bs fs
    by (cases d) (auto simp: map_data_def data_children_def data_rows_def map_idI intro!: os
        split: resource_handle_type.splits option.splits handler_produced_effects.splits if_splits)
qed

lemma none_or_empty_lookup: "none_or_empty m \<Longrightarrow> Option.bind m (\<lambda>m. fmlookup m k) = None"
  by (cases m) (auto simp: none_or_empty_def fmdom_notD)

lemma identity_replacement:
  assumes "is_identity_mapping e"
  shows "proper_replacement e t d = None"
proof -
  have empty: "none_or_empty (se_named e)" "none_or_empty (se_parameters e)" "none_or_empty (se_type_parameters e)"
    "none_or_empty (se_canonical_parameters e)" "none_or_empty (se_variables e)" using assms by (simp_all add: is_identity_mapping_def)
  have ps: "Option.bind source (\<lambda>symbol. fmlookup ps symbol) = None" if "se_parameters e = Some ps" for ps source
    using empty(2) that by (cases source) (auto simp: none_or_empty_def fmdom_notD)
  have "replacement e t d = None"
    unfolding replacement_def none_or_empty_lookup [OF empty(3)] option.case none_or_empty_lookup [OF empty(4)] none_or_empty_lookup [OF empty(1)]
      none_or_empty_lookup [OF empty(5)]
    using ps by (simp split: option.split ty.split)
  then show ?thesis by (simp add: proper_replacement_def)
qed

lemma identity_substitutes: "substitutes e t r \<Longrightarrow> is_identity_mapping e \<Longrightarrow> r = t"
proof (induction rule: substitutes.induct)
  case (substitutes_data t d g h r)
  have "\<not> is_relocation e" "\<And>s. spec_image e s = s"
    using substitutes_data.prems by (auto simp: is_identity_mapping_def is_relocation_def spec_image_def none_or_empty_def fmdom_notD
        split: substitution_target.splits option.splits)
  moreover have "map_data (is_relocation e) g h (spec_image e) d = d"
  proof (rule map_data_ident)
    show "g c = c" if "c \<in> set (data_children (is_relocation e) d)" for c using substitutes_data that by blast
    show "h row = row" if "row \<in> set (data_rows d)" for row using substitutes_data that identity_rows by metis
  qed fact
  ultimately show ?case using substitutes_data.hyps by (auto simp: placed_def)
next
  case (substitutes_binding t d x r)
  then show ?case by (simp add: identity_replacement)
next
  case (substitutes_argument t d r)
  then show ?case by (simp add: identity_replacement)
qed (auto simp: is_identity_mapping_def mapped_declaration_def split: substitution_target.splits)

section \<open>Properties\<close>

lemma example_ready: "plain_engine example_engine" "target_ok example_api example_engine" "memo_sound example_engine"
proof -
  have "interner_ok example_api example_interner"
    unfolding example_interner_def by (intro intern_ok interner_new_ok) (simp_all add: interner_new_def store_new_def store_len_def base_len_def interner_intern_def store_intern_def Let_def)
  then show "plain_engine example_engine" "target_ok example_api example_engine" "memo_sound example_engine"
    by (simp_all add: example_engine_def with_budget_def materializing_def engine_for_def plain_engine_def target_ok_def memo_sound_def)
qed

text \<open>C37. Whether it succeeds or fails, a substitution leaves the settings of the engine and the set of
  active types as they were. Recorded results and stored types are kept, and so is the soundness of
  the interner while identifiers fit; the counters of the budget only grow, and stay within the limits
  if they were within them before.\<close>

theorem substitution_frame:
  assumes "substitute n t e = Some (result, e')"
  shows "same_settings e e' \<and> se_active e' = se_active e \<and> se_memo e \<subseteq>\<^sub>m se_memo e' \<and>
    target_le (se_target e) (se_target e') \<and> work_le (se_budget e) (se_budget e') \<and> se_polls e \<le> se_polls e'"
  using preservesD [OF substitute_le assms] by (simp add: engine_le_def engine_grows_def)

theorem substitution_frame_witness:
  "\<exists>e'. substitute 6 1 example_engine = Some (Inr 3, e') \<and> se_active e' = {} \<and> work_le (se_budget example_engine) (se_budget e')"
proof -
  obtain e' where run: "substitute 6 1 example_engine = Some (Inr 3, e')" by (rule example_run)
  then show ?thesis using substitution_frame [OF run] by (auto simp: example_engine_def with_budget_def materializing_def engine_for_def)
qed

text \<open>C12. Substitution is sound. On an engine without type variables and without the check for closed
  names, over a sound interner whose identifiers fit in 32 bits at the end: if every recorded result
  is an image of its type, then this still holds after a substitution, also after one that fails, and
  the result of one that succeeds is an image of the given type. Images are described by
  \<open>substitutes\<close>: declarations go where the relocation sends them, a bound name goes to its argument as
  it stands, another bound type to the image of its binding, and any other type to the type with the
  same constructor over the images of its parts, effect rows expanded, in the place the engine writes to.\<close>

theorem substitution_sound:
  assumes "substitute n t e = Some (result, e')" and "plain_engine e" "target_ok A e" "memo_sound e" and "in_bounds e'"
  shows "memo_sound e' \<and> (\<forall>r. result = Inr r \<longrightarrow> substitutes e' t r \<and> se_memo e' t = Some r)"
  using nested.call [of A e n t] assms by (auto simp: runs_def ready_def memo_sound_def)

theorem substitution_sound_witness:
  "\<exists>e'. substitute 6 1 example_engine = Some (Inr 3, e') \<and> substitutes e' 1 3"
proof -
  obtain e' where run: "substitute 6 1 example_engine = Some (Inr 3, e')" "in_bounds e'" by (rule example_run)
  then show ?thesis using substitution_sound [OF run(1) example_ready run(2)] by blast
qed

text \<open>C38. An engine that calls its mapping the identity, with no recorded results and without the check
  for closed names, returns every type unchanged if it succeeds, and the store is as before.\<close>

theorem identity_substitution:
  assumes "substitute n t e = Some (Inr r, e')" and "is_identity_mapping e" "plain_engine e" "se_memo e = Map.empty" "in_bounds e"
  shows "r = t \<and> type_data e t \<noteq> None \<and> se_target e' = se_target e"
proof -
  have le: "engine_le e e'" using preservesD [OF substitute_le assms(1)] .
  obtain s where s: "se_target e = Existing s" using assms(2) by (auto simp: is_identity_mapping_def split: substitution_target.splits)
  then have t: "se_target e' = se_target e" using le by (auto simp: engine_le_def engine_grows_def)
  have "substitutes e' t r"
    using nested.call [of undefined e n t] assms s t by (auto simp: runs_def ready_def memo_sound_def target_ok_def in_bounds_def)
  moreover have "is_identity_mapping e'"
    using assms(2) t settings_same [of e e'] le by (simp add: is_identity_mapping_def engine_le_def engine_grows_def)
  moreover have "type_data e' t \<noteq> None" using \<open>substitutes e' t r\<close> by (cases rule: substitutes.cases) auto
  ultimately show ?thesis using identity_substitutes t by (auto simp: type_data_def)
qed

lemma identity_run:
  obtains e' where "substitute 6 1 (existing (\<lambda>_. 0) (\<lambda>_. False) (plain_store [TyPrimitive BoolT, TyArray 0]) fmempty) =
    Some (Inr 1, e' :: (nat, nat, nat, unit) type_substitution_engine)"
proof -
  have six: "6 = Suc (Suc (Suc (Suc (Suc (Suc 0)))))" by simp
  have "\<exists>e'. substitute 6 1 (existing (\<lambda>_. 0) (\<lambda>_. False) (plain_store [TyPrimitive BoolT, TyArray 0]) fmempty) =
    Some (Inr 1, e' :: (nat, nat, nat, unit) type_substitution_engine)"
    unfolding six by (simp add: example_steps existing_def cong: lazy_steps)
  then show ?thesis using that by blast
qed

theorem identity_substitution_witness:
  "\<exists>e'. substitute 6 1 (existing (\<lambda>_. 0) (\<lambda>_. False) (plain_store [TyPrimitive BoolT, TyArray 0]) fmempty) =
    Some (Inr 1, e' :: (nat, nat, nat, unit) type_substitution_engine) \<and>
    se_target e' = Existing (plain_store [TyPrimitive BoolT, TyArray 0])"
proof -
  obtain e' where run: "substitute 6 1 (existing (\<lambda>_. 0) (\<lambda>_. False) (plain_store [TyPrimitive BoolT, TyArray 0]) fmempty) =
    Some (Inr 1, e' :: (nat, nat, nat, unit) type_substitution_engine)" by (rule identity_run)
  have "se_target e' = Existing (plain_store [TyPrimitive BoolT, TyArray 0])"
    using identity_substitution [OF run] by (simp add: existing_def engine_for_def is_identity_mapping_def none_or_empty_def plain_engine_def in_bounds_def
        plain_store_def store_len_def base_len_def)
  then show ?thesis using run by blast
qed

end
