(* ===== verification/Etas_Substitute_Ends.thy ===== *)
theory Etas_Substitute_Ends
  imports Etas_Substitute_Sound
begin

text \<open>Substitution comes to an end: the dependencies of a type, the fuel that is enough for the worklist,
  and the check that an argument is closed. The locale \<open>answering_calls\<close> states what assembly asks of
  the nested calls to come to an end.\<close>

section \<open>What a type depends on\<close>

definition argument_types :: "expanded_effect_row \<Rightarrow> type_id list" where
  "argument_types x =
     concat (map (\<lambda>(index, effect).
       if (case xr_argument_start x of None \<Rightarrow> False | Some start \<Rightarrow> start \<le> index) then effect_type_args effect else [])
       (enumerate 0 (rr_effects (xr_row x))))"

definition data_depends :: "('s, 'd, 'g, 'e) type_substitution_engine \<Rightarrow> bool \<Rightarrow> 's ty \<Rightarrow> type_id list \<Rightarrow> bool" where
  "data_depends e relocation d ds \<longleftrightarrow> (\<exists>xs. list_all2 (row_expands e) (data_rows d) xs \<and>
     set ds = set (data_children relocation d) \<union> \<Union> (set ` expanded_types ` set xs) \<and>
     length ds = length (data_children relocation d) + sum_list (map (length \<circ> expanded_types) xs))"

definition depends :: "('s, 'd, 'g, 'e) type_substitution_engine \<Rightarrow> type_id \<Rightarrow> type_id list \<Rightarrow> bool" where
  "depends e c ds \<longleftrightarrow>
     (case type_data e c of
        None \<Rightarrow> False
      | Some d \<Rightarrow>
          if mapped_declaration e c \<noteq> None then ds = []
          else
            (case proper_replacement e c d of
               Some r \<Rightarrow> ds = (if is_named d then [] else [r])
             | None \<Rightarrow> data_depends e (is_relocation e) d ds))"

definition arguments :: "('s, 'd, 'g, 'e) type_substitution_engine \<Rightarrow> type_id \<Rightarrow> type_id set" where
  "arguments e c = {a. \<exists>d. type_data e c = Some d \<and> mapped_declaration e c = None \<and>
     (case proper_replacement e c d of
        Some r \<Rightarrow> is_named d \<and> a = r
      | None \<Rightarrow> \<exists>row \<in> set (data_rows d). \<exists>x. row_expands e row x \<and> a \<in> set (argument_types x))}"

lemma row_dependencies_value: "row_dependencies row e = Some (Inr ds, e') \<Longrightarrow> \<exists>x. row_expands e row x \<and> ds = expanded_types x"
  unfolding row_dependencies_def by (auto elim!: sub_bind_cases simp: sub_ok_def dest: expanded_row_value)

lemma row_dependencies_after:
  assumes "row_dependencies row (e :: ('s::linorder, 'd, 'g, 'e) type_substitution_engine) = Some (r, e')"
  shows "row_expands e' = row_expands e"
  using preservesD [OF growth.preserves_row_dependencies(1) assms] engine_le_same by blast

lemma data_dependsI:
  "data_rows d = [] \<Longrightarrow> ds = data_children relocation d \<Longrightarrow> data_depends e relocation d ds"
  "row_expands e row x \<Longrightarrow> data_rows d = [row] \<Longrightarrow> set ds = set (data_children relocation d) \<union> set (expanded_types x) \<Longrightarrow>
     length ds = length (data_children relocation d) + length (expanded_types x) \<Longrightarrow> data_depends e relocation d ds"
  "data_rows d = [row, row'] \<Longrightarrow> row_expands e row x \<Longrightarrow> row_expands e row' y \<Longrightarrow>
     set ds = set (data_children relocation d) \<union> set (expanded_types x) \<union> set (expanded_types y) \<Longrightarrow>
     length ds = length (data_children relocation d) + length (expanded_types x) + length (expanded_types y) \<Longrightarrow> data_depends e relocation d ds"
  unfolding data_depends_def
  by (rule exI [of _ "[]"], simp, rule exI [of _ "[x]"], simp, rule exI [of _ "[x, y]"], auto)

lemma data_dependencies_value:
  assumes "data_dependencies relocation d (e :: ('s::linorder, 'd, 'g, 'e) type_substitution_engine) = Some (Inr ds, e')"
  shows "data_depends e relocation d ds"
proof -
  note parts = data_dependencies_def data_children_def data_rows_def row_option_dependencies_def sub_ok_def
  show ?thesis
  proof (cases d)
    case (TyFunction input out effects)
    then show ?thesis using assms
    proof (cases effects)
      case None
      with TyFunction assms show ?thesis by (auto simp: parts elim!: sub_bind_cases intro!: data_dependsI(1))
    next
      case (Some row)
      with TyFunction assms show ?thesis by (auto simp: parts elim!: sub_bind_cases dest!: row_dependencies_value intro!: data_dependsI(2))
    qed
  next
    case (TyHandler handled produced result)
    show ?thesis
    proof (cases produced)
      case ProducedInfer
      with TyHandler show ?thesis using assms
        by (cases result) (auto simp: parts elim!: sub_bind_cases dest!: row_dependencies_value intro!: data_dependsI(2))
    next
      case (ProducedExplicit row)
      with TyHandler assms obtain e1 ds1 ds2 e2 where a: "row_dependencies handled e = Some (Inr ds1, e1)" "row_dependencies row e1 = Some (Inr ds2, e2)"
          "ds = ds1 @ ds2 @ (case result of None \<Rightarrow> [] | Some t \<Rightarrow> [t])"
        by (auto simp: data_dependencies_def sub_ok_def elim!: sub_bind_cases)
      obtain x y where "row_expands e handled x" "ds1 = expanded_types x" "row_expands e row y" "ds2 = expanded_types y"
        using row_dependencies_value [OF a(1)] row_dependencies_value [OF a(2)] row_dependencies_after [OF a(1)] by auto
      with a(3) TyHandler ProducedExplicit show ?thesis
        by (intro data_dependsI(3) [of d handled row e x y]) (auto simp: data_rows_def data_children_def split: option.split)
    qed
  next
    case (TyTask out effects)
    then show ?thesis using assms by (auto simp: parts elim!: sub_bind_cases dest!: row_dependencies_value intro!: data_dependsI(2))
  next
    case (TyContinuation out answer residual)
    then show ?thesis using assms
    proof (cases residual)
      case None
      with TyContinuation assms show ?thesis by (auto simp: parts elim!: sub_bind_cases intro!: data_dependsI(1))
    next
      case (Some row)
      with TyContinuation assms show ?thesis by (cases answer) (auto simp: parts elim!: sub_bind_cases dest!: row_dependencies_value intro!: data_dependsI(2))
    qed
  qed (use assms in \<open>auto simp: parts intro: data_dependsI(1)\<close>)
qed

lemma dependencies_value: "dependencies c (e :: ('s::linorder, 'd, 'g, 'e) type_substitution_engine) = Some (Inr ds, e') \<Longrightarrow> depends e c ds"
  unfolding dependencies_def
  by (auto simp: depends_def require_type_def sub_read_def sub_ok_def sub_fail_def dest: data_dependencies_value elim!: sub_bind_cases
      split: option.splits if_splits)

lemma depends_grows:
  assumes "engine_grows e e'" "type_data e c \<noteq> None"
  shows "depends e' c = depends e c" "arguments e' c = arguments e c"
proof -
  have "type_data e' c = type_data e c" using assms engine_grows_data(1) [OF assms(1)] by auto
  then show "depends e' c = depends e c" "arguments e' c = arguments e c"
    unfolding depends_def data_depends_def arguments_def engine_grows_same [OF assms(1)] fun_eq_iff by simp_all
qed

section \<open>Steps that give an answer\<close>

definition answers ::
    "('s::linorder, 'd, 'g, 'e) type_substitution_engine \<Rightarrow> ('s, 'd, 'g, 'e, 'a) sub \<Rightarrow>
     ('a \<Rightarrow> ('s, 'd, 'g, 'e) type_substitution_engine \<Rightarrow> bool) \<Rightarrow> bool" where
  "answers e m Q \<longleftrightarrow> (\<exists>result e'. m e = Some (result, e') \<and> engine_le e e' \<and> (\<forall>v. result = Inr v \<longrightarrow> Q v e'))"

lemma answersI: "m e \<noteq> None \<Longrightarrow> preserves engine_le m \<Longrightarrow> (\<And>v e'. m e = Some (Inr v, e') \<Longrightarrow> Q v e') \<Longrightarrow> answers e m Q"
  by (auto simp: answers_def preserves_def)

lemma answers_ok: "Q x e \<Longrightarrow> answers e (sub_ok x) Q"
  by (simp add: answers_def sub_ok_def)

lemma answers_fail: "answers e (sub_fail err) Q"
  by (simp add: answers_def sub_fail_def)

lemma answers_bind:
  assumes "answers e m Q1" "\<And>x e1. engine_le e e1 \<Longrightarrow> Q1 x e1 \<Longrightarrow> answers e1 (f x) Q"
  shows "answers e (sub_bind m f) Q"
proof -
  obtain result e1 where r: "m e = Some (result, e1)" "engine_le e e1" "\<And>v. result = Inr v \<Longrightarrow> Q1 v e1"
    using assms(1) by (auto simp: answers_def)
  show ?thesis
  proof (cases result)
    case (Inl err)
    with r show ?thesis by (simp add: answers_def sub_bind_def)
  next
    case (Inr x)
    have "answers e1 (f x) Q" using assms(2) r Inr by simp
    then show ?thesis using r(1,2) Inr unfolding answers_def sub_bind_def by (auto intro: engine_le_trans)
  qed
qed

lemma answers_read: "answers e (m e) Q \<Longrightarrow> answers e (sub_read m) Q"
  by (simp add: answers_def sub_read_def)

lemma answers_conseq: "answers e m Q \<Longrightarrow> (\<And>v e'. engine_le e e' \<Longrightarrow> Q v e' \<Longrightarrow> Q' v e') \<Longrightarrow> answers e m Q'"
  unfolding answers_def by blast

lemma answers_map:
  assumes "stable P" "\<And>x e. x \<in> set xs \<Longrightarrow> P e \<Longrightarrow> answers e (f x) (\<lambda>_ _. True)" "P e"
  shows "answers e (sub_map f xs) (\<lambda>_ _. True)"
  using assms(2,3)
proof (induction xs arbitrary: e)
  case Nil
  show ?case by (simp add: answers_ok)
next
  case (Cons x xs)
  show ?case unfolding sub_map.simps
  proof (rule answers_bind)
    show "answers e (f x) (\<lambda>_ _. True)" using Cons.prems by simp
    fix y e1 assume "engine_le e e1"
    then have "P e1" using stableD [OF assms(1)] Cons.prems by blast
    then show "answers e1 (sub_bind (sub_map f xs) (\<lambda>ys. sub_ok (y # ys))) (\<lambda>_ _. True)"
      using Cons by (intro answers_bind [OF Cons.IH] answers_ok) auto
  qed
qed

lemma answers_poll: "answers e (sub_poll control) (\<lambda>_ _. True)"
  by (rule answersI) (auto simp: sub_poll_def split: option.split)

lemma answers_checkpoint: "answers e sub_checkpoint (\<lambda>_ _. True)" "answers e (budget_checkpoint b) (\<lambda>_ _. True)"
  unfolding sub_checkpoint_def budget_checkpoint_def
  by (auto intro!: answers_read answers_bind answers_poll answers_ok split: option.split)

lemma answers_charges: "answers e charge_node (\<lambda>_ _. True)" "answers e (charge_edges k) (\<lambda>_ _. True)"
proof -
  have "budget_charge resource count store_count amount limit b e \<noteq> None" for resource count store_count amount limit and b :: "'d type_substitution_budget"
    using answers_checkpoint(2) [of e b] by (auto simp: budget_charge_def answers_def sub_bind_def Let_def split: sum.split)
  then show "answers e charge_node (\<lambda>_ _. True)" "answers e (charge_edges k) (\<lambda>_ _. True)"
    using growth_rules(3,4)
    by (auto intro!: answersI simp: charge_node_def charge_edges_def sub_read_def sub_ok_def split: option.splits)
qed

lemma answers_require: "answers e (require_type t) (\<lambda>d e'. type_data e' t = Some d \<and> e' = e)"
  by (simp add: answers_def require_type_def sub_read_def sub_ok_def sub_fail_def split: option.split)

lemma equations_answer: "expand_equations equations row visited (e :: ('s::linorder, 'd, 'g, 'e) type_substitution_engine) \<noteq> None"
proof (induction equations row visited e rule: expand_equations.induct)
  case (1 equations row visited e)
  have c: "charge_equation b e \<noteq> None" for b
  proof -
    have "answers e (charge_equation b) (\<lambda>_ _. True)" unfolding charge_equation_def
      by (intro answers_bind [OF answers_checkpoint(1)] answers_bind [OF answers_charges(1)] answers_charges(2))
    then show ?thesis by (auto simp: answers_def)
  qed
  show ?case
  proof (cases "next_equation equations row")
    case (Some tb)
    obtain tail b where tb: "tb = (tail, b)" by force
    obtain r e1 where "charge_equation b e = Some (r, e1)" using c by fastforce
    with 1 Some tb show ?thesis
      by (auto simp: expand_equations.simps [of equations row visited e] split: sum.splits option.splits)
  qed (simp add: expand_equations.simps [of equations row visited e])
qed

lemma answers_expanded_row: "answers e (expanded_row row) (\<lambda>x e'. row_expands e' row x)"
proof (rule answersI)
  have "answers e (expand_equations equations row visited) (\<lambda>_ _. True)" for equations visited
    using growth.preserves_equations by (intro answersI equations_answer) (auto simp: preserves_def)
  then have "answers e (expanded_row row) (\<lambda>_ _. True)"
    unfolding expanded_row_def expand_arguments_def
    by (intro answers_read) (auto intro!: answers_bind [where ?Q1.0 = "\<lambda>_ _. True"] answers_ok answers_fail answers_charges
        split: option.split effect_row_substitution.split)
  then show "expanded_row row e \<noteq> None" by (auto simp: answers_def)
  show "row_expands e' row v" if "expanded_row row e = Some (Inr v, e')" for v e'
    using expanded_row_value [OF that] engine_le_same [OF preservesD [OF growth.preserves_expanded_row that]] by simp
qed (rule growth.preserves_expanded_row)

section \<open>Assembly gives an answer\<close>

text \<open>
  What assembly asks of the nested calls to come to an end: they answer for a type that has a
  recorded result, and for the arguments that may occur.
\<close>

locale answering_calls =
  fixes f :: "type_id \<Rightarrow> ('s::linorder, 'd, 'g, 'e, type_id) sub" and V :: "type_id set"
    and holds :: "('s, 'd, 'g, 'e) type_substitution_engine \<Rightarrow> bool"
  assumes call_le: "preserves engine_le (f c)"
    and recorded: "se_memo e c \<noteq> None \<Longrightarrow> f c e \<noteq> None"
    and holds_grows: "holds e \<Longrightarrow> engine_grows e e' \<Longrightarrow> holds e'"
    and argument: "holds e \<Longrightarrow> a \<in> V \<Longrightarrow> f a (aside e) \<noteq> None"
begin

abbreviation answered :: "('s, 'd, 'g, 'e) type_substitution_engine \<Rightarrow> ('s, 'd, 'g, 'e, 'a) sub \<Rightarrow> bool" where
  "answered e m \<equiv> answers e m (\<lambda>_ _. True)"

lemma holds_le: "holds e \<Longrightarrow> engine_le e e' \<Longrightarrow> holds e'"
  using holds_grows engine_leD(1) by blast

lemma answers_call: "se_memo e c \<noteq> None \<Longrightarrow> answered e (f c)"
  by (intro answersI recorded call_le) simp_all

lemma answers_argument: "holds e \<Longrightarrow> a \<in> V \<Longrightarrow> answered e (substitute_argument f a)"
proof (rule answersI)
  assume "holds e" "a \<in> V"
  then have "f a (aside e) \<noteq> None" by (rule argument)
  then show "substitute_argument f a e \<noteq> None"
    by (auto simp: substitute_argument_def sub_bind_def require_type_def sub_read_def sub_ok_def sub_fail_def split: option.split)
qed (intro growth.preserves_argument call_le, simp)

lemma answers_types: "known e ts \<Longrightarrow> answered e (sub_map f ts)"
proof (rule answers_map [where P = "\<lambda>e. known e ts"])
  show "stable (\<lambda>e. known e ts)" by (auto simp: stable_def intro: known_grows)
  show "answered e' (f t)" if "t \<in> set ts" "known e' ts" for t e' using that by (intro answers_call) (simp add: known_def)
qed

lemma answers_option: "(\<And>a. x = Some a \<Longrightarrow> answered e (h a)) \<Longrightarrow> answered e (sub_option h x)"
  unfolding sub_option_def by (cases x) (auto intro!: answers_ok answers_bind)

text \<open>The conditions on rows, fields and bounds are all of this form.\<close>

definition prepared where
  "prepared ts as e \<longleftrightarrow> holds e \<and> known e ts \<and> set as \<subseteq> V"

lemma prepared_stable: "stable (prepared ts as)"
  by (auto simp: stable_def prepared_def intro: known_grows holds_le)

lemma answers_effect_arg:
  assumes "prepared (if b then [] else ts) (if b then ts else []) e" "(case a of ArgType t \<Rightarrow> t \<in> set ts | _ \<Rightarrow> True)"
  shows "answered e (substitute_effect_arg f b a)"
  unfolding substitute_effect_arg_def
proof (rule answers_bind [OF answers_checkpoint(1)])
  fix e1 assume "engine_le e e1"
  then have p: "prepared (if b then [] else ts) (if b then ts else []) e1" using stableD [OF prepared_stable] assms(1) by blast
  show "answered e1 (case a of ArgType t \<Rightarrow> sub_bind (if b then substitute_argument f t else f t) (\<lambda>t. sub_ok (ArgType t)) | a \<Rightarrow> sub_ok a)"
  proof (cases a)
    case (ArgType t)
    then have "answered e1 (if b then substitute_argument f t else f t)"
      using p assms(2) by (auto simp: prepared_def known_def intro!: answers_argument answers_call split: if_splits)
    with ArgType show ?thesis by (auto intro: answers_bind answers_ok)
  qed (simp_all add: answers_ok)
qed

lemma answers_effect:
  assumes "prepared (if b then [] else effect_type_args effect) (if b then effect_type_args effect else []) e"
    and b: "b = (case start of None \<Rightarrow> False | Some start \<Rightarrow> start \<le> index)"
  shows "answered e (substitute_effect f start (index, effect))"
proof -
  let ?P = "prepared (if b then [] else effect_type_args effect) (if b then effect_type_args effect else [])"
  have args: "answered e' (sub_map (substitute_effect_arg f b) (ef_args effect))" if "?P e'" for e'
    using prepared_stable _ that
  proof (rule answers_map)
    fix a e1 assume a: "a \<in> set (ef_args effect)" "?P e1"
    then show "answered e1 (substitute_effect_arg f b a)"
      by (intro answers_effect_arg [OF a(2)]) (force simp: effect_type_args_def split: effect_arg_ref.split)
  qed
  have name: "answered e' (rename_effect nm)" for e' nm
    unfolding rename_effect_def by (rule answers_read) (auto intro: answers_ok answers_fail split: option.split)
  show ?thesis unfolding substitute_effect_def prod.case b [symmetric]
  proof (rule answers_bind [OF answers_checkpoint(1)], rule answers_bind [OF answers_charges(1)], rule answers_bind [OF answers_charges(2)],
      rule answers_bind [OF name], rule answers_bind [OF args answers_ok])
    fix e1 e2 e3 e4 assume "engine_le e e1" "engine_le e1 e2" "engine_le e2 e3" "engine_le e3 e4"
    then show "?P e4" using assms(1) stableD [OF prepared_stable] by (blast intro: engine_le_trans)
  qed simp
qed

lemma answers_row:
  assumes "holds e" "\<And>x. row_expands e row x \<Longrightarrow> known e (expanded_types x) \<and> set (argument_types x) \<subseteq> V"
  shows "answered e (substitute_effect_row f row)"
  unfolding substitute_effect_row_def
proof (rule answers_bind [OF answers_checkpoint(1)], rule answers_bind [OF answers_expanded_row])
  fix e1 x e2 assume e: "engine_le e e1" "engine_le e1 e2" and "row_expands e2 row x"
  note e2 = engine_le_trans [OF e]
  have "row_expands e row x" using \<open>row_expands e2 row x\<close> engine_le_same [OF e2] by simp
  then have p: "prepared (expanded_types x) (argument_types x) e2"
    using assms known_grows [OF e2] holds_le [OF _ e2] by (auto simp: prepared_def)
  have unique: "answered e' (unique_effects n i S effects)" for e' n i S effects
    by (induction effects arbitrary: e' i S) (auto intro!: answers_ok answers_bind [OF answers_checkpoint(1)] answers_bind)
  have "answered e2 (sub_map (substitute_effect f (xr_argument_start x)) (enumerate 0 (rr_effects (xr_row x))))"
    using prepared_stable _ p
  proof (rule answers_map)
    fix entry e3 assume a: "entry \<in> set (enumerate 0 (rr_effects (xr_row x)))" "prepared (expanded_types x) (argument_types x) e3"
    obtain index effect where entry: "entry = (index, effect)" by force
    define b where "b = (case xr_argument_start x of None \<Rightarrow> False | Some start \<Rightarrow> start \<le> index)"
    have "set (effect_type_args effect) \<subseteq> set (if b then argument_types x else expanded_types x)"
      using a(1) unfolding entry b_def argument_types_def expanded_types_def by (auto intro!: bexI [of _ "(index, effect)"])
    then show "answered e3 (substitute_effect f (xr_argument_start x) entry)"
      unfolding entry by (intro answers_effect [OF _ b_def]) (use a(2) in \<open>auto simp: prepared_def known_def split: if_splits\<close>)
  qed
  then show "answered e2 (sub_bind (sub_map (substitute_effect f (xr_argument_start x)) (enumerate 0 (rr_effects (xr_row x))))
      (\<lambda>effects. sub_bind (unique_effects (length (rr_effects row)) 0 {} effects) (\<lambda>effects. sub_ok (EffectRowRef effects (rr_tail (xr_row x))))))"
    by (rule answers_bind) (intro answers_bind [OF unique] answers_ok, simp)
qed

end

context answering_calls
begin

definition rows_prepared where
  "rows_prepared rows e \<longleftrightarrow> holds e \<and> (\<forall>row \<in> set rows. \<forall>x. row_expands e row x \<longrightarrow> known e (expanded_types x) \<and> set (argument_types x) \<subseteq> V)"

definition parts_prepared where
  "parts_prepared ts rows e \<longleftrightarrow> known e ts \<and> rows_prepared rows e"

lemma parts_stable: "stable (parts_prepared ts rows)"
  unfolding stable_def parts_prepared_def rows_prepared_def using known_grows holds_le engine_le_same by metis

lemma answers_part_call: "parts_prepared ts rows e \<Longrightarrow> c \<in> set ts \<Longrightarrow> answered e (f c)"
  by (intro answers_call) (simp add: parts_prepared_def known_def)

lemma answers_part_calls: "parts_prepared ts rows e \<Longrightarrow> set cs \<subseteq> set ts \<Longrightarrow> answered e (sub_map f cs)"
  by (intro answers_types) (auto simp: parts_prepared_def known_def)

lemma answers_part_row: "parts_prepared ts rows e \<Longrightarrow> row \<in> set rows \<Longrightarrow> answered e (substitute_effect_row f row)"
  by (intro answers_row) (auto simp: parts_prepared_def rows_prepared_def)

text \<open>A sequence of steps, each of which answers as long as the parts are prepared.\<close>

definition part_step where
  "part_step ts rows m \<longleftrightarrow> (\<forall>e. parts_prepared ts rows e \<longrightarrow> answered e m)"

lemma part_stepD: "part_step ts rows m \<Longrightarrow> parts_prepared ts rows e \<Longrightarrow> answered e m"
  by (simp add: part_step_def)

lemma part_step_ok [simp]: "part_step ts rows (sub_ok x)"
  by (simp add: part_step_def answers_ok)

lemma part_step_fail [simp]: "part_step ts rows (sub_fail x)"
  by (simp add: part_step_def answers_fail)

lemma part_step_bind: "part_step ts rows m \<Longrightarrow> (\<And>x. part_step ts rows (g x)) \<Longrightarrow> part_step ts rows (sub_bind m g)"
  unfolding part_step_def using stableD [OF parts_stable] by (metis (no_types, lifting) answers_bind)

lemma part_step_call: "c \<in> set ts \<Longrightarrow> part_step ts rows (f c)" "set cs \<subseteq> set ts \<Longrightarrow> part_step ts rows (sub_map f cs)"
  "row \<in> set rows \<Longrightarrow> part_step ts rows (substitute_effect_row f row)"
  by (simp_all add: part_step_def answers_part_call answers_part_calls answers_part_row)

lemma part_step_option: "(\<And>a. x = Some a \<Longrightarrow> part_step ts rows (h a)) \<Longrightarrow> part_step ts rows (sub_option h x)"
  unfolding part_step_def by (blast intro: answers_option)

lemma part_step_map: "(\<And>x. x \<in> set xs \<Longrightarrow> part_step ts rows (h x)) \<Longrightarrow> part_step ts rows (sub_map h xs)"
  unfolding part_step_def by (blast intro: answers_map [OF parts_stable])

lemma part_step_read: "(\<And>e. part_step ts rows (m e)) \<Longrightarrow> part_step ts rows (sub_read m)"
  unfolding part_step_def by (blast intro: answers_read)

lemma part_step_if: "(b \<Longrightarrow> part_step ts rows m) \<Longrightarrow> (\<not> b \<Longrightarrow> part_step ts rows m') \<Longrightarrow> part_step ts rows (if b then m else m')"
  by simp

lemma part_step_field: "ft_ty field \<in> set ts \<Longrightarrow> part_step ts rows (substitute_field f field)"
  unfolding substitute_field_def by (intro part_step_bind part_step_call part_step_ok)

lemma part_step_bound: "set (sb_args b) \<subseteq> set ts \<Longrightarrow> part_step ts rows (substitute_bound f b)"
  unfolding substitute_bound_def by (intro part_step_read) (auto intro!: part_step_bind part_step_call split: option.split)

lemmas part_steps = part_step_bind part_step_call part_step_option part_step_map part_step_if part_step_field part_step_bound

lemma answers_data:
  assumes "parts_prepared (data_children (is_relocation e) d) (data_rows d) e"
  shows "answered e (assemble_data f t d)"
  unfolding assemble_data_def Let_def
proof (rule answers_read, rule part_stepD [OF _ assms], goal_cases)
  case 1
  note parts = data_children_def data_rows_def
  show ?case
  proof (cases d)
    case (TyHandler handled produced result)
    then show ?thesis by (cases produced) (auto simp: parts intro!: part_steps)
  next
    case (TyResourceHandle h)
    then show ?thesis by (cases h) (auto simp: parts intro!: part_steps)
  next
    case (TyApplied constructor args)
    then show ?thesis by (cases "is_relocation e") (auto simp: parts intro!: part_steps)
  qed (auto simp: parts intro!: part_steps)
qed

lemma answers_materialize: "answered e (materialize t d)"
proof -
  have "answered e' (place_type d)" for e'
    by (intro answersI growth.preserves_place) (auto simp: place_type_def split: substitution_target.split prod.split option.split)
  then show ?thesis unfolding materialize_def
    by (intro answers_read) (auto intro!: answers_bind [OF answers_require] answers_ok)
qed

lemma answers_assemble:
  assumes "holds e" "depends e t ds" "known e ds" "arguments e t \<subseteq> V"
  shows "answered e (assemble f t)"
proof (cases "type_data e t")
  case None
  with assms(2) show ?thesis by (simp add: depends_def)
next
  case (Some d)
  have "answered e (case mapped_declaration e t of Some mapped \<Rightarrow> if target_has e mapped then sub_ok mapped else sub_fail (MissingType mapped)
       | None \<Rightarrow> (case proper_replacement e t d of Some r \<Rightarrow> if is_named d then substitute_argument f r else f r
            | None \<Rightarrow> sub_bind (assemble_data f t d) (\<lambda>specialized. case specialized of None \<Rightarrow> sub_ok t | Some specialized \<Rightarrow> materialize t specialized)))"
    proof (cases "mapped_declaration e t"; cases "proper_replacement e t d")
      assume a: "mapped_declaration e t = None" "proper_replacement e t d = None"
      obtain xs where xs: "list_all2 (row_expands e) (data_rows d) xs"
          "set ds = set (data_children (is_relocation e) d) \<union> \<Union> (set ` expanded_types ` set xs)"
        using assms(2) Some a by (auto simp: depends_def data_depends_def)
      have "known e (expanded_types y) \<and> set (argument_types y) \<subseteq> V" if r: "row \<in> set (data_rows d)" "row_expands e row y" for row y
      proof -
        obtain i where "i < length (data_rows d)" "data_rows d ! i = row" using r(1) by (auto simp: in_set_conv_nth)
        then obtain z where "z \<in> set xs" "row_expands e row z" using xs(1) that [of "xs ! i"] by (auto simp: list_all2_conv_all_nth)
        then have "y \<in> set xs" using row_expands_functional r(2) by metis
        then have "set (expanded_types y) \<subseteq> set ds" using xs(2) by blast
        moreover have "set (argument_types y) \<subseteq> arguments e t" using Some a r by (auto simp: arguments_def)
        ultimately show ?thesis using assms(3,4) by (auto simp: known_def)
      qed
      then have "parts_prepared (data_children (is_relocation e) d) (data_rows d) e"
        using assms(1,3) xs(2) by (auto simp: parts_prepared_def rows_prepared_def known_def)
      then show ?thesis using a by (auto intro!: answers_bind [OF answers_data] answers_ok answers_materialize split: option.split)
    next
      fix r assume a: "mapped_declaration e t = None" "proper_replacement e t d = Some r"
      then show ?thesis using assms Some
        by (auto simp: depends_def arguments_def known_def intro!: answers_argument answers_call split: if_splits)
    qed (auto intro!: answers_ok answers_fail)
  with Some show ?thesis unfolding assemble_def by (intro answers_bind [OF answers_require] answers_read) auto
qed

end

section \<open>The worklist comes to an end\<close>

definition bounded :: "type_id set \<Rightarrow> nat \<Rightarrow> type_id set \<Rightarrow> ('s, 'd, 'g, 'e) type_substitution_engine \<Rightarrow> bool" where
  "bounded U D V e \<longleftrightarrow> finite U \<and>
     (\<forall>c \<in> U. type_data e c \<noteq> None \<and> (\<forall>ds. depends e c ds \<longrightarrow> set ds \<subseteq> U \<and> length ds \<le> D) \<and> arguments e c \<subseteq> V)"

lemma bounded_grows: "bounded U D V e \<Longrightarrow> engine_grows e e' \<Longrightarrow> bounded U D V e'"
  unfolding bounded_def using depends_grows [of e e'] engine_grows_data(1) [of e e'] by (metis not_None_eq)

text \<open>Every type that waits for its dependencies has them recorded or over it on the stack.\<close>

fun stack_ok :: "('s, 'd, 'g, 'e) type_substitution_engine \<Rightarrow> type_id set \<Rightarrow> (type_id \<times> bool) list \<Rightarrow> bool" where
  "stack_ok e over [] \<longleftrightarrow> True"
| "stack_ok e over ((c, finish) # rest) \<longleftrightarrow>
     (finish \<longrightarrow> se_memo e c = None \<longrightarrow> (\<exists>ds. depends e c ds \<and> (\<forall>d \<in> set ds. se_memo e d = None \<longrightarrow> d \<in> over))) \<and>
     stack_ok e (insert c over) rest"

lemma stack_ok_grows:
  assumes g: "engine_grows e e'"
  shows "stack_ok e over pending \<Longrightarrow> (\<And>c. c \<in> fst ` set pending \<Longrightarrow> type_data e c \<noteq> None) \<Longrightarrow>
    over \<subseteq> over' \<union> dom (se_memo e') \<Longrightarrow> stack_ok e' over' pending"
proof (induction pending arbitrary: over over')
  case (Cons p rest)
  obtain c finish where p: "p = (c, finish)" by force
  have memo: "se_memo e d = None" if "se_memo e' d = None" for d
    using engine_grows_memo [OF g, of d] that by (cases "se_memo e d") auto
  have "\<exists>ds. depends e' c ds \<and> (\<forall>d \<in> set ds. se_memo e' d = None \<longrightarrow> d \<in> over')" if a: "finish" "se_memo e' c = None"
  proof -
    obtain ds where "depends e c ds" "\<forall>d \<in> set ds. se_memo e d = None \<longrightarrow> d \<in> over" using Cons.prems(1) a memo p by auto
    moreover have "depends e' c = depends e c" using depends_grows(1) [OF g] Cons.prems(2) p by auto
    moreover have "d \<in> over'" if "d \<in> over" "se_memo e' d = None" for d using Cons.prems(3) that by auto
    ultimately show ?thesis using memo by (intro exI [of _ ds]) simp
  qed
  moreover have "stack_ok e' (insert c over') rest" using Cons.prems p by (intro Cons.IH [of "insert c over"]) auto
  ultimately show ?case by (simp add: p)
qed simp

lemma stack_ok_push: "stack_ok e (set ds \<union> over) pending \<Longrightarrow> stack_ok e over (map (\<lambda>d. (d, False)) ds @ pending)"
proof (induction ds arbitrary: over)
  case (Cons d ds)
  then show ?case using Cons.IH [of "insert d over"] by (simp add: insert_commute)
qed simp

text \<open>The state of the loop as far as its end is concerned.\<close>

definition loop_bounded where
  "loop_bounded U D V pending entered e \<longleftrightarrow>
     bounded U D V e \<and> fst ` set pending \<subseteq> U \<and> stack_ok e {} pending \<and>
     (\<forall>c \<in> set entered. c \<in> se_active e \<or> se_memo e c \<noteq> None)"

lemma loop_bounded_grows:
  assumes "loop_bounded U D V pending entered e" "engine_grows e e'"
    "\<And>c. c \<in> se_active e \<Longrightarrow> c \<in> se_active e' \<or> se_memo e' c \<noteq> None"
  shows "loop_bounded U D V pending entered e'"
proof -
  have data: "type_data e c \<noteq> None" if "c \<in> fst ` set pending" for c using assms(1) that by (auto simp: loop_bounded_def bounded_def)
  have "stack_ok e' {} pending" using stack_ok_grows [OF assms(2) _ data, where over = "{}" and over' = "{}"] assms(1) by (simp add: loop_bounded_def)
  moreover have "c \<in> se_active e' \<or> se_memo e' c \<noteq> None" if "c \<in> set entered" for c
    using assms(1,3) engine_grows_memo [OF assms(2), of c] that by (fastforce simp: loop_bounded_def)
  ultimately show ?thesis using assms(1) bounded_grows [OF _ assms(2)] by (simp add: loop_bounded_def)
qed

lemma loop_bounded_pop:
  assumes "loop_bounded U D V ((c, finish) # rest) entered (e :: ('s::linorder, 'd, 'g, 'e) type_substitution_engine)" "se_memo e c \<noteq> None"
  shows "loop_bounded U D V rest entered e"
proof -
  have "stack_ok e {} rest"
    using assms by (intro stack_ok_grows [of e e "{c}" rest "{}"]) (auto simp: loop_bounded_def bounded_def)
  then show ?thesis using assms(1) by (simp add: loop_bounded_def)
qed

lemma loop_bounded_push:
  assumes "loop_bounded U D V ((c, False) # rest) entered (e :: ('s::linorder, 'd, 'g, 'e) type_substitution_engine)" "depends e c ds"
  shows "loop_bounded U D V (map (\<lambda>d. (d, False)) ds @ (c, True) # rest) (entered @ [c]) (e\<lparr>se_active := insert c (se_active e)\<rparr>)"
proof -
  let ?e = "e\<lparr>se_active := insert c (se_active e)\<rparr>"
  have g: "engine_grows e ?e" by (simp add: engine_grows_def same_settings_def)
  have l: "loop_bounded U D V ((c, False) # rest) entered ?e"
    by (rule loop_bounded_grows [OF assms(1) g]) simp
  then have b: "bounded U D V ?e" "c \<in> U" "fst ` set rest \<subseteq> U" "stack_ok ?e {c} rest" by (simp_all add: loop_bounded_def)
  have "type_data e c \<noteq> None" using assms(1) by (auto simp: loop_bounded_def bounded_def)
  then have d: "depends ?e c ds" using assms(2) depends_grows(1) [OF g] by simp
  then have "set ds \<subseteq> U" using b by (auto simp: bounded_def)
  have "stack_ok ?e (insert c (set ds)) rest"
    by (rule stack_ok_grows [OF engine_grows_refl b(4)]) (use b(1,3) in \<open>auto simp: bounded_def\<close>)
  with d have "stack_ok ?e (set ds) ((c, True) # rest)" by auto
  then have "stack_ok ?e {} (map (\<lambda>d. (d, False)) ds @ (c, True) # rest)" by (intro stack_ok_push) simp
  moreover have "\<forall>x \<in> set (entered @ [c]). x \<in> se_active ?e \<or> se_memo ?e x \<noteq> None" using l by (auto simp: loop_bounded_def)
  ultimately show ?thesis using b \<open>set ds \<subseteq> U\<close> unfolding loop_bounded_def by auto
qed

lemma answers_row_dependencies: "answers e (row_dependencies row) (\<lambda>_ _. True)" "answers e (row_option_dependencies row') (\<lambda>_ _. True)"
  unfolding row_dependencies_def row_option_dependencies_def
  by (auto intro!: answers_bind [OF answers_expanded_row] answers_ok split: option.split)

lemma answers_dependencies: "answers e (dependencies c) (\<lambda>ds _. depends e c ds)"
proof (rule answersI)
  have "answers e1 (data_dependencies relocation d) (\<lambda>_ _. True)" for relocation d and e1 :: "('a, 'b, 'c, 'd) type_substitution_engine"
    unfolding data_dependencies_def
    by (auto intro!: answers_ok answers_bind [OF answers_row_dependencies(1)] answers_bind [OF answers_row_dependencies(2)]
        answers_bind [where ?Q1.0 = "\<lambda>_ _. True"] answers_row_dependencies
        split: ty.split handler_produced_effects.split)
  then have "answers e (dependencies c) (\<lambda>_ _. True)" unfolding dependencies_def
    by (intro answers_bind [OF answers_require] answers_read) (auto intro!: answers_ok split: option.split)
  then show "dependencies c e \<noteq> None" by (auto simp: answers_def)
qed (auto intro: dependencies_value)

lemma answers_record_depth: "answers e (record_depth c) (\<lambda>_ _. True)"
proof (rule answersI [OF _ record_depth_le])
  show "record_depth c e \<noteq> None"
    using answers_dependencies [of e c] by (auto simp: record_depth_def sub_read_def sub_ok_def sub_bind_def answers_def Let_def split: option.split sum.split)
qed simp

lemma answers_expand: "answers e (expand_type c) (\<lambda>ds e'. depends e c ds)"
  unfolding expand_type_def by (rule answers_bind [OF answers_dependencies], rule answers_bind [OF answers_charges(2)]) (auto intro: answers_ok)

lemma enter_answers: "enter_type c (e :: ('s::linorder, 'd, 'g, 'e) type_substitution_engine) \<noteq> None"
proof -
  have "answers e check_expansion_depth (\<lambda>_ _. True)" unfolding check_expansion_depth_def
    by (intro answers_read) (auto intro: answers_ok answers_fail split: option.split)
  then have "answers e (sub_bind check_expansion_depth (\<lambda>_. charge_node)) (\<lambda>_ _. True)" by (rule answers_bind) (rule answers_charges)
  then obtain r e1 where "sub_bind check_expansion_depth (\<lambda>_. charge_node) e = Some (r, e1)" by (auto simp: answers_def)
  then have "sub_bind (sub_bind check_expansion_depth (\<lambda>_. charge_node)) (\<lambda>_ e. Some (Inr (), e\<lparr>se_active := insert c (se_active e)\<rparr>)) e \<noteq> None"
    by (cases r) (simp_all add: sub_bind_def [of "sub_bind _ _"])
  then show ?thesis by (simp add: enter_type_def sub_read_def sub_fail_def sub_bind_assoc)
qed

lemma push_fuel:
  assumes "finite U" "c \<in> U" "c \<notin> S" "k \<le> D" "m + (D + 1) * card (U - S) < n"
  shows "Suc k + m + (D + 1) * card (U - insert c S) < n"
proof -
  have "card (U - S) = Suc (card (U - insert c S))"
    using assms(1-3) by (metis Diff_iff Diff_insert card_Suc_Diff1 finite_Diff)
  with assms(4,5) show ?thesis by simp
qed

lemma finish_bounded:
  assumes b: "loop_bounded U D V ((c, True) # rest) entered e" and l: "loop_state e0 ((c, True) # rest) entered e" and m: "se_memo e c = None"
    and f: "\<And>t. preserves engine_le (f t)" and run: "finish_type f c e = Some (Inr u, e')"
  shows "loop_bounded U D V rest entered e' \<and> loop_state e0 rest entered e' \<and> engine_grows e e'"
proof -
  obtain specialized e1 where e1: "engine_le e e1" "e' = e1\<lparr>se_active := se_active e1 - {c}, se_memo := (se_memo e1)(c \<mapsto> specialized)\<rparr>"
    using finish_type_le [OF f run] by blast
  have g: "engine_grows e e'" unfolding e1(2) using loop_state_finish_grows [OF l m e1(1)] .
  have "loop_bounded U D V ((c, True) # rest) entered e'"
    by (rule loop_bounded_grows [OF b g]) (use engine_leD(2) [OF e1(1)] in \<open>auto simp: e1(2)\<close>)
  then have "loop_bounded U D V rest entered e'" by (rule loop_bounded_pop) (simp add: e1(2))
  moreover have "loop_state e0 rest entered e'" unfolding e1(2) by (rule loop_state_finish [OF l m e1(1)])
  ultimately show ?thesis using g by blast
qed

lemma enter_bounded:
  assumes b: "loop_bounded U D V ((c, False) # rest) entered e" and l: "loop_state e0 ((c, False) # rest) entered e" and "c \<notin> se_active e"
    and q: "quiet_le e e1" and run: "expand_type c (e1\<lparr>se_active := insert c (se_active e1)\<rparr>) = Some (Inr ds, e')"
  shows "loop_bounded U D V (map (\<lambda>d. (d, False)) ds @ (c, True) # rest) (entered @ [c]) e' \<and>
    loop_state e0 (map (\<lambda>d. (d, False)) ds @ (c, True) # rest) (entered @ [c]) e' \<and> engine_grows e e' \<and> length ds \<le> D"
proof -
  let ?e = "e1\<lparr>se_active := insert c (se_active e1)\<rparr>"
  have x: "engine_le ?e e'" "depends ?e c ds" using answers_expand [of ?e c] run by (auto simp: answers_def)
  note g1 = engine_leD(1,2) [OF quiet_leD(1) [OF q]]
  have b1: "loop_bounded U D V ((c, False) # rest) entered e1" using loop_bounded_grows [OF b g1(1)] g1(2) by auto
  have g2: "engine_grows e1 ?e" by (simp add: engine_grows_def same_settings_def)
  have "type_data e1 c \<noteq> None" using b1 by (auto simp: loop_bounded_def bounded_def)
  then have d: "depends e1 c ds" using x(2) depends_grows(1) [OF g2] by simp
  have "loop_bounded U D V (map (\<lambda>d. (d, False)) ds @ (c, True) # rest) (entered @ [c]) e'"
    using loop_bounded_grows [OF loop_bounded_push [OF b1 d] engine_leD(1) [OF x(1)]] engine_leD(2) [OF x(1)] by auto
  moreover have "loop_state e0 ((c, True) # rest) (entered @ [c]) e'"
    using loop_state_step [OF loop_state_enter [OF l assms(3) quiet_leD(1) [OF q]] x(1)] .
  moreover have "length ds \<le> D" using b1 d by (auto simp: loop_bounded_def bounded_def)
  moreover have "engine_grows e e'" using g1(1) g2 engine_leD(1) [OF x(1)] engine_grows_trans by blast
  ultimately show ?thesis by (auto simp: loop_state_def)
qed

context answering_calls
begin

lemma finish_answers:
  assumes "holds e" "depends e c ds" "known e ds" "arguments e c \<subseteq> V"
  shows "finish_type f c e \<noteq> None"
proof -
  have data: "type_data e c \<noteq> None" using assms(2) by (auto simp: depends_def split: option.splits)
  have "answers e (sub_bind (record_depth c) (\<lambda>_. assemble f c)) (\<lambda>_ _. True)"
  proof (rule answers_bind [OF answers_record_depth], rule answers_assemble)
    fix e1 assume e1: "engine_le e e1"
    show "holds e1" using holds_le [OF assms(1) e1] .
    show "depends e1 c ds" "arguments e1 c \<subseteq> V" using depends_grows [OF engine_leD(1) [OF e1] data] assms(2,4) by simp_all
    show "known e1 ds" using known_grows [OF e1 assms(3)] .
  qed
  then show ?thesis unfolding finish_type_def sub_bind_assoc [symmetric]
    by (auto simp: answers_def sub_bind_def [of "sub_bind _ _"] split: sum.split)
qed

lemma loop_answers:
  "loop_bounded U D V pending entered e \<Longrightarrow> loop_state e0 pending entered e \<Longrightarrow> holds e \<Longrightarrow>
   length pending + (D + 1) * card (U - set entered) < n \<Longrightarrow> substitute_loop f n pending entered e \<noteq> None"
proof (induction n arbitrary: pending entered e)
  case (Suc n)
  show ?case
  proof (cases pending)
    case Nil
    then show ?thesis by simp
  next
    case (Cons p rest)
    obtain current fin where p: "p = (current, fin)" by force
    obtain r e1 where c: "sub_checkpoint e = Some (r, e1)" using answers_checkpoint(1) [of e] by (auto simp: answers_def)
    have le: "engine_le e e1" using preservesD [OF quiet.preserves_checkpoint(1) c] by (rule quiet_leD)
    have b: "loop_bounded U D V ((current, fin) # rest) entered e1"
      using loop_bounded_grows [OF Suc.prems(1) engine_leD(1) [OF le]] engine_leD(2) [OF le] Cons p by auto
    have l: "loop_state e0 ((current, fin) # rest) entered e1" using loop_state_step [OF Suc.prems(2) le] Cons p by simp
    have h: "holds e1" using holds_le [OF Suc.prems(3) le] .
    have U: "current \<in> U" "finite U" "arguments e1 current \<subseteq> V" using b by (auto simp: loop_bounded_def bounded_def)
    consider err where "r = Inl err" | u where "r = Inr u" "se_memo e1 current \<noteq> None"
      | u where "r = Inr u" "se_memo e1 current = None" fin | u where "r = Inr u" "se_memo e1 current = None" "\<not> fin" by (cases r) auto
    then show ?thesis
    proof cases
      case 1
      with c Cons p show ?thesis by simp
    next
      case 2
      have "substitute_loop f n rest entered e1 \<noteq> None"
        using Suc.prems(4) Cons loop_state_pending [OF l] by (intro Suc.IH loop_bounded_pop [OF b 2(2)] h) auto
      with 2 c Cons p show ?thesis by simp
    next
      case 3
      have "stack_ok e1 {} ((current, True) # rest)" using b 3 by (simp add: loop_bounded_def)
      then obtain ds where ds: "depends e1 current ds" "known e1 ds" using 3 by (auto simp: known_def)
      from finish_answers [OF h ds U(3)] obtain r2 e2 where f2: "finish_type f current e1 = Some (r2, e2)" by fastforce
      have "substitute_loop f n rest entered e2 \<noteq> None" if "r2 = Inr u" for u
        using finish_bounded [OF _ _ 3(2) call_le f2 [unfolded that]] b l 3(3) holds_grows [OF h] Suc.prems(4) Cons by (intro Suc.IH) auto
      with 3 c Cons p f2 show ?thesis by (cases r2) auto
    next
      case 4
      obtain r2 e2 where en: "enter_type current e1 = Some (r2, e2)" using enter_answers by fastforce
      from enter_type_quiet [OF en] show ?thesis
      proof (elim disjE exE conjE)
        fix err assume "r2 = Inl err"
        with 4 c Cons p en show ?thesis by simp
      next
        fix ea assume a: "r2 = Inr ()" "current \<notin> se_active e1" "quiet_le e1 ea" "e2 = ea\<lparr>se_active := insert current (se_active ea)\<rparr>"
        obtain r3 e3 where ex: "expand_type current e2 = Some (r3, e3)" using answers_expand [of e2 current] by (auto simp: answers_def)
        have "substitute_loop f n (map (\<lambda>d. (d, False)) ds @ (current, True) # rest) (entered @ [current]) e3 \<noteq> None" if "r3 = Inr ds" for ds
        proof -
          note next_state = enter_bounded [OF _ _ a(2,3) ex [unfolded that a(4)], of U D V rest entered e0]
          have "current \<notin> set entered" using b a(2) 4(2) by (auto simp: loop_bounded_def)
          with next_state b l 4 show ?thesis
            using push_fuel [OF U(2,1), of "set entered" "length ds" D "Suc (length rest)" "Suc n"] Suc.prems(4) Cons holds_grows [OF h]
            by (intro Suc.IH) auto
        qed
        with 4 c Cons p en a(1) ex show ?thesis by (cases r3) auto
      qed
    qed
  qed
qed simp

lemma substitute_with_answers:
  assumes "bounded U D V e" "t \<in> U" "holds e" "2 + (D + 1) * card U \<le> n"
  shows "substitute_with f n t e \<noteq> None"
proof -
  obtain r e1 where c: "sub_checkpoint e = Some (r, e1)" using answers_checkpoint(1) [of e] by (auto simp: answers_def)
  have g: "engine_grows e e1" using preservesD [OF quiet.preserves_checkpoint(1) c] by (blast dest: quiet_leD engine_leD)
  have "loop_bounded U D V [(t, False)] [] e1" using bounded_grows [OF assms(1) g] assms(2) by (simp add: loop_bounded_def)
  moreover have "loop_state e1 [(t, False)] [] e1" by (simp add: loop_state_def)
  ultimately have "substitute_loop f n [(t, False)] [] e1 \<noteq> None"
    using holds_grows [OF assms(3) g] assms(4) by (intro loop_answers) auto
  with c show ?thesis by (auto simp: substitute_with_def sub_bind_def split: sum.split option.split)
qed

end

section \<open>Substitution comes to an end\<close>

lemma substitute_recorded: "se_memo e c \<noteq> None \<Longrightarrow> substitute (Suc n) c (e :: ('s::linorder, 'd, 'g, 'e) type_substitution_engine) \<noteq> None"
proof -
  assume m: "se_memo e c \<noteq> None"
  obtain r e1 where c: "sub_checkpoint e = Some (r, e1)" using answers_checkpoint(1) [of e] by (auto simp: answers_def)
  have "se_memo e1 = se_memo e" using preservesD [OF quiet.preserves_checkpoint(1) c] by (rule quiet_leD)
  with m c show ?thesis by (auto simp: substitute_with_def sub_bind_def split: sum.split)
qed

text \<open>With the bindings set aside there are no arguments left.\<close>

lemma aside_arguments: "arguments (aside e) c = {}"
proof -
  have replacement: "proper_replacement (aside e) c d = Some r \<Longrightarrow> \<not> is_named d" for d r
    by (cases d) (auto simp: proper_replacement_def replacement_def aside_def is_named_def input_store_def split: option.splits)
  have "argument_types x = []" if "row_expands (aside e) row x" for row x
    using that by (auto simp: row_expands_def aside_def argument_types_def)
  with replacement show ?thesis by (fastforce simp: arguments_def split: option.splits)
qed

lemma aside_grows: "engine_grows e e' \<Longrightarrow> engine_grows (aside e) (aside e')"
  unfolding engine_grows_def same_settings_def aside_def by (cases e; cases e') simp

lemma aside_answering: "answering_calls (substitute (Suc n) :: type_id \<Rightarrow> ('s::linorder, 'd, 'g, 'e, type_id) sub) {} (\<lambda>_. True)"
  by (unfold_locales, rule substitute_le, erule substitute_recorded) simp_all

interpretation set_aside: answering_calls "substitute (Suc n)" "{}" "\<lambda>_. True" for n
  by (rule aside_answering)

lemma aside_answers:
  assumes "bounded U D U (aside e)" "a \<in> U" "3 + (D + 1) * card U \<le> n"
  shows "substitute n a (aside e) \<noteq> None"
proof -
  obtain k where n: "n = Suc (Suc k)" using assms(3) that [of "n - 2"] by simp
  have "bounded U D {} (aside e)" using assms(1) by (simp add: bounded_def aside_arguments)
  then have "substitute_with (substitute (Suc k)) (Suc k) a (aside e) \<noteq> None"
    using assms(2,3) n by (intro set_aside.substitute_with_answers) auto
  then show ?thesis by (simp add: n)
qed

lemma engine_answering:
  assumes "bounded U D U (aside e)" "3 + (D + 1) * card U \<le> n"
  shows "answering_calls (substitute n) U (engine_grows (e :: ('s::linorder, 'd, 'g, 'e) type_substitution_engine))"
proof
  obtain k where n: "n = Suc k" using assms(2) by (cases n) auto
  show "substitute n c e1 \<noteq> None" if "se_memo e1 c \<noteq> None" for c and e1 :: "('s, 'd, 'g, 'e) type_substitution_engine"
    using substitute_recorded [OF that] n by blast
  show "substitute n a (aside e1) \<noteq> None" if "engine_grows e e1" "a \<in> U" for a e1
    by (rule aside_answers [OF bounded_grows [OF assms(1) aside_grows [OF that(1)]] that(2) assms(2)])
qed (auto intro: substitute_le engine_grows_trans)

text \<open>C13. Substitution comes to an end. If the type lies in a finite set of stored types that contains
  what its members depend on and their arguments, both under the bindings and with the bindings set
  aside, and no member has more than \<open>D\<close> dependencies, then \<open>4 + (D + 1) * card U\<close> units of fuel are
  enough for an answer.\<close>

theorem substitution_terminates:
  assumes "t \<in> U" "bounded U D U e" "bounded U D U (aside e)" "4 + (D + 1) * card U \<le> n"
  shows "\<exists>result e'. substitute n t e = Some (result, e')"
proof -
  obtain k where n: "n = Suc k" "3 + (D + 1) * card U \<le> k" using assms(4) by (cases n) auto
  have "substitute_with (substitute k) k t e \<noteq> None"
    by (rule answering_calls.substitute_with_answers [OF engine_answering [OF assms(3) n(2)] assms(2,1)]) (use n in auto)
  then show ?thesis by (simp add: n)
qed

theorem substitution_terminates_witness:
  "\<exists>result e'. substitute 10 1 example_engine = Some (result, e')"
proof (rule substitution_terminates [where U = "{0, 1, 2}" and D = 1])
  have "type_data e c = (if c = 0 then Some (TyNamed (lit ''T'') None) else if c = 1 then Some (TyArray 0) else if c = 2 then Some (TyPrimitive BoolT) else None)"
    if "e = example_engine \<or> e = aside example_engine" for e c
    using that by (auto simp: example_steps aside_def)
  then show "bounded {0, 1, 2} 1 {0, 1, 2} example_engine" "bounded {0, 1, 2} 1 {0, 1, 2} (aside example_engine)"
    by (auto simp: bounded_def depends_def arguments_def data_depends_def data_children_def data_rows_def example_steps aside_def split: if_splits)
qed auto

section \<open>Closed arguments\<close>




text \<open>Only the check itself reports an unresolved type.\<close>

definition resolved_step :: "('s, 'd, 'g, 'e, 'a) sub \<Rightarrow> bool" where
  "resolved_step m \<longleftrightarrow> (\<forall>e c e'. m e \<noteq> Some (Inl (UnresolvedType c), e'))"

lemma resolved_ok [simp]: "resolved_step (sub_ok x)"
  by (simp add: resolved_step_def sub_ok_def)




























end
