(* ===== verification/Etas_Row_Infer.thy ===== *)
theory Etas_Row_Infer
  imports Etas_Unify_Facts
begin

text \<open>Inference of effect rows (\<open>solver/effect_row.rs\<close>): types are resolved through the bindings and the
  substitution, compared up to the order of effects, and walked in pairs; rows that end in a parameter
  become equations, which are solved together for each parameter. The scopes of the parameters are part
  of the inputs. Comparisons and walks count nested calls; \<open>None\<close> stands for running out of them.\<close>

section \<open>Inputs and resolution\<close>

record ('s, 'd, 'g) inference_inputs =
  ii_store :: "('s, 'd, 'g) type_store"
  ii_type_bindings :: "(utext, type_id) fmap"
  ii_substitutions :: substitution
  ii_params :: "utext list"
  ii_lexical_params :: "utext list"

definition resolve_next :: "('s, 'd, 'g) inference_inputs \<Rightarrow> type_id \<Rightarrow> type_id option" where
  "resolve_next I current =
     (case store_get (ii_store I) current of
        Some (TyVar v) \<Rightarrow> fmlookup (ii_substitutions I) v
      | Some (TyNamed nm _) \<Rightarrow>
          if parameter_identity (ii_store I) current = None then fmlookup (ii_type_bindings I) nm else None
      | _ \<Rightarrow> None)"

definition bound_types :: "('s, 'd, 'g) inference_inputs \<Rightarrow> type_id set" where
  "bound_types I = fset (fmran (ii_substitutions I)) \<union> fset (fmran (ii_type_bindings I))"

lemma finite_bound_types [simp]: "finite (bound_types I)"
  by (simp add: bound_types_def)

lemma resolve_next_bound: "resolve_next I t = Some x \<Longrightarrow> x \<in> bound_types I"
  by (auto simp: resolve_next_def bound_types_def dest: fmranI split: option.splits ty.splits if_splits)

function resolve_from :: "('s, 'd, 'g) inference_inputs \<Rightarrow> type_id \<Rightarrow> type_id set \<Rightarrow> type_id" where
  "resolve_from I current visited =
     (if current \<in> visited then current
      else
        (case resolve_next I current of
           None \<Rightarrow> current
         | Some nxt \<Rightarrow> resolve_from I nxt (insert current visited)))"
  by pat_completeness auto
termination
proof (relation "measure (\<lambda>(I, current, visited). 2 * card (bound_types I - visited) + (if current \<in> bound_types I then 0 else 1))")
  fix I :: "('s, 'd, 'g) inference_inputs" and current visited nxt
  assume a: "current \<notin> visited" "resolve_next I current = Some nxt"
  have "card (bound_types I - insert current visited) < card (bound_types I - visited)" if "current \<in> bound_types I"
    using that a(1) by (intro psubset_card_mono) auto
  moreover have "card (bound_types I - insert current visited) = card (bound_types I - visited)" if "current \<notin> bound_types I"
  proof -
    have "bound_types I - insert current visited = bound_types I - visited" using that by blast
    then show ?thesis by simp
  qed
  moreover have "nxt \<in> bound_types I" using resolve_next_bound [OF a(2)] .
  ultimately show "((I, nxt, insert current visited), I, current, visited)
      \<in> measure (\<lambda>(I, current, visited). 2 * card (bound_types I - visited) + (if current \<in> bound_types I then 0 else 1))"
    by (cases "current \<in> bound_types I") auto
qed simp

declare resolve_from.simps [simp del]

definition resolve_type :: "('s, 'd, 'g) inference_inputs \<Rightarrow> type_id \<Rightarrow> type_id" where
  "resolve_type I t = resolve_from I t {}"

section \<open>Equivalence\<close>

text \<open>Short-circuit loops whose test may run out of fuel.\<close>

fun any_opt :: "('a \<Rightarrow> bool option) \<Rightarrow> 'a list \<Rightarrow> bool option" where
  "any_opt f [] = Some False"
| "any_opt f (x # xs) =
     (case f x of None \<Rightarrow> None | Some b \<Rightarrow> if b then Some True else any_opt f xs)"

fun all_opt :: "('a \<Rightarrow> bool option) \<Rightarrow> 'a list \<Rightarrow> bool option" where
  "all_opt f [] = Some True"
| "all_opt f (x # xs) =
     (case f x of None \<Rightarrow> None | Some b \<Rightarrow> if b then all_opt f xs else Some False)"

fun filter_opt :: "('a \<Rightarrow> bool option) \<Rightarrow> 'a list \<Rightarrow> 'a list option" where
  "filter_opt f [] = Some []"
| "filter_opt f (x # xs) =
     (case f x of
        None \<Rightarrow> None
      | Some b \<Rightarrow> (case filter_opt f xs of None \<Rightarrow> None | Some ys \<Rightarrow> Some (if b then x # ys else ys)))"

text \<open>A comparison of types threads the pairs it has met.\<close>

type_synonym type_comparison = "type_id \<Rightarrow> type_id \<Rightarrow> (type_id \<times> type_id) set \<Rightarrow> (bool \<times> (type_id \<times> type_id) set) option"

definition args_equivalent :: "type_comparison \<Rightarrow> effect_arg_ref \<times> effect_arg_ref \<Rightarrow> bool option" where
  "args_equivalent f p =
     (case p of
        (ArgType l, ArgType r) \<Rightarrow> map_option fst (f l r {})
      | (l, r) \<Rightarrow> Some (l = r))"

definition effect_refs_equivalent :: "type_comparison \<Rightarrow> effect_ref \<Rightarrow> effect_ref \<Rightarrow> bool option" where
  "effect_refs_equivalent f lhs rhs =
     (if ef_name lhs = ef_name rhs \<and> length (ef_args lhs) = length (ef_args rhs)
      then all_opt (args_equivalent f) (zip (ef_args lhs) (ef_args rhs)) else Some False)"

definition effects_within :: "(effect_ref \<Rightarrow> effect_ref \<Rightarrow> bool option) \<Rightarrow> effect_ref list \<Rightarrow> effect_ref list \<Rightarrow> bool option" where
  "effects_within eq ls rs = all_opt (\<lambda>l. any_opt (\<lambda>r. eq l r) rs) ls"

definition rows_equivalent :: "type_comparison \<Rightarrow> effect_row_ref \<Rightarrow> effect_row_ref \<Rightarrow> bool option" where
  "rows_equivalent f lhs rhs =
     (if rr_tail lhs = rr_tail rhs then
        (case effects_within (effect_refs_equivalent f) (rr_effects lhs) (rr_effects rhs) of
           None \<Rightarrow> None
         | Some b \<Rightarrow>
             if b then all_opt (\<lambda>r. any_opt (\<lambda>l. effect_refs_equivalent f l r) (rr_effects lhs)) (rr_effects rhs) else Some False)
      else Some False)"

text \<open>The comparisons a pair of types asks for, in the order of the code.\<close>

datatype comparison = CompareTypes type_id type_id | CompareRows effect_row_ref effect_row_ref | Require bool

definition compare_rows_opt :: "effect_row_ref option \<Rightarrow> effect_row_ref option \<Rightarrow> comparison list" where
  "compare_rows_opt l r =
     (case (l, r) of (Some l, Some r) \<Rightarrow> [CompareRows l r] | (None, None) \<Rightarrow> [] | _ \<Rightarrow> [Require False])"

definition compare_types_opt :: "type_id option \<Rightarrow> type_id option \<Rightarrow> comparison list" where
  "compare_types_opt l r =
     (case (l, r) of (Some l, Some r) \<Rightarrow> [CompareTypes l r] | (None, None) \<Rightarrow> [] | _ \<Rightarrow> [Require False])"

definition compare_all :: "type_id list \<Rightarrow> type_id list \<Rightarrow> comparison list" where
  "compare_all ls rs = Require (length ls = length rs) # map2 CompareTypes ls rs"

definition compare_identities :: "'i option \<Rightarrow> 'i option \<Rightarrow> 's ty \<Rightarrow> 's ty \<Rightarrow> comparison list" where
  "compare_identities l r a b =
     [Require (case (l, r) of (Some l, Some r) \<Rightarrow> l = r | (None, None) \<Rightarrow> a = b | _ \<Rightarrow> False)]"

definition compare_data :: "('s, 'd, 'g) type_store \<Rightarrow> type_id \<Rightarrow> type_id \<Rightarrow> 's ty \<Rightarrow> 's ty \<Rightarrow> comparison list" where
  "compare_data s lhs rhs a b =
     (case a of
        TyArray l \<Rightarrow> (case b of TyArray r \<Rightarrow> [CompareTypes l r] | _ \<Rightarrow> [Require (a = b)])
      | TyList l \<Rightarrow> (case b of TyList r \<Rightarrow> [CompareTypes l r] | _ \<Rightarrow> [Require (a = b)])
      | TySet l \<Rightarrow> (case b of TySet r \<Rightarrow> [CompareTypes l r] | _ \<Rightarrow> [Require (a = b)])
      | TySlice l \<Rightarrow> (case b of TySlice r \<Rightarrow> [CompareTypes l r] | _ \<Rightarrow> [Require (a = b)])
      | TyOption l \<Rightarrow> (case b of TyOption r \<Rightarrow> [CompareTypes l r] | _ \<Rightarrow> [Require (a = b)])
      | TySchema l \<Rightarrow> (case b of TySchema r \<Rightarrow> [CompareTypes l r] | _ \<Rightarrow> [Require (a = b)])
      | TyMessage l \<Rightarrow> (case b of TyMessage r \<Rightarrow> [CompareTypes l r] | _ \<Rightarrow> [Require (a = b)])
      | TyMemorySelection l \<Rightarrow> (case b of TyMemorySelection r \<Rightarrow> [CompareTypes l r] | _ \<Rightarrow> [Require (a = b)])
      | TyMemoryRegion l \<Rightarrow> (case b of TyMemoryRegion r \<Rightarrow> [CompareTypes l r] | _ \<Rightarrow> [Require (a = b)])
      | TyRange l \<Rightarrow> (case b of TyRange r \<Rightarrow> [CompareTypes l r] | _ \<Rightarrow> [Require (a = b)])
      | TyTuple ls \<Rightarrow> (case b of TyTuple rs \<Rightarrow> compare_all ls rs | _ \<Rightarrow> [Require (a = b)])
      | TyApplied c ls \<Rightarrow> (case b of TyApplied c' rs \<Rightarrow> Require (c = c') # compare_all ls rs | _ \<Rightarrow> [Require (a = b)])
      | TyRecord ls \<Rightarrow>
          (case b of
             TyRecord rs \<Rightarrow> Require (length ls = length rs) #
               concat (map2 (\<lambda>l r. [Require (ft_name l = ft_name r), CompareTypes (ft_ty l) (ft_ty r)]) ls rs)
           | _ \<Rightarrow> [Require (a = b)])
      | TyFunction ls l e \<Rightarrow>
          (case b of
             TyFunction rs r e' \<Rightarrow> compare_all ls rs @ [CompareTypes l r] @ compare_rows_opt e e'
           | _ \<Rightarrow> [Require (a = b)])
      | TyHandler h p l \<Rightarrow>
          (case b of
             TyHandler h' p' r \<Rightarrow> CompareRows h h' #
               (case (p, p') of
                  (ProducedInfer, ProducedInfer) \<Rightarrow> []
                | (ProducedExplicit x, ProducedExplicit y) \<Rightarrow> [CompareRows x y]
                | _ \<Rightarrow> [Require False]) @ compare_types_opt l r
           | _ \<Rightarrow> [Require (a = b)])
      | TyTask l e \<Rightarrow> (case b of TyTask r e' \<Rightarrow> [CompareTypes l r, CompareRows e e'] | _ \<Rightarrow> [Require (a = b)])
      | TySchedulerHandle \<Rightarrow> (case b of TySchedulerHandle \<Rightarrow> [] | _ \<Rightarrow> [Require (a = b)])
      | TyContinuation l x e \<Rightarrow>
          (case b of
             TyContinuation r y e' \<Rightarrow> CompareTypes l r # compare_types_opt x y @ compare_rows_opt e e'
           | _ \<Rightarrow> [Require (a = b)])
      | TyMap k v \<Rightarrow> (case b of TyMap k' v' \<Rightarrow> [CompareTypes k k', CompareTypes v v'] | _ \<Rightarrow> [Require (a = b)])
      | TyStore k v \<Rightarrow> (case b of TyStore k' v' \<Rightarrow> [CompareTypes k k', CompareTypes v v'] | _ \<Rightarrow> [Require (a = b)])
      | TyResult k v \<Rightarrow> (case b of TyResult k' v' \<Rightarrow> [CompareTypes k k', CompareTypes v v'] | _ \<Rightarrow> [Require (a = b)])
      | TyRefined l p \<Rightarrow> (case b of TyRefined r p' \<Rightarrow> [Require (p = p'), CompareTypes l r] | _ \<Rightarrow> [Require (a = b)])
      | TyTrust w l \<Rightarrow> (case b of TyTrust w' r \<Rightarrow> [Require (w = w'), CompareTypes l r] | _ \<Rightarrow> [Require (a = b)])
      | TyResourceHandle x \<Rightarrow>
          (case b of
             TyResourceHandle y \<Rightarrow>
               (case (x, y) of
                  (RhMemoryRegion l, RhMemoryRegion r) \<Rightarrow> [CompareTypes l r]
                | (RhExternalTool l, RhExternalTool r) \<Rightarrow> [CompareTypes l r]
                | (RhOther nm ls, RhOther nm' rs) \<Rightarrow> Require (nm = nm') # compare_all ls rs
                | _ \<Rightarrow> [Require (a = b)])
           | _ \<Rightarrow> [Require (a = b)])
      | TyNominal _ \<Rightarrow>
          (case b of TyNominal _ \<Rightarrow> compare_identities (nominal_identity s lhs) (nominal_identity s rhs) a b | _ \<Rightarrow> [Require (a = b)])
      | TyEnum _ \<Rightarrow>
          (case b of TyEnum _ \<Rightarrow> compare_identities (nominal_identity s lhs) (nominal_identity s rhs) a b | _ \<Rightarrow> [Require (a = b)])
      | TyNamed _ _ \<Rightarrow>
          (case b of TyNamed _ _ \<Rightarrow> compare_identities (parameter_identity s lhs) (parameter_identity s rhs) a b | _ \<Rightarrow> [Require (a = b)])
      | _ \<Rightarrow> [Require (a = b)])"

definition comparisons :: "('s, 'd, 'g) inference_inputs \<Rightarrow> type_id \<Rightarrow> type_id \<Rightarrow> comparison list" where
  "comparisons I lhs rhs =
     (case (store_get (ii_store I) lhs, store_get (ii_store I) rhs) of
        (Some a, Some b) \<Rightarrow> compare_data (ii_store I) lhs rhs a b
      | _ \<Rightarrow> [Require False])"

fun run_comparisons :: "type_comparison \<Rightarrow> comparison list \<Rightarrow> (type_id \<times> type_id) set \<Rightarrow> (bool \<times> (type_id \<times> type_id) set) option" where
  "run_comparisons f [] visited = Some (True, visited)"
| "run_comparisons f (Require b # cs) visited = (if b then run_comparisons f cs visited else Some (False, visited))"
| "run_comparisons f (CompareTypes l r # cs) visited =
     (case f l r visited of
        None \<Rightarrow> None
      | Some (b, visited) \<Rightarrow> if b then run_comparisons f cs visited else Some (False, visited))"
| "run_comparisons f (CompareRows l r # cs) visited =
     (case rows_equivalent f l r of
        None \<Rightarrow> None
      | Some b \<Rightarrow> if b then run_comparisons f cs visited else Some (False, visited))"

fun types_equivalent :: "nat \<Rightarrow> ('s, 'd, 'g) inference_inputs \<Rightarrow> type_comparison" where
  "types_equivalent 0 I lhs rhs visited = None"
| "types_equivalent (Suc n) I lhs rhs visited =
     (let lhs = resolve_type I lhs; rhs = resolve_type I rhs in
      if lhs = rhs \<or> (lhs, rhs) \<in> visited then Some (True, visited)
      else run_comparisons (types_equivalent n I) (comparisons I lhs rhs) (insert (lhs, rhs) visited))"

section \<open>Collecting equations\<close>

record row_inference =
  ri_matches :: bool
  ri_deferred :: "utext set"
  ri_deferred_fixed :: "(utext \<times> effect_row_ref) list"
  ri_concrete :: "(utext \<times> effect_row_ref \<times> effect_row_ref) list"

record row_equation =
  re_parameter :: utext
  re_fixed :: "effect_ref list"
  re_actual :: effect_row_ref
  re_origin :: nat

record inference_state =
  st_bindings :: "(utext, effect_row_ref) fmap"
  st_results :: "row_inference list"
  st_current :: nat
  st_equations :: "row_equation list"
  st_visited :: "(type_id \<times> type_id) set"

definition empty_row :: effect_row_ref where
  "empty_row = EffectRowRef [] None"

text \<open>The entry of the current pair is a valid position; updates elsewhere do not occur.\<close>

definition update_result :: "nat \<Rightarrow> (row_inference \<Rightarrow> row_inference) \<Rightarrow> inference_state \<Rightarrow> inference_state" where
  "update_result i g st = st\<lparr>st_results := (st_results st)[i := g (st_results st ! i)]\<rparr>"

definition still_matches :: "bool \<Rightarrow> row_inference \<Rightarrow> row_inference" where
  "still_matches b r = r\<lparr>ri_matches := ri_matches r \<and> b\<rparr>"

definition defer_param :: "utext \<Rightarrow> effect_row_ref \<Rightarrow> row_inference \<Rightarrow> row_inference" where
  "defer_param p row r = r\<lparr>ri_deferred := insert p (ri_deferred r), ri_deferred_fixed := ri_deferred_fixed r @ [(p, row)]\<rparr>"

definition param_tail :: "('s, 'd, 'g) inference_inputs \<Rightarrow> effect_row_ref \<Rightarrow> utext option" where
  "param_tail I row =
     (case rr_tail row of Some tail \<Rightarrow> if tail \<in> set (ii_params I) then Some tail else None | None \<Rightarrow> None)"

definition infer_row_binding ::
    "nat \<Rightarrow> ('s, 'd, 'g) inference_inputs \<Rightarrow> effect_row_ref option \<Rightarrow> effect_row_ref option \<Rightarrow>
     inference_state \<Rightarrow> inference_state option" where
  "infer_row_binding n I expected actual st =
     (case expected of
        None \<Rightarrow> Some st
      | Some expected \<Rightarrow>
          (case param_tail I expected of
             Some tail \<Rightarrow>
               if actual = None \<and> rr_effects expected = [] then
                 Some (update_result (st_current st) (defer_param tail empty_row) st)
               else
                 Some (st\<lparr>st_equations := st_equations st @
                   [\<lparr>re_parameter = tail, re_fixed = rr_effects expected,
                     re_actual = (case actual of None \<Rightarrow> empty_row | Some row \<Rightarrow> row), re_origin = st_current st\<rparr>]\<rparr>)
           | None \<Rightarrow>
               (case rows_equivalent (types_equivalent n I) expected (case actual of None \<Rightarrow> empty_row | Some row \<Rightarrow> row) of
                  None \<Rightarrow> None
                | Some b \<Rightarrow> Some (update_result (st_current st) (still_matches b) st))))"

datatype obligation = InferTypes type_id type_id | InferRows "effect_row_ref option" "effect_row_ref option"

definition infer_all :: "type_id list \<Rightarrow> type_id list \<Rightarrow> obligation list" where
  "infer_all ls rs = map2 InferTypes ls rs"

definition infer_opt :: "type_id option \<Rightarrow> type_id option \<Rightarrow> obligation list" where
  "infer_opt l r = (case (l, r) of (Some l, Some r) \<Rightarrow> [InferTypes l r] | _ \<Rightarrow> [])"

definition infer_field :: "field_type list \<Rightarrow> field_type \<Rightarrow> obligation list" where
  "infer_field actual expected =
     (case find (\<lambda>a. ft_name a = ft_name expected) actual of
        Some a \<Rightarrow> [InferTypes (ft_ty expected) (ft_ty a)]
      | None \<Rightarrow> [])"

definition infer_data :: "'s ty \<Rightarrow> 's ty \<Rightarrow> obligation list" where
  "infer_data expected actual =
     (case expected of
        TyFunction ls l e \<Rightarrow>
          (case actual of
             TyFunction rs r e' \<Rightarrow>
               if length ls \<noteq> length rs then [] else infer_all ls rs @ [InferTypes l r, InferRows e e']
           | _ \<Rightarrow> [])
      | TyHandler h p l \<Rightarrow>
          (case actual of
             TyHandler h' p' r \<Rightarrow> InferRows (Some h) (Some h') #
               (case (p, p') of (ProducedExplicit x, ProducedExplicit y) \<Rightarrow> [InferRows (Some x) (Some y)] | _ \<Rightarrow> []) @ infer_opt l r
           | _ \<Rightarrow> [])
      | TyTask l e \<Rightarrow> (case actual of TyTask r e' \<Rightarrow> [InferTypes l r, InferRows (Some e) (Some e')] | _ \<Rightarrow> [])
      | TyContinuation l x e \<Rightarrow>
          (case actual of TyContinuation r y e' \<Rightarrow> InferTypes l r # infer_opt x y @ [InferRows e e'] | _ \<Rightarrow> [])
      | TyRecord ls \<Rightarrow> (case actual of TyRecord rs \<Rightarrow> concat (map (infer_field rs) ls) | _ \<Rightarrow> [])
      | TyTuple ls \<Rightarrow> (case actual of TyTuple rs \<Rightarrow> if length ls = length rs then infer_all ls rs else [] | _ \<Rightarrow> [])
      | TyApplied c ls \<Rightarrow>
          (case actual of TyApplied c' rs \<Rightarrow> if c = c' \<and> length ls = length rs then infer_all ls rs else [] | _ \<Rightarrow> [])
      | TyArray l \<Rightarrow> (case actual of TyArray r \<Rightarrow> [InferTypes l r] | _ \<Rightarrow> [])
      | TyList l \<Rightarrow> (case actual of TyList r \<Rightarrow> [InferTypes l r] | _ \<Rightarrow> [])
      | TySet l \<Rightarrow> (case actual of TySet r \<Rightarrow> [InferTypes l r] | _ \<Rightarrow> [])
      | TySlice l \<Rightarrow> (case actual of TySlice r \<Rightarrow> [InferTypes l r] | _ \<Rightarrow> [])
      | TyOption l \<Rightarrow> (case actual of TyOption r \<Rightarrow> [InferTypes l r] | _ \<Rightarrow> [])
      | TySchema l \<Rightarrow> (case actual of TySchema r \<Rightarrow> [InferTypes l r] | _ \<Rightarrow> [])
      | TyMessage l \<Rightarrow> (case actual of TyMessage r \<Rightarrow> [InferTypes l r] | _ \<Rightarrow> [])
      | TyMemorySelection l \<Rightarrow> (case actual of TyMemorySelection r \<Rightarrow> [InferTypes l r] | _ \<Rightarrow> [])
      | TyMemoryRegion l \<Rightarrow> (case actual of TyMemoryRegion r \<Rightarrow> [InferTypes l r] | _ \<Rightarrow> [])
      | TyRange l \<Rightarrow> (case actual of TyRange r \<Rightarrow> [InferTypes l r] | _ \<Rightarrow> [])
      | TyRefined l p \<Rightarrow> (case actual of TyRefined r p' \<Rightarrow> if p = p' then [InferTypes l r] else [] | _ \<Rightarrow> [])
      | TyTrust w l \<Rightarrow> (case actual of TyTrust w' r \<Rightarrow> if w = w' then [InferTypes l r] else [] | _ \<Rightarrow> [])
      | TyMap k v \<Rightarrow> (case actual of TyMap k' v' \<Rightarrow> [InferTypes k k', InferTypes v v'] | _ \<Rightarrow> [])
      | TyStore k v \<Rightarrow> (case actual of TyStore k' v' \<Rightarrow> [InferTypes k k', InferTypes v v'] | _ \<Rightarrow> [])
      | TyResult k v \<Rightarrow> (case actual of TyResult k' v' \<Rightarrow> [InferTypes k k', InferTypes v v'] | _ \<Rightarrow> [])
      | TyResourceHandle x \<Rightarrow>
          (case actual of
             TyResourceHandle y \<Rightarrow>
               (case (x, y) of
                  (RhMemoryRegion l, RhMemoryRegion r) \<Rightarrow> [InferTypes l r]
                | (RhExternalTool l, RhExternalTool r) \<Rightarrow> [InferTypes l r]
                | (RhOther nm ls, RhOther nm' rs) \<Rightarrow> if nm = nm' \<and> length ls = length rs then infer_all ls rs else []
                | _ \<Rightarrow> [])
           | _ \<Rightarrow> [])
      | _ \<Rightarrow> [])"

definition obligations :: "('s, 'd, 'g) inference_inputs \<Rightarrow> type_id \<Rightarrow> type_id \<Rightarrow> obligation list" where
  "obligations I expected actual =
     (case (store_get (ii_store I) expected, store_get (ii_store I) actual) of
        (Some e, Some a) \<Rightarrow> infer_data e a
      | _ \<Rightarrow> [])"

fun run_obligations ::
    "(type_id \<Rightarrow> type_id \<Rightarrow> inference_state \<Rightarrow> inference_state option) \<Rightarrow>
     (effect_row_ref option \<Rightarrow> effect_row_ref option \<Rightarrow> inference_state \<Rightarrow> inference_state option) \<Rightarrow>
     obligation list \<Rightarrow> inference_state \<Rightarrow> inference_state option" where
  "run_obligations f g [] st = Some st"
| "run_obligations f g (InferTypes e a # os) st =
     (case f e a st of None \<Rightarrow> None | Some st \<Rightarrow> run_obligations f g os st)"
| "run_obligations f g (InferRows e a # os) st =
     (case g e a st of None \<Rightarrow> None | Some st \<Rightarrow> run_obligations f g os st)"

fun infer_type ::
    "nat \<Rightarrow> ('s, 'd, 'g) inference_inputs \<Rightarrow> type_id \<Rightarrow> type_id \<Rightarrow> inference_state \<Rightarrow> inference_state option" where
  "infer_type 0 I expected actual st = None"
| "infer_type (Suc n) I expected actual st =
     (if \<not> ri_matches (st_results st ! st_current st) then Some st
      else
        (let e = resolve_type I expected; a = resolve_type I actual in
         if (e, a) \<in> st_visited st then Some st
         else run_obligations (infer_type n I) (infer_row_binding n I) (obligations I e a)
           (st\<lparr>st_visited := insert (e, a) (st_visited st)\<rparr>)))"

fun infer_pairs ::
    "nat \<Rightarrow> ('s, 'd, 'g) inference_inputs \<Rightarrow> (nat \<times> type_id \<times> type_id) list \<Rightarrow> inference_state \<Rightarrow> inference_state option" where
  "infer_pairs n I [] st = Some st"
| "infer_pairs n I ((index, expected, actual) # ps) st =
     (case infer_type n I expected actual (st\<lparr>st_current := index, st_visited := {}\<rparr>) of
        None \<Rightarrow> None
      | Some st \<Rightarrow> infer_pairs n I ps st)"

section \<open>Solving equations\<close>

text \<open>A tail that is the parameter itself is the callee's own binder unless the caller has one of the
  same name.\<close>

definition self_tail :: "('s, 'd, 'g) inference_inputs \<Rightarrow> row_equation \<Rightarrow> bool" where
  "self_tail I q \<longleftrightarrow> rr_tail (re_actual q) = Some (re_parameter q) \<and> re_parameter q \<notin> set (ii_lexical_params I)"

definition record_concrete :: "('s, 'd, 'g) inference_inputs \<Rightarrow> row_equation \<Rightarrow> inference_state \<Rightarrow> inference_state" where
  "record_concrete I q st =
     (if self_tail I q then st
      else update_result (re_origin q) (\<lambda>r. r\<lparr>ri_concrete := ri_concrete r @
        [(re_parameter q, EffectRowRef (re_fixed q) None, re_actual q)]\<rparr>) st)"

fun add_effects :: "(effect_ref \<Rightarrow> effect_ref \<Rightarrow> bool option) \<Rightarrow> effect_ref list \<Rightarrow> effect_ref list \<Rightarrow> effect_ref list option" where
  "add_effects eq [] acc = Some acc"
| "add_effects eq (x # xs) acc =
     (case any_opt (\<lambda>y. eq y x) acc of
        None \<Rightarrow> None
      | Some b \<Rightarrow> add_effects eq xs (if b then acc else acc @ [x]))"

definition residual_effects :: "(effect_ref \<Rightarrow> effect_ref \<Rightarrow> bool option) \<Rightarrow> row_equation \<Rightarrow> effect_ref list option" where
  "residual_effects eq q =
     filter_opt (\<lambda>a. map_option Not (any_opt (\<lambda>fx. eq fx a) (re_fixed q))) (rr_effects (re_actual q))"

definition gather ::
    "('s, 'd, 'g) inference_inputs \<Rightarrow> (effect_ref \<Rightarrow> effect_ref \<Rightarrow> bool option) \<Rightarrow> bool \<Rightarrow> row_equation \<Rightarrow>
     effect_row_ref option \<times> inference_state \<Rightarrow> (effect_row_ref option \<times> inference_state) option" where
  "gather I eq is_explicit q acc =
     (case acc of (inferred, st) \<Rightarrow>
        (case effects_within eq (re_fixed q) (rr_effects (re_actual q)) of
           None \<Rightarrow> None
         | Some present \<Rightarrow>
             if \<not> present then Some (inferred, update_result (re_origin q) (still_matches False) st)
             else
               (case residual_effects eq q of
                  None \<Rightarrow> None
                | Some residual \<Rightarrow>
                    if self_tail I q then
                      Some (inferred,
                        update_result (re_origin q)
                          (if residual = [] then defer_param (re_parameter q) (EffectRowRef (re_fixed q) None) else still_matches False) st)
                    else if is_explicit then Some (inferred, st)
                    else
                      (let row = (case inferred of None \<Rightarrow> EffectRowRef [] (rr_tail (re_actual q)) | Some row \<Rightarrow> row);
                           st = (if rr_tail row \<noteq> rr_tail (re_actual q)
                                 then update_result (re_origin q) (still_matches False) st else st)
                       in case add_effects eq residual (rr_effects row) of
                            None \<Rightarrow> None
                          | Some effects \<Rightarrow> Some (Some (EffectRowRef effects (rr_tail row)), st)))))"

fun gather_all where
  "gather_all I eq is_explicit [] acc = Some acc"
| "gather_all I eq is_explicit (q # qs) acc =
     (case gather I eq is_explicit q acc of None \<Rightarrow> None | Some acc \<Rightarrow> gather_all I eq is_explicit qs acc)"

definition equation_holds :: "(effect_ref \<Rightarrow> effect_ref \<Rightarrow> bool option) \<Rightarrow> effect_row_ref \<Rightarrow> row_equation \<Rightarrow> bool option" where
  "equation_holds eq bound q =
     (case add_effects eq (rr_effects bound) (re_fixed q) of
        None \<Rightarrow> None
      | Some combined \<Rightarrow>
          if rr_tail bound = rr_tail (re_actual q) then
            (case effects_within eq combined (rr_effects (re_actual q)) of
               None \<Rightarrow> None
             | Some b \<Rightarrow> if b then effects_within eq (rr_effects (re_actual q)) combined else Some False)
          else Some False)"

fun verify_all where
  "verify_all I eq bound [] st = Some st"
| "verify_all I eq bound (q # qs) st =
     (if self_tail I q then verify_all I eq bound qs st
      else
        (case equation_holds eq bound q of
           None \<Rightarrow> None
         | Some b \<Rightarrow> verify_all I eq bound qs (update_result (re_origin q) (still_matches b) st)))"

definition solve_group ::
    "('s, 'd, 'g) inference_inputs \<Rightarrow> (effect_ref \<Rightarrow> effect_ref \<Rightarrow> bool option) \<Rightarrow> utext \<Rightarrow> row_equation list \<Rightarrow>
     inference_state \<Rightarrow> inference_state option" where
  "solve_group I eq p qs st =
     (let explicit_binding = fmlookup (st_bindings st) p in
      case gather_all I eq (explicit_binding \<noteq> None) qs (None, st) of
        None \<Rightarrow> None
      | Some (inferred, st) \<Rightarrow>
          (case (case explicit_binding of Some row \<Rightarrow> Some row | None \<Rightarrow> inferred) of
             None \<Rightarrow> Some st
           | Some bound \<Rightarrow>
               (case verify_all I eq bound qs st of
                  None \<Rightarrow> None
                | Some st \<Rightarrow>
                    Some (if list_all (\<lambda>q. ri_matches (st_results st ! re_origin q)) qs
                          then st\<lparr>st_bindings := fmupd p bound (st_bindings st)\<rparr> else st))))"

fun solve_groups where
  "solve_groups I eq equations [] st = Some st"
| "solve_groups I eq equations (p # ps) st =
     (case solve_group I eq p (filter (\<lambda>q. re_parameter q = p) equations) st of
        None \<Rightarrow> None
      | Some st \<Rightarrow> solve_groups I eq equations ps st)"

definition solve_row_equations ::
    "nat \<Rightarrow> ('s, 'd, 'g) inference_inputs \<Rightarrow> inference_state \<Rightarrow> inference_state option" where
  "solve_row_equations n I st =
     (let equations = st_equations st in
      solve_groups I (effect_refs_equivalent (types_equivalent n I)) equations
        (sort (remdups (map re_parameter equations)))
        (fold (record_concrete I) equations (st\<lparr>st_equations := []\<rparr>)))"

section \<open>Entry points\<close>

definition fresh_inference :: row_inference where
  "fresh_inference = \<lparr>ri_matches = True, ri_deferred = {}, ri_deferred_fixed = [], ri_concrete = []\<rparr>"

definition infer_scoped_bindings_from_pairs ::
    "nat \<Rightarrow> ('s, 'd, 'g) inference_inputs \<Rightarrow> (type_id \<times> type_id) list \<Rightarrow> (utext, effect_row_ref) fmap \<Rightarrow>
     (row_inference list \<times> (utext, effect_row_ref) fmap) option" where
  "infer_scoped_bindings_from_pairs n I pairs bindings =
     (case infer_pairs n I (enumerate 0 pairs)
             \<lparr>st_bindings = bindings, st_results = replicate (length pairs) fresh_inference, st_current = 0,
              st_equations = [], st_visited = {}\<rparr> of
        None \<Rightarrow> None
      | Some st \<Rightarrow>
          (case solve_row_equations n I st of
             None \<Rightarrow> None
           | Some st \<Rightarrow> Some (st_results st, st_bindings st)))"

definition infer_bindings_from_type_pairs where
  "infer_bindings_from_type_pairs n I pairs bindings = infer_scoped_bindings_from_pairs n I pairs bindings"

definition infer_scoped_bindings_from_types ::
    "nat \<Rightarrow> ('s, 'd, 'g) inference_inputs \<Rightarrow> type_id \<Rightarrow> type_id \<Rightarrow> (utext, effect_row_ref) fmap \<Rightarrow>
     (row_inference \<times> (utext, effect_row_ref) fmap) option" where
  "infer_scoped_bindings_from_types n I expected actual bindings =
     (case infer_scoped_bindings_from_pairs n I [(expected, actual)] bindings of
        None \<Rightarrow> None
      | Some (results, bindings) \<Rightarrow> Some (hd results, bindings))"

definition infer_bindings_from_types where
  "infer_bindings_from_types n s expected actual type_bindings substitutions params bindings =
     infer_scoped_bindings_from_types n
       \<lparr>ii_store = s, ii_type_bindings = type_bindings, ii_substitutions = substitutions, ii_params = params, ii_lexical_params = []\<rparr>
       expected actual bindings"

definition rows_equal :: "effect_row_ref \<Rightarrow> effect_row_ref \<Rightarrow> bool" where
  "rows_equal lhs rhs \<longleftrightarrow> lhs = rhs"

fun push_missing :: "effect_ref list \<Rightarrow> effect_ref list \<Rightarrow> effect_ref list" where
  "push_missing [] acc = acc"
| "push_missing (x # xs) acc = push_missing xs (if x \<in> set acc then acc else acc @ [x])"

definition specialize_row :: "effect_row_ref \<Rightarrow> (utext, effect_row_ref) fmap \<Rightarrow> effect_row_ref" where
  "specialize_row row bindings =
     (case rr_tail row of
        None \<Rightarrow> row
      | Some tail \<Rightarrow>
          (case fmlookup bindings tail of
             None \<Rightarrow> row
           | Some bound \<Rightarrow> EffectRowRef (push_missing (rr_effects bound) (rr_effects row)) (rr_tail bound)))"

end
