(* ===== verification/Etas_Row_Meaning.thy ===== *)
theory Etas_Row_Meaning
  imports Etas_Row_Infer Etas_Substitute_Facts
begin

text \<open>What a type stands for during the inference of effect rows: the tree that is left when variables and bound
  names are followed. The comparisons of \<open>solver/effect_row.rs\<close> are shown to decide equality of these
  trees.\<close>

section \<open>What a type stands for\<close>

text \<open>
  A type with all references followed is a tree. Nodes keep the type with its references erased;
  declared types and parameters with an identity are that identity; an effect row is the set of its
  effects and its tail.
\<close>

datatype ('s, 'd, 'g) type_tree =
    MissingTree type_id
  | LeafTree "'s ty"
  | DeclaredTree bool 'd
  | ParameterTree "'g canonical_type_parameter_identity"
  | NodeTree "'s ty" "('s, 'd, 'g) type_tree list" "((utext \<times> (('s, 'd, 'g) type_tree + effect_arg_ref) list) fset \<times> utext option) list"

definition effect_image :: "(type_id \<Rightarrow> 'x) \<Rightarrow> effect_ref \<Rightarrow> utext \<times> ('x + effect_arg_ref) list" where
  "effect_image g e = (ef_name e, map (\<lambda>a. case a of ArgType t \<Rightarrow> Inl (g t) | a \<Rightarrow> Inr a) (ef_args e))"

definition row_class :: "(type_id \<Rightarrow> 'x) \<Rightarrow> effect_row_ref \<Rightarrow> (utext \<times> ('x + effect_arg_ref) list) fset \<times> utext option" where
  "row_class g row = (fset_of_list (map (effect_image g) (rr_effects row)), rr_tail row)"

definition is_leaf :: "'s ty \<Rightarrow> bool" where
  "is_leaf d \<longleftrightarrow> (case d of TyExistential _ \<Rightarrow> True | TyPrimitive _ \<Rightarrow> True | TyIntegerLiteral _ \<Rightarrow> True | TyVar _ \<Rightarrow> True | TyEnum _ \<Rightarrow> True
     | TyNamed _ _ \<Rightarrow> True | TyNominal _ \<Rightarrow> True | TyPrompt \<Rightarrow> True | TyPromptPart \<Rightarrow> True | TyMemoryPlace _ \<Rightarrow> True | TySchedulerHandle \<Rightarrow> True | _ \<Rightarrow> False)"

definition erase :: "'s ty \<Rightarrow> 's ty" where
  "erase d = map_data False (\<lambda>_. 0) (\<lambda>_. empty_row) (\<lambda>s. s) d"

definition leaf_tree :: "('s, 'd, 'g) type_store \<Rightarrow> type_id \<Rightarrow> 's ty \<Rightarrow> ('s, 'd, 'g) type_tree" where
  "leaf_tree s t d =
     (case d of
        TyNominal _ \<Rightarrow> (case nominal_identity s t of Some i \<Rightarrow> DeclaredTree True i | None \<Rightarrow> LeafTree d)
      | TyEnum _ \<Rightarrow> (case nominal_identity s t of Some i \<Rightarrow> DeclaredTree False i | None \<Rightarrow> LeafTree d)
      | TyNamed _ _ \<Rightarrow> (case parameter_identity s t of Some i \<Rightarrow> ParameterTree i | None \<Rightarrow> LeafTree d)
      | _ \<Rightarrow> LeafTree d)"

fun tree_of :: "nat \<Rightarrow> ('s, 'd, 'g) inference_inputs \<Rightarrow> type_id \<Rightarrow> ('s, 'd, 'g) type_tree" where
  "tree_of 0 I t = MissingTree t"
| "tree_of (Suc n) I t =
     (let t = resolve_type I t in
      case store_get (ii_store I) t of
        None \<Rightarrow> MissingTree t
      | Some d \<Rightarrow>
          if is_leaf d then leaf_tree (ii_store I) t d
          else NodeTree (erase d) (map (tree_of n I) (data_children False d)) (map (row_class (tree_of n I)) (data_rows d)))"

text \<open>References go down in rank, so following them comes to an end.\<close>

definition row_types :: "effect_row_ref \<Rightarrow> type_id list" where
  "row_types row = concat (map effect_type_args (rr_effects row))"

definition ty_parts :: "'s ty \<Rightarrow> type_id set" where
  "ty_parts d = set (data_children False d) \<union> \<Union> (set ` row_types ` set (data_rows d))"

definition ranked :: "('s, 'd, 'g) inference_inputs \<Rightarrow> (type_id \<Rightarrow> nat) \<Rightarrow> bool" where
  "ranked I rank \<longleftrightarrow> (\<forall>t x. resolve_next I t = Some x \<longrightarrow> rank x < rank t) \<and>
     (\<forall>t d. store_get (ii_store I) t = Some d \<longrightarrow> (\<forall>c \<in> ty_parts d. rank c < rank t))"

lemma resolve_from_ranked:
  "ranked I rank \<Longrightarrow> (\<And>v. v \<in> visited \<Longrightarrow> rank t < rank v) \<Longrightarrow>
   resolve_next I (resolve_from I t visited) = None \<and> rank (resolve_from I t visited) \<le> rank t"
proof (induction I t visited rule: resolve_from.induct)
  case (1 I t visited)
  have new: "t \<notin> visited" using 1(3) by blast
  show ?case
  proof (cases "resolve_next I t")
    case None
    with new show ?thesis by (simp add: resolve_from.simps [of I t])
  next
    case (Some x)
    then have "rank x < rank t" using 1(2) by (simp add: ranked_def)
    then have "resolve_next I (resolve_from I x (insert t visited)) = None \<and> rank (resolve_from I x (insert t visited)) \<le> rank x"
      using 1(1) [OF new Some 1(2)] 1(3) by (metis insert_iff order.strict_trans)
    with Some new \<open>rank x < rank t\<close> show ?thesis by (simp add: resolve_from.simps [of I t])
  qed
qed

lemma resolve_ranked:
  assumes "ranked I rank"
  shows "rank (resolve_type I t) \<le> rank t" "resolve_type I (resolve_type I t) = resolve_type I t"
proof -
  have r: "resolve_next I (resolve_type I t) = None \<and> rank (resolve_type I t) \<le> rank t"
    unfolding resolve_type_def using resolve_from_ranked [OF assms, of "{}" t] by simp
  then show "rank (resolve_type I t) \<le> rank t" by simp
  show "resolve_type I (resolve_type I t) = resolve_type I t"
    using r by (simp add: resolve_type_def [of I "resolve_type I t"] resolve_from.simps [of I "resolve_type I t"])
qed

lemma effect_image_cong: "(\<And>t. t \<in> set (effect_type_args e) \<Longrightarrow> g t = h t) \<Longrightarrow> effect_image g e = effect_image h e"
  by (force simp: effect_image_def effect_type_args_def split: effect_arg_ref.split)

lemma row_class_cong: "(\<And>t. t \<in> set (row_types row) \<Longrightarrow> g t = h t) \<Longrightarrow> row_class g row = row_class h row"
proof -
  assume same: "\<And>t. t \<in> set (row_types row) \<Longrightarrow> g t = h t"
  have "map (effect_image g) (rr_effects row) = map (effect_image h) (rr_effects row)"
    by (intro map_cong refl effect_image_cong same) (auto simp: row_types_def)
  then show ?thesis by (simp only: row_class_def)
qed

lemma tree_stable:
  assumes "ranked I rank"
  shows "rank t < n \<Longrightarrow> rank t < m \<Longrightarrow> tree_of n I t = tree_of m I t"
proof (induction n arbitrary: m t)
  case (Suc n)
  obtain m' where m: "m = Suc m'" using Suc.prems by (cases m) auto
  let ?t = "resolve_type I t"
  have "rank ?t \<le> rank t" using resolve_ranked [OF assms] by blast
  then have below: "rank c < n" "rank c < m'" if "store_get (ii_store I) ?t = Some d" "c \<in> ty_parts d" for c d
    using Suc.prems assms that unfolding ranked_def m by (metis less_Suc_eq_le order.strict_trans2 order.trans)+
  have same: "tree_of n I c = tree_of m' I c" if "store_get (ii_store I) ?t = Some d" "c \<in> ty_parts d" for c d
    using Suc.IH below [OF that] by blast
  have "map (tree_of n I) (data_children False d) = map (tree_of m' I) (data_children False d)"
      "map (row_class (tree_of n I)) (data_rows d) = map (row_class (tree_of m' I)) (data_rows d)"
    if "store_get (ii_store I) ?t = Some d" for d
    by (intro map_cong refl row_class_cong same [OF that]; force simp: ty_parts_def)+
  then show ?case unfolding m by (simp add: Let_def split: option.split)
qed simp

section \<open>Comparisons decide equality of trees\<close>

definition arg_rel :: "(type_id \<Rightarrow> type_id \<Rightarrow> bool) \<Rightarrow> effect_arg_ref \<Rightarrow> effect_arg_ref \<Rightarrow> bool" where
  "arg_rel R a b = (case (a, b) of (ArgType l, ArgType r) \<Rightarrow> R l r | _ \<Rightarrow> a = b)"

definition effect_rel :: "(type_id \<Rightarrow> type_id \<Rightarrow> bool) \<Rightarrow> effect_ref \<Rightarrow> effect_ref \<Rightarrow> bool" where
  "effect_rel R l r \<longleftrightarrow> ef_name l = ef_name r \<and> list_all2 (arg_rel R) (ef_args l) (ef_args r)"

definition row_rel :: "(type_id \<Rightarrow> type_id \<Rightarrow> bool) \<Rightarrow> effect_row_ref \<Rightarrow> effect_row_ref \<Rightarrow> bool" where
  "row_rel R l r \<longleftrightarrow> rr_tail l = rr_tail r \<and> (\<forall>x \<in> set (rr_effects l). \<exists>y \<in> set (rr_effects r). effect_rel R x y) \<and>
     (\<forall>y \<in> set (rr_effects r). \<exists>x \<in> set (rr_effects l). effect_rel R x y)"

fun comparison_rel :: "(type_id \<Rightarrow> type_id \<Rightarrow> bool) \<Rightarrow> comparison \<Rightarrow> bool" where
  "comparison_rel R (Require b) = b"
| "comparison_rel R (CompareTypes l r) = R l r"
| "comparison_rel R (CompareRows l r) = row_rel R l r"

lemma compare_all_rel [simp]: "list_all (comparison_rel R) (compare_all ls rs) \<longleftrightarrow> list_all2 R ls rs"
proof -
  have "length ls = length rs \<and> list_all (comparison_rel R) (map2 CompareTypes ls rs) \<longleftrightarrow> list_all2 R ls rs"
    by (induction ls arbitrary: rs) (case_tac rs; simp; blast)+
  then show ?thesis by (simp add: compare_all_def)
qed

lemma compare_opt_rel [simp]:
  "list_all (comparison_rel R) (compare_types_opt x y) \<longleftrightarrow> rel_option R x y"
  "list_all (comparison_rel R) (compare_rows_opt v w) \<longleftrightarrow> rel_option (row_rel R) v w"
  by (cases x; cases y; simp add: compare_types_opt_def) (cases v; cases w; simp add: compare_rows_opt_def)

lemma erased_lists [simp]: "map (\<lambda>_. c) ls = map (\<lambda>_. c) rs \<longleftrightarrow> length ls = length rs"
  by (metis length_map map_replicate_const)

lemma erased_options [simp]: "map_option (\<lambda>_. c) x = map_option (\<lambda>_. c) y \<longleftrightarrow> (x = None \<longleftrightarrow> y = None)"
  by (cases x; cases y) auto

lemma compare_fields_rel:
  "length ls = length rs \<and> list_all (comparison_rel R) (concat (map2 (\<lambda>l r. [Require (ft_name l = ft_name r), CompareTypes (ft_ty l) (ft_ty r)]) ls rs)) \<longleftrightarrow>
   map (\<lambda>field. FieldType (ft_name field) 0) ls = map (\<lambda>field. FieldType (ft_name field) 0) rs \<and> list_all2 R (map ft_ty ls) (map ft_ty rs)"
proof (induction ls arbitrary: rs)
  case (Cons l ls)
  show ?case
  proof (cases rs)
    case (Cons r rs')
    then show ?thesis using Cons.IH [of rs'] by simp blast
  qed simp
qed auto

lemma rel_option_sets: "rel_option R x y \<longleftrightarrow> (x = None \<longleftrightarrow> y = None) \<and> list_all2 R (case x of None \<Rightarrow> [] | Some a \<Rightarrow> [a]) (case y of None \<Rightarrow> [] | Some a \<Rightarrow> [a])"
  by (cases x; cases y) auto

lemma compare_data_rel:
  "list_all (comparison_rel R) (compare_data s l r a b) \<longleftrightarrow>
     (is_leaf a \<and> is_leaf b \<and> leaf_tree s l a = leaf_tree s r b) \<or>
     (\<not> is_leaf a \<and> \<not> is_leaf b \<and> erase a = erase b \<and> list_all2 R (data_children False a) (data_children False b) \<and>
        list_all2 (row_rel R) (data_rows a) (data_rows b))"
proof (cases "is_leaf a")
  case True
  then show ?thesis
    by (cases a; simp add: is_leaf_def; cases b)
      (simp_all add: compare_data_def is_leaf_def leaf_tree_def compare_identities_def split: option.split)
next
  case False
  note parts = compare_data_def is_leaf_def erase_def map_data_def data_children_def data_rows_def
  have lists: "list_all2 R xs ys \<Longrightarrow> length xs = length ys" for xs ys by (rule list_all2_lengthD)
  have append: "length xs = length ys \<Longrightarrow> list_all2 R (xs @ [x]) (ys @ [y]) \<longleftrightarrow> list_all2 R xs ys \<and> R x y" for xs ys x y
    by (simp add: list_all2_append)
  show ?thesis
  proof (cases a)
    case (TyFunction ls x e)
    show ?thesis
    proof (cases b)
      case b: (TyFunction rs y e')
      show ?thesis unfolding TyFunction b using lists [of ls rs]
        by (cases e; cases e') (auto simp: parts append)
    qed (simp_all add: TyFunction parts)
  next
    case (TyHandler h p x)
    show ?thesis
    proof (cases b)
      case b: (TyHandler h' p' y)
      show ?thesis unfolding TyHandler b by (cases p; cases p'; cases x; cases y) (auto simp: parts)
    qed (simp_all add: TyHandler parts)
  next
    case (TyContinuation x z e)
    show ?thesis
    proof (cases b)
      case b: (TyContinuation y w e')
      show ?thesis unfolding TyContinuation b by (cases z; cases w; cases e; cases e') (auto simp: parts)
    qed (simp_all add: TyContinuation parts)
  next
    case (TyRecord ls)
    show ?thesis
    proof (cases b)
      case b: (TyRecord rs)
      show ?thesis unfolding TyRecord b using compare_fields_rel [of ls rs R] by (simp add: parts)
    qed (simp_all add: TyRecord parts)
  next
    case (TyTuple ls)
    show ?thesis
    proof (cases b)
      case b: (TyTuple rs)
      show ?thesis unfolding TyTuple b using lists [of ls rs] by (auto simp: parts)
    qed (simp_all add: TyTuple parts)
  next
    case (TyApplied c ls)
    show ?thesis
    proof (cases b)
      case b: (TyApplied c' rs)
      show ?thesis unfolding TyApplied b using lists [of ls rs] by (auto simp: parts)
    qed (simp_all add: TyApplied parts)
  next
    case (TyResourceHandle x)
    show ?thesis
    proof (cases b)
      case b: (TyResourceHandle y)
      show ?thesis unfolding TyResourceHandle b
      proof (cases x; cases y)
        fix nm ls nm' rs assume "x = RhOther nm ls" "y = RhOther nm' rs"
        then show "list_all (comparison_rel R) (compare_data s l r (TyResourceHandle x) (TyResourceHandle y)) \<longleftrightarrow>
           (is_leaf (TyResourceHandle x) \<and> is_leaf (TyResourceHandle y) \<and> leaf_tree s l (TyResourceHandle x) = leaf_tree s r (TyResourceHandle y)) \<or>
           (\<not> is_leaf (TyResourceHandle x) \<and> \<not> is_leaf (TyResourceHandle y) \<and> erase (TyResourceHandle x) = erase (TyResourceHandle y) \<and>
             list_all2 R (data_children False (TyResourceHandle x)) (data_children False (TyResourceHandle y)) \<and>
             list_all2 (row_rel R) (data_rows (TyResourceHandle x)) (data_rows (TyResourceHandle y)))"
          using lists [of ls rs] by (auto simp: parts)
      qed (auto simp: parts)
    qed (simp_all add: TyResourceHandle parts)
  qed (use False in \<open>simp_all add: is_leaf_def\<close>, (cases b; simp add: parts)+)
qed

lemma any_opt_value: "(\<And>x. x \<in> set xs \<Longrightarrow> f x = Some (P x)) \<Longrightarrow> any_opt f xs = Some (\<exists>x \<in> set xs. P x)"
  by (induction xs) auto

lemma all_opt_value: "(\<And>x. x \<in> set xs \<Longrightarrow> f x = Some (P x)) \<Longrightarrow> all_opt f xs = Some (\<forall>x \<in> set xs. P x)"
  by (induction xs) auto

lemma filter_opt_value: "(\<And>x. x \<in> set xs \<Longrightarrow> f x = Some (P x)) \<Longrightarrow> filter_opt f xs = Some (filter P xs)"
  by (induction xs) auto

definition decides_on :: "type_comparison \<Rightarrow> (type_id \<Rightarrow> type_id \<Rightarrow> bool) \<Rightarrow> type_id list \<Rightarrow> type_id list \<Rightarrow> bool" where
  "decides_on f R xs ys \<longleftrightarrow> (\<forall>x \<in> set xs. \<forall>y \<in> set ys. map_option fst (f x y {}) = Some (R x y))"

lemma effect_refs_value:
  assumes "decides_on f R (effect_type_args l) (effect_type_args r)"
  shows "effect_refs_equivalent f l r = Some (effect_rel R l r)"
proof (cases "ef_name l = ef_name r \<and> length (ef_args l) = length (ef_args r)")
  case True
  have "args_equivalent f (a, b) = Some (arg_rel R a b)" if "(a, b) \<in> set (zip (ef_args l) (ef_args r))" for a b
  proof -
    have "a \<in> set (ef_args l)" "b \<in> set (ef_args r)" using that by (auto dest: set_zip_leftD set_zip_rightD)
    with assms show ?thesis
      by (cases a; cases b) (force simp: args_equivalent_def arg_rel_def decides_on_def effect_type_args_def)+
  qed
  then have "all_opt (args_equivalent f) (zip (ef_args l) (ef_args r)) = Some (\<forall>p \<in> set (zip (ef_args l) (ef_args r)). arg_rel R (fst p) (snd p))"
    by (intro all_opt_value) auto
  with True show ?thesis by (auto simp: effect_refs_equivalent_def effect_rel_def list_all2_iff)
next
  case False
  then show ?thesis by (auto simp: effect_refs_equivalent_def effect_rel_def dest: list_all2_lengthD)
qed

lemma rows_value:
  assumes "decides_on f R (row_types l) (row_types r)"
  shows "rows_equivalent f l r = Some (row_rel R l r)"
proof -
  have eq: "effect_refs_equivalent f x y = Some (effect_rel R x y)" if "x \<in> set (rr_effects l)" "y \<in> set (rr_effects r)" for x y
    using assms that by (intro effect_refs_value) (auto simp: decides_on_def row_types_def)
  have "effects_within (effect_refs_equivalent f) (rr_effects l) (rr_effects r) =
      Some (\<forall>x \<in> set (rr_effects l). \<exists>y \<in> set (rr_effects r). effect_rel R x y)"
    unfolding effects_within_def by (intro all_opt_value any_opt_value eq)
  moreover have "all_opt (\<lambda>y. any_opt (\<lambda>x. effect_refs_equivalent f x y) (rr_effects l)) (rr_effects r) =
      Some (\<forall>y \<in> set (rr_effects r). \<exists>x \<in> set (rr_effects l). effect_rel R x y)"
    by (intro all_opt_value any_opt_value eq)
  ultimately show ?thesis by (simp add: rows_equivalent_def row_rel_def)
qed

definition arg_image :: "(type_id \<Rightarrow> 'x) \<Rightarrow> effect_arg_ref \<Rightarrow> 'x + effect_arg_ref" where
  "arg_image g a = (case a of ArgType t \<Rightarrow> Inl (g t) | a \<Rightarrow> Inr a)"

lemma arg_rel_image: "arg_rel (\<lambda>x y. g x = g y) a b \<longleftrightarrow> arg_image g a = arg_image g b"
  by (cases a; cases b; simp add: arg_rel_def arg_image_def)

lemma effect_rel_image: "effect_rel (\<lambda>x y. g x = g y) l r \<longleftrightarrow> effect_image g l = effect_image g r"
proof -
  have "list_all2 (arg_rel (\<lambda>x y. g x = g y)) as bs \<longleftrightarrow> map (arg_image g) as = map (arg_image g) bs" for as bs
  proof (induction as arbitrary: bs)
    case (Cons a as)
    then show ?case by (cases bs) (simp_all add: arg_rel_image)
  qed auto
  moreover have "effect_image g e = (ef_name e, map (arg_image g) (ef_args e))" for e
    by (simp add: effect_image_def arg_image_def [abs_def])
  ultimately show ?thesis by (simp add: effect_rel_def)
qed

lemma images_equal:
  "fset_of_list (map h xs) = fset_of_list (map h ys) \<longleftrightarrow>
   (\<forall>x \<in> set xs. \<exists>y \<in> set ys. h x = h y) \<and> (\<forall>y \<in> set ys. \<exists>x \<in> set xs. h x = h y)"
proof -
  have "fset_of_list (map h xs) = fset_of_list (map h ys) \<longleftrightarrow> h ` set xs = h ` set ys"
    by (simp add: fset_inject [symmetric] fset_of_list.rep_eq)
  also have "\<dots> \<longleftrightarrow> h ` set xs \<subseteq> h ` set ys \<and> h ` set ys \<subseteq> h ` set xs" by (rule set_eq_subset)
  also have "h ` set xs \<subseteq> h ` set ys \<longleftrightarrow> (\<forall>x \<in> set xs. \<exists>y \<in> set ys. h x = h y)"
    by (simp add: image_subset_iff image_iff)
  also have "h ` set ys \<subseteq> h ` set xs \<longleftrightarrow> (\<forall>y \<in> set ys. \<exists>x \<in> set xs. h x = h y)"
    by (simp add: image_subset_iff image_iff eq_commute)
  finally show ?thesis .
qed

lemma row_rel_class: "row_rel (\<lambda>x y. g x = g y) l r \<longleftrightarrow> row_class g l = row_class g r"
  by (simp only: row_rel_def row_class_def effect_rel_image prod.inject images_equal conj_commute conj_assoc)

definition part_ok :: "'s ty \<Rightarrow> 's ty \<Rightarrow> comparison \<Rightarrow> bool" where
  "part_ok a b c = (case c of Require _ \<Rightarrow> True | CompareTypes x y \<Rightarrow> x \<in> set (data_children False a) \<and> y \<in> set (data_children False b)
     | CompareRows x y \<Rightarrow> x \<in> set (data_rows a) \<and> y \<in> set (data_rows b))"

lemma part_ok_simps [simp]:
  "part_ok a b (Require q)"
  "part_ok a b (CompareTypes x y) \<longleftrightarrow> x \<in> set (data_children False a) \<and> y \<in> set (data_children False b)"
  "part_ok a b (CompareRows v w) \<longleftrightarrow> v \<in> set (data_rows a) \<and> w \<in> set (data_rows b)"
  by (simp_all add: part_ok_def)

lemma zip_parts:
  "set xs \<subseteq> A \<Longrightarrow> set ys \<subseteq> B \<Longrightarrow> list_all (\<lambda>(x, y). x \<in> A \<and> y \<in> B) (zip xs ys)"
  by (induction xs arbitrary: ys) (case_tac ys; simp)+

lemma compare_all_parts:
  "set ls \<subseteq> set (data_children False a) \<Longrightarrow> set rs \<subseteq> set (data_children False b) \<Longrightarrow> list_all (part_ok a b) (compare_all ls rs)"
  using zip_parts [of ls "set (data_children False a)" rs "set (data_children False b)"]
  by (simp add: compare_all_def list_all_iff split_def)

lemma compare_opt_parts:
  "set_option x \<subseteq> set (data_children False a) \<Longrightarrow> set_option y \<subseteq> set (data_children False b) \<Longrightarrow> list_all (part_ok a b) (compare_types_opt x y)"
  "set_option v \<subseteq> set (data_rows a) \<Longrightarrow> set_option w \<subseteq> set (data_rows b) \<Longrightarrow> list_all (part_ok a b) (compare_rows_opt v w)"
  by (cases x; cases y; simp add: compare_types_opt_def) (cases v; cases w; simp add: compare_rows_opt_def)

lemma compare_field_parts:
  "ft_ty ` set ls \<subseteq> set (data_children False a) \<Longrightarrow> ft_ty ` set rs \<subseteq> set (data_children False b) \<Longrightarrow>
   list_all (part_ok a b) (concat (map2 (\<lambda>l r. [Require (ft_name l = ft_name r), CompareTypes (ft_ty l) (ft_ty r)]) ls rs))"
  by (induction ls arbitrary: rs) (case_tac rs; simp)+

lemma compare_parts: "list_all (part_ok a b) (compare_data s l r a b)"
proof -
  note parts = compare_data_def data_children_def data_rows_def compare_identities_def
  show ?thesis
  proof (cases a)
    case (TyFunction ls x e)
    then show ?thesis by (cases b) (auto simp: parts intro!: compare_all_parts compare_opt_parts)
  next
    case (TyHandler h p x)
    then show ?thesis by (cases b; cases p) (auto simp: parts intro!: compare_opt_parts split: handler_produced_effects.split)
  next
    case (TyContinuation x z e)
    then show ?thesis by (cases b) (auto simp: parts intro!: compare_opt_parts)
  next
    case (TyRecord ls)
    then show ?thesis by (cases b) (auto simp: parts intro!: compare_field_parts)
  next
    case (TyTuple ls)
    then show ?thesis by (cases b) (auto simp: parts intro!: compare_all_parts)
  next
    case (TyApplied c ls)
    then show ?thesis by (cases b) (auto simp: parts intro!: compare_all_parts)
  next
    case (TyResourceHandle x)
    then show ?thesis by (cases b; cases x) (auto simp: parts intro!: compare_all_parts split: resource_handle_type.split)
  qed (cases b; simp add: parts)+
qed

definition type_meaning :: "('s, 'd, 'g) inference_inputs \<Rightarrow> (type_id \<Rightarrow> nat) \<Rightarrow> type_id \<Rightarrow> ('s, 'd, 'g) type_tree" where
  "type_meaning I rank t = tree_of (Suc (rank t)) I t"

lemma tree_meaning: "ranked I rank \<Longrightarrow> rank t < n \<Longrightarrow> tree_of n I t = type_meaning I rank t"
  unfolding type_meaning_def by (rule tree_stable) auto

lemma meaning_resolve:
  assumes "ranked I rank"
  shows "type_meaning I rank (resolve_type I t) = type_meaning I rank t"
proof -
  have "type_meaning I rank (resolve_type I t) = tree_of (Suc (rank t)) I (resolve_type I t)"
    using tree_meaning [OF assms, of "resolve_type I t" "Suc (rank t)"] resolve_ranked(1) [OF assms, of t] by simp
  also have "\<dots> = tree_of (Suc (rank t)) I t" by (simp add: resolve_ranked(2) [OF assms])
  finally show ?thesis by (simp add: type_meaning_def)
qed

lemma row_class_meaning:
  "ranked I rank \<Longrightarrow> (\<And>t. t \<in> set (row_types row) \<Longrightarrow> rank t < n) \<Longrightarrow> row_class (tree_of n I) row = row_class (type_meaning I rank) row"
  by (intro row_class_cong tree_meaning)

lemma part_rank:
  assumes "ranked I rank" "store_get (ii_store I) t = Some d"
  shows "c \<in> set (data_children False d) \<Longrightarrow> rank c < rank t" "row \<in> set (data_rows d) \<Longrightarrow> c \<in> set (row_types row) \<Longrightarrow> rank c < rank t"
  using assms unfolding ranked_def ty_parts_def by blast+

lemma meaning_eq:
  assumes ranked: "ranked I rank" and l: "resolve_type I l = l"
  shows "type_meaning I rank l =
    (case store_get (ii_store I) l of
       None \<Rightarrow> MissingTree l
     | Some d \<Rightarrow>
         if is_leaf d then leaf_tree (ii_store I) l d
         else NodeTree (erase d) (map (type_meaning I rank) (data_children False d)) (map (row_class (type_meaning I rank)) (data_rows d)))"
proof (cases "store_get (ii_store I) l")
  case None
  then show ?thesis by (simp add: type_meaning_def l)
next
  case (Some d)
  have "map (tree_of (rank l) I) (data_children False d) = map (type_meaning I rank) (data_children False d)"
    by (intro map_cong refl tree_meaning [OF ranked] part_rank [OF ranked Some])
  moreover have "map (row_class (tree_of (rank l) I)) (data_rows d) = map (row_class (type_meaning I rank)) (data_rows d)"
    by (intro map_cong refl row_class_meaning [OF ranked] part_rank [OF ranked Some])
  ultimately show ?thesis using Some by (simp add: type_meaning_def [of I rank l] l)
qed

lemma leaf_not_other: "leaf_tree s t d \<noteq> MissingTree x" "leaf_tree s t d \<noteq> NodeTree a b c"
  by (cases d; simp add: leaf_tree_def split: option.split)+

lemma leaf_tree_simps [simp]:
  "leaf_tree s t d \<noteq> MissingTree x" "MissingTree x \<noteq> leaf_tree s t d" "leaf_tree s t d \<noteq> NodeTree a b c" "NodeTree a b c \<noteq> leaf_tree s t d"
  using leaf_not_other by metis+

lemma list_all2_image: "list_all2 (\<lambda>x y. g x = g y) xs ys \<longleftrightarrow> map g xs = map g ys"
  by (simp add: list.rel_eq [symmetric] list.rel_map)

lemma comparisons_meaning:
  assumes ranked: "ranked I rank" and l: "resolve_type I l = l" and r: "resolve_type I r = r" and "l \<noteq> r"
  shows "list_all (comparison_rel (\<lambda>x y. type_meaning I rank x = type_meaning I rank y)) (comparisons I l r) \<longleftrightarrow>
    type_meaning I rank l = type_meaning I rank r"
proof -
  have rows: "row_rel (\<lambda>x y. type_meaning I rank x = type_meaning I rank y) =
      (\<lambda>v w. row_class (type_meaning I rank) v = row_class (type_meaning I rank) w)"
    by (intro ext row_rel_class)
  show ?thesis
  proof (cases "store_get (ii_store I) l")
    case None
    with \<open>l \<noteq> r\<close> show ?thesis
      by (simp add: comparisons_def meaning_eq [OF ranked l] meaning_eq [OF ranked r] split: option.split)
  next
    case (Some a)
    then show ?thesis
      by (cases "store_get (ii_store I) r")
        (simp_all add: comparisons_def meaning_eq [OF ranked l] meaning_eq [OF ranked r] compare_data_rel rows list_all2_image)
  qed
qed

definition agreed :: "(type_id \<Rightarrow> 'x) \<Rightarrow> (type_id \<times> type_id) set \<Rightarrow> bool" where
  "agreed g V \<longleftrightarrow> (\<forall>p \<in> V. g (fst p) = g (snd p))"

definition settles :: "(type_id \<Rightarrow> 'x) \<Rightarrow> (type_id \<times> type_id) set \<Rightarrow> bool \<Rightarrow> (bool \<times> (type_id \<times> type_id) set) option \<Rightarrow> bool" where
  "settles g V b res \<longleftrightarrow> (\<exists>V'. res = Some (b, V') \<and> V \<subseteq> V' \<and> (b \<longrightarrow> agreed g (V' - V)))"

definition below :: "(type_id \<Rightarrow> nat) \<Rightarrow> nat \<Rightarrow> (type_id \<times> type_id) set \<Rightarrow> (type_id \<times> type_id) set" where
  "below rank k V = {p \<in> V. rank (fst p) < k}"

lemma settles_settled: "settles g V True (Some (True, V))" by (simp add: settles_def agreed_def)

lemma settles_value: "settles g V b res \<Longrightarrow> map_option fst res = Some b"
  by (auto simp: settles_def)

lemma settles_insert:
  assumes "settles g (insert (a, b) V) (g a = g b) res"
  shows "settles g V (g a = g b) res"
proof -
  from assms obtain V' where V': "res = Some (g a = g b, V')" "insert (a, b) V \<subseteq> V'" "g a = g b \<longrightarrow> agreed g (V' - insert (a, b) V)"
    unfolding settles_def by blast
  have "agreed g (V' - V)" if "g a = g b"
    using V'(3) that unfolding agreed_def by (metis Diff_iff fst_conv insertE snd_conv)
  with V'(1,2) show ?thesis by (simp add: settles_def)
qed

lemma run_comparisons_settles:
  assumes "\<And>x y V. CompareTypes x y \<in> set cs \<Longrightarrow> agreed g (below rank k V) \<Longrightarrow> settles g V (g x = g y) (f x y V)"
      and "\<And>v w. CompareRows v w \<in> set cs \<Longrightarrow> rows_equivalent f v w = Some (row_rel (\<lambda>x y. g x = g y) v w)"
      and "agreed g (below rank k V)"
  shows "settles g V (list_all (comparison_rel (\<lambda>x y. g x = g y)) cs) (run_comparisons f cs V)"
  using assms
proof (induction cs arbitrary: V)
  case (Cons c cs)
  have rest: "settles g W (list_all (comparison_rel (\<lambda>x y. g x = g y)) cs) (run_comparisons f cs W)" if "agreed g (below rank k W)" for W
    using Cons.IH Cons.prems(1,2) that by simp
  show ?case
  proof (cases c)
    case (CompareTypes x y)
    then obtain W where W: "f x y V = Some (g x = g y, W)" "V \<subseteq> W" "g x = g y \<longrightarrow> agreed g (W - V)"
      using Cons.prems(1) [of x y V] Cons.prems(3) by (auto simp: settles_def)
    show ?thesis
    proof (cases "g x = g y")
      case True
      have "agreed g (below rank k W)" using W(3) True Cons.prems(3) unfolding agreed_def below_def by blast
      then obtain U where "run_comparisons f cs W = Some (list_all (comparison_rel (\<lambda>x y. g x = g y)) cs, U)" "W \<subseteq> U"
          "list_all (comparison_rel (\<lambda>x y. g x = g y)) cs \<longrightarrow> agreed g (U - W)"
        using rest by (auto simp: settles_def)
      with W True CompareTypes show ?thesis unfolding settles_def agreed_def by simp blast
    next
      case False
      with W CompareTypes show ?thesis by (simp add: settles_def)
    qed
  next
    case (CompareRows v w)
    then show ?thesis using Cons.prems(2) [of v w] rest [OF Cons.prems(3)] by (simp add: settles_def)
  next
    case (Require b)
    then show ?thesis using rest [OF Cons.prems(3)] by (simp add: settles_def)
  qed
qed (simp add: settles_settled)

lemma types_equivalent_settles:
  assumes ranked: "ranked I rank"
  shows "rank l < n \<Longrightarrow> agreed (type_meaning I rank) (below rank (Suc (rank l)) V) \<Longrightarrow>
    settles (type_meaning I rank) V (type_meaning I rank l = type_meaning I rank r) (types_equivalent n I l r V)"
proof (induction n arbitrary: l r V)
  case (Suc n)
  let ?g = "type_meaning I rank" and ?l = "resolve_type I l" and ?r = "resolve_type I r"
  have same: "?g l = ?g r \<longleftrightarrow> ?g ?l = ?g ?r" by (simp add: meaning_resolve [OF ranked])
  have le: "rank ?l \<le> rank l" using resolve_ranked [OF ranked] by blast
  show ?case
  proof (cases "?l = ?r \<or> (?l, ?r) \<in> V")
    case True
    then have "?g ?l = ?g ?r" using Suc.prems(2) le unfolding agreed_def below_def by auto
    with True same show ?thesis by (simp add: Let_def settles_settled)
  next
    case False
    let ?V = "insert (?l, ?r) V" and ?cs = "comparisons I ?l ?r"
    have old: "agreed ?g (below rank (rank ?l) ?V)" using Suc.prems(2) le unfolding agreed_def below_def by auto
    have inner: "settles ?g W (?g x = ?g y) (types_equivalent n I x y W)" if "rank x < rank ?l" "agreed ?g (below rank (rank ?l) W)" for x y W
      using Suc.IH [of x W y] Suc.prems(1) le that unfolding agreed_def below_def by auto
    have kept: "(\<exists>a b. store_get (ii_store I) ?l = Some a \<and> part_ok a b c) \<or> (\<exists>q. c = Require q)" if "c \<in> set ?cs" for c
    proof (cases "store_get (ii_store I) ?l"; cases "store_get (ii_store I) ?r")
      fix a b assume ab: "store_get (ii_store I) ?l = Some a" "store_get (ii_store I) ?r = Some b"
      with that have "c \<in> set (compare_data (ii_store I) ?l ?r a b)" by (simp add: comparisons_def)
      then have "part_ok a b c" using compare_parts [of a b "ii_store I" ?l ?r] by (simp add: list_all_iff)
      with ab show ?thesis by blast
    qed (use that in \<open>auto simp: comparisons_def\<close>)
    have types: "settles ?g W (?g x = ?g y) (types_equivalent n I x y W)" if "CompareTypes x y \<in> set ?cs" "agreed ?g (below rank (rank ?l) W)" for x y W
      using kept [OF that(1)] inner [OF _ that(2)] part_rank(1) [OF ranked] by auto
    have rows: "rows_equivalent (types_equivalent n I) v w = Some (row_rel (\<lambda>x y. ?g x = ?g y) v w)" if c: "CompareRows v w \<in> set ?cs" for v w
    proof (rule rows_value)
      have "rank x < rank ?l" if "x \<in> set (row_types v)" for x using kept [OF c] part_rank(2) [OF ranked] that by auto
      moreover have "agreed ?g (below rank (rank ?l) {})" by (simp add: agreed_def below_def)
      ultimately have st: "settles ?g {} (?g x = ?g y) (types_equivalent n I x y {})" if "x \<in> set (row_types v)" for x y
        using inner that by blast
      have "map_option fst (types_equivalent n I x y {}) = Some (?g x = ?g y)" if "x \<in> set (row_types v)" for x y
        by (rule settles_value [OF st [OF that]])
      then show "decides_on (types_equivalent n I) (\<lambda>x y. ?g x = ?g y) (row_types v) (row_types w)"
        by (simp add: decides_on_def)
    qed
    have "settles ?g ?V (list_all (comparison_rel (\<lambda>x y. ?g x = ?g y)) ?cs) (run_comparisons (types_equivalent n I) ?cs ?V)"
      by (rule run_comparisons_settles [OF types rows old])
    then have run: "settles ?g ?V (?g ?l = ?g ?r) (run_comparisons (types_equivalent n I) ?cs ?V)"
      using comparisons_meaning [OF ranked resolve_ranked(2) [OF ranked] resolve_ranked(2) [OF ranked]] False by simp
    then have "settles ?g V (?g ?l = ?g ?r) (run_comparisons (types_equivalent n I) ?cs ?V)"
      by (rule settles_insert)
    then show ?thesis using False same by (simp add: Let_def)
  qed
qed simp

lemma types_equivalent_decides:
  "ranked I rank \<Longrightarrow> rank l < n \<Longrightarrow> map_option fst (types_equivalent n I l r {}) = Some (type_meaning I rank l = type_meaning I rank r)"
  by (rule settles_value [OF types_equivalent_settles]) (auto simp: agreed_def below_def)

section \<open>Properties\<close>

definition row_example :: "(nat, nat, nat) inference_inputs" where
  "row_example =
     \<lparr>ii_store = plain_store
        [TyPrimitive BoolT,
         TyFunction [0] 0 (Some (EffectRowRef [EffectRef (lit ''Log'') []] (Some (lit ''e'')))),
         TyFunction [0] 0 (Some (EffectRowRef [EffectRef (lit ''Log'') [], EffectRef (lit ''Net'') [ArgType 0]] None))],
      ii_type_bindings = fmempty, ii_substitutions = fmempty, ii_params = [lit ''e''], ii_lexical_params = []\<rparr>"

definition row_example_rank :: "type_id \<Rightarrow> nat" where
  "row_example_rank t = (if t = 1 \<or> t = 2 then 1 else 0)"

lemma row_example_get:
  "store_get (ii_store row_example) t =
    (if t = 0 then Some (TyPrimitive BoolT)
     else if t = 1 then Some (TyFunction [0] 0 (Some (EffectRowRef [EffectRef (lit ''Log'') []] (Some (lit ''e'')))))
     else if t = 2 then Some (TyFunction [0] 0 (Some (EffectRowRef [EffectRef (lit ''Log'') [], EffectRef (lit ''Net'') [ArgType 0]] None)))
     else None)"
  by (auto simp: row_example_def nth_opt_def nth_Cons split: nat.split)

lemma row_example_next [simp]: "resolve_next row_example t = None"
  by (simp add: resolve_next_def row_example_get)

lemma row_example_resolve [simp]: "resolve_type row_example t = t"
  by (simp add: resolve_type_def resolve_from.simps)

lemma row_example_ranks: "ranked row_example row_example_rank" "row_example_rank t < 2"
  by (auto simp: ranked_def row_example_get row_example_rank_def ty_parts_def row_types_def data_children_def data_rows_def effect_type_args_def split: if_splits)

lemma row_example_params [simp]: "ii_params row_example = [lit ''e'']" "ii_lexical_params row_example = []"
  by (simp_all add: row_example_def)



text \<open>C40. The comparison of types decides whether two types are the same tree once variables and names are
  followed, where effect rows are sets of effects with a tail, and the comparison of rows decides whether
  two rows are the same set. Both always answer when references are not circular.\<close>

theorem comparison_decided:
  assumes ranked: "ranked I rank" and fuel: "\<And>t. rank t < n"
  shows "map_option fst (types_equivalent n I l r {}) = Some (type_meaning I rank l = type_meaning I rank r) \<and>
    rows_equivalent (types_equivalent n I) v w = Some (row_class (type_meaning I rank) v = row_class (type_meaning I rank) w)"
proof
  have decides: "map_option fst (types_equivalent n I x y {}) = Some (type_meaning I rank x = type_meaning I rank y)" for x y
    by (rule types_equivalent_decides [OF ranked fuel])
  then show "map_option fst (types_equivalent n I l r {}) = Some (type_meaning I rank l = type_meaning I rank r)" .
  have "rows_equivalent (types_equivalent n I) v w = Some (row_rel (\<lambda>x y. type_meaning I rank x = type_meaning I rank y) v w)"
    using decides by (intro rows_value) (simp add: decides_on_def)
  then show "rows_equivalent (types_equivalent n I) v w = Some (row_class (type_meaning I rank) v = row_class (type_meaning I rank) w)"
    by (simp only: row_rel_class)
qed

theorem comparison_decided_witness:
  "type_meaning row_example row_example_rank 1 \<noteq> type_meaning row_example row_example_rank 2 \<and>
   rows_equivalent (types_equivalent 2 row_example)
     (EffectRowRef [EffectRef (lit ''Log'') [], EffectRef (lit ''Net'') [ArgType 0]] None)
     (EffectRowRef [EffectRef (lit ''Net'') [ArgType 0], EffectRef (lit ''Log'') []] None) = Some True"
proof -
  note decided = comparison_decided [OF row_example_ranks, of 1 2
     "EffectRowRef [EffectRef (lit ''Log'') [], EffectRef (lit ''Net'') [ArgType 0]] None"
     "EffectRowRef [EffectRef (lit ''Net'') [ArgType 0], EffectRef (lit ''Log'') []] None"]
  have "map_option fst (types_equivalent 2 row_example 1 2 {}) = Some False"
    by (simp add: numeral_2_eq_2 comparisons_def row_example_get compare_data_def compare_all_def compare_rows_opt_def rows_equivalent_def)
  then have "type_meaning row_example row_example_rank 1 \<noteq> type_meaning row_example row_example_rank 2"
    using conjunct1 [OF decided] by (metis option.inject)
  moreover have "row_class g (EffectRowRef [x, y] None) = row_class g (EffectRowRef [y, x] None)" for g :: "type_id \<Rightarrow> (nat, nat, nat) type_tree" and x y
    by (simp add: row_class_def finsert_commute)
  ultimately show ?thesis using conjunct2 [OF decided] by simp
qed

end
