(* ===== verification/Etas_Row_Solve.thy ===== *)
theory Etas_Row_Solve
  imports Etas_Row_Meaning
begin

text \<open>The equations of a row parameter and their solution: the effects left over in the actual rows are gathered
  into a row, which is then checked against every equation. The row is the least solution, and the check
  fails only where there is none.\<close>

section \<open>Solving the equations of a parameter\<close>

definition same_image :: "(effect_ref \<Rightarrow> 'y) \<Rightarrow> effect_ref \<Rightarrow> effect_ref \<Rightarrow> bool option" where
  "same_image \<epsilon> x y = Some (\<epsilon> x = \<epsilon> y)"

lemma any_same: "any_opt (\<lambda>y. same_image \<epsilon> y x) ys = Some (\<epsilon> x \<in> \<epsilon> ` set ys)" "any_opt (same_image \<epsilon> x) ys = Some (\<epsilon> x \<in> \<epsilon> ` set ys)"
  by (induction ys) (auto simp: same_image_def)

lemma effects_within_same: "effects_within (same_image \<epsilon>) xs ys = Some (\<epsilon> ` set xs \<subseteq> \<epsilon> ` set ys)"
  by (induction xs) (auto simp: effects_within_def any_same)

lemma add_effects_same:
  "\<exists>ys. add_effects (same_image \<epsilon>) xs acc = Some ys \<and> \<epsilon> ` set ys = \<epsilon> ` set acc \<union> \<epsilon> ` set xs"
proof (induction xs arbitrary: acc)
  case (Cons x xs)
  show ?case using Cons [of "if \<epsilon> x \<in> \<epsilon> ` set acc then acc else acc @ [x]"] by (auto simp: any_same)
qed simp

lemma residual_same:
  "\<exists>xs. residual_effects (same_image \<epsilon>) q = Some xs \<and> \<epsilon> ` set xs = \<epsilon> ` set (rr_effects (re_actual q)) - \<epsilon> ` set (re_fixed q)"
proof -
  have "filter_opt (\<lambda>a. map_option Not (any_opt (\<lambda>fx. same_image \<epsilon> fx a) (re_fixed q))) (rr_effects (re_actual q)) =
      Some (filter (\<lambda>a. \<epsilon> a \<notin> \<epsilon> ` set (re_fixed q)) (rr_effects (re_actual q)))"
    by (rule filter_opt_value) (simp add: any_same)
  then show ?thesis by (auto simp: residual_effects_def)
qed

definition solves :: "(effect_ref \<Rightarrow> 'y) \<Rightarrow> effect_row_ref \<Rightarrow> row_equation \<Rightarrow> bool" where
  "solves \<epsilon> row q \<longleftrightarrow> rr_tail row = rr_tail (re_actual q) \<and>
     \<epsilon> ` set (re_fixed q) \<union> \<epsilon> ` set (rr_effects row) = \<epsilon> ` set (rr_effects (re_actual q))"

lemma equation_holds_same: "equation_holds (same_image \<epsilon>) row q = Some (solves \<epsilon> row q)"
proof -
  obtain ys where ys: "add_effects (same_image \<epsilon>) (rr_effects row) (re_fixed q) = Some ys"
      "\<epsilon> ` set ys = \<epsilon> ` set (re_fixed q) \<union> \<epsilon> ` set (rr_effects row)"
    using add_effects_same [of \<epsilon> "rr_effects row" "re_fixed q"] by metis
  have "solves \<epsilon> row q \<longleftrightarrow> rr_tail row = rr_tail (re_actual q) \<and> \<epsilon> ` set ys \<subseteq> \<epsilon> ` set (rr_effects (re_actual q)) \<and>
      \<epsilon> ` set (rr_effects (re_actual q)) \<subseteq> \<epsilon> ` set ys"
    unfolding solves_def ys(2) by (simp only: set_eq_subset)
  then show ?thesis by (simp add: equation_holds_def effects_within_same ys(1))
qed

section \<open>Results\<close>

definition all_match :: "inference_state \<Rightarrow> bool" where
  "all_match st \<longleftrightarrow> (\<forall>r \<in> set (st_results st). ri_matches r)"

definition valid_origin :: "inference_state \<Rightarrow> row_equation \<Rightarrow> bool" where
  "valid_origin st q \<longleftrightarrow> re_origin q < length (st_results st)"

definition only_results :: "inference_state \<Rightarrow> inference_state \<Rightarrow> bool" where
  "only_results st st' \<longleftrightarrow> st_bindings st' = st_bindings st \<and> length (st_results st') = length (st_results st)"

lemma only_results_refl [simp]: "only_results st st" by (simp add: only_results_def)

lemma only_results_trans: "only_results a b \<Longrightarrow> only_results b c \<Longrightarrow> only_results a c" by (simp add: only_results_def)

lemma only_results_origin: "only_results st st' \<Longrightarrow> valid_origin st' q = valid_origin st q"
  by (simp add: only_results_def valid_origin_def)

lemma update_result_only [simp]: "only_results st (update_result i g st)"
  by (simp add: only_results_def update_result_def)

lemma update_result_origin [simp]: "valid_origin (update_result i g st) q = valid_origin st q"
  by (simp add: valid_origin_def update_result_def)

lemma all_match_update:
  assumes "i < length (st_results st)" "ri_matches (g (st_results st ! i)) \<longleftrightarrow> ri_matches (st_results st ! i) \<and> b"
  shows "all_match (update_result i g st) \<longleftrightarrow> all_match st \<and> b"
  using assms by (auto simp: all_match_def update_result_def all_set_conv_all_nth nth_list_update)

lemma all_match_still [simp]: "i < length (st_results st) \<Longrightarrow> all_match (update_result i (still_matches b) st) \<longleftrightarrow> all_match st \<and> b"
  by (rule all_match_update) (auto simp: still_matches_def)

lemma all_match_defer [simp]: "i < length (st_results st) \<Longrightarrow> all_match (update_result i (defer_param p row) st) \<longleftrightarrow> all_match st"
  using all_match_update [of i st "defer_param p row" True] by (simp add: defer_param_def)

section \<open>Gathering\<close>

definition present :: "(effect_ref \<Rightarrow> 'y) \<Rightarrow> row_equation \<Rightarrow> bool" where
  "present \<epsilon> q \<longleftrightarrow> \<epsilon> ` set (re_fixed q) \<subseteq> \<epsilon> ` set (rr_effects (re_actual q))"

definition residue :: "(effect_ref \<Rightarrow> 'y) \<Rightarrow> row_equation \<Rightarrow> 'y set" where
  "residue \<epsilon> q = \<epsilon> ` set (rr_effects (re_actual q)) - \<epsilon> ` set (re_fixed q)"

definition counts :: "('s, 'd, 'g) inference_inputs \<Rightarrow> (effect_ref \<Rightarrow> 'y) \<Rightarrow> bool \<Rightarrow> row_equation \<Rightarrow> bool" where
  "counts I \<epsilon> ex q \<longleftrightarrow> present \<epsilon> q \<and> \<not> self_tail I q \<and> \<not> ex"

fun residues :: "('s, 'd, 'g) inference_inputs \<Rightarrow> (effect_ref \<Rightarrow> 'y) \<Rightarrow> bool \<Rightarrow> row_equation list \<Rightarrow> 'y set" where
  "residues I \<epsilon> ex [] = {}"
| "residues I \<epsilon> ex (q # qs) = (if counts I \<epsilon> ex q then residue \<epsilon> q else {}) \<union> residues I \<epsilon> ex qs"

lemma residues_iff: "x \<in> residues I \<epsilon> ex qs \<longleftrightarrow> (\<exists>q \<in> set qs. counts I \<epsilon> ex q \<and> x \<in> residue \<epsilon> q)"
  by (induction qs) auto

definition row_images :: "(effect_ref \<Rightarrow> 'y) \<Rightarrow> effect_row_ref option \<Rightarrow> 'y set" where
  "row_images \<epsilon> inferred = (case inferred of None \<Rightarrow> {} | Some row \<Rightarrow> \<epsilon> ` set (rr_effects row))"

definition row_tail :: "effect_row_ref option \<Rightarrow> utext option option" where
  "row_tail inferred = map_option rr_tail inferred"

definition gathers :: "('s, 'd, 'g) inference_inputs \<Rightarrow> (effect_ref \<Rightarrow> 'y) \<Rightarrow> bool \<Rightarrow> utext option option \<Rightarrow> row_equation \<Rightarrow> bool" where
  "gathers I \<epsilon> ex tail q \<longleftrightarrow> present \<epsilon> q \<and> (self_tail I q \<longrightarrow> residue \<epsilon> q = {}) \<and>
     (counts I \<epsilon> ex q \<longrightarrow> tail = Some (rr_tail (re_actual q)))"

definition gathered ::
    "('s, 'd, 'g) inference_inputs \<Rightarrow> (effect_ref \<Rightarrow> 'y) \<Rightarrow> bool \<Rightarrow> row_equation list \<Rightarrow> effect_row_ref option \<times> inference_state \<Rightarrow>
     effect_row_ref option \<times> inference_state \<Rightarrow> bool" where
  "gathered I \<epsilon> ex qs p p' \<longleftrightarrow> only_results (snd p) (snd p') \<and>
    row_images \<epsilon> (fst p') = row_images \<epsilon> (fst p) \<union> residues I \<epsilon> ex qs \<and>
    (fst p \<noteq> None \<longrightarrow> row_tail (fst p') = row_tail (fst p)) \<and>
    (fst p = None \<longrightarrow> fst p' \<noteq> None \<longrightarrow> (\<exists>q \<in> set qs. counts I \<epsilon> ex q \<and> row_tail (fst p') = Some (rr_tail (re_actual q)))) \<and>
    (fst p' = None \<longleftrightarrow> fst p = None \<and> (\<forall>q \<in> set qs. \<not> counts I \<epsilon> ex q)) \<and>
    (all_match (snd p') \<longleftrightarrow> all_match (snd p) \<and> (\<forall>q \<in> set qs. gathers I \<epsilon> ex (row_tail (fst p')) q))"

lemma gather_same:
  assumes "valid_origin st q"
  shows "\<exists>p. gather I (same_image \<epsilon>) ex q (inferred, st) = Some p \<and> gathered I \<epsilon> ex [q] (inferred, st) p"
proof -
  obtain xs where xs: "residual_effects (same_image \<epsilon>) q = Some xs" "\<epsilon> ` set xs = residue \<epsilon> q"
    using residual_same [of \<epsilon> q] unfolding residue_def by metis
  have empty: "xs = [] \<longleftrightarrow> residue \<epsilon> q = {}" using xs(2) by auto
  have within: "effects_within (same_image \<epsilon>) (re_fixed q) (rr_effects (re_actual q)) = Some (present \<epsilon> q)"
    by (simp add: effects_within_same present_def)
  have origin: "re_origin q < length (st_results st)" using assms by (simp add: valid_origin_def)
  consider "\<not> present \<epsilon> q" | "present \<epsilon> q" "self_tail I q" | "present \<epsilon> q" "\<not> self_tail I q" ex | "present \<epsilon> q" "\<not> self_tail I q" "\<not> ex" by blast
  then show ?thesis
  proof cases
    case 4
    define row where "row = (case inferred of None \<Rightarrow> EffectRowRef [] (rr_tail (re_actual q)) | Some row \<Rightarrow> row)"
    define st' where "st' = (if rr_tail row \<noteq> rr_tail (re_actual q) then update_result (re_origin q) (still_matches False) st else st)"
    obtain ys where ys: "add_effects (same_image \<epsilon>) xs (rr_effects row) = Some ys" "\<epsilon> ` set ys = \<epsilon> ` set (rr_effects row) \<union> residue \<epsilon> q"
      using add_effects_same [of \<epsilon> xs "rr_effects row"] xs(2) by metis
    have "gather I (same_image \<epsilon>) ex q (inferred, st) = Some (Some (EffectRowRef ys (rr_tail row)), st')"
      using 4 within xs(1) ys(1) unfolding gather_def by (simp add: row_def st'_def)
    moreover have "all_match st' \<longleftrightarrow> all_match st \<and> rr_tail row = rr_tail (re_actual q)" "only_results st st'"
      using origin by (auto simp: st'_def)
    moreover have "row_images \<epsilon> inferred = \<epsilon> ` set (rr_effects row)" by (cases inferred) (simp_all add: row_def row_images_def)
    moreover have "row_tail inferred = Some (rr_tail row)" if "inferred \<noteq> None" using that by (auto simp: row_def row_tail_def)
    moreover have "rr_tail row = rr_tail (re_actual q)" if "inferred = None" using that by (simp add: row_def)
    moreover have "counts I \<epsilon> ex q" using 4 by (simp add: counts_def)
    moreover have "gathers I \<epsilon> ex (Some (rr_tail row)) q \<longleftrightarrow> rr_tail row = rr_tail (re_actual q)"
      using 4 by (simp add: gathers_def counts_def)
    moreover have "row_images \<epsilon> (Some (EffectRowRef ys t)) = \<epsilon> ` set ys" "row_tail (Some (EffectRowRef ys t)) = Some t" for t
      by (simp_all add: row_images_def row_tail_def)
    ultimately show ?thesis using ys(2) by (simp add: gathered_def)
  qed (use xs empty within origin in \<open>simp_all add: gather_def gathered_def gathers_def counts_def\<close>)
qed

lemma gathered_cons:
  assumes 1: "gathered I \<epsilon> ex [q] p p1" and 2: "gathered I \<epsilon> ex qs p1 p2"
  shows "gathered I \<epsilon> ex (q # qs) p p2"
proof -
  have one: "only_results (snd p) (snd p1)" "row_images \<epsilon> (fst p1) = row_images \<epsilon> (fst p) \<union> residues I \<epsilon> ex [q]"
      "fst p \<noteq> None \<Longrightarrow> row_tail (fst p1) = row_tail (fst p)" "fst p1 = None \<longleftrightarrow> fst p = None \<and> \<not> counts I \<epsilon> ex q"
      "all_match (snd p1) \<longleftrightarrow> all_match (snd p) \<and> gathers I \<epsilon> ex (row_tail (fst p1)) q"
    using 1 by (simp_all add: gathered_def)
  have two: "only_results (snd p1) (snd p2)" "row_images \<epsilon> (fst p2) = row_images \<epsilon> (fst p1) \<union> residues I \<epsilon> ex qs"
      "fst p1 \<noteq> None \<Longrightarrow> row_tail (fst p2) = row_tail (fst p1)" "fst p2 = None \<longleftrightarrow> fst p1 = None \<and> (\<forall>q \<in> set qs. \<not> counts I \<epsilon> ex q)"
      "all_match (snd p2) \<longleftrightarrow> all_match (snd p1) \<and> (\<forall>q \<in> set qs. gathers I \<epsilon> ex (row_tail (fst p2)) q)"
    using 2 by (simp_all add: gathered_def)
  have "gathers I \<epsilon> ex (row_tail (fst p1)) q \<longleftrightarrow> gathers I \<epsilon> ex (row_tail (fst p2)) q"
    using one(4) two(3) by (cases "counts I \<epsilon> ex q") (simp_all add: gathers_def)
  then have "all_match (snd p2) \<longleftrightarrow> all_match (snd p) \<and> (\<forall>q \<in> set (q # qs). gathers I \<epsilon> ex (row_tail (fst p2)) q)"
    using one(5) two(5) by auto
  moreover have "row_images \<epsilon> (fst p2) = row_images \<epsilon> (fst p) \<union> residues I \<epsilon> ex (q # qs)"
    unfolding two(2) one(2) by (simp add: Un_assoc)
  moreover have "fst p \<noteq> None \<longrightarrow> row_tail (fst p2) = row_tail (fst p)" using one(3,4) two(3) by metis
  moreover have "\<exists>q \<in> set (q # qs). counts I \<epsilon> ex q \<and> row_tail (fst p2) = Some (rr_tail (re_actual q))" if "fst p = None" "fst p2 \<noteq> None"
  proof (cases "fst p1 = None")
    case True
    with 2 that(2) show ?thesis by (auto simp: gathered_def)
  next
    case False
    with 1 2 that(1) show ?thesis by (auto simp: gathered_def)
  qed
  moreover have "fst p2 = None \<longleftrightarrow> fst p = None \<and> (\<forall>q \<in> set (q # qs). \<not> counts I \<epsilon> ex q)" using one(4) two(4) by auto
  moreover have "only_results (snd p) (snd p2)" using one(1) two(1) by (rule only_results_trans)
  ultimately show ?thesis unfolding gathered_def by blast
qed

lemma gather_all_same:
  "(\<And>q. q \<in> set qs \<Longrightarrow> valid_origin (snd p) q) \<Longrightarrow>
   \<exists>p'. gather_all I (same_image \<epsilon>) ex qs p = Some p' \<and> gathered I \<epsilon> ex qs p p'"
proof (induction qs arbitrary: p)
  case Nil
  then show ?case by (simp add: gathered_def)
next
  case (Cons q qs)
  obtain p1 where 1: "gather I (same_image \<epsilon>) ex q p = Some p1" "gathered I \<epsilon> ex [q] p p1"
    using gather_same [of "snd p" q I \<epsilon> ex "fst p"] Cons.prems by auto
  have "only_results (snd p) (snd p1)" using 1(2) by (simp add: gathered_def)
  then obtain p2 where "gather_all I (same_image \<epsilon>) ex qs p1 = Some p2" "gathered I \<epsilon> ex qs p1 p2"
    using Cons.IH [of p1] Cons.prems only_results_origin by (metis list.set_intros(2))
  with 1 show ?case by (auto intro: gathered_cons)
qed

lemma verify_all_same:
  "(\<And>q. q \<in> set qs \<Longrightarrow> valid_origin st q) \<Longrightarrow>
   \<exists>st'. verify_all I (same_image \<epsilon>) row qs st = Some st' \<and> only_results st st' \<and>
    (all_match st' \<longleftrightarrow> all_match st \<and> (\<forall>q \<in> set qs. \<not> self_tail I q \<longrightarrow> solves \<epsilon> row q))"
proof (induction qs arbitrary: st)
  case (Cons q qs)
  define st1 where "st1 = (if self_tail I q then st else update_result (re_origin q) (still_matches (solves \<epsilon> row q)) st)"
  have step: "only_results st st1" "all_match st1 \<longleftrightarrow> all_match st \<and> (\<not> self_tail I q \<longrightarrow> solves \<epsilon> row q)"
    using Cons.prems [of q] by (auto simp: valid_origin_def st1_def)
  have "valid_origin st1 q'" if "q' \<in> set qs" for q' using Cons.prems [of q'] that only_results_origin [OF step(1)] by simp
  from Cons.IH [OF this] obtain st' where st': "verify_all I (same_image \<epsilon>) row qs st1 = Some st'" "only_results st1 st'"
      "all_match st' \<longleftrightarrow> all_match st1 \<and> (\<forall>q \<in> set qs. \<not> self_tail I q \<longrightarrow> solves \<epsilon> row q)"
    by blast
  have "verify_all I (same_image \<epsilon>) row (q # qs) st = Some st'"
    using st'(1) by (simp add: equation_holds_same st1_def split: if_splits)
  moreover have "all_match st' \<longleftrightarrow> all_match st \<and> (\<forall>q \<in> set (q # qs). \<not> self_tail I q \<longrightarrow> solves \<epsilon> row q)"
    using st'(3) step(2) by simp
  ultimately show ?case using only_results_trans [OF step(1) st'(2)] by blast
qed simp

definition group_ok :: "('s, 'd, 'g) inference_inputs \<Rightarrow> (effect_ref \<Rightarrow> 'y) \<Rightarrow> effect_row_ref option \<Rightarrow> row_equation list \<Rightarrow> bool" where
  "group_ok I \<epsilon> b qs \<longleftrightarrow>
     (\<forall>q \<in> set qs. self_tail I q \<longrightarrow> \<epsilon> ` set (re_fixed q) = \<epsilon> ` set (rr_effects (re_actual q))) \<and>
     (\<exists>row. (b = None \<or> b = Some row) \<and> (\<forall>q \<in> set qs. \<not> self_tail I q \<longrightarrow> solves \<epsilon> row q))"

definition least_row :: "('s, 'd, 'g) inference_inputs \<Rightarrow> (effect_ref \<Rightarrow> 'y) \<Rightarrow> row_equation list \<Rightarrow> effect_row_ref \<Rightarrow> bool" where
  "least_row I \<epsilon> qs row \<longleftrightarrow> (\<forall>row'. (\<forall>q \<in> set qs. \<not> self_tail I q \<longrightarrow> solves \<epsilon> row' q) \<longrightarrow>
     rr_tail row = rr_tail row' \<and> \<epsilon> ` set (rr_effects row) \<subseteq> \<epsilon> ` set (rr_effects row'))"

definition group_bound ::
    "('s, 'd, 'g) inference_inputs \<Rightarrow> (effect_ref \<Rightarrow> 'y) \<Rightarrow> effect_row_ref option \<Rightarrow> row_equation list \<Rightarrow> effect_row_ref option \<Rightarrow> bool" where
  "group_bound I \<epsilon> b qs b' \<longleftrightarrow>
     (if \<exists>q \<in> set qs. \<not> self_tail I q
      then \<exists>row. b' = Some row \<and> (b = Some row \<or> b = None \<and> least_row I \<epsilon> qs row) \<and> (\<forall>q \<in> set qs. \<not> self_tail I q \<longrightarrow> solves \<epsilon> row q)
      else b' = b)"

lemma solves_present: "solves \<epsilon> row q \<Longrightarrow> present \<epsilon> q"
  unfolding solves_def present_def by (metis Un_upper1)

lemma exact_iff: "\<epsilon> ` set (re_fixed q) = \<epsilon> ` set (rr_effects (re_actual q)) \<longleftrightarrow> present \<epsilon> q \<and> residue \<epsilon> q = {}"
  unfolding present_def residue_def by (metis Diff_eq_empty_iff order_refl subset_antisym)

lemma solves_residue: "solves \<epsilon> row q \<Longrightarrow> residue \<epsilon> q \<subseteq> \<epsilon> ` set (rr_effects row)"
  unfolding solves_def residue_def by (metis Diff_subset_conv order_refl)

lemma squeeze: "A - F \<subseteq> R \<Longrightarrow> R \<subseteq> R' \<Longrightarrow> F \<union> R' = A \<Longrightarrow> F \<union> R = A"
  by blast

lemma inferred_least:
  assumes row: "\<epsilon> ` set (rr_effects row) = residues I \<epsilon> False qs"
    and tail: "\<exists>q \<in> set qs. counts I \<epsilon> False q \<and> rr_tail row = rr_tail (re_actual q)"
  shows "least_row I \<epsilon> qs row"
    and "(\<forall>q \<in> set qs. \<not> self_tail I q \<longrightarrow> solves \<epsilon> row' q) \<Longrightarrow> q \<in> set qs \<Longrightarrow> \<not> self_tail I q \<Longrightarrow> solves \<epsilon> row q"
proof -
  have within: "rr_tail row = rr_tail row' \<and> \<epsilon> ` set (rr_effects row) \<subseteq> \<epsilon> ` set (rr_effects row')"
    if all: "\<forall>q \<in> set qs. \<not> self_tail I q \<longrightarrow> solves \<epsilon> row' q" for row'
  proof
    show "rr_tail row = rr_tail row'" using tail all by (auto simp: counts_def solves_def)
    show "\<epsilon> ` set (rr_effects row) \<subseteq> \<epsilon> ` set (rr_effects row')"
    proof
      fix x assume "x \<in> \<epsilon> ` set (rr_effects row)"
      then obtain q where q: "q \<in> set qs" "counts I \<epsilon> False q" "x \<in> residue \<epsilon> q" unfolding row residues_iff by blast
      then have "solves \<epsilon> row' q" using all by (simp add: counts_def)
      from subsetD [OF solves_residue [OF this] q(3)] show "x \<in> \<epsilon> ` set (rr_effects row')" .
    qed
  qed
  then show "least_row I \<epsilon> qs row" by (simp add: least_row_def)
  assume all: "\<forall>q \<in> set qs. \<not> self_tail I q \<longrightarrow> solves \<epsilon> row' q" and q: "q \<in> set qs" "\<not> self_tail I q"
  have s: "solves \<epsilon> row' q" using all q by blast
  have "counts I \<epsilon> False q" using solves_present [OF s] q by (simp add: counts_def)
  then have "residue \<epsilon> q \<subseteq> \<epsilon> ` set (rr_effects row)" unfolding row using q(1) by (auto simp: residues_iff)
  then have "\<epsilon> ` set (re_fixed q) \<union> \<epsilon> ` set (rr_effects row) = \<epsilon> ` set (rr_effects (re_actual q))"
    unfolding residue_def by (rule squeeze [OF _ conjunct2 [OF within [OF all]] conjunct2 [OF s [unfolded solves_def]]])
  moreover have "rr_tail row = rr_tail (re_actual q)" using within [OF all] s unfolding solves_def by metis
  ultimately show "solves \<epsilon> row q" unfolding solves_def by (intro conjI)
qed

lemma group_ok_given:
  "group_ok I \<epsilon> (Some row) qs \<longleftrightarrow>
   (\<forall>q \<in> set qs. gathers I \<epsilon> True tail q) \<and> (\<forall>q \<in> set qs. \<not> self_tail I q \<longrightarrow> solves \<epsilon> row q)"
  unfolding group_ok_def gathers_def counts_def exact_iff using solves_present by fastforce

lemma group_ok_self:
  assumes "\<forall>q \<in> set qs. \<not> counts I \<epsilon> False q"
  shows "group_ok I \<epsilon> None qs \<longleftrightarrow> (\<forall>q \<in> set qs. gathers I \<epsilon> False tail q)"
    and "group_ok I \<epsilon> None qs \<Longrightarrow> \<forall>q \<in> set qs. self_tail I q"
proof -
  have self: "\<forall>q \<in> set qs. self_tail I q" if "\<forall>q \<in> set qs. present \<epsilon> q" using assms that by (auto simp: counts_def)
  have "\<forall>q \<in> set qs. present \<epsilon> q" if "group_ok I \<epsilon> None qs"
    using that solves_present unfolding group_ok_def exact_iff by blast
  then show "group_ok I \<epsilon> None qs \<Longrightarrow> \<forall>q \<in> set qs. self_tail I q" using self by blast
  then show "group_ok I \<epsilon> None qs \<longleftrightarrow> (\<forall>q \<in> set qs. gathers I \<epsilon> False tail q)"
    using assms self unfolding group_ok_def gathers_def exact_iff by blast
qed

lemma group_ok_inferred:
  assumes row: "\<epsilon> ` set (rr_effects row) = residues I \<epsilon> False qs"
    and tail: "\<exists>q \<in> set qs. counts I \<epsilon> False q \<and> rr_tail row = rr_tail (re_actual q)"
  shows "group_ok I \<epsilon> None qs \<longleftrightarrow>
    (\<forall>q \<in> set qs. gathers I \<epsilon> False (Some (rr_tail row)) q) \<and> (\<forall>q \<in> set qs. \<not> self_tail I q \<longrightarrow> solves \<epsilon> row q)"
proof
  assume ok: "group_ok I \<epsilon> None qs"
  then have all: "\<forall>q \<in> set qs. \<not> self_tail I q \<longrightarrow> solves \<epsilon> row q"
    unfolding group_ok_def using inferred_least(2) [OF row tail] by blast
  moreover have "gathers I \<epsilon> False (Some (rr_tail row)) q" if "q \<in> set qs" for q
  proof (cases "self_tail I q")
    case True
    with ok that show ?thesis unfolding group_ok_def exact_iff gathers_def counts_def by blast
  next
    case False
    with all that have s: "solves \<epsilon> row q" by blast
    with False solves_present [OF s] show ?thesis by (simp add: gathers_def counts_def solves_def)
  qed
  ultimately show "(\<forall>q \<in> set qs. gathers I \<epsilon> False (Some (rr_tail row)) q) \<and> (\<forall>q \<in> set qs. \<not> self_tail I q \<longrightarrow> solves \<epsilon> row q)" by blast
next
  assume "(\<forall>q \<in> set qs. gathers I \<epsilon> False (Some (rr_tail row)) q) \<and> (\<forall>q \<in> set qs. \<not> self_tail I q \<longrightarrow> solves \<epsilon> row q)"
  then show "group_ok I \<epsilon> None qs" unfolding group_ok_def exact_iff gathers_def by blast
qed

definition group_solved :: "('s, 'd, 'g) inference_inputs \<Rightarrow> (effect_ref \<Rightarrow> 'y) \<Rightarrow> utext \<Rightarrow> row_equation list \<Rightarrow> inference_state \<Rightarrow> inference_state \<Rightarrow> bool" where
  "group_solved I \<epsilon> p qs st st' \<longleftrightarrow> length (st_results st') = length (st_results st) \<and>
    (\<forall>x. x \<noteq> p \<or> fmlookup (st_bindings st) p \<noteq> None \<longrightarrow> fmlookup (st_bindings st') x = fmlookup (st_bindings st) x) \<and>
    (all_match st' \<longleftrightarrow> all_match st \<and> group_ok I \<epsilon> (fmlookup (st_bindings st) p) qs) \<and>
    (all_match st' \<longrightarrow> group_bound I \<epsilon> (fmlookup (st_bindings st) p) qs (fmlookup (st_bindings st') p))"

lemma all_match_nth: "all_match st \<Longrightarrow> i < length (st_results st) \<Longrightarrow> ri_matches (st_results st ! i)"
  by (simp add: all_match_def)

lemma group_finish:
  assumes valid: "\<And>q. q \<in> set qs \<Longrightarrow> valid_origin st q" and same: "only_results st s1"
    and ok: "group_ok I \<epsilon> (fmlookup (st_bindings st) p) qs \<longleftrightarrow> good \<and> (\<forall>q \<in> set qs. \<not> self_tail I q \<longrightarrow> solves \<epsilon> row q)"
    and one: "all_match s1 \<longleftrightarrow> all_match st \<and> good"
    and bound: "fmlookup (st_bindings st) p = Some row \<or> fmlookup (st_bindings st) p = None \<and> least_row I \<epsilon> qs row \<and> (\<exists>q \<in> set qs. \<not> self_tail I q)"
  shows "\<exists>s2. verify_all I (same_image \<epsilon>) row qs s1 = Some s2 \<and>
    group_solved I \<epsilon> p qs st (if list_all (\<lambda>q. ri_matches (st_results s2 ! re_origin q)) qs then s2\<lparr>st_bindings := fmupd p row (st_bindings s2)\<rparr> else s2)"
proof -
  obtain s2 where s2: "verify_all I (same_image \<epsilon>) row qs s1 = Some s2" "only_results s1 s2"
      "all_match s2 \<longleftrightarrow> all_match s1 \<and> (\<forall>q \<in> set qs. \<not> self_tail I q \<longrightarrow> solves \<epsilon> row q)"
    using verify_all_same [of qs s1 I \<epsilon> row] valid only_results_origin [OF same] by metis
  let ?all = "list_all (\<lambda>q. ri_matches (st_results s2 ! re_origin q)) qs"
  let ?st = "if ?all then s2\<lparr>st_bindings := fmupd p row (st_bindings s2)\<rparr> else s2"
  have keep: "st_bindings s2 = st_bindings st" "length (st_results s2) = length (st_results st)"
    using same s2(2) by (simp_all add: only_results_def)
  have matches: "all_match ?st \<longleftrightarrow> all_match s2" by (simp add: all_match_def)
  have iff: "all_match ?st \<longleftrightarrow> all_match st \<and> group_ok I \<epsilon> (fmlookup (st_bindings st) p) qs"
    unfolding matches s2(3) one ok by blast
  have all: "?all" if "all_match s2"
    using all_match_nth [OF that] valid keep(2) by (simp add: list_all_iff valid_origin_def)
  have "group_bound I \<epsilon> (fmlookup (st_bindings st) p) qs (fmlookup (st_bindings ?st) p)" if m: "all_match ?st"
  proof -
    have "all_match s2" using m matches by simp
    then have "fmlookup (st_bindings ?st) p = Some row" and "\<forall>q \<in> set qs. \<not> self_tail I q \<longrightarrow> solves \<epsilon> row q"
      using all s2(3) by simp_all
    with bound show ?thesis unfolding group_bound_def by auto
  qed
  moreover have "fmlookup (st_bindings ?st) x = fmlookup (st_bindings st) x" if "x \<noteq> p \<or> fmlookup (st_bindings st) p \<noteq> None" for x
    using bound that keep(1) by auto
  moreover have "length (st_results ?st) = length (st_results st)" using keep(2) by simp
  ultimately have "group_solved I \<epsilon> p qs st ?st" using iff unfolding group_solved_def by blast
  with s2(1) show ?thesis by blast
qed

lemma solve_group_same:
  assumes valid: "\<And>q. q \<in> set qs \<Longrightarrow> valid_origin st q"
  shows "\<exists>st'. solve_group I (same_image \<epsilon>) p qs st = Some st' \<and> group_solved I \<epsilon> p qs st st'"
proof -
  define b where "b = fmlookup (st_bindings st) p"
  obtain inferred s1 where g: "gather_all I (same_image \<epsilon>) (b \<noteq> None) qs (None, st) = Some (inferred, s1)"
      "gathered I \<epsilon> (b \<noteq> None) qs (None, st) (inferred, s1)"
    using gather_all_same [of qs "(None, st)" I \<epsilon> "b \<noteq> None"] valid by auto
  have same: "only_results st s1" and one: "all_match s1 \<longleftrightarrow> all_match st \<and> (\<forall>q \<in> set qs. gathers I \<epsilon> (b \<noteq> None) (row_tail inferred) q)"
    and images: "row_images \<epsilon> inferred = residues I \<epsilon> (b \<noteq> None) qs"
    and none: "inferred = None \<longleftrightarrow> (\<forall>q \<in> set qs. \<not> counts I \<epsilon> (b \<noteq> None) q)"
    and tail: "inferred \<noteq> None \<Longrightarrow> \<exists>q \<in> set qs. counts I \<epsilon> (b \<noteq> None) q \<and> row_tail inferred = Some (rr_tail (re_actual q))"
    using g(2) by (simp_all add: gathered_def row_images_def)
  show ?thesis
  proof (cases b)
    case (Some row)
    then have "\<exists>s2. verify_all I (same_image \<epsilon>) row qs s1 = Some s2 \<and> group_solved I \<epsilon> p qs st
        (if list_all (\<lambda>q. ri_matches (st_results s2 ! re_origin q)) qs then s2\<lparr>st_bindings := fmupd p row (st_bindings s2)\<rparr> else s2)"
      by (intro group_finish [OF valid same _ one]) (simp_all add: b_def [symmetric] group_ok_given)
    with g(1) Some show ?thesis by (auto simp: solve_group_def b_def)
  next
    case None
    show ?thesis
    proof (cases inferred)
      case none': None
      have ok: "group_ok I \<epsilon> b qs \<longleftrightarrow> (\<forall>q \<in> set qs. gathers I \<epsilon> False (row_tail inferred) q)" "group_ok I \<epsilon> b qs \<Longrightarrow> \<forall>q \<in> set qs. self_tail I q"
        using group_ok_self [of qs I \<epsilon>] none none' None by simp_all
      have "solve_group I (same_image \<epsilon>) p qs st = Some s1" using g(1) None none' by (simp add: solve_group_def b_def)
      moreover have "group_solved I \<epsilon> p qs st s1"
        using same one ok None unfolding group_solved_def group_bound_def only_results_def by (auto simp: b_def)
      ultimately show ?thesis by blast
    next
      case (Some row)
      have row: "\<epsilon> ` set (rr_effects row) = residues I \<epsilon> False qs" using images Some None by (simp add: row_images_def)
      have t: "\<exists>q \<in> set qs. counts I \<epsilon> False q \<and> rr_tail row = rr_tail (re_actual q)" using tail Some None by (simp add: row_tail_def)
      then have "\<exists>q \<in> set qs. \<not> self_tail I q" by (auto simp: counts_def)
      then have "\<exists>s2. verify_all I (same_image \<epsilon>) row qs s1 = Some s2 \<and> group_solved I \<epsilon> p qs st
          (if list_all (\<lambda>q. ri_matches (st_results s2 ! re_origin q)) qs then s2\<lparr>st_bindings := fmupd p row (st_bindings s2)\<rparr> else s2)"
        using group_ok_inferred [OF row t] inferred_least(1) [OF row t] None Some
        by (intro group_finish [OF valid same _ one]) (simp_all add: b_def [symmetric] row_tail_def)
      with g(1) None Some show ?thesis by (auto simp: solve_group_def b_def)
    qed
  qed
qed

definition group_of :: "row_equation list \<Rightarrow> utext \<Rightarrow> row_equation list" where
  "group_of equations p = filter (\<lambda>q. re_parameter q = p) equations"

definition groups_solved ::
    "('s, 'd, 'g) inference_inputs \<Rightarrow> (effect_ref \<Rightarrow> 'y) \<Rightarrow> row_equation list \<Rightarrow> utext set \<Rightarrow> inference_state \<Rightarrow> inference_state \<Rightarrow> bool" where
  "groups_solved I \<epsilon> equations P st st' \<longleftrightarrow> length (st_results st') = length (st_results st) \<and>
    (\<forall>x. x \<notin> P \<or> fmlookup (st_bindings st) x \<noteq> None \<longrightarrow> fmlookup (st_bindings st') x = fmlookup (st_bindings st) x) \<and>
    (all_match st' \<longleftrightarrow> all_match st \<and> (\<forall>p \<in> P. group_ok I \<epsilon> (fmlookup (st_bindings st) p) (group_of equations p))) \<and>
    (all_match st' \<longrightarrow> (\<forall>p \<in> P. group_bound I \<epsilon> (fmlookup (st_bindings st) p) (group_of equations p) (fmlookup (st_bindings st') p)))"

lemma groups_solved_insert:
  assumes 1: "group_solved I \<epsilon> p (group_of equations p) st s1" and 2: "groups_solved I \<epsilon> equations P s1 s2" and new: "p \<notin> P"
  shows "groups_solved I \<epsilon> equations (insert p P) st s2"
proof -
  have first: "length (st_results s1) = length (st_results st)"
      "\<And>x. x \<noteq> p \<or> fmlookup (st_bindings st) p \<noteq> None \<Longrightarrow> fmlookup (st_bindings s1) x = fmlookup (st_bindings st) x"
      "all_match s1 \<longleftrightarrow> all_match st \<and> group_ok I \<epsilon> (fmlookup (st_bindings st) p) (group_of equations p)"
      "all_match s1 \<Longrightarrow> group_bound I \<epsilon> (fmlookup (st_bindings st) p) (group_of equations p) (fmlookup (st_bindings s1) p)"
    using 1 unfolding group_solved_def by blast+
  have rest: "length (st_results s2) = length (st_results s1)"
      "\<And>x. x \<notin> P \<or> fmlookup (st_bindings s1) x \<noteq> None \<Longrightarrow> fmlookup (st_bindings s2) x = fmlookup (st_bindings s1) x"
      "all_match s2 \<longleftrightarrow> all_match s1 \<and> (\<forall>p \<in> P. group_ok I \<epsilon> (fmlookup (st_bindings s1) p) (group_of equations p))"
      "all_match s2 \<Longrightarrow> \<forall>p \<in> P. group_bound I \<epsilon> (fmlookup (st_bindings s1) p) (group_of equations p) (fmlookup (st_bindings s2) p)"
    using 2 unfolding groups_solved_def by blast+
  have others: "fmlookup (st_bindings s1) x = fmlookup (st_bindings st) x" if "x \<in> P" for x using first(2) new that by metis
  have own: "fmlookup (st_bindings s2) p = fmlookup (st_bindings s1) p" using rest(2) new by blast
  have "all_match s2 \<longleftrightarrow> all_match st \<and> (\<forall>p \<in> insert p P. group_ok I \<epsilon> (fmlookup (st_bindings st) p) (group_of equations p))"
    unfolding rest(3) first(3) using others by auto
  moreover have "\<forall>p \<in> insert p P. group_bound I \<epsilon> (fmlookup (st_bindings st) p) (group_of equations p) (fmlookup (st_bindings s2) p)" if "all_match s2"
    using rest(3) rest(4) [OF that] first(4) own others that by auto
  moreover have "fmlookup (st_bindings s2) x = fmlookup (st_bindings st) x" if "x \<notin> insert p P \<or> fmlookup (st_bindings st) x \<noteq> None" for x
    using first(2) [of x] rest(2) [of x] that by (cases "x = p") auto
  moreover have "length (st_results s2) = length (st_results st)" using first(1) rest(1) by simp
  ultimately show ?thesis unfolding groups_solved_def by blast
qed

lemma solve_groups_same:
  "distinct ps \<Longrightarrow> (\<And>q. q \<in> set equations \<Longrightarrow> valid_origin st q) \<Longrightarrow>
   \<exists>st'. solve_groups I (same_image \<epsilon>) equations ps st = Some st' \<and> groups_solved I \<epsilon> equations (set ps) st st'"
proof (induction ps arbitrary: st)
  case Nil
  then show ?case by (simp add: groups_solved_def)
next
  case (Cons p ps)
  have "valid_origin st q" if "q \<in> set (group_of equations p)" for q using Cons.prems(2) that by (simp add: group_of_def)
  then obtain s1 where 1: "solve_group I (same_image \<epsilon>) p (group_of equations p) st = Some s1" "group_solved I \<epsilon> p (group_of equations p) st s1"
    using solve_group_same by metis
  then have "valid_origin s1 q" if "q \<in> set equations" for q
    using Cons.prems(2) [OF that] by (simp add: group_solved_def valid_origin_def)
  then obtain s2 where 2: "solve_groups I (same_image \<epsilon>) equations ps s1 = Some s2" "groups_solved I \<epsilon> equations (set ps) s1 s2"
    using Cons.IH [of s1] Cons.prems(1) by auto
  have "groups_solved I \<epsilon> equations (set (p # ps)) st s2"
    using groups_solved_insert [OF 1(2) 2(2)] Cons.prems(1) by simp
  moreover have "solve_groups I (same_image \<epsilon>) equations (p # ps) st = Some s2"
    using 1(1) 2(1) by (simp add: group_of_def)
  ultimately show ?case by blast
qed

lemma record_concrete_keeps:
  "st_bindings (record_concrete I q st) = st_bindings st" "length (st_results (record_concrete I q st)) = length (st_results st)"
  "map ri_matches (st_results (record_concrete I q st)) = map ri_matches (st_results st)"
  by (auto simp: record_concrete_def update_result_def map_update) (metis list_update_beyond list_update_id map_update not_le nth_map)

lemma all_match_map: "all_match st \<longleftrightarrow> list_all (\<lambda>b. b) (map ri_matches (st_results st))"
  by (simp add: all_match_def list_all_iff)

lemma record_all_keeps:
  "st_bindings (fold (record_concrete I) qs st) = st_bindings st \<and> length (st_results (fold (record_concrete I) qs st)) = length (st_results st) \<and>
   map ri_matches (st_results (fold (record_concrete I) qs st)) = map ri_matches (st_results st)"
  by (induction qs arbitrary: st) (simp_all add: record_concrete_keeps)

lemma solve_row_equations_solved:
  assumes ranked: "ranked I rank" and fuel: "\<And>t. rank t < n" and valid: "\<And>q. q \<in> set (st_equations st) \<Longrightarrow> valid_origin st q"
  shows "\<exists>st'. solve_row_equations n I st = Some st' \<and>
    groups_solved I (effect_image (type_meaning I rank)) (st_equations st) (re_parameter ` set (st_equations st)) st st'"
proof -
  let ?\<epsilon> = "effect_image (type_meaning I rank)" and ?qs = "st_equations st"
  have "effect_refs_equivalent (types_equivalent n I) x y = same_image ?\<epsilon> x y" for x y
    using effect_refs_value [of "types_equivalent n I" "\<lambda>x y. type_meaning I rank x = type_meaning I rank y" x y]
      types_equivalent_decides [OF ranked fuel]
    by (simp add: decides_on_def same_image_def effect_rel_image)
  then have eq: "effect_refs_equivalent (types_equivalent n I) = same_image ?\<epsilon>" by blast
  define s0 where "s0 = fold (record_concrete I) ?qs (st\<lparr>st_equations := []\<rparr>)"
  have keep: "st_bindings s0 = st_bindings st" "length (st_results s0) = length (st_results st)" "all_match s0 \<longleftrightarrow> all_match st"
    using record_all_keeps [of I ?qs "st\<lparr>st_equations := []\<rparr>"] by (simp_all add: s0_def all_match_map)
  have "\<exists>st'. solve_groups I (same_image ?\<epsilon>) ?qs (sort (remdups (map re_parameter ?qs))) s0 = Some st' \<and>
      groups_solved I ?\<epsilon> ?qs (set (sort (remdups (map re_parameter ?qs)))) s0 st'"
    using valid keep(2) by (intro solve_groups_same) (simp_all add: valid_origin_def)
  then show ?thesis using keep by (simp add: solve_row_equations_def eq Let_def s0_def [symmetric] groups_solved_def)
qed

end
