(* ===== verification/Etas_Row_Walk.thy ===== *)
theory Etas_Row_Walk
  imports Etas_Row_Solve
begin

text \<open>The walk over pairs of types that collects the row equations, and the exactness of effect-row inference
  as a whole.\<close>

section \<open>The walk\<close>

text \<open>The pairs of types met from a pair.\<close>

inductive met :: "('s, 'd, 'g) inference_inputs \<Rightarrow> type_id \<Rightarrow> type_id \<Rightarrow> type_id \<times> type_id \<Rightarrow> bool"
  for I :: "('s, 'd, 'g) inference_inputs" and expected actual :: type_id where
  met_root: "met I expected actual (resolve_type I expected, resolve_type I actual)"
| met_part: "met I expected actual (x, y) \<Longrightarrow> InferTypes x' y' \<in> set (obligations I x y) \<Longrightarrow>
    met I expected actual (resolve_type I x', resolve_type I y')"

fun owed :: "'s ty \<Rightarrow> obligation \<Rightarrow> bool" where
  "owed d (InferTypes x y) \<longleftrightarrow> x \<in> set (data_children False d)"
| "owed d (InferRows v w) \<longleftrightarrow> set_option v \<subseteq> set (data_rows d)"

lemma infer_all_owed: "set ls \<subseteq> set (data_children False d) \<Longrightarrow> list_all (owed d) (infer_all ls rs)"
  unfolding infer_all_def by (induction ls arbitrary: rs) (case_tac rs; simp)+

lemma infer_opt_owed: "set_option l \<subseteq> set (data_children False d) \<Longrightarrow> list_all (owed d) (infer_opt l r)"
  by (cases l; cases r; simp add: infer_opt_def)

lemma infer_field_owed: "ft_ty ` set ls \<subseteq> set (data_children False d) \<Longrightarrow> list_all (owed d) (concat (map (infer_field rs) ls))"
  by (induction ls) (simp_all add: infer_field_def split: option.split)

lemma infer_owed: "list_all (owed d) (infer_data d b)"
proof -
  note parts = infer_data_def data_children_def data_rows_def
  show ?thesis
  proof (cases d)
    case (TyFunction ls x e)
    then show ?thesis by (cases b) (auto simp: parts intro!: infer_all_owed)
  next
    case (TyHandler h p x)
    then show ?thesis by (cases b; cases p) (auto simp: parts intro!: infer_opt_owed split: handler_produced_effects.split)
  next
    case (TyContinuation x z e)
    then show ?thesis by (cases b) (auto simp: parts intro!: infer_opt_owed)
  next
    case (TyRecord ls)
    then show ?thesis by (cases b) (auto simp: parts intro!: infer_field_owed)
  next
    case (TyTuple ls)
    then show ?thesis by (cases b) (auto simp: parts intro!: infer_all_owed)
  next
    case (TyApplied c ls)
    then show ?thesis by (cases b) (auto simp: parts intro!: infer_all_owed)
  next
    case (TyResourceHandle x)
    then show ?thesis by (cases b; cases x) (auto simp: parts intro!: infer_all_owed split: resource_handle_type.split)
  qed (cases b; simp add: parts)+
qed

lemma obligations_owed:
  assumes "c \<in> set (obligations I x y)"
  shows "\<exists>d. store_get (ii_store I) x = Some d \<and> owed d c"
proof (cases "store_get (ii_store I) x"; cases "store_get (ii_store I) y")
  fix a b assume ab: "store_get (ii_store I) x = Some a" "store_get (ii_store I) y = Some b"
  then have "c \<in> set (infer_data a b)" using assms by (simp add: obligations_def)
  then show ?thesis using infer_owed [of a b] ab by (simp add: list_all_iff)
qed (use assms in \<open>simp_all add: obligations_def\<close>)

lemma obligation_rank_type:
  assumes "ranked I rank" "InferTypes x' y' \<in> set (obligations I x y)"
  shows "rank x' < rank x"
proof -
  obtain d where d: "store_get (ii_store I) x = Some d" "x' \<in> set (data_children False d)" using obligations_owed [OF assms(2)] by auto
  show ?thesis by (rule part_rank(1) [OF assms(1) d])
qed

lemma obligation_rank_row:
  assumes "ranked I rank" "InferRows (Some v) w \<in> set (obligations I x y)" "t \<in> set (row_types v)"
  shows "rank t < rank x"
proof -
  obtain d where d: "store_get (ii_store I) x = Some d" "v \<in> set (data_rows d)" using obligations_owed [OF assms(2)] by auto
  show ?thesis by (rule part_rank(2) [OF assms(1) d assms(3)])
qed

section \<open>What a row asks for\<close>

definition known_row :: "effect_row_ref option \<Rightarrow> effect_row_ref" where
  "known_row w = (case w of None \<Rightarrow> empty_row | Some row \<Rightarrow> row)"

definition row_agrees :: "('s, 'd, 'g) inference_inputs \<Rightarrow> (type_id \<Rightarrow> 'x) \<Rightarrow> effect_row_ref option \<Rightarrow> effect_row_ref option \<Rightarrow> bool" where
  "row_agrees I g v w = (case v of None \<Rightarrow> True | Some row \<Rightarrow> param_tail I row \<noteq> None \<or> row_class g row = row_class g (known_row w))"

definition row_asks :: "('s, 'd, 'g) inference_inputs \<Rightarrow> nat \<Rightarrow> effect_row_ref option \<Rightarrow> effect_row_ref option \<Rightarrow> row_equation option" where
  "row_asks I i v w =
     (case v of
        None \<Rightarrow> None
      | Some row \<Rightarrow>
          (case param_tail I row of
             None \<Rightarrow> None
           | Some p \<Rightarrow>
               if w = None \<and> rr_effects row = [] then None
               else Some \<lparr>re_parameter = p, re_fixed = rr_effects row, re_actual = known_row w, re_origin = i\<rparr>))"

definition current_matches :: "inference_state \<Rightarrow> bool" where
  "current_matches st = ri_matches (st_results st ! st_current st)"

definition current_ok :: "inference_state \<Rightarrow> bool" where
  "current_ok st \<longleftrightarrow> st_current st < length (st_results st)"

definition one_result :: "inference_state \<Rightarrow> inference_state \<Rightarrow> bool" where
  "one_result st st' \<longleftrightarrow> st_bindings st' = st_bindings st \<and> st_current st' = st_current st \<and>
     length (st_results st') = length (st_results st) \<and> (\<forall>j. j \<noteq> st_current st \<longrightarrow> st_results st' ! j = st_results st ! j)"

definition handled :: "('s, 'd, 'g) inference_inputs \<Rightarrow> (type_id \<Rightarrow> 'x) \<Rightarrow> inference_state \<Rightarrow> obligation \<Rightarrow> bool" where
  "handled I g st c =
     (case c of
        InferTypes x y \<Rightarrow> (resolve_type I x, resolve_type I y) \<in> st_visited st
      | InferRows v w \<Rightarrow> row_agrees I g v w \<and> set_option (row_asks I (st_current st) v w) \<subseteq> set (st_equations st))"

text \<open>A step of the walk over the pairs of a set: it only adds what these pairs ask for, and when the
  result still matches, everything it entered has been dealt with.\<close>

definition row_due :: "('s, 'd, 'g) inference_inputs \<Rightarrow> (type_id \<times> type_id \<Rightarrow> bool) \<Rightarrow> effect_row_ref option \<Rightarrow> effect_row_ref option \<Rightarrow> bool" where
  "row_due I X v w \<longleftrightarrow> (\<exists>x y. X (x, y) \<and> InferRows v w \<in> set (obligations I x y))"

definition settled :: "('s, 'd, 'g) inference_inputs \<Rightarrow> (type_id \<Rightarrow> 'x) \<Rightarrow> inference_state \<Rightarrow> type_id \<times> type_id \<Rightarrow> bool" where
  "settled I g st p \<longleftrightarrow> (\<forall>c \<in> set (obligations I (fst p) (snd p)). handled I g st c)"

definition walks ::
    "('s, 'd, 'g) inference_inputs \<Rightarrow> (type_id \<Rightarrow> 'x) \<Rightarrow> (type_id \<times> type_id \<Rightarrow> bool) \<Rightarrow> inference_state \<Rightarrow> inference_state \<Rightarrow> bool" where
  "walks I g X st st' \<longleftrightarrow> one_result st st' \<and> st_visited st \<subseteq> st_visited st' \<and> set (st_equations st) \<subseteq> set (st_equations st') \<and>
     (\<forall>p \<in> st_visited st' - st_visited st. X p) \<and>
     (\<forall>q \<in> set (st_equations st') - set (st_equations st). \<exists>v w. row_due I X v w \<and> row_asks I (st_current st) v w = Some q) \<and>
     (current_matches st' \<longrightarrow> current_matches st) \<and>
     (current_matches st \<longrightarrow> \<not> current_matches st' \<longrightarrow> (\<exists>v w. row_due I X v w \<and> \<not> row_agrees I g v w)) \<and>
     (current_matches st' \<longrightarrow> (\<forall>p \<in> st_visited st' - st_visited st. settled I g st' p))"

lemma walksD:
  assumes "walks I g X st st'"
  shows "one_result st st'" "st_visited st \<subseteq> st_visited st'" "set (st_equations st) \<subseteq> set (st_equations st')"
    "p \<in> st_visited st' - st_visited st \<Longrightarrow> X p"
    "q \<in> set (st_equations st') - set (st_equations st) \<Longrightarrow> \<exists>v w. row_due I X v w \<and> row_asks I (st_current st) v w = Some q"
    "current_matches st' \<Longrightarrow> current_matches st"
    "current_matches st \<Longrightarrow> \<not> current_matches st' \<Longrightarrow> \<exists>v w. row_due I X v w \<and> \<not> row_agrees I g v w"
    "current_matches st' \<Longrightarrow> p \<in> st_visited st' - st_visited st \<Longrightarrow> settled I g st' p"
  using assms by (simp_all add: walks_def)

lemma one_result_trans: "one_result a b \<Longrightarrow> one_result b c \<Longrightarrow> one_result a c"
  by (simp add: one_result_def)

lemma one_result_ok: "one_result st st' \<Longrightarrow> current_ok st' = current_ok st"
  by (simp add: one_result_def current_ok_def)

lemma walks_refl: "walks I g X st st"
  by (simp add: walks_def one_result_def)

lemma handled_mono:
  assumes "handled I g st c" "st_visited st \<subseteq> st_visited st'" "set (st_equations st) \<subseteq> set (st_equations st')" "st_current st' = st_current st"
  shows "handled I g st' c"
  using assms by (cases c) (auto simp: handled_def)

lemma walks_handled: "walks I g X st st' \<Longrightarrow> handled I g st c \<Longrightarrow> handled I g st' c"
  by (rule handled_mono) (simp_all add: walks_def one_result_def)

lemma walks_settled: "walks I g X st st' \<Longrightarrow> settled I g st p \<Longrightarrow> settled I g st' p"
  by (simp add: settled_def walks_handled)

lemma walks_trans:
  assumes 1: "walks I g X a b" and 2: "walks I g X b c"
  shows "walks I g X a c"
proof -
  have current: "st_current b = st_current a" using walksD(1) [OF 1] by (simp add: one_result_def)
  have split: "p \<in> A - B \<Longrightarrow> p \<in> A - C \<or> p \<in> C - B" for p :: 'z and A B C by blast
  have "settled I g c p" if m: "current_matches c" and p: "p \<in> st_visited c - st_visited a" for p
    using split [OF p, of "st_visited b"] walksD(8) [OF 2 m] walksD(8) [OF 1 walksD(6) [OF 2 m]] walks_settled [OF 2] by blast
  moreover have "\<exists>v w. row_due I X v w \<and> row_asks I (st_current a) v w = Some q" if "q \<in> set (st_equations c) - set (st_equations a)" for q
    using split [OF that, of "set (st_equations b)"] walksD(5) [OF 1] walksD(5) [OF 2] current by metis
  moreover have "X p" if "p \<in> st_visited c - st_visited a" for p
    using split [OF that, of "st_visited b"] walksD(4) [OF 1] walksD(4) [OF 2] by blast
  moreover have "\<exists>v w. row_due I X v w \<and> \<not> row_agrees I g v w" if "current_matches a" "\<not> current_matches c"
    using walksD(7) [OF 1 that(1)] walksD(7) [OF 2 _ that(2)] by blast
  moreover have "st_visited a \<subseteq> st_visited c" using walksD(2) [OF 1] walksD(2) [OF 2] by (rule order_trans)
  moreover have "set (st_equations a) \<subseteq> set (st_equations c)" using walksD(3) [OF 1] walksD(3) [OF 2] by (rule order_trans)
  moreover have "one_result a c" using walksD(1) [OF 1] walksD(1) [OF 2] by (rule one_result_trans)
  moreover have "current_matches a" if "current_matches c" using walksD(6) [OF 1] walksD(6) [OF 2 that] by blast
  ultimately show ?thesis unfolding walks_def by (intro conjI ballI impI)
qed

lemma one_result_update: "one_result st (update_result (st_current st) f st)"
  by (simp add: one_result_def update_result_def)

lemma update_result_keeps [simp]:
  "st_visited (update_result i f st) = st_visited st" "st_equations (update_result i f st) = st_equations st"
  "st_current (update_result i f st) = st_current st"
  by (simp_all add: update_result_def)

lemma current_matches_update:
  "current_ok st \<Longrightarrow> current_matches (update_result (st_current st) f st) = ri_matches (f (st_results st ! st_current st))"
  by (simp add: current_matches_def current_ok_def update_result_def)

lemma walks_same_visited:
  assumes "one_result st st'" "st_visited st' = st_visited st" "set (st_equations st') = set (st_equations st) \<union> Q"
    "\<And>q. q \<in> Q \<Longrightarrow> \<exists>v w. row_due I X v w \<and> row_asks I (st_current st) v w = Some q"
    "current_matches st' \<longleftrightarrow> current_matches st \<and> b" "\<not> b \<Longrightarrow> \<exists>v w. row_due I X v w \<and> \<not> row_agrees I g v w"
  shows "walks I g X st st'"
  using assms unfolding walks_def by (intro conjI ballI impI) auto

lemma infer_row_walks:
  fixes I :: "('s, 'd, 'g) inference_inputs"
  assumes ranked: "ranked I rank" and fuel: "\<And>row t. v = Some row \<Longrightarrow> t \<in> set (row_types row) \<Longrightarrow> rank t < n"
    and ok: "current_ok st" and due: "row_due I X v w"
  shows "\<exists>st'. infer_row_binding n I v w st = Some st' \<and> walks I (type_meaning I rank) X st st' \<and>
    (current_matches st' \<longrightarrow> handled I (type_meaning I rank) st' (InferRows v w))"
proof (cases v)
  case None
  then show ?thesis by (simp add: infer_row_binding_def walks_refl handled_def row_agrees_def row_asks_def)
next
  case (Some row)
  let ?g = "type_meaning I rank"
  show ?thesis
  proof (cases "param_tail I row")
    case None
    let ?b = "row_class ?g row = row_class ?g (known_row w)"
    have eq: "rows_equivalent (types_equivalent n I) row (known_row w) = Some ?b"
    proof -
      have "rows_equivalent (types_equivalent n I) row (known_row w) = Some (row_rel (\<lambda>x y. ?g x = ?g y) row (known_row w))"
        using types_equivalent_decides [OF ranked fuel] Some by (intro rows_value) (simp add: decides_on_def)
      then show ?thesis by (simp only: row_rel_class)
    qed
    let ?st = "update_result (st_current st) (still_matches ?b) st"
    have run: "infer_row_binding n I v w st = Some ?st" using Some None eq by (simp add: infer_row_binding_def known_row_def)
    have m: "current_matches ?st \<longleftrightarrow> current_matches st \<and> ?b"
      using current_matches_update [OF ok] by (simp add: still_matches_def current_matches_def)
    have agrees: "row_agrees I ?g v w \<longleftrightarrow> ?b" and asks: "row_asks I i v w = None" for i
      using Some None by (simp_all add: row_agrees_def row_asks_def)
    have "walks I ?g X st ?st"
      using due agrees by (intro walks_same_visited [where b = ?b and Q = "{}"]) (auto simp: one_result_update m)
    moreover have "handled I ?g ?st (InferRows v w)" if "current_matches ?st"
      using that m agrees asks by (simp add: handled_def)
    ultimately show ?thesis using run by blast
  next
    case tail: (Some p)
    have agrees: "row_agrees I ?g v w" using Some tail by (simp add: row_agrees_def)
    show ?thesis
    proof (cases "w = None \<and> rr_effects row = []")
      case True
      let ?st = "update_result (st_current st) (defer_param p empty_row) st"
      have asks: "row_asks I i v w = None" for i using Some tail True by (simp add: row_asks_def)
      have m: "current_matches ?st \<longleftrightarrow> current_matches st \<and> True"
        using current_matches_update [OF ok] by (simp add: defer_param_def current_matches_def)
      have "walks I ?g X st ?st" by (rule walks_same_visited [OF one_result_update _ _ _ m, where Q = "{}"]) simp_all
      moreover have "infer_row_binding n I v w st = Some ?st" using Some tail True by (simp add: infer_row_binding_def)
      ultimately show ?thesis using agrees asks by (simp add: handled_def)
    next
      case False
      let ?q = "\<lparr>re_parameter = p, re_fixed = rr_effects row, re_actual = known_row w, re_origin = st_current st\<rparr>"
      let ?st = "st\<lparr>st_equations := st_equations st @ [?q]\<rparr>"
      have asks: "row_asks I (st_current st) v w = Some ?q" using Some tail False by (simp add: row_asks_def)
      have m: "current_matches ?st \<longleftrightarrow> current_matches st \<and> True" by (simp add: current_matches_def)
      have one: "one_result st ?st" by (simp add: one_result_def)
      have "walks I ?g X st ?st"
        using due asks by (intro walks_same_visited [OF one _ _ _ m, where Q = "{?q}"]) auto
      moreover have "infer_row_binding n I v w st = Some ?st" using Some tail False by (auto simp: infer_row_binding_def known_row_def)
      ultimately show ?thesis using agrees asks by (simp add: handled_def)
    qed
  qed
qed

lemma run_obligations_walks:
  assumes types: "\<And>x y st. InferTypes x y \<in> set cs \<Longrightarrow> current_ok st \<Longrightarrow>
      \<exists>st'. f x y st = Some st' \<and> walks I g X st st' \<and> (current_matches st' \<longrightarrow> handled I g st' (InferTypes x y))"
    and rows: "\<And>v w st. InferRows v w \<in> set cs \<Longrightarrow> current_ok st \<Longrightarrow>
      \<exists>st'. h v w st = Some st' \<and> walks I g X st st' \<and> (current_matches st' \<longrightarrow> handled I g st' (InferRows v w))"
    and ok: "current_ok st"
  shows "\<exists>st'. run_obligations f h cs st = Some st' \<and> walks I g X st st' \<and> (current_matches st' \<longrightarrow> (\<forall>c \<in> set cs. handled I g st' c))"
  using assms
proof (induction cs arbitrary: st)
  case Nil
  then show ?case by (simp add: walks_refl)
next
  case (Cons c cs)
  have "\<exists>s1. (case c of InferTypes x y \<Rightarrow> f x y st | InferRows v w \<Rightarrow> h v w st) = Some s1 \<and> walks I g X st s1 \<and> (current_matches s1 \<longrightarrow> handled I g s1 c)"
    using Cons.prems by (cases c) simp_all
  then obtain s1 where s1: "(case c of InferTypes x y \<Rightarrow> f x y st | InferRows v w \<Rightarrow> h v w st) = Some s1" "walks I g X st s1"
      "current_matches s1 \<Longrightarrow> handled I g s1 c" by blast
  have "current_ok s1" using Cons.prems(3) one_result_ok [OF walksD(1) [OF s1(2)]] by simp
  then have "\<exists>s2. run_obligations f h cs s1 = Some s2 \<and> walks I g X s1 s2 \<and> (current_matches s2 \<longrightarrow> (\<forall>c \<in> set cs. handled I g s2 c))"
    by (intro Cons.IH Cons.prems(1,2)) simp_all
  then obtain s2 where s2: "run_obligations f h cs s1 = Some s2" "walks I g X s1 s2"
      "current_matches s2 \<Longrightarrow> \<forall>c \<in> set cs. handled I g s2 c" by blast
  have "handled I g s2 c" if "current_matches s2" using walks_handled [OF s2(2)] s1(3) walksD(6) [OF s2(2) that] by blast
  moreover have "run_obligations f h (c # cs) st = Some s2" using s1(1) s2(1) by (cases c) simp_all
  ultimately show ?case using walks_trans [OF s1(2) s2(2)] s2(3) by auto
qed

lemma infer_type_walks:
  fixes I :: "('s, 'd, 'g) inference_inputs"
  assumes ranked: "ranked I rank"
    and closed: "\<And>x y x' y'. X (x, y) \<Longrightarrow> InferTypes x' y' \<in> set (obligations I x y) \<Longrightarrow> X (resolve_type I x', resolve_type I y')"
  shows "rank e < n \<Longrightarrow> X (resolve_type I e, resolve_type I a) \<Longrightarrow> current_ok st \<Longrightarrow>
    \<exists>st'. infer_type n I e a st = Some st' \<and> walks I (type_meaning I rank) X st st' \<and>
      (current_matches st' \<longrightarrow> handled I (type_meaning I rank) st' (InferTypes e a))"
proof (induction n arbitrary: e a st)
  case (Suc n)
  let ?g = "type_meaning I rank" and ?e = "resolve_type I e" and ?a = "resolve_type I a"
  show ?case
  proof (cases "\<not> current_matches st \<or> (?e, ?a) \<in> st_visited st")
    case True
    then have "infer_type (Suc n) I e a st = Some st" by (auto simp: current_matches_def Let_def)
    with True show ?thesis by (auto simp: walks_refl handled_def)
  next
    case False
    let ?s = "st\<lparr>st_visited := insert (?e, ?a) (st_visited st)\<rparr>"
    have le: "rank ?e < Suc n" using resolve_ranked(1) [OF ranked, of e] Suc.prems(1) by simp
    have "\<exists>st'. infer_type n I x y s = Some st' \<and> walks I ?g X s st' \<and> (current_matches st' \<longrightarrow> handled I ?g st' (InferTypes x y))"
      if "InferTypes x y \<in> set (obligations I ?e ?a)" "current_ok s" for x y s
      using obligation_rank_type [OF ranked that(1)] le closed [OF Suc.prems(2) that(1)] that(2) by (intro Suc.IH) simp_all
    moreover have "\<exists>st'. infer_row_binding n I v w s = Some st' \<and> walks I ?g X s st' \<and> (current_matches st' \<longrightarrow> handled I ?g st' (InferRows v w))"
      if "InferRows v w \<in> set (obligations I ?e ?a)" "current_ok s" for v w s
    proof (rule infer_row_walks [OF ranked _ that(2)])
      show "row_due I X v w" using Suc.prems(2) that(1) by (auto simp: row_due_def)
      show "rank t < n" if "v = Some row" "t \<in> set (row_types row)" for row t
        using obligation_rank_row [OF ranked _ that(2), of w ?e ?a] \<open>InferRows v w \<in> _\<close> that(1) le by simp
    qed
    moreover have "current_ok ?s" using Suc.prems(3) by (simp add: current_ok_def)
    ultimately obtain st' where st': "run_obligations (infer_type n I) (infer_row_binding n I) (obligations I ?e ?a) ?s = Some st'"
        "walks I ?g X ?s st'" "current_matches st' \<Longrightarrow> \<forall>c \<in> set (obligations I ?e ?a). handled I ?g st' c"
      using run_obligations_walks [of "obligations I ?e ?a" "infer_type n I" I ?g X "infer_row_binding n I" ?s] by blast
    have run: "infer_type (Suc n) I e a st = Some st'" using st'(1) False by (simp add: current_matches_def Let_def)
    have here: "(?e, ?a) \<in> st_visited st'" using walksD(2) [OF st'(2)] by simp
    have m: "current_matches ?s = current_matches st" by (simp add: current_matches_def)
    have new: "p = (?e, ?a) \<or> p \<in> st_visited st' - st_visited ?s" if "p \<in> st_visited st' - st_visited st" for p using that by simp
    have "walks I ?g X st st'"
      unfolding walks_def
    proof (intro conjI ballI impI)
      show "X p" if "p \<in> st_visited st' - st_visited st" for p
        using new [OF that] walksD(4) [OF st'(2)] Suc.prems(2) by blast
      show "settled I ?g st' p" if "current_matches st'" "p \<in> st_visited st' - st_visited st" for p
      proof (rule disjE [OF new [OF that(2)]])
        assume "p = (?e, ?a)"
        then show ?thesis using st'(3) [OF that(1)] by (simp add: settled_def)
      qed (rule walksD(8) [OF st'(2) that(1)])
    qed (use walksD [OF st'(2)] m in \<open>auto simp: one_result_def\<close>)
    with run here show ?thesis by (simp add: handled_def)
  qed
qed simp

section \<open>All pairs\<close>

definition pairs_walked ::
    "('s, 'd, 'g) inference_inputs \<Rightarrow> (type_id \<Rightarrow> 'x) \<Rightarrow> (nat \<times> type_id \<times> type_id) set \<Rightarrow> inference_state \<Rightarrow> inference_state \<Rightarrow> bool" where
  "pairs_walked I g P st st' \<longleftrightarrow> st_bindings st' = st_bindings st \<and> length (st_results st') = length (st_results st) \<and>
     set (st_equations st) \<subseteq> set (st_equations st') \<and>
     (\<forall>q \<in> set (st_equations st') - set (st_equations st).
        \<exists>i e a v w. (i, e, a) \<in> P \<and> row_due I (met I e a) v w \<and> row_asks I i v w = Some q) \<and>
     (all_match st' \<longrightarrow> all_match st) \<and>
     (all_match st \<longrightarrow> \<not> all_match st' \<longrightarrow> (\<exists>i e a v w. (i, e, a) \<in> P \<and> row_due I (met I e a) v w \<and> \<not> row_agrees I g v w)) \<and>
     (all_match st' \<longrightarrow> (\<forall>i e a v w. (i, e, a) \<in> P \<longrightarrow> row_due I (met I e a) v w \<longrightarrow>
        row_agrees I g v w \<and> set_option (row_asks I i v w) \<subseteq> set (st_equations st')))"

lemma pairs_walkedD:
  assumes "pairs_walked I g P st st'"
  shows "st_bindings st' = st_bindings st" "length (st_results st') = length (st_results st)"
    "set (st_equations st) \<subseteq> set (st_equations st')"
    "q \<in> set (st_equations st') \<Longrightarrow> q \<notin> set (st_equations st) \<Longrightarrow>
      \<exists>i e a v w. (i, e, a) \<in> P \<and> row_due I (met I e a) v w \<and> row_asks I i v w = Some q"
    "all_match st' \<Longrightarrow> all_match st"
    "all_match st \<Longrightarrow> \<not> all_match st' \<Longrightarrow> \<exists>i e a v w. (i, e, a) \<in> P \<and> row_due I (met I e a) v w \<and> \<not> row_agrees I g v w"
    "all_match st' \<Longrightarrow> (i, e, a) \<in> P \<Longrightarrow> row_due I (met I e a) v w \<Longrightarrow>
      row_agrees I g v w \<and> set_option (row_asks I i v w) \<subseteq> set (st_equations st')"
  using assms by (simp_all add: pairs_walked_def)

lemma one_pair_walked:
  assumes ranked: "ranked I rank" and fuel: "rank e < n" and i: "i < length (st_results st)"
  shows "\<exists>st'. infer_type n I e a (st\<lparr>st_current := i, st_visited := {}\<rparr>) = Some st' \<and> pairs_walked I (type_meaning I rank) {(i, e, a)} st st'"
proof -
  let ?g = "type_meaning I rank" and ?s = "st\<lparr>st_current := i, st_visited := {}\<rparr>"
  have "current_ok ?s" using i by (simp add: current_ok_def)
  then have "\<exists>st'. infer_type n I e a ?s = Some st' \<and> walks I ?g (met I e a) ?s st' \<and> (current_matches st' \<longrightarrow> handled I ?g st' (InferTypes e a))"
    by (intro infer_type_walks [where X = "met I e a", OF ranked _ fuel] met_root) (rule met_part)
  then obtain st' where st': "infer_type n I e a ?s = Some st'" "walks I ?g (met I e a) ?s st'"
      "current_matches st' \<Longrightarrow> handled I ?g st' (InferTypes e a)"
    by blast
  have one: "st_bindings st' = st_bindings st" "st_current st' = i" "length (st_results st') = length (st_results st)"
      "\<And>j. j \<noteq> i \<Longrightarrow> st_results st' ! j = st_results st ! j"
    using walksD(1) [OF st'(2)] by (simp_all add: one_result_def)
  have matches: "all_match st' \<longleftrightarrow> current_matches st' \<and> (\<forall>j < length (st_results st). j \<noteq> i \<longrightarrow> ri_matches (st_results st ! j))"
    using one i unfolding all_match_def current_matches_def all_set_conv_all_nth by metis
  have before: "all_match st \<longleftrightarrow> current_matches ?s \<and> (\<forall>j < length (st_results st). j \<noteq> i \<longrightarrow> ri_matches (st_results st ! j))"
    using i unfolding all_match_def current_matches_def all_set_conv_all_nth by auto
  have reach: "p \<in> st_visited st'" if "current_matches st'" "met I e a p" for p
    using that(2)
  proof (induction rule: met.induct)
    case met_root
    then show ?case using st'(3) [OF that(1)] by (simp add: handled_def)
  next
    case (met_part x y x' y')
    then have "settled I ?g st' (x, y)" using walksD(8) [OF st'(2) that(1)] by simp
    with met_part.hyps show ?case by (auto simp: settled_def handled_def)
  qed
  have "row_agrees I ?g v w \<and> set_option (row_asks I i v w) \<subseteq> set (st_equations st')"
    if "current_matches st'" and due: "row_due I (met I e a) v w" for v w
  proof -
    obtain x y where xy: "met I e a (x, y)" "InferRows v w \<in> set (obligations I x y)" using due by (auto simp: row_due_def)
    have "settled I ?g st' (x, y)" using walksD(8) [OF st'(2) that(1)] reach [OF that(1) xy(1)] by simp
    then have "handled I ?g st' (InferRows v w)" using xy(2) by (simp add: settled_def)
    then show ?thesis by (simp add: handled_def one(2))
  qed
  then have "pairs_walked I ?g {(i, e, a)} st st'"
    unfolding pairs_walked_def using walksD(3,5,6,7) [OF st'(2)] one(1,3) matches before by simp
  with st'(1) show ?thesis by blast
qed

lemma pairs_walked_insert:
  assumes 1: "pairs_walked I g {p} st s1" and 2: "pairs_walked I g P s1 s2"
  shows "pairs_walked I g (insert p P) st s2"
proof -
  note one = pairs_walkedD [OF 1] and two = pairs_walkedD [OF 2]
  have "\<exists>i e a v w. (i, e, a) \<in> insert p P \<and> row_due I (met I e a) v w \<and> row_asks I i v w = Some q"
    if "q \<in> set (st_equations s2)" "q \<notin> set (st_equations st)" for q
  proof (cases "q \<in> set (st_equations s1)")
    case True
    from one(4) [OF this that(2)] show ?thesis by blast
  next
    case False
    from two(4) [OF that(1) this] show ?thesis by blast
  qed
  moreover have "\<exists>i e a v w. (i, e, a) \<in> insert p P \<and> row_due I (met I e a) v w \<and> \<not> row_agrees I g v w"
    if "all_match st" "\<not> all_match s2"
  proof (cases "all_match s1")
    case True
    from two(6) [OF this that(2)] show ?thesis by blast
  next
    case False
    from one(6) [OF that(1) this] show ?thesis by blast
  qed
  moreover have "row_agrees I g v w \<and> set_option (row_asks I i v w) \<subseteq> set (st_equations s2)"
    if m: "all_match s2" and iea: "(i, e, a) \<in> insert p P" and due: "row_due I (met I e a) v w" for i e a v w
  proof (cases "(i, e, a) \<in> P")
    case True
    from two(7) [OF m this due] show ?thesis .
  next
    case False
    with iea have "(i, e, a) \<in> {p}" by simp
    from one(7) [OF two(5) [OF m] this due] two(3) show ?thesis by (metis order_trans)
  qed
  moreover have "set (st_equations st) \<subseteq> set (st_equations s2)" using one(3) two(3) by (rule order_trans)
  moreover have "all_match s2 \<longrightarrow> all_match st" using one(5) two(5) by blast
  moreover have "st_bindings s2 = st_bindings st" "length (st_results s2) = length (st_results st)"
    using one(1,2) two(1,2) by simp_all
  ultimately show ?thesis unfolding pairs_walked_def by blast
qed

lemma infer_pairs_walked:
  assumes ranked: "ranked I rank" and fuel: "\<And>t. rank t < n"
  shows "(\<And>i e a. (i, e, a) \<in> set ps \<Longrightarrow> i < length (st_results st)) \<Longrightarrow>
    \<exists>st'. infer_pairs n I ps st = Some st' \<and> pairs_walked I (type_meaning I rank) (set ps) st st'"
proof (induction ps arbitrary: st)
  case Nil
  then show ?case by (simp add: pairs_walked_def)
next
  case (Cons p ps)
  obtain i e a where p: "p = (i, e, a)" by (cases p) auto
  have "i < length (st_results st)" using Cons.prems [of i e a] p by simp
  from one_pair_walked [OF ranked fuel this] obtain s1 where
    1: "infer_type n I e a (st\<lparr>st_current := i, st_visited := {}\<rparr>) = Some s1" "pairs_walked I (type_meaning I rank) {(i, e, a)} st s1"
    by blast
  have "j < length (st_results s1)" if "(j, x, y) \<in> set ps" for j x y
    using Cons.prems [of j x y] that pairs_walkedD(2) [OF 1(2)] by simp
  then have "\<exists>s2. infer_pairs n I ps s1 = Some s2 \<and> pairs_walked I (type_meaning I rank) (set ps) s1 s2" by (rule Cons.IH)
  then obtain s2 where 2: "infer_pairs n I ps s1 = Some s2" "pairs_walked I (type_meaning I rank) (set ps) s1 s2"
    by blast
  show ?case using 1(1) 2(1) pairs_walked_insert [OF 1(2) 2(2)] by (simp add: p)
qed

section \<open>Least solutions\<close>

definition row_fits ::
    "('s, 'd, 'g) inference_inputs \<Rightarrow> (type_id \<Rightarrow> 'x) \<Rightarrow> (utext, effect_row_ref) fmap \<Rightarrow> effect_row_ref option \<Rightarrow> effect_row_ref option \<Rightarrow> bool" where
  "row_fits I g \<sigma> v w =
     (case v of
        None \<Rightarrow> True
      | Some row \<Rightarrow>
          (case param_tail I row of
             None \<Rightarrow> row_class g row = row_class g (known_row w)
           | Some p \<Rightarrow>
               (w = None \<and> rr_effects row = []) \<or>
               (if rr_tail (known_row w) = Some p \<and> p \<notin> set (ii_lexical_params I)
                then row_class g row = row_class g (known_row w)
                else p |\<in>| fmdom \<sigma> \<and> row_class g (specialize_row row \<sigma>) = row_class g (known_row w))))"

definition row_solution :: "('s, 'd, 'g) inference_inputs \<Rightarrow> (type_id \<Rightarrow> 'x) \<Rightarrow> (type_id \<times> type_id) list \<Rightarrow> (utext, effect_row_ref) fmap \<Rightarrow> bool" where
  "row_solution I g pairs \<sigma> \<longleftrightarrow> (\<forall>(e, a) \<in> set pairs. \<forall>v w. row_due I (met I e a) v w \<longrightarrow> row_fits I g \<sigma> v w)"

definition extends_rows :: "(utext, effect_row_ref) fmap \<Rightarrow> (utext, effect_row_ref) fmap \<Rightarrow> bool" where
  "extends_rows \<beta> \<sigma> \<longleftrightarrow> (\<forall>p row. fmlookup \<beta> p = Some row \<longrightarrow> fmlookup \<sigma> p = Some row)"

definition rows_below :: "(type_id \<Rightarrow> 'x) \<Rightarrow> (utext, effect_row_ref) fmap \<Rightarrow> (utext, effect_row_ref) fmap \<Rightarrow> bool" where
  "rows_below g \<beta> \<sigma> \<longleftrightarrow> (\<forall>p row. fmlookup \<beta> p = Some row \<longrightarrow>
     (\<exists>row'. fmlookup \<sigma> p = Some row' \<and> rr_tail row = rr_tail row' \<and>
        effect_image g ` set (rr_effects row) \<subseteq> effect_image g ` set (rr_effects row')))"

lemma row_class_eq:
  "row_class g l = row_class g r \<longleftrightarrow>
   rr_tail l = rr_tail r \<and> effect_image g ` set (rr_effects l) = effect_image g ` set (rr_effects r)"
  by (auto simp: row_class_def fset_inject [symmetric] fset_of_list.rep_eq simp del: fset_inject)

lemma set_push_missing: "set (push_missing xs acc) = set acc \<union> set xs"
  by (induction xs arbitrary: acc) auto

definition equation_fits :: "('s, 'd, 'g) inference_inputs \<Rightarrow> (effect_ref \<Rightarrow> 'y) \<Rightarrow> (utext, effect_row_ref) fmap \<Rightarrow> row_equation \<Rightarrow> bool" where
  "equation_fits I \<epsilon> \<sigma> q \<longleftrightarrow>
     (if self_tail I q then \<epsilon> ` set (re_fixed q) = \<epsilon> ` set (rr_effects (re_actual q))
      else \<exists>row. fmlookup \<sigma> (re_parameter q) = Some row \<and> solves \<epsilon> row q)"

lemma param_tailD: "param_tail I row = Some p \<Longrightarrow> rr_tail row = Some p"
  by (simp add: param_tail_def split: option.splits if_splits)

lemma row_fits_iff:
  "row_fits I g \<sigma> v w \<longleftrightarrow> row_agrees I g v w \<and> (\<forall>q. row_asks I i v w = Some q \<longrightarrow> equation_fits I (effect_image g) \<sigma> q)"
proof (cases v)
  case (Some row)
  show ?thesis
  proof (cases "param_tail I row")
    case None
    with Some show ?thesis by (simp add: row_fits_def row_agrees_def row_asks_def)
  next
    case tail: (Some p)
    show ?thesis
    proof (cases "w = None \<and> rr_effects row = []")
      case True
      with Some tail show ?thesis by (simp add: row_fits_def row_agrees_def row_asks_def)
    next
      case False
      let ?q = "\<lparr>re_parameter = p, re_fixed = rr_effects row, re_actual = known_row w, re_origin = i\<rparr>"
      have asks: "row_asks I i v w = Some ?q" using Some tail False by (simp add: row_asks_def)
      have t: "rr_tail row = Some p" by (rule param_tailD [OF tail])
      have self: "self_tail I ?q \<longleftrightarrow> rr_tail (known_row w) = Some p \<and> p \<notin> set (ii_lexical_params I)" by (simp add: self_tail_def)
      have "(p |\<in>| fmdom \<sigma> \<and> row_class g (specialize_row row \<sigma>) = row_class g (known_row w)) \<longleftrightarrow>
          (\<exists>b. fmlookup \<sigma> p = Some b \<and> solves (effect_image g) b ?q)"
      proof (cases "fmlookup \<sigma> p")
        case None
        then show ?thesis by (auto simp: fmlookup_dom_iff)
      next
        case b: (Some b)
        have "p |\<in>| fmdom \<sigma>" using b by (rule fmdomI)
        then show ?thesis using b t by (simp add: row_class_eq specialize_row_def set_push_missing image_Un solves_def)
      qed
      moreover have "row_agrees I g v w" using Some tail by (simp add: row_agrees_def)
      moreover have "row_class g row = row_class g (known_row w) \<longleftrightarrow>
          effect_image g ` set (rr_effects row) = effect_image g ` set (rr_effects (known_row w))" if "rr_tail (known_row w) = Some p"
        using that t by (simp add: row_class_eq)
      moreover have "row_fits I g \<sigma> v w \<longleftrightarrow>
          (if self_tail I ?q then row_class g row = row_class g (known_row w)
           else p |\<in>| fmdom \<sigma> \<and> row_class g (specialize_row row \<sigma>) = row_class g (known_row w))"
        unfolding row_fits_def self using Some tail False by auto
      ultimately show ?thesis using self by (auto simp: asks equation_fits_def)
    qed
  qed
qed (simp add: row_fits_def row_agrees_def row_asks_def)

definition all_fit :: "('s, 'd, 'g) inference_inputs \<Rightarrow> (effect_ref \<Rightarrow> 'y) \<Rightarrow> (utext, effect_row_ref) fmap \<Rightarrow> row_equation list \<Rightarrow> bool" where
  "all_fit I \<epsilon> \<sigma> qs \<longleftrightarrow> (\<forall>q \<in> set qs. equation_fits I \<epsilon> \<sigma> q)"

lemma all_fitD:
  assumes "all_fit I \<epsilon> \<sigma> qs" "q \<in> set qs"
  shows "self_tail I q \<Longrightarrow> \<epsilon> ` set (re_fixed q) = \<epsilon> ` set (rr_effects (re_actual q))"
    and "\<not> self_tail I q \<Longrightarrow> \<exists>row. fmlookup \<sigma> (re_parameter q) = Some row \<and> solves \<epsilon> row q"
  using assms by (simp_all add: all_fit_def equation_fits_def)

lemma fits_group_ok:
  assumes "all_fit I \<epsilon> \<sigma> qs" "extends_rows \<beta> \<sigma>"
  shows "group_ok I \<epsilon> (fmlookup \<beta> p) (group_of qs p)"
proof -
  define row where "row = (case fmlookup \<sigma> p of Some row \<Rightarrow> row | None \<Rightarrow> empty_row)"
  have "fmlookup \<beta> p = None \<or> fmlookup \<beta> p = Some row"
    using assms(2) by (cases "fmlookup \<beta> p") (auto simp: extends_rows_def row_def)
  moreover have "solves \<epsilon> row q" if "q \<in> set (group_of qs p)" "\<not> self_tail I q" for q
    using all_fitD(2) [OF assms(1), of q] that by (auto simp: group_of_def row_def)
  moreover have "\<epsilon> ` set (re_fixed q) = \<epsilon> ` set (rr_effects (re_actual q))" if "q \<in> set (group_of qs p)" "self_tail I q" for q
    using all_fitD(1) [OF assms(1), of q] that by (simp add: group_of_def)
  ultimately show ?thesis unfolding group_ok_def by blast
qed

lemma groups_fit:
  assumes "groups_solved I \<epsilon> qs (re_parameter ` set qs) st st'" "all_match st'"
  shows "all_fit I \<epsilon> (st_bindings st') qs"
  unfolding all_fit_def
proof
  fix q assume q: "q \<in> set qs"
  let ?p = "re_parameter q" let ?b = "fmlookup (st_bindings st) ?p"
  have g: "q \<in> set (group_of qs ?p)" using q by (simp add: group_of_def)
  have ok: "group_ok I \<epsilon> ?b (group_of qs ?p)" and bound: "group_bound I \<epsilon> ?b (group_of qs ?p) (fmlookup (st_bindings st') ?p)"
    using assms q unfolding groups_solved_def by blast+
  show "equation_fits I \<epsilon> (st_bindings st') q"
  proof (cases "self_tail I q")
    case True
    with ok g show ?thesis unfolding group_ok_def equation_fits_def by simp
  next
    case False
    with bound g show ?thesis unfolding group_bound_def equation_fits_def by (auto split: if_splits)
  qed
qed

lemma groups_least:
  assumes solved: "groups_solved I (effect_image g) qs (re_parameter ` set qs) st st'" "all_match st'"
    and \<sigma>: "all_fit I (effect_image g) \<sigma> qs" "extends_rows (st_bindings st) \<sigma>"
  shows "rows_below g (st_bindings st') \<sigma>"
  unfolding rows_below_def
proof (intro allI impI)
  let ?\<epsilon> = "effect_image g"
  fix p row assume row: "fmlookup (st_bindings st') p = Some row"
  show "\<exists>row'. fmlookup \<sigma> p = Some row' \<and> rr_tail row = rr_tail row' \<and> ?\<epsilon> ` set (rr_effects row) \<subseteq> ?\<epsilon> ` set (rr_effects row')"
  proof (cases "fmlookup (st_bindings st) p")
    case (Some r)
    then have "fmlookup (st_bindings st') p = Some r" using solved(1) by (simp add: groups_solved_def)
    with row have "r = row" by simp
    with Some \<sigma>(2) show ?thesis by (auto simp: extends_rows_def)
  next
    case None
    have p: "p \<in> re_parameter ` set qs"
    proof (rule ccontr)
      assume "p \<notin> re_parameter ` set qs"
      then have "fmlookup (st_bindings st') p = fmlookup (st_bindings st) p" using solved(1) unfolding groups_solved_def by blast
      with row None show False by simp
    qed
    then have "group_bound I ?\<epsilon> None (group_of qs p) (Some row)"
      using solved None row unfolding groups_solved_def by metis
    then obtain q where least: "least_row I ?\<epsilon> (group_of qs p) row" and q: "q \<in> set (group_of qs p)" "\<not> self_tail I q"
      by (auto simp: group_bound_def split: if_splits)
    have q': "q \<in> set qs" "re_parameter q = p" using q(1) by (simp_all add: group_of_def)
    obtain row' where row': "fmlookup \<sigma> p = Some row'"
      using all_fitD(2) [OF \<sigma>(1) q'(1) q(2)] q'(2) by auto
    have "\<forall>q \<in> set (group_of qs p). \<not> self_tail I q \<longrightarrow> solves ?\<epsilon> row' q"
      using all_fitD(2) [OF \<sigma>(1)] row' by (fastforce simp: group_of_def)
    with least row' show ?thesis unfolding least_row_def by blast
  qed
qed

definition start_state :: "(type_id \<times> type_id) list \<Rightarrow> (utext, effect_row_ref) fmap \<Rightarrow> inference_state" where
  "start_state pairs bindings = \<lparr>st_bindings = bindings, st_results = replicate (length pairs) fresh_inference, st_current = 0,
     st_equations = [], st_visited = {}\<rparr>"

lemma start_state_simps [simp]:
  "st_bindings (start_state pairs \<beta>) = \<beta>" "length (st_results (start_state pairs \<beta>)) = length pairs"
  "st_equations (start_state pairs \<beta>) = []" "all_match (start_state pairs \<beta>)"
  by (simp_all add: start_state_def all_match_def fresh_inference_def)

lemma row_asks_origin: "row_asks I i v w = Some q \<Longrightarrow> re_origin q = i"
  by (auto simp: row_asks_def split: option.splits if_splits)

lemma walked_equations:
  assumes "pairs_walked I g (set (enumerate 0 pairs)) (start_state pairs \<beta>) st" "all_match st"
  shows "row_solution I g pairs \<sigma> \<longleftrightarrow> all_fit I (effect_image g) \<sigma> (st_equations st)"
proof
  assume sol: "row_solution I g pairs \<sigma>"
  show "all_fit I (effect_image g) \<sigma> (st_equations st)"
    unfolding all_fit_def
  proof
    fix q assume "q \<in> set (st_equations st)"
    then obtain i e a v w where q: "(i, e, a) \<in> set (enumerate 0 pairs)" "row_due I (met I e a) v w" "row_asks I i v w = Some q"
      using pairs_walkedD(4) [OF assms(1)] by (metis empty_iff empty_set start_state_simps(3))
    have "(e, a) \<in> set pairs" using q(1) by (auto simp: in_set_enumerate_eq dest: nth_mem)
    then have "row_fits I g \<sigma> v w" using sol q(2) unfolding row_solution_def by blast
    then show "equation_fits I (effect_image g) \<sigma> q" using q(3) row_fits_iff by blast
  qed
next
  assume fit: "all_fit I (effect_image g) \<sigma> (st_equations st)"
  have "row_fits I g \<sigma> v w" if ea: "(e, a) \<in> set pairs" and due: "row_due I (met I e a) v w" for e a v w
  proof -
    obtain j where "j < length pairs" "pairs ! j = (e, a)" using ea by (auto simp: in_set_conv_nth)
    then have i: "(j, e, a) \<in> set (enumerate 0 pairs)" by (simp add: in_set_enumerate_eq)
    have "row_agrees I g v w" "set_option (row_asks I j v w) \<subseteq> set (st_equations st)"
      using pairs_walkedD(7) [OF assms i due] by simp_all
    then show ?thesis using fit row_fits_iff [of I g \<sigma> v w j] by (auto simp: all_fit_def)
  qed
  then show "row_solution I g pairs \<sigma>" unfolding row_solution_def by blast
qed

lemma walked_fails:
  assumes "pairs_walked I g (set (enumerate 0 pairs)) (start_state pairs \<beta>) st" "\<not> all_match st"
  shows "\<not> row_solution I g pairs \<sigma>"
proof
  assume sol: "row_solution I g pairs \<sigma>"
  obtain i e a v w where q: "(i, e, a) \<in> set (enumerate 0 pairs)" "row_due I (met I e a) v w" "\<not> row_agrees I g v w"
    using pairs_walkedD(6) [OF assms(1) start_state_simps(4) assms(2)] by blast
  have "(e, a) \<in> set pairs" using q(1) by (auto simp: in_set_enumerate_eq dest: nth_mem)
  then have "row_fits I g \<sigma> v w" using sol q(2) unfolding row_solution_def by blast
  then show False using q(3) row_fits_iff by blast
qed


lemma row_example_run:
  "infer_scoped_bindings_from_pairs 2 row_example [(1, 2)] fmempty =
   Some ([\<lparr>ri_matches = True, ri_deferred = {}, ri_deferred_fixed = [],
            ri_concrete = [(lit ''e'', EffectRowRef [EffectRef (lit ''Log'') []] None,
              EffectRowRef [EffectRef (lit ''Log'') [], EffectRef (lit ''Net'') [ArgType 0]] None)]\<rparr>],
     fmupd (lit ''e'') (EffectRowRef [EffectRef (lit ''Net'') [ArgType 0]] None) fmempty)"
  by (simp add: infer_scoped_bindings_from_pairs_def numeral_2_eq_2 row_example_get obligations_def infer_data_def infer_all_def fresh_inference_def
    infer_row_binding_def param_tail_def solve_row_equations_def record_concrete_def self_tail_def update_result_def
    solve_group_def gather_def effects_within_def residual_effects_def effect_refs_equivalent_def args_equivalent_def
    equation_holds_def still_matches_def Let_def)

section \<open>Properties\<close>

text \<open>C14. Effect-row inference is exact. Over types whose references are not circular it always answers,
  keeps the bindings it was given, and reports that every pair matches exactly when rows for the
  parameters exist that make every pair of corresponding effect rows equal, as sets of effects with a
  tail. In that case the bindings it returns are such rows, and the least ones: every other choice that
  extends the given bindings has the same tails and at least the same effects.\<close>

theorem row_inference_exact:
  fixes I :: "('s, 'd, 'g) inference_inputs"
  assumes ranked: "ranked I rank" and fuel: "\<And>t. rank t < n"
  shows "\<exists>results bindings'. infer_scoped_bindings_from_pairs n I pairs bindings = Some (results, bindings') \<and>
    length results = length pairs \<and> extends_rows bindings bindings' \<and>
    ((\<forall>r \<in> set results. ri_matches r) \<longleftrightarrow> (\<exists>\<sigma>. extends_rows bindings \<sigma> \<and> row_solution I (type_meaning I rank) pairs \<sigma>)) \<and>
    ((\<forall>r \<in> set results. ri_matches r) \<longrightarrow> row_solution I (type_meaning I rank) pairs bindings' \<and>
      (\<forall>\<sigma>. extends_rows bindings \<sigma> \<longrightarrow> row_solution I (type_meaning I rank) pairs \<sigma> \<longrightarrow> rows_below (type_meaning I rank) bindings' \<sigma>))"
proof -
  let ?g = "type_meaning I rank" and ?s = "start_state pairs bindings"
  have "i < length (st_results ?s)" if "(i, e, a) \<in> set (enumerate 0 pairs)" for i e a using that by (simp add: in_set_enumerate_eq)
  then have "\<exists>s1. infer_pairs n I (enumerate 0 pairs) ?s = Some s1 \<and> pairs_walked I ?g (set (enumerate 0 pairs)) ?s s1"
    by (rule infer_pairs_walked [OF ranked fuel])
  then obtain s1 where s1: "infer_pairs n I (enumerate 0 pairs) ?s = Some s1" "pairs_walked I ?g (set (enumerate 0 pairs)) ?s s1"
    by blast
  note kept = pairs_walkedD(1,2) [OF s1(2), simplified]
  have "valid_origin s1 q" if "q \<in> set (st_equations s1)" for q
    using pairs_walkedD(4) [OF s1(2) that] kept(2) by (auto simp: in_set_enumerate_eq valid_origin_def dest: row_asks_origin)
  then obtain s2 where s2: "solve_row_equations n I s1 = Some s2"
      "groups_solved I (effect_image ?g) (st_equations s1) (re_parameter ` set (st_equations s1)) s1 s2"
    using solve_row_equations_solved [OF ranked fuel] by blast
  have run: "infer_scoped_bindings_from_pairs n I pairs bindings = Some (st_results s2, st_bindings s2)"
    using s1(1) s2(1) by (simp add: infer_scoped_bindings_from_pairs_def start_state_def)
  have len: "length (st_results s2) = length pairs" and ext: "extends_rows bindings (st_bindings s2)"
    and m: "all_match s2 \<longleftrightarrow> all_match s1 \<and> (\<forall>p \<in> re_parameter ` set (st_equations s1). group_ok I (effect_image ?g) (fmlookup bindings p) (group_of (st_equations s1) p))"
    using s2(2) kept by (simp_all add: groups_solved_def extends_rows_def)
  have fits: "row_solution I ?g pairs \<sigma> \<longleftrightarrow> all_fit I (effect_image ?g) \<sigma> (st_equations s1)" if "all_match s1" for \<sigma>
    by (rule walked_equations [OF s1(2) that])
  have sound: "row_solution I ?g pairs (st_bindings s2)" if "all_match s2"
    using fits m groups_fit [OF s2(2) that] that by blast
  have complete: "all_match s2" if "extends_rows bindings \<sigma>" "row_solution I ?g pairs \<sigma>" for \<sigma>
  proof -
    have "all_match s1" using walked_fails [OF s1(2)] that(2) by blast
    then show ?thesis using m fits that fits_group_ok by blast
  qed
  have least: "rows_below ?g (st_bindings s2) \<sigma>" if "all_match s2" "extends_rows bindings \<sigma>" "row_solution I ?g pairs \<sigma>" for \<sigma>
    using groups_least [OF s2(2) that(1)] fits m that kept(1) by simp
  have "(\<forall>r \<in> set (st_results s2). ri_matches r) \<longleftrightarrow> all_match s2" by (simp add: all_match_def)
  then show ?thesis using run len ext sound complete least by blast
qed


theorem row_inference_exact_witness:
  "infer_scoped_bindings_from_pairs 2 row_example [(1, 2)] fmempty =
     Some ([\<lparr>ri_matches = True, ri_deferred = {}, ri_deferred_fixed = [],
            ri_concrete = [(lit ''e'', EffectRowRef [EffectRef (lit ''Log'') []] None,
              EffectRowRef [EffectRef (lit ''Log'') [], EffectRef (lit ''Net'') [ArgType 0]] None)]\<rparr>],
       fmupd (lit ''e'') (EffectRowRef [EffectRef (lit ''Net'') [ArgType 0]] None) fmempty) \<and>
   row_solution row_example (type_meaning row_example row_example_rank) [(1, 2)]
     (fmupd (lit ''e'') (EffectRowRef [EffectRef (lit ''Net'') [ArgType 0]] None) fmempty)"
  using row_inference_exact [OF row_example_ranks, of "[(1, 2)]" fmempty] row_example_run by simp

end
