(* ===== verification/Spec2Isabelle.thy ===== *)
theory Spec2Isabelle
  imports Etas_Parser_Entry Etas_Hybrid Etas_Monitor_Facts Etas_Unify_Facts Etas_Literal_Facts Etas_Substitute_Ends Etas_Row_Walk
begin

text \<open>
  A verification library for the front end of the Etas language.

  \<^bold>\<open>The program.\<close> The front end turns source text into checked code. Its crates are
  \<open>etas_syntax\<close> (tokens, lexer, parser), \<open>etas_hir\<close> (the intermediate representation),
  \<open>etas_hir_analysis\<close> (alias analysis), \<open>etas_types\<close> (the type checker), \<open>etas_effects\<close>
  (effects, traces, temporal requirements) and \<open>etas_frontend\<close> (passes, sessions, package
  metadata). The library models the parts that carry the logic of these crates from the
  bottom up: each theory names the source files it translates.

  \<^bold>\<open>Syntax.\<close> \<open>Etas_Token\<close> and \<open>Etas_Lexer\<close> model \<open>token.rs\<close>, \<open>trivia.rs\<close> and \<open>lexer.rs\<close>: byte
  offsets into UTF-8 text, the scanning loops, polling and diagnostics. The lexer is shown to equal a
  reference that splits the text into lexemes, to segment the source and to lose no
  character. \<open>Etas_Cursor\<close>, \<open>Etas_Parser\<close>, \<open>Etas_Parser_Rules\<close> and \<open>Etas_Parser_Entry\<close> model
  \<open>cursor.rs\<close>, \<open>parser.rs\<close>, \<open>body_limits.rs\<close> and \<open>grammar/recovery.rs\<close>: expectations, recovery,
  delimited lists, recursion and resource budgets and the entry points. The grammar rules
  are a parameter; what the core promises for every rule is proved: it never
  panics, it ends, it consumes only forward, and the budgets are exact.

  \<^bold>\<open>Alias analysis.\<close> \<open>Etas_Lattice\<close> states the join laws of an abstract domain as the locale
  \<open>join_domain\<close>; \<open>Etas_Control\<close>, \<open>Etas_Place\<close> and \<open>Etas_Alias_Domain\<close> model
  \<open>intraprocedural/control.rs\<close>, \<open>alias/place.rs\<close>, \<open>alias/context.rs\<close>, \<open>alias/config.rs\<close> and
  \<open>alias/domain.rs\<close> and interpret it. \<open>Etas_Alias_Solver\<close> holds the three solvers of
  \<open>alias/solver/*.rs\<close>, \<open>Etas_Inclusion\<close>, \<open>Etas_Unification\<close> and \<open>Etas_Hybrid\<close> their proofs: every
  solver returns, covers the seeds and satisfies the constraints it claims to satisfy,
  and the inclusion solver finds the least solution.

  \<^bold>\<open>Effects.\<close> \<open>Etas_Effect\<close> and \<open>Etas_Support\<close> model effect rows, the extension graph, requirement
  sets and support levels (\<open>effect/*.rs\<close>, \<open>requirement/*.rs\<close>, \<open>infer/domain.rs\<close>); \<open>Etas_Registry\<close> and
  \<open>Etas_Registry_Facts\<close> the registry of tags and actions and its construction from the standard
  library, package metadata and the program; \<open>Etas_Coverage\<close> the coverage relation between rows.
  \<open>Etas_Trace\<close> and \<open>Etas_Trace_Runs\<close> model action traces and give them a meaning as sets of
  executions, over which sequence, choice, repetition and widening are sound; the locale
  \<open>trace_collector\<close> carries the induction that the collecting functions share. \<open>Etas_Monitor\<close> and
  \<open>Etas_Monitor_Facts\<close> model the temporal monitor (\<open>trace_spec/monitor/*.rs\<close>): its verdicts are correct
  for every compiled automaton that meets the contract of the locale \<open>prior_monitor\<close>.

  \<^bold>\<open>Types.\<close> \<open>Etas_Types\<close> and \<open>Etas_Types_Facts\<close> model the type store and the interner
  (\<open>ty/{mod,nominal,primitive,row,store}.rs\<close>): every interner the code can make is well formed,
  interning is one-to-one on canonical forms, declarations never share an identifier, and stores
  survive freezing, writing and reading. \<open>Etas_Unify\<close> and \<open>Etas_Unify_Facts\<close> model the unifier and
  assignability (\<open>solver/{unification,assignability}.rs\<close>): unification is sound for a declarative
  relation of agreement and decides it where there are no variables. \<open>Etas_Literal\<close> and
  \<open>Etas_Literal_Facts\<close> model \<open>solver/numeric_literal.rs\<close>: integer and floating-point literals are
  accepted exactly when their text is in the grammar and their value in the range of the target.
  \<open>Etas_Substitute\<close> models the substitution engine (\<open>ty/substitution.rs\<close>,
  \<open>ty/substitution/rows.rs\<close>): bindings, memo tables, the types it is inside of, the lookup index and
  the polling. In \<open>Etas_Substitute_Facts\<close>, \<open>Etas_Substitute_Sound\<close> and \<open>Etas_Substitute_Ends\<close> its
  answers are those of a declarative relation, it only adds to the store, it returns, the identity
  substitution gives back the type, and an argument is accepted exactly when it is closed.
  The locales \<open>engine_steps\<close>, \<open>engine_relation\<close>, \<open>sound_calls\<close> and \<open>answering_calls\<close> carry the
  inductions that these proofs share over the members of a type.
  \<open>Etas_Row_Infer\<close> models the inference of effect rows (\<open>solver/effect_row.rs\<close>). \<open>Etas_Row_Meaning\<close>
  gives a type the tree that is left when variables and names are followed and shows that the
  comparisons decide equality of trees; \<open>Etas_Row_Solve\<close> that the equations of a parameter get their
  least solution; \<open>Etas_Row_Walk\<close> that the walk over pairs of types collects exactly the rows that
  correspond, so that inference succeeds exactly when a solution exists and returns the least one.

  \<^bold>\<open>Modelling.\<close> Structures are records, enumerations are datatypes, errors are sums, panics are
  \<open>None\<close> or \<open>Panic\<close>, vectors are lists. Ordered maps and sets are finite maps and sets, walked in key
  order where the order can be observed; hash maps are partial functions. A computation that polls
  its caller counts the polls and the properties speak of the first that fails. Identifiers are
  natural numbers and wrap where the code casts to 32 bits. Loops that the code bounds are total
  functions with a measure; loops of the parser and of the union-find are partial functions in the
  option monad, and are proved to return. The unifier counts nested calls: more than the
  identifier of the left type are enough on stores without variables, and with variables there
  are bindings for which no number is. The substitution engine counts nested calls too: a bound
  computed from the types within reach and the depth of the bindings is enough. For row inference any
  bound above the ranks of the types is enough, where a rank falls along every reference.

  \<^bold>\<open>Parameters.\<close> Code outside the repository is a parameter: spans, Unicode classes, the
  automata compiler, the standard library registry, definition keys and their
  digests, the hash function of the lookup index, the test for declared specifications and the
  answer of the caller to each poll. What is assumed of them is a named predicate, and each property that uses one has a
  witness with a concrete instance.

  \<^bold>\<open>Not modelled.\<close> The syntax tree and the grammar rules that build it, and what needs them: lowering,
  the intermediate representation, the walks of the alias and effect analyses over it, the
  constraint generation of the type checker and the passes of the session. Dumps and formatting are
  output only. Package metadata and code descriptors are data of other packages.
\<close>

end
